(* ===== verification/Bridge_Prelude.thy ===== *)
theory Bridge_Prelude
  imports Main "HOL-Library.Word"
begin

section \<open>Shared vocabulary of the development\<close>

text \<open>
  Types and generic lemmas used by every component theory.

  \<^item> Go's \<^verbatim>\<open>uint64\<close> and \<^verbatim>\<open>int64\<close> are \<open>64 word\<close> (arithmetic wraps, \<open>unat\<close> and \<open>sint\<close>
    read the value); a \<^verbatim>\<open>time.Time\<close> is an \<open>int\<close> (nanoseconds on one clock), a
    \<^verbatim>\<open>time.Duration\<close> likewise.
  \<^item> A call that returns \<^verbatim>\<open>(T, error)\<close> has the sum type \<open>err + 'a\<close>, \<open>Inl\<close> for the error.
  \<^item> Loops of the form \<^verbatim>\<open>for _, e := range es { if P(e) { mutate e; return } }\<close> are
    \<open>update_first\<close>; loops that stop at the first error are \<open>iter_err\<close>.
\<close>

type_synonym uint64 = "64 word"
type_synonym int64 = "64 word"
type_synonym gotime = int

text \<open>The two values \<^verbatim>\<open>ctx.Err()\<close> can have once \<^verbatim>\<open>ctx.Done()\<close> is closed.\<close>

datatype ctx_error = Canceled | DeadlineExceeded

named_theorems op_defs \<open>unfolding rules of the modelled operations\<close>
named_theorems inv_intro \<open>preservation of component invariants\<close>

subsection \<open>Updating the first match of a slice\<close>

fun update_first :: "('a \<Rightarrow> bool) \<Rightarrow> ('a \<Rightarrow> 'a) \<Rightarrow> 'a list \<Rightarrow> 'a list" where
  "update_first P f [] = []"
| "update_first P f (x # xs) = (if P x then f x # xs else x # update_first P f xs)"

lemma length_update_first [simp]: "length (update_first P f xs) = length xs"
  by (induction xs) auto

lemma update_first_eq_Nil [simp]: "update_first P f xs = [] \<longleftrightarrow> xs = []"
  by (cases xs) auto

lemma map_update_first:
  assumes "\<And>x. g (f x) = g x"
  shows "map g (update_first P f xs) = map g xs"
  using assms by (induction xs) auto

lemma set_update_firstD:
  "y \<in> set (update_first P f xs) \<Longrightarrow> y \<in> set xs \<or> (\<exists>x \<in> set xs. P x \<and> y = f x)"
  by (induction xs) (auto split: if_splits)

lemma update_first_none: "\<forall>x \<in> set xs. \<not> P x \<Longrightarrow> update_first P f xs = xs"
  by (induction xs) auto

lemma update_first_unique:
  assumes "distinct (map k xs)"
  shows "update_first (\<lambda>x. k x = i) f xs = map (\<lambda>x. if k x = i then f x else x) xs"
  using assms
proof (induction xs)
  case (Cons x xs)
  show ?case
  proof (cases "k x = i")
    case True
    then have "\<forall>y \<in> set xs. k y \<noteq> i"
      using Cons.prems by (metis distinct.simps(2) image_eqI list.map(2) list.set_map)
    then have "map (\<lambda>x. if k x = i then f x else x) xs = xs" by (simp add: map_idI)
    with True show ?thesis by simp
  next
    case False
    with Cons show ?thesis by simp
  qed
qed simp

subsection \<open>Searching a slice\<close>

text \<open>\<open>List.find\<close> is the loop that returns the first match.\<close>

lemma find_SomeD: "find P xs = Some x \<Longrightarrow> x \<in> set xs \<and> P x"
  by (induction xs) (auto split: if_splits)

lemma find_None_iff_all: "find P xs = None \<longleftrightarrow> (\<forall>x \<in> set xs. \<not> P x)"
  by (induction xs) auto

lemma find_ex: "x \<in> set xs \<Longrightarrow> P x \<Longrightarrow> \<exists>y. find P xs = Some y"
  by (cases "find P xs") (auto simp: find_None_iff_all)

lemma find_append_none: "find P xs = None \<Longrightarrow> find P (xs @ ys) = find P ys"
  by (induction xs) (auto split: if_splits)

subsection \<open>Loops that stop at the first error\<close>

fun iter_err :: "('a \<Rightarrow> 's \<Rightarrow> ('e option \<times> 's)) \<Rightarrow> 'a list \<Rightarrow> 's \<Rightarrow> ('e option \<times> 's)" where
  "iter_err f [] s = (None, s)"
| "iter_err f (x # xs) s =
     (case f x s of (Some e, s') \<Rightarrow> (Some e, s') | (None, s') \<Rightarrow> iter_err f xs s')"

lemma iter_err_append:
  "iter_err f (xs @ ys) s =
     (case iter_err f xs s of (Some e, s') \<Rightarrow> (Some e, s') | (None, s') \<Rightarrow> iter_err f ys s')"
  by (induction xs arbitrary: s) (auto split: prod.splits option.splits)

lemma iter_err_invariant:
  assumes "\<And>x s e s'. x \<in> set xs \<Longrightarrow> I s \<Longrightarrow> f x s = (e, s') \<Longrightarrow> I s'"
    and "I s" and "iter_err f xs s = (e, s')"
  shows "I s'"
  using assms
proof (induction xs arbitrary: s)
  case Nil
  then show ?case by simp
next
  case (Cons x xs)
  obtain e1 s1 where fx: "f x s = (e1, s1)" by (cases "f x s")
  have "I s1" using Cons.prems(1)[of x s e1 s1] Cons.prems(2) fx by simp
  show ?case
  proof (cases e1)
    case None
    then have "iter_err f xs s1 = (e, s')" using Cons.prems(3) fx by simp
    moreover have "\<And>y t e' t'. y \<in> set xs \<Longrightarrow> I t \<Longrightarrow> f y t = (e', t') \<Longrightarrow> I t'"
      using Cons.prems(1) by (meson list.set_intros(2))
    ultimately show ?thesis using Cons.IH \<open>I s1\<close> by blast
  next
    case (Some err)
    then show ?thesis using Cons.prems(3) fx \<open>I s1\<close> by simp
  qed
qed

subsection \<open>Counters\<close>

lemma word_inc_gt: "(c :: 'a::len word) \<noteq> - 1 \<Longrightarrow> a \<le> c \<Longrightarrow> a < c + 1"
  by (metis inc_less_eq_iff linorder_not_le order_refl order_trans)

text \<open>
  \<^verbatim>\<open>slices.Contains\<close>, \<^verbatim>\<open>slices.Index\<close>: membership and the first position of an element.
\<close>

fun index_of :: "'a \<Rightarrow> 'a list \<Rightarrow> nat option" where
  "index_of x [] = None"
| "index_of x (y # ys) = (if x = y then Some 0 else map_option Suc (index_of x ys))"

lemma index_of_None [simp]: "index_of x xs = None \<longleftrightarrow> x \<notin> set xs"
  by (induction xs) auto

lemma index_of_Some: "index_of x xs = Some i \<Longrightarrow> i < length xs \<and> xs ! i = x"
  by (induction xs arbitrary: i) (auto split: if_splits)

lemma remove1_index_of:
  "index_of x xs = Some i \<Longrightarrow> take i xs @ drop (Suc i) xs = remove1 x xs"
  by (induction xs arbitrary: i) (auto split: if_splits)

text \<open>How the addresses of an account are presented to clients (\<^verbatim>\<open>usertypes.AddressMode\<close>).\<close>

datatype AddressMode = AddressModeCombined | AddressModeSplit

text \<open>The user agent before a client has named itself (\<^verbatim>\<open>internal/useragent\<close>).\<close>

definition DefaultUserAgent :: string where "DefaultUserAgent = ''NoClient/0.0.1''"

end
