(* ===== verification/Send_Recorder.thy ===== *)
theory Send_Recorder
  imports Bridge_Prelude
begin

section \<open>The send recorder\<close>

text \<open>
  Model of \<^verbatim>\<open>internal/services/sendrecorder/recorder.go\<close>: the table that keeps Bridge from
  sending one message twice. Every operation runs under \<^verbatim>\<open>entriesLock\<close>, so each is one atomic
  state change; \<open>TryInsertWait\<close> and \<open>HasEntryWait\<close>, which block on a channel between two locked
  sections, are the phases of a client of the step relation \<open>recorder_step\<close> at the end.

  Channels are cells of a small heap: \<open>nextCh\<close> is the next cell \<^verbatim>\<open>make(chan struct{})\<close> returns
  and \<open>closedChs\<close> holds the closed ones, so closing a closed channel, which panics in Go, is
  visible. The wall clock is a parameter: \<open>clk e\<close> is the value \<^verbatim>\<open>time.Now()\<close> returned when the
  entry \<open>e\<close> was tested, \<open>now\<close> the value it returned when an entry was made.
\<close>

subsection \<open>State\<close>

type_synonym ID = uint64
type_synonym chan = nat

record sendEntry =
  srID :: ID
  msgID :: string
  toList :: "string list"
  exp :: gotime
  waitCh :: chan
  waitChClosed :: bool

record SendRecorder =
  expiry :: gotime
  entries :: "string \<rightharpoonup> sendEntry list"
  cancelIDCounter :: uint64
  nextCh :: chan
  closedChs :: "chan list"

definition SendEntryExpiry :: gotime where
  "SendEntryExpiry = 30 * 60 * 1000000000"

definition NewSendRecorder :: "gotime \<Rightarrow> SendRecorder" where
  "NewSendRecorder expi =
     \<lparr>expiry = expi, entries = Map.empty, cancelIDCounter = 0, nextCh = 0, closedChs = []\<rparr>"

text \<open>Go's \<^verbatim>\<open>close\<close>: a panic (\<open>None\<close>) on a channel that is closed already.\<close>

definition go_close :: "chan \<Rightarrow> chan list \<Rightarrow> chan list option" where
  "go_close c cl = (if c \<in> set cl then None else Some (c # cl))"

definition closeWaitChannel :: "sendEntry \<Rightarrow> chan list \<Rightarrow> (sendEntry \<times> chan list) option" where
  "closeWaitChannel e cl =
     (if \<not> waitChClosed e
      then map_option (\<lambda>cl'. (e\<lparr>waitChClosed := True\<rparr>, cl')) (go_close (waitCh e) cl)
      else Some (e, cl))"

subsection \<open>Operations\<close>

definition matchToList :: "string list \<Rightarrow> string list \<Rightarrow> bool" where
  "matchToList a b \<longleftrightarrow>
     length a = length b \<and>
     list_all (\<lambda>x. x \<in> set b) a \<and>
     list_all (\<lambda>x. x \<in> set a) b"

definition newSendRecorderID :: "SendRecorder \<Rightarrow> SendRecorder \<times> ID" where
  "newSendRecorderID h =
     (let c = cancelIDCounter h + 1 in (h\<lparr>cancelIDCounter := c\<rparr>, c))"

definition removeExpiredUnsafe :: "(sendEntry \<Rightarrow> gotime) \<Rightarrow> SendRecorder \<Rightarrow> SendRecorder" where
  "removeExpiredUnsafe clk h =
     h\<lparr>entries := (\<lambda>hash. case entries h hash of
          None \<Rightarrow> None
        | Some es \<Rightarrow>
            let remaining = filter (\<lambda>t. \<not> exp t < clk t) es
            in if remaining = [] then None else Some remaining)\<rparr>"

definition getEntries :: "SendRecorder \<Rightarrow> string \<Rightarrow> sendEntry list" where
  "getEntries h hash = (case entries h hash of None \<Rightarrow> [] | Some es \<Rightarrow> es)"

definition TryInsert ::
  "(sendEntry \<Rightarrow> gotime) \<Rightarrow> gotime \<Rightarrow> string \<Rightarrow> string list \<Rightarrow> SendRecorder \<Rightarrow>
     SendRecorder \<times> ID \<times> chan \<times> bool" where
  "TryInsert clk now hash tos h0 =
     (let h = removeExpiredUnsafe clk h0;
          es = getEntries h hash
      in case find (\<lambda>e. matchToList (toList e) tos) es of
           Some e \<Rightarrow> (h, srID e, waitCh e, False)
         | None \<Rightarrow>
             let (h1, cancelID) = newSendRecorderID h;
                 ch = nextCh h1;
                 e = \<lparr>srID = cancelID, msgID = [], toList = tos, exp = now + expiry h1,
                      waitCh = ch, waitChClosed = False\<rparr>
             in (h1\<lparr>nextCh := Suc ch, entries := (entries h1)(hash \<mapsto> es @ [e])\<rparr>,
                 cancelID, ch, True))"

definition getEntryWaitInfo ::
  "(sendEntry \<Rightarrow> gotime) \<Rightarrow> string \<Rightarrow> string list \<Rightarrow> SendRecorder \<Rightarrow>
     SendRecorder \<times> (ID \<times> chan) option" where
  "getEntryWaitInfo clk hash tos h0 =
     (let h = removeExpiredUnsafe clk h0
      in case find (\<lambda>e. matchToList (toList e) tos) (getEntries h hash) of
           Some e \<Rightarrow> (h, Some (srID e, waitCh e))
         | None \<Rightarrow> (h, None))"

text \<open>
  The loop of \<open>SignalMessageSent\<close>: the first entry with the ID gets the message ID and its
  channel is closed; \<open>None\<close> is the panic of a double close.
\<close>

fun signal_loop ::
  "ID \<Rightarrow> string \<Rightarrow> sendEntry list \<Rightarrow> chan list \<Rightarrow> (sendEntry list \<times> chan list) option" where
  "signal_loop i mid [] cl = Some ([], cl)"
| "signal_loop i mid (e # es) cl =
     (if srID e = i
      then map_option (\<lambda>(e', cl'). (e' # es, cl')) (closeWaitChannel (e\<lparr>msgID := mid\<rparr>) cl)
      else map_option (\<lambda>(es', cl'). (e # es', cl')) (signal_loop i mid es cl))"

definition SignalMessageSent ::
  "string \<Rightarrow> ID \<Rightarrow> string \<Rightarrow> SendRecorder \<Rightarrow> SendRecorder option" where
  "SignalMessageSent hash i mid h =
     (case entries h hash of
        None \<Rightarrow> Some h
      | Some es \<Rightarrow>
          map_option (\<lambda>(es', cl'). h\<lparr>entries := (entries h)(hash \<mapsto> es'), closedChs := cl'\<rparr>)
            (signal_loop i mid es (closedChs h)))"

fun close_all :: "sendEntry list \<Rightarrow> chan list \<Rightarrow> chan list option" where
  "close_all [] cl = Some cl"
| "close_all (e # es) cl =
     (case closeWaitChannel e cl of None \<Rightarrow> None | Some (_, cl') \<Rightarrow> close_all es cl')"

definition RemoveOnFail :: "string \<Rightarrow> ID \<Rightarrow> SendRecorder \<Rightarrow> SendRecorder option" where
  "RemoveOnFail hash i h =
     (case entries h hash of
        None \<Rightarrow> Some h
      | Some es \<Rightarrow>
          let toClose = filter (\<lambda>e. srID e = i \<and> msgID e = []) es;
              toKeep = filter (\<lambda>e. srID e \<noteq> i \<or> msgID e \<noteq> []) es
          in map_option (\<lambda>cl'. h\<lparr>closedChs := cl',
                 entries := (entries h)(hash := (if toKeep \<noteq> [] then Some toKeep else None))\<rparr>)
               (close_all toClose (closedChs h)))"

text \<open>
  \<open>wait\<close> blocks in a \<^verbatim>\<open>select\<close>; the event says which case was taken. The channel case can only be
  taken once the channel is closed (nothing is ever sent on it), which the step relation
  below requires.
\<close>

datatype wait_event = CtxDone ctx_error | ChannelReady

definition wait :: "wait_event \<Rightarrow> string \<Rightarrow> ID \<Rightarrow> SendRecorder \<Rightarrow> ctx_error + string \<times> bool" where
  "wait ev hash i h =
     (case ev of
        CtxDone err \<Rightarrow> Inl err
      | ChannelReady \<Rightarrow>
          (case find (\<lambda>e. srID e = i) (getEntries h hash) of
             Some e \<Rightarrow> Inr (msgID e, True)
           | None \<Rightarrow> Inr ([], False)))"

subsection \<open>The blocking calls, phase by phase\<close>

text \<open>
  A goroutine inside \<open>TryInsertWait\<close> is trying, waiting on the channel of an entry, or has
  returned: \<open>Inserted\<close> is \<^verbatim>\<open>(srID, true, nil)\<close>, \<open>Duplicate\<close> is \<^verbatim>\<open>(srID, false, nil)\<close>,
  \<open>InsertFailed\<close> is the wrapped error.
\<close>

datatype insert_pc =
    InsertTrying
  | InsertWaiting ID chan
  | Inserted ID
  | Duplicate ID
  | InsertFailed ctx_error

definition TryInsertWait_enter ::
  "(sendEntry \<Rightarrow> gotime) \<Rightarrow> gotime \<Rightarrow> string \<Rightarrow> string list \<Rightarrow> SendRecorder \<Rightarrow>
     SendRecorder \<times> insert_pc" where
  "TryInsertWait_enter clk now hash tos h =
     (case TryInsert clk now hash tos h of
        (h', i, ch, ok) \<Rightarrow> if ok then (h', Inserted i) else (h', InsertWaiting i ch))"

definition TryInsertWait_resume ::
  "wait_event \<Rightarrow> string \<Rightarrow> ID \<Rightarrow> SendRecorder \<Rightarrow> insert_pc" where
  "TryInsertWait_resume ev hash i h =
     (case wait ev hash i h of
        Inl err \<Rightarrow> InsertFailed err
      | Inr (_, wasSent) \<Rightarrow> if \<not> wasSent then InsertTrying else Duplicate i)"

text \<open>
  Likewise \<open>HasEntryWait\<close>: \<open>HasResult m b\<close> is \<^verbatim>\<open>(m, b, nil)\<close>.
\<close>

datatype has_pc =
    HasTrying
  | HasWaiting ID chan
  | HasResult string bool
  | HasFailed ctx_error

definition HasEntryWait_enter ::
  "(sendEntry \<Rightarrow> gotime) \<Rightarrow> string \<Rightarrow> string list \<Rightarrow> SendRecorder \<Rightarrow>
     SendRecorder \<times> has_pc" where
  "HasEntryWait_enter clk hash tos h =
     (case getEntryWaitInfo clk hash tos h of
        (h', None) \<Rightarrow> (h', HasResult [] False)
      | (h', Some (i, ch)) \<Rightarrow> (h', HasWaiting i ch))"

definition HasEntryWait_resume ::
  "wait_event \<Rightarrow> string \<Rightarrow> ID \<Rightarrow> SendRecorder \<Rightarrow> has_pc" where
  "HasEntryWait_resume ev hash i h =
     (case wait ev hash i h of
        Inl DeadlineExceeded \<Rightarrow> HasResult [] False
      | Inl err \<Rightarrow> HasFailed err
      | Inr (messageID, wasSent) \<Rightarrow> if wasSent then HasResult messageID True else HasTrying)"

lemmas recorder_defs [op_defs] =
  NewSendRecorder_def go_close_def closeWaitChannel_def newSendRecorderID_def
  removeExpiredUnsafe_def getEntries_def TryInsert_def getEntryWaitInfo_def
  SignalMessageSent_def RemoveOnFail_def wait_def TryInsertWait_enter_def
  TryInsertWait_resume_def HasEntryWait_enter_def HasEntryWait_resume_def


subsection \<open>The invariant of the table\<close>

text \<open>
  \<open>recorded h hash e\<close>: the entry \<open>e\<close> is in the bucket of \<open>hash\<close>. The invariant says that
  buckets are non-empty and hold at most one entry per list of recipients, that IDs and
  channels identify an entry over the whole table, that an entry's flag agrees with its
  channel, and that IDs and channels in use were handed out earlier.
\<close>

definition recorded :: "SendRecorder \<Rightarrow> string \<Rightarrow> sendEntry \<Rightarrow> bool" where
  "recorded h hash e \<longleftrightarrow> e \<in> set (getEntries h hash)"

definition entry_ok :: "SendRecorder \<Rightarrow> sendEntry \<Rightarrow> bool" where
  "entry_ok h e \<longleftrightarrow>
     0 < srID e \<and> srID e \<le> cancelIDCounter h \<and> waitCh e < nextCh h \<and>
     (waitChClosed e \<longleftrightarrow> waitCh e \<in> set (closedChs h))"

definition unmatched :: "sendEntry \<Rightarrow> sendEntry \<Rightarrow> bool" where
  "unmatched e f \<longleftrightarrow> \<not> matchToList (toList e) (toList f)"

definition recorder_inv :: "SendRecorder \<Rightarrow> bool" where
  "recorder_inv h \<longleftrightarrow>
     (\<forall>hash. entries h hash \<noteq> Some []) \<and>
     (\<forall>hash. sorted_wrt unmatched (getEntries h hash)) \<and>
     (\<forall>hash e. recorded h hash e \<longrightarrow> entry_ok h e) \<and>
     (\<forall>hash e hash' e'. recorded h hash e \<longrightarrow> recorded h hash' e' \<longrightarrow>
        srID e = srID e' \<or> waitCh e = waitCh e' \<longrightarrow> hash = hash' \<and> e = e') \<and>
     (\<forall>c \<in> set (closedChs h). c < nextCh h)"

lemma recorder_invI:
  assumes "\<And>hash. entries h hash \<noteq> Some []"
    and "\<And>hash. sorted_wrt unmatched (getEntries h hash)"
    and "\<And>hash e. recorded h hash e \<Longrightarrow> entry_ok h e"
    and "\<And>hash e hash' e'. recorded h hash e \<Longrightarrow> recorded h hash' e' \<Longrightarrow>
           srID e = srID e' \<or> waitCh e = waitCh e' \<Longrightarrow> hash = hash' \<and> e = e'"
    and "\<And>c. c \<in> set (closedChs h) \<Longrightarrow> c < nextCh h"
  shows "recorder_inv h"
  using assms unfolding recorder_inv_def by blast

lemma recorder_invD:
  assumes "recorder_inv h"
  shows "entries h hash \<noteq> Some []"
    and "sorted_wrt unmatched (getEntries h hash)"
    and "recorded h hash e \<Longrightarrow> entry_ok h e"
    and "recorded h hash e \<Longrightarrow> recorded h hash' e' \<Longrightarrow>
           srID e = srID e' \<or> waitCh e = waitCh e' \<Longrightarrow> hash = hash' \<and> e = e'"
    and "c \<in> set (closedChs h) \<Longrightarrow> c < nextCh h"
  using assms unfolding recorder_inv_def by blast+

subsection \<open>Recipient lists\<close>

lemma matchToList_iff: "matchToList a b \<longleftrightarrow> length a = length b \<and> set a = set b"
  by (auto simp: matchToList_def list_all_iff)

lemma matchToList_refl [simp]: "matchToList a a"
  by (simp add: matchToList_iff)

lemma matchToList_sym: "matchToList a b \<Longrightarrow> matchToList b a"
  by (simp add: matchToList_iff)

lemma matchToList_trans: "matchToList a b \<Longrightarrow> matchToList b c \<Longrightarrow> matchToList a c"
  by (simp add: matchToList_iff)

lemma unmatched_sym: "unmatched e f \<Longrightarrow> unmatched f e"
  by (auto simp: unmatched_def dest: matchToList_sym)

lemma unmatched_irrefl [simp]: "\<not> unmatched e e"
  by (simp add: unmatched_def)

lemma sorted_unmatched_unique:
  assumes "sorted_wrt unmatched es" and "e \<in> set es" and "f \<in> set es"
    and "matchToList (toList e) (toList f)"
  shows "e = f"
  using assms
proof (induction es)
  case Nil
  then show ?case by simp
next
  case (Cons x xs)
  then show ?case by (auto simp: unmatched_def dest: matchToList_sym)
qed

lemma sorted_unmatched_distinct: "sorted_wrt unmatched es \<Longrightarrow> distinct es"
proof (induction es)
  case (Cons e es)
  then have "e \<notin> set es" by (metis sorted_wrt.simps(2) unmatched_irrefl)
  with Cons show ?case by simp
qed simp

lemma sorted_unmatched_map:
  "map toList es' = map toList es \<Longrightarrow> sorted_wrt unmatched es \<Longrightarrow> sorted_wrt unmatched es'"
proof -
  have "sorted_wrt unmatched xs \<longleftrightarrow> sorted_wrt (\<lambda>a b. \<not> matchToList a b) (map toList xs)" for xs
    by (simp add: sorted_wrt_map unmatched_def [abs_def])
  then show "map toList es' = map toList es \<Longrightarrow> sorted_wrt unmatched es \<Longrightarrow> sorted_wrt unmatched es'"
    by simp
qed

subsection \<open>Expiry\<close>

lemma getEntries_removeExpired [simp]:
  "getEntries (removeExpiredUnsafe clk h) hash = filter (\<lambda>t. \<not> exp t < clk t) (getEntries h hash)"
  by (auto simp: removeExpiredUnsafe_def getEntries_def Let_def split: option.splits)

lemma removeExpired_fields [simp]:
  "expiry (removeExpiredUnsafe clk h) = expiry h"
  "cancelIDCounter (removeExpiredUnsafe clk h) = cancelIDCounter h"
  "nextCh (removeExpiredUnsafe clk h) = nextCh h"
  "closedChs (removeExpiredUnsafe clk h) = closedChs h"
  by (simp_all add: removeExpiredUnsafe_def)

lemma recorded_removeExpired:
  "recorded (removeExpiredUnsafe clk h) hash e \<longleftrightarrow> recorded h hash e \<and> \<not> exp e < clk e"
  by (simp add: recorded_def)

lemma removeExpired_inv [inv_intro]:
  assumes "recorder_inv h"
  shows "recorder_inv (removeExpiredUnsafe clk h)"
proof (rule recorder_invI)
  fix hash
  show "entries (removeExpiredUnsafe clk h) hash \<noteq> Some []"
    by (auto simp: removeExpiredUnsafe_def Let_def split: option.splits)
  show "sorted_wrt unmatched (getEntries (removeExpiredUnsafe clk h) hash)"
    using recorder_invD(2)[OF assms] by (simp add: sorted_wrt_filter)
  fix e assume "recorded (removeExpiredUnsafe clk h) hash e"
  then show "entry_ok (removeExpiredUnsafe clk h) e"
    using recorder_invD(3)[OF assms] by (auto simp: recorded_removeExpired entry_ok_def)
next
  fix hash e hash' e'
  assume "recorded (removeExpiredUnsafe clk h) hash e"
    and "recorded (removeExpiredUnsafe clk h) hash' e'"
    and "srID e = srID e' \<or> waitCh e = waitCh e'"
  then show "hash = hash' \<and> e = e'"
    using recorder_invD(4)[OF assms, of hash e hash' e'] by (simp add: recorded_removeExpired)
next
  fix c assume "c \<in> set (closedChs (removeExpiredUnsafe clk h))"
  then show "c < nextCh (removeExpiredUnsafe clk h)" using recorder_invD(5)[OF assms] by simp
qed

subsection \<open>Insertion\<close>

text \<open>The entry a successful insertion makes.\<close>

definition freshEntry :: "gotime \<Rightarrow> string list \<Rightarrow> SendRecorder \<Rightarrow> sendEntry" where
  "freshEntry now tos h =
     \<lparr>srID = cancelIDCounter h + 1, msgID = [], toList = tos, exp = now + expiry h,
      waitCh = nextCh h, waitChClosed = False\<rparr>"

lemma TryInsert_cases:
  assumes "TryInsert clk now hash tos h0 = (h', i, ch, ok)"
  shows "let h = removeExpiredUnsafe clk h0 in
     (\<not> ok \<and> h' = h \<and> (\<exists>e. recorded h hash e \<and> matchToList (toList e) tos \<and> i = srID e \<and> ch = waitCh e)) \<or>
     (ok \<and> (\<forall>e. recorded h hash e \<longrightarrow> \<not> matchToList (toList e) tos) \<and>
      i = cancelIDCounter h0 + 1 \<and> ch = nextCh h0 \<and>
      h' = h\<lparr>cancelIDCounter := cancelIDCounter h0 + 1, nextCh := Suc (nextCh h0),
             entries := (entries h)(hash \<mapsto> getEntries h hash @ [freshEntry now tos h0])\<rparr>)"
  using assms
  by (auto simp: TryInsert_def newSendRecorderID_def freshEntry_def recorded_def Let_def
      find_None_iff_all dest!: find_SomeD split: option.splits)

lemma recorded_insert:
  assumes "h' = h\<lparr>cancelIDCounter := c, nextCh := n,
      entries := (entries h)(hash \<mapsto> getEntries h hash @ [x])\<rparr>"
  shows "recorded h' hash' e \<longleftrightarrow> recorded h hash' e \<or> hash' = hash \<and> e = x"
  unfolding assms recorded_def getEntries_def by (cases "hash' = hash") (simp_all add: disj_commute)

lemma freshEntry_sel [simp]:
  "srID (freshEntry now tos h) = cancelIDCounter h + 1" "msgID (freshEntry now tos h) = []"
  "toList (freshEntry now tos h) = tos" "exp (freshEntry now tos h) = now + expiry h"
  "waitCh (freshEntry now tos h) = nextCh h" "waitChClosed (freshEntry now tos h) = False"
  by (simp_all add: freshEntry_def)

text \<open>
  Adding a fresh entry to a bucket that holds no entry for the recipients keeps the invariant,
  as long as the 64-bit counter does not wrap.
\<close>

lemma insert_fresh_inv:
  assumes inv: "recorder_inv h" and nowrap: "cancelIDCounter h \<noteq> - 1"
    and free: "\<And>e. recorded h hash e \<Longrightarrow> \<not> matchToList (toList e) tos"
    and h': "h' = h\<lparr>cancelIDCounter := cancelIDCounter h + 1, nextCh := Suc (nextCh h),
                 entries := (entries h)(hash \<mapsto> getEntries h hash @ [x])\<rparr>"
    and x: "srID x = cancelIDCounter h + 1" "toList x = tos" "waitCh x = nextCh h" "\<not> waitChClosed x"
  shows "recorder_inv h'"
proof (rule recorder_invI)
  note rec = recorded_insert[OF h']
  have gt: "srID e < srID x" "waitCh e < waitCh x" if "recorded h hash0 e" for hash0 e
    using recorder_invD(3)[OF inv that] nowrap x(1,3)
    by (auto simp: entry_ok_def intro: word_inc_gt)
  fix hash0
  show "entries h' hash0 \<noteq> Some []"
    using recorder_invD(1)[OF inv, of hash0] by (simp add: h')
  show "sorted_wrt unmatched (getEntries h' hash0)"
  proof (cases "hash0 = hash")
    case True
    have "getEntries h' hash = getEntries h hash @ [x]" by (simp add: h' getEntries_def)
    then show ?thesis
      using recorder_invD(2)[OF inv, of hash] free x(2) True
      by (simp add: sorted_wrt_append recorded_def unmatched_def)
  next
    case False
    then show ?thesis using recorder_invD(2)[OF inv, of hash0] by (simp add: h' getEntries_def)
  qed
  fix e assume e: "recorded h' hash0 e"
  show "entry_ok h' e"
  proof (cases "recorded h hash0 e")
    case True
    have "srID e \<le> cancelIDCounter h + 1" using gt(1)[OF True] x(1) by simp
    then show ?thesis using recorder_invD(3)[OF inv True] by (simp add: entry_ok_def h')
  next
    case False
    then have "e = x" using e rec by blast
    have "cancelIDCounter h + 1 \<noteq> 0" using nowrap word_inc_gt[of "cancelIDCounter h" 0] by auto
    then show ?thesis
      using x recorder_invD(5)[OF inv, of "nextCh h"]
      unfolding \<open>e = x\<close> by (auto simp: entry_ok_def h' word_gt_0)
  qed
next
  note rec = recorded_insert[OF h']
  have gt: "srID e < srID x" "waitCh e < waitCh x" if "recorded h hash0 e" for hash0 e
    using recorder_invD(3)[OF inv that] nowrap x(1,3)
    by (auto simp: entry_ok_def intro: word_inc_gt)
  fix hash1 e1 hash2 e2
  assume "recorded h' hash1 e1" "recorded h' hash2 e2"
    and same: "srID e1 = srID e2 \<or> waitCh e1 = waitCh e2"
  then show "hash1 = hash2 \<and> e1 = e2"
    using recorder_invD(4)[OF inv, of hash1 e1 hash2 e2] gt[of hash1 e1] gt[of hash2 e2]
    unfolding rec by force
next
  fix c assume "c \<in> set (closedChs h')"
  then show "c < nextCh h'" using recorder_invD(5)[OF inv, of c] by (simp add: h')
qed

lemma TryInsert_inv [inv_intro]:
  assumes "recorder_inv h" and "cancelIDCounter h \<noteq> - 1"
    and "TryInsert clk now hash tos h = (h', i, ch, ok)"
  shows "recorder_inv h'"
proof -
  let ?h = "removeExpiredUnsafe clk h"
  have inv: "recorder_inv ?h" using assms(1) by (rule removeExpired_inv)
  from TryInsert_cases[OF assms(3)] show ?thesis
    unfolding Let_def
  proof (elim disjE conjE)
    assume "h' = ?h" then show ?thesis using inv by simp
  next
    assume free: "\<forall>e. recorded ?h hash e \<longrightarrow> \<not> matchToList (toList e) tos"
      and h': "h' = ?h\<lparr>cancelIDCounter := cancelIDCounter h + 1, nextCh := Suc (nextCh h),
             entries := (entries ?h)(hash \<mapsto> getEntries ?h hash @ [freshEntry now tos h])\<rparr>"
    show ?thesis
      by (rule insert_fresh_inv[OF inv _ _ _ _ _ _, of hash tos h' "freshEntry now tos h"])
        (use assms(2) free h' in simp_all)
  qed
qed

lemma getEntryWaitInfo_cases:
  assumes "getEntryWaitInfo clk hash tos h = (h', r)"
  shows "h' = removeExpiredUnsafe clk h \<and>
    (case r of
       None \<Rightarrow> \<forall>e. recorded h' hash e \<longrightarrow> \<not> matchToList (toList e) tos
     | Some (i, ch) \<Rightarrow> \<exists>e. recorded h' hash e \<and> matchToList (toList e) tos \<and> i = srID e \<and> ch = waitCh e)"
  using assms
  by (auto simp: getEntryWaitInfo_def recorded_def Let_def find_None_iff_all
      dest!: find_SomeD split: option.splits)

lemma getEntryWaitInfo_inv [inv_intro]:
  "recorder_inv h \<Longrightarrow> getEntryWaitInfo clk hash tos h = (h', r) \<Longrightarrow> recorder_inv h'"
  using getEntryWaitInfo_cases removeExpired_inv by blast

subsection \<open>Completion\<close>

text \<open>
  \<open>SignalMessageSent\<close> and \<open>RemoveOnFail\<close> never close a closed channel while the flags agree
  with the channels: the loops are the pure updates below.
\<close>

definition flags_agree :: "sendEntry list \<Rightarrow> chan list \<Rightarrow> bool" where
  "flags_agree es cl \<longleftrightarrow> (\<forall>e \<in> set es. waitChClosed e \<longleftrightarrow> waitCh e \<in> set cl)"

lemma closeWaitChannel_agree:
  "flags_agree [e] cl \<Longrightarrow>
     closeWaitChannel e cl =
       Some (e\<lparr>waitChClosed := True\<rparr>, if waitChClosed e then cl else waitCh e # cl)"
  by (cases e) (simp add: closeWaitChannel_def go_close_def flags_agree_def)

lemma signal_loop_eq:
  assumes "flags_agree es cl"
  shows "signal_loop i mid es cl =
     Some (update_first (\<lambda>e. srID e = i) (\<lambda>e. e\<lparr>msgID := mid, waitChClosed := True\<rparr>) es,
           case find (\<lambda>e. srID e = i) es of
             None \<Rightarrow> cl
           | Some e \<Rightarrow> if waitChClosed e then cl else waitCh e # cl)"
  using assms
proof (induction es)
  case Nil
  then show ?case by simp
next
  case (Cons e es)
  then have "flags_agree es cl" "flags_agree [e\<lparr>msgID := mid\<rparr>] cl"
    by (simp_all add: flags_agree_def)
  then show ?case using Cons.IH closeWaitChannel_agree[of "e\<lparr>msgID := mid\<rparr>" cl] by simp
qed

lemma close_all_eq:
  assumes "flags_agree es cl" and "distinct (map waitCh es)"
  shows "\<exists>cl'. close_all es cl = Some cl' \<and> set cl' = waitCh ` set es \<union> set cl"
  using assms
proof (induction es arbitrary: cl)
  case Nil
  then show ?case by simp
next
  case (Cons e es)
  let ?cl = "if waitChClosed e then cl else waitCh e # cl"
  have step: "closeWaitChannel e cl = Some (e\<lparr>waitChClosed := True\<rparr>, ?cl)"
    using Cons.prems(1) closeWaitChannel_agree by (simp add: flags_agree_def)
  have "\<forall>f \<in> set es. waitCh f \<noteq> waitCh e"
    using Cons.prems(2) by (metis distinct.simps(2) image_eqI list.map(2) list.set_map)
  then have "flags_agree es ?cl"
    using Cons.prems(1) by (simp add: flags_agree_def)
  then obtain cl' where "close_all es ?cl = Some cl'" "set cl' = waitCh ` set es \<union> set ?cl"
    using Cons.IH Cons.prems(2) by fastforce
  moreover have "set ?cl = insert (waitCh e) (set cl)"
    using Cons.prems(1) by (auto simp: flags_agree_def)
  ultimately show ?case using step by auto
qed

lemma bucket_facts:
  assumes "recorder_inv h" and "entries h hash = Some es"
  shows "flags_agree es (closedChs h)" and "distinct (map srID es)" and "distinct (map waitCh es)"
    and "getEntries h hash = es"
proof -
  show g: "getEntries h hash = es" using assms(2) by (simp add: getEntries_def)
  then have rec: "recorded h hash e \<longleftrightarrow> e \<in> set es" for e by (simp add: recorded_def)
  show "flags_agree es (closedChs h)"
    using recorder_invD(3)[OF assms(1)] rec unfolding flags_agree_def entry_ok_def by blast
  have d: "distinct es"
    using recorder_invD(2)[OF assms(1), of hash] g sorted_unmatched_distinct by simp
  have inj: "inj_on srID (set es)" "inj_on waitCh (set es)"
    using recorder_invD(4)[OF assms(1), of hash _ hash] rec unfolding inj_on_def by blast+
  show "distinct (map srID es)" "distinct (map waitCh es)"
    using d inj by (simp_all add: distinct_map)
qed

definition markSent :: "ID \<Rightarrow> string \<Rightarrow> sendEntry \<Rightarrow> sendEntry" where
  "markSent i mid e = (if srID e = i then e\<lparr>msgID := mid, waitChClosed := True\<rparr> else e)"

lemma markSent_sel [simp]:
  "srID (markSent i mid e) = srID e" "toList (markSent i mid e) = toList e"
  "exp (markSent i mid e) = exp e" "waitCh (markSent i mid e) = waitCh e"
  "msgID (markSent i mid e) = (if srID e = i then mid else msgID e)"
  "waitChClosed (markSent i mid e) \<longleftrightarrow> srID e = i \<or> waitChClosed e"
  by (simp_all add: markSent_def)

lemma SignalMessageSent_bucket:
  assumes inv: "recorder_inv h" and es: "entries h hash = Some es"
  obtains cl' where
    "SignalMessageSent hash i mid h =
       Some (h\<lparr>entries := (entries h)(hash \<mapsto> map (markSent i mid) es), closedChs := cl'\<rparr>)"
    "set cl' = set (closedChs h) \<union> waitCh ` {e \<in> set es. srID e = i}"
proof -
  note b = bucket_facts[OF inv es]
  let ?cl = "case find (\<lambda>e. srID e = i) es of None \<Rightarrow> closedChs h
    | Some e \<Rightarrow> if waitChClosed e then closedChs h else waitCh e # closedChs h"
  have "update_first (\<lambda>e. srID e = i) (\<lambda>e. e\<lparr>msgID := mid, waitChClosed := True\<rparr>) es
      = map (markSent i mid) es"
    using update_first_unique[OF b(2), of i] by (simp add: markSent_def [abs_def])
  then have sig: "SignalMessageSent hash i mid h =
       Some (h\<lparr>entries := (entries h)(hash \<mapsto> map (markSent i mid) es), closedChs := ?cl\<rparr>)"
    using signal_loop_eq[OF b(1), of i mid] es by (simp add: SignalMessageSent_def)
  have "set ?cl = set (closedChs h) \<union> waitCh ` {e \<in> set es. srID e = i}"
  proof (cases "find (\<lambda>e. srID e = i) es")
    case None
    then have none: "{e \<in> set es. srID e = i} = {}" by (simp add: find_None_iff_all)
    show ?thesis unfolding none using None by simp
  next
    case (Some e)
    then have e: "e \<in> set es" "srID e = i" by (auto dest: find_SomeD)
    have "{f \<in> set es. srID f = i} = {e}"
      using e b(2) by (auto simp: distinct_map dest: inj_onD)
    then show ?thesis using Some e b(1) by (simp add: flags_agree_def insert_absorb)
  qed
  with sig show thesis by (rule that)
qed

lemma SignalMessageSent_no_bucket:
  "entries h hash = None \<Longrightarrow> SignalMessageSent hash i mid h = Some h"
  by (simp add: SignalMessageSent_def)

text \<open>
  What \<open>SignalMessageSent\<close> does to the table: it never panics, it changes nothing but the entry
  with the given ID, and that entry ends up closed and carries the message ID.
\<close>

lemma SignalMessageSent_spec:
  assumes inv: "recorder_inv h"
  obtains h' where "SignalMessageSent hash i mid h = Some h'" and "recorder_inv h'"
    and "cancelIDCounter h' = cancelIDCounter h" and "nextCh h' = nextCh h"
    and "set (closedChs h) \<subseteq> set (closedChs h')"
    and "\<And>hash' e'. recorded h' hash' e' \<longleftrightarrow>
           (\<exists>e. recorded h hash' e \<and> e' = (if hash' = hash then markSent i mid e else e))"
proof (cases "entries h hash")
  case None
  then have no: "\<not> recorded h hash e" for e by (simp add: recorded_def getEntries_def)
  have "recorded h hash' e' \<longleftrightarrow>
      (\<exists>e. recorded h hash' e \<and> e' = (if hash' = hash then markSent i mid e else e))" for hash' e'
    by (cases "hash' = hash") (simp_all add: no)
  then show thesis
    by (rule that[OF SignalMessageSent_no_bucket[OF None] inv refl refl subset_refl])
next
  case (Some es)
  from SignalMessageSent_bucket[OF inv Some, of i mid] obtain cl' where
    sig: "SignalMessageSent hash i mid h =
       Some (h\<lparr>entries := (entries h)(hash \<mapsto> map (markSent i mid) es), closedChs := cl'\<rparr>)"
    and cl': "set cl' = set (closedChs h) \<union> waitCh ` {e \<in> set es. srID e = i}" .
  let ?h' = "h\<lparr>entries := (entries h)(hash \<mapsto> map (markSent i mid) es), closedChs := cl'\<rparr>"
  have rec: "recorded ?h' hash' e' \<longleftrightarrow>
      (\<exists>e. recorded h hash' e \<and> e' = (if hash' = hash then markSent i mid e else e))" for hash' e'
    using Some by (cases "hash' = hash") (simp_all add: recorded_def getEntries_def image_iff Bex_def)
  have es_rec: "e \<in> set es \<longleftrightarrow> recorded h hash e" for e
    using Some by (simp add: recorded_def getEntries_def)
  have "recorder_inv ?h'"
  proof (rule recorder_invI)
    fix hash'
    show "entries ?h' hash' \<noteq> Some []"
      using recorder_invD(1)[OF inv] Some by auto
    have "map toList (getEntries ?h' hash') = map toList (getEntries h hash')"
      using Some by (simp add: getEntries_def)
    then show "sorted_wrt unmatched (getEntries ?h' hash')"
      using recorder_invD(2)[OF inv] by (rule sorted_unmatched_map)
    fix e' assume "recorded ?h' hash' e'"
    then obtain e where e: "recorded h hash' e" and e': "e' = (if hash' = hash then markSent i mid e else e)"
      unfolding rec by blast
    have ok: "entry_ok h e" using recorder_invD(3)[OF inv e] .
    have "waitCh e \<in> set cl' \<longleftrightarrow> waitCh e \<in> set (closedChs h) \<or> (hash' = hash \<and> srID e = i)"
      using recorder_invD(4)[OF inv e] e unfolding cl' es_rec by blast
    then show "entry_ok ?h' e'"
      using ok e' by (auto simp: entry_ok_def)
  next
    fix h1 e1 h2 e2
    assume "recorded ?h' h1 e1" "recorded ?h' h2 e2" "srID e1 = srID e2 \<or> waitCh e1 = waitCh e2"
    then obtain f1 f2 where "recorded h h1 f1" "recorded h h2 f2"
      "e1 = (if h1 = hash then markSent i mid f1 else f1)"
      "e2 = (if h2 = hash then markSent i mid f2 else f2)"
      "srID f1 = srID f2 \<or> waitCh f1 = waitCh f2"
      unfolding rec by (auto split: if_splits)
    then show "h1 = h2 \<and> e1 = e2" using recorder_invD(4)[OF inv, of h1 f1 h2 f2] by simp
  next
    fix c assume "c \<in> set (closedChs ?h')"
    then show "c < nextCh ?h'"
      using recorder_invD(3,5)[OF inv] by (auto simp: cl' es_rec entry_ok_def)
  qed
  moreover have "set (closedChs h) \<subseteq> set (closedChs ?h')" using cl' by simp
  ultimately show thesis using rec by (intro that[OF sig]) simp_all
qed

text \<open>
  \<open>RemoveOnFail\<close> never panics either; it removes exactly the entry with the given ID, unless that
  entry was signalled as sent, and wakes whoever waits for it.
\<close>

lemma RemoveOnFail_spec:
  assumes inv: "recorder_inv h"
  obtains h' where "RemoveOnFail hash i h = Some h'" and "recorder_inv h'"
    and "cancelIDCounter h' = cancelIDCounter h" and "nextCh h' = nextCh h"
    and "set (closedChs h) \<subseteq> set (closedChs h')"
    and "\<And>hash' e'. recorded h' hash' e' \<longleftrightarrow>
           recorded h hash' e' \<and> \<not> (hash' = hash \<and> srID e' = i \<and> msgID e' = [])"
    and "\<And>e. recorded h hash e \<Longrightarrow> srID e = i \<Longrightarrow> msgID e = [] \<Longrightarrow> waitCh e \<in> set (closedChs h')"
proof (cases "entries h hash")
  case None
  then have no: "\<not> recorded h hash e" for e by (simp add: recorded_def getEntries_def)
  have "RemoveOnFail hash i h = Some h" using None by (simp add: RemoveOnFail_def)
  then show thesis
    by (rule that[OF _ inv refl refl subset_refl]) (use no in blast)+
next
  case (Some es)
  note b = bucket_facts[OF inv Some]
  let ?gone = "\<lambda>e. srID e = i \<and> msgID e = []"
  let ?toKeep = "filter (\<lambda>e. srID e \<noteq> i \<or> msgID e \<noteq> []) es"
  have "flags_agree (filter ?gone es) (closedChs h)" "distinct (map waitCh (filter ?gone es))"
    using b by (auto simp: flags_agree_def distinct_map_filter)
  from close_all_eq[OF this] obtain cl' where
    cl: "close_all (filter ?gone es) (closedChs h) = Some cl'"
    and cl': "set cl' = waitCh ` set (filter ?gone es) \<union> set (closedChs h)" by blast
  let ?h' = "h\<lparr>closedChs := cl',
      entries := (entries h)(hash := (if ?toKeep \<noteq> [] then Some ?toKeep else None))\<rparr>"
  have rof: "RemoveOnFail hash i h = Some ?h'"
    using Some cl by (simp add: RemoveOnFail_def)
  have g: "getEntries ?h' hash' = (if hash' = hash then ?toKeep else getEntries h hash')" for hash'
    by (simp add: getEntries_def)
  have rec: "recorded ?h' hash' e' \<longleftrightarrow>
      recorded h hash' e' \<and> \<not> (hash' = hash \<and> srID e' = i \<and> msgID e' = [])" for hash' e'
    using b(4) unfolding recorded_def g by (cases "hash' = hash") auto
  have gone: "e \<in> set (filter ?gone es) \<longleftrightarrow> recorded h hash e \<and> srID e = i \<and> msgID e = []" for e
    using b(4) by (auto simp: recorded_def)
  have "recorder_inv ?h'"
  proof (rule recorder_invI)
    fix hash'
    show "entries ?h' hash' \<noteq> Some []" using recorder_invD(1)[OF inv] by auto
    show "sorted_wrt unmatched (getEntries ?h' hash')"
      using recorder_invD(2)[OF inv, of hash'] b(4)
      unfolding g by (cases "hash' = hash") (simp_all add: sorted_wrt_filter)
    fix e' assume e': "recorded ?h' hash' e'"
    then have e: "recorded h hash' e'" and ne: "\<not> (hash' = hash \<and> srID e' = i \<and> msgID e' = [])"
      unfolding rec by auto
    have "waitCh e' \<notin> waitCh ` set (filter ?gone es)"
    proof
      assume "waitCh e' \<in> waitCh ` set (filter ?gone es)"
      then obtain f where f: "waitCh e' = waitCh f" "f \<in> set (filter ?gone es)" by (rule imageE)
      then have "recorded h hash f" "srID f = i" "msgID f = []" unfolding gone by blast+
      then show False using recorder_invD(4)[OF inv e, of hash f] f(1) ne by blast
    qed
    then show "entry_ok ?h' e'"
      using recorder_invD(3)[OF inv e] by (simp add: entry_ok_def cl')
  next
    fix h1 e1 h2 e2
    assume "recorded ?h' h1 e1" "recorded ?h' h2 e2" "srID e1 = srID e2 \<or> waitCh e1 = waitCh e2"
    then show "h1 = h2 \<and> e1 = e2"
      unfolding rec using recorder_invD(4)[OF inv, of h1 e1 h2 e2] by simp
  next
    fix c assume "c \<in> set (closedChs ?h')"
    then show "c < nextCh ?h'"
      using recorder_invD(3,5)[OF inv] gone by (auto simp: cl' entry_ok_def)
  qed
  moreover have "waitCh e \<in> set (closedChs ?h')"
    if "recorded h hash e" "srID e = i" "msgID e = []" for e
    using that gone[of e] cl' by auto
  ultimately show thesis using rec cl' by (intro that[OF rof]) simp_all
qed

subsection \<open>Senders and readers sharing one table\<close>

text \<open>
  Any number of goroutines use one recorder: senders call \<open>TryInsertWait\<close> and, once granted,
  report the outcome with \<open>SignalMessageSent\<close> (with the non-empty ID the API gave the message) or
  \<open>RemoveOnFail\<close>; readers call \<open>HasEntryWait\<close>. Each locked section is one step; a waiting
  goroutine resumes on its closed channel or when its context ends. The counter of IDs is
  assumed not to be at its last value when an entry is made.
\<close>

record recorder_sys =
  table :: SendRecorder
  senders :: "nat \<rightharpoonup> string \<times> string list \<times> insert_pc"
  readers :: "nat \<rightharpoonup> string \<times> string list \<times> has_pc"

definition recorder_init :: "gotime \<Rightarrow> recorder_sys" where
  "recorder_init expi = \<lparr>table = NewSendRecorder expi, senders = Map.empty, readers = Map.empty\<rparr>"

inductive recorder_step :: "recorder_sys \<Rightarrow> recorder_sys \<Rightarrow> bool" where
  sender_start:
    "senders s i = None \<Longrightarrow>
     recorder_step s (s\<lparr>senders := (senders s)(i \<mapsto> (hash, tos, InsertTrying))\<rparr>)"
| sender_enter:
    "senders s i = Some (hash, tos, InsertTrying) \<Longrightarrow> cancelIDCounter (table s) \<noteq> - 1 \<Longrightarrow>
     TryInsertWait_enter clk now hash tos (table s) = (h', pc) \<Longrightarrow>
     recorder_step s (s\<lparr>table := h', senders := (senders s)(i \<mapsto> (hash, tos, pc))\<rparr>)"
| sender_resume:
    "senders s i = Some (hash, tos, InsertWaiting a ch) \<Longrightarrow>
     (ev = ChannelReady \<Longrightarrow> ch \<in> set (closedChs (table s))) \<Longrightarrow>
     recorder_step s (s\<lparr>senders := (senders s)(i \<mapsto> (hash, tos, TryInsertWait_resume ev hash a (table s)))\<rparr>)"
| sender_sent:
    "senders s i = Some (hash, tos, Inserted a) \<Longrightarrow> mid \<noteq> [] \<Longrightarrow>
     SignalMessageSent hash a mid (table s) = Some h' \<Longrightarrow> recorder_step s (s\<lparr>table := h'\<rparr>)"
| sender_failed:
    "senders s i = Some (hash, tos, Inserted a) \<Longrightarrow>
     RemoveOnFail hash a (table s) = Some h' \<Longrightarrow> recorder_step s (s\<lparr>table := h'\<rparr>)"
| reader_start:
    "readers s i = None \<Longrightarrow>
     recorder_step s (s\<lparr>readers := (readers s)(i \<mapsto> (hash, tos, HasTrying))\<rparr>)"
| reader_enter:
    "readers s i = Some (hash, tos, HasTrying) \<Longrightarrow>
     HasEntryWait_enter clk hash tos (table s) = (h', pc) \<Longrightarrow>
     recorder_step s (s\<lparr>table := h', readers := (readers s)(i \<mapsto> (hash, tos, pc))\<rparr>)"
| reader_resume:
    "readers s i = Some (hash, tos, HasWaiting a ch) \<Longrightarrow>
     (ev = ChannelReady \<Longrightarrow> ch \<in> set (closedChs (table s))) \<Longrightarrow>
     recorder_step s (s\<lparr>readers := (readers s)(i \<mapsto> (hash, tos, HasEntryWait_resume ev hash a (table s)))\<rparr>)"

inductive recorder_reachable :: "gotime \<Rightarrow> recorder_sys \<Rightarrow> bool" for expi where
  reach_init: "recorder_reachable expi (recorder_init expi)"
| reach_step: "recorder_reachable expi s \<Longrightarrow> recorder_step s t \<Longrightarrow> recorder_reachable expi t"

text \<open>
  \<open>evolves h h'\<close>: what every operation does to the identity of entries. An entry after the step
  is new (its ID was not handed out before) or has the ID, recipients and channel of an entry
  recorded before under the same hash.
\<close>

definition evolves :: "SendRecorder \<Rightarrow> SendRecorder \<Rightarrow> bool" where
  "evolves h h' \<longleftrightarrow>
     cancelIDCounter h \<le> cancelIDCounter h' \<and>
     (\<forall>hash e'. recorded h' hash e' \<longrightarrow>
        cancelIDCounter h < srID e' \<or>
        (\<exists>e. recorded h hash e \<and> srID e = srID e' \<and> toList e = toList e' \<and> waitCh e = waitCh e'))"

definition signalled :: "SendRecorder \<Rightarrow> bool" where
  "signalled h \<longleftrightarrow> (\<forall>hash e. recorded h hash e \<longrightarrow> waitChClosed e \<longrightarrow> msgID e \<noteq> [])"

lemma evolvesI:
  assumes "cancelIDCounter h \<le> cancelIDCounter h'"
    and "\<And>hash e'. recorded h' hash e' \<Longrightarrow> cancelIDCounter h < srID e' \<or>
        (\<exists>e. recorded h hash e \<and> srID e = srID e' \<and> toList e = toList e' \<and> waitCh e = waitCh e')"
  shows "evolves h h'"
  using assms unfolding evolves_def by blast

lemma evolves_refl: "evolves h h"
  by (rule evolvesI) auto

lemma removeExpired_evolves: "evolves h (removeExpiredUnsafe clk h)"
  by (rule evolvesI) (auto simp: recorded_removeExpired)

lemma TryInsert_evolves:
  assumes "cancelIDCounter h \<noteq> - 1" and "TryInsert clk now hash tos h = (h', i, ch, ok)"
  shows "evolves h h'"
proof -
  let ?h = "removeExpiredUnsafe clk h"
  from TryInsert_cases[OF assms(2)] show ?thesis
    unfolding Let_def
  proof (elim disjE conjE)
    assume "h' = ?h" then show ?thesis using removeExpired_evolves by simp
  next
    assume h': "h' = ?h\<lparr>cancelIDCounter := cancelIDCounter h + 1, nextCh := Suc (nextCh h),
             entries := (entries ?h)(hash \<mapsto> getEntries ?h hash @ [freshEntry now tos h])\<rparr>"
    note rec = recorded_insert[OF h']
    have up: "cancelIDCounter h < cancelIDCounter h + 1" using word_inc_gt[OF assms(1)] by simp
    show ?thesis
    proof (rule evolvesI)
      show "cancelIDCounter h \<le> cancelIDCounter h'" using up by (simp add: h')
      fix hash0 e' assume "recorded h' hash0 e'"
      then consider "recorded h hash0 e'" | "e' = freshEntry now tos h"
        unfolding rec recorded_removeExpired by blast
      then show "cancelIDCounter h < srID e' \<or>
        (\<exists>e. recorded h hash0 e \<and> srID e = srID e' \<and> toList e = toList e' \<and> waitCh e = waitCh e')"
        by cases (use up in auto)
    qed
  qed
qed

lemma TryInsert_signalled:
  assumes "signalled h" and "TryInsert clk now hash tos h = (h', i, ch, ok)"
  shows "signalled h'"
proof -
  let ?h = "removeExpiredUnsafe clk h"
  have old: "msgID e \<noteq> []" if "recorded ?h hash0 e" "waitChClosed e" for hash0 e
    using assms(1) that unfolding signalled_def recorded_removeExpired by blast
  from TryInsert_cases[OF assms(2)] show ?thesis
    unfolding Let_def
  proof (elim disjE conjE)
    assume "h' = ?h" then show ?thesis using old unfolding signalled_def by blast
  next
    assume h': "h' = ?h\<lparr>cancelIDCounter := cancelIDCounter h + 1, nextCh := Suc (nextCh h),
             entries := (entries ?h)(hash \<mapsto> getEntries ?h hash @ [freshEntry now tos h])\<rparr>"
    show ?thesis
      unfolding signalled_def recorded_insert[OF h'] using old by fastforce
  qed
qed

lemma SignalMessageSent_step:
  assumes "recorder_inv h" and "signalled h" and "mid \<noteq> []"
    and "SignalMessageSent hash i mid h = Some h'"
  shows "recorder_inv h'" and "evolves h h'" and "signalled h'"
proof -
  from SignalMessageSent_spec[OF assms(1), of hash i mid] obtain h1 where
    h1: "SignalMessageSent hash i mid h = Some h1" "recorder_inv h1"
      "cancelIDCounter h1 = cancelIDCounter h"
    and rec: "\<And>hash' e'. recorded h1 hash' e' \<longleftrightarrow>
           (\<exists>e. recorded h hash' e \<and> e' = (if hash' = hash then markSent i mid e else e))"
    by metis
  have eq: "h1 = h'" using h1(1) assms(4) by simp
  show "recorder_inv h'" using h1(2) eq by simp
  have "evolves h h1"
  proof (rule evolvesI)
    show "cancelIDCounter h \<le> cancelIDCounter h1" using h1(3) by simp
    fix hash0 e' assume "recorded h1 hash0 e'"
    then obtain e where e: "recorded h hash0 e" "e' = (if hash0 = hash then markSent i mid e else e)"
      unfolding rec by blast
    then have "srID e = srID e'" "toList e = toList e'" "waitCh e = waitCh e'" by simp_all
    with e(1) show "cancelIDCounter h < srID e' \<or>
        (\<exists>e. recorded h hash0 e \<and> srID e = srID e' \<and> toList e = toList e' \<and> waitCh e = waitCh e')"
      by blast
  qed
  then show "evolves h h'" using eq by simp
  show "signalled h'"
    unfolding signalled_def
  proof (intro allI impI)
    fix hash0 e' assume r: "recorded h' hash0 e'" and c: "waitChClosed e'"
    from r obtain e where e: "recorded h hash0 e" "e' = (if hash0 = hash then markSent i mid e else e)"
      unfolding eq[symmetric] rec by blast
    show "msgID e' \<noteq> []"
      using assms(2,3) c e unfolding signalled_def by (cases "hash0 = hash") auto
  qed
qed

lemma RemoveOnFail_step:
  assumes "recorder_inv h" and "signalled h" and "RemoveOnFail hash i h = Some h'"
  shows "recorder_inv h'" and "evolves h h'" and "signalled h'"
proof -
  from RemoveOnFail_spec[OF assms(1), of hash i] obtain h1 where
    h1: "RemoveOnFail hash i h = Some h1" "recorder_inv h1" "cancelIDCounter h1 = cancelIDCounter h"
    and rec: "\<And>hash' e'. recorded h1 hash' e' \<longleftrightarrow>
           recorded h hash' e' \<and> \<not> (hash' = hash \<and> srID e' = i \<and> msgID e' = [])"
    by metis
  have eq: "h1 = h'" using h1(1) assms(3) by simp
  show "recorder_inv h'" using h1(2) eq by simp
  show "evolves h h'"
    using h1(3) rec unfolding eq by (intro evolvesI) auto
  show "signalled h'"
    using assms(2) rec unfolding eq signalled_def by blast
qed

lemma getEntryWaitInfo_step:
  assumes "recorder_inv h" and "signalled h" and "getEntryWaitInfo clk hash tos h = (h', r)"
  shows "recorder_inv h'" and "evolves h h'" and "signalled h'"
  using getEntryWaitInfo_cases[OF assms(3)] assms(1,2) removeExpired_inv removeExpired_evolves
  by (auto simp: signalled_def recorded_removeExpired)

subsection \<open>The invariant of the whole system\<close>

definition link_id :: "SendRecorder \<Rightarrow> string \<Rightarrow> string list \<Rightarrow> ID \<Rightarrow> bool" where
  "link_id h hash tos a \<longleftrightarrow> a \<le> cancelIDCounter h \<and>
     (\<forall>hash' e. recorded h hash' e \<longrightarrow> srID e = a \<longrightarrow> hash' = hash \<and> toList e = tos)"

definition link_ch :: "SendRecorder \<Rightarrow> ID \<Rightarrow> chan \<Rightarrow> bool" where
  "link_ch h a ch \<longleftrightarrow> a \<le> cancelIDCounter h \<and>
     (\<forall>hash' e. recorded h hash' e \<longrightarrow> srID e = a \<longrightarrow> waitCh e = ch)"

definition sys_inv :: "recorder_sys \<Rightarrow> bool" where
  "sys_inv s \<longleftrightarrow>
     recorder_inv (table s) \<and> signalled (table s) \<and>
     (\<forall>i hash tos a. senders s i = Some (hash, tos, Inserted a) \<longrightarrow> link_id (table s) hash tos a) \<and>
     (\<forall>i j hash tos hash' tos' a. senders s i = Some (hash, tos, Inserted a) \<longrightarrow>
        senders s j = Some (hash', tos', Inserted a) \<longrightarrow> i = j) \<and>
     (\<forall>i hash tos a ch. senders s i = Some (hash, tos, InsertWaiting a ch) \<longrightarrow> link_ch (table s) a ch) \<and>
     (\<forall>i hash tos a ch. readers s i = Some (hash, tos, HasWaiting a ch) \<longrightarrow> link_ch (table s) a ch)"

lemma evolves_link_id: "evolves h h' \<Longrightarrow> link_id h hash tos a \<Longrightarrow> link_id h' hash tos a"
  unfolding evolves_def link_id_def by (metis order_trans linorder_not_less)

lemma evolves_link_ch: "evolves h h' \<Longrightarrow> link_ch h a ch \<Longrightarrow> link_ch h' a ch"
  unfolding evolves_def link_ch_def by (metis order_trans linorder_not_less)

lemma sys_inv_table:
  assumes "sys_inv s" and "recorder_inv h'" and "signalled h'" and "evolves (table s) h'"
  shows "sys_inv (s\<lparr>table := h'\<rparr>)"
  using assms evolves_link_id[OF assms(4)] evolves_link_ch[OF assms(4)]
  unfolding sys_inv_def by simp

lemma recorded_link_ch:
  assumes "recorder_inv h" and "recorded h hash e"
  shows "link_ch h (srID e) (waitCh e)"
  unfolding link_ch_def
proof (intro conjI allI impI)
  show "srID e \<le> cancelIDCounter h" using recorder_invD(3)[OF assms] by (simp add: entry_ok_def)
  fix hash' f assume "recorded h hash' f" "srID f = srID e"
  then have "f = e" using recorder_invD(4)[OF assms(1), of hash' f hash e] assms(2) by blast
  then show "waitCh f = waitCh e" by simp
qed

lemma TryInsert_grant_link:
  assumes "recorder_inv h" and "cancelIDCounter h \<noteq> - 1"
    and "TryInsert clk now hash tos h = (h', i, ch, True)"
  shows "i = cancelIDCounter h + 1" and "link_id h' hash tos i"
proof -
  let ?h = "removeExpiredUnsafe clk h"
  from TryInsert_cases[OF assms(3)] have i: "i = cancelIDCounter h + 1" and
    h': "h' = ?h\<lparr>cancelIDCounter := cancelIDCounter h + 1, nextCh := Suc (nextCh h),
             entries := (entries ?h)(hash \<mapsto> getEntries ?h hash @ [freshEntry now tos h])\<rparr>"
    unfolding Let_def by blast+
  show "i = cancelIDCounter h + 1" by (rule i)
  show "link_id h' hash tos i"
    unfolding link_id_def
  proof (intro conjI allI impI)
    show "i \<le> cancelIDCounter h'" by (simp add: i h')
    fix hash0 e assume r: "recorded h' hash0 e" and e: "srID e = i"
    have "\<not> recorded h hash0 e"
    proof
      assume "recorded h hash0 e"
      then have "srID e \<le> cancelIDCounter h"
        using recorder_invD(3)[OF assms(1)] by (auto simp: entry_ok_def)
      then show False using word_inc_gt[OF assms(2)] e i by auto
    qed
    then have "hash0 = hash \<and> e = freshEntry now tos h"
      using r unfolding recorded_insert[OF h'] recorded_removeExpired by blast
    then show "hash0 = hash" "toList e = tos" by simp_all
  qed
qed

lemma sys_invD:
  assumes "sys_inv s"
  shows "recorder_inv (table s)" and "signalled (table s)"
    and "senders s i = Some (hash, tos, Inserted a) \<Longrightarrow> link_id (table s) hash tos a"
    and "senders s i = Some (hash, tos, Inserted a) \<Longrightarrow>
         senders s j = Some (hash', tos', Inserted a) \<Longrightarrow> i = j"
    and "senders s i = Some (hash, tos, InsertWaiting a ch) \<Longrightarrow> link_ch (table s) a ch"
    and "readers s i = Some (hash, tos, HasWaiting a ch) \<Longrightarrow> link_ch (table s) a ch"
  using assms unfolding sys_inv_def by (blast, blast, metis+)

lemma sys_inv_sender:
  assumes "sys_inv s"
    and "\<And>a. pc = Inserted a \<Longrightarrow> link_id (table s) hash tos a"
    and "\<And>a j hash' tos'. pc = Inserted a \<Longrightarrow> senders s j \<noteq> Some (hash', tos', Inserted a)"
    and "\<And>a ch. pc = InsertWaiting a ch \<Longrightarrow> link_ch (table s) a ch"
  shows "sys_inv (s\<lparr>senders := (senders s)(i \<mapsto> (hash, tos, pc))\<rparr>)"
  using sys_invD[OF assms(1)] assms(2-4) unfolding sys_inv_def by auto

lemma sys_inv_reader:
  assumes "sys_inv s" and "\<And>a ch. pc = HasWaiting a ch \<Longrightarrow> link_ch (table s) a ch"
  shows "sys_inv (s\<lparr>readers := (readers s)(i \<mapsto> (hash, tos, pc))\<rparr>)"
  using sys_invD[OF assms(1)] assms(2) unfolding sys_inv_def by auto

lemma resume_never_waits:
  "TryInsertWait_resume ev hash a h \<noteq> InsertWaiting b ch"
  "TryInsertWait_resume ev hash a h \<noteq> Inserted b"
  "HasEntryWait_resume ev hash a h \<noteq> HasWaiting b ch"
  by (auto simp: TryInsertWait_resume_def HasEntryWait_resume_def
      split: sum.splits ctx_error.splits prod.splits if_splits)

lemma sender_enter_inv:
  assumes inv: "sys_inv s" and sndr: "senders s i = Some (hash, tos, InsertTrying)"
    and nowrap: "cancelIDCounter (table s) \<noteq> - 1"
    and enter: "TryInsertWait_enter clk now hash tos (table s) = (h', pc)"
  shows "sys_inv (s\<lparr>table := h', senders := (senders s)(i \<mapsto> (hash, tos, pc))\<rparr>)"
proof -
  obtain a ch ok where ins: "TryInsert clk now hash tos (table s) = (h', a, ch, ok)"
    and pc: "pc = (if ok then Inserted a else InsertWaiting a ch)"
    using enter by (auto simp: TryInsertWait_enter_def split: prod.splits if_splits)
  note rinv = sys_invD(1)[OF inv]
  have inv': "recorder_inv h'" using TryInsert_inv[OF rinv nowrap ins] .
  have s': "sys_inv (s\<lparr>table := h'\<rparr>)"
    using sys_inv_table[OF inv inv' TryInsert_signalled[OF sys_invD(2)[OF inv] ins]
        TryInsert_evolves[OF nowrap ins]] .
  have "sys_inv ((s\<lparr>table := h'\<rparr>)\<lparr>senders := (senders (s\<lparr>table := h'\<rparr>))(i \<mapsto> (hash, tos, pc))\<rparr>)"
  proof (rule sys_inv_sender[OF s'])
    fix b assume "pc = Inserted b"
    then have ok: "ok" "a = b" using pc by (auto split: if_splits)
    note grant = TryInsert_grant_link[OF rinv nowrap ins[unfolded ok(1)[THEN eqTrueI]]]
    show "link_id (table (s\<lparr>table := h'\<rparr>)) hash tos b" using grant(2) ok(2) by simp
    fix j hash' tos'
    show "senders (s\<lparr>table := h'\<rparr>) j \<noteq> Some (hash', tos', Inserted b)"
    proof
      assume "senders (s\<lparr>table := h'\<rparr>) j = Some (hash', tos', Inserted b)"
      then have "b \<le> cancelIDCounter (table s)"
        using sys_invD(3)[OF inv, of j hash' tos' b] by (simp add: link_id_def)
      then show False using word_inc_gt[OF nowrap] grant(1) ok(2) by auto
    qed
  next
    fix b c assume "pc = InsertWaiting b c"
    then have no: "\<not> ok" "a = b" "ch = c" using pc by (auto split: if_splits)
    obtain e where "recorded h' hash e" "a = srID e" "ch = waitCh e"
      using TryInsert_cases[OF ins] no(1) unfolding Let_def by blast
    then show "link_ch (table (s\<lparr>table := h'\<rparr>)) b c"
      using recorded_link_ch[OF inv'] no by simp
  qed
  then show ?thesis by simp
qed

lemma reader_enter_inv:
  assumes inv: "sys_inv s" and enter: "HasEntryWait_enter clk hash tos (table s) = (h', pc)"
  shows "sys_inv (s\<lparr>table := h', readers := (readers s)(i \<mapsto> (hash, tos, pc))\<rparr>)"
proof -
  obtain r where info: "getEntryWaitInfo clk hash tos (table s) = (h', r)"
    and pc: "pc = (case r of None \<Rightarrow> HasResult [] False | Some (a, ch) \<Rightarrow> HasWaiting a ch)"
    using enter by (auto simp: HasEntryWait_enter_def split: prod.splits option.splits)
  note step = getEntryWaitInfo_step[OF sys_invD(1,2)[OF inv] info]
  have s': "sys_inv (s\<lparr>table := h'\<rparr>)" by (rule sys_inv_table[OF inv step(1,3,2)])
  have "sys_inv ((s\<lparr>table := h'\<rparr>)\<lparr>readers := (readers (s\<lparr>table := h'\<rparr>))(i \<mapsto> (hash, tos, pc))\<rparr>)"
  proof (rule sys_inv_reader[OF s'])
    fix a ch assume "pc = HasWaiting a ch"
    then have r: "r = Some (a, ch)" using pc by (auto split: option.splits prod.splits)
    obtain e where "recorded h' hash e" "a = srID e" "ch = waitCh e"
      using getEntryWaitInfo_cases[OF info] unfolding r by auto
    then show "link_ch (table (s\<lparr>table := h'\<rparr>)) a ch" using recorded_link_ch[OF step(1)] by simp
  qed
  then show ?thesis by simp
qed

lemma recorder_step_inv: "recorder_step s t \<Longrightarrow> sys_inv s \<Longrightarrow> sys_inv t"
proof (induction rule: recorder_step.induct)
  case (sender_start s i hash tos)
  then show ?case by (intro sys_inv_sender) simp_all
next
  case (sender_enter s i hash tos clk now h' pc)
  then show ?case by (intro sender_enter_inv)
next
  case (sender_resume s i hash tos a ch ev)
  then show ?case by (intro sys_inv_sender) (simp_all add: resume_never_waits)
next
  case (sender_sent s i hash tos a mid h')
  then show ?case
    using SignalMessageSent_step[OF sys_invD(1,2)[OF sender_sent.prems] sender_sent.hyps(2,3)]
    by (intro sys_inv_table)
next
  case (sender_failed s i hash tos a h')
  then show ?case
    using RemoveOnFail_step[OF sys_invD(1,2)[OF sender_failed.prems] sender_failed.hyps(2)]
    by (intro sys_inv_table)
next
  case (reader_start s i hash tos)
  then show ?case by (intro sys_inv_reader) simp_all
next
  case (reader_enter s i hash tos clk h' pc)
  then show ?case by (intro reader_enter_inv)
next
  case (reader_resume s i hash tos a ch ev)
  then show ?case by (intro sys_inv_reader) (simp_all add: resume_never_waits)
qed

lemma recorder_inv_New: "recorder_inv (NewSendRecorder expi)"
  by (rule recorder_invI) (simp_all add: NewSendRecorder_def recorded_def getEntries_def)

lemma recorder_reachable_inv: "recorder_reachable expi s \<Longrightarrow> sys_inv s"
proof (induction rule: recorder_reachable.induct)
  case reach_init
  show ?case
    using recorder_inv_New[of expi]
    by (simp add: sys_inv_def recorder_init_def signalled_def recorded_def getEntries_def
        NewSendRecorder_def)
next
  case (reach_step s t)
  then show ?case using recorder_step_inv by blast
qed

subsection \<open>A concrete run\<close>

text \<open>
  Two senders send one message: the first is granted (\<open>ex_t1\<close>), the second finds the entry and
  waits; either the first succeeds (\<open>ex_t2\<close>) or it fails (\<open>ex_t3\<close>) and the second is
  granted in turn (\<open>ex_t4\<close>).
\<close>

definition ex_t1 :: SendRecorder where
  "ex_t1 = fst (TryInsertWait_enter (\<lambda>_. 0) 0 ''h'' [''a'', ''b''] (NewSendRecorder 100))"

definition ex_t2 :: SendRecorder where
  "ex_t2 = the (SignalMessageSent ''h'' 1 ''m1'' (removeExpiredUnsafe (\<lambda>_. 5) ex_t1))"

definition ex_t3 :: SendRecorder where "ex_t3 = the (RemoveOnFail ''h'' 1 ex_t1)"

definition ex_t4 :: SendRecorder where
  "ex_t4 = fst (TryInsertWait_enter (\<lambda>_. 5) 5 ''h'' [''b'', ''a''] ex_t3)"

lemmas ex_defs = ex_t1_def ex_t2_def ex_t3_def ex_t4_def

lemma ex_eval:
  "TryInsertWait_enter (\<lambda>_. 0) 0 ''h'' [''a'', ''b''] (NewSendRecorder 100) = (ex_t1, Inserted 1)"
  "TryInsertWait_enter (\<lambda>_. 5) 5 ''h'' [''b'', ''a''] ex_t1 = (removeExpiredUnsafe (\<lambda>_. 5) ex_t1, InsertWaiting 1 0)"
  "SignalMessageSent ''h'' 1 ''m1'' (removeExpiredUnsafe (\<lambda>_. 5) ex_t1) = Some ex_t2"
  "RemoveOnFail ''h'' 1 ex_t1 = Some ex_t3"
  "TryInsertWait_enter (\<lambda>_. 5) 5 ''h'' [''b'', ''a''] ex_t3 = (ex_t4, Inserted 2)"
  by (simp_all add: ex_defs recorder_defs matchToList_def)

definition ex_sys :: "SendRecorder \<Rightarrow> insert_pc option \<Rightarrow> insert_pc option \<Rightarrow> recorder_sys" where
  "ex_sys t p0 p1 =
     \<lparr>table = t,
      senders = (\<lambda>i. if i = 0 then map_option (\<lambda>p. (''h'', [''a'', ''b''], p)) p0
                 else if i = Suc 0 then map_option (\<lambda>p. (''h'', [''b'', ''a''], p)) p1 else None),
      readers = Map.empty\<rparr>"

lemma ex_sys_upd:
  "(ex_sys t p0 p1)\<lparr>senders := (senders (ex_sys t p0 p1))(0 \<mapsto> (''h'', [''a'', ''b''], q))\<rparr> = ex_sys t (Some q) p1"
  "(ex_sys t p0 p1)\<lparr>senders := (senders (ex_sys t p0 p1))(Suc 0 \<mapsto> (''h'', [''b'', ''a''], q))\<rparr> = ex_sys t p0 (Some q)"
  "(ex_sys t p0 p1)\<lparr>table := t'\<rparr> = ex_sys t' p0 p1"
  by (auto simp: ex_sys_def)

lemma ex_sys_sel [simp]:
  "table (ex_sys t p0 p1) = t"
  "senders (ex_sys t p0 p1) 0 = map_option (\<lambda>p. (''h'', [''a'', ''b''], p)) p0"
  "senders (ex_sys t p0 p1) (Suc 0) = map_option (\<lambda>p. (''h'', [''b'', ''a''], p)) p1"
  by (simp_all add: ex_sys_def)

lemma ex_sys_upd2:
  "(ex_sys t p0 p1)\<lparr>table := t', senders := (senders (ex_sys t p0 p1))(0 \<mapsto> (''h'', [''a'', ''b''], q))\<rparr>
     = ex_sys t' (Some q) p1"
  "(ex_sys t p0 p1)\<lparr>table := t', senders := (senders (ex_sys t p0 p1))(Suc 0 \<mapsto> (''h'', [''b'', ''a''], q))\<rparr>
     = ex_sys t' p0 (Some q)"
  by (auto simp: ex_sys_def)

lemma ex_enter:
  assumes "recorder_reachable 100 (ex_sys t p0 p1)" and "cancelIDCounter t \<noteq> - 1"
  shows "p0 = Some InsertTrying \<Longrightarrow> TryInsertWait_enter clk now ''h'' [''a'', ''b''] t = (t', pc) \<Longrightarrow>
      recorder_reachable 100 (ex_sys t' (Some pc) p1)"
    and "p1 = Some InsertTrying \<Longrightarrow> TryInsertWait_enter clk now ''h'' [''b'', ''a''] t = (t', pc) \<Longrightarrow>
      recorder_reachable 100 (ex_sys t' p0 (Some pc))"
  using recorder_reachable.reach_step[OF assms(1)
        recorder_step.sender_enter[of _ 0 "''h''" "[''a'', ''b'']" clk now t' pc]] assms(2)
    recorder_reachable.reach_step[OF assms(1)
        recorder_step.sender_enter[of _ "Suc 0" "''h''" "[''b'', ''a'']" clk now t' pc]]
  by (simp_all add: ex_sys_upd2)

lemma ex_done:
  assumes "recorder_reachable 100 (ex_sys t (Some (Inserted a)) p1)"
  shows "SignalMessageSent ''h'' a mid t = Some t' \<Longrightarrow> mid \<noteq> [] \<Longrightarrow>
      recorder_reachable 100 (ex_sys t' (Some (Inserted a)) p1)"
    and "RemoveOnFail ''h'' a t = Some t' \<Longrightarrow>
      recorder_reachable 100 (ex_sys t' (Some (Inserted a)) p1)"
  using recorder_reachable.reach_step[OF assms
        recorder_step.sender_sent[of _ 0 "''h''" "[''a'', ''b'']" a mid t']]
    recorder_reachable.reach_step[OF assms
        recorder_step.sender_failed[of _ 0 "''h''" "[''a'', ''b'']" a t']]
  by (simp_all add: ex_sys_upd)

lemma ex_counters: "cancelIDCounter ex_t1 = 1" "cancelIDCounter ex_t3 = 1"
  by (simp_all add: ex_defs recorder_defs)

lemma ex_start: "recorder_reachable 100 (ex_sys (NewSendRecorder 100) (Some InsertTrying) (Some InsertTrying))"
proof -
  have "ex_sys (NewSendRecorder 100) None None = recorder_init 100"
    by (auto simp: ex_sys_def recorder_init_def)
  then have r0: "recorder_reachable 100 (ex_sys (NewSendRecorder 100) None None)"
    using recorder_reachable.reach_init by metis
  have r1: "recorder_reachable 100 (ex_sys (NewSendRecorder 100) (Some InsertTrying) None)"
    using recorder_reachable.reach_step[OF r0 recorder_step.sender_start[of _ 0 "''h''" "[''a'', ''b'']"]]
    by (simp only: ex_sys_upd ex_sys_sel option.map)
  show ?thesis
    using recorder_reachable.reach_step[OF r1 recorder_step.sender_start[of _ "Suc 0" "''h''" "[''b'', ''a'']"]]
    by (simp only: ex_sys_upd ex_sys_sel option.map)
qed

lemma ex_reachable:
  "recorder_reachable 100 (ex_sys ex_t1 (Some (Inserted 1)) (Some InsertTrying))"
  "recorder_reachable 100 (ex_sys ex_t2 (Some (Inserted 1)) (Some (InsertWaiting 1 0)))"
  "recorder_reachable 100 (ex_sys ex_t4 (Some (Inserted 1)) (Some (Inserted 2)))"
proof -
  have c: "cancelIDCounter (NewSendRecorder 100) \<noteq> - 1" "cancelIDCounter ex_t1 \<noteq> - 1"
    "cancelIDCounter ex_t3 \<noteq> - 1"
    by (simp_all add: NewSendRecorder_def ex_counters)
  show r1: "recorder_reachable 100 (ex_sys ex_t1 (Some (Inserted 1)) (Some InsertTrying))"
    by (rule ex_enter(1)[OF ex_start c(1) refl ex_eval(1)])
  show "recorder_reachable 100 (ex_sys ex_t2 (Some (Inserted 1)) (Some (InsertWaiting 1 0)))"
    by (rule ex_done(1)[OF ex_enter(2)[OF r1 c(2) refl ex_eval(2)] ex_eval(3)]) simp
  show "recorder_reachable 100 (ex_sys ex_t4 (Some (Inserted 1)) (Some (Inserted 2)))"
    by (rule ex_enter(2)[OF ex_done(2)[OF r1 ex_eval(4)] c(3) refl ex_eval(5)])
qed

subsection \<open>Properties\<close>

text \<open>
  Property C3. Of two senders that were granted the same message for the same recipients at
  most one still has its entry in the table: whenever the recorder grants a message again, the
  earlier grant has failed or expired.
\<close>

theorem grant_exclusive:
  assumes "recorder_reachable expi s" and "i \<noteq> j"
    and "senders s i = Some (hash, tos, Inserted a)"
    and "senders s j = Some (hash, tos', Inserted b)"
    and "matchToList tos tos'"
  shows "\<not> ((\<exists>e. recorded (table s) hash e \<and> srID e = a) \<and>
            (\<exists>e. recorded (table s) hash e \<and> srID e = b))"
proof
  assume "(\<exists>e. recorded (table s) hash e \<and> srID e = a) \<and>
          (\<exists>e. recorded (table s) hash e \<and> srID e = b)"
  then obtain e f where e: "recorded (table s) hash e" "srID e = a"
    and f: "recorded (table s) hash f" "srID f = b" by blast
  have inv: "sys_inv s" using assms(1) by (rule recorder_reachable_inv)
  have "toList e = tos" "toList f = tos'"
    using sys_invD(3)[OF inv assms(3)] sys_invD(3)[OF inv assms(4)] e f unfolding link_id_def by blast+
  then have "e = f"
    using sorted_unmatched_unique[OF recorder_invD(2)[OF sys_invD(1)[OF inv]]] e(1) f(1) assms(5)
    unfolding recorded_def by blast
  then have "i = j" using sys_invD(4)[OF inv assms(3)] assms(4) e(2) f(2) by blast
  with assms(2) show False by contradiction
qed

theorem grant_exclusive_witness:
  "recorder_reachable 100 (ex_sys ex_t4 (Some (Inserted 1)) (Some (Inserted 2))) \<and>
   matchToList [''a'', ''b''] [''b'', ''a''] \<and>
   \<not> ((\<exists>e. recorded ex_t4 ''h'' e \<and> srID e = 1) \<and> (\<exists>e. recorded ex_t4 ''h'' e \<and> srID e = 2))"
proof -
  have m: "matchToList [''a'', ''b''] [''b'', ''a'']" by (simp add: matchToList_def)
  show ?thesis
    using grant_exclusive[OF ex_reachable(3), of 0 "Suc 0" "''h''" "[''a'', ''b'']" 1 "[''b'', ''a'']" 2]
      ex_reachable(3) m by simp
qed

text \<open>
  Property C26. In no reachable state can reporting an outcome panic: neither
  \<open>SignalMessageSent\<close> nor \<open>RemoveOnFail\<close> closes a channel twice, whatever hash and ID they get.
\<close>

theorem completion_never_panics:
  assumes "recorder_reachable expi s"
  shows "SignalMessageSent hash a mid (table s) \<noteq> None \<and> RemoveOnFail hash a (table s) \<noteq> None"
proof -
  have inv: "recorder_inv (table s)"
    using recorder_reachable_inv[OF assms] by (rule sys_invD(1))
  obtain h1 where "SignalMessageSent hash a mid (table s) = Some h1"
    using SignalMessageSent_spec[OF inv] by metis
  moreover obtain h2 where "RemoveOnFail hash a (table s) = Some h2"
    using RemoveOnFail_spec[OF inv] by metis
  ultimately show ?thesis by simp
qed

theorem completion_never_panics_witness:
  "recorder_reachable 100 (ex_sys ex_t1 (Some (Inserted 1)) (Some InsertTrying)) \<and>
   SignalMessageSent ''h'' 1 ''m1'' ex_t1 \<noteq> None \<and> RemoveOnFail ''h'' 1 ex_t1 \<noteq> None"
  using completion_never_panics[OF ex_reachable(1), of "''h''" 1 "''m1''"] ex_reachable(1) by simp

text \<open>
  A sender that waited and is told the message is a duplicate can rely on it: the
  entry it waited for is still recorded and carries the message ID of a sent message. A reader
  that is given a message ID is given that ID.
\<close>

theorem duplicate_was_sent:
  assumes "recorder_reachable expi s"
    and "senders s i = Some (hash, tos, InsertWaiting a ch)" and "ch \<in> set (closedChs (table s))"
    and "TryInsertWait_resume ChannelReady hash a (table s) = Duplicate b"
  shows "b = a \<and> (\<exists>e. recorded (table s) hash e \<and> srID e = a \<and> msgID e \<noteq> [] \<and>
      HasEntryWait_resume ChannelReady hash a (table s) = HasResult (msgID e) True)"
proof -
  have inv: "sys_inv s" using assms(1) by (rule recorder_reachable_inv)
  obtain e where fnd: "find (\<lambda>e. srID e = a) (getEntries (table s) hash) = Some e" and ba: "b = a"
    using assms(4) by (auto simp: TryInsertWait_resume_def wait_def split: option.splits)
  have e: "recorded (table s) hash e" "srID e = a"
    using find_SomeD[OF fnd] by (simp_all add: recorded_def)
  have "waitCh e = ch" using sys_invD(5)[OF inv assms(2)] e unfolding link_ch_def by blast
  then have "waitChClosed e"
    using recorder_invD(3)[OF sys_invD(1)[OF inv] e(1)] assms(3) by (simp add: entry_ok_def)
  then have "msgID e \<noteq> []" using sys_invD(2)[OF inv] e(1) unfolding signalled_def by blast
  then show ?thesis using ba e fnd by (auto simp: HasEntryWait_resume_def wait_def)
qed

theorem duplicate_was_sent_witness:
  "TryInsertWait_resume ChannelReady ''h'' 1 ex_t2 = Duplicate 1 \<and>
   (\<exists>e. recorded ex_t2 ''h'' e \<and> srID e = 1 \<and> msgID e \<noteq> [] \<and>
      HasEntryWait_resume ChannelReady ''h'' 1 ex_t2 = HasResult (msgID e) True)"
proof -
  have d: "TryInsertWait_resume ChannelReady ''h'' 1 ex_t2 = Duplicate 1"
    and c: "0 \<in> set (closedChs ex_t2)"
    by (simp_all add: ex_defs recorder_defs matchToList_def)
  show ?thesis
    using duplicate_was_sent[OF ex_reachable(2), of "Suc 0" "''h''" "[''b'', ''a'']" 1 0 1] d c by simp
qed

text \<open>
  Between a grant and its expiry the same message to the same recipients, in any
  order, is refused, and the refusal names the entry and the channel of the grant.
\<close>

theorem TryInsert_refuses_duplicate:
  assumes "recorder_inv h"
    and "TryInsert clk now hash tos h = (h1, a, ch, True)"
    and "matchToList tos tos'" and "\<And>e. clk' e \<le> now + expiry h"
  shows "\<exists>h2. TryInsert clk' now' hash tos' h1 = (h2, a, ch, False)"
proof -
  let ?h = "removeExpiredUnsafe clk h" and ?e = "freshEntry now tos h"
  from TryInsert_cases[OF assms(2)] have free: "\<And>e. recorded ?h hash e \<Longrightarrow> \<not> matchToList (toList e) tos"
    and a: "a = cancelIDCounter h + 1" "ch = nextCh h"
    and h1: "h1 = ?h\<lparr>cancelIDCounter := cancelIDCounter h + 1, nextCh := Suc (nextCh h),
             entries := (entries ?h)(hash \<mapsto> getEntries ?h hash @ [?e])\<rparr>"
    unfolding Let_def by blast+
  have "getEntries h1 hash = getEntries ?h hash @ [?e]" by (simp add: h1 getEntries_def)
  then have es: "getEntries (removeExpiredUnsafe clk' h1) hash =
      filter (\<lambda>t. \<not> exp t < clk' t) (getEntries ?h hash) @ [?e]"
    using assms(4)[of ?e] by simp
  have "\<not> matchToList (toList e) tos'" if "e \<in> set (getEntries ?h hash)" for e
    using free[of e] that assms(3) matchToList_trans matchToList_sym unfolding recorded_def by blast
  then have "find (\<lambda>e. matchToList (toList e) tos')
      (filter (\<lambda>t. \<not> exp t < clk' t) (getEntries ?h hash)) = None"
    unfolding find_None_iff_all by simp
  then have "find (\<lambda>e. matchToList (toList e) tos') (getEntries (removeExpiredUnsafe clk' h1) hash) = Some ?e"
    unfolding es using assms(3) by (simp add: find_append_none)
  then show ?thesis using a by (simp add: TryInsert_def Let_def)
qed

theorem TryInsert_refuses_duplicate_witness:
  "TryInsert (\<lambda>_. 0) 0 ''h'' [''a'', ''b''] (NewSendRecorder 100) = (ex_t1, 1, 0, True) \<and>
   (\<exists>h2. TryInsert (\<lambda>_. 100) 100 ''h'' [''b'', ''a''] ex_t1 = (h2, 1, 0, False))"
proof -
  have t: "TryInsert (\<lambda>_. 0) 0 ''h'' [''a'', ''b''] (NewSendRecorder 100) = (ex_t1, 1, 0, True)"
    by (simp add: ex_t1_def recorder_defs)
  have m: "matchToList [''a'', ''b''] [''b'', ''a'']" by (simp add: matchToList_def)
  show ?thesis
    using TryInsert_refuses_duplicate[OF recorder_inv_New t m, of "\<lambda>_. 100" 100] t
    by (simp add: NewSendRecorder_def)
qed

text \<open>
  Property C5. A failed send frees the message: \<open>RemoveOnFail\<close> on an entry that was not
  signalled closes its channel, so that waiters wake up, and the next attempt for the same
  recipients is granted.
\<close>

theorem RemoveOnFail_frees:
  assumes "recorder_inv h" and "recorded h hash e" and "srID e = a" and "msgID e = []"
    and "matchToList (toList e) tos"
  shows "\<exists>h1 h2 b ch. RemoveOnFail hash a h = Some h1 \<and> waitCh e \<in> set (closedChs h1) \<and>
      TryInsert clk now hash tos h1 = (h2, b, ch, True)"
proof -
  obtain h1 where h1: "RemoveOnFail hash a h = Some h1" "recorder_inv h1"
    and rec: "\<And>hash' e'. recorded h1 hash' e' \<longleftrightarrow>
           recorded h hash' e' \<and> \<not> (hash' = hash \<and> srID e' = a \<and> msgID e' = [])"
    and closed: "\<And>e. recorded h hash e \<Longrightarrow> srID e = a \<Longrightarrow> msgID e = [] \<Longrightarrow> waitCh e \<in> set (closedChs h1)"
    using RemoveOnFail_spec[OF assms(1)] by metis
  obtain h2 b ch ok where try2: "TryInsert clk now hash tos h1 = (h2, b, ch, ok)"
    by (cases "TryInsert clk now hash tos h1") auto
  have ok
  proof (rule ccontr)
    assume "\<not> ok"
    then obtain f where f: "recorded h1 hash f" "matchToList (toList f) tos"
      using TryInsert_cases[OF try2] unfolding Let_def recorded_removeExpired by blast
    then have "recorded h hash f" "matchToList (toList e) (toList f)"
      using rec assms(5) matchToList_trans matchToList_sym by blast+
    then have "e = f"
      using sorted_unmatched_unique[OF recorder_invD(2)[OF assms(1)]] assms(2) unfolding recorded_def by blast
    then show False using f(1) rec assms(3,4) by blast
  qed
  then have "TryInsert clk now hash tos h1 = (h2, b, ch, True)" using try2 by simp
  with h1(1) closed[OF assms(2-4)] show ?thesis by blast
qed

theorem RemoveOnFail_frees_witness:
  "\<exists>h1 h2 b ch. RemoveOnFail ''h'' 1 ex_t1 = Some h1 \<and> 0 \<in> set (closedChs h1) \<and>
      TryInsert (\<lambda>_. 5) 5 ''h'' [''b'', ''a''] h1 = (h2, b, ch, True)"
proof -
  let ?e = "freshEntry 0 [''a'', ''b''] (NewSendRecorder 100)"
  have inv: "recorder_inv ex_t1"
    using sys_invD(1)[OF recorder_reachable_inv[OF ex_reachable(1)]] by simp
  have r: "recorded ex_t1 ''h'' ?e" "srID ?e = 1" "waitCh ?e = 0" "matchToList (toList ?e) [''b'', ''a'']"
    by (simp_all add: ex_t1_def recorder_defs recorded_def freshEntry_def matchToList_def)
  show ?thesis
    using RemoveOnFail_frees[OF inv r(1,2) _ r(4), of "\<lambda>_. 5" 5] r(3) by simp
qed

end
