(* ===== verification/Sync_State.thy ===== *)
theory Sync_State
  imports Bridge_Prelude "HOL-Library.FSet"
begin

section \<open>Sync status and its persistent store\<close>

text \<open>
  Models \<^verbatim>\<open>Status\<close> and the \<^verbatim>\<open>StateProvider\<close> interface of
  \<^verbatim>\<open>internal/services/syncservice/interfaces.go\<close> and the provider
  \<^verbatim>\<open>internal/services/imapservice/sync_state_provider.go\<close>, which keeps the status in memory and
  in a JSON file.

  A file is represented by the JSON document it holds (\<open>file_content\<close>): a sync file with a
  version and a data string, itself the document of a \<^verbatim>\<open>syncFileVersion1\<close> or something else, or
  no sync file at all. The disk carries the faults of the coming stores: the write of the
  temporary file can fail, leaving any content there, and so can the rename.
\<close>

subsection \<open>Status\<close>

record Status =
  HasLabels :: bool
  HasMessages :: bool
  HasMessageCount :: bool
  FailedMessages :: "string fset"
  LastSyncedMessageID :: string
  NumSyncedMessages :: int64
  TotalMessageCount :: int64
  StartSyncEventID :: string

definition DefaultStatus :: Status where
  "DefaultStatus =
     \<lparr>HasLabels = False, HasMessages = False, HasMessageCount = False, FailedMessages = {||},
      LastSyncedMessageID = [], NumSyncedMessages = 0, TotalMessageCount = 0, StartSyncEventID = []\<rparr>"

definition IsComplete :: "Status \<Rightarrow> bool" where
  "IsComplete s \<longleftrightarrow> HasLabels s \<and> HasMessages s"

definition InProgress :: "Status \<Rightarrow> bool" where
  "InProgress s \<longleftrightarrow> HasLabels s \<or> HasMessageCount s"

subsection \<open>The interface\<close>

text \<open>
  \<^verbatim>\<open>StateProvider\<close> as a record of the operations its clients call, over any state type. A
  setter returns the error it met, if any, and the new state.
\<close>

record ('s, 'e) StateProvider =
  p_AddFailedMessageID :: "string list \<Rightarrow> 's \<Rightarrow> 'e option \<times> 's"
  p_RemFailedMessageID :: "string list \<Rightarrow> 's \<Rightarrow> 'e option \<times> 's"
  p_GetSyncStatus :: "'s \<Rightarrow> 'e + Status"
  p_ClearSyncStatus :: "'s \<Rightarrow> 'e option \<times> 's"
  p_SetHasLabels :: "bool \<Rightarrow> 's \<Rightarrow> 'e option \<times> 's"
  p_SetHasMessages :: "bool \<Rightarrow> 's \<Rightarrow> 'e option \<times> 's"
  p_SetLastMessageID :: "string \<Rightarrow> int64 \<Rightarrow> 's \<Rightarrow> 'e option \<times> 's"
  p_SetMessageCount :: "int64 \<Rightarrow> 's \<Rightarrow> 'e option \<times> 's"

text \<open>What the sync service relies on: a setter that reports no error did its one update.\<close>

locale state_provider =
  fixes P :: "('s, 'e) StateProvider"
    and status_of :: "'s \<Rightarrow> Status"
  assumes get_status: "p_GetSyncStatus P s = Inr st \<Longrightarrow> st = status_of s"
    and add_failed: "p_AddFailedMessageID P ids s = (None, s') \<Longrightarrow>
      status_of s' = (status_of s)\<lparr>FailedMessages := FailedMessages (status_of s) |\<union>| fset_of_list ids\<rparr>"
    and rem_failed: "p_RemFailedMessageID P ids s = (None, s') \<Longrightarrow>
      status_of s' = (status_of s)\<lparr>FailedMessages := FailedMessages (status_of s) |-| fset_of_list ids\<rparr>"
    and clear: "p_ClearSyncStatus P s = (None, s') \<Longrightarrow> status_of s' = DefaultStatus"
    and set_has_labels: "p_SetHasLabels P b s = (None, s') \<Longrightarrow>
      status_of s' = (status_of s)\<lparr>HasLabels := b\<rparr>"
    and set_has_messages: "p_SetHasMessages P b s = (None, s') \<Longrightarrow>
      status_of s' = (status_of s)\<lparr>HasMessages := b\<rparr>"
    and set_last_message: "p_SetLastMessageID P mid n s = (None, s') \<Longrightarrow>
      status_of s' = (status_of s)\<lparr>LastSyncedMessageID := mid,
        NumSyncedMessages := NumSyncedMessages (status_of s) + n\<rparr>"
    and set_message_count: "p_SetMessageCount P n s = (None, s') \<Longrightarrow>
      status_of s' = (status_of s)\<lparr>TotalMessageCount := n, HasMessageCount := True\<rparr>"

subsection \<open>The provider that keeps a file\<close>

datatype sync_data = SyncFileV1 Status | NotV1
datatype file_content = SyncStateFile int sync_data | NotASyncFile

datatype store_fault = NoFault | WriteFault "file_content option" | RenameFault

record disk =
  files :: "string \<rightharpoonup> file_content"
  faults :: "store_fault list"

datatype sync_err =
    ErrRead
  | ErrUnmarshalFile
  | ErrInvalidSyncFileVersion
  | ErrUnmarshalData
  | ErrWriteTmp
  | ErrRename
  | ErrRemove

definition SyncFileVersion :: int where "SyncFileVersion = 1"

record SyncState =
  filePath :: string
  status :: Status

definition next_fault :: "disk \<Rightarrow> store_fault \<times> disk" where
  "next_fault d = (case faults d of [] \<Rightarrow> (NoFault, d) | f # fs \<Rightarrow> (f, d\<lparr>faults := fs\<rparr>))"

text \<open>
  \<open>storeImpl\<close> writes the temporary file, then renames it over the old one.
\<close>

definition storeImpl :: "Status \<Rightarrow> string \<Rightarrow> disk \<Rightarrow> sync_err option \<times> disk" where
  "storeImpl st path d0 =
     (let (fault, d) = next_fault d0;
          syncFile = SyncStateFile SyncFileVersion (SyncFileV1 st);
          tmpFile = path @ ''.tmp''
      in case fault of
           WriteFault left \<Rightarrow> (Some ErrWriteTmp, d\<lparr>files := (files d)(tmpFile := left)\<rparr>)
         | RenameFault \<Rightarrow> (Some ErrRename, d\<lparr>files := (files d)(tmpFile \<mapsto> syncFile)\<rparr>)
         | NoFault \<Rightarrow> (None, d\<lparr>files := (files d)(tmpFile := None, path \<mapsto> syncFile)\<rparr>))"

type_synonym sync_world = "SyncState \<times> disk"

definition storeUnsafe :: "sync_world \<Rightarrow> sync_err option \<times> sync_world" where
  "storeUnsafe w = (let (s, d) = w; (err, d') = storeImpl (status s) (filePath s) d in (err, (s, d')))"

text \<open>
  \<open>os.ReadFile\<close> fails with \<^verbatim>\<open>os.ErrNotExist\<close> exactly when there is no file; \<open>rdErr\<close> says that it
  fails for another reason.
\<close>

definition loadUnsafe :: "bool \<Rightarrow> sync_world \<Rightarrow> sync_err option \<times> SyncState" where
  "loadUnsafe rdErr w =
     (let (s, d) = w in
      if rdErr then (Some ErrRead, s)
      else case files d (filePath s) of
             None \<Rightarrow> (None, s)
           | Some NotASyncFile \<Rightarrow> (Some ErrUnmarshalFile, s)
           | Some (SyncStateFile version data) \<Rightarrow>
               if version \<noteq> SyncFileVersion then (Some ErrInvalidSyncFileVersion, s)
               else case data of
                      NotV1 \<Rightarrow> (Some ErrUnmarshalData, s)
                    | SyncFileV1 st \<Rightarrow> (None, s\<lparr>status := st\<rparr>))"

definition NewSyncState :: "bool \<Rightarrow> string \<Rightarrow> disk \<Rightarrow> sync_err + SyncState" where
  "NewSyncState rdErr path d =
     (case loadUnsafe rdErr (\<lparr>filePath = path, status = DefaultStatus\<rparr>, d) of
        (Some err, _) \<Rightarrow> Inl err
      | (None, s) \<Rightarrow> Inr s)"

definition setStatus :: "(Status \<Rightarrow> Status) \<Rightarrow> sync_world \<Rightarrow> sync_world" where
  "setStatus f w = (case w of (s, d) \<Rightarrow> (s\<lparr>status := f (status s)\<rparr>, d))"

definition AddFailedMessageID :: "string list \<Rightarrow> sync_world \<Rightarrow> sync_err option \<times> sync_world" where
  "AddFailedMessageID ids w =
     (let count = fcard (FailedMessages (status (fst w)));
          w' = setStatus (\<lambda>st. st\<lparr>FailedMessages := fold finsert ids (FailedMessages st)\<rparr>) w
      in if count = fcard (FailedMessages (status (fst w'))) then (None, w')
         else storeUnsafe w')"

definition RemFailedMessageID :: "string list \<Rightarrow> sync_world \<Rightarrow> sync_err option \<times> sync_world" where
  "RemFailedMessageID ids w =
     (let count = fcard (FailedMessages (status (fst w)));
          w' = setStatus (\<lambda>st. st\<lparr>FailedMessages := fold (\<lambda>i m. m |-| {|i|}) ids (FailedMessages st)\<rparr>) w
      in if count = fcard (FailedMessages (status (fst w'))) then (None, w')
         else storeUnsafe w')"

definition GetSyncStatus :: "sync_world \<Rightarrow> sync_err + Status" where
  "GetSyncStatus w = Inr (status (fst w))"

definition ClearSyncStatus :: "sync_world \<Rightarrow> sync_err option \<times> sync_world" where
  "ClearSyncStatus w =
     (let oldStatus = status (fst w)
      in case storeUnsafe (setStatus (\<lambda>_. DefaultStatus) w) of
           (Some err, w') \<Rightarrow> (Some err, setStatus (\<lambda>_. oldStatus) w')
         | (None, w') \<Rightarrow> (None, w'))"

definition SetHasLabels :: "bool \<Rightarrow> sync_world \<Rightarrow> sync_err option \<times> sync_world" where
  "SetHasLabels b w = storeUnsafe (setStatus (HasLabels_update (\<lambda>_. b)) w)"

definition SetHasMessages :: "bool \<Rightarrow> sync_world \<Rightarrow> sync_err option \<times> sync_world" where
  "SetHasMessages b w = storeUnsafe (setStatus (HasMessages_update (\<lambda>_. b)) w)"

definition SetLastMessageID :: "string \<Rightarrow> int64 \<Rightarrow> sync_world \<Rightarrow> sync_err option \<times> sync_world" where
  "SetLastMessageID s2 i w =
     storeUnsafe (setStatus (\<lambda>st. st\<lparr>LastSyncedMessageID := s2,
        NumSyncedMessages := NumSyncedMessages st + i\<rparr>) w)"

definition SetMessageCount :: "int64 \<Rightarrow> sync_world \<Rightarrow> sync_err option \<times> sync_world" where
  "SetMessageCount i w =
     storeUnsafe (setStatus (\<lambda>st. st\<lparr>TotalMessageCount := i, HasMessageCount := True\<rparr>) w)"

definition SetStartSyncEventID :: "string \<Rightarrow> sync_world \<Rightarrow> sync_err option \<times> sync_world" where
  "SetStartSyncEventID i w = storeUnsafe (setStatus (StartSyncEventID_update (\<lambda>_. i)) w)"

text \<open>
  \<open>os.Remove\<close>: \<open>rmErr\<close> says that it fails for a reason other than a missing file.
\<close>

definition DeleteSyncState :: "bool \<Rightarrow> string \<Rightarrow> disk \<Rightarrow> sync_err option \<times> disk" where
  "DeleteSyncState rmErr path d =
     (if files d path = None then (None, d)
      else if rmErr then (Some ErrRemove, d)
      else (None, d\<lparr>files := (files d)(path := None)\<rparr>))"

definition MigrateVaultSettings ::
  "bool \<Rightarrow> string \<Rightarrow> bool \<Rightarrow> bool \<Rightarrow> string list \<Rightarrow> disk \<Rightarrow> (bool \<times> sync_err option) \<times> disk" where
  "MigrateVaultSettings rdErr path hasLabels hasMessages failedMessageIDs d =
     (if rdErr then ((False, Some ErrRead), d)
      else if files d path \<noteq> None then ((False, None), d)
      else let st = DefaultStatus\<lparr>HasLabels := hasLabels, HasMessages := hasMessages,
                 HasMessageCount := hasMessages, FailedMessages := fset_of_list failedMessageIDs\<rparr>;
               (err, d') = storeImpl st path d
           in ((True, err), d'))"

definition SyncState_provider :: "(sync_world, sync_err) StateProvider" where
  "SyncState_provider =
     \<lparr>p_AddFailedMessageID = AddFailedMessageID, p_RemFailedMessageID = RemFailedMessageID,
      p_GetSyncStatus = GetSyncStatus, p_ClearSyncStatus = ClearSyncStatus,
      p_SetHasLabels = SetHasLabels, p_SetHasMessages = SetHasMessages,
      p_SetLastMessageID = SetLastMessageID, p_SetMessageCount = SetMessageCount\<rparr>"

lemmas sync_state_defs [op_defs] =
  storeUnsafe_def setStatus_def AddFailedMessageID_def RemFailedMessageID_def GetSyncStatus_def
  ClearSyncStatus_def SetHasLabels_def SetHasMessages_def SetLastMessageID_def
  SetMessageCount_def SetStartSyncEventID_def

subsection \<open>Lemmas on stores\<close>

lemma fold_finsert [simp]: "fold finsert ids m = m |\<union>| fset_of_list ids"
  by (induction ids arbitrary: m) auto

lemma fold_fremove [simp]: "fold (\<lambda>i m. m |-| {|i|}) ids m = m |-| fset_of_list ids"
  by (induction ids arbitrary: m) auto

lemma fcard_union_same: "fcard A = fcard (A |\<union>| B) \<longleftrightarrow> A |\<union>| B = A"
  by (metis fcard_seteq fsubset_refl funion_upper1 order_eq_refl)

lemma fcard_diff_same: "fcard A = fcard (A |-| B) \<longleftrightarrow> A |-| B = A"
  by (metis fcard_seteq fminus_fsubset order_eq_refl)

lemma storeUnsafe_status [simp]: "storeUnsafe w = (err, w') \<Longrightarrow> fst w' = fst w"
  by (auto simp: storeUnsafe_def split: prod.splits)

lemma status_setStatus [simp]: "status (fst (setStatus f w)) = f (status (fst w))"
  by (simp add: setStatus_def split: prod.splits)

lemma filePath_setStatus [simp]: "filePath (fst (setStatus f w)) = filePath (fst w)"
  by (simp add: setStatus_def split: prod.splits)

lemma snd_setStatus [simp]: "snd (setStatus f w) = snd w"
  by (simp add: setStatus_def split: prod.splits)

interpretation ssp: state_provider SyncState_provider "\<lambda>w. status (fst w)"
proof
  fix s st assume "p_GetSyncStatus SyncState_provider s = Inr st"
  then show "st = status (fst s)" by (simp add: SyncState_provider_def GetSyncStatus_def)
next
  fix ids s s' assume "p_AddFailedMessageID SyncState_provider ids s = (None, s')"
  then show "status (fst s') = (status (fst s))\<lparr>FailedMessages := FailedMessages (status (fst s)) |\<union>| fset_of_list ids\<rparr>"
    by (auto simp: SyncState_provider_def AddFailedMessageID_def Let_def fcard_union_same
        split: if_splits dest!: storeUnsafe_status)
next
  fix ids s s' assume "p_RemFailedMessageID SyncState_provider ids s = (None, s')"
  then show "status (fst s') = (status (fst s))\<lparr>FailedMessages := FailedMessages (status (fst s)) |-| fset_of_list ids\<rparr>"
    by (auto simp: SyncState_provider_def RemFailedMessageID_def Let_def fcard_diff_same
        split: if_splits dest!: storeUnsafe_status)
next
  fix s s' assume "p_ClearSyncStatus SyncState_provider s = (None, s')"
  then show "status (fst s') = DefaultStatus"
    by (auto simp: SyncState_provider_def ClearSyncStatus_def Let_def
        split: prod.splits option.splits dest!: storeUnsafe_status)
qed (auto simp: SyncState_provider_def SetHasLabels_def SetHasMessages_def SetLastMessageID_def
    SetMessageCount_def dest!: storeUnsafe_status)

subsection \<open>Memory and disk\<close>

text \<open>The calls a client can make, as data, so that runs of calls can be stated.\<close>

datatype sync_op =
    DoAddFailed "string list"
  | DoRemFailed "string list"
  | DoClear
  | DoHasLabels bool
  | DoHasMessages bool
  | DoLastMessageID string int64
  | DoMessageCount int64
  | DoStartSyncEventID string

fun apply_op :: "sync_op \<Rightarrow> sync_world \<Rightarrow> sync_err option \<times> sync_world" where
  "apply_op (DoAddFailed ids) w = AddFailedMessageID ids w"
| "apply_op (DoRemFailed ids) w = RemFailedMessageID ids w"
| "apply_op DoClear w = ClearSyncStatus w"
| "apply_op (DoHasLabels b) w = SetHasLabels b w"
| "apply_op (DoHasMessages b) w = SetHasMessages b w"
| "apply_op (DoLastMessageID m n) w = SetLastMessageID m n w"
| "apply_op (DoMessageCount n) w = SetMessageCount n w"
| "apply_op (DoStartSyncEventID i) w = SetStartSyncEventID i w"

text \<open>A fresh process that opens the file gets exactly the state held in memory.\<close>

definition in_sync :: "sync_world \<Rightarrow> bool" where
  "in_sync w \<longleftrightarrow> NewSyncState False (filePath (fst w)) (snd w) = Inr (fst w)"

lemma append_tmp_neq [simp]: "path @ ''.tmp'' \<noteq> path" "path \<noteq> path @ ''.tmp''"
  by simp_all

lemma files_next_fault: "next_fault d = (f, d') \<Longrightarrow> files d' = files d"
  by (auto simp: next_fault_def split: list.splits)

text \<open>The store replaces the file as a whole or not at all.\<close>

lemma storeImpl_files:
  assumes "storeImpl st path d = (err, d')"
  shows "files d' path = (if err = None then Some (SyncStateFile SyncFileVersion (SyncFileV1 st))
                          else files d path)"
  using assms files_next_fault[of d]
  by (auto simp: storeImpl_def Let_def split: prod.splits store_fault.splits)

lemma storeUnsafe_files:
  assumes "storeUnsafe w = (err, w')"
  shows "files (snd w') (filePath (fst w)) =
     (if err = None then Some (SyncStateFile SyncFileVersion (SyncFileV1 (status (fst w))))
      else files (snd w) (filePath (fst w)))"
  using assms storeImpl_files[of "status (fst w)" "filePath (fst w)" "snd w"]
  by (auto simp: storeUnsafe_def split: prod.splits)

lemma NewSyncState_load:
  "files d path = Some (SyncStateFile SyncFileVersion (SyncFileV1 st)) \<Longrightarrow>
   NewSyncState False path d = Inr \<lparr>filePath = path, status = st\<rparr>"
  by (simp add: NewSyncState_def loadUnsafe_def)

lemma NewSyncState_cong:
  "files d path = files d' path \<Longrightarrow> NewSyncState b path d = NewSyncState b path d'"
  by (simp add: NewSyncState_def loadUnsafe_def)

lemma storeUnsafe_in_sync:
  assumes "storeUnsafe w = (None, w')"
  shows "in_sync w'"
proof -
  have f: "fst w' = fst w" using storeUnsafe_status[OF assms] .
  have "NewSyncState False (filePath (fst w)) (snd w') =
      Inr \<lparr>filePath = filePath (fst w), status = status (fst w)\<rparr>"
    using NewSyncState_load[of "snd w'" "filePath (fst w)"] storeUnsafe_files[OF assms] by simp
  then show ?thesis unfolding in_sync_def f by simp
qed

lemma setStatus_same:
  assumes "f (status (fst w)) = status (fst w)"
  shows "setStatus f w = w"
proof (cases w)
  case (Pair s d)
  then show ?thesis using assms by (cases s) (simp add: setStatus_def)
qed

text \<open>Each call either leaves the file alone or ends with memory and file in agreement.\<close>

lemma apply_op_ok:
  assumes "in_sync w" and "apply_op op w = (None, w')"
  shows "in_sync w'"
proof (cases op)
  case (DoAddFailed ids)
  let ?w = "setStatus (\<lambda>st. st\<lparr>FailedMessages := fold finsert ids (FailedMessages st)\<rparr>) w"
  show ?thesis
  proof (cases "FailedMessages (status (fst w)) |\<union>| fset_of_list ids = FailedMessages (status (fst w))")
    case True
    then have "?w = w" by (intro setStatus_same) simp
    then show ?thesis using True assms DoAddFailed by (simp add: AddFailedMessageID_def fcard_union_same)
  next
    case False
    then have "storeUnsafe ?w = (None, w')"
      using assms(2) DoAddFailed by (auto simp: AddFailedMessageID_def Let_def fcard_union_same)
    then show ?thesis by (rule storeUnsafe_in_sync)
  qed
next
  case (DoRemFailed ids)
  let ?w = "setStatus (\<lambda>st. st\<lparr>FailedMessages := fold (\<lambda>i m. m |-| {|i|}) ids (FailedMessages st)\<rparr>) w"
  show ?thesis
  proof (cases "FailedMessages (status (fst w)) |-| fset_of_list ids = FailedMessages (status (fst w))")
    case True
    then have "?w = w" by (intro setStatus_same) simp
    then show ?thesis using True assms DoRemFailed by (simp add: RemFailedMessageID_def fcard_diff_same)
  next
    case False
    then have "storeUnsafe ?w = (None, w')"
      using assms(2) DoRemFailed by (auto simp: RemFailedMessageID_def Let_def fcard_diff_same)
    then show ?thesis by (rule storeUnsafe_in_sync)
  qed
next
  case DoClear
  then show ?thesis
    using assms(2) storeUnsafe_in_sync
    by (auto simp: ClearSyncStatus_def Let_def split: prod.splits option.splits)
qed (use assms(2) storeUnsafe_in_sync in \<open>auto simp: SetHasLabels_def SetHasMessages_def
      SetLastMessageID_def SetMessageCount_def SetStartSyncEventID_def\<close>)

lemma apply_op_path: "apply_op op w = (err, w') \<Longrightarrow> filePath (fst w') = filePath (fst w)"
  by (cases op)
    (auto simp: AddFailedMessageID_def RemFailedMessageID_def ClearSyncStatus_def SetHasLabels_def
      SetHasMessages_def SetLastMessageID_def SetMessageCount_def SetStartSyncEventID_def Let_def
      split: prod.splits option.splits if_splits dest!: storeUnsafe_status)

lemma apply_op_err:
  assumes "apply_op op w = (Some err, w')"
  shows "files (snd w') (filePath (fst w)) = files (snd w) (filePath (fst w))"
proof -
  have st: "files (snd w1) (filePath (fst w)) = files (snd w) (filePath (fst w))"
    if "storeUnsafe (setStatus f w) = (Some e, w1)" for f e w1
    using storeUnsafe_files[OF that] by simp
  show ?thesis
    using assms
    by (cases op)
      (auto simp: AddFailedMessageID_def RemFailedMessageID_def ClearSyncStatus_def SetHasLabels_def
        SetHasMessages_def SetLastMessageID_def SetMessageCount_def SetStartSyncEventID_def Let_def
        split: prod.splits option.splits if_splits dest: st)
qed

lemma iter_apply_op_path: "iter_err apply_op ops w = (err, w') \<Longrightarrow> filePath (fst w') = filePath (fst w)"
  by (rule iter_err_invariant[where I = "\<lambda>v. filePath (fst v) = filePath (fst w)"])
    (auto dest: apply_op_path)

text \<open>A run that fails fails at one call; the calls before it succeeded.\<close>

lemma iter_err_SomeD:
  assumes "iter_err f xs s = (Some e, s')"
  shows "\<exists>n t. n < length xs \<and> iter_err f (take n xs) s = (None, t) \<and> f (xs ! n) t = (Some e, s')"
  using assms
proof (induction xs arbitrary: s)
  case Nil
  then show ?case by simp
next
  case (Cons x xs)
  show ?case
  proof (cases "fst (f x s)")
    case None
    then obtain s1 where s1: "f x s = (None, s1)" by (cases "f x s") simp
    then obtain n t where "n < length xs" "iter_err f (take n xs) s1 = (None, t)" "f (xs ! n) t = (Some e, s')"
      using Cons by fastforce
    then show ?thesis using s1 by (intro exI[of _ "Suc n"] exI[of _ t]) simp
  next
    case (Some e1)
    then have "f x s = (Some e, s')" using Cons.prems by (cases "f x s") auto
    then show ?thesis by (intro exI[of _ 0] exI[of _ s]) simp
  qed
qed

lemma run_ops_in_sync:
  "in_sync w \<Longrightarrow> iter_err apply_op ops w = (None, w') \<Longrightarrow> in_sync w'"
proof (induction ops arbitrary: w)
  case (Cons op ops)
  then obtain w1 where "apply_op op w = (None, w1)" "iter_err apply_op ops w1 = (None, w')"
    by (auto split: prod.splits option.splits)
  then show ?case using Cons apply_op_ok by blast
qed simp

subsection \<open>Properties\<close>

text \<open>
  Property C6. Whatever calls a client makes, as long as they report no error a restart reads
  back exactly the status held in memory.
\<close>

theorem status_roundtrip:
  assumes "in_sync w" and "iter_err apply_op ops w = (None, w')"
  shows "NewSyncState False (filePath (fst w)) (snd w') = Inr (fst w')"
  using run_ops_in_sync[OF assms] iter_apply_op_path[OF assms(2)] by (simp add: in_sync_def)

definition ex_disk :: "store_fault list \<Rightarrow> disk" where
  "ex_disk fs = \<lparr>files = Map.empty, faults = fs\<rparr>"

definition ex_world :: "store_fault list \<Rightarrow> sync_world" where
  "ex_world fs = (\<lparr>filePath = ''sync-u'', status = DefaultStatus\<rparr>, ex_disk fs)"

lemma ex_world_in_sync: "in_sync (ex_world fs)"
  by (simp add: in_sync_def ex_world_def ex_disk_def NewSyncState_def loadUnsafe_def)

theorem status_roundtrip_witness:
  "\<exists>w'. iter_err apply_op [DoHasLabels True, DoAddFailed [''m1''], DoLastMessageID ''m2'' 2] (ex_world []) = (None, w') \<and>
     NewSyncState False ''sync-u'' (snd w') = Inr (fst w') \<and> LastSyncedMessageID (status (fst w')) = ''m2''"
proof -
  obtain w' where w': "iter_err apply_op [DoHasLabels True, DoAddFailed [''m1''], DoLastMessageID ''m2'' 2] (ex_world []) = (None, w')"
    and l: "LastSyncedMessageID (status (fst w')) = ''m2''"
    by (simp add: ex_world_def ex_disk_def sync_state_defs storeImpl_def next_fault_def DefaultStatus_def
        fcard_fempty fcard_finsert_if)
  show ?thesis
    using status_roundtrip[OF ex_world_in_sync w'] w' l by (simp add: ex_world_def)
qed

text \<open>
  A store that fails never damages the file: when a run of calls ends in an
  error, a restart reads back the status that held right before the failing call.
\<close>

theorem failed_store_keeps_file:
  assumes "in_sync w" and "iter_err apply_op ops w = (Some err, w')"
  shows "\<exists>n v. n < length ops \<and> iter_err apply_op (take n ops) w = (None, v) \<and>
      NewSyncState False (filePath (fst w)) (snd w') = Inr (fst v)"
proof -
  obtain n v where n: "n < length ops" "iter_err apply_op (take n ops) w = (None, v)"
    and bad: "apply_op (ops ! n) v = (Some err, w')"
    using iter_err_SomeD[OF assms(2)] by blast
  have p: "filePath (fst v) = filePath (fst w)" using iter_apply_op_path[OF n(2)] .
  have "files (snd w') (filePath (fst w)) = files (snd v) (filePath (fst w))"
    using apply_op_err[OF bad] p by simp
  then have "NewSyncState False (filePath (fst w)) (snd w') = Inr (fst v)"
    using run_ops_in_sync[OF assms(1) n(2)] p NewSyncState_cong[of "snd w'" _ "snd v"]
    by (simp add: in_sync_def)
  then show ?thesis using n by blast
qed

theorem failed_store_keeps_file_witness:
  "\<exists>n v. n < length [DoHasLabels True, DoClear] \<and>
     iter_err apply_op (take n [DoHasLabels True, DoClear]) (ex_world [NoFault, RenameFault]) = (None, v) \<and>
     NewSyncState False ''sync-u''
       (snd (snd (iter_err apply_op [DoHasLabels True, DoClear] (ex_world [NoFault, RenameFault])))) = Inr (fst v)"
proof -
  obtain w' where w': "iter_err apply_op [DoHasLabels True, DoClear] (ex_world [NoFault, RenameFault]) = (Some ErrRename, w')"
    by (simp add: ex_world_def ex_disk_def sync_state_defs storeImpl_def next_fault_def)
  show ?thesis
    using failed_store_keeps_file[OF ex_world_in_sync w'] w' by (simp add: ex_world_def)
qed

text \<open>
  Property C6. What the code does after a failed \<open>AddFailedMessageID\<close>: the IDs stay in memory,
  so calling it again with the same IDs finds nothing to change and reports success without
  storing, although the file still has the old status.
\<close>

theorem add_failed_retry_not_stored:
  assumes "AddFailedMessageID ids w = (Some err, w1)"
  shows "AddFailedMessageID ids w1 = (None, w1) \<and>
     files (snd w1) (filePath (fst w)) = files (snd w) (filePath (fst w))"
proof -
  let ?f = "\<lambda>st. st\<lparr>FailedMessages := fold finsert ids (FailedMessages st)\<rparr>"
  have st: "storeUnsafe (setStatus ?f w) = (Some err, w1)"
    using assms by (auto simp: AddFailedMessageID_def Let_def split: if_splits)
  then have f: "status (fst w1) = ?f (status (fst w))" using storeUnsafe_status[OF st] by simp
  then have "setStatus ?f w1 = w1" by (intro setStatus_same) simp
  then have "AddFailedMessageID ids w1 = (None, w1)"
    by (simp add: AddFailedMessageID_def)
  then show ?thesis using apply_op_err[of "DoAddFailed ids" w err w1] assms by simp
qed

theorem add_failed_retry_not_stored_witness:
  "\<exists>w1. AddFailedMessageID [''m1''] (ex_world [WriteFault None]) = (Some ErrWriteTmp, w1) \<and>
     AddFailedMessageID [''m1''] w1 = (None, w1) \<and> files (snd w1) ''sync-u'' = None"
proof -
  obtain w1 where w1: "AddFailedMessageID [''m1''] (ex_world [WriteFault None]) = (Some ErrWriteTmp, w1)"
    by (simp add: ex_world_def ex_disk_def sync_state_defs storeImpl_def next_fault_def DefaultStatus_def
        fcard_fempty fcard_finsert_if)
  show ?thesis
    using add_failed_retry_not_stored[OF w1] w1 by (simp add: ex_world_def ex_disk_def)
qed

text \<open>
  Migration from the vault runs at most once: it writes the vault's flags into a
  fresh file, where a restart finds them, and a second migration changes nothing.
\<close>

theorem migration_once:
  assumes "MigrateVaultSettings False path hl hm ids d = ((True, None), d1)"
  shows "NewSyncState False path d1 =
      Inr \<lparr>filePath = path, status = DefaultStatus\<lparr>HasLabels := hl, HasMessages := hm,
            HasMessageCount := hm, FailedMessages := fset_of_list ids\<rparr>\<rparr> \<and>
    MigrateVaultSettings False path hl' hm' ids' d1 = ((False, None), d1)"
proof -
  let ?st = "DefaultStatus\<lparr>HasLabels := hl, HasMessages := hm,
      HasMessageCount := hm, FailedMessages := fset_of_list ids\<rparr>"
  have "storeImpl ?st path d = (None, d1)"
    using assms by (auto simp: MigrateVaultSettings_def Let_def split: if_splits prod.splits)
  then have "files d1 path = Some (SyncStateFile SyncFileVersion (SyncFileV1 ?st))"
    using storeImpl_files by fastforce
  then show ?thesis using NewSyncState_load[of d1 path ?st] by (simp add: MigrateVaultSettings_def)
qed

theorem migration_once_witness:
  "\<exists>d1. MigrateVaultSettings False ''sync-u'' True False [''m1''] (ex_disk []) = ((True, None), d1) \<and>
     MigrateVaultSettings False ''sync-u'' False True [] d1 = ((False, None), d1)"
proof -
  obtain d1 where d1: "MigrateVaultSettings False ''sync-u'' True False [''m1''] (ex_disk []) = ((True, None), d1)"
    by (simp add: MigrateVaultSettings_def storeImpl_def next_fault_def ex_disk_def)
  show ?thesis using migration_once[OF d1, of False True "[]"] d1 by simp
qed

end
