(* ===== verification/Download_Cache.thy ===== *)
theory Download_Cache
  imports Bridge_Prelude
begin

section \<open>The download cache of the sync service\<close>

text \<open>
  Models \<^verbatim>\<open>internal/services/syncservice/download_cache.go\<close> and the cached downloads
  \<open>downloadMessage\<close> and \<open>downloadAttachment\<close> of \<^verbatim>\<open>stage_download.go\<close>. Messages and attachments
  are the fields of the API types the sync service reads. The API client is a parameter that
  threads a world \<open>'w\<close>, so that "no request was made" can be stated.
\<close>

type_synonym bytes = "8 word list"

record Attachment =
  att_ID :: string
  att_Size :: int64

record Message =
  m_ID :: string
  m_AddressID :: string
  m_Body :: bytes
  m_Attachments :: "Attachment list"

subsection \<open>Operations\<close>

record DownloadCache =
  messages :: "string \<rightharpoonup> Message"
  attachments :: "string \<rightharpoonup> bytes"

definition newDownloadCache :: DownloadCache where
  "newDownloadCache = \<lparr>messages = Map.empty, attachments = Map.empty\<rparr>"

definition StoreMessage :: "Message \<Rightarrow> DownloadCache \<Rightarrow> DownloadCache" where
  "StoreMessage m c = c\<lparr>messages := (messages c)(m_ID m \<mapsto> m)\<rparr>"

definition StoreAttachment :: "string \<Rightarrow> bytes \<Rightarrow> DownloadCache \<Rightarrow> DownloadCache" where
  "StoreAttachment i b c = c\<lparr>attachments := (attachments c)(i \<mapsto> b)\<rparr>"

fun DeleteMessages :: "string list \<Rightarrow> DownloadCache \<Rightarrow> DownloadCache" where
  "DeleteMessages [] c = c"
| "DeleteMessages (i # ids) c = DeleteMessages ids (c\<lparr>messages := (messages c)(i := None)\<rparr>)"

fun DeleteAttachments :: "string list \<Rightarrow> DownloadCache \<Rightarrow> DownloadCache" where
  "DeleteAttachments [] c = c"
| "DeleteAttachments (i # ids) c = DeleteAttachments ids (c\<lparr>attachments := (attachments c)(i := None)\<rparr>)"

definition GetMessage :: "DownloadCache \<Rightarrow> string \<Rightarrow> Message option" where
  "GetMessage c i = messages c i"

definition GetAttachment :: "DownloadCache \<Rightarrow> string \<Rightarrow> bytes option" where
  "GetAttachment c i = attachments c i"

definition Clear :: "DownloadCache \<Rightarrow> DownloadCache" where
  "Clear c = (c\<lparr>messages := Map.empty\<rparr>)\<lparr>attachments := Map.empty\<rparr>"

definition Count :: "DownloadCache \<Rightarrow> nat \<times> nat" where
  "Count c = (card (dom (messages c)), card (dom (attachments c)))"

text \<open>
  A download goes to the API only on a miss; a successful answer is stored. \<open>StoreMessage\<close> uses
  the ID in the message, \<open>StoreAttachment\<close> the ID that was asked for.
\<close>

definition downloadMessage ::
  "(string \<Rightarrow> 'w \<Rightarrow> ('e + Message) \<times> 'w) \<Rightarrow> string \<Rightarrow> DownloadCache \<times> 'w \<Rightarrow>
     ('e + Message) \<times> DownloadCache \<times> 'w" where
  "downloadMessage api i cw =
     (let (cache, w) = cw in
      case GetMessage cache i of
        Some msg \<Rightarrow> (Inr msg, cache, w)
      | None \<Rightarrow>
          (case api i w of
             (Inl err, w') \<Rightarrow> (Inl err, cache, w')
           | (Inr msg, w') \<Rightarrow> (Inr msg, StoreMessage msg cache, w')))"

definition downloadAttachment ::
  "(string \<Rightarrow> 'w \<Rightarrow> ('e + bytes) \<times> 'w) \<Rightarrow> string \<Rightarrow> DownloadCache \<times> 'w \<Rightarrow>
     ('e + bytes) \<times> DownloadCache \<times> 'w" where
  "downloadAttachment api i cw =
     (let (cache, w) = cw in
      case GetAttachment cache i of
        Some b \<Rightarrow> (Inr b, cache, w)
      | None \<Rightarrow>
          (case api i w of
             (Inl err, w') \<Rightarrow> (Inl err, cache, w')
           | (Inr b, w') \<Rightarrow> (Inr b, StoreAttachment i b cache, w')))"

subsection \<open>The contract of one half of the cache\<close>

text \<open>
  Both halves are maps from IDs with a bulk delete. The laws are what the download and
  the apply stage rely on; the lemmas inside are about any download that consults the cache.
\<close>

locale keyed_cache =
  fixes get :: "'c \<Rightarrow> string \<Rightarrow> 'v option"
    and store :: "string \<Rightarrow> 'v \<Rightarrow> 'c \<Rightarrow> 'c"
    and delete :: "string list \<Rightarrow> 'c \<Rightarrow> 'c"
    and ok :: "string \<Rightarrow> 'v \<Rightarrow> bool"
  assumes get_store: "ok i v \<Longrightarrow> get (store i v c) j = (if j = i then Some v else get c j)"
    and get_delete: "get (delete ids c) j = (if j \<in> set ids then None else get c j)"
begin

text \<open>The shape of both download functions.\<close>

definition fetch :: "(string \<Rightarrow> 'w \<Rightarrow> ('e + 'v) \<times> 'w) \<Rightarrow> string \<Rightarrow> 'c \<times> 'w \<Rightarrow> ('e + 'v) \<times> 'c \<times> 'w" where
  "fetch api i cw =
     (let (c, w) = cw in
      case get c i of
        Some v \<Rightarrow> (Inr v, c, w)
      | None \<Rightarrow> (case api i w of (Inl err, w') \<Rightarrow> (Inl err, c, w') | (Inr v, w') \<Rightarrow> (Inr v, store i v c, w')))"

lemma fetch_hit: "get c i = Some v \<Longrightarrow> fetch api i (c, w) = (Inr v, c, w)"
  by (simp add: fetch_def)

lemma fetch_caches:
  assumes "\<forall>w v w'. api i w = (Inr v, w') \<longrightarrow> ok i v"
    and "fetch api i (c, w) = (Inr v, c', w')"
  shows "get c' i = Some v"
proof (cases "get c i")
  case None
  then have "api i w = (Inr v, w')" "c' = store i v c"
    using assms(2) by (auto simp: fetch_def split: sum.splits prod.splits)
  moreover from this(1) have "ok i v" using assms(1) by blast
  ultimately show ?thesis by (simp add: get_store)
next
  case (Some v')
  then show ?thesis using assms(2) by (simp add: fetch_def)
qed

lemma fetch_twice:
  assumes "\<forall>w v w'. api i w = (Inr v, w') \<longrightarrow> ok i v"
    and "fetch api i (c, w) = (Inr v, c', w')"
  shows "fetch api' i (c', w2) = (Inr v, c', w2)"
  by (rule fetch_hit[OF fetch_caches[OF assms]])

lemma fetch_error_keeps:
  "fetch api i (c, w) = (Inl err, c', w') \<Longrightarrow> c' = c \<and> get c i = None"
  by (auto simp: fetch_def split: option.splits sum.splits prod.splits)

lemma fetch_then_delete:
  assumes "i \<in> set ids"
  shows "get (delete ids c) i = None"
  using assms by (simp add: get_delete)

end

lemma messages_DeleteMessages:
  "messages (DeleteMessages ids c) j = (if j \<in> set ids then None else messages c j)"
  "attachments (DeleteMessages ids c) = attachments c"
  by (induction ids arbitrary: c) auto

lemma attachments_DeleteAttachments:
  "attachments (DeleteAttachments ids c) j = (if j \<in> set ids then None else attachments c j)"
  "messages (DeleteAttachments ids c) = messages c"
  by (induction ids arbitrary: c) auto

interpretation mc: keyed_cache GetMessage "\<lambda>_. StoreMessage" DeleteMessages "\<lambda>i m. m_ID m = i"
  by unfold_locales (auto simp: GetMessage_def StoreMessage_def messages_DeleteMessages)

interpretation ac: keyed_cache GetAttachment StoreAttachment DeleteAttachments "\<lambda>_ _. True"
  by unfold_locales (auto simp: GetAttachment_def StoreAttachment_def attachments_DeleteAttachments)

lemma downloadMessage_fetch: "downloadMessage = mc.fetch"
  by (intro ext) (simp add: downloadMessage_def mc.fetch_def)

lemma downloadAttachment_fetch: "downloadAttachment = ac.fetch"
  by (intro ext) (simp add: downloadAttachment_def ac.fetch_def)

lemmas cache_defs [op_defs] = newDownloadCache_def StoreMessage_def StoreAttachment_def
  GetMessage_def GetAttachment_def Clear_def downloadMessage_def downloadAttachment_def

lemma downloadMessage_twice:
  assumes "\<forall>w m w'. api i w = (Inr m, w') \<longrightarrow> m_ID m = i"
    and "downloadMessage api i (c, w) = (Inr m, c', w')"
  shows "downloadMessage api' i (c', w2) = (Inr m, c', w2)"
  using mc.fetch_twice[of api i c w m c' w' api' w2] assms unfolding downloadMessage_fetch by blast

lemma downloadAttachment_twice:
  assumes "downloadAttachment api i (c, w) = (Inr b, c', w')"
  shows "downloadAttachment api' i (c', w2) = (Inr b, c', w2)"
  using ac.fetch_twice[of api i c w b c' w' api' w2] assms unfolding downloadAttachment_fetch by simp

end
