(* ===== verification/Sync_Job.thy ===== *)
theory Sync_Job
  imports Sync_State Download_Cache
begin

section \<open>Sync jobs and the job waiter\<close>

text \<open>
  Models \<^verbatim>\<open>internal/services/syncservice/job.go\<close>. A job splits into child jobs; the waiter
  goroutine counts them by the messages it receives on its channel and, once none is left,
  writes the first error to \<^verbatim>\<open>doneCh\<close>. The record \<open>Job\<close> keeps what a job's operations change:
  whether its context is cancelled, the messages sent to the waiter, the state of the
  \<^verbatim>\<open>StateProvider\<close>, the progress reported, the download cache and the number of messages whose
  metadata was fetched.
\<close>

text \<open>The errors that travel through the service; \<open>SState\<close> wraps an error of the provider.\<close>

datatype 'e svc_err =
    SCtx ctx_error
  | SApi nat
  | SState 'e
  | SOther string

subsection \<open>The waiter\<close>

datatype JobWaiterMessage =
    JobWaiterMessageCreated
  | JobWaiterMessageFinished
  | JobWaiterMessageUnknown int

type_synonym 'e jobWaiterMessagePair = "JobWaiterMessage \<times> 'e option"

datatype 'e jw_event = JwMessage "'e jobWaiterMessagePair" | JwClosed

text \<open>
  The receive loop of \<open>begin\<close>: the events the channel delivers, in order. The result is the value
  written to \<^verbatim>\<open>doneCh\<close> and the events left unread; \<open>None\<close> means the loop still waits.
\<close>

fun jobWaiter_loop :: "int \<Rightarrow> 'e option \<Rightarrow> 'e jw_event list \<Rightarrow> ('e option \<times> 'e jw_event list) option" where
  "jobWaiter_loop tot err [] = None"
| "jobWaiter_loop tot err (JwClosed # evs) = Some (err, evs)"
| "jobWaiter_loop tot err (JwMessage (m, merr) # evs) =
     (case m of
        JobWaiterMessageCreated \<Rightarrow>
          if tot + 1 \<le> 0 then Some (err, evs) else jobWaiter_loop (tot + 1) err evs
      | JobWaiterMessageFinished \<Rightarrow>
          (let err' = (if merr \<noteq> None \<and> err = None then merr else err)
           in if tot - 1 \<le> 0 then Some (err', evs) else jobWaiter_loop (tot - 1) err' evs)
      | JobWaiterMessageUnknown _ \<Rightarrow> jobWaiter_loop tot err evs)"

definition jobWaiter_begin :: "'e jw_event list \<Rightarrow> ('e option \<times> 'e jw_event list) option" where
  "jobWaiter_begin evs = jobWaiter_loop 1 None evs"

subsection \<open>Jobs and child jobs\<close>

record FullMessage =
  fm_Message :: Message
  fm_AttData :: "bytes list"

abbreviation fm_ID :: "FullMessage \<Rightarrow> string" where
  "fm_ID m \<equiv> m_ID (fm_Message m)"

record childJob =
  lastMessageID :: string
  messageCount :: int64
  cachedMessageIDs :: "string list"
  cachedAttachmentIDs :: "string list"

record ('w, 'e) Job =
  j_cancelled :: bool
  j_sent :: "'e svc_err jobWaiterMessagePair list"
  j_state :: 'w
  j_progress :: "int64 list"
  j_cache :: DownloadCache
  j_metadataFetched :: int64

definition onTaskFinished :: "'e svc_err option \<Rightarrow> ('w, 'e) Job \<Rightarrow> ('w, 'e) Job" where
  "onTaskFinished err j = j\<lparr>j_sent := j_sent j @ [(JobWaiterMessageFinished, err)]\<rparr>"

definition onTaskCreated :: "('w, 'e) Job \<Rightarrow> ('w, 'e) Job" where
  "onTaskCreated j = j\<lparr>j_sent := j_sent j @ [(JobWaiterMessageCreated, None)]\<rparr>"

definition Job_onError :: "'e svc_err \<Rightarrow> ('w, 'e) Job \<Rightarrow> ('w, 'e) Job" where
  "Job_onError err j = onTaskFinished (Some err) (j\<lparr>j_cancelled := True\<rparr>)"

definition Job_onStageCompleted :: "int64 \<Rightarrow> ('w, 'e) Job \<Rightarrow> ('w, 'e) Job" where
  "Job_onStageCompleted count j = j\<lparr>j_progress := j_progress j @ [count]\<rparr>"

definition onJobFinished ::
  "('w, 'e) StateProvider \<Rightarrow> string \<Rightarrow> int64 \<Rightarrow> ('w, 'e) Job \<Rightarrow> ('w, 'e) Job" where
  "onJobFinished P lastID count j =
     (case p_SetLastMessageID P lastID count (j_state j) of
        (Some err, w') \<Rightarrow> Job_onError (SState err) (j\<lparr>j_state := w'\<rparr>)
      | (None, w') \<Rightarrow>
          onTaskFinished None (Job_onStageCompleted count (j\<lparr>j_state := w'\<rparr>)))"

definition Job_end :: "('w, 'e) Job \<Rightarrow> ('w, 'e) Job" where
  "Job_end j = onTaskFinished None j"

definition newChildJob :: "string \<Rightarrow> int64 \<Rightarrow> ('w, 'e) Job \<Rightarrow> ('w, 'e) Job \<times> childJob" where
  "newChildJob mid count j =
     (onTaskCreated j,
      \<lparr>lastMessageID = mid, messageCount = count, cachedMessageIDs = [], cachedAttachmentIDs = []\<rparr>)"

text \<open>
  \<open>waitAndClose\<close> returns once the waiter is done, also when its context ended first; the
  result is the context's error in that case, else what the waiter wrote. It then closes
  the waiter's channel. \<open>None\<close>: it still blocks.
\<close>

definition waitAndClose ::
  "ctx_error option \<Rightarrow> 'e svc_err jw_event list \<Rightarrow> 'e svc_err option option" where
  "waitAndClose ctxErr evs =
     (case jobWaiter_begin evs of
        None \<Rightarrow> None
      | Some (err, _) \<Rightarrow> Some (case ctxErr of Some c \<Rightarrow> Some (SCtx c) | None \<Rightarrow> err))"

definition collectIDs :: "FullMessage list \<Rightarrow> childJob \<Rightarrow> childJob" where
  "collectIDs msgs j =
     j\<lparr>cachedMessageIDs := map fm_ID msgs,
       cachedAttachmentIDs := concat (map (\<lambda>m. map att_ID (m_Attachments (fm_Message m))) msgs)\<rparr>"

text \<open>
  \<open>chunkDivide\<close>: a new child job per chunk but the last, which keeps the job being divided.
  \<open>None\<close> is the panic of \<^verbatim>\<open>chunks[i][chunkLength-1]\<close> on an empty chunk and of
  \<^verbatim>\<open>result[numChunks-1]\<close> when there is no chunk.
\<close>

fun chunkDivide_loop ::
  "FullMessage list list \<Rightarrow> childJob \<Rightarrow> ('w, 'e) Job \<Rightarrow> (('w, 'e) Job \<times> childJob list) option" where
  "chunkDivide_loop [] s j = None"
| "chunkDivide_loop [c] s j = Some (j, [collectIDs c s])"
| "chunkDivide_loop (c # d # cs) s j =
     (if c = [] then None
      else let (j1, child) = newChildJob (fm_ID (last c)) (word_of_nat (length c)) j
           in map_option (\<lambda>(j2, rest). (j2, collectIDs c child # rest)) (chunkDivide_loop (d # cs) s j1))"

definition chunkDivide ::
  "FullMessage list list \<Rightarrow> childJob \<Rightarrow> ('w, 'e) Job \<Rightarrow> (('w, 'e) Job \<times> childJob list) option" where
  "chunkDivide chunks s j = (if length chunks = 1 then Some (j, [s]) else chunkDivide_loop chunks s j)"

definition childJob_onFinished ::
  "('w, 'e) StateProvider \<Rightarrow> childJob \<Rightarrow> ('w, 'e) Job \<Rightarrow> ('w, 'e) Job" where
  "childJob_onFinished P s j =
     (let j1 = onJobFinished P (lastMessageID s) (messageCount s) j
      in j1\<lparr>j_cache := DeleteAttachments (cachedAttachmentIDs s)
                        (DeleteMessages (cachedMessageIDs s) (j_cache j1))\<rparr>)"

definition childJob_onStageCompleted :: "childJob \<Rightarrow> ('w, 'e) Job \<Rightarrow> ('w, 'e) Job" where
  "childJob_onStageCompleted s j = Job_onStageCompleted (messageCount s) j"

text \<open>A cancelled context reports \<^verbatim>\<open>context.Canceled\<close>.\<close>

definition checkCancelled :: "('w, 'e) Job \<Rightarrow> ('w, 'e) Job \<times> bool" where
  "checkCancelled j =
     (if j_cancelled j then (onTaskFinished (Some (SCtx Canceled)) j, True) else (j, False))"

lemmas job_defs [op_defs] =
  onTaskFinished_def onTaskCreated_def Job_onError_def Job_onStageCompleted_def onJobFinished_def
  Job_end_def newChildJob_def collectIDs_def childJob_onFinished_def
  childJob_onStageCompleted_def checkCancelled_def

subsection \<open>The waiter counts tasks\<close>

text \<open>
  \<open>pending ms\<close> is the number of tasks the waiter believes are running after the messages \<open>ms\<close>:
  one for the job itself, one more per creation, one less per completion.
\<close>

fun msg_delta :: "JobWaiterMessage \<Rightarrow> int" where
  "msg_delta JobWaiterMessageCreated = 1"
| "msg_delta JobWaiterMessageFinished = - 1"
| "msg_delta (JobWaiterMessageUnknown _) = 0"

definition pending :: "'e jobWaiterMessagePair list \<Rightarrow> int" where
  "pending ms = 1 + sum_list (map (\<lambda>(m, _). msg_delta m) ms)"

text \<open>The first error among the completions.\<close>

definition first_err :: "'e jobWaiterMessagePair list \<Rightarrow> 'e option" where
  "first_err ms =
     (case filter (\<lambda>(m, e). m = JobWaiterMessageFinished \<and> e \<noteq> None) ms of [] \<Rightarrow> None | (m, e) # _ \<Rightarrow> e)"

lemma first_err_Cons:
  "first_err ((m, e) # ms) =
     (if m = JobWaiterMessageFinished \<and> e \<noteq> None then e else first_err ms)"
  by (auto simp: first_err_def)

lemma first_err_Nil [simp]: "first_err [] = None"
  by (simp add: first_err_def)

abbreviation deltas :: "'e jobWaiterMessagePair list \<Rightarrow> int" where
  "deltas ms \<equiv> sum_list (map (\<lambda>(m, _). msg_delta m) ms)"

text \<open>\<open>stops t pre\<close>: starting from \<open>t\<close> tasks, the count reaches zero exactly after \<open>pre\<close>.\<close>

definition stops :: "int \<Rightarrow> 'e jobWaiterMessagePair list \<Rightarrow> bool" where
  "stops t pre \<longleftrightarrow> t + deltas pre = 0 \<and> (\<forall>n < length pre. 0 < t + deltas (take n pre))"

lemma stops_Nil [simp]: "stops t [] \<longleftrightarrow> t = 0"
  by (simp add: stops_def)

lemma stops_Cons: "stops t ((m, e) # pre) \<longleftrightarrow> 0 < t \<and> stops (t + msg_delta m) pre"
proof -
  have "(\<forall>n < Suc (length pre). 0 < t + deltas (take n ((m, e) # pre))) \<longleftrightarrow>
      0 < t \<and> (\<forall>n < length pre. 0 < t + msg_delta m + deltas (take n pre))"
    by (auto simp: All_less_Suc2 add.assoc)
  then show ?thesis by (auto simp: stops_def add.assoc)
qed

lemma jobWaiter_loop_iff:
  assumes "0 < tot"
  shows "jobWaiter_loop tot err (map JwMessage ms) = Some (e, rest) \<longleftrightarrow>
     (\<exists>pre post. ms = pre @ post \<and> rest = map JwMessage post \<and> stops tot pre \<and>
        e = (if err = None then first_err pre else err))"
  using assms
proof (induction ms arbitrary: tot err)
  case Nil
  then show ?case by simp
next
  case (Cons p ms)
  obtain m me where p: "p = (m, me)" by (cases p)
  let ?t = "tot + msg_delta m"
  let ?err = "if m = JobWaiterMessageFinished \<and> me \<noteq> None \<and> err = None then me else err"
  have split: "(\<exists>pre post. p # ms = pre @ post \<and> rest = map JwMessage post \<and> stops tot pre \<and>
        e = (if err = None then first_err pre else err)) \<longleftrightarrow>
     (\<exists>pre post. ms = pre @ post \<and> rest = map JwMessage post \<and> stops ?t pre \<and>
        e = (if ?err = None then first_err pre else ?err))" (is "?L \<longleftrightarrow> ?R")
  proof
    assume ?L
    then obtain pre post where L: "p # ms = pre @ post" "rest = map JwMessage post" "stops tot pre"
      "e = (if err = None then first_err pre else err)" by blast
    from L(1,3) Cons.prems obtain pre' where "pre = p # pre'" by (cases pre) auto
    with L show ?R
      by (intro exI[of _ pre'] exI[of _ post]) (auto simp: p stops_Cons first_err_Cons)
  next
    assume ?R
    then obtain pre post where "ms = pre @ post" "rest = map JwMessage post" "stops ?t pre"
      "e = (if ?err = None then first_err pre else ?err)" by blast
    then show ?L using Cons.prems
      by (intro exI[of _ "p # pre"] exI[of _ post]) (auto simp: p stops_Cons first_err_Cons)
  qed
  have "?t \<ge> 0" using Cons.prems by (cases m) auto
  then consider "?t = 0" | "0 < ?t" by linarith
  then show ?case
  proof cases
    case 1
    then have fin: "m = JobWaiterMessageFinished" "tot = 1" using Cons.prems by (cases m; simp)+
    have "stops ?t pre \<longleftrightarrow> pre = []" for pre :: "'a jobWaiterMessagePair list"
      using 1 by (cases pre) (auto simp: stops_def)
    then show ?thesis unfolding split using fin by (auto simp: p)
  next
    case 2
    have "jobWaiter_loop tot err (map JwMessage (p # ms)) = jobWaiter_loop ?t ?err (map JwMessage ms)"
      using 2 Cons.prems by (cases m) (auto simp: p Let_def)
    then show ?thesis unfolding split using Cons.IH[OF 2, of ?err] by simp
  qed
qed

subsection \<open>Task accounting of the job operations\<close>

lemma pending_append: "pending (xs @ ys) = pending xs + deltas ys"
  by (simp add: pending_def)

lemma pending_ops [simp]:
  "pending (j_sent (onTaskFinished err j)) = pending (j_sent j) - 1"
  "pending (j_sent (onTaskCreated j)) = pending (j_sent j) + 1"
  "pending (j_sent (Job_onError e j)) = pending (j_sent j) - 1"
  "pending (j_sent (Job_onStageCompleted n j)) = pending (j_sent j)"
  "pending (j_sent (Job_end j)) = pending (j_sent j) - 1"
  "pending (j_sent (childJob_onStageCompleted c j)) = pending (j_sent j)"
  by (simp_all add: job_defs pending_append)

lemma pending_onJobFinished [simp]:
  "pending (j_sent (onJobFinished P mid n j)) = pending (j_sent j) - 1"
  by (simp add: onJobFinished_def Job_onError_def Job_onStageCompleted_def onTaskFinished_def
      pending_append split: prod.splits option.splits)

lemma pending_childJob_onFinished [simp]:
  "pending (j_sent (childJob_onFinished P c j)) = pending (j_sent j) - 1"
  by (simp add: childJob_onFinished_def Let_def)

lemma pending_newChildJob: "newChildJob mid n j = (j', c) \<Longrightarrow> pending (j_sent j') = pending (j_sent j) + 1"
  by (auto simp: newChildJob_def)

lemma pending_checkCancelled:
  "checkCancelled j = (j', b) \<Longrightarrow> pending (j_sent j') = pending (j_sent j) - (if b then 1 else 0)"
  by (auto simp: checkCancelled_def split: if_splits)

lemma chunkDivide_loop_spec:
  assumes "chunks \<noteq> []" and "\<forall>c \<in> set (butlast chunks). c \<noteq> []"
  shows "\<exists>j' js. chunkDivide_loop chunks s j = Some (j', js) \<and> length js = length chunks \<and>
     pending (j_sent j') = pending (j_sent j) + int (length chunks) - 1 \<and>
     lastMessageID (last js) = lastMessageID s \<and>
     map lastMessageID (butlast js) = map (fm_ID \<circ> last) (butlast chunks) \<and>
     sum_list (map messageCount js) =
       messageCount s + sum_list (map (\<lambda>c. word_of_nat (length c)) (butlast chunks)) \<and>
     concat (map cachedMessageIDs js) = map fm_ID (concat chunks) \<and> js \<noteq> []"
  using assms
proof (induction chunks s j rule: chunkDivide_loop.induct)
  case (3 c d cs s j)
  let ?child = "snd (newChildJob (fm_ID (last c)) (word_of_nat (length c)) j)"
  let ?j1 = "fst (newChildJob (fm_ID (last c)) (word_of_nat (length c)) j)"
  have c: "c \<noteq> []" using "3.prems" by simp
  obtain j' js where IH: "chunkDivide_loop (d # cs) s ?j1 = Some (j', js)" "length js = length (d # cs)"
    "pending (j_sent j') = pending (j_sent ?j1) + int (length (d # cs)) - 1"
    "lastMessageID (last js) = lastMessageID s"
    "map lastMessageID (butlast js) = map (fm_ID \<circ> last) (butlast (d # cs))"
    "sum_list (map messageCount js) =
       messageCount s + sum_list (map (\<lambda>c. word_of_nat (length c)) (butlast (d # cs)))"
    "concat (map cachedMessageIDs js) = map fm_ID (concat (d # cs))" "js \<noteq> []"
    using "3.IH"[OF c refl surjective_pairing[symmetric]] "3.prems" by auto
  have j1: "pending (j_sent ?j1) = pending (j_sent j) + 1"
    by (rule pending_newChildJob[where c = ?child]) simp
  have eq: "chunkDivide_loop (c # d # cs) s j = Some (j', collectIDs c ?child # js)"
    using c IH(1) by (simp add: newChildJob_def)
  show ?case
    unfolding eq using IH(2-) j1
    by (simp add: newChildJob_def collectIDs_def)
qed (auto simp: collectIDs_def)

lemma chunkDivide_loop_cancelled:
  "chunkDivide_loop cs s j = Some (j', js) \<Longrightarrow> j_cancelled j' = j_cancelled j"
  by (induction cs s j arbitrary: js rule: chunkDivide_loop.induct)
    (auto simp: newChildJob_def onTaskCreated_def split: if_splits)

lemma chunkDivide_spec:
  assumes "chunks \<noteq> []" and "\<forall>c \<in> set (butlast chunks). c \<noteq> []"
  shows "\<exists>j' js. chunkDivide chunks s j = Some (j', js) \<and> length js = length chunks \<and>
     pending (j_sent j') = pending (j_sent j) + int (length chunks) - 1 \<and>
     lastMessageID (last js) = lastMessageID s \<and>
     map lastMessageID (butlast js) = map (fm_ID \<circ> last) (butlast chunks) \<and>
     sum_list (map messageCount js) =
       messageCount s + sum_list (map (\<lambda>c. word_of_nat (length c)) (butlast chunks)) \<and>
     (1 < length chunks \<longrightarrow> concat (map cachedMessageIDs js) = map fm_ID (concat chunks)) \<and>
     j_cancelled j' = j_cancelled j"
proof (cases "length chunks = 1")
  case True
  then obtain c where "chunks = [c]" by (cases chunks) auto
  then show ?thesis by (simp add: chunkDivide_def)
next
  case False
  then have "chunkDivide chunks s j = chunkDivide_loop chunks s j" by (simp add: chunkDivide_def)
  then show ?thesis using chunkDivide_loop_spec[OF assms, of s j] chunkDivide_loop_cancelled by metis
qed

subsection \<open>Properties\<close>

text \<open>
  Property C25. The waiter is done exactly when the number of completions first reaches one more
  than the number of creations, and what it writes to \<^verbatim>\<open>doneCh\<close> is the first error reported
  until then. In particular it does not finish while a child job is running.
\<close>

theorem jobWaiter_done_iff:
  "jobWaiter_begin (map JwMessage ms) = Some (e, rest) \<longleftrightarrow>
     (\<exists>pre post. ms = pre @ post \<and> rest = map JwMessage post \<and> stops 1 pre \<and> e = first_err pre)"
  using jobWaiter_loop_iff[of 1 None ms e rest] by (simp add: jobWaiter_begin_def)

text \<open>
  Dividing a child job into chunks (none of which is empty) announces to the waiter
  one new task per chunk beyond the first, keeps the last message ID on the last piece so that
  it is recorded last, and distributes the IDs to evict from the cache. The message counts of
  the pieces add up to the count of the divided job plus the sizes of all chunks but the
  last: those messages are counted twice.
\<close>

theorem chunkDivide_accounting:
  assumes "chunks \<noteq> []" and "\<forall>c \<in> set (butlast chunks). c \<noteq> []"
  shows "\<exists>j' js. chunkDivide chunks s j = Some (j', js) \<and> length js = length chunks \<and>
     pending (j_sent j') = pending (j_sent j) + int (length chunks) - 1 \<and>
     lastMessageID (last js) = lastMessageID s \<and>
     map lastMessageID (butlast js) = map (fm_ID \<circ> last) (butlast chunks) \<and>
     sum_list (map messageCount js) =
       messageCount s + sum_list (map (\<lambda>c. word_of_nat (length c)) (butlast chunks)) \<and>
     (1 < length chunks \<longrightarrow> concat (map cachedMessageIDs js) = map fm_ID (concat chunks))"
  using chunkDivide_spec[OF assms, of s j] by blast

definition ex_msg :: "string \<Rightarrow> FullMessage" where
  "ex_msg i = \<lparr>fm_Message = \<lparr>m_ID = i, m_AddressID = ''addr'', m_Body = [], m_Attachments = []\<rparr>, fm_AttData = []\<rparr>"

definition ex_child :: childJob where
  "ex_child = \<lparr>lastMessageID = ''m3'', messageCount = 3, cachedMessageIDs = [], cachedAttachmentIDs = []\<rparr>"

definition ex_job :: "(unit, unit) Job" where
  "ex_job = \<lparr>j_cancelled = False, j_sent = [], j_state = (), j_progress = [], j_cache = newDownloadCache,
     j_metadataFetched = 0\<rparr>"

theorem chunkDivide_accounting_witness:
  "\<exists>j' js. chunkDivide [[ex_msg ''m1'', ex_msg ''m2''], [ex_msg ''m3'']] ex_child ex_job = Some (j', js) \<and>
     pending (j_sent j') = 2 \<and> map lastMessageID js = [''m2'', ''m3''] \<and>
     sum_list (map messageCount js) = 5"
proof -
  obtain j' js where r: "chunkDivide [[ex_msg ''m1'', ex_msg ''m2''], [ex_msg ''m3'']] ex_child ex_job = Some (j', js)"
    "length js = 2" "pending (j_sent j') = pending (j_sent ex_job) + 1"
    "lastMessageID (last js) = lastMessageID ex_child"
    "map lastMessageID (butlast js) = [''m2'']"
    "sum_list (map messageCount js) = messageCount ex_child + 2"
    using chunkDivide_accounting[of "[[ex_msg ''m1'', ex_msg ''m2''], [ex_msg ''m3'']]" ex_child ex_job]
    by (auto simp: ex_msg_def)
  have "js = butlast js @ [last js]" using r(2) by (cases js) auto
  then have "map lastMessageID js = [''m2'', ''m3'']"
    using r(4,5) by (metis (no_types, lifting) append_Cons append_Nil childJob.select_convs(1)
        ex_child_def list.simps(8,9) map_append)
  then show ?thesis using r by (simp add: ex_child_def ex_job_def pending_def)
qed

end
