(* ===== verification/Network_Retry.thy ===== *)
theory Network_Retry
  imports Sync_Job
begin

section \<open>Retrying API calls\<close>

text \<open>
  Models \<^verbatim>\<open>internal/network/proton.go\<close>: a call that the server answers with 429 or 5xx is made
  again after a cool-down. The call and the passage of time are parameters that thread a world
  \<open>'w\<close>; the random jitter of a wait is a parameter of the cool-down.
\<close>

subsection \<open>Cool-downs\<close>

definition second :: gotime where "second = 1000000000"

record ExpCoolDown =
  count :: nat

definition waitTimes :: "gotime list" where
  "waitTimes = [20 * second, 40 * second, 80 * second, 160 * second, 300 * second, 600 * second]"

text \<open>\<open>jit\<close> is the number \<^verbatim>\<open>rand.Intn(10)\<close> returned.\<close>

definition ExpCoolDown_GetNextWaitTime :: "nat \<Rightarrow> ExpCoolDown \<Rightarrow> gotime \<times> ExpCoolDown" where
  "ExpCoolDown_GetNextWaitTime jit c =
     (let last = length waitTimes - 1 in
      if last \<le> count c then (waitTimes ! last + int jit * second, c)
      else let c' = c\<lparr>count := Suc (count c)\<rparr>
           in (waitTimes ! (count c' - 1) + int jit * second, c'))"

definition ExpCoolDown_Reset :: "ExpCoolDown \<Rightarrow> ExpCoolDown" where
  "ExpCoolDown_Reset c = c\<lparr>count := 0\<rparr>"

definition NoCoolDown_GetNextWaitTime :: "nat \<Rightarrow> unit \<Rightarrow> gotime \<times> unit" where
  "NoCoolDown_GetNextWaitTime jit c = (1000000, ())"

definition NoCoolDown_Reset :: "unit \<Rightarrow> unit" where
  "NoCoolDown_Reset c = ()"

text \<open>
  The interface \<^verbatim>\<open>CoolDownProvider\<close>: after a reset, every wait lies between a lower and an upper
  bound, and waits do not get shorter by more than the jitter.
\<close>

locale cool_down =
  fixes nextWait :: "nat \<Rightarrow> 'c \<Rightarrow> gotime \<times> 'c"
    and reset :: "'c \<Rightarrow> 'c"
    and lo hi :: gotime
  assumes wait_bounds: "jit < 10 \<Longrightarrow> lo \<le> fst (nextWait jit c) \<and> fst (nextWait jit c) \<le> hi"
    and wait_grows: "nextWait jit c = (t, c') \<Longrightarrow> t \<le> fst (nextWait jit c')"
    and reset_first: "fst (nextWait 0 (reset c)) = lo"

lemma waitTimes_nth:
  "n < 5 \<Longrightarrow> waitTimes ! n = [20, 40, 80, 160, 300] ! n * second"
  "length waitTimes = 6" "waitTimes ! 5 = 600 * second"
  by (auto simp: waitTimes_def less_Suc_eq numeral_eq_Suc)

lemma less5_cases: "(n :: nat) < 5 \<Longrightarrow> n = 0 \<or> n = 1 \<or> n = 2 \<or> n = 3 \<or> n = 4"
  by arith

interpretation exp_cd: cool_down ExpCoolDown_GetNextWaitTime ExpCoolDown_Reset "20 * second" "609 * second"
proof
  fix jit :: nat and c :: ExpCoolDown
  assume "jit < 10"
  then show "20 * second \<le> fst (ExpCoolDown_GetNextWaitTime jit c) \<and>
      fst (ExpCoolDown_GetNextWaitTime jit c) \<le> 609 * second"
    using less5_cases[of "count c"]
    by (cases "count c < 5") (auto simp: ExpCoolDown_GetNextWaitTime_def Let_def waitTimes_nth second_def)
next
  fix jit :: nat and c c' :: ExpCoolDown and t
  assume n: "ExpCoolDown_GetNextWaitTime jit c = (t, c')"
  show "t \<le> fst (ExpCoolDown_GetNextWaitTime jit c')"
  proof (cases "count c < 5")
    case True
    then have "t = waitTimes ! count c + int jit * second" "count c' = Suc (count c)"
      using n by (auto simp: ExpCoolDown_GetNextWaitTime_def Let_def waitTimes_nth)
    then show ?thesis using True less5_cases[of "count c"]
      by (auto simp: ExpCoolDown_GetNextWaitTime_def Let_def waitTimes_nth second_def)
  next
    case False
    then have "t = waitTimes ! 5 + int jit * second" "c' = c"
      using n by (auto simp: ExpCoolDown_GetNextWaitTime_def Let_def waitTimes_nth)
    then show ?thesis using False by (simp add: ExpCoolDown_GetNextWaitTime_def Let_def waitTimes_nth)
  qed
next
  fix c show "fst (ExpCoolDown_GetNextWaitTime 0 (ExpCoolDown_Reset c)) = 20 * second"
    by (simp add: ExpCoolDown_GetNextWaitTime_def ExpCoolDown_Reset_def Let_def waitTimes_nth)
qed

interpretation no_cd: cool_down NoCoolDown_GetNextWaitTime NoCoolDown_Reset 1000000 1000000
  by unfold_locales (auto simp: NoCoolDown_GetNextWaitTime_def)

subsection \<open>The retry loop\<close>

fun Is429Or5XXError :: "'e svc_err option \<Rightarrow> bool" where
  "Is429Or5XXError (Some (SApi st)) \<longleftrightarrow> st = 429 \<or> st \<ge> 500"
| "Is429Or5XXError _ \<longleftrightarrow> False"

fun err_of :: "'e + 'r \<Rightarrow> 'e option" where
  "err_of (Inl e) = Some e"
| "err_of (Inr _) = None"

text \<open>
  \<open>Retry\<close> with the closure of \<open>RetryWithClient\<close>: the call's own result is what is returned
  at the end. \<open>pause\<close> is the \<^verbatim>\<open>select\<close> on the context and the timer: the world after waiting at most
  the given time. The flag is \<^verbatim>\<open>encountered429or5xx\<close>. Not returning is \<open>None\<close>.
\<close>

partial_function (option) Retry_loop ::
  "('c \<Rightarrow> gotime \<times> 'c) \<Rightarrow> (gotime \<Rightarrow> 'w \<Rightarrow> 'w) \<Rightarrow> ('w \<Rightarrow> ('e svc_err + 'r) \<times> 'w) \<Rightarrow>
     'c \<Rightarrow> bool \<Rightarrow> 'w \<Rightarrow> (('e svc_err + 'r) \<times> bool \<times> 'w) option" where
  "Retry_loop nextWait pause f c enc w =
     (case f w of (r, w') \<Rightarrow>
        if Is429Or5XXError (err_of r)
        then (case nextWait c of (t, c') \<Rightarrow> Retry_loop nextWait pause f c' True (pause t w'))
        else Some (r, enc, w'))"

definition RetryWithClient ::
  "('c \<Rightarrow> gotime \<times> 'c) \<Rightarrow> ('c \<Rightarrow> 'c) \<Rightarrow> (gotime \<Rightarrow> 'w \<Rightarrow> 'w) \<Rightarrow> ('w \<Rightarrow> ('e svc_err + 'r) \<times> 'w) \<Rightarrow>
     'c \<Rightarrow> 'w \<Rightarrow> (('e svc_err + 'r) \<times> bool \<times> 'w) option" where
  "RetryWithClient nextWait reset pause f c w = Retry_loop nextWait pause f (reset c) False w"

lemma Retry_loop_done:
  "f w = (r, w') \<Longrightarrow> \<not> Is429Or5XXError (err_of r) \<Longrightarrow> Retry_loop nextWait pause f c enc w = Some (r, enc, w')"
  by (subst Retry_loop.simps) simp

lemma Retry_loop_again:
  "f w = (r, w') \<Longrightarrow> Is429Or5XXError (err_of r) \<Longrightarrow> nextWait c = (t, c') \<Longrightarrow>
   Retry_loop nextWait pause f c enc w = Retry_loop nextWait pause f c' True (pause t w')"
  by (subst Retry_loop.simps) simp

lemma RetryWithClient_Inr:
  "f w = (Inr r, w') \<Longrightarrow> RetryWithClient nextWait reset pause f c w = Some (Inr r, False, w')"
  by (simp add: RetryWithClient_def Retry_loop_done)

text \<open>
  If refusals come to an end, retrying returns: \<open>busy\<close> bounds how often the call can still be
  refused from a world that satisfies \<open>I\<close>.
\<close>

lemma Retry_loop_eventually:
  fixes busy :: "'w \<Rightarrow> nat"
  assumes step: "\<And>w r w'. I w \<Longrightarrow> f w = (r, w') \<Longrightarrow>
      (Is429Or5XXError (err_of r) \<and> (\<forall>t. I (pause t w') \<and> busy (pause t w') < busy w)) \<or>
      (\<exists>x. r = Inr x \<and> Q x w')"
    and "I w"
  shows "\<exists>x enc' w'. Retry_loop nextWait pause f c enc w = Some (Inr x, enc', w') \<and> Q x w'"
  using \<open>I w\<close>
proof (induction "busy w" arbitrary: w c enc rule: less_induct)
  case less
  obtain r w' where fw: "f w = (r, w')" by (cases "f w")
  obtain t c' where nw: "nextWait c = (t, c')" by (cases "nextWait c")
  from step[OF less.prems fw] show ?case
  proof (elim disjE exE conjE)
    assume ref: "Is429Or5XXError (err_of r)" and nxt: "\<forall>t. I (pause t w') \<and> busy (pause t w') < busy w"
    have "Retry_loop nextWait pause f c enc w = Retry_loop nextWait pause f c' True (pause t w')"
      using Retry_loop_again[of f w r w' nextWait c t c'] fw ref nw by simp
    then show ?thesis using less.hyps[of "pause t w'" c' True] nxt by simp
  next
    fix x assume "r = Inr x" "Q x w'"
    then show ?thesis using Retry_loop_done[of f w r w' nextWait pause c enc] fw by simp
  qed
qed

lemma RetryWithClient_eventually:
  fixes busy :: "'w \<Rightarrow> nat"
  assumes "\<And>w r w'. I w \<Longrightarrow> f w = (r, w') \<Longrightarrow>
      (Is429Or5XXError (err_of r) \<and> (\<forall>t. I (pause t w') \<and> busy (pause t w') < busy w)) \<or>
      (\<exists>x. r = Inr x \<and> Q x w')"
    and "I w"
  shows "\<exists>x enc' w'. RetryWithClient nextWait reset pause f c w = Some (Inr x, enc', w') \<and> Q x w'"
  unfolding RetryWithClient_def by (rule Retry_loop_eventually[of I f pause busy Q, OF assms])

text \<open>What is returned is the answer of a call, made in a world that retrying can reach.\<close>

lemma Retry_loop_inv:
  assumes "Retry_loop nextWait pause f c enc w = Some y" and "I w"
    and "\<forall>w. I w \<longrightarrow> I (snd (f w))" and "\<forall>t w. I w \<longrightarrow> I (pause t w)"
  shows "I (snd (snd y)) \<and> (\<exists>v. I v \<and> f v = (fst y, snd (snd y)))"
proof -
  have "(\<forall>w. I w \<longrightarrow> I (snd (f w))) \<longrightarrow> (\<forall>t w. I w \<longrightarrow> I (pause t w)) \<longrightarrow> I w \<longrightarrow>
      I (snd (snd y)) \<and> (\<exists>v. I v \<and> f v = (fst y, snd (snd y)))"
  proof (rule Retry_loop.raw_induct[OF _ assms(1)])
    fix rec nextWait' pause' f' c enc w y
    assume IH: "\<And>nextWait pause f c enc w y. rec nextWait pause f c enc w = Some y \<Longrightarrow>
        (\<forall>w. I w \<longrightarrow> I (snd (f w))) \<longrightarrow> (\<forall>t w. I w \<longrightarrow> I (pause t w)) \<longrightarrow> I w \<longrightarrow>
        I (snd (snd y)) \<and> (\<exists>v. I v \<and> f v = (fst y, snd (snd y)))"
      and eq: "(case f' w of (r, w') \<Rightarrow>
        if Is429Or5XXError (err_of r)
        then (case nextWait' c of (t, c') \<Rightarrow> rec nextWait' pause' f' c' True (pause' t w'))
        else Some (r, enc, w')) = Some y"
    obtain r w' where fw: "f' w = (r, w')" by (cases "f' w")
    obtain t c' where nw: "nextWait' c = (t, c')" by (cases "nextWait' c")
    show "(\<forall>w. I w \<longrightarrow> I (snd (f' w))) \<longrightarrow> (\<forall>t w. I w \<longrightarrow> I (pause' t w)) \<longrightarrow> I w \<longrightarrow>
        I (snd (snd y)) \<and> (\<exists>v. I v \<and> f' v = (fst y, snd (snd y)))"
    proof (intro impI)
      assume h: "\<forall>w. I w \<longrightarrow> I (snd (f' w))" "\<forall>t w. I w \<longrightarrow> I (pause' t w)" "I w"
      have Iw': "I w'" using h(1,3) fw by (metis snd_conv)
      show "I (snd (snd y)) \<and> (\<exists>v. I v \<and> f' v = (fst y, snd (snd y)))"
      proof (cases "Is429Or5XXError (err_of r)")
        case True
        then show ?thesis using IH[of nextWait' pause' f' c' True "pause' t w'" y] eq fw nw h Iw' by simp
      next
        case False
        then have "y = (r, enc, w')" using eq fw by simp
        then show ?thesis using fw h(3) Iw' by auto
      qed
    qed
  qed
  then show ?thesis using assms(2-4) by blast
qed

text \<open>One refused attempt followed by its wait: the cool-down and the world before the next.\<close>

definition retry_round ::
  "('c \<Rightarrow> gotime \<times> 'c) \<Rightarrow> (gotime \<Rightarrow> 'w \<Rightarrow> 'w) \<Rightarrow> ('w \<Rightarrow> ('e svc_err + 'r) \<times> 'w) \<Rightarrow> 'c \<times> 'w \<Rightarrow> 'c \<times> 'w" where
  "retry_round nextWait pause f cw =
     (snd (nextWait (fst cw)), pause (fst (nextWait (fst cw))) (snd (f (snd cw))))"

definition refused :: "('w \<Rightarrow> ('e svc_err + 'r) \<times> 'w) \<Rightarrow> 'c \<times> 'w \<Rightarrow> bool" where
  "refused f cw \<longleftrightarrow> Is429Or5XXError (err_of (fst (f (snd cw))))"

lemma Retry_loop_rounds:
  assumes "\<forall>i < k. refused f ((retry_round nextWait pause f ^^ i) (c, w))"
  shows "Retry_loop nextWait pause f c enc w =
     (let cw = (retry_round nextWait pause f ^^ k) (c, w)
      in Retry_loop nextWait pause f (fst cw) (enc \<or> 0 < k) (snd cw))"
  using assms
proof (induction k arbitrary: c w enc)
  case (Suc k)
  let ?cw1 = "retry_round nextWait pause f (c, w)"
  have "refused f (c, w)" using Suc.prems by force
  then have "Retry_loop nextWait pause f c enc w =
      Retry_loop nextWait pause f (fst ?cw1) True (snd ?cw1)"
    using Retry_loop_again[of f w "fst (f w)" "snd (f w)" nextWait c]
    by (simp add: refused_def retry_round_def prod_eq_iff)
  moreover have "\<forall>i < k. refused f ((retry_round nextWait pause f ^^ i) (fst ?cw1, snd ?cw1))"
    using Suc.prems by (auto simp: funpow_Suc_right simp del: funpow.simps dest: spec[of _ "Suc _"])
  ultimately show ?case
    using Suc.IH[of "fst ?cw1" "snd ?cw1" True]
    by (simp add: funpow_Suc_right Let_def del: funpow.simps)
qed simp

subsection \<open>Property\<close>

text \<open>
  Property C12. Retrying makes a call that the server refuses \<open>k\<close> times with 429 or 5xx
  exactly \<open>k + 1\<close> times, waits in between, and returns the answer of the last call, success or
  another error; the flag says whether any attempt was refused.
\<close>

theorem RetryWithClient_answer:
  assumes "\<forall>i < k. refused f ((retry_round nextWait pause f ^^ i) (reset c, w))"
    and "(retry_round nextWait pause f ^^ k) (reset c, w) = (c', w1)"
    and "f w1 = (r, w2)" and "\<not> Is429Or5XXError (err_of r)"
  shows "RetryWithClient nextWait reset pause f c w = Some (r, 0 < k, w2)"
  using Retry_loop_rounds[of k f nextWait pause "reset c" w False] assms(1,2)
    Retry_loop_done[of f w1 r w2 nextWait pause c' "0 < k"] assms(3,4)
  by (simp add: RetryWithClient_def Let_def)

theorem RetryWithClient_answer_witness:
  "RetryWithClient (ExpCoolDown_GetNextWaitTime 3) ExpCoolDown_Reset (\<lambda>t (n, ts). (n, ts @ [t]))
     (\<lambda>(n, ts). (if n < 2 then Inl (SApi 503) else Inr ''ok'', (n + 1, ts)))
     \<lparr>count = 4\<rparr> (0 :: nat, []) =
   Some (Inr ''ok'' :: unit svc_err + string, True, (3, [23 * second, 43 * second]))"
proof -
  let ?f = "\<lambda>(n, ts). (if n < 2 then Inl (SApi 503) else Inr ''ok'', (n + 1, ts)) ::
      (unit svc_err + string) \<times> nat \<times> gotime list"
  let ?p = "\<lambda>t (n, ts). (n, ts @ [t])"
  let ?R = "retry_round (ExpCoolDown_GetNextWaitTime 3) ?p ?f"
  have r1: "?R (ExpCoolDown_Reset \<lparr>count = 4\<rparr>, (0, [])) = (\<lparr>count = 1\<rparr>, (1, [23 * second]))"
    and r2: "?R (\<lparr>count = 1\<rparr>, (1, [23 * second])) = (\<lparr>count = 2\<rparr>, (2, [23 * second, 43 * second]))"
    by (simp_all add: retry_round_def ExpCoolDown_GetNextWaitTime_def ExpCoolDown_Reset_def Let_def
        waitTimes_nth second_def)
  have two: "(?R ^^ 2) (ExpCoolDown_Reset \<lparr>count = 4\<rparr>, (0, [])) = (\<lparr>count = 2\<rparr>, (2, [23 * second, 43 * second]))"
    using r1 r2 by (simp add: numeral_2_eq_2)
  have ref: "\<forall>i < 2. refused ?f ((?R ^^ i) (ExpCoolDown_Reset \<lparr>count = 4\<rparr>, (0, [])))"
    using r1 by (auto simp: less_Suc_eq numeral_2_eq_2 refused_def)
  show ?thesis
    using RetryWithClient_answer[where f = ?f and nextWait = "ExpCoolDown_GetNextWaitTime 3" and k = 2
        and reset = ExpCoolDown_Reset and pause = ?p and c = "\<lparr>count = 4\<rparr>" and w = "(0, [])"
        and c' = "\<lparr>count = 2\<rparr>" and ?w1.0 = "(2, [23 * second, 43 * second])" and r = "Inr ''ok''"
        and ?w2.0 = "(3, [23 * second, 43 * second])"] ref two by simp
qed

end
