(* ===== verification/Metadata_Stage.thy ===== *)
theory Metadata_Stage
  imports Network_Retry
begin

section \<open>The metadata stage\<close>

text \<open>
  Models \<^verbatim>\<open>internal/services/syncservice/stage_metadata.go\<close>: the iterator that pages through the
  message metadata of an account, newest message first, and cuts it into download requests
  that respect a message count and a memory bound, and the goroutine that pushes the
  requests of one job down the pipeline. The API call, the passage of time, the job's
  context and the channel to the next stage are parameters that thread a world \<open>'w\<close>.
\<close>

subsection \<open>Data\<close>

record MessageMetadata =
  md_ID :: string
  md_Size :: int64

record MessageFilter =
  mf_EndID :: string
  mf_Desc :: bool

record DownloadRequest =
  dr_childJob :: childJob
  dr_ids :: "string list"

definition empty_childJob :: childJob where
  "empty_childJob = \<lparr>lastMessageID = '''', messageCount = 0, cachedMessageIDs = [], cachedAttachmentIDs = []\<rparr>"

definition empty_DownloadRequest :: DownloadRequest where
  "empty_DownloadRequest = \<lparr>dr_childJob = empty_childJob, dr_ids = []\<rparr>"

record metadataIterator =
  it_lastMessageID :: string
  it_remaining :: "MessageMetadata list"
  it_downloadReqIDs :: "string list"
  it_expectedSize :: uint64

definition MetadataPageSize :: nat where "MetadataPageSize = 128"
definition MetadataMaxMessages :: nat where "MetadataMaxMessages = 64"

type_synonym ('w, 'e) getMetadataPage =
  "nat \<Rightarrow> nat \<Rightarrow> MessageFilter \<Rightarrow> 'w \<Rightarrow> ('e svc_err + MessageMetadata list) \<times> 'w"

type_synonym ('w, 'e, 'r) retrier =
  "('w \<Rightarrow> ('e svc_err + 'r) \<times> 'w) \<Rightarrow> 'w \<Rightarrow> (('e svc_err + 'r) \<times> bool \<times> 'w) option"

subsection \<open>The iterator\<close>

definition newMetadataIterator ::
  "('s, 'e) StateProvider \<Rightarrow> ('s, 'e) Job \<Rightarrow> 'e svc_err + metadataIterator" where
  "newMetadataIterator P j =
     (case p_GetSyncStatus P (j_state j) of
        Inl e \<Rightarrow> Inl (SState e)
      | Inr st \<Rightarrow>
          Inr \<lparr>it_lastMessageID = LastSyncedMessageID st, it_remaining = [], it_downloadReqIDs = [],
               it_expectedSize = 0\<rparr>)"

text \<open>The closure that \<open>Next\<close> retries: the page that starts at the last message seen, without that message.\<close>

definition metadata_fetch ::
  "('w, 'e) getMetadataPage \<Rightarrow> nat \<Rightarrow> string \<Rightarrow> 'w \<Rightarrow> ('e svc_err + MessageMetadata list) \<times> 'w" where
  "metadata_fetch getPage pageSize lastID w =
     (if lastID = '''' then getPage 0 pageSize \<lparr>mf_EndID = '''', mf_Desc = True\<rparr> w
      else case getPage 0 pageSize \<lparr>mf_EndID = lastID, mf_Desc = True\<rparr> w of
             (Inl e, w') \<Rightarrow> (Inl e, w')
           | (Inr meta, w') \<Rightarrow>
               if meta = [] then (Inr meta, w')
               else if md_ID (hd meta) = lastID then (Inr (tl meta), w')
               else (Inr meta, w'))"

text \<open>The loop over the page: either a request is complete, or the page is used up.\<close>

datatype scan_result =
    Emit "string list" "MessageMetadata list"
  | Exhausted "string list" uint64

fun metadata_scan :: "uint64 \<Rightarrow> nat \<Rightarrow> MessageMetadata list \<Rightarrow> string list \<Rightarrow> uint64 \<Rightarrow> scan_result" where
  "metadata_scan maxMem maxMessages [] ids sz = Exhausted ids sz"
| "metadata_scan maxMem maxMessages (m # ms) ids sz =
     (let nextSize = sz + md_Size m in
      if nextSize \<ge> maxMem \<or> length ids \<ge> maxMessages
      then (if ids = [] then Emit [md_ID m] ms else Emit ids (m # ms))
      else metadata_scan maxMem maxMessages ms (ids @ [md_ID m]) nextSize)"

definition mkRequest :: "string list \<Rightarrow> ('s, 'e) Job \<Rightarrow> ('s, 'e) Job \<times> DownloadRequest" where
  "mkRequest ids j =
     (case newChildJob (last ids) (word_of_nat (length ids)) j of
        (j', c) \<Rightarrow> (j', \<lparr>dr_childJob = c, dr_ids = ids\<rparr>))"

text \<open>\<^verbatim>\<open>m.stage.ctx.Err()\<close>: the job was cancelled by one of its stages, or its parent context ended.\<close>

definition job_ctx_err :: "('w \<Rightarrow> ctx_error option) \<Rightarrow> ('s, 'e) Job \<Rightarrow> 'w \<Rightarrow> ctx_error option" where
  "job_ctx_err ctxErr j w = (if j_cancelled j then Some Canceled else ctxErr w)"

text \<open>
  What \<open>Next\<close> does once it has metadata or knows there is none. \<open>None\<close>: go round the
  loop again with the iterator given.
\<close>

definition Next_deliver ::
  "uint64 \<Rightarrow> nat \<Rightarrow> metadataIterator \<Rightarrow> ('s, 'e) Job \<Rightarrow>
     metadataIterator \<times> ('s, 'e) Job \<times> (DownloadRequest \<times> bool) option" where
  "Next_deliver maxMem maxMessages m j =
     (if it_remaining m = []
      then (if it_downloadReqIDs m \<noteq> []
            then case mkRequest (it_downloadReqIDs m) j of (j', r) \<Rightarrow> (m, j', Some (r, False))
            else (m, j, Some (empty_DownloadRequest, False)))
      else case metadata_scan maxMem maxMessages (it_remaining m) (it_downloadReqIDs m) (it_expectedSize m) of
             Emit ids rest \<Rightarrow>
               (case mkRequest ids j of
                  (j', r) \<Rightarrow>
                    (m\<lparr>it_remaining := rest, it_downloadReqIDs := [], it_expectedSize := 0\<rparr>, j', Some (r, True)))
           | Exhausted ids sz \<Rightarrow>
               (m\<lparr>it_remaining := [], it_downloadReqIDs := ids, it_expectedSize := sz\<rparr>, j, None))"

definition Next_refill :: "MessageMetadata list \<Rightarrow> metadataIterator \<Rightarrow> metadataIterator" where
  "Next_refill metadata m =
     (let m1 = m\<lparr>it_remaining := it_remaining m @ metadata\<rparr>
      in if it_remaining m1 \<noteq> [] then m1\<lparr>it_lastMessageID := md_ID (last (it_remaining m1))\<rparr> else m1)"

partial_function (option) Next ::
  "('w, 'e, MessageMetadata list) retrier \<Rightarrow> ('w \<Rightarrow> ctx_error option) \<Rightarrow> ('w, 'e) getMetadataPage \<Rightarrow>
     uint64 \<Rightarrow> nat \<Rightarrow> nat \<Rightarrow> metadataIterator \<Rightarrow> ('s, 'e) Job \<Rightarrow> 'w \<Rightarrow>
     (('e svc_err + DownloadRequest \<times> bool) \<times> metadataIterator \<times> ('s, 'e) Job \<times> 'w) option" where
  "Next retry ctxErr getPage maxMem pageSize maxMessages m j w =
     (case job_ctx_err ctxErr j w of
        Some c \<Rightarrow> Some (Inl (SCtx c), m, j, w)
      | None \<Rightarrow>
          if it_remaining m = []
          then (case retry (metadata_fetch getPage pageSize (it_lastMessageID m)) w of
                  None \<Rightarrow> None
                | Some (Inl e, b, w') \<Rightarrow> Some (Inl e, m, j, w')
                | Some (Inr metadata, b, w') \<Rightarrow>
                    (case Next_deliver maxMem maxMessages (Next_refill metadata m) j of
                       (m', j', Some out) \<Rightarrow> Some (Inr out, m', j', w')
                     | (m', j', None) \<Rightarrow> Next retry ctxErr getPage maxMem pageSize maxMessages m' j' w'))
          else (case Next_deliver maxMem maxMessages m j of
                  (m', j', Some out) \<Rightarrow> Some (Inr out, m', j', w)
                | (m', j', None) \<Rightarrow> Next retry ctxErr getPage maxMem pageSize maxMessages m' j' w))"

subsection \<open>The stage\<close>

text \<open>
  The goroutine of one job. \<open>produce\<close> hands a request to the next stage; it fails when the
  service is shut down. The message added to its error with \<^verbatim>\<open>%w\<close> is left out.
\<close>

partial_function (option) MetadataStage_job ::
  "('w, 'e, MessageMetadata list) retrier \<Rightarrow> ('w \<Rightarrow> ctx_error option) \<Rightarrow> ('w, 'e) getMetadataPage \<Rightarrow>
     (DownloadRequest \<Rightarrow> 'w \<Rightarrow> 'e svc_err option \<times> 'w) \<Rightarrow>
     uint64 \<Rightarrow> nat \<Rightarrow> nat \<Rightarrow> metadataIterator \<Rightarrow> ('s, 'e) Job \<Rightarrow> 'w \<Rightarrow> (('s, 'e) Job \<times> 'w) option" where
  "MetadataStage_job retry ctxErr getPage produce maxMem pageSize maxMessages m j w =
     (if job_ctx_err ctxErr j w \<noteq> None then Some (Job_end j, w)
      else case Next retry ctxErr getPage maxMem pageSize maxMessages m j w of
             None \<Rightarrow> None
           | Some (Inl e, m', j', w') \<Rightarrow> Some (Job_onError e j', w')
           | Some (Inr (output, hasMore), m', j', w') \<Rightarrow>
               (case (if dr_ids output \<noteq> []
                      then let j1 = j'\<lparr>j_metadataFetched := j_metadataFetched j' + word_of_nat (length (dr_ids output))\<rparr>;
                               j2 = childJob_onStageCompleted (dr_childJob output) j1
                           in (case produce output w' of
                                 (Some e, w2) \<Rightarrow> (Job_onError e j2, w2, True)
                               | (None, w2) \<Rightarrow> (j2, w2, False))
                      else (j', w', False)) of
                  (j3, w3, failed) \<Rightarrow>
                    if failed then Some (j3, w3)
                    else if \<not> hasMore then Some (Job_end j3, w3)
                    else MetadataStage_job retry ctxErr getPage produce maxMem pageSize maxMessages m' j3 w3))"

text \<open>The body of the stage's own loop, for one job taken from the input.\<close>

definition MetadataStage_run_one ::
  "('w, 'e, MessageMetadata list) retrier \<Rightarrow> ('w \<Rightarrow> ctx_error option) \<Rightarrow> ('w, 'e) getMetadataPage \<Rightarrow>
     (DownloadRequest \<Rightarrow> 'w \<Rightarrow> 'e svc_err option \<times> 'w) \<Rightarrow> ('s, 'e) StateProvider \<Rightarrow>
     uint64 \<Rightarrow> nat \<Rightarrow> nat \<Rightarrow> ('s, 'e) Job \<Rightarrow> 'w \<Rightarrow> (('s, 'e) Job \<times> 'w) option" where
  "MetadataStage_run_one retry ctxErr getPage produce P maxMem pageSize maxMessages j w =
     (case newMetadataIterator P j of
        Inl e \<Rightarrow> Some (Job_onError e j, w)
      | Inr m \<Rightarrow> MetadataStage_job retry ctxErr getPage produce maxMem pageSize maxMessages m j w)"

subsection \<open>Cutting the metadata\<close>

text \<open>
  \<open>acc_ok\<close>: what the iterator collects stays within both bounds; \<open>batch_ok\<close>: so does what it
  emits, unless it is a single message that exceeds the memory bound by itself.
\<close>

definition acc_ok :: "uint64 \<Rightarrow> nat \<Rightarrow> MessageMetadata list \<Rightarrow> bool" where
  "acc_ok maxMem maxMessages p \<longleftrightarrow>
     p = [] \<or> length p \<le> maxMessages \<and> sum_list (map md_Size p) < maxMem"

definition batch_ok :: "uint64 \<Rightarrow> nat \<Rightarrow> MessageMetadata list \<Rightarrow> bool" where
  "batch_ok maxMem maxMessages p \<longleftrightarrow>
     p \<noteq> [] \<and> (length p = 1 \<or> length p \<le> maxMessages \<and> sum_list (map md_Size p) < maxMem)"

lemma acc_ok_batch: "acc_ok mm mx p \<Longrightarrow> p \<noteq> [] \<Longrightarrow> batch_ok mm mx p"
  by (simp add: acc_ok_def batch_ok_def)

lemma acc_ok_Nil [simp]: "acc_ok mm mx []"
  by (simp add: acc_ok_def)

lemma metadata_scan_Emit:
  assumes "metadata_scan mm mx ms (map md_ID p) (sum_list (map md_Size p)) = Emit ids rest"
    and "acc_ok mm mx p"
  shows "\<exists>q. ids = map md_ID q \<and> p @ ms = q @ rest \<and> batch_ok mm mx q"
  using assms
proof (induction ms arbitrary: p)
  case (Cons m ms)
  let ?next = "sum_list (map md_Size p) + md_Size m"
  show ?case
  proof (cases "?next \<ge> mm \<or> length p \<ge> mx")
    case cut: True
    show ?thesis
    proof (cases "p = []")
      case True
      then have "ids = map md_ID [m]" "rest = ms" using Cons.prems(1) cut by auto
      then show ?thesis using True by (intro exI[of _ "[m]"]) (simp add: batch_ok_def)
    next
      case False
      then have "ids = map md_ID p" "rest = m # ms" using Cons.prems(1) cut by auto
      then show ?thesis using False Cons.prems(2) acc_ok_batch by blast
    qed
  next
    case False
    then have "acc_ok mm mx (p @ [m])" by (simp add: acc_ok_def not_le)
    moreover have "metadata_scan mm mx ms (map md_ID (p @ [m])) (sum_list (map md_Size (p @ [m]))) = Emit ids rest"
      using Cons.prems(1) False by simp
    ultimately show ?thesis using Cons.IH[of "p @ [m]"] by simp
  qed
qed simp

lemma metadata_scan_Exhausted:
  assumes "metadata_scan mm mx ms (map md_ID p) (sum_list (map md_Size p)) = Exhausted ids sz"
    and "acc_ok mm mx p"
  shows "ids = map md_ID (p @ ms) \<and> sz = sum_list (map md_Size (p @ ms)) \<and> acc_ok mm mx (p @ ms)"
  using assms
proof (induction ms arbitrary: p)
  case (Cons m ms)
  let ?next = "sum_list (map md_Size p) + md_Size m"
  have f: "\<not> (?next \<ge> mm \<or> length p \<ge> mx)" using Cons.prems(1) by (auto simp: Let_def split: if_splits)
  then have "acc_ok mm mx (p @ [m])" by (simp add: acc_ok_def not_le)
  moreover have "metadata_scan mm mx ms (map md_ID (p @ [m])) (sum_list (map md_Size (p @ [m]))) = Exhausted ids sz"
    using Cons.prems(1) f by simp
  ultimately show ?case using Cons.IH[of "p @ [m]"] by simp
qed simp

subsection \<open>The server's pages\<close>

text \<open>
  The documented behaviour of \<^verbatim>\<open>GetMessageMetadataPage\<close> for an account whose messages are \<open>M\<close>,
  newest first: a page of the list, from the message \<^verbatim>\<open>EndID\<close> on when one is given. The server
  may refuse calls with 429 or 5xx; \<open>busy\<close> bounds how often. \<open>out\<close> is what was handed to the
  next stage, which asking the server does not change.
\<close>

definition page_answer :: "MessageMetadata list \<Rightarrow> nat \<Rightarrow> MessageFilter \<Rightarrow> MessageMetadata list" where
  "page_answer M pageSize f =
     take pageSize (if mf_EndID f = '''' then M else dropWhile (\<lambda>m. md_ID m \<noteq> mf_EndID f) M)"

definition honest_server ::
  "MessageMetadata list \<Rightarrow> nat \<Rightarrow> ('w, 'e) getMetadataPage \<Rightarrow> (gotime \<Rightarrow> 'w \<Rightarrow> 'w) \<Rightarrow> ('w \<Rightarrow> nat) \<Rightarrow>
     ('w \<Rightarrow> 'o) \<Rightarrow> bool" where
  "honest_server M pageSize getPage pause busy out \<longleftrightarrow>
     (\<forall>f w r w'. getPage 0 pageSize f w = (r, w') \<longrightarrow>
        out w' = out w \<and> (\<forall>t. out (pause t w') = out w) \<and>
        (Is429Or5XXError (err_of r) \<and> (\<forall>t. busy (pause t w') < busy w) \<or>
         r = Inr (page_answer M pageSize f)))"

definition rest_after :: "MessageMetadata list \<Rightarrow> string \<Rightarrow> MessageMetadata list" where
  "rest_after M i = (if i = '''' then M else tl (dropWhile (\<lambda>m. md_ID m \<noteq> i) M))"

definition known_id :: "MessageMetadata list \<Rightarrow> string \<Rightarrow> bool" where
  "known_id M i \<longleftrightarrow> i = '''' \<or> i \<in> md_ID ` set M"

definition account_ok :: "MessageMetadata list \<Rightarrow> bool" where
  "account_ok M \<longleftrightarrow> distinct (map md_ID M) \<and> '''' \<notin> md_ID ` set M"

lemma dropWhile_distinct:
  assumes "distinct (map f (A @ y # B))"
  shows "dropWhile (\<lambda>m. f m \<noteq> f y) (A @ y # B) = y # B"
proof -
  have "\<forall>a \<in> set A. f a \<noteq> f y" using assms by (auto simp: image_iff)
  then show ?thesis by (induction A) auto
qed

lemma rest_after_suffix: "\<exists>pre. M = pre @ rest_after M i"
proof (cases "i = ''''")
  case True
  then show ?thesis by (simp add: rest_after_def)
next
  case False
  let ?D = "dropWhile (\<lambda>m. md_ID m \<noteq> i) M"
  have "M = takeWhile (\<lambda>m. md_ID m \<noteq> i) M @ ?D" by simp
  moreover have "?D = take 1 ?D @ tl ?D" by (metis One_nat_def append_take_drop_id drop_0 drop_Suc)
  ultimately have "M = (takeWhile (\<lambda>m. md_ID m \<noteq> i) M @ take 1 ?D) @ tl ?D" by (metis append.assoc)
  then have "\<exists>pre. M = pre @ tl ?D" by (rule exI)
  then show ?thesis using False by (simp add: rest_after_def)
qed

lemma rest_after_last:
  assumes "account_ok M" and "rest_after M i = x @ R" and "x \<noteq> []"
  shows "rest_after M (md_ID (last x)) = R \<and> known_id M (md_ID (last x))"
proof -
  obtain pre where "M = pre @ x @ R" using rest_after_suffix[of M i] assms(2) by auto
  then have M: "M = (pre @ butlast x) @ last x # R" using assms(3) by simp
  have "dropWhile (\<lambda>m. md_ID m \<noteq> md_ID (last x)) M = last x # R"
    using dropWhile_distinct[of md_ID "pre @ butlast x" "last x" R] assms(1) M
    by (simp add: account_ok_def)
  moreover have "md_ID (last x) \<in> md_ID ` set M" by (subst M) simp
  moreover from this have "md_ID (last x) \<noteq> ''''" using assms(1) unfolding account_ok_def by metis
  ultimately show ?thesis by (simp add: rest_after_def known_id_def)
qed

lemma page_answer_trim:
  assumes "known_id M i" and "2 \<le> ps"
  shows "\<exists>k \<ge> 1. (let a = page_answer M ps \<lparr>mf_EndID = i, mf_Desc = True\<rparr>
     in if i = '''' then a = take k (rest_after M i)
        else a \<noteq> [] \<and> md_ID (hd a) = i \<and> tl a = take k (rest_after M i))"
proof (cases "i = ''''")
  case True
  then show ?thesis using assms(2)
    by (intro exI[of _ ps]) (simp add: page_answer_def rest_after_def Let_def)
next
  case False
  let ?D = "dropWhile (\<lambda>m. md_ID m \<noteq> i) M"
  have "?D \<noteq> []" using assms(1) False by (auto simp: known_id_def dropWhile_eq_Nil_conv)
  then obtain d D where D: "?D = d # D" by (cases ?D) auto
  have "md_ID d = i" using hd_dropWhile[of "\<lambda>m. md_ID m \<noteq> i" M] \<open>?D \<noteq> []\<close> D by simp
  then show ?thesis using False D assms(2)
    by (intro exI[of _ "ps - 1"]) (auto simp: page_answer_def rest_after_def Let_def take_Cons')
qed

lemma metadata_fetch_ok:
  assumes "honest_server M ps getPage pause busy out" and "known_id M i" and "2 \<le> ps"
    and "metadata_fetch getPage ps i w = (r, w')"
  shows "out w' = out w \<and> (\<forall>t. out (pause t w') = out w) \<and>
     (Is429Or5XXError (err_of r) \<and> (\<forall>t. busy (pause t w') < busy w) \<or>
      (\<exists>k \<ge> 1. r = Inr (take k (rest_after M i))))"
proof -
  let ?f = "\<lparr>mf_EndID = i, mf_Desc = True\<rparr>"
  obtain r0 w0 where g: "getPage 0 ps ?f w = (r0, w0)" by (cases "getPage 0 ps ?f w")
  have h: "out w0 = out w" "\<forall>t. out (pause t w0) = out w"
    "Is429Or5XXError (err_of r0) \<and> (\<forall>t. busy (pause t w0) < busy w) \<or> r0 = Inr (page_answer M ps ?f)"
    using assms(1) g unfolding honest_server_def by blast+
  have w': "w' = w0" using assms(4) g by (auto simp: metadata_fetch_def split: if_splits sum.splits)
  have err: "r0 = Inl e \<Longrightarrow> r = Inl e" for e using assms(4) g by (auto simp: metadata_fetch_def split: if_splits)
  obtain k where k: "k \<ge> 1" "let a = page_answer M ps ?f
     in if i = '''' then a = take k (rest_after M i)
        else a \<noteq> [] \<and> md_ID (hd a) = i \<and> tl a = take k (rest_after M i)"
    using page_answer_trim[OF assms(2,3)] by blast
  have ans: "r = Inr (take k (rest_after M i))" if "r0 = Inr (page_answer M ps ?f)"
    using assms(4) g k(2) that by (auto simp: metadata_fetch_def Let_def split: if_splits)
  from h(3) show ?thesis
  proof
    assume ref: "Is429Or5XXError (err_of r0) \<and> (\<forall>t. busy (pause t w0) < busy w)"
    then obtain e where "r0 = Inl e" by (cases r0) auto
    then show ?thesis using ref err[of e] h(1,2) w' by auto
  next
    assume "r0 = Inr (page_answer M ps ?f)"
    then show ?thesis using ans k(1) h(1,2) w' by blast
  qed
qed

lemma retry_fetch:
  assumes "honest_server M ps getPage pause busy out" and "known_id M i" and "2 \<le> ps"
  shows "\<exists>k b w'. k \<ge> 1 \<and> out w' = out w \<and>
     RetryWithClient nextWait reset pause (metadata_fetch getPage ps i) c w =
       Some (Inr (take k (rest_after M i)), b, w')"
proof -
  let ?Q = "\<lambda>x w'. out w' = out w \<and> (\<exists>k \<ge> 1. x = take k (rest_after M i))"
  have "\<exists>x enc' w'. RetryWithClient nextWait reset pause (metadata_fetch getPage ps i) c w =
      Some (Inr x, enc', w') \<and> ?Q x w'"
  proof (rule RetryWithClient_eventually[where I = "\<lambda>v. out v = out w" and busy = busy])
    fix v r w' assume v: "out v = out w" "metadata_fetch getPage ps i v = (r, w')"
    show "Is429Or5XXError (err_of r) \<and> (\<forall>t. out (pause t w') = out w \<and> busy (pause t w') < busy v) \<or>
        (\<exists>x. r = Inr x \<and> out w' = out w \<and> (\<exists>k\<ge>1. x = take k (rest_after M i)))"
      using metadata_fetch_ok[OF assms v(2)] v(1) by auto
  qed simp
  then show ?thesis by blast
qed

subsection \<open>The iterator delivers everything\<close>

text \<open>
  \<open>it_ok M m p\<close>: the iterator \<open>m\<close> has collected the messages \<open>p\<close> for its next request and
  stands at a place of \<open>M\<close>; \<open>unseen M m\<close> are the messages it has still to look at.
\<close>

definition it_ok :: "MessageMetadata list \<Rightarrow> uint64 \<Rightarrow> nat \<Rightarrow> metadataIterator \<Rightarrow> MessageMetadata list \<Rightarrow> bool" where
  "it_ok M mm mx m p \<longleftrightarrow> it_downloadReqIDs m = map md_ID p \<and>
     it_expectedSize m = sum_list (map md_Size p) \<and> acc_ok mm mx p \<and> known_id M (it_lastMessageID m)"

definition unseen :: "MessageMetadata list \<Rightarrow> metadataIterator \<Rightarrow> MessageMetadata list" where
  "unseen M m = it_remaining m @ rest_after M (it_lastMessageID m)"

lemma Next_refill_ok:
  assumes "account_ok M" and "it_ok M mm mx m p" and "it_remaining m = []" and "k \<ge> 1"
    and "m1 = Next_refill (take k (rest_after M (it_lastMessageID m))) m"
  shows "it_ok M mm mx m1 p \<and> unseen M m1 = unseen M m \<and> (it_remaining m1 = [] \<longleftrightarrow> unseen M m = [])"
proof -
  let ?R = "rest_after M (it_lastMessageID m)"
  show ?thesis
  proof (cases "?R = []")
    case True
    then show ?thesis using assms by (simp add: Next_refill_def unseen_def Let_def it_ok_def)
  next
    case False
    then have ne: "take k ?R \<noteq> []" using assms(4) by (auto simp: take_eq_Nil)
    have "rest_after M (md_ID (last (take k ?R))) = drop k ?R \<and> known_id M (md_ID (last (take k ?R)))"
      using rest_after_last[of M "it_lastMessageID m" "take k ?R" "drop k ?R"] assms(1) ne by simp
    then show ?thesis using assms(2,3,5) ne False
      by (simp add: Next_refill_def unseen_def Let_def it_ok_def)
  qed
qed

text \<open>What a completed request tells about the iterator that made it.\<close>

definition delivered ::
  "MessageMetadata list \<Rightarrow> uint64 \<Rightarrow> nat \<Rightarrow> MessageMetadata list \<Rightarrow> ('s, 'e) Job \<Rightarrow>
     DownloadRequest \<Rightarrow> bool \<Rightarrow> metadataIterator \<Rightarrow> ('s, 'e) Job \<Rightarrow> bool" where
  "delivered M mm mx ms j r hasMore m' j' \<longleftrightarrow>
     (\<exists>p rest. ms = p @ rest \<and>
        (if p = [] then r = empty_DownloadRequest \<and> j' = j \<and> \<not> hasMore
         else batch_ok mm mx p \<and> mkRequest (map md_ID p) j = (j', r)) \<and>
        (if hasMore then it_ok M mm mx m' [] \<and> unseen M m' = rest else rest = []))"

lemma Next_deliver_more:
  assumes "it_ok M mm mx m p" and "it_remaining m \<noteq> []"
  shows "(\<exists>m' j' r. Next_deliver mm mx m j = (m', j', Some (r, True)) \<and>
            delivered M mm mx (p @ unseen M m) j r True m' j') \<or>
         (\<exists>m'. Next_deliver mm mx m j = (m', j, None) \<and> it_ok M mm mx m' (p @ it_remaining m) \<and>
            it_remaining m' = [] \<and> p @ unseen M m = (p @ it_remaining m) @ unseen M m')"
proof (cases "metadata_scan mm mx (it_remaining m) (it_downloadReqIDs m) (it_expectedSize m)")
  case (Emit ids rest)
  have "\<exists>q. ids = map md_ID q \<and> p @ it_remaining m = q @ rest \<and> batch_ok mm mx q"
    using assms(1) Emit by (intro metadata_scan_Emit) (simp_all add: it_ok_def)
  then obtain q where q: "ids = map md_ID q" "p @ it_remaining m = q @ rest" "batch_ok mm mx q" by blast
  let ?m' = "m\<lparr>it_remaining := rest, it_downloadReqIDs := [], it_expectedSize := 0\<rparr>"
  obtain j' r where mk: "mkRequest ids j = (j', r)" by (cases "mkRequest ids j")
  have "q \<noteq> []" using q(3) by (simp add: batch_ok_def)
  moreover have "p @ unseen M m = q @ rest @ rest_after M (it_lastMessageID m)"
    using q(2) unfolding unseen_def by (metis append.assoc)
  moreover have "it_ok M mm mx ?m' []" "unseen M ?m' = rest @ rest_after M (it_lastMessageID m)"
    using assms(1) by (simp_all add: it_ok_def unseen_def)
  ultimately have "delivered M mm mx (p @ unseen M m) j r True ?m' j'"
    unfolding delivered_def using q(1,3) mk
    by (intro exI[of _ q] exI[of _ "rest @ rest_after M (it_lastMessageID m)"]) simp
  moreover have "Next_deliver mm mx m j = (?m', j', Some (r, True))"
    using Emit mk assms(2) by (simp add: Next_deliver_def)
  ultimately show ?thesis by blast
next
  case (Exhausted ids sz)
  have "ids = map md_ID (p @ it_remaining m) \<and> sz = sum_list (map md_Size (p @ it_remaining m)) \<and>
      acc_ok mm mx (p @ it_remaining m)"
    using assms(1) Exhausted by (intro metadata_scan_Exhausted) (simp_all add: it_ok_def)
  then show ?thesis using Exhausted assms by (simp add: Next_deliver_def it_ok_def unseen_def)
qed

lemma Next_deliver_last:
  assumes "it_ok M mm mx m p" and "it_remaining m = []" and "unseen M m = []"
  shows "\<exists>m' j' r. Next_deliver mm mx m j = (m', j', Some (r, False)) \<and>
            delivered M mm mx (p @ unseen M m) j r False m' j'"
proof (cases "p = []")
  case True
  then show ?thesis using assms by (auto simp: Next_deliver_def delivered_def it_ok_def)
next
  case False
  obtain j' r where mk: "mkRequest (map md_ID p) j = (j', r)" by (cases "mkRequest (map md_ID p) j")
  have "batch_ok mm mx p" using assms(1) False acc_ok_batch by (auto simp: it_ok_def)
  then have "delivered M mm mx (p @ unseen M m) j r False m j'"
    using False mk assms(3) by (auto simp: delivered_def)
  moreover have "Next_deliver mm mx m j = (m, j', Some (r, False))"
    using assms(1,2) False mk by (simp add: Next_deliver_def it_ok_def)
  ultimately show ?thesis by blast
qed

lemma Next_ok:
  assumes srv: "honest_server M ps getPage pause busy out" and acc: "account_ok M" and "2 \<le> ps"
    and ctx: "\<forall>w. ctxErr w = None" and nc: "\<not> j_cancelled j" and "it_ok M mm mx m p"
  shows "\<exists>r hasMore m' j' w'.
     Next (\<lambda>f. RetryWithClient nextWait reset pause f c) ctxErr getPage mm ps mx m j w =
       Some (Inr (r, hasMore), m', j', w') \<and> out w' = out w \<and>
     delivered M mm mx (p @ unseen M m) j r hasMore m' j'"
  using assms(6)
proof (induction "length (unseen M m)" arbitrary: m p w rule: less_induct)
  case less
  let ?N = "Next (\<lambda>f. RetryWithClient nextWait reset pause f c) ctxErr getPage mm ps mx"
  have ce: "job_ctx_err ctxErr j w = None" for w using ctx nc by (simp add: job_ctx_err_def)
  show ?case
  proof (cases "it_remaining m = []")
    case False
    then have unf: "?N m j w = (case Next_deliver mm mx m j of
        (m', j', Some out) \<Rightarrow> Some (Inr out, m', j', w) | (m', j', None) \<Rightarrow> ?N m' j' w)"
      by (subst Next.simps) (simp add: ce)
    from Next_deliver_more[OF less.prems False, of j] show ?thesis
    proof (elim disjE exE conjE)
      fix m' assume d: "Next_deliver mm mx m j = (m', j, None)" "it_ok M mm mx m' (p @ it_remaining m)"
        "p @ unseen M m = (p @ it_remaining m) @ unseen M m'"
      have "length (unseen M m') < length (unseen M m)" using d(3) False by (simp add: unseen_def)
      then show ?thesis using less.hyps[OF _ d(2), of w] d(1,3) unf by simp
    qed (use unf in auto)
  next
    case True
    have k: "known_id M (it_lastMessageID m)" using less.prems by (simp add: it_ok_def)
    obtain k b w' where f: "k \<ge> 1" "out w' = out w"
      "RetryWithClient nextWait reset pause (metadata_fetch getPage ps (it_lastMessageID m)) c w =
         Some (Inr (take k (rest_after M (it_lastMessageID m))), b, w')"
      using retry_fetch[OF srv k assms(3), of w nextWait reset c] by blast
    define m1 where "m1 = Next_refill (take k (rest_after M (it_lastMessageID m))) m"
    have m1: "it_ok M mm mx m1 p" "unseen M m1 = unseen M m" "it_remaining m1 = [] \<longleftrightarrow> unseen M m = []"
      using Next_refill_ok[OF acc less.prems True f(1) m1_def] by auto
    have unf: "?N m j w = (case Next_deliver mm mx m1 j of
        (m', j', Some out) \<Rightarrow> Some (Inr out, m', j', w') | (m', j', None) \<Rightarrow> ?N m' j' w')"
      by (subst Next.simps) (simp add: ce True f(3) m1_def)
    show ?thesis
    proof (cases "unseen M m = []")
      case True
      then show ?thesis using Next_deliver_last[OF m1(1), of j] m1 unf f(2) by auto
    next
      case ne: False
      then have r1: "it_remaining m1 \<noteq> []" using m1 by simp
      from Next_deliver_more[OF m1(1) r1, of j] show ?thesis
      proof (elim disjE exE conjE)
        fix m' assume d: "Next_deliver mm mx m1 j = (m', j, None)" "it_ok M mm mx m' (p @ it_remaining m1)"
          "p @ unseen M m1 = (p @ it_remaining m1) @ unseen M m'"
        have "unseen M m = it_remaining m1 @ unseen M m'" using d(3) m1(2) by simp
        then have "length (unseen M m') < length (unseen M m)" using r1 by simp
        then show ?thesis using less.hyps[OF _ d(2), of w'] d(1,3) unf f(2) m1(2) by simp
      qed (use unf f(2) m1(2) in auto)
    qed
  qed
qed

subsection \<open>One job through the stage\<close>

definition request_for :: "MessageMetadata list \<Rightarrow> DownloadRequest" where
  "request_for p =
     \<lparr>dr_childJob = \<lparr>lastMessageID = md_ID (last p), messageCount = word_of_nat (length p),
                     cachedMessageIDs = [], cachedAttachmentIDs = []\<rparr>,
      dr_ids = map md_ID p\<rparr>"

definition requests_done :: "MessageMetadata list list \<Rightarrow> ('s, 'e) Job \<Rightarrow> ('s, 'e) Job" where
  "requests_done parts j =
     j\<lparr>j_sent := j_sent j @ replicate (length parts) (JobWaiterMessageCreated, None),
       j_progress := j_progress j @ map (\<lambda>p. word_of_nat (length p)) parts,
       j_metadataFetched := j_metadataFetched j + sum_list (map (\<lambda>p. word_of_nat (length p)) parts)\<rparr>"

lemma requests_done_Nil [simp]: "requests_done [] j = j"
  by (simp add: requests_done_def)

lemma requests_done_Cons: "requests_done (p # ps) j = requests_done ps (requests_done [p] j)"
  by (simp add: requests_done_def add.assoc)

lemma requests_done_cancelled [simp]: "j_cancelled (requests_done ps j) = j_cancelled j"
  by (simp add: requests_done_def)

lemma pending_requests_done: "pending (j_sent (requests_done ps j)) = pending (j_sent j) + int (length ps)"
  by (induction ps arbitrary: j) (simp_all add: requests_done_def pending_append sum_list_replicate)

lemma mkRequest_eq:
  assumes "mkRequest (map md_ID p) j = (j', r)" and "p \<noteq> []"
  shows "r = request_for p \<and>
    childJob_onStageCompleted (dr_childJob r)
      (j'\<lparr>j_metadataFetched := j_metadataFetched j' + word_of_nat (length (dr_ids r))\<rparr>) = requests_done [p] j"
proof -
  have r: "r = request_for p" and j': "j' = onTaskCreated j"
    using assms by (auto simp: mkRequest_def newChildJob_def request_for_def last_map)
  show ?thesis unfolding r j'
    by (simp add: request_for_def requests_done_def childJob_onStageCompleted_def Job_onStageCompleted_def
        onTaskCreated_def)
qed

lemma MetadataStage_job_ok:
  assumes srv: "honest_server M ps getPage pause busy out" and acc: "account_ok M" and "2 \<le> ps"
    and ctx: "\<forall>w. ctxErr w = None"
    and prod: "\<forall>r w. \<exists>w'. produce r w = (None, w') \<and> out w' = out w @ [r]"
    and "\<not> j_cancelled j" and "it_ok M mm mx m []"
  shows "\<exists>parts w'.
     MetadataStage_job (\<lambda>f. RetryWithClient nextWait reset pause f c) ctxErr getPage produce mm ps mx m j w =
       Some (Job_end (requests_done parts j), w') \<and>
     concat parts = unseen M m \<and> (\<forall>p \<in> set parts. batch_ok mm mx p) \<and>
     out w' = out w @ map request_for parts"
  using assms(6,7)
proof (induction "length (unseen M m)" arbitrary: m j w rule: less_induct)
  case less
  let ?J = "MetadataStage_job (\<lambda>f. RetryWithClient nextWait reset pause f c) ctxErr getPage produce mm ps mx"
  have ce: "job_ctx_err ctxErr j w = None" using ctx less.prems(1) by (simp add: job_ctx_err_def)
  obtain r hasMore m' j' w' where nx:
    "Next (\<lambda>f. RetryWithClient nextWait reset pause f c) ctxErr getPage mm ps mx m j w =
       Some (Inr (r, hasMore), m', j', w')" "out w' = out w" "delivered M mm mx (unseen M m) j r hasMore m' j'"
    using Next_ok[OF srv acc assms(3) ctx less.prems, of nextWait reset c w] by auto
  obtain p rest where d: "unseen M m = p @ rest"
    "if p = [] then r = empty_DownloadRequest \<and> j' = j \<and> \<not> hasMore
     else batch_ok mm mx p \<and> mkRequest (map md_ID p) j = (j', r)"
    "if hasMore then it_ok M mm mx m' [] \<and> unseen M m' = rest else rest = []"
    using nx(3) unfolding delivered_def by blast
  show ?case
  proof (cases "p = []")
    case True
    then have "?J m j w = Some (Job_end j, w')"
      using d(2) nx(1) by (subst MetadataStage_job.simps) (simp add: ce empty_DownloadRequest_def)
    then show ?thesis using d True nx(2) by (intro exI[of _ "[]"] exI[of _ w']) simp
  next
    case False
    obtain w2 where w2: "produce (request_for p) w' = (None, w2)" "out w2 = out w @ [request_for p]"
      using prod nx(2) by metis
    have mk: "batch_ok mm mx p" "mkRequest (map md_ID p) j = (j', r)" using d(2) False by simp_all
    have r: "r = request_for p" using mkRequest_eq[OF mk(2) False] by simp
    note req = mkRequest_eq[OF mk(2) False, THEN conjunct2, unfolded r]
    have ids: "dr_ids (request_for p) \<noteq> []" using False by (simp add: request_for_def)
    have unf: "?J m j w = (if \<not> hasMore then Some (Job_end (requests_done [p] j), w2)
        else ?J m' (requests_done [p] j) w2)"
      by (subst MetadataStage_job.simps) (simp add: ce nx(1)[unfolded r] ids Let_def req w2)
    show ?thesis
    proof (cases hasMore)
      case False
      then show ?thesis using unf d mk w2 by (intro exI[of _ "[p]"] exI[of _ w2]) simp
    next
      case True
      have "length (unseen M m') < length (unseen M m)" using d(1,3) True \<open>p \<noteq> []\<close> by simp
      then obtain parts w3 where IH: "?J m' (requests_done [p] j) w2 =
          Some (Job_end (requests_done parts (requests_done [p] j)), w3)" "concat parts = unseen M m'"
        "\<forall>p \<in> set parts. batch_ok mm mx p" "out w3 = out w2 @ map request_for parts"
        using less.hyps[of m' "requests_done [p] j" w2] less.prems(1) d(3) True by auto
      have "?J m j w = Some (Job_end (requests_done (p # parts) j), w3)"
        using unf True IH(1) requests_done_Cons[of p parts j] by simp
      then show ?thesis using IH d(1,3) True mk(1) w2(2)
        by (intro exI[of _ "p # parts"] exI[of _ w3]) simp
    qed
  qed
qed

subsection \<open>Property\<close>

text \<open>
  Property C26. On an account whose messages do not change meanwhile and a server that refuses
  calls only finitely often, the metadata stage ends, and the requests it hands on cover exactly
  the messages after the last synced one, each once and in the server's order. Every request
  is within the message and memory bounds or a single message; its child job carries the
  last of its IDs and their number. The waiter is told of one task per request, and the
  job's own task is then ended.
\<close>

theorem metadata_stage_complete:
  assumes "honest_server M ps getPage pause busy out" and "account_ok M" and "2 \<le> ps"
    and "\<forall>w. ctxErr w = None"
    and "\<forall>r w. \<exists>w'. produce r w = (None, w') \<and> out w' = out w @ [r]"
    and "\<not> j_cancelled j"
    and "p_GetSyncStatus P (j_state j) = Inr st" and "known_id M (LastSyncedMessageID st)"
  shows "\<exists>parts w'.
     MetadataStage_run_one (\<lambda>f. RetryWithClient nextWait reset pause f c) ctxErr getPage produce P mm ps mx j w =
       Some (Job_end (requests_done parts j), w') \<and>
     concat parts = rest_after M (LastSyncedMessageID st) \<and>
     (\<forall>p \<in> set parts. batch_ok mm mx p) \<and>
     out w' = out w @ map request_for parts \<and>
     pending (j_sent (Job_end (requests_done parts j))) = pending (j_sent j) + int (length parts) - 1"
proof -
  let ?m = "\<lparr>it_lastMessageID = LastSyncedMessageID st, it_remaining = [], it_downloadReqIDs = [],
     it_expectedSize = 0\<rparr>"
  have m: "it_ok M mm mx ?m []" "unseen M ?m = rest_after M (LastSyncedMessageID st)"
    using assms(8) by (simp_all add: it_ok_def unseen_def)
  have "MetadataStage_run_one retry ctxErr getPage produce P mm ps mx j w =
      MetadataStage_job retry ctxErr getPage produce mm ps mx ?m j w" for retry
    using assms(7) by (simp add: MetadataStage_run_one_def newMetadataIterator_def)
  then show ?thesis
    using MetadataStage_job_ok[OF assms(1-6) m(1), of nextWait reset c w] m(2)
    by (auto simp: pending_requests_done)
qed

text \<open>
  A server with four messages, which refuses the first call, and a channel that keeps what it
  is given. The world is the number of calls made and the requests received.
\<close>

definition ex_account :: "MessageMetadata list" where
  "ex_account = [\<lparr>md_ID = ''d'', md_Size = 10\<rparr>, \<lparr>md_ID = ''c'', md_Size = 10\<rparr>,
     \<lparr>md_ID = ''b'', md_Size = 200\<rparr>, \<lparr>md_ID = ''a'', md_Size = 10\<rparr>]"

type_synonym ex_world = "nat \<times> DownloadRequest list"

definition ex_getPage :: "(ex_world, unit) getMetadataPage" where
  "ex_getPage n ps f w =
     (if fst w = 0 then Inl (SApi 429) else Inr (page_answer ex_account ps f), (fst w, snd w))"

definition ex_pause :: "gotime \<Rightarrow> ex_world \<Rightarrow> ex_world" where
  "ex_pause t w = (Suc (fst w), snd w)"

definition ex_produce :: "DownloadRequest \<Rightarrow> ex_world \<Rightarrow> unit svc_err option \<times> ex_world" where
  "ex_produce r w = (None, (fst w, snd w @ [r]))"

definition ex_state :: "(unit, unit) StateProvider" where
  "ex_state =
     \<lparr>p_AddFailedMessageID = (\<lambda>_ _. (None, ())), p_RemFailedMessageID = (\<lambda>_ _. (None, ())),
      p_GetSyncStatus = (\<lambda>_. Inr (DefaultStatus\<lparr>LastSyncedMessageID := ''d''\<rparr>)),
      p_ClearSyncStatus = (\<lambda>_. (None, ())), p_SetHasLabels = (\<lambda>_ _. (None, ())),
      p_SetHasMessages = (\<lambda>_ _. (None, ())), p_SetLastMessageID = (\<lambda>_ _ _. (None, ())),
      p_SetMessageCount = (\<lambda>_ _. (None, ()))\<rparr>"

theorem metadata_stage_complete_witness:
  "\<exists>parts w'.
     MetadataStage_run_one (\<lambda>f. RetryWithClient (ExpCoolDown_GetNextWaitTime 3) ExpCoolDown_Reset ex_pause f
         \<lparr>count = 0\<rparr>) (\<lambda>_. None) ex_getPage ex_produce ex_state 100 2 64 ex_job (0, []) =
       Some (Job_end (requests_done parts ex_job), w') \<and>
     concat parts = tl ex_account \<and> snd w' = map request_for parts \<and>
     pending (j_sent (Job_end (requests_done parts ex_job))) = int (length parts)"
proof -
  have "honest_server ex_account 2 ex_getPage ex_pause (\<lambda>w. 1 - fst w) snd"
    by (auto simp: honest_server_def ex_getPage_def ex_pause_def)
  moreover have "account_ok ex_account" "known_id ex_account ''d''"
    "rest_after ex_account ''d'' = tl ex_account"
    by (simp_all add: account_ok_def known_id_def rest_after_def ex_account_def)
  moreover have "p_GetSyncStatus ex_state (j_state ex_job) = Inr (DefaultStatus\<lparr>LastSyncedMessageID := ''d''\<rparr>)"
    "\<not> j_cancelled ex_job" "pending (j_sent ex_job) = 1"
    by (simp_all add: ex_state_def ex_job_def pending_def)
  ultimately obtain parts w' where
    "MetadataStage_run_one (\<lambda>f. RetryWithClient (ExpCoolDown_GetNextWaitTime 3) ExpCoolDown_Reset ex_pause f
         \<lparr>count = 0\<rparr>) (\<lambda>_. None) ex_getPage ex_produce ex_state 100 2 64 ex_job (0, []) =
       Some (Job_end (requests_done parts ex_job), w')"
    "concat parts = tl ex_account" "snd w' = snd (0 :: nat, []) @ map request_for parts"
    "pending (j_sent (Job_end (requests_done parts ex_job))) = 1 + int (length parts) - 1"
    using metadata_stage_complete[of ex_account 2 ex_getPage ex_pause "\<lambda>w. 1 - fst w" snd "\<lambda>_. None" ex_produce
        ex_job ex_state "DefaultStatus\<lparr>LastSyncedMessageID := ''d''\<rparr>" "ExpCoolDown_GetNextWaitTime 3"
        ExpCoolDown_Reset "\<lparr>count = 0\<rparr>" 100 64 "(0, [])"]
    by (auto simp: ex_produce_def)
  then show ?thesis by (intro exI[of _ parts] exI[of _ w']) simp
qed

end
