(* ===== verification/Download_Stage.thy ===== *)
theory Download_Stage
  imports Metadata_Stage
begin

section \<open>The download stage\<close>

text \<open>
  Models \<^verbatim>\<open>internal/services/syncservice/stage_download.go\<close>: download the messages of a request and
  then their attachments, in parallel, and put the attachment data into the messages. The
  parallel map and the slice chunking are third-party code and parameters of the definitions;
  \<open>pmap_law\<close> states what is relied on.
\<close>

subsection \<open>The download rate\<close>

definition DefaultDownloadRateModifier_Apply :: "bool \<Rightarrow> int \<Rightarrow> int \<Rightarrow> int" where
  "DefaultDownloadRateModifier_Apply wasSuccess currentValue maxValue =
     (if \<not> wasSuccess then 2 else min (currentValue * 2) maxValue)"

text \<open>The state of the parallel tasks: the counter of refused calls, the download cache, the world.\<close>

type_synonym 'w dl_state = "DownloadCache \<times> 'w"
type_synonym 'w dl_tasks = "32 word \<times> 'w dl_state"

text \<open>\<^verbatim>\<open>parallel.MapContext\<close>: the number of workers, the function, the inputs, over any shared state.\<close>

type_synonym ('t, 'r, 'st, 'e) map_context =
  "int \<Rightarrow> ('t \<Rightarrow> 'st \<Rightarrow> (('e svc_err + 'r) \<times> 'st) option) \<Rightarrow> 't list \<Rightarrow> 'st \<Rightarrow>
     (('e svc_err + 'r list) \<times> 'st) option"

type_synonym ('t, 'r, 'w, 'e) parallel_map = "('t, 'r, 'w dl_tasks, 'e) map_context"

text \<open>The function \<^verbatim>\<open>MapContext\<close> runs on each input: retry, and count a task that met a refusal.\<close>

definition download_task ::
  "(('w dl_state \<Rightarrow> ('e svc_err + 'r) \<times> 'w dl_state) \<Rightarrow> 'w dl_state \<Rightarrow> (('e svc_err + 'r) \<times> bool \<times> 'w dl_state) option) \<Rightarrow>
     ('t \<Rightarrow> 'w dl_state \<Rightarrow> ('e svc_err + 'r) \<times> 'w dl_state) \<Rightarrow>
     't \<Rightarrow> 'w dl_tasks \<Rightarrow> (('e svc_err + 'r) \<times> 'w dl_tasks) option" where
  "download_task retry f x s =
     (case retry (f x) (snd s) of
        None \<Rightarrow> None
      | Some (r, did, s') \<Rightarrow> Some (r, (if did then fst s + 1 else fst s), s'))"

fun autoDownloadRate_loop ::
  "('w dl_state \<Rightarrow> ctx_error option) \<Rightarrow> (bool \<Rightarrow> int \<Rightarrow> int \<Rightarrow> int) \<Rightarrow> ('t, 'r, 'w, 'e) parallel_map \<Rightarrow> int \<Rightarrow>
     ('t \<Rightarrow> 'w dl_tasks \<Rightarrow> (('e svc_err + 'r) \<times> 'w dl_tasks) option) \<Rightarrow>
     't list list \<Rightarrow> int \<Rightarrow> 'r list \<Rightarrow> 'w dl_tasks \<Rightarrow> (('e svc_err + 'r list) \<times> 'w dl_state) option" where
  "autoDownloadRate_loop ctxErr apply pmap maxPar task [] parallelTasks result s = Some (Inr result, snd s)"
| "autoDownloadRate_loop ctxErr apply pmap maxPar task (chunk # chunks) parallelTasks result s =
     (case ctxErr (snd s) of
        Some c \<Rightarrow> Some (Inl (SCtx c), snd s)
      | None \<Rightarrow>
          (let parallelTasks' = apply (fst s \<noteq> 0) parallelTasks maxPar in
           case pmap parallelTasks' task chunk (0, snd s) of
             None \<Rightarrow> None
           | Some (Inl e, s') \<Rightarrow> Some (Inl e, snd s')
           | Some (Inr chunkResult, s') \<Rightarrow>
               autoDownloadRate_loop ctxErr apply pmap maxPar task chunks parallelTasks'
                 (result @ chunkResult) s'))"

definition autoDownloadRate ::
  "('w dl_state \<Rightarrow> ctx_error option) \<Rightarrow> (bool \<Rightarrow> int \<Rightarrow> int \<Rightarrow> int) \<Rightarrow> ('t, 'r, 'w, 'e) parallel_map \<Rightarrow>
     ('t list \<Rightarrow> int \<Rightarrow> 't list list) \<Rightarrow> int \<Rightarrow>
     ('t \<Rightarrow> 'w dl_tasks \<Rightarrow> (('e svc_err + 'r) \<times> 'w dl_tasks) option) \<Rightarrow>
     't list \<Rightarrow> 'w dl_state \<Rightarrow> (('e svc_err + 'r list) \<times> 'w dl_state) option" where
  "autoDownloadRate ctxErr apply pmap chunk maxPar task data s =
     autoDownloadRate_loop ctxErr apply pmap maxPar task (chunk data maxPar) maxPar [] (0, s)"

subsection \<open>The stage\<close>

definition empty_FullMessage :: FullMessage where
  "empty_FullMessage = \<lparr>fm_Message = \<lparr>m_ID = '''', m_AddressID = '''', m_Body = [], m_Attachments = []\<rparr>, fm_AttData = []\<rparr>"

abbreviation fm_atts :: "FullMessage \<Rightarrow> Attachment list" where
  "fm_atts m \<equiv> m_Attachments (fm_Message m)"

text \<open>Step 1: a message the server no longer has (422) becomes the empty message.\<close>

definition fetch_message ::
  "(string \<Rightarrow> 'w \<Rightarrow> ('e svc_err + Message) \<times> 'w) \<Rightarrow> string \<Rightarrow> 'w dl_state \<Rightarrow> ('e svc_err + FullMessage) \<times> 'w dl_state" where
  "fetch_message getMessage i s =
     (case downloadMessage getMessage i s of
        (Inl e, s') \<Rightarrow> (if e = SApi 422 then Inr empty_FullMessage else Inl e, s')
      | (Inr msg, s') \<Rightarrow>
          (Inr \<lparr>fm_Message = msg, fm_AttData = replicate (length (m_Attachments msg)) []\<rparr>, s'))"

text \<open>Step 2: the positions of all attachments.\<close>

definition attachmentIndices :: "FullMessage list \<Rightarrow> (nat \<times> nat) list" where
  "attachmentIndices result =
     concat (map (\<lambda>msgIdx. map (\<lambda>attIdx. (msgIdx, attIdx)) [0..<length (fm_atts (result ! msgIdx))]) [0..<length result])"

definition attachmentIDs :: "FullMessage list \<Rightarrow> string list" where
  "attachmentIDs result = map (\<lambda>(msgIdx, attIdx). att_ID (fm_atts (result ! msgIdx) ! attIdx)) (attachmentIndices result)"

text \<open>Step 3.\<close>

definition fetch_attachment ::
  "(string \<Rightarrow> 'w \<Rightarrow> ('e svc_err + bytes) \<times> 'w) \<Rightarrow> FullMessage list \<Rightarrow> nat \<times> nat \<Rightarrow> 'w dl_state \<Rightarrow>
     ('e svc_err + bytes) \<times> 'w dl_state" where
  "fetch_attachment getAttachment result ix s =
     downloadAttachment getAttachment (att_ID (fm_atts (result ! fst ix) ! snd ix)) s"

text \<open>Step 4; \<open>None\<close> is the index out of range when there is less data than attachments.\<close>

fun attach_data :: "(nat \<times> nat) list \<Rightarrow> bytes list \<Rightarrow> FullMessage list \<Rightarrow> FullMessage list option" where
  "attach_data [] ds result = Some result"
| "attach_data ((i, k) # ixs) [] result = None"
| "attach_data ((i, k) # ixs) (d # ds) result =
     attach_data ixs ds (result[i := (result ! i)\<lparr>fm_AttData := (fm_AttData (result ! i))[k := d]\<rparr>])"

record BuildRequest =
  br_childJob :: childJob
  br_batch :: "FullMessage list"

text \<open>What the stage calls: the API, the third-party helpers, the clock and the next stage.\<close>

record ('c, 'w, 'e) download_env =
  de_ctxErr :: "'w dl_state \<Rightarrow> ctx_error option"
  de_nextWait :: "'c \<Rightarrow> gotime \<times> 'c"
  de_reset :: "'c \<Rightarrow> 'c"
  de_newCoolDown :: 'c
  de_pause :: "gotime \<Rightarrow> 'w \<Rightarrow> 'w"
  de_getMessage :: "string \<Rightarrow> 'w \<Rightarrow> ('e svc_err + Message) \<times> 'w"
  de_getAttachment :: "string \<Rightarrow> 'w \<Rightarrow> ('e svc_err + bytes) \<times> 'w"
  de_pmapM :: "(string, FullMessage, 'w, 'e) parallel_map"
  de_chunkM :: "string list \<Rightarrow> int \<Rightarrow> string list list"
  de_pmapA :: "(nat \<times> nat, bytes, 'w, 'e) parallel_map"
  de_chunkA :: "(nat \<times> nat) list \<Rightarrow> int \<Rightarrow> (nat \<times> nat) list list"
  de_produce :: "BuildRequest \<Rightarrow> 'w \<Rightarrow> 'e svc_err option \<times> 'w"

definition dl_retry ::
  "('c, 'w, 'e) download_env \<Rightarrow> ('w dl_state \<Rightarrow> ('e svc_err + 'r) \<times> 'w dl_state) \<Rightarrow> 'w dl_state \<Rightarrow>
     (('e svc_err + 'r) \<times> bool \<times> 'w dl_state) option" where
  "dl_retry E f s =
     RetryWithClient (de_nextWait E) (de_reset E) (\<lambda>t (c, w). (c, de_pause E t w)) f (de_newCoolDown E) s"

definition download_messages ::
  "('c, 'w, 'e) download_env \<Rightarrow> int \<Rightarrow> string list \<Rightarrow> 'w dl_state \<Rightarrow>
     (('e svc_err + FullMessage list) \<times> 'w dl_state) option" where
  "download_messages E maxPar ids s =
     autoDownloadRate (de_ctxErr E) DefaultDownloadRateModifier_Apply (de_pmapM E) (de_chunkM E) maxPar
       (download_task (dl_retry E) (fetch_message (de_getMessage E))) ids s"

definition download_attachments ::
  "('c, 'w, 'e) download_env \<Rightarrow> int \<Rightarrow> FullMessage list \<Rightarrow> 'w dl_state \<Rightarrow>
     (('e svc_err + bytes list) \<times> 'w dl_state) option" where
  "download_attachments E maxPar result s =
     autoDownloadRate (de_ctxErr E) DefaultDownloadRateModifier_Apply (de_pmapA E) (de_chunkA E) maxPar
       (download_task (dl_retry E) (fetch_attachment (de_getAttachment E) result)) (attachmentIndices result) s"

text \<open>
  The body of the stage's loop for one request; the job's cache is the one the downloads use.
  \<open>None\<close>: a download never ends, or a panic.
\<close>

definition DownloadStage_one ::
  "('c, 'w, 'e) download_env \<Rightarrow> int \<Rightarrow> DownloadRequest \<Rightarrow> ('s, 'e) Job \<Rightarrow> 'w \<Rightarrow> (('s, 'e) Job \<times> 'w) option" where
  "DownloadStage_one E maxPar request j w =
     (case checkCancelled j of
        (j1, True) \<Rightarrow> Some (j1, w)
      | (j1, False) \<Rightarrow>
          (case download_messages E maxPar (dr_ids request) (j_cache j1, w) of
             None \<Rightarrow> None
           | Some (Inl e, c1, w1) \<Rightarrow> Some (Job_onError e (j1\<lparr>j_cache := c1\<rparr>), w1)
           | Some (Inr all, c1, w1) \<Rightarrow>
               (let result = filter (\<lambda>t. fm_ID t \<noteq> '''') all in
                case download_attachments E maxPar result (c1, w1) of
                  None \<Rightarrow> None
                | Some (Inl e, c2, w2) \<Rightarrow> Some (Job_onError e (j1\<lparr>j_cache := c2\<rparr>), w2)
                | Some (Inr atts, c2, w2) \<Rightarrow>
                    (case attach_data (attachmentIndices result) atts result of
                       None \<Rightarrow> None
                     | Some batch \<Rightarrow>
                         (let child = (dr_childJob request)\<lparr>cachedAttachmentIDs := attachmentIDs result,
                                                             cachedMessageIDs := dr_ids request\<rparr>;
                              j2 = childJob_onStageCompleted child (j1\<lparr>j_cache := c2\<rparr>)
                          in case de_produce E \<lparr>br_childJob = child, br_batch = batch\<rparr> w2 of
                               (Some e, w3) \<Rightarrow> Some (Job_onError e j2, w3)
                             | (None, w3) \<Rightarrow> Some (j2, w3))))))"

text \<open>\<^verbatim>\<open>NewDownloadStage\<close> doubles the configured parallelism.\<close>

definition NewDownloadStage_maxParallelDownloads :: "int \<Rightarrow> int" where
  "NewDownloadStage_maxParallelDownloads n = n * 2"

subsection \<open>The parallel map\<close>

text \<open>
  What is relied on of \<^verbatim>\<open>parallel.MapContext\<close>: the tasks run in states that the tasks themselves
  lead to, a successful result holds one answer per input in the order of the inputs, and
  if no task can fail the call succeeds.
\<close>

definition pmap_law :: "('t, 'r, 'st, 'e) map_context \<Rightarrow> bool" where
  "pmap_law pmap \<longleftrightarrow>
     (\<forall>n task xs s I. I s \<longrightarrow> (\<forall>x t r t'. x \<in> set xs \<and> I t \<and> task x t = Some (r, t') \<longrightarrow> I t') \<longrightarrow>
        (\<forall>r s'. pmap n task xs s = Some (r, s') \<longrightarrow>
           I s' \<and> (\<forall>ys. r = Inr ys \<longrightarrow> list_all2 (\<lambda>x y. \<exists>t t'. I t \<and> task x t = Some (Inr y, t')) xs ys)) \<and>
        ((\<forall>x t. x \<in> set xs \<and> I t \<longrightarrow> (\<exists>y t'. task x t = Some (Inr y, t'))) \<longrightarrow>
           (\<exists>ys s'. pmap n task xs s = Some (Inr ys, s'))))"

lemma pmap_lawD:
  assumes "pmap_law pmap" and "J s"
    and "\<And>x t r t'. x \<in> set xs \<Longrightarrow> J t \<Longrightarrow> task x t = Some (r, t') \<Longrightarrow> J t' \<and> r = Inr (ans x)"
    and "\<And>x t. x \<in> set xs \<Longrightarrow> J t \<Longrightarrow> \<exists>r t'. task x t = Some (r, t')"
  shows "\<exists>s'. pmap n task xs s = Some (Inr (map ans xs), s') \<and> J s'"
proof -
  have keep: "\<forall>x t r t'. x \<in> set xs \<and> J t \<and> task x t = Some (r, t') \<longrightarrow> J t'" using assms(3) by blast
  have succ: "\<forall>x t. x \<in> set xs \<and> J t \<longrightarrow> (\<exists>y t'. task x t = Some (Inr y, t'))" using assms(3,4) by blast
  note law = assms(1)[unfolded pmap_law_def, rule_format, of J s xs task n]
  from law[OF assms(2)] keep succ obtain ys s' where r: "pmap n task xs s = Some (Inr ys, s')" by blast
  have ok: "J s' \<and> list_all2 (\<lambda>x y. \<exists>t t'. J t \<and> task x t = Some (Inr y, t')) xs ys"
    using law[OF assms(2)] keep r by blast
  have "list_all2 (\<lambda>x y. y = ans x) xs ys"
    by (rule list.rel_mono_strong[OF conjunct2[OF ok]]) (use assms(3) in blast)
  then have "ys = map ans xs" by (simp add: list_all2_conv_all_nth list_eq_iff_nth_eq)
  then show ?thesis using r ok by blast
qed

lemma autoDownloadRate_loop_all:
  assumes law: "pmap_law pmap" and ctx: "\<forall>s. ctxErr s = None" and "J (snd s)"
    and task: "\<And>x t r t'. x \<in> set (concat chunks) \<Longrightarrow> J (snd t) \<Longrightarrow> task x t = Some (r, t') \<Longrightarrow>
      J (snd t') \<and> r = Inr (ans x)"
    and ret: "\<And>x t. x \<in> set (concat chunks) \<Longrightarrow> J (snd t) \<Longrightarrow> \<exists>r t'. task x t = Some (r, t')"
  shows "\<exists>s'. autoDownloadRate_loop ctxErr apply pmap maxPar task chunks pt result s =
     Some (Inr (result @ map ans (concat chunks)), s') \<and> J s'"
  using assms(3-)
proof (induction chunks arbitrary: pt result s)
  case (Cons c cs)
  have sub: "\<And>x. x \<in> set c \<Longrightarrow> x \<in> set (concat (c # cs))" "\<And>x. x \<in> set (concat cs) \<Longrightarrow> x \<in> set (concat (c # cs))"
    by auto
  have "\<exists>s'. pmap (apply (fst s \<noteq> 0) pt maxPar) task c (0, snd s) = Some (Inr (map ans c), s') \<and> J (snd s')"
  proof (rule pmap_lawD[where J = "\<lambda>t. J (snd t)", OF law])
    show "J (snd (0, snd s))" using Cons.prems(1) by simp
  qed (use sub Cons.prems(2,3) in blast)+
  then obtain s1 where s1: "pmap (apply (fst s \<noteq> 0) pt maxPar) task c (0, snd s) = Some (Inr (map ans c), s1)"
    "J (snd s1)" by blast
  have "\<exists>s'. autoDownloadRate_loop ctxErr apply pmap maxPar task cs (apply (fst s \<noteq> 0) pt maxPar) (result @ map ans c) s1 =
      Some (Inr ((result @ map ans c) @ map ans (concat cs)), s') \<and> J s'"
    by (rule Cons.IH[OF s1(2)]) (use sub Cons.prems(2,3) in blast)+
  then show ?case using s1(1) spec[OF ctx, of "snd s"] by (simp add: Let_def)
qed simp

lemma autoDownloadRate_all:
  assumes "pmap_law pmap" and "\<forall>s. ctxErr s = None" and "concat (chunk data maxPar) = data" and "J s"
    and "\<And>x t r t'. x \<in> set data \<Longrightarrow> J (snd t) \<Longrightarrow> task x t = Some (r, t') \<Longrightarrow> J (snd t') \<and> r = Inr (ans x)"
    and "\<And>x t. x \<in> set data \<Longrightarrow> J (snd t) \<Longrightarrow> \<exists>r t'. task x t = Some (r, t')"
  shows "\<exists>s'. autoDownloadRate ctxErr apply pmap chunk maxPar task data s = Some (Inr (map ans data), s') \<and> J s'"
  using autoDownloadRate_loop_all[of pmap ctxErr J "(0, s)" "chunk data maxPar" task ans "apply" maxPar maxPar "[]"]
    assms by (simp add: autoDownloadRate_def)

subsection \<open>The server's content\<close>

text \<open>
  The account as the server holds it: \<open>srvM\<close> its messages (\<open>None\<close>: answered with 422), \<open>srvA\<close> the
  data of its attachments. Calls may be refused, at most \<open>busy\<close> times.
\<close>

definition content_server ::
  "(string \<rightharpoonup> Message) \<Rightarrow> (string \<Rightarrow> bytes) \<Rightarrow> ('w \<Rightarrow> nat) \<Rightarrow> ('c, 'w, 'e) download_env \<Rightarrow> bool" where
  "content_server srvM srvA busy E \<longleftrightarrow>
     (\<forall>i w r w'. de_getMessage E i w = (r, w') \<longrightarrow>
        Is429Or5XXError (err_of r) \<and> (\<forall>t. busy (de_pause E t w') < busy w) \<or>
        r = (case srvM i of None \<Rightarrow> Inl (SApi 422) | Some m \<Rightarrow> Inr m)) \<and>
     (\<forall>i w r w'. de_getAttachment E i w = (r, w') \<longrightarrow>
        Is429Or5XXError (err_of r) \<and> (\<forall>t. busy (de_pause E t w') < busy w) \<or> r = Inr (srvA i)) \<and>
     (\<forall>i m. srvM i = Some m \<longrightarrow> m_ID m = i \<and> i \<noteq> '''')"

definition cache_ok :: "(string \<rightharpoonup> Message) \<Rightarrow> (string \<Rightarrow> bytes) \<Rightarrow> DownloadCache \<Rightarrow> bool" where
  "cache_ok srvM srvA c \<longleftrightarrow>
     (\<forall>i m. GetMessage c i = Some m \<longrightarrow> srvM i = Some m) \<and> (\<forall>i d. GetAttachment c i = Some d \<longrightarrow> d = srvA i)"

definition blank :: "Message \<Rightarrow> FullMessage" where
  "blank m = \<lparr>fm_Message = m, fm_AttData = replicate (length (m_Attachments m)) []\<rparr>"

definition full :: "(string \<Rightarrow> bytes) \<Rightarrow> Message \<Rightarrow> FullMessage" where
  "full srvA m = \<lparr>fm_Message = m, fm_AttData = map (\<lambda>a. srvA (att_ID a)) (m_Attachments m)\<rparr>"

definition message_answer :: "(string \<rightharpoonup> Message) \<Rightarrow> string \<Rightarrow> FullMessage" where
  "message_answer srvM i = (case srvM i of None \<Rightarrow> empty_FullMessage | Some m \<Rightarrow> blank m)"

lemma fetch_message_step:
  assumes srv: "content_server srvM srvA busy E" and c: "cache_ok srvM srvA c"
    and f: "fetch_message (de_getMessage E) i (c, w) = (r, c', w')"
  shows "cache_ok srvM srvA c' \<and>
     (Is429Or5XXError (err_of r) \<and> (\<forall>t. busy (de_pause E t w') < busy w) \<or> r = Inr (message_answer srvM i))"
proof (cases "GetMessage c i")
  case (Some m)
  then have "srvM i = Some m" using c by (simp add: cache_ok_def)
  then show ?thesis using f c Some by (auto simp: fetch_message_def downloadMessage_def message_answer_def blank_def)
next
  case None
  obtain r0 w0 where g: "de_getMessage E i w = (r0, w0)" by (cases "de_getMessage E i w")
  have srv': "Is429Or5XXError (err_of r0) \<and> (\<forall>t. busy (de_pause E t w0) < busy w) \<or>
      r0 = (case srvM i of None \<Rightarrow> Inl (SApi 422) | Some m \<Rightarrow> Inr m)"
    "\<forall>m. srvM i = Some m \<longrightarrow> m_ID m = i"
    using srv g unfolding content_server_def by blast+
  show ?thesis
  proof (cases r0)
    case (Inl e)
    then have f': "c' = c" "w' = w0" "r = (if e = SApi 422 then Inr empty_FullMessage else Inl e)"
      using f None g by (auto simp: fetch_message_def downloadMessage_def)
    from srv'(1) show ?thesis
    proof
      assume ref: "Is429Or5XXError (err_of r0) \<and> (\<forall>t. busy (de_pause E t w0) < busy w)"
      then have "e \<noteq> SApi 422 \<or> Is429Or5XXError (err_of r)" using Inl f'(3) by auto
      then show ?thesis using ref Inl f' c by auto
    next
      assume "r0 = (case srvM i of None \<Rightarrow> Inl (SApi 422) | Some m \<Rightarrow> Inr m)"
      then have "srvM i = None" "e = SApi 422" using Inl by (auto split: option.splits)
      then show ?thesis using f' c by (simp add: message_answer_def)
    qed
  next
    case (Inr m)
    then have m: "srvM i = Some m" "m_ID m = i" using srv' by (auto split: option.splits)
    have f': "c' = StoreMessage m c" "r = Inr (blank m)"
      using f None g Inr by (auto simp: fetch_message_def downloadMessage_def blank_def)
    then show ?thesis using m c
      by (auto simp: message_answer_def cache_ok_def StoreMessage_def GetMessage_def GetAttachment_def)
  qed
qed

lemma fetch_attachment_step:
  assumes srv: "content_server srvM srvA busy E" and c: "cache_ok srvM srvA c"
    and f: "downloadAttachment (de_getAttachment E) i (c, w) = (r, c', w')"
  shows "cache_ok srvM srvA c' \<and>
     (Is429Or5XXError (err_of r) \<and> (\<forall>t. busy (de_pause E t w') < busy w) \<or> r = Inr (srvA i))"
proof (cases "GetAttachment c i")
  case (Some d)
  then have "d = srvA i" using c by (simp add: cache_ok_def)
  then show ?thesis using f c Some by (auto simp: downloadAttachment_def)
next
  case None
  obtain r0 w0 where g: "de_getAttachment E i w = (r0, w0)" by (cases "de_getAttachment E i w")
  have srv': "Is429Or5XXError (err_of r0) \<and> (\<forall>t. busy (de_pause E t w0) < busy w) \<or> r0 = Inr (srvA i)"
    using srv g unfolding content_server_def by blast
  show ?thesis
  proof (cases r0)
    case (Inl e)
    then show ?thesis using f None g srv' c by (auto simp: downloadAttachment_def)
  next
    case (Inr d)
    then have "d = srvA i" "c' = StoreAttachment i d c" "r = Inr d"
      using srv' f None g by (auto simp: downloadAttachment_def)
    then show ?thesis using c by (auto simp: cache_ok_def StoreAttachment_def GetMessage_def GetAttachment_def)
  qed
qed

text \<open>A task that can only be refused or answer \<open>a\<close> does answer \<open>a\<close>, and keeps the cache right.\<close>

lemma download_task_answers:
  fixes busy :: "'w \<Rightarrow> nat"
  assumes step: "\<And>c w r c' w'. cache_ok srvM srvA c \<Longrightarrow> f x (c, w) = (r, c', w') \<Longrightarrow>
      cache_ok srvM srvA c' \<and> (Is429Or5XXError (err_of r) \<and> (\<forall>t. busy (de_pause E t w') < busy w) \<or> r = Inr a)"
    and "cache_ok srvM srvA (fst (snd t))"
  shows "\<exists>t'. download_task (dl_retry E) f x t = Some (Inr a, t') \<and> cache_ok srvM srvA (fst (snd t'))"
proof -
  let ?I = "\<lambda>s. cache_ok srvM srvA (fst s)"
  have "\<exists>y enc' s'. dl_retry E (f x) (snd t) = Some (Inr y, enc', s') \<and> (y = a \<and> ?I s')"
    unfolding dl_retry_def
  proof (rule RetryWithClient_eventually[where I = ?I and busy = "\<lambda>s. busy (snd s)"])
    fix s r s' assume s: "?I s" "f x s = (r, s')"
    have "f x (fst s, snd s) = (r, fst s', snd s')" using s(2) by simp
    from step[OF s(1) this] show "Is429Or5XXError (err_of r) \<and>
        (\<forall>t. ?I (case s' of (c, w) \<Rightarrow> (c, de_pause E t w)) \<and>
          busy (snd (case s' of (c, w) \<Rightarrow> (c, de_pause E t w))) < busy (snd s)) \<or>
        (\<exists>y. r = Inr y \<and> y = a \<and> ?I s')"
      by (auto simp: case_prod_beta)
  qed (rule assms(2))
  then show ?thesis by (auto simp: download_task_def)
qed

lemma download_messages_all:
  fixes E :: "('c, 'w, 'e) download_env"
  assumes srv: "content_server srvM srvA busy E" and law: "pmap_law (de_pmapM E)"
    and ctx: "\<forall>s. de_ctxErr E s = None" and chunk: "concat (de_chunkM E ids maxPar) = ids"
    and c: "cache_ok srvM srvA (fst s)"
  shows "\<exists>s'. download_messages E maxPar ids s = Some (Inr (map (message_answer srvM) ids), s') \<and>
     cache_ok srvM srvA (fst s')"
proof -
  let ?task = "download_task (dl_retry E) (fetch_message (de_getMessage E))"
  have ans: "\<exists>t'. ?task i t = Some (Inr (message_answer srvM i), t') \<and> cache_ok srvM srvA (fst (snd t'))"
    if "cache_ok srvM srvA (fst (snd t))" for i t
    by (rule download_task_answers[where busy = busy, OF _ that]) (rule fetch_message_step[OF srv])
  show ?thesis unfolding download_messages_def
  proof (rule autoDownloadRate_all[where J = "\<lambda>s. cache_ok srvM srvA (fst s)"])
    fix x t r t' assume t: "cache_ok srvM srvA (fst (snd t))" "?task x t = Some (r, t')"
    show "cache_ok srvM srvA (fst (snd t')) \<and> r = Inr (message_answer srvM x)" using ans[OF t(1), of x] t(2) by auto
  next
    fix x and t :: "'w dl_tasks" assume "cache_ok srvM srvA (fst (snd t))"
    from ans[OF this] show "\<exists>r t'. ?task x t = Some (r, t')" by blast
  qed (fact law ctx chunk c)+
qed

lemma download_attachments_all:
  fixes E :: "('c, 'w, 'e) download_env"
  assumes srv: "content_server srvM srvA busy E" and law: "pmap_law (de_pmapA E)"
    and ctx: "\<forall>s. de_ctxErr E s = None"
    and chunk: "concat (de_chunkA E (attachmentIndices result) maxPar) = attachmentIndices result"
    and c: "cache_ok srvM srvA (fst s)"
  shows "\<exists>s'. download_attachments E maxPar result s =
       Some (Inr (map (\<lambda>ix. srvA (att_ID (fm_atts (result ! fst ix) ! snd ix))) (attachmentIndices result)), s') \<and>
     cache_ok srvM srvA (fst s')"
proof -
  let ?task = "download_task (dl_retry E) (fetch_attachment (de_getAttachment E) result)"
  have ans: "\<exists>t'. ?task ix t = Some (Inr (srvA (att_ID (fm_atts (result ! fst ix) ! snd ix))), t') \<and>
      cache_ok srvM srvA (fst (snd t'))" if "cache_ok srvM srvA (fst (snd t))" for ix t
    by (rule download_task_answers[where busy = busy, OF _ that])
      (unfold fetch_attachment_def, rule fetch_attachment_step[OF srv])
  show ?thesis unfolding download_attachments_def
  proof (rule autoDownloadRate_all[where J = "\<lambda>s. cache_ok srvM srvA (fst s)"])
    fix x t r t' assume t: "cache_ok srvM srvA (fst (snd t))" "?task x t = Some (r, t')"
    show "cache_ok srvM srvA (fst (snd t')) \<and> r = Inr (srvA (att_ID (fm_atts (result ! fst x) ! snd x)))"
      using ans[OF t(1), of x] t(2) by auto
  next
    fix x and t :: "'w dl_tasks" assume "cache_ok srvM srvA (fst (snd t))"
    from ans[OF this] show "\<exists>r t'. ?task x t = Some (r, t')" by blast
  qed (fact law ctx chunk c)+
qed

subsection \<open>Putting the attachments into the messages\<close>

lemma attach_data_spec:
  assumes "\<forall>(i, k) \<in> set ixs. i < length res"
  shows "\<exists>res'. attach_data ixs (map g ixs) res = Some res' \<and> length res' = length res \<and>
     (\<forall>i < length res. fm_Message (res' ! i) = fm_Message (res ! i) \<and>
        length (fm_AttData (res' ! i)) = length (fm_AttData (res ! i)) \<and>
        (\<forall>k < length (fm_AttData (res ! i)).
           fm_AttData (res' ! i) ! k = (if (i, k) \<in> set ixs then g (i, k) else fm_AttData (res ! i) ! k)))"
  using assms
proof (induction ixs arbitrary: res)
  case (Cons ix ixs)
  obtain a b where ix: "ix = (a, b)" by (cases ix)
  let ?r1 = "res[a := (res ! a)\<lparr>fm_AttData := (fm_AttData (res ! a))[b := g (a, b)]\<rparr>]"
  have a: "a < length res" and "\<forall>(i, k) \<in> set ixs. i < length ?r1" using Cons.prems ix by auto
  from Cons.IH[OF this(2)] obtain res' where IH: "attach_data ixs (map g ixs) ?r1 = Some res'"
    "length res' = length ?r1"
    "\<forall>i < length ?r1. fm_Message (res' ! i) = fm_Message (?r1 ! i) \<and>
        length (fm_AttData (res' ! i)) = length (fm_AttData (?r1 ! i)) \<and>
        (\<forall>k < length (fm_AttData (?r1 ! i)).
           fm_AttData (res' ! i) ! k = (if (i, k) \<in> set ixs then g (i, k) else fm_AttData (?r1 ! i) ! k))"
    by blast
  have "fm_Message (res' ! i) = fm_Message (res ! i) \<and>
        length (fm_AttData (res' ! i)) = length (fm_AttData (res ! i)) \<and>
        (\<forall>k < length (fm_AttData (res ! i)).
           fm_AttData (res' ! i) ! k = (if (i, k) \<in> set (ix # ixs) then g (i, k) else fm_AttData (res ! i) ! k))"
    if "i < length res" for i
  proof (cases "i = a")
    case True
    then show ?thesis using IH(3) that ix by (auto simp: nth_list_update)
  next
    case False
    then show ?thesis using IH(3) that ix by simp
  qed
  then show ?case using IH(1,2) ix by (intro exI[of _ res']) simp
qed simp

lemma attachmentIndices_mem:
  "(i, k) \<in> set (attachmentIndices res) \<longleftrightarrow> i < length res \<and> k < length (fm_atts (res ! i))"
  by (force simp: attachmentIndices_def)

lemma attach_data_full:
  assumes "res = map blank ms"
  shows "attach_data (attachmentIndices res)
     (map (\<lambda>ix. srvA (att_ID (fm_atts (res ! fst ix) ! snd ix))) (attachmentIndices res)) res =
     Some (map (full srvA) ms)"
proof -
  let ?g = "\<lambda>ix. srvA (att_ID (fm_atts (res ! fst ix) ! snd ix))"
  have "\<forall>(i, k) \<in> set (attachmentIndices res). i < length res" by (auto simp: attachmentIndices_mem)
  from attach_data_spec[OF this, of ?g] obtain res' where r:
    "attach_data (attachmentIndices res) (map ?g (attachmentIndices res)) res = Some res'" "length res' = length res"
    "\<forall>i < length res. fm_Message (res' ! i) = fm_Message (res ! i) \<and>
        length (fm_AttData (res' ! i)) = length (fm_AttData (res ! i)) \<and>
        (\<forall>k < length (fm_AttData (res ! i)).
           fm_AttData (res' ! i) ! k = (if (i, k) \<in> set (attachmentIndices res) then ?g (i, k) else fm_AttData (res ! i) ! k))"
    by blast
  have "res' ! i = full srvA (ms ! i)" if "i < length ms" for i
  proof (rule FullMessage.equality)
    show "fm_AttData (res' ! i) = fm_AttData (full srvA (ms ! i))"
      using r(3) that assms by (intro nth_equalityI) (auto simp: full_def blank_def attachmentIndices_mem)
  qed (use r(3) that assms in \<open>simp_all add: full_def blank_def\<close>)
  then have "res' = map (full srvA) ms" using r(2) assms by (intro nth_equalityI) simp_all
  then show ?thesis using r(1) by simp
qed

lemma filter_message_answers:
  assumes "\<forall>i m. srvM i = Some m \<longrightarrow> m_ID m = i \<and> i \<noteq> ''''"
  shows "filter (\<lambda>t. fm_ID t \<noteq> '''') (map (message_answer srvM) ids) = map blank (List.map_filter srvM ids)"
  using assms
  by (induction ids) (auto simp: message_answer_def map_filter_simps empty_FullMessage_def blank_def split: option.splits)

lemma concat_map_index: "concat (map (\<lambda>i. g (xs ! i)) [0..<length xs]) = concat (map g xs)"
  by (metis (no_types, lifting) map_nth map_map comp_apply map_eq_conv)

lemma attachmentIDs_eq: "attachmentIDs res = concat (map (\<lambda>m. map att_ID (fm_atts m)) res)"
proof -
  have "attachmentIDs res = concat (map (\<lambda>i. map (\<lambda>k. att_ID (fm_atts (res ! i) ! k)) [0..<length (fm_atts (res ! i))]) [0..<length res])"
    by (simp add: attachmentIDs_def attachmentIndices_def map_concat comp_def)
  also have "\<dots> = concat (map (\<lambda>i. map att_ID (fm_atts (res ! i))) [0..<length res])"
    by (metis (no_types, lifting) map_nth map_map comp_apply map_eq_conv)
  finally show ?thesis by (simp add: concat_map_index[of "\<lambda>m. map att_ID (fm_atts m)"])
qed

lemma attachmentIDs_full:
  "attachmentIDs (map blank ms) = concat (map (\<lambda>m. map att_ID (fm_atts m)) (map (full srvA) ms))"
  by (simp add: attachmentIDs_eq comp_def blank_def full_def)

subsection \<open>Properties\<close>

text \<open>
  Property C27. A request whose job is not cancelled, on a server whose content does not change and that
  refuses calls only finitely often: the stage ends, and what it hands to the build stage
  is, in the order of the request, every requested message the server still has, each with
  the data of each of its attachments at the attachment's position. The child job keeps its
  last message ID and count and is told what to evict from the cache. What is in the cache
  afterwards is what the server holds.
\<close>

theorem download_stage_complete:
  assumes srv: "content_server srvM srvA busy E" and "pmap_law (de_pmapM E)" and "pmap_law (de_pmapA E)"
    and ctx: "\<forall>s. de_ctxErr E s = None"
    and "\<forall>xs. concat (de_chunkM E xs maxPar) = xs" and "\<forall>xs. concat (de_chunkA E xs maxPar) = xs"
    and "cache_ok srvM srvA (j_cache j)" and "\<not> j_cancelled j"
  shows "\<exists>c w2. cache_ok srvM srvA c \<and>
     (let batch = map (full srvA) (List.map_filter srvM (dr_ids req));
          child = (dr_childJob req)\<lparr>
             cachedAttachmentIDs := concat (map (\<lambda>m. map att_ID (fm_atts m)) batch),
             cachedMessageIDs := dr_ids req\<rparr>;
          j2 = childJob_onStageCompleted child (j\<lparr>j_cache := c\<rparr>)
      in DownloadStage_one E maxPar req j w =
           (case de_produce E \<lparr>br_childJob = child, br_batch = batch\<rparr> w2 of
              (Some e, w3) \<Rightarrow> Some (Job_onError e j2, w3) | (None, w3) \<Rightarrow> Some (j2, w3)))"
proof -
  let ?all = "map (message_answer srvM) (dr_ids req)" and ?ms = "List.map_filter srvM (dr_ids req)"
  let ?res = "map blank ?ms"
  have fil: "filter (\<lambda>t. fm_ID t \<noteq> '''') ?all = ?res"
    using srv by (intro filter_message_answers) (auto simp: content_server_def)
  obtain c1 w1 where m: "download_messages E maxPar (dr_ids req) (j_cache j, w) = Some (Inr ?all, c1, w1)"
    "cache_ok srvM srvA c1"
    using download_messages_all[OF srv assms(2) ctx, of "dr_ids req" maxPar "(j_cache j, w)"] assms(5,7) by auto
  obtain c2 w2 where a: "download_attachments E maxPar ?res (c1, w1) =
      Some (Inr (map (\<lambda>ix. srvA (att_ID (fm_atts (?res ! fst ix) ! snd ix))) (attachmentIndices ?res)), c2, w2)"
    "cache_ok srvM srvA c2"
    using download_attachments_all[OF srv assms(3) ctx, of ?res maxPar "(c1, w1)"] assms(6) m(2) by auto
  have ids: "attachmentIDs ?res = concat (map (\<lambda>m. map att_ID (fm_atts m)) (map (full srvA) ?ms))"
    by (rule attachmentIDs_full)
  have chk: "checkCancelled j = (j, False)" using assms(8) by (simp add: checkCancelled_def)
  have "DownloadStage_one E maxPar req j w =
      (let child = (dr_childJob req)\<lparr>cachedAttachmentIDs := attachmentIDs ?res, cachedMessageIDs := dr_ids req\<rparr>;
           j2 = childJob_onStageCompleted child (j\<lparr>j_cache := c2\<rparr>)
       in case de_produce E \<lparr>br_childJob = child, br_batch = map (full srvA) ?ms\<rparr> w2 of
            (Some e, w3) \<Rightarrow> Some (Job_onError e j2, w3) | (None, w3) \<Rightarrow> Some (j2, w3))"
    unfolding DownloadStage_one_def chk
    by (simp add: m(1) fil a(1) attach_data_full[OF refl] Let_def del: filter_map)
  then show ?thesis using a(2) unfolding ids Let_def by blast
qed

text \<open>A parallel map that runs its tasks one after the other obeys the law.\<close>

fun seq_pmap :: "('t, 'r, 'st, 'e) map_context" where
  "seq_pmap n task [] s = Some (Inr [], s)"
| "seq_pmap n task (x # xs) s =
     (case task x s of
        None \<Rightarrow> None
      | Some (Inl e, s') \<Rightarrow> Some (Inl e, s')
      | Some (Inr y, s') \<Rightarrow>
          (case seq_pmap n task xs s' of
             None \<Rightarrow> None
           | Some (Inl e, s2) \<Rightarrow> Some (Inl e, s2)
           | Some (Inr ys, s2) \<Rightarrow> Some (Inr (y # ys), s2)))"

lemma seq_pmap_safe:
  assumes "I s" and "\<forall>x t r t'. x \<in> set xs \<and> I t \<and> task x t = Some (r, t') \<longrightarrow> I t'"
    and "seq_pmap n task xs s = Some (r, s')"
  shows "I s' \<and> (\<forall>ys. r = Inr ys \<longrightarrow> list_all2 (\<lambda>x y. \<exists>t t'. I t \<and> task x t = Some (Inr y, t')) xs ys)"
  using assms
proof (induction xs arbitrary: s r s')
  case (Cons x xs)
  obtain r1 s1 where t: "task x s = Some (r1, s1)" using Cons.prems(3) by (cases "task x s") auto
  have "I s1" using Cons.prems(1,2) t by (meson list.set_intros(1))
  show ?case
  proof (cases r1)
    case (Inl e)
    then show ?thesis using Cons.prems(3) t \<open>I s1\<close> by auto
  next
    case (Inr y)
    obtain r2 s2 where q: "seq_pmap n task xs s1 = Some (r2, s2)"
      using Cons.prems(3) t Inr by (cases "seq_pmap n task xs s1") auto
    have IH: "I s2 \<and> (\<forall>ys. r2 = Inr ys \<longrightarrow> list_all2 (\<lambda>x y. \<exists>t t'. I t \<and> task x t = Some (Inr y, t')) xs ys)"
      by (rule Cons.IH[OF \<open>I s1\<close> _ q]) (use Cons.prems(2) in \<open>meson list.set_intros(2)\<close>)
    show ?thesis using Cons.prems(1,3) t Inr q IH by (cases r2) (auto simp del: split_paired_Ex)
  qed
qed auto

lemma seq_pmap_total:
  assumes "I s" and "\<forall>x t r t'. x \<in> set xs \<and> I t \<and> task x t = Some (r, t') \<longrightarrow> I t'"
    and "\<forall>x t. x \<in> set xs \<and> I t \<longrightarrow> (\<exists>y t'. task x t = Some (Inr y, t'))"
  shows "\<exists>ys s'. seq_pmap n task xs s = Some (Inr ys, s')"
  using assms
proof (induction xs arbitrary: s)
  case Nil
  show ?case by (intro exI) (rule seq_pmap.simps(1))
next
  case (Cons x xs)
  obtain y s1 where t: "task x s = Some (Inr y, s1)" using Cons.prems(1,3) by (meson list.set_intros(1))
  have "I s1" using Cons.prems(1,2) t by (meson list.set_intros(1))
  then have "\<exists>ys s'. seq_pmap n task xs s1 = Some (Inr ys, s')"
    using Cons.IH[of s1] Cons.prems(2,3) by (meson list.set_intros(2))
  then show ?case using t by auto
qed

lemma seq_pmap_law: "pmap_law seq_pmap"
  unfolding pmap_law_def
proof (intro allI impI conjI)
  fix n task xs s I r s'
  assume "I s" "\<forall>x t r t'. x \<in> set xs \<and> I t \<and> task x t = Some (r, t') \<longrightarrow> I t'"
    "seq_pmap n task xs s = Some (r, s')"
  note safe = seq_pmap_safe[of I, OF this]
  show "I s'" using safe by blast
  show "list_all2 (\<lambda>x y. \<exists>t t'. I t \<and> task x t = Some (Inr y, t')) xs ys" if "r = Inr ys" for ys
    using safe that by blast
qed (rule seq_pmap_total)

definition ex_message :: Message where
  "ex_message = \<lparr>m_ID = ''m'', m_AddressID = ''addr'', m_Body = [1, 2],
     m_Attachments = [\<lparr>att_ID = ''x'', att_Size = 1\<rparr>, \<lparr>att_ID = ''y'', att_Size = 1\<rparr>]\<rparr>"

definition ex_srvM :: "string \<rightharpoonup> Message" where
  "ex_srvM = [''m'' \<mapsto> ex_message]"

definition ex_srvA :: "string \<Rightarrow> bytes" where
  "ex_srvA i = (if i = ''x'' then [7] else [8, 9])"

definition ex_download_env :: "(ExpCoolDown, BuildRequest list, unit) download_env" where
  "ex_download_env =
     \<lparr>de_ctxErr = (\<lambda>_. None), de_nextWait = ExpCoolDown_GetNextWaitTime 0, de_reset = ExpCoolDown_Reset,
      de_newCoolDown = \<lparr>count = 0\<rparr>, de_pause = (\<lambda>t w. w),
      de_getMessage = (\<lambda>i w. (case ex_srvM i of None \<Rightarrow> Inl (SApi 422) | Some m \<Rightarrow> Inr m, w)),
      de_getAttachment = (\<lambda>i w. (Inr (ex_srvA i), w)),
      de_pmapM = seq_pmap, de_chunkM = (\<lambda>xs _. map (\<lambda>x. [x]) xs),
      de_pmapA = seq_pmap, de_chunkA = (\<lambda>xs _. map (\<lambda>x. [x]) xs),
      de_produce = (\<lambda>r w. (None, w @ [r]))\<rparr>"

definition ex_request :: DownloadRequest where
  "ex_request = \<lparr>dr_childJob = ex_child, dr_ids = [''gone'', ''m'']\<rparr>"

theorem download_stage_complete_witness:
  "\<exists>j2 w2 child. DownloadStage_one ex_download_env 4 ex_request ex_job [] =
      Some (j2, w2 @ [\<lparr>br_childJob = child, br_batch = [\<lparr>fm_Message = ex_message, fm_AttData = [[7], [8, 9]]\<rparr>]\<rparr>]) \<and>
      lastMessageID child = ''m3''"
proof -
  have srv: "content_server ex_srvM ex_srvA (\<lambda>_. 0) ex_download_env"
    by (auto simp: content_server_def ex_download_env_def ex_srvM_def ex_message_def split: if_splits)
  have env: "de_pmapM ex_download_env = seq_pmap" "de_pmapA ex_download_env = seq_pmap"
    "\<forall>s. de_ctxErr ex_download_env s = None" "\<forall>xs. concat (de_chunkM ex_download_env xs 4) = xs"
    "\<forall>xs. concat (de_chunkA ex_download_env xs 4) = xs"
    by (simp_all add: ex_download_env_def)
  have job: "cache_ok ex_srvM ex_srvA (j_cache ex_job)" "\<not> j_cancelled ex_job"
    by (simp_all add: cache_ok_def ex_job_def newDownloadCache_def GetMessage_def GetAttachment_def)
  have batch: "map (full ex_srvA) (List.map_filter ex_srvM (dr_ids ex_request)) =
      [\<lparr>fm_Message = ex_message, fm_AttData = [[7], [8, 9]]\<rparr>]"
    by (simp add: ex_request_def ex_srvM_def ex_srvA_def full_def ex_message_def map_filter_simps)
  obtain c w2 where r: "let batch = map (full ex_srvA) (List.map_filter ex_srvM (dr_ids ex_request));
          child = (dr_childJob ex_request)\<lparr>
             cachedAttachmentIDs := concat (map (\<lambda>m. map att_ID (fm_atts m)) batch),
             cachedMessageIDs := dr_ids ex_request\<rparr>;
          j2 = childJob_onStageCompleted child (ex_job\<lparr>j_cache := c\<rparr>)
      in DownloadStage_one ex_download_env 4 ex_request ex_job [] =
           (case de_produce ex_download_env \<lparr>br_childJob = child, br_batch = batch\<rparr> w2 of
              (Some e, w3) \<Rightarrow> Some (Job_onError e j2, w3) | (None, w3) \<Rightarrow> Some (j2, w3))"
    using download_stage_complete[where w = "[]" and req = ex_request and maxPar = 4, OF srv _ _ env(3-5) job]
      seq_pmap_law env(1,2) by metis
  define child where "child = (dr_childJob ex_request)\<lparr>cachedAttachmentIDs :=
      concat (map (\<lambda>m. map att_ID (fm_atts m)) [\<lparr>fm_Message = ex_message, fm_AttData = [[7], [8, 9]]\<rparr>]),
      cachedMessageIDs := dr_ids ex_request\<rparr>"
  have "de_produce ex_download_env r w2 = (None, w2 @ [r])" for r by (simp add: ex_download_env_def)
  then have "DownloadStage_one ex_download_env 4 ex_request ex_job [] =
      Some (childJob_onStageCompleted child (ex_job\<lparr>j_cache := c\<rparr>),
        w2 @ [\<lparr>br_childJob = child, br_batch = [\<lparr>fm_Message = ex_message, fm_AttData = [[7], [8, 9]]\<rparr>]\<rparr>])"
    using r unfolding batch Let_def child_def by simp
  moreover have "lastMessageID child = ''m3''" by (simp add: child_def ex_request_def ex_child_def)
  ultimately show ?thesis by blast
qed

text \<open>
  Property C15. As long as no call is refused, every chunk is downloaded by two parallel tasks,
  whatever the configured maximum; once a chunk met refusals, the next one uses twice the
  tasks, up to the maximum. The argument of \<open>Apply\<close> that is named for success is the
  presence of refusals.
\<close>

theorem rate_without_refusals:
  assumes "\<forall>n c s r k s'. pmap n task c s = Some (r, (k, s')) \<longrightarrow> k = 0"
  shows "autoDownloadRate ctxErr DefaultDownloadRateModifier_Apply pmap chunk maxPar task data s =
     autoDownloadRate ctxErr (\<lambda>_ _ _. 2) pmap chunk maxPar task data s"
proof -
  have "autoDownloadRate_loop ctxErr DefaultDownloadRateModifier_Apply pmap maxPar task cs pt res (0, s) =
      autoDownloadRate_loop ctxErr (\<lambda>_ _ _. 2) pmap maxPar task cs pt' res (0, s)" for cs pt pt' res s
  proof (induction cs arbitrary: pt pt' res s)
    case (Cons c cs)
    show ?case
    proof (cases "pmap 2 task c (0, s)")
      case (Some p)
      obtain r k s' where p: "p = (r, k, s')" by (metis prod_cases3)
      then have "k = 0" using assms Some by blast
      then show ?thesis using Some p Cons.IH[of 2 _ s' 2]
        by (cases r) (simp_all add: DefaultDownloadRateModifier_Apply_def split: option.splits)
    qed (simp add: DefaultDownloadRateModifier_Apply_def split: option.splits)
  qed simp
  then show ?thesis by (simp add: autoDownloadRate_def)
qed

theorem rate_without_refusals_witness:
  "autoDownloadRate (\<lambda>_. None) DefaultDownloadRateModifier_Apply
     (\<lambda>n task c s. Some (Inr (map (\<lambda>x. (x, n)) c), (0, snd s))) (\<lambda>xs _. map (\<lambda>x. [x]) xs) 20 (\<lambda>_ _. None)
     [''a'', ''b'', ''c''] (newDownloadCache, ()) =
   Some (Inr [(''a'', 2), (''b'', 2), (''c'', 2)] :: unit svc_err + (string \<times> int) list, (newDownloadCache, ()))"
  by (subst rate_without_refusals) (simp_all add: autoDownloadRate_def)

end
