(* ===== verification/Build_Stage.thy ===== *)
theory Build_Stage
  imports Download_Stage
begin

section \<open>The build stage\<close>

text \<open>
  Models \<^verbatim>\<open>internal/services/syncservice/stage_build.go\<close>: the downloaded messages of a request are cut
  into chunks by their memory need, each chunk is built in parallel and handed to the apply stage
  under a child job of its own. The message builder is a parameter; metrics, crash reports
  and the pool of buffers are left out.
\<close>

subsection \<open>Chunking\<close>

definition build_size :: "FullMessage \<Rightarrow> uint64" where
  "build_size v =
     sum_list (map att_Size (fm_atts v)) * 2 + word_of_nat (length (m_Body (fm_Message v)))"

text \<open>\<^verbatim>\<open>batch[a:b]\<close>, which \<^verbatim>\<open>copySlice\<close> copies.\<close>

definition copySlice :: "'a list \<Rightarrow> nat \<Rightarrow> nat \<Rightarrow> 'a list" where
  "copySlice src a b = take (b - a) (drop a src)"

fun chunkSync_loop ::
  "uint64 \<Rightarrow> FullMessage list \<Rightarrow> FullMessage list \<Rightarrow> nat \<Rightarrow> nat \<Rightarrow> uint64 \<Rightarrow> FullMessage list list \<Rightarrow>
     FullMessage list list \<times> nat" where
  "chunkSync_loop maxMemory batch [] index lastIndex expectedMemUsage chunks = (chunks, lastIndex)"
| "chunkSync_loop maxMemory batch (v # vs) index lastIndex expectedMemUsage chunks =
     (let dataSize = build_size v; nextMemSize = expectedMemUsage + dataSize in
      if nextMemSize \<ge> maxMemory
      then (if lastIndex < index
            then chunkSync_loop maxMemory batch vs (Suc index) index dataSize
                   (chunks @ [copySlice batch lastIndex index])
            else chunkSync_loop maxMemory batch vs (Suc index) lastIndex dataSize chunks)
      else chunkSync_loop maxMemory batch vs (Suc index) lastIndex nextMemSize chunks)"

definition chunkSyncBuilderBatch :: "FullMessage list \<Rightarrow> uint64 \<Rightarrow> FullMessage list list" where
  "chunkSyncBuilderBatch batch maxMemory =
     (case chunkSync_loop maxMemory batch batch 0 0 0 [] of
        (chunks, lastIndex) \<Rightarrow>
          if lastIndex < length batch then chunks @ [copySlice batch lastIndex (length batch)] else chunks)"

subsection \<open>Building a request\<close>

record 'u BuildResult =
  bres_AddressID :: string
  bres_MessageID :: string
  bres_Update :: "'u option"

definition empty_BuildResult :: "'u BuildResult" where
  "empty_BuildResult = \<lparr>bres_AddressID = '''', bres_MessageID = '''', bres_Update = None\<rparr>"

record 'u ApplyRequest =
  ar_childJob :: childJob
  ar_messages :: "'u BuildResult list"

record ('k, 'u, 's, 'w, 'e) build_env =
  be_withKeys :: "'w \<Rightarrow> ('e svc_err + (string \<rightharpoonup> 'k)) \<times> 'w"
  be_buildMessage :: "FullMessage \<Rightarrow> 'k \<Rightarrow> 'e svc_err + 'u BuildResult"
  be_numCPU :: int
  be_pmap :: "(FullMessage, 'u BuildResult, 's, 'e) map_context"
  be_produce :: "'u ApplyRequest \<Rightarrow> 'w \<Rightarrow> 'e svc_err option \<times> 'w"

text \<open>The function run on each message: a message that cannot be built is recorded and skipped.\<close>

definition build_task ::
  "('s, 'e) StateProvider \<Rightarrow> (FullMessage \<Rightarrow> 'k \<Rightarrow> 'e svc_err + 'u BuildResult) \<Rightarrow> (string \<rightharpoonup> 'k) \<Rightarrow>
     FullMessage \<Rightarrow> 's \<Rightarrow> (('e svc_err + 'u BuildResult) \<times> 's) option" where
  "build_task P buildMessage addrKRs msg s =
     (case addrKRs (m_AddressID (fm_Message msg)) of
        None \<Rightarrow> Some (Inr empty_BuildResult, snd (p_AddFailedMessageID P [fm_ID msg] s))
      | Some kr \<Rightarrow>
          (case buildMessage msg kr of
             Inl _ \<Rightarrow> Some (Inr empty_BuildResult, snd (p_AddFailedMessageID P [fm_ID msg] s))
           | Inr res \<Rightarrow> Some (Inr res, s)))"

fun build_chunks ::
  "('k, 'u, 's, 'w, 'e) build_env \<Rightarrow> ('s, 'e) StateProvider \<Rightarrow> (string \<rightharpoonup> 'k) \<Rightarrow>
     (FullMessage list \<times> childJob) list \<Rightarrow> ('s, 'e) Job \<Rightarrow> 'w \<Rightarrow>
     ('e svc_err option \<times> ('s, 'e) Job \<times> 'w) option" where
  "build_chunks B P addrKRs [] j w = Some (None, j, w)"
| "build_chunks B P addrKRs ((chunk, outJob) # rest) j w =
     (case checkCancelled j of
        (j1, True) \<Rightarrow> Some (None, fold (\<lambda>_ j. fst (checkCancelled j)) rest j1, w)
      | (j1, False) \<Rightarrow>
          (case be_pmap B (be_numCPU B) (build_task P (be_buildMessage B) addrKRs) chunk (j_state j1) of
             None \<Rightarrow> None
           | Some (Inl e, s') \<Rightarrow> Some (Some e, j1\<lparr>j_state := s'\<rparr>, w)
           | Some (Inr result, s') \<Rightarrow>
               (let success = filter (\<lambda>t. bres_Update t \<noteq> None) result;
                    s2 = (if success \<noteq> [] then snd (p_RemFailedMessageID P (map bres_MessageID success) s') else s');
                    j2 = childJob_onStageCompleted outJob (j1\<lparr>j_state := s2\<rparr>)
                in case be_produce B \<lparr>ar_childJob = outJob, ar_messages = success\<rparr> w of
                     (Some e, w') \<Rightarrow> Some (Some e, j2, w')
                   | (None, w') \<Rightarrow> build_chunks B P addrKRs rest j2 w')))"

definition BuildStage_one ::
  "('k, 'u, 's, 'w, 'e) build_env \<Rightarrow> ('s, 'e) StateProvider \<Rightarrow> uint64 \<Rightarrow> BuildRequest \<Rightarrow> ('s, 'e) Job \<Rightarrow> 'w \<Rightarrow>
     (('s, 'e) Job \<times> 'w) option" where
  "BuildStage_one B P maxBuildMem req j w =
     (case checkCancelled j of
        (j1, True) \<Rightarrow> Some (j1, w)
      | (j1, False) \<Rightarrow>
          if br_batch req = []
          then (let j2 = childJob_onStageCompleted (br_childJob req) j1
                in case be_produce B \<lparr>ar_childJob = br_childJob req, ar_messages = []\<rparr> w of
                     (Some e, w') \<Rightarrow> Some (Job_onError e j2, w')
                   | (None, w') \<Rightarrow> Some (j2, w'))
          else
            (case be_withKeys B w of
               (Inl e, w') \<Rightarrow> Some (Job_onError e j1, w')
             | (Inr addrKRs, w') \<Rightarrow>
                 (let chunks = chunkSyncBuilderBatch (br_batch req) maxBuildMem in
                  case chunkDivide chunks (br_childJob req) j1 of
                    None \<Rightarrow> None
                  | Some (j2, chunkedJobs) \<Rightarrow>
                      (case build_chunks B P addrKRs (zip chunks chunkedJobs) j2 w' of
                         None \<Rightarrow> None
                       | Some (Some e, j3, w3) \<Rightarrow> Some (Job_onError e j3, w3)
                       | Some (None, j3, w3) \<Rightarrow> Some (j3, w3)))))"

subsection \<open>The chunks partition the batch\<close>

definition chunk_ok :: "uint64 \<Rightarrow> FullMessage list \<Rightarrow> bool" where
  "chunk_ok maxMemory c \<longleftrightarrow> c \<noteq> [] \<and> (length c = 1 \<or> sum_list (map build_size c) < maxMemory)"

lemma chunkSync_loop_inv:
  assumes "batch = concat chunks @ cur @ vs" and "\<forall>c \<in> set chunks. chunk_ok mm c" and "cur = [] \<or> chunk_ok mm cur"
    and "chunkSync_loop mm batch vs (length (concat chunks) + length cur) (length (concat chunks))
           (sum_list (map build_size cur)) chunks = (chunks', li)"
  shows "\<exists>cur'. batch = concat chunks' @ cur' \<and> li = length (concat chunks') \<and>
     (\<forall>c \<in> set chunks'. chunk_ok mm c) \<and> (cur' = [] \<or> chunk_ok mm cur')"
  using assms
proof (induction vs arbitrary: chunks cur)
  case Nil
  then show ?case by auto
next
  case (Cons v vs)
  let ?next = "sum_list (map build_size cur) + build_size v"
  show ?case
  proof (cases "?next \<ge> mm")
    case False
    then have ok: "chunk_ok mm (cur @ [v])" by (simp add: chunk_ok_def not_le)
    show ?thesis
      by (rule Cons.IH[of chunks "cur @ [v]"]) (use Cons.prems ok False in \<open>simp_all add: Let_def\<close>)
  next
    case True
    have v: "chunk_ok mm [v]" by (simp add: chunk_ok_def)
    show ?thesis
    proof (cases "cur = []")
      case True
      show ?thesis
        by (rule Cons.IH[of chunks "[v]"]) (use Cons.prems v True \<open>?next \<ge> mm\<close> in \<open>simp_all add: Let_def\<close>)
    next
      case False
      have sl: "copySlice batch (length (concat chunks)) (length (concat chunks) + length cur) = cur"
        using Cons.prems(1) by (simp add: copySlice_def)
      show ?thesis
        by (rule Cons.IH[of "chunks @ [cur]" "[v]"])
          (use Cons.prems v False \<open>?next \<ge> mm\<close> sl in \<open>simp_all add: Let_def add.commute\<close>)
    qed
  qed
qed

lemma chunkSyncBuilderBatch_props:
  "concat (chunkSyncBuilderBatch batch mm) = batch \<and> (\<forall>c \<in> set (chunkSyncBuilderBatch batch mm). chunk_ok mm c)"
proof -
  obtain chunks li where l: "chunkSync_loop mm batch batch 0 0 0 [] = (chunks, li)"
    by (cases "chunkSync_loop mm batch batch 0 0 0 []")
  obtain cur where c: "batch = concat chunks @ cur" "li = length (concat chunks)"
    "\<forall>c \<in> set chunks. chunk_ok mm c" "cur = [] \<or> chunk_ok mm cur"
    using chunkSync_loop_inv[of batch "[]" "[]" batch mm chunks li] l by auto
  have "copySlice batch li (length batch) = cur" using c(1,2) by (simp add: copySlice_def)
  then show ?thesis using l c by (auto simp: chunkSyncBuilderBatch_def)
qed

lemma chunks_not_empty:
  assumes "batch \<noteq> []"
  shows "chunkSyncBuilderBatch batch mm \<noteq> []"
    and "\<forall>c \<in> set (butlast (chunkSyncBuilderBatch batch mm)). c \<noteq> []"
  using chunkSyncBuilderBatch_props[of batch mm] assms
  by (auto simp: chunk_ok_def dest: in_set_butlastD)

subsection \<open>Building all chunks\<close>

text \<open>What becomes of one message: the result of the builder, or the empty result.\<close>

definition built :: "('k, 'u, 's, 'w, 'e) build_env \<Rightarrow> (string \<rightharpoonup> 'k) \<Rightarrow> FullMessage \<Rightarrow> 'u BuildResult" where
  "built B keys msg =
     (case keys (m_AddressID (fm_Message msg)) of
        None \<Rightarrow> empty_BuildResult
      | Some kr \<Rightarrow> (case be_buildMessage B msg kr of Inl _ \<Rightarrow> empty_BuildResult | Inr res \<Rightarrow> res))"

definition built_ok :: "('k, 'u, 's, 'w, 'e) build_env \<Rightarrow> (string \<rightharpoonup> 'k) \<Rightarrow> FullMessage list \<Rightarrow> 'u BuildResult list" where
  "built_ok B keys msgs = filter (\<lambda>t. bres_Update t \<noteq> None) (map (built B keys) msgs)"

lemma built_ok_concat: "concat (map (built_ok B keys) cs) = built_ok B keys (concat cs)"
  by (induction cs) (simp_all add: built_ok_def)

lemma build_task_answer:
  "\<exists>s'. build_task P (be_buildMessage B) keys msg s = Some (Inr (built B keys msg), s')"
  by (auto simp: build_task_def built_def split: option.splits sum.splits)

lemma pmap_build:
  assumes "pmap_law (be_pmap B)"
  shows "\<exists>s'. be_pmap B n (build_task P (be_buildMessage B) keys) chunk s = Some (Inr (map (built B keys) chunk), s')"
proof -
  have "\<exists>s'. be_pmap B n (build_task P (be_buildMessage B) keys) chunk s =
      Some (Inr (map (built B keys) chunk), s') \<and> True"
  proof (rule pmap_lawD[OF assms, where J = "\<lambda>_. True"])
    fix x t r t' assume "build_task P (be_buildMessage B) keys x t = Some (r, t')"
    then show "True \<and> r = Inr (built B keys x)"
      using build_task_answer[of P B keys x t] by auto
  next
    fix x t show "\<exists>r t'. build_task P (be_buildMessage B) keys x t = Some (r, t')"
      using build_task_answer[of P B keys x t] by blast
  qed simp
  then show ?thesis by simp
qed

lemma build_chunks_all:
  assumes law: "pmap_law (be_pmap B)" and prod: "\<forall>r w. \<exists>w'. be_produce B r w = (None, w') \<and> out w' = out w @ [r]"
    and "\<not> j_cancelled j"
  shows "\<exists>j' w'. build_chunks B P keys cjs j w = Some (None, j', w') \<and> \<not> j_cancelled j' \<and>
     j_sent j' = j_sent j \<and> j_progress j' = j_progress j @ map (messageCount \<circ> snd) cjs \<and>
     out w' = out w @ map (\<lambda>(c, cj). \<lparr>ar_childJob = cj, ar_messages = built_ok B keys c\<rparr>) cjs"
  using assms(3)
proof (induction cjs arbitrary: j w)
  case (Cons p cjs)
  obtain c cj where p: "p = (c, cj)" by (cases p)
  obtain s' where pm: "be_pmap B (be_numCPU B) (build_task P (be_buildMessage B) keys) c (j_state j) =
      Some (Inr (map (built B keys) c), s')" using pmap_build[OF law] by blast
  define s2 where "s2 = (if built_ok B keys c \<noteq> []
      then snd (p_RemFailedMessageID P (map bres_MessageID (built_ok B keys c)) s') else s')"
  define j2 where "j2 = childJob_onStageCompleted cj (j\<lparr>j_state := s2\<rparr>)"
  obtain w1 where w1: "be_produce B \<lparr>ar_childJob = cj, ar_messages = built_ok B keys c\<rparr> w = (None, w1)"
    "out w1 = out w @ [\<lparr>ar_childJob = cj, ar_messages = built_ok B keys c\<rparr>]" using prod by blast
  have eq: "build_chunks B P keys (p # cjs) j w = build_chunks B P keys cjs j2 w1"
    using Cons.prems pm w1(1) unfolding p j2_def s2_def built_ok_def
    by (simp add: checkCancelled_def Let_def)
  have j2: "\<not> j_cancelled j2" "j_sent j2 = j_sent j" "j_progress j2 = j_progress j @ [messageCount cj]"
    using Cons.prems by (simp_all add: j2_def childJob_onStageCompleted_def Job_onStageCompleted_def)
  obtain j' w' where "build_chunks B P keys cjs j2 w1 = Some (None, j', w')" "\<not> j_cancelled j'"
    "j_sent j' = j_sent j2" "j_progress j' = j_progress j2 @ map (messageCount \<circ> snd) cjs"
    "out w' = out w1 @ map (\<lambda>(c, cj). \<lparr>ar_childJob = cj, ar_messages = built_ok B keys c\<rparr>) cjs"
    using Cons.IH[OF j2(1), of w1] by blast
  then show ?case unfolding eq using j2 w1(2) p by (intro exI[of _ j'] exI[of _ w']) simp
qed simp

subsection \<open>Properties\<close>

text \<open>
  The chunks of a batch are the batch cut at some places: together they are the
  batch in its order, none is empty, and each is a single message or stays below the
  memory bound.
\<close>

theorem chunkSyncBuilderBatch_partition:
  "concat (chunkSyncBuilderBatch batch maxMemory) = batch \<and> [] \<notin> set (chunkSyncBuilderBatch batch maxMemory) \<and>
   list_all (\<lambda>c. length c = 1 \<or> sum_list (map build_size c) < maxMemory) (chunkSyncBuilderBatch batch maxMemory)"
  using chunkSyncBuilderBatch_props[of batch maxMemory] by (auto simp: chunk_ok_def list_all_iff)

text \<open>
  Property C28. When the keys can be unlocked and the next stage takes what it is given, the build
  stage hands over one apply request per chunk, which together hold, in order, exactly the
  messages that could be built; a message that cannot be built neither stops the stage nor
  removes another. The stage never panics on the division of the job. The waiter learns of
  one more task for every request beyond the first, and the last request carries the last
  message ID of the job that was divided.
\<close>

theorem build_stage_complete:
  assumes law: "pmap_law (be_pmap B)" and prod: "\<forall>r w. \<exists>w'. be_produce B r w = (None, w') \<and> out w' = out w @ [r]"
    and keys: "be_withKeys B w = (Inr keys, w1)" and "br_batch req \<noteq> []" and "\<not> j_cancelled j"
  shows "\<exists>j' w' reqs. BuildStage_one B P maxMem req j w = Some (j', w') \<and> out w' = out w1 @ reqs \<and>
     concat (map ar_messages reqs) = built_ok B keys (br_batch req) \<and>
     length reqs = length (chunkSyncBuilderBatch (br_batch req) maxMem) \<and>
     pending (j_sent j') = pending (j_sent j) + int (length reqs) - 1 \<and>
     lastMessageID (ar_childJob (last reqs)) = lastMessageID (br_childJob req)"
proof -
  let ?cs = "chunkSyncBuilderBatch (br_batch req) maxMem"
  obtain j2 js where d: "chunkDivide ?cs (br_childJob req) j = Some (j2, js)" "length js = length ?cs"
    "pending (j_sent j2) = pending (j_sent j) + int (length ?cs) - 1"
    "lastMessageID (last js) = lastMessageID (br_childJob req)" "j_cancelled j2 = j_cancelled j"
    using chunkDivide_spec[OF chunks_not_empty[OF assms(4)], of maxMem "br_childJob req" j] by blast
  have nc: "\<not> j_cancelled j2" using d(5) assms(5) by simp
  let ?reqs = "map (\<lambda>(c, cj). \<lparr>ar_childJob = cj, ar_messages = built_ok B keys c\<rparr>) (zip ?cs js)"
  obtain j3 w3 where b: "build_chunks B P keys (zip ?cs js) j2 w1 = Some (None, j3, w3)" "j_sent j3 = j_sent j2"
    "out w3 = out w1 @ ?reqs"
    using build_chunks_all[OF law prod nc, of P keys "zip ?cs js" w1] by blast
  have run: "BuildStage_one B P maxMem req j w = Some (j3, w3)"
    using assms(4,5) keys d(1) b(1) by (simp add: BuildStage_one_def checkCancelled_def Let_def)
  have "map ar_messages ?reqs = map (built_ok B keys) ?cs"
    using d(2) by (simp add: list_eq_iff_nth_eq)
  then have "concat (map ar_messages ?reqs) = built_ok B keys (concat ?cs)"
    by (simp only: built_ok_concat)
  moreover have "lastMessageID (ar_childJob (last ?reqs)) = lastMessageID (br_childJob req)"
  proof -
    have "?cs \<noteq> []" by (rule chunks_not_empty(1)[OF assms(4)])
    moreover from this d(2) have "js \<noteq> []" by auto
    ultimately have "last (zip ?cs js) = (last ?cs, last js)" "zip ?cs js \<noteq> []"
      using d(2) by (simp_all add: last_zip)
    then show ?thesis using d(4) by (simp add: last_map)
  qed
  ultimately show ?thesis
    using run b d(2,3) chunkSyncBuilderBatch_props[of "br_batch req" maxMem]
    by (intro exI[of _ j3] exI[of _ w3] exI[of _ ?reqs]) simp
qed

text \<open>Two messages, one for an address whose key ring is not unlocked.\<close>

definition ex_build_env :: "(unit, string, unit, string ApplyRequest list, unit) build_env" where
  "ex_build_env =
     \<lparr>be_withKeys = (\<lambda>w. (Inr [''addr'' \<mapsto> ()], w)),
      be_buildMessage = (\<lambda>msg _. Inr \<lparr>bres_AddressID = ''addr'', bres_MessageID = fm_ID msg, bres_Update = Some (fm_ID msg)\<rparr>),
      be_numCPU = 4, be_pmap = seq_pmap, be_produce = (\<lambda>r w. (None, w @ [r]))\<rparr>"

definition ex_build_request :: BuildRequest where
  "ex_build_request = \<lparr>br_childJob = ex_child,
     br_batch = [(ex_msg ''m1'')\<lparr>fm_Message := (fm_Message (ex_msg ''m1''))\<lparr>m_AddressID := ''locked''\<rparr>\<rparr>, ex_msg ''m3'']\<rparr>"

theorem build_stage_complete_witness:
  "\<exists>j' reqs. BuildStage_one ex_build_env ex_state 1 ex_build_request ex_job [] = Some (j', reqs) \<and>
     map bres_MessageID (concat (map ar_messages reqs)) = [''m3''] \<and>
     pending (j_sent j') = int (length reqs) \<and> lastMessageID (ar_childJob (last reqs)) = ''m3''"
proof -
  have env: "pmap_law (be_pmap ex_build_env)"
    "\<forall>r w. \<exists>w'. be_produce ex_build_env r w = (None, w') \<and> id w' = id w @ [r]"
    "be_withKeys ex_build_env [] = (Inr [''addr'' \<mapsto> ()], [])"
    by (simp_all add: ex_build_env_def seq_pmap_law)
  have req: "br_batch ex_build_request \<noteq> []" "\<not> j_cancelled ex_job" "pending (j_sent ex_job) = 1"
    by (simp_all add: ex_build_request_def ex_job_def pending_def)
  have built: "map bres_MessageID (built_ok ex_build_env [''addr'' \<mapsto> ()] (br_batch ex_build_request)) = [''m3'']"
    by (simp add: built_ok_def built_def ex_build_env_def ex_build_request_def ex_msg_def empty_BuildResult_def)
  show ?thesis
    using build_stage_complete[OF env req(1,2), where P = ex_state and maxMem = 1] built req(3)
    by (auto simp: ex_build_request_def ex_child_def)
qed

end
