(* ===== verification/Sync_Limits.thy ===== *)
theory Sync_Limits
  imports Bridge_Prelude
begin

section \<open>Memory limits of the sync service\<close>

text \<open>
  Models \<^verbatim>\<open>internal/services/syncservice/limits.go\<close> at 64-bit width. The size of the system's memory
  and the presence of the environment variable are parameters.
\<close>

definition Kilobyte :: uint64 where "Kilobyte = 1024"
definition Megabyte :: uint64 where "Megabyte = 1024 * Kilobyte"
definition Gigabyte :: uint64 where "Gigabyte = 1024 * Megabyte"

record syncLimits =
  MaxDownloadRequestMem :: uint64
  MinDownloadRequestMem :: uint64
  MaxMessageBuildingMem :: uint64
  MinMessageBuildingMem :: uint64
  MaxSyncMemory :: uint64
  MaxParallelDownloads :: int
  DownloadRequestMem :: uint64
  MessageBuildMem :: uint64

definition default_limits :: "uint64 \<Rightarrow> syncLimits" where
  "default_limits maxSyncMemory =
     \<lparr>MaxDownloadRequestMem = 128 * Megabyte, MinDownloadRequestMem = 40 * Megabyte,
      MaxMessageBuildingMem = 128 * Megabyte, MinMessageBuildingMem = 64 * Megabyte,
      MaxSyncMemory = maxSyncMemory, MaxParallelDownloads = 32, DownloadRequestMem = 0, MessageBuildMem = 0\<rparr>"

definition force_minimum :: "bool \<Rightarrow> syncLimits \<Rightarrow> syncLimits" where
  "force_minimum forced l =
     (if forced
      then l\<lparr>MaxDownloadRequestMem := 50 * Megabyte, MaxMessageBuildingMem := 80 * Megabyte,
             MaxParallelDownloads := 2, MaxSyncMemory := 800 * Megabyte\<rparr>
      else l)"

definition clamp_memory :: "uint64 \<Rightarrow> syncLimits \<Rightarrow> syncLimits" where
  "clamp_memory totalMemory l =
     (let l1 = (if MaxSyncMemory l \<ge> totalMemory div 2 then l\<lparr>MaxSyncMemory := totalMemory div 2\<rparr> else l)
      in if MaxSyncMemory l1 < 800 * Megabyte then l1\<lparr>MaxSyncMemory := 800 * Megabyte\<rparr> else l1)"

definition request_memory :: "syncLimits \<Rightarrow> syncLimits" where
  "request_memory l =
     (if MaxSyncMemory l < 2 * Gigabyte
      then l\<lparr>DownloadRequestMem := MinDownloadRequestMem l, MessageBuildMem := MinMessageBuildingMem l\<rparr>
      else if MaxSyncMemory l = 2 * Gigabyte
      then l\<lparr>DownloadRequestMem := MaxDownloadRequestMem l, MessageBuildMem := MaxMessageBuildingMem l\<rparr>
      else let remainingMemory = (MaxSyncMemory l - 2 * Gigabyte) div 8
           in l\<lparr>DownloadRequestMem := MaxDownloadRequestMem l + remainingMemory,
                MessageBuildMem := MaxMessageBuildingMem l + remainingMemory\<rparr>)"

definition newSyncLimits :: "bool \<Rightarrow> uint64 \<Rightarrow> uint64 \<Rightarrow> syncLimits" where
  "newSyncLimits forced totalMemory maxSyncMemory =
     request_memory (clamp_memory totalMemory (force_minimum forced (default_limits maxSyncMemory)))"

lemmas limit_defs = newSyncLimits_def default_limits_def force_minimum_def clamp_memory_def request_memory_def

subsection \<open>Bounds\<close>

lemma units: "Megabyte = 1048576" "Gigabyte = 1073741824"
  by (simp_all add: Megabyte_def Gigabyte_def Kilobyte_def)

lemma word_le_nat: "(a :: 'a::len word) \<le> b \<longleftrightarrow> unat a \<le> unat b"
  by (rule word_le_nat_alt)

text \<open>The limit after clamping, as a number.\<close>

definition clamped :: "nat \<Rightarrow> nat \<Rightarrow> nat" where
  "clamped tm m = max (800 * 1048576) (min m (tm div 2))"

lemma unat_clamp:
  "unat (MaxSyncMemory (clamp_memory t l)) = clamped (unat t) (unat (MaxSyncMemory l))"
  by (auto simp: clamp_memory_def clamped_def Let_def units word_le_nat word_less_nat_alt unat_div min_def max_def)

lemma clamp_keeps:
  "MaxDownloadRequestMem (clamp_memory t l) = MaxDownloadRequestMem l"
  "MinDownloadRequestMem (clamp_memory t l) = MinDownloadRequestMem l"
  "MaxMessageBuildingMem (clamp_memory t l) = MaxMessageBuildingMem l"
  "MinMessageBuildingMem (clamp_memory t l) = MinMessageBuildingMem l"
  "MaxParallelDownloads (clamp_memory t l) = MaxParallelDownloads l"
  by (simp_all add: clamp_memory_def Let_def)


end
