(* ===== verification/Sync_Handler.thy ===== *)
theory Sync_Handler
  imports Build_Stage Sync_Limits
begin

section \<open>The apply stage and the sync handler\<close>

text \<open>
  Models \<^verbatim>\<open>stage_apply.go\<close> and \<^verbatim>\<open>handler.go\<close> of \<^verbatim>\<open>internal/services/syncservice\<close>: the last stage, which
  applies the built messages and records the progress, and the handler that drives a whole
  sync. The update applier, the API, the regulator and the work the pipeline does on a
  job between its start and its end are parameters.
\<close>

subsection \<open>The apply stage\<close>

definition ApplyStage_one ::
  "('s, 'e) StateProvider \<Rightarrow> ('u BuildResult list \<Rightarrow> 'w \<Rightarrow> 'e svc_err option \<times> 'w) \<Rightarrow> 'u ApplyRequest \<Rightarrow>
     ('s, 'e) Job \<Rightarrow> 'w \<Rightarrow> ('s, 'e) Job \<times> 'w" where
  "ApplyStage_one P applySyncUpdates req j w =
     (case checkCancelled j of
        (j1, True) \<Rightarrow> (j1, w)
      | (j1, False) \<Rightarrow>
          if ar_messages req = [] then (childJob_onFinished P (ar_childJob req) j1, w)
          else (case applySyncUpdates (ar_messages req) w of
                  (Some e, w') \<Rightarrow> (Job_onError e j1, w')
                | (None, w') \<Rightarrow> (childJob_onFinished P (ar_childJob req) j1, w')))"

text \<open>The stage's loop over the requests it receives.\<close>

fun ApplyStage_run ::
  "('s, 'e) StateProvider \<Rightarrow> ('u BuildResult list \<Rightarrow> 'w \<Rightarrow> 'e svc_err option \<times> 'w) \<Rightarrow> 'u ApplyRequest list \<Rightarrow>
     ('s, 'e) Job \<Rightarrow> 'w \<Rightarrow> ('s, 'e) Job \<times> 'w" where
  "ApplyStage_run P applySyncUpdates [] j w = (j, w)"
| "ApplyStage_run P applySyncUpdates (req # reqs) j w =
     (case ApplyStage_one P applySyncUpdates req j w of (j', w') \<Rightarrow> ApplyStage_run P applySyncUpdates reqs j' w')"

subsection \<open>The handler\<close>

definition DefaultRetryCoolDown :: gotime where "DefaultRetryCoolDown = 20 * second"
definition NumSyncStages :: int64 where "NumSyncStages = 4"

record ('s, 'w, 'e) handler_env =
  he_P :: "('s, 'e) StateProvider"
  he_ctxErr :: "'w \<Rightarrow> ctx_error option"
  he_CheckAndReportConflicts :: "'w \<Rightarrow> 'e svc_err option \<times> 'w"
  he_SyncLabels :: "'w \<Rightarrow> 'e svc_err option \<times> 'w"
  he_GetGroupedMessageCount :: "'w \<Rightarrow> ('e svc_err + (string \<times> int64) list) \<times> 'w"
  he_retry :: "('w \<Rightarrow> ('e svc_err + (string \<times> int64) list) \<times> 'w) \<Rightarrow> 'w \<Rightarrow>
     (('e svc_err + (string \<times> int64) list) \<times> bool \<times> 'w) option"
  he_AllMailLabel :: string
  he_InitializeProgressCounter :: "int64 \<Rightarrow> int64 \<Rightarrow> 'w \<Rightarrow> 'w"
  he_regulatorSync :: "('s, 'e) Job \<Rightarrow> 'w \<Rightarrow> 'e svc_err option \<times> 'w"
  he_pipeline :: "('s, 'e) Job \<Rightarrow> 'w \<Rightarrow> 'e svc_err jw_event list \<times> ('s, 'e) Job \<times> 'w"

record 's Handler =
  h_state :: 's
  h_cache :: DownloadCache

text \<open>\<^verbatim>\<open>NewJob\<close>, with the two counters the handler sets.\<close>

definition NewJob :: "'s Handler \<Rightarrow> int64 \<Rightarrow> ('s, 'e) Job" where
  "NewJob h fetched =
     \<lparr>j_cancelled = False, j_sent = [], j_state = h_state h, j_progress = [], j_cache = h_cache h,
      j_metadataFetched = fetched\<rparr>"

definition run_labels ::
  "('s, 'w, 'e) handler_env \<Rightarrow> Status \<Rightarrow> 's Handler \<Rightarrow> 'w \<Rightarrow> 'e svc_err option \<times> 's Handler \<times> 'w" where
  "run_labels E st h w =
     (if HasLabels st then (None, h, w)
      else case he_SyncLabels E w of
             (Some e, w') \<Rightarrow> (Some e, h, w')
           | (None, w') \<Rightarrow>
               (case p_SetHasLabels (he_P E) True (h_state h) of
                  (Some e, s') \<Rightarrow> (Some (SState e), h\<lparr>h_state := s'\<rparr>, w')
                | (None, s') \<Rightarrow> (None, h\<lparr>h_state := s'\<rparr>, w')))"

definition all_mail_count :: "string \<Rightarrow> (string \<times> int64) list \<Rightarrow> int64" where
  "all_mail_count allMail counts =
     (case find (\<lambda>gc. fst gc = allMail) counts of None \<Rightarrow> 0 | Some gc \<Rightarrow> snd gc)"

definition run_count ::
  "('s, 'w, 'e) handler_env \<Rightarrow> Status \<Rightarrow> 's Handler \<Rightarrow> 'w \<Rightarrow>
     (('e svc_err + int64) \<times> 's Handler \<times> 'w) option" where
  "run_count E st h w =
     (if HasMessageCount st then Some (Inr (TotalMessageCount st), h, w)
      else case he_retry E (he_GetGroupedMessageCount E) w of
             None \<Rightarrow> None
           | Some (Inl e, b, w') \<Rightarrow> Some (Inl e, h, w')
           | Some (Inr counts, b, w') \<Rightarrow>
               (let n = all_mail_count (he_AllMailLabel E) counts in
                case p_SetMessageCount (he_P E) n (h_state h) of
                  (Some e, s') \<Rightarrow> Some (Inl (SState e), h\<lparr>h_state := s'\<rparr>, w')
                | (None, s') \<Rightarrow> Some (Inr n, h\<lparr>h_state := s'\<rparr>, w')))"

text \<open>
  A job the regulator refuses has one task, its own, which \<open>onError\<close> finishes; what
  \<open>waitAndClose\<close> reports then is dropped.
\<close>

definition run_messages ::
  "('s, 'w, 'e) handler_env \<Rightarrow> Status \<Rightarrow> 's Handler \<Rightarrow> 'w \<Rightarrow>
     ('e svc_err option \<times> 's Handler \<times> 'w) option" where
  "run_messages E st h w =
     (if HasMessages st then Some (None, h, w)
      else let job = NewJob h (NumSyncedMessages st) in
           case he_regulatorSync E job w of
             (Some e, w') \<Rightarrow>
               (case waitAndClose (he_ctxErr E w') (map JwMessage (j_sent (Job_onError e job))) of
                  None \<Rightarrow> None
                | Some _ \<Rightarrow> Some (Some e, h, w'))
           | (None, w') \<Rightarrow>
               (case he_pipeline E job w' of
                  (evs, job', w2) \<Rightarrow>
                    (let h' = h\<lparr>h_state := j_state job', h_cache := j_cache job'\<rparr> in
                     case waitAndClose (he_ctxErr E w2) evs of
                       None \<Rightarrow> None
                     | Some (Some e) \<Rightarrow> Some (Some e, h', w2)
                     | Some None \<Rightarrow>
                         (case p_SetHasMessages (he_P E) True (h_state h') of
                            (Some e, s') \<Rightarrow> Some (Some (SState e), h'\<lparr>h_state := s'\<rparr>, w2)
                          | (None, s') \<Rightarrow> Some (None, h'\<lparr>h_state := s'\<rparr>, w2)))))"

definition Handler_run ::
  "('s, 'w, 'e) handler_env \<Rightarrow> 's Handler \<Rightarrow> 'w \<Rightarrow> ('e svc_err option \<times> 's Handler \<times> 'w) option" where
  "Handler_run E h w =
     (case p_GetSyncStatus (he_P E) (h_state h) of
        Inl e \<Rightarrow> Some (Some (SState e), h, w)
      | Inr st \<Rightarrow>
          if IsComplete st
          then (case he_SyncLabels E w of (err, w') \<Rightarrow> Some (err, h, w'))
          else (case run_labels E st h w of
                  (Some e, h1, w1) \<Rightarrow> Some (Some e, h1, w1)
                | (None, h1, w1) \<Rightarrow>
                    (case run_count E st h1 w1 of
                       None \<Rightarrow> None
                     | Some (Inl e, h2, w2) \<Rightarrow> Some (Some e, h2, w2)
                     | Some (Inr n, h2, w2) \<Rightarrow>
                         run_messages E st h2
                           (he_InitializeProgressCounter E (NumSyncedMessages st * NumSyncStages)
                              (n * NumSyncStages) w2))))"

text \<open>
  \<open>Execute\<close>: the goroutine. What it tells the reporter, whether it reported to Sentry, and
  the value it sends on \<^verbatim>\<open>syncFinishedCh\<close> unless the context ended. \<open>isLabelConflict\<close> is
  \<^verbatim>\<open>db.IsUniqueLabelConstraintError\<close>. The error of the conflict check is only logged.
\<close>

datatype 'e sync_event =
    OnStart
  | OnError "'e svc_err"
  | OnFinished
  | ReportLabelConflict "'e svc_err"
  | ReportFailure "'e svc_err"
  | SyncFinished "'e svc_err option"

definition sentry_report :: "('e svc_err \<Rightarrow> bool) \<Rightarrow> 'e svc_err \<Rightarrow> 'e sync_event list" where
  "sentry_report isLabelConflict e =
     (if isLabelConflict e then [ReportLabelConflict e]
      else if e \<noteq> SCtx Canceled then [ReportFailure e] else [])"

partial_function (option) Execute_loop ::
  "('s, 'w, 'e) handler_env \<Rightarrow> ('e svc_err \<Rightarrow> bool) \<Rightarrow> (gotime \<Rightarrow> 'w \<Rightarrow> 'w) \<Rightarrow> gotime \<Rightarrow>
     'e sync_event list \<Rightarrow> 's Handler \<Rightarrow> 'w \<Rightarrow>
     ('e svc_err option \<times> 'e sync_event list \<times> 's Handler \<times> 'w) option" where
  "Execute_loop E isLC sleep coolDown evs h w =
     (case he_ctxErr E w of
        Some c \<Rightarrow> Some (Some (SCtx c), evs, h, w)
      | None \<Rightarrow>
          (case Handler_run E h w of
             None \<Rightarrow> None
           | Some (Some e, h', w') \<Rightarrow>
               Execute_loop E isLC sleep coolDown (evs @ sentry_report isLC e) h' (sleep coolDown w')
           | Some (None, h', w') \<Rightarrow> Some (None, evs, h', w')))"

definition Execute ::
  "('s, 'w, 'e) handler_env \<Rightarrow> ('e svc_err \<Rightarrow> bool) \<Rightarrow> (gotime \<Rightarrow> 'w \<Rightarrow> 'w) \<Rightarrow> gotime \<Rightarrow>
     's Handler \<Rightarrow> 'w \<Rightarrow> ('e sync_event list \<times> 's Handler \<times> 'w) option" where
  "Execute E isLC sleep coolDown h w =
     (case Execute_loop E isLC sleep coolDown [OnStart] h (snd (he_CheckAndReportConflicts E w)) of
        None \<Rightarrow> None
      | Some (err, evs, h', w') \<Rightarrow>
          Some (evs @ (case err of Some e \<Rightarrow> [OnError e] | None \<Rightarrow> [OnFinished]) @
                  (if he_ctxErr E w' \<noteq> None then [] else [SyncFinished err]), h', w'))"

subsection \<open>What the handler records\<close>

context state_provider
begin

lemma get_status_eq:
  assumes "p_GetSyncStatus P s = Inr st"
  shows "status_of s = st"
  using get_status[OF assms] by simp

lemma run_labels_ok:
  assumes "he_P E = P" and "run_labels E (status_of (h_state h)) h w = (None, h', w')"
  shows "HasLabels (status_of (h_state h')) \<and>
     HasMessages (status_of (h_state h')) = HasMessages (status_of (h_state h))"
  using assms set_has_labels[of True "h_state h"]
  by (auto simp: run_labels_def split: if_splits prod.splits option.splits)

lemma run_count_ok:
  assumes "he_P E = P" and "run_count E st h w = Some (Inr n, h', w')"
  shows "HasLabels (status_of (h_state h')) = HasLabels (status_of (h_state h)) \<and>
     HasMessages (status_of (h_state h')) = HasMessages (status_of (h_state h))"
  using assms set_message_count
  by (auto simp: run_count_def Let_def split: if_splits prod.splits option.splits sum.splits)

lemma run_messages_ok:
  assumes "he_P E = P" and "run_messages E st h w = Some (None, h', w')"
    and "HasMessages st \<Longrightarrow> HasMessages (status_of (h_state h))"
    and pipe: "\<And>j w evs j' w'. he_pipeline E j w = (evs, j', w') \<Longrightarrow>
      HasLabels (status_of (j_state j')) = HasLabels (status_of (j_state j))"
  shows "HasLabels (status_of (h_state h')) = HasLabels (status_of (h_state h)) \<and>
     HasMessages (status_of (h_state h'))"
proof (cases "HasMessages st")
  case True
  then show ?thesis using assms(2,3) by (simp add: run_messages_def)
next
  case False
  let ?job = "NewJob h (NumSyncedMessages st)"
  obtain w1 where w1: "he_regulatorSync E ?job w = (None, w1)"
    using assms(2) False by (auto simp: run_messages_def Let_def split: prod.splits option.splits)
  obtain evs job' w2 where p: "he_pipeline E ?job w1 = (evs, job', w2)" by (metis prod_cases3)
  obtain s' where s': "p_SetHasMessages P True (j_state job') = (None, s')" "h_state h' = s'"
    using assms(1,2) False w1 p by (auto simp: run_messages_def Let_def split: prod.splits option.splits)
  have "HasLabels (status_of (j_state job')) = HasLabels (status_of (h_state h))"
    using pipe[OF p] by (simp add: NewJob_def)
  then show ?thesis using set_has_messages[OF s'(1)] s'(2) by simp
qed

lemma run_complete:
  assumes "he_P E = P" and "Handler_run E h w = Some (None, h', w')"
    and pipe: "\<And>j w evs j' w'. he_pipeline E j w = (evs, j', w') \<Longrightarrow>
      HasLabels (status_of (j_state j')) = HasLabels (status_of (j_state j))"
  shows "IsComplete (status_of (h_state h'))"
proof -
  obtain st where st: "p_GetSyncStatus P (h_state h) = Inr st"
    using assms(1,2) by (cases "p_GetSyncStatus P (h_state h)") (auto simp: Handler_run_def)
  note so = get_status_eq[OF st]
  show ?thesis
  proof (cases "IsComplete st")
    case True
    then have "h' = h" using assms(1,2) st by (auto simp: Handler_run_def split: prod.splits)
    then show ?thesis using True so by simp
  next
    case False
    obtain h1 w1 where l: "run_labels E st h w = (None, h1, w1)"
      using assms(1,2) st False by (auto simp: Handler_run_def split: prod.splits option.splits)
    obtain n h2 w2 where c: "run_count E st h1 w1 = Some (Inr n, h2, w2)"
      using assms(1,2) st False l by (auto simp: Handler_run_def split: prod.splits option.splits sum.splits)
    have "run_messages E st h2 (he_InitializeProgressCounter E (NumSyncedMessages st * NumSyncStages)
        (n * NumSyncStages) w2) = Some (None, h', w')"
      using assms(1,2) st False l c by (simp add: Handler_run_def)
    from run_messages_ok[OF assms(1) this _ pipe] show ?thesis
      using run_labels_ok[of E h w h1 w1] run_count_ok[OF assms(1) c] assms(1) l so
      by (simp add: IsComplete_def)
  qed
qed

lemma ApplyStage_run_ok:
  assumes app: "\<And>ms w. \<exists>w'. applySyncUpdates ms w = (None, w')"
    and prov: "\<And>mid n s. ok s \<Longrightarrow> \<exists>s'. p_SetLastMessageID P mid n s = (None, s') \<and> ok s'"
    and "ok (j_state j)" and "\<not> j_cancelled j"
  shows "\<exists>j' w'. ApplyStage_run P applySyncUpdates reqs j w = (j', w') \<and> ok (j_state j') \<and> \<not> j_cancelled j' \<and>
     j_sent j' = j_sent j @ replicate (length reqs) (JobWaiterMessageFinished, None) \<and>
     status_of (j_state j') =
       (if reqs = [] then status_of (j_state j)
        else (status_of (j_state j))\<lparr>LastSyncedMessageID := lastMessageID (ar_childJob (last reqs)),
          NumSyncedMessages := NumSyncedMessages (status_of (j_state j)) +
            sum_list (map (messageCount \<circ> ar_childJob) reqs)\<rparr>)"
  using assms(3,4)
proof (induction reqs arbitrary: j w)
  case (Cons r reqs)
  let ?c = "ar_childJob r"
  obtain s1 where s1: "p_SetLastMessageID P (lastMessageID ?c) (messageCount ?c) (j_state j) = (None, s1)" "ok s1"
    using prov[OF Cons.prems(1)] by blast
  define j1 where "j1 = childJob_onFinished P ?c j"
  have j1: "j_state j1 = s1" "\<not> j_cancelled j1" "j_sent j1 = j_sent j @ [(JobWaiterMessageFinished, None)]"
    using s1(1) Cons.prems(2)
    by (simp_all add: j1_def childJob_onFinished_def onJobFinished_def onTaskFinished_def
        Job_onStageCompleted_def Let_def)
  obtain w1 where one: "ApplyStage_one P applySyncUpdates r j w = (j1, w1)"
    using app[of "ar_messages r" w] Cons.prems(2)
    by (cases "ar_messages r = []") (auto simp: ApplyStage_one_def checkCancelled_def j1_def)
  have ok1: "ok (j_state j1)" using j1(1) s1(2) by simp
  obtain j' w' where IH: "ApplyStage_run P applySyncUpdates reqs j1 w1 = (j', w')" "ok (j_state j')" "\<not> j_cancelled j'"
    "j_sent j' = j_sent j1 @ replicate (length reqs) (JobWaiterMessageFinished, None)"
    "status_of (j_state j') =
       (if reqs = [] then status_of (j_state j1)
        else (status_of (j_state j1))\<lparr>LastSyncedMessageID := lastMessageID (ar_childJob (last reqs)),
          NumSyncedMessages := NumSyncedMessages (status_of (j_state j1)) +
            sum_list (map (messageCount \<circ> ar_childJob) reqs)\<rparr>)"
    using Cons.IH[OF ok1 j1(2)] by blast
  have st: "status_of (j_state j1) = (status_of (j_state j))\<lparr>LastSyncedMessageID := lastMessageID ?c,
      NumSyncedMessages := NumSyncedMessages (status_of (j_state j)) + messageCount ?c\<rparr>"
    using set_last_message[OF s1(1)] j1(1) by simp
  have "ApplyStage_run P applySyncUpdates (r # reqs) j w = (j', w')" using one IH(1) by simp
  then show ?case using IH(2-) j1(3) st by (intro exI[of _ j'] exI[of _ w']) (simp add: add.assoc)
qed simp

end

subsection \<open>The retry loop of \<open>Execute\<close>\<close>

lemma Execute_loop_step:
  assumes "he_ctxErr E w = None" and "Handler_run E h w = Some (err, h', w')"
  shows "Execute_loop E isLC sleep cd evs h w =
     (case err of None \<Rightarrow> Some (None, evs, h', w')
      | Some e \<Rightarrow> Execute_loop E isLC sleep cd (evs @ sentry_report isLC e) h' (sleep cd w'))"
  by (subst Execute_loop.simps) (simp add: assms split: option.splits)

lemma Execute_loop_eventually:
  fixes left :: "'s Handler \<Rightarrow> 'w \<Rightarrow> nat"
  assumes ctx: "\<forall>w. he_ctxErr E w = None"
    and run: "\<forall>h w. I h w \<longrightarrow> (\<exists>err h' w'. Handler_run E h w = Some (err, h', w') \<and>
      (err \<noteq> None \<longrightarrow> I h' (sleep cd w') \<and> left h' (sleep cd w') < left h w))"
    and "I h w"
  shows "\<exists>evs' h0 w0 h' w'. Execute_loop E isLC sleep cd evs h w = Some (None, evs @ evs', h', w') \<and>
     Handler_run E h0 w0 = Some (None, h', w') \<and> (\<forall>ev \<in> set evs'. \<exists>e. ev = ReportLabelConflict e \<or> ev = ReportFailure e)"
  using assms(3)
proof (induction "left h w" arbitrary: w h evs rule: less_induct)
  case less
  obtain err h1 w1 where r: "Handler_run E h w = Some (err, h1, w1)"
    "err \<noteq> None \<longrightarrow> I h1 (sleep cd w1) \<and> left h1 (sleep cd w1) < left h w"
    using run less.prems by blast
  note step = Execute_loop_step[OF ctx[rule_format] r(1), of isLC sleep cd evs]
  show ?case
  proof (cases err)
    case None
    then show ?thesis using step r(1) by (intro exI[of _ "[]"]) auto
  next
    case (Some e)
    then have "left h1 (sleep cd w1) < left h w" "I h1 (sleep cd w1)" using r(2) by simp_all
    from less.hyps[OF this, of "evs @ sentry_report isLC e"] obtain evs' h0 w0 h' w' where IH:
      "Execute_loop E isLC sleep cd (evs @ sentry_report isLC e) h1 (sleep cd w1) =
         Some (None, (evs @ sentry_report isLC e) @ evs', h', w')" "Handler_run E h0 w0 = Some (None, h', w')"
      "\<forall>ev \<in> set evs'. \<exists>e. ev = ReportLabelConflict e \<or> ev = ReportFailure e" by blast
    have "\<forall>ev \<in> set (sentry_report isLC e). \<exists>e. ev = ReportLabelConflict e \<or> ev = ReportFailure e"
      by (simp add: sentry_report_def)
    then have all: "\<forall>ev \<in> set (sentry_report isLC e @ evs'). \<exists>e. ev = ReportLabelConflict e \<or> ev = ReportFailure e"
      using IH(3) by auto
    have "Execute_loop E isLC sleep cd evs h w = Some (None, evs @ (sentry_report isLC e @ evs'), h', w')"
      using step Some IH(1) by simp
    then show ?thesis using IH(2) all by blast
  qed
qed

subsection \<open>Properties\<close>


text \<open>A handler environment: the first attempt of a sync job fails with 503, the next succeeds.\<close>

definition ex_handler_env :: "(sync_world, nat, sync_err) handler_env" where
  "ex_handler_env =
     \<lparr>he_P = SyncState_provider, he_ctxErr = (\<lambda>_. None), he_CheckAndReportConflicts = (\<lambda>w. (None, w)),
      he_SyncLabels = (\<lambda>w. (None, w)), he_GetGroupedMessageCount = (\<lambda>w. (Inr [(''0'', 1), (''5'', 7)], w)),
      he_retry = (\<lambda>f w. RetryWithClient (ExpCoolDown_GetNextWaitTime 0) ExpCoolDown_Reset (\<lambda>t w. w) f \<lparr>count = 0\<rparr> w),
      he_AllMailLabel = ''5'', he_InitializeProgressCounter = (\<lambda>_ _ w. w), he_regulatorSync = (\<lambda>_ w. (None, w)),
      he_pipeline = (\<lambda>j w.
        ([JwMessage (JobWaiterMessageFinished, if w = 0 then Some (SApi 503) else None)], j, Suc w))\<rparr>"

definition ex_handler :: "sync_world Handler" where
  "ex_handler = \<lparr>h_state = ex_world [], h_cache = newDownloadCache\<rparr>"

lemmas ex_handler_defs = ex_handler_env_def ex_handler_def ex_world_def ex_disk_def Handler_run_def
  run_labels_def run_count_def run_messages_def NewJob_def SyncState_provider_def sync_state_defs
  storeImpl_def next_fault_def DefaultStatus_def IsComplete_def waitAndClose_def jobWaiter_begin_def
  all_mail_count_def RetryWithClient_Inr



lemma ex_run_returns:
  assumes "faults (snd (h_state h)) = []"
  shows "\<exists>err h' w'. Handler_run ex_handler_env h w = Some (err, h', w') \<and>
     (err \<noteq> None \<longrightarrow> faults (snd (h_state h')) = [] \<and> 1 - w' < 1 - w)"
proof -
  obtain p st d c where h: "h = \<lparr>h_state = (\<lparr>filePath = p, status = st\<rparr>, d), h_cache = c\<rparr>"
    by (metis Handler.surjective SyncState.surjective old.unit.exhaust prod.exhaust)
  show ?thesis using assms unfolding h
    by (cases "HasLabels st"; cases "HasMessages st"; cases "HasMessageCount st"; cases "w = 0")
      (simp_all add: ex_handler_defs)
qed


text \<open>
  The apply stage over the provider that keeps a file, while stores do not fail and the
  updates are applied: every request ends its task without error, and afterwards the
  last synced message is the one of the last request and the number of synced messages
  has grown by the counts of all requests.
\<close>

theorem apply_stage_progress:
  assumes "\<And>ms w. \<exists>w'. applySyncUpdates ms w = (None, w')"
    and "faults (snd (j_state j)) = []" and "\<not> j_cancelled j" and "reqs \<noteq> []"
  shows "\<exists>j' w'. ApplyStage_run SyncState_provider applySyncUpdates reqs j w = (j', w') \<and>
     pending (j_sent j') = pending (j_sent j) - int (length reqs) \<and>
     first_err (drop (length (j_sent j)) (j_sent j')) = None \<and>
     status (fst (j_state j')) = (status (fst (j_state j)))\<lparr>
       LastSyncedMessageID := lastMessageID (ar_childJob (last reqs)),
       NumSyncedMessages := NumSyncedMessages (status (fst (j_state j))) +
         sum_list (map (messageCount \<circ> ar_childJob) reqs)\<rparr>"
proof -
  let ?ok = "\<lambda>s. faults (snd s) = []"
  have prov: "\<exists>s'. p_SetLastMessageID SyncState_provider mid n s = (None, s') \<and> ?ok s'" if "?ok s" for mid n s
    using that by (cases s) (simp add: SyncState_provider_def sync_state_defs storeImpl_def next_fault_def Let_def)
  obtain j' w' where r: "ApplyStage_run SyncState_provider applySyncUpdates reqs j w = (j', w')"
    "j_sent j' = j_sent j @ replicate (length reqs) (JobWaiterMessageFinished, None)"
    "status (fst (j_state j')) = (if reqs = [] then status (fst (j_state j))
        else (status (fst (j_state j)))\<lparr>LastSyncedMessageID := lastMessageID (ar_childJob (last reqs)),
          NumSyncedMessages := NumSyncedMessages (status (fst (j_state j))) +
            sum_list (map (messageCount \<circ> ar_childJob) reqs)\<rparr>)"
    using ssp.ApplyStage_run_ok[of applySyncUpdates ?ok j reqs w, OF assms(1) prov assms(2,3)] by blast
  have "pending (j_sent j') = pending (j_sent j) - int (length reqs)"
    using r(2) by (simp add: pending_append sum_list_replicate)
  moreover have "first_err (replicate n (JobWaiterMessageFinished, None :: sync_err svc_err option)) = None" for n
    by (induction n) (simp_all add: first_err_Cons)
  ultimately show ?thesis using r assms(4) by (intro exI[of _ j'] exI[of _ w']) simp
qed

definition ex_apply_request :: "string \<Rightarrow> string ApplyRequest" where
  "ex_apply_request i = \<lparr>ar_childJob = ex_child\<lparr>lastMessageID := i\<rparr>,
     ar_messages = [\<lparr>bres_AddressID = ''addr'', bres_MessageID = i, bres_Update = Some i\<rparr>]\<rparr>"

theorem apply_stage_progress_witness:
  "\<exists>j' w'. ApplyStage_run SyncState_provider (\<lambda>ms w. (None, w @ ms)) [ex_apply_request ''m2'', ex_apply_request ''m1'']
       (NewJob ex_handler 0) [] = (j', w') \<and>
     pending (j_sent j') = - 1 \<and> LastSyncedMessageID (status (fst (j_state j'))) = ''m1'' \<and>
     NumSyncedMessages (status (fst (j_state j'))) = 6"
proof -
  let ?j = "NewJob ex_handler 0 :: (sync_world, sync_err) Job"
  have job: "faults (snd (j_state ?j)) = []" "\<not> j_cancelled ?j"
    "pending (j_sent ?j) = 1" "status (fst (j_state ?j)) = DefaultStatus"
    by (simp_all add: NewJob_def ex_handler_def ex_world_def ex_disk_def pending_def)
  have app: "\<exists>w'. (None :: sync_err svc_err option, w @ ms) = (None, w')" for ms w :: "string BuildResult list"
    by simp
  show ?thesis
    using apply_stage_progress[of "\<lambda>ms w. (None, w @ ms)", OF app job(1,2),
        of "[ex_apply_request ''m2'', ex_apply_request ''m1'']" "[]"] job(3,4)
    by (auto simp: ex_apply_request_def ex_child_def DefaultStatus_def)
qed

text \<open>
  If recording the end of a sync fails, the next run nevertheless takes the sync as
  complete: the flag was set in memory before the store failed, so the run only updates
  the labels, writes nothing and succeeds if that does.
\<close>

theorem failed_completion_not_retried:
  assumes "he_P E = SyncState_provider" and "HasLabels (status (fst s))" and "SetHasMessages True s = (Some e, s')"
  shows "Handler_run E (h\<lparr>h_state := s'\<rparr>) w =
     (case he_SyncLabels E w of (err, w') \<Rightarrow> Some (err, h\<lparr>h_state := s'\<rparr>, w'))"
proof -
  have "status (fst s') = (status (fst s))\<lparr>HasMessages := True\<rparr>"
    using storeUnsafe_status[of _ "Some e" s'] assms(3) by (simp add: SetHasMessages_def)
  then show ?thesis using assms(1,2)
    by (simp add: Handler_run_def SyncState_provider_def GetSyncStatus_def IsComplete_def)
qed

theorem failed_completion_not_retried_witness:
  "\<exists>s s'. iter_err apply_op [DoHasLabels True] (ex_world [NoFault, RenameFault]) = (None, s) \<and>
     SetHasMessages True s = (Some ErrRename, s') \<and>
     Handler_run ex_handler_env (ex_handler\<lparr>h_state := s'\<rparr>) 1 = Some (None, ex_handler\<lparr>h_state := s'\<rparr>, 1) \<and>
     map_sum id (HasMessages \<circ> status) (NewSyncState False ''sync-u'' (snd s')) = Inr False"
proof -
  obtain s s' where s: "iter_err apply_op [DoHasLabels True] (ex_world [NoFault, RenameFault]) = (None, s)"
    "HasLabels (status (fst s))" "SetHasMessages True s = (Some ErrRename, s')"
    "map_sum id (HasMessages \<circ> status) (NewSyncState False ''sync-u'' (snd s')) = Inr False"
    by (simp add: ex_world_def ex_disk_def sync_state_defs storeImpl_def next_fault_def DefaultStatus_def
        NewSyncState_def loadUnsafe_def)
  have "he_P ex_handler_env = SyncState_provider" "he_SyncLabels ex_handler_env 1 = (None, 1)"
    by (simp_all add: ex_handler_env_def)
  then have "Handler_run ex_handler_env (ex_handler\<lparr>h_state := s'\<rparr>) 1 = Some (None, ex_handler\<lparr>h_state := s'\<rparr>, 1)"
    using s(2,3) failed_completion_not_retried[of ex_handler_env s ErrRename s' ex_handler 1] by simp
  then show ?thesis using s by blast
qed

end
