(* ===== verification/User_Events.thy ===== *)
theory User_Events
  imports Network_Retry
begin

section \<open>The event loop of a user\<close>

text \<open>
  Models \<^verbatim>\<open>internal/services/userevents\<close>: the loop that polls the API for events, publishes each to all
  subscribers and only then moves on, the classification of failures, pausing, the subscriber
  list and the handler that splits an event into its parts. The event source, the
  subscribers' handlers and the parallel publication are parameters over a world \<open>'w\<close>.
\<close>

unbundle bit_operations_syntax

subsection \<open>Event ID stores\<close>

text \<open>The interface \<^verbatim>\<open>EventIDStore\<close>: a stored ID is loaded again, a failed store changes nothing.\<close>

locale event_id_store =
  fixes load :: "'s \<Rightarrow> 'e svc_err + string"
    and store :: "string \<Rightarrow> 's \<Rightarrow> 'e svc_err option \<times> 's"
  assumes load_store: "store i s = (None, s') \<Longrightarrow> load s' = Inr i"
    and store_fails: "store i s = (Some e, s') \<Longrightarrow> load s' = load s"

definition InMemoryEventIDStore_Load :: "string \<Rightarrow> 'e + string" where
  "InMemoryEventIDStore_Load s = Inr s"

definition InMemoryEventIDStore_Store :: "string \<Rightarrow> string \<Rightarrow> 'e option \<times> string" where
  "InMemoryEventIDStore_Store i s = (None, i)"

interpretation mem_store: event_id_store InMemoryEventIDStore_Load InMemoryEventIDStore_Store
  by unfold_locales (auto simp: InMemoryEventIDStore_Load_def InMemoryEventIDStore_Store_def)

subsection \<open>Subscribers\<close>

text \<open>
  \<open>'sub\<close> are the subscribers by identity. \<open>closed\<close> collects the calls of \<^verbatim>\<open>close\<close>, which panics
  when it is called twice, and \<open>cancelled\<close> those of \<^verbatim>\<open>cancel\<close>, which starts a goroutine that answers the
  subscriber's events until its channel is closed.
\<close>

record 'sub subscriberList =
  subscribers :: "'sub list"
  closed :: "'sub list"
  cancelled :: "'sub list"

definition subscriberList_Add :: "'sub \<Rightarrow> 'sub subscriberList \<Rightarrow> 'sub subscriberList" where
  "subscriberList_Add sub l =
     (if sub \<in> set (subscribers l) then l else l\<lparr>subscribers := subscribers l @ [sub]\<rparr>)"

definition subscriberList_Remove :: "'sub \<Rightarrow> 'sub subscriberList \<Rightarrow> 'sub subscriberList" where
  "subscriberList_Remove sub l =
     (case index_of sub (subscribers l) of
        None \<Rightarrow> l
      | Some i \<Rightarrow> l\<lparr>closed := closed l @ [subscribers l ! i],
                    subscribers := take i (subscribers l) @ drop (Suc i) (subscribers l)\<rparr>)"

text \<open>The errors a handler can return, as far as the service tells them apart.\<close>

datatype handle_err =
    HCanceled
  | HNetError
  | HNetOpError
  | HJsonTypeError
  | HUnexpectedEOF
  | HApiError nat
  | HLabelConstraint
  | HOther string

type_synonym ('sub, 'ev, 'w) sub_handler = "'sub \<Rightarrow> 'ev \<Rightarrow> 'w \<Rightarrow> handle_err option \<times> 'w"

text \<open>An error of a publication names the subscriber it came from.\<close>

fun Publish_loop ::
  "('sub, 'ev, 'w) sub_handler \<Rightarrow> ('w \<Rightarrow> handle_err option) \<Rightarrow> 'ev \<Rightarrow> 'sub list \<Rightarrow> 'w \<Rightarrow>
     ('sub \<times> handle_err) option \<times> 'w" where
  "Publish_loop handle ctxErr event [] w = (None, w)"
| "Publish_loop handle ctxErr event (sub # subs) w =
     (case handle sub event w of
        (Some e, w') \<Rightarrow> (Some (sub, e), w')
      | (None, w') \<Rightarrow>
          (case ctxErr w' of
             Some e \<Rightarrow> (Some (sub, e), w')
           | None \<Rightarrow> Publish_loop handle ctxErr event subs w'))"

definition Publish ::
  "('sub, 'ev, 'w) sub_handler \<Rightarrow> ('w \<Rightarrow> handle_err option) \<Rightarrow> 'ev \<Rightarrow> 'sub subscriberList \<Rightarrow> 'w \<Rightarrow>
     ('sub \<times> handle_err) option \<times> 'w" where
  "Publish handle ctxErr event l w = Publish_loop handle ctxErr event (subscribers l) w"

text \<open>\<^verbatim>\<open>parallel.DoContext\<close> is a parameter: it runs the task of every subscriber.\<close>

type_synonym ('sub, 'w) do_context =
  "('sub \<Rightarrow> 'w \<Rightarrow> ('sub \<times> handle_err) option \<times> 'w) \<Rightarrow> 'sub list \<Rightarrow> 'w \<Rightarrow> ('sub \<times> handle_err) option \<times> 'w"

definition publish_task ::
  "('sub, 'ev, 'w) sub_handler \<Rightarrow> 'ev \<Rightarrow> 'sub \<Rightarrow> 'w \<Rightarrow> ('sub \<times> handle_err) option \<times> 'w" where
  "publish_task handle event sub w =
     (case handle sub event w of (Some e, w') \<Rightarrow> (Some (sub, e), w') | (None, w') \<Rightarrow> (None, w'))"

definition PublishParallel ::
  "('sub, 'ev, 'w) sub_handler \<Rightarrow> ('w \<Rightarrow> handle_err option) \<Rightarrow> ('sub, 'w) do_context \<Rightarrow> 'ev \<Rightarrow>
     'sub subscriberList \<Rightarrow> 'w \<Rightarrow> ('sub \<times> handle_err) option \<times> 'w" where
  "PublishParallel handle ctxErr doContext event l w =
     (if length (subscribers l) \<le> 1 then Publish handle ctxErr event l w
      else doContext (publish_task handle event) (subscribers l) w)"

subsection \<open>The service\<close>

datatype 'sub pendingSubscription = pendingOpAdd 'sub | pendingOpRemove 'sub

text \<open>What the service publishes on the bridge's event bus.\<close>

datatype bus_event =
    UserBadEvent string string handle_err
  | UncategorizedEventError handle_err
  | UserBadEventStore

record ('sub, 's) event_service =
  es_store :: 's
  es_lastEventID :: string
  es_paused :: bool
  es_subscriberList :: "'sub subscriberList"
  es_pending :: "'sub pendingSubscription list"
  es_waiters :: "nat list"
  es_closedWaiters :: "nat list"
  es_published :: "bus_event list"

definition Subscribe :: "'sub \<Rightarrow> ('sub, 's) event_service \<Rightarrow> ('sub, 's) event_service" where
  "Subscribe sub s = s\<lparr>es_pending := es_pending s @ [pendingOpAdd sub]\<rparr>"

definition Unsubscribe :: "'sub \<Rightarrow> ('sub, 's) event_service \<Rightarrow> ('sub, 's) event_service" where
  "Unsubscribe sub s =
     (let l = es_subscriberList s
      in s\<lparr>es_subscriberList := l\<lparr>cancelled := cancelled l @ [sub]\<rparr>,
           es_pending := es_pending s @ [pendingOpRemove sub]\<rparr>)"

definition Pause :: "('sub, 's) event_service \<Rightarrow> ('sub, 's) event_service" where
  "Pause s = s\<lparr>es_paused := True\<rparr>"

definition PauseWithWaiter :: "nat \<Rightarrow> ('sub, 's) event_service \<Rightarrow> ('sub, 's) event_service" where
  "PauseWithWaiter waiter s = (Pause s)\<lparr>es_waiters := es_waiters s @ [waiter]\<rparr>"

definition Resume :: "('sub, 's) event_service \<Rightarrow> ('sub, 's) event_service" where
  "Resume s = s\<lparr>es_paused := False\<rparr>"

definition closePollWaiters :: "('sub, 's) event_service \<Rightarrow> ('sub, 's) event_service" where
  "closePollWaiters s = s\<lparr>es_closedWaiters := es_closedWaiters s @ es_waiters s, es_waiters := []\<rparr>"

definition onBadEvent :: "bus_event \<Rightarrow> ('sub, 's) event_service \<Rightarrow> ('sub, 's) event_service" where
  "onBadEvent ev s = (Pause s)\<lparr>es_published := es_published s @ [ev]\<rparr>"

text \<open>
  \<open>handleEventError\<close>: transient failures are left for the next poll, a JSON error is announced,
  any other error pauses the loop and announces a bad event. The text it returns is only logged.
\<close>

definition handleEventError ::
  "string \<Rightarrow> string \<Rightarrow> handle_err \<Rightarrow> ('sub, 's) event_service \<Rightarrow> ('sub, 's) event_service" where
  "handleEventError lastEventID newEventID err s =
     (if err = HCanceled then s
      else if err = HNetError then s
      else if err = HNetOpError then s
      else if err = HJsonTypeError
      then s\<lparr>es_published := es_published s @ [UncategorizedEventError err]\<rparr>
      else if err = HUnexpectedEOF then s
      else case err of
             HApiError st \<Rightarrow>
               if st = 429 \<or> st \<ge> 500 then s else onBadEvent (UserBadEvent lastEventID newEventID err) s
           | _ \<Rightarrow> onBadEvent (UserBadEvent lastEventID newEventID err) s)"

record 'x Event =
  EventID :: string
  Refresh :: "8 word"
  ev_User :: "'x option"
  ev_UserSettings :: "'x option"
  ev_Addresses :: "'x list"
  ev_Labels :: "'x list"
  ev_Messages :: "'x list"
  ev_UsedSpace :: "int64 option"
  ev_Notifications :: "'x list"

fun applyPending :: "'sub pendingSubscription list \<Rightarrow> 'sub subscriberList \<Rightarrow> 'sub subscriberList" where
  "applyPending [] l = l"
| "applyPending (pendingOpAdd sub # ps) l = applyPending ps (subscriberList_Add sub l)"
| "applyPending (pendingOpRemove sub # ps) l = applyPending ps (subscriberList_Remove sub l)"

record ('x, 'sub, 's, 'w, 'e) event_env =
  ee_load :: "'s \<Rightarrow> 'e svc_err + string"
  ee_store :: "string \<Rightarrow> 's \<Rightarrow> 'e svc_err option \<times> 's"
  ee_GetLatestEventID :: "'w \<Rightarrow> ('e svc_err + string) \<times> 'w"
  ee_retryID :: "('w \<Rightarrow> ('e svc_err + string) \<times> 'w) \<Rightarrow> 'w \<Rightarrow> (('e svc_err + string) \<times> bool \<times> 'w) option"
  ee_GetEvent :: "string \<Rightarrow> 'w \<Rightarrow> ('e svc_err + 'x Event list) \<times> 'w"
  ee_retry :: "('w \<Rightarrow> ('e svc_err + 'x Event list) \<times> 'w) \<Rightarrow> 'w \<Rightarrow> (('e svc_err + 'x Event list) \<times> bool \<times> 'w) option"
  ee_handle :: "('sub, 'x Event, 'w) sub_handler"
  ee_ctxErr :: "'w \<Rightarrow> handle_err option"
  ee_doContext :: "('sub, 'w) do_context"

fun handle_events ::
  "('x, 'sub, 's, 'w, 'e) event_env \<Rightarrow> 'sub subscriberList \<Rightarrow> 'x Event list \<Rightarrow> 'w \<Rightarrow>
     ('x Event \<times> 'sub \<times> handle_err) option \<times> 'w" where
  "handle_events E l [] w = (None, w)"
| "handle_events E l (event # evs) w =
     (case PublishParallel (ee_handle E) (ee_ctxErr E) (ee_doContext E) event l w of
        (Some (sub, e), w') \<Rightarrow> (Some (event, sub, e), w')
      | (None, w') \<Rightarrow> handle_events E l evs w')"

text \<open>
  One round of the loop after the \<^verbatim>\<open>select\<close>. \<open>None\<close>: the retry never ends, or the index out of range
  of \<^verbatim>\<open>newEvents[len(newEvents)-1]\<close> when the source returns no event.
\<close>

definition poll ::
  "('x, 'sub, 's, 'w, 'e) event_env \<Rightarrow> ('sub, 's) event_service \<Rightarrow> 'w \<Rightarrow> (('sub, 's) event_service \<times> 'w) option" where
  "poll E s0 w =
     (let s = s0\<lparr>es_subscriberList := applyPending (es_pending s0) (es_subscriberList s0), es_pending := []\<rparr> in
      case ee_retry E (ee_GetEvent E (es_lastEventID s)) w of
        None \<Rightarrow> None
      | Some (Inl _, b, w1) \<Rightarrow> Some (s, w1)
      | Some (Inr newEvents, b, w1) \<Rightarrow>
          if newEvents = [] then None
          else if EventID (last newEvents) = es_lastEventID s then Some (s, w1)
          else (case handle_events E (es_subscriberList s) newEvents w1 of
                  (Some (event, sub, e), w2) \<Rightarrow>
                    Some (handleEventError (es_lastEventID s) (EventID event) e s, w2)
                | (None, w2) \<Rightarrow>
                    (let newEventID = EventID (last newEvents) in
                     case ee_store E newEventID (es_store s) of
                       (Some e, st) \<Rightarrow> Some (onBadEvent UserBadEventStore (s\<lparr>es_store := st\<rparr>), w2)
                     | (None, st) \<Rightarrow>
                         (let s1 = s\<lparr>es_store := st, es_lastEventID := newEventID\<rparr>
                          in Some (if es_paused s1 then closePollWaiters s1 else s1, w2)))))"

datatype loop_input =
    CtxDone
  | Tick
  | CpcClosed
  | RewindReq string
  | UnknownReq
  | WatcherClosed
  | ConnStatusDown
  | ConnStatusUp
  | OtherBusEvent

text \<open>One iteration of \<open>run\<close>; the flag tells whether the loop goes on.\<close>

definition run_step ::
  "('x, 'sub, 's, 'w, 'e) event_env \<Rightarrow> loop_input \<Rightarrow> ('sub, 's) event_service \<Rightarrow> 'w \<Rightarrow>
     (bool \<times> ('sub, 's) event_service \<times> 'w) option" where
  "run_step E inp s w =
     (case inp of
        CtxDone \<Rightarrow> Some (False, s, w)
      | Tick \<Rightarrow>
          if es_paused s then Some (True, closePollWaiters s, w)
          else map_option (\<lambda>(s', w'). (True, s', w')) (poll E s w)
      | CpcClosed \<Rightarrow> Some (False, s, w)
      | RewindReq i \<Rightarrow>
          (case ee_store E i (es_store s) of
             (Some e, st) \<Rightarrow> Some (True, s\<lparr>es_store := st\<rparr>, w)
           | (None, st) \<Rightarrow> Some (True, s\<lparr>es_store := st, es_lastEventID := i\<rparr>, w))
      | UnknownReq \<Rightarrow> Some (True, s, w)
      | WatcherClosed \<Rightarrow> Some (True, s, w)
      | ConnStatusDown \<Rightarrow> map_option (\<lambda>(s', w'). (True, s', w')) (poll E (Pause s) w)
      | ConnStatusUp \<Rightarrow> map_option (\<lambda>(s', w'). (True, s', w')) (poll E (Resume s) w)
      | OtherBusEvent \<Rightarrow> map_option (\<lambda>(s', w'). (True, s', w')) (poll E s w))"

definition Start ::
  "('x, 'sub, 's, 'w, 'e) event_env \<Rightarrow> 's \<Rightarrow> 'w \<Rightarrow> (('e svc_err + string) \<times> 's \<times> 'w) option" where
  "Start E st w =
     (case ee_load E st of
        Inl e \<Rightarrow> Some (Inl e, st, w)
      | Inr lastEventID \<Rightarrow>
          if lastEventID \<noteq> '''' then Some (Inr lastEventID, st, w)
          else case ee_retryID E (ee_GetLatestEventID E) w of
                 None \<Rightarrow> None
               | Some (Inl e, b, w') \<Rightarrow> Some (Inl e, st, w')
               | Some (Inr eventID, b, w') \<Rightarrow>
                   (case ee_store E eventID st of
                      (Some e, st') \<Rightarrow> Some (Inl e, st', w')
                    | (None, st') \<Rightarrow> Some (Inr eventID, st', w')))"

text \<open>\<^verbatim>\<open>Close\<close>: every subscriber with a pending operation is closed, once.\<close>

fun pending_sub :: "'sub pendingSubscription \<Rightarrow> 'sub" where
  "pending_sub (pendingOpAdd sub) = sub"
| "pending_sub (pendingOpRemove sub) = sub"

fun Close_loop :: "'sub list \<Rightarrow> 'sub pendingSubscription list \<Rightarrow> 'sub subscriberList \<Rightarrow> 'sub subscriberList" where
  "Close_loop processed [] l = l"
| "Close_loop processed (p # ps) l =
     (if pending_sub p \<in> set processed then Close_loop processed ps l
      else Close_loop (pending_sub p # processed) ps
             (case p of
                pendingOpRemove sub \<Rightarrow> l\<lparr>closed := closed l @ [sub]\<rparr>
              | pendingOpAdd sub \<Rightarrow> l\<lparr>cancelled := cancelled l @ [sub], closed := closed l @ [sub]\<rparr>))"

definition Service_Close :: "('sub, 's) event_service \<Rightarrow> ('sub, 's) event_service" where
  "Service_Close s =
     s\<lparr>es_subscriberList := Close_loop [] (es_pending s) (es_subscriberList s), es_pending := []\<rparr>"

subsection \<open>Splitting an event\<close>

type_synonym ('a, 'w) part_handler = "'a \<Rightarrow> 'w \<Rightarrow> handle_err option \<times> 'w"

record ('x, 'w) EventHandler =
  RefreshHandler :: "(8 word \<times> string, 'w) part_handler option"
  AddressHandler :: "('x list, 'w) part_handler option"
  UserHandler :: "('x, 'w) part_handler option"
  LabelHandler :: "('x list, 'w) part_handler option"
  MessageHandler :: "('x list, 'w) part_handler option"
  UsedSpaceHandler :: "(int64, 'w) part_handler option"
  UserSettingsHandler :: "('x, 'w) part_handler option"
  NotificationHandler :: "('x list, 'w) part_handler option"

definition opt_part :: "'a option \<Rightarrow> ('a, 'w) part_handler option \<Rightarrow> 'w \<Rightarrow> handle_err option \<times> 'w" where
  "opt_part x h w = (case (x, h) of (Some v, Some f) \<Rightarrow> f v w | _ \<Rightarrow> (None, w))"

definition list_part :: "'a list \<Rightarrow> ('a list, 'w) part_handler option \<Rightarrow> 'w \<Rightarrow> handle_err option \<times> 'w" where
  "list_part xs h w = (case h of Some f \<Rightarrow> if xs \<noteq> [] then f xs w else (None, w) | None \<Rightarrow> (None, w))"

definition OnEvent :: "8 word \<Rightarrow> ('x, 'w) EventHandler \<Rightarrow> 'x Event \<Rightarrow> 'w \<Rightarrow> handle_err option \<times> 'w" where
  "OnEvent refreshMail h event w =
     (if Refresh event AND refreshMail \<noteq> 0 \<and> RefreshHandler h \<noteq> None
      then the (RefreshHandler h) (Refresh event, EventID event) w
      else iter_err (\<lambda>part. part)
             [opt_part (ev_UserSettings event) (UserSettingsHandler h),
              opt_part (ev_User event) (UserHandler h),
              list_part (ev_Addresses event) (AddressHandler h),
              list_part (ev_Labels event) (LabelHandler h),
              list_part (ev_Messages event) (MessageHandler h),
              opt_part (ev_UsedSpace event) (UsedSpaceHandler h),
              list_part (ev_Notifications event) (NotificationHandler h)] w)"

subsection \<open>The stored event ID\<close>

definition agrees :: "('s \<Rightarrow> 'e + string) \<Rightarrow> ('sub, 's) event_service \<Rightarrow> bool" where
  "agrees load s \<longleftrightarrow> load (es_store s) = Inr (es_lastEventID s)"

lemma agrees_cong:
  "es_store s' = es_store s \<Longrightarrow> es_lastEventID s' = es_lastEventID s \<Longrightarrow> agrees load s' = agrees load s"
  by (simp add: agrees_def)

lemma service_ops_id [simp]:
  "es_store (Pause s) = es_store s" "es_lastEventID (Pause s) = es_lastEventID s"
  "es_store (Resume s) = es_store s" "es_lastEventID (Resume s) = es_lastEventID s"
  "es_store (closePollWaiters s) = es_store s" "es_lastEventID (closePollWaiters s) = es_lastEventID s"
  "es_store (onBadEvent ev s) = es_store s" "es_lastEventID (onBadEvent ev s) = es_lastEventID s"
  "es_subscriberList (Pause s) = es_subscriberList s" "es_subscriberList (Resume s) = es_subscriberList s"
  "es_pending (Pause s) = es_pending s" "es_pending (Resume s) = es_pending s"
  by (simp_all add: Pause_def Resume_def closePollWaiters_def onBadEvent_def)

lemma handleEventError_id [simp]:
  "es_store (handleEventError l n e s) = es_store s" "es_lastEventID (handleEventError l n e s) = es_lastEventID s"
  by (simp_all add: handleEventError_def split: handle_err.splits)

context event_id_store
begin

lemma agrees_store:
  assumes "agrees load s" and "store i (es_store s) = (e, st)"
  shows "e = None \<Longrightarrow> agrees load (s\<lparr>es_store := st, es_lastEventID := i\<rparr>)"
    and "e \<noteq> None \<Longrightarrow> agrees load (s\<lparr>es_store := st\<rparr>)"
  using assms load_store store_fails by (auto simp: agrees_def)

lemma poll_agrees:
  assumes "agrees load s" and E: "ee_store E = store" and "poll E s w = Some (s', w')"
  shows "agrees load s'"
proof -
  define s0 where "s0 = s\<lparr>es_subscriberList := applyPending (es_pending s) (es_subscriberList s), es_pending := []\<rparr>"
  have a0: "agrees load s0" using assms(1) by (simp add: s0_def agrees_def)
  obtain r b w1 where rt: "ee_retry E (ee_GetEvent E (es_lastEventID s0)) w = Some (r, b, w1)"
    using assms(3) by (cases "ee_retry E (ee_GetEvent E (es_lastEventID s0)) w")
      (auto simp: poll_def s0_def Let_def)
  show ?thesis
  proof (cases r)
    case (Inl e)
    then have "s' = s0" using assms(3) rt by (simp add: poll_def s0_def Let_def)
    then show ?thesis using a0 by simp
  next
    case (Inr evs)
    show ?thesis
    proof (cases "evs \<noteq> [] \<and> EventID (last evs) \<noteq> es_lastEventID s0")
      case False
      then have "s' = s0" using assms(3) rt Inr by (auto simp: poll_def s0_def Let_def split: if_splits)
      then show ?thesis using a0 by simp
    next
      case True
      obtain h w2 where hd: "handle_events E (es_subscriberList s0) evs w1 = (h, w2)"
        by (cases "handle_events E (es_subscriberList s0) evs w1")
      obtain e st where st: "store (EventID (last evs)) (es_store s0) = (e, st)"
        by (cases "store (EventID (last evs)) (es_store s0)")
      show ?thesis
      proof (cases h)
        case None
        then show ?thesis using assms(3) rt Inr True hd st agrees_store[OF a0 st] E
          by (cases e) (auto simp: poll_def s0_def Let_def agrees_def split: if_splits)
      next
        case (Some x)
        then obtain event sub err where "x = (event, sub, err)" by (metis prod_cases3)
        then have "s' = handleEventError (es_lastEventID s0) (EventID event) err s0"
          using assms(3) rt Inr True hd Some by (auto simp: poll_def s0_def Let_def)
        then show ?thesis using a0 by (simp add: agrees_def)
      qed
    qed
  qed
qed

lemma run_step_agrees:
  assumes "agrees load s" and E: "ee_store E = store" and "run_step E inp s w = Some (b, s', w')"
  shows "agrees load s'"
proof (cases inp)
  case (RewindReq i)
  obtain e st where st: "store i (es_store s) = (e, st)" by (cases "store i (es_store s)")
  show ?thesis using assms(3) RewindReq st agrees_store[OF assms(1) st] E
    by (cases e) (auto simp: run_step_def)
next
  case Tick
  then show ?thesis using assms(1,3) poll_agrees[OF assms(1) E]
    by (auto simp: run_step_def agrees_def split: if_splits)
next
  case ConnStatusDown
  moreover have "agrees load (Pause s)" using assms(1) by (simp add: agrees_def)
  ultimately show ?thesis using assms(3) poll_agrees[OF _ E, of "Pause s"] by (auto simp: run_step_def)
next
  case ConnStatusUp
  moreover have "agrees load (Resume s)" using assms(1) by (simp add: agrees_def)
  ultimately show ?thesis using assms(3) poll_agrees[OF _ E, of "Resume s"] by (auto simp: run_step_def)
next
  case OtherBusEvent
  then show ?thesis using assms(3) poll_agrees[OF assms(1) E] by (auto simp: run_step_def)
qed (use assms(1,3) in \<open>auto simp: run_step_def\<close>)

lemma Start_loads:
  assumes "ee_load E = load" and "ee_store E = store" and "Start E st w = Some (Inr i, st', w')"
  shows "load st' = Inr i"
  using assms load_store
  by (auto simp: Start_def split: sum.splits if_splits option.splits prod.splits)

end

subsection \<open>An event is left behind only after all subscribers handled it\<close>

text \<open>
  What is relied on of \<^verbatim>\<open>parallel.DoContext\<close>: if it reports no error, the task of every input ran
  without error; \<open>Q x\<close> is anything the successful task of \<open>x\<close> establishes and no task undoes.
\<close>

definition do_law :: "('sub, 'w) do_context \<Rightarrow> bool" where
  "do_law doContext \<longleftrightarrow>
     (\<forall>f xs w w' Q. (\<forall>x t e t'. f x t = (e, t') \<longrightarrow> (e = None \<longrightarrow> Q x t') \<and> (\<forall>y. Q y t \<longrightarrow> Q y t')) \<longrightarrow>
        doContext f xs w = (None, w') \<longrightarrow> (\<forall>x \<in> set xs. Q x w'))"

text \<open>\<open>did\<close> records that a subscriber handled an event; handlers and the API do not erase it.\<close>

definition records ::
  "('sub \<Rightarrow> 'x Event \<Rightarrow> 'w \<Rightarrow> bool) \<Rightarrow> ('x, 'sub, 's, 'w, 'e) event_env \<Rightarrow> bool" where
  "records did E \<longleftrightarrow>
     (\<forall>sub ev w e w'. ee_handle E sub ev w = (e, w') \<longrightarrow>
        (e = None \<longrightarrow> did sub ev w') \<and> (\<forall>s v. did s v w \<longrightarrow> did s v w')) \<and>
     (\<forall>f xs w e w'. ee_doContext E f xs w = (e, w') \<longrightarrow>
        (\<forall>x t e t'. f x t = (e, t') \<longrightarrow> (\<forall>s v. did s v t \<longrightarrow> did s v t')) \<longrightarrow> (\<forall>s v. did s v w \<longrightarrow> did s v w'))"

lemma publish_task_records:
  assumes "records did E" and "publish_task (ee_handle E) ev sub t = (e, t')"
  shows "(e = None \<longrightarrow> did sub ev t') \<and> (\<forall>s v. did s v t \<longrightarrow> did s v t')"
  using assms by (auto simp: records_def publish_task_def split: prod.splits option.splits)

lemma Publish_loop_records:
  assumes "records did E" and "Publish_loop (ee_handle E) ctx ev subs w = (e, w')"
  shows "(e = None \<longrightarrow> (\<forall>sub \<in> set subs. did sub ev w')) \<and> (\<forall>s v. did s v w \<longrightarrow> did s v w')"
  using assms(2)
proof (induction subs arbitrary: w)
  case (Cons sub subs)
  obtain e1 w1 where h: "ee_handle E sub ev w = (e1, w1)" by (cases "ee_handle E sub ev w")
  have keep: "(e1 = None \<longrightarrow> did sub ev w1) \<and> (\<forall>s v. did s v w \<longrightarrow> did s v w1)"
    using assms(1) h unfolding records_def by blast
  show ?case
  proof (cases "e1 = None \<and> ctx w1 = None")
    case True
    then have "Publish_loop (ee_handle E) ctx ev subs w1 = (e, w')" using Cons.prems h by simp
    then show ?thesis using Cons.IH[of w1] keep True by auto
  next
    case False
    then have "e \<noteq> None \<and> w' = w1" using Cons.prems h by (auto split: option.splits)
    then show ?thesis using keep by auto
  qed
qed simp

lemma PublishParallel_records:
  assumes "records did E" and "do_law (ee_doContext E)"
    and "PublishParallel (ee_handle E) ctx (ee_doContext E) ev l w = (e, w')"
  shows "(e = None \<longrightarrow> (\<forall>sub \<in> set (subscribers l). did sub ev w')) \<and> (\<forall>s v. did s v w \<longrightarrow> did s v w')"
proof (cases "length (subscribers l) \<le> 1")
  case True
  then show ?thesis using Publish_loop_records[OF assms(1)] assms(3) by (simp add: PublishParallel_def Publish_def)
next
  case False
  then have run: "ee_doContext E (publish_task (ee_handle E) ev) (subscribers l) w = (e, w')"
    using assms(3) by (simp add: PublishParallel_def)
  have task: "\<forall>x t e t'. publish_task (ee_handle E) ev x t = (e, t') \<longrightarrow>
      (e = None \<longrightarrow> did x ev t') \<and> (\<forall>y. did y ev t \<longrightarrow> did y ev t')"
    using publish_task_records[OF assms(1)] by blast
  have "\<forall>s v. did s v w \<longrightarrow> did s v w'"
    using assms(1) run publish_task_records[OF assms(1)] unfolding records_def by blast
  moreover have "e = None \<longrightarrow> (\<forall>sub \<in> set (subscribers l). did sub ev w')"
    using assms(2)[unfolded do_law_def, rule_format, of "publish_task (ee_handle E) ev" "\<lambda>y. did y ev"] task run by blast
  ultimately show ?thesis by blast
qed

lemma handle_events_records:
  assumes "records did E" and "do_law (ee_doContext E)" and "handle_events E l evs w = (None, w')"
  shows "(\<forall>ev \<in> set evs. \<forall>sub \<in> set (subscribers l). did sub ev w') \<and> (\<forall>s v. did s v w \<longrightarrow> did s v w')"
  using assms(3)
proof (induction evs arbitrary: w)
  case (Cons ev evs)
  obtain w1 where p: "PublishParallel (ee_handle E) (ee_ctxErr E) (ee_doContext E) ev l w = (None, w1)"
    "handle_events E l evs w1 = (None, w')"
    using Cons.prems by (auto split: prod.splits option.splits)
  show ?case using PublishParallel_records[OF assms(1,2) p(1)] Cons.IH[OF p(2)] by auto
qed simp

text \<open>The answer of the event source does not erase records either: it only reads.\<close>

lemma poll_records:
  assumes rec: "records did E" and law: "do_law (ee_doContext E)"
    and "poll E s w = Some (s', w')" and "es_lastEventID s' \<noteq> es_lastEventID s"
  shows "\<exists>evs r. evs \<noteq> [] \<and> EventID (last evs) = es_lastEventID s' \<and>
     ee_retry E (ee_GetEvent E (es_lastEventID s)) w = Some (Inr evs, r) \<and>
     (\<forall>ev \<in> set evs. \<forall>sub \<in> set (subscribers (es_subscriberList s')). did sub ev w')"
proof -
  define s0 where "s0 = s\<lparr>es_subscriberList := applyPending (es_pending s) (es_subscriberList s), es_pending := []\<rparr>"
  obtain evs b w1 where rt: "ee_retry E (ee_GetEvent E (es_lastEventID s)) w = Some (Inr evs, b, w1)"
    using assms(3,4) by (auto simp: poll_def Let_def split: option.splits prod.splits sum.splits)
  have ne: "evs \<noteq> []" "EventID (last evs) \<noteq> es_lastEventID s"
    using assms(3,4) rt by (auto simp: poll_def Let_def split: if_splits)
  obtain h w2 where hd: "handle_events E (es_subscriberList s0) evs w1 = (h, w2)"
    by (cases "handle_events E (es_subscriberList s0) evs w1")
  have h: "h = None"
  proof (rule ccontr)
    assume "h \<noteq> None"
    then obtain event sub err where "h = Some (event, sub, err)" by (metis option.exhaust prod_cases3)
    then have "s' = handleEventError (es_lastEventID s) (EventID event) err s0"
      using assms(3) rt ne hd by (simp add: poll_def Let_def s0_def)
    then show False using assms(4) by (simp add: s0_def)
  qed
  obtain e st where st: "ee_store E (EventID (last evs)) (es_store s0) = (e, st)"
    by (cases "ee_store E (EventID (last evs)) (es_store s0)")
  have e: "e = None"
  proof (rule ccontr)
    assume "e \<noteq> None"
    then have "s' = onBadEvent UserBadEventStore (s0\<lparr>es_store := st\<rparr>)"
      using assms(3) rt ne hd h st by (auto simp: poll_def Let_def s0_def)
    then show False using assms(4) by (simp add: s0_def)
  qed
  define s1 where "s1 = s0\<lparr>es_store := st, es_lastEventID := EventID (last evs)\<rparr>"
  have "(if es_paused s1 then closePollWaiters s1 else s1) = s' \<and> w2 = w'"
    using assms(3) rt ne hd h st e by (simp add: poll_def Let_def s0_def s1_def split: if_splits)
  then have s': "es_lastEventID s' = EventID (last evs)" "es_subscriberList s' = es_subscriberList s0" "w' = w2"
    by (auto simp: s1_def closePollWaiters_def split: if_splits)
  show ?thesis using handle_events_records[OF rec law hd[unfolded h]] s' ne rt by auto
qed

lemma do_law_iter_err: "do_law (\<lambda>f xs w. iter_err f xs w)"
proof -
  have "(\<forall>x \<in> set xs. Q x w') \<and> (\<forall>y. Q y w \<longrightarrow> Q y w')"
    if "\<forall>x t e t'. f x t = (e, t') \<longrightarrow> (e = None \<longrightarrow> Q x t') \<and> (\<forall>y. Q y t \<longrightarrow> Q y t')" "iter_err f xs w = (None, w')"
    for f :: "'a \<Rightarrow> 'b \<Rightarrow> ('a \<times> handle_err) option \<times> 'b" and Q xs w w'
    using that(2)
  proof (induction xs arbitrary: w)
    case (Cons x xs)
    obtain w1 where w1: "f x w = (None, w1)" "iter_err f xs w1 = (None, w')"
      using Cons.prems by (auto split: prod.splits option.splits)
    then show ?case using that(1) Cons.IH[OF w1(2)] by auto
  qed simp
  then show ?thesis unfolding do_law_def by blast
qed

text \<open>The loop over the inputs the \<^verbatim>\<open>select\<close> delivers.\<close>

fun run_loop ::
  "('x, 'sub, 's, 'w, 'e) event_env \<Rightarrow> loop_input list \<Rightarrow> ('sub, 's) event_service \<Rightarrow> 'w \<Rightarrow>
     (('sub, 's) event_service \<times> 'w) option" where
  "run_loop E [] s w = Some (s, w)"
| "run_loop E (inp # inps) s w =
     (case run_step E inp s w of
        None \<Rightarrow> None
      | Some (True, s', w') \<Rightarrow> run_loop E inps s' w'
      | Some (False, s', w') \<Rightarrow> Some (s', w'))"

context event_id_store
begin

lemma run_loop_agrees:
  assumes E: "ee_store E = store"
  shows "agrees load s \<Longrightarrow> run_loop E inps s w = Some (s', w') \<Longrightarrow> agrees load s'"
proof (induction inps arbitrary: s w)
  case (Cons inp inps)
  obtain b s1 w1 where st: "run_step E inp s w = Some (b, s1, w1)"
    using Cons.prems(2) by (cases "run_step E inp s w") auto
  have "agrees load s1" by (rule run_step_agrees[OF Cons.prems(1) E st])
  then show ?case using Cons.IH[of s1 w1] Cons.prems(2) st by (cases b) auto
qed simp

end

lemma Close_loop_spec:
  "distinct processed \<Longrightarrow>
   \<exists>cs. closed (Close_loop processed ps l) = closed l @ cs \<and> distinct cs \<and>
     set cs = pending_sub ` set ps - set processed \<and> subscribers (Close_loop processed ps l) = subscribers l"
proof (induction processed ps l rule: Close_loop.induct)
  case (2 processed p ps l)
  show ?case
  proof (cases "pending_sub p \<in> set processed")
    case True
    then show ?thesis using 2 by auto
  next
    case False
    then obtain cs where "closed (Close_loop processed (p # ps) l) = (closed l @ [pending_sub p]) @ cs" "distinct cs"
      "set cs = pending_sub ` set ps - set (pending_sub p # processed)"
      "subscribers (Close_loop processed (p # ps) l) = subscribers l"
      using "2.IH"(2)[OF False] "2.prems" by (cases p) auto
    then show ?thesis using False by (intro exI[of _ "pending_sub p # cs"]) auto
  qed
qed simp

subsection \<open>Properties\<close>

text \<open>
  Over any store that keeps what it is given, the event ID in the store and the one the
  loop works with are the same after every start and every sequence of inputs: a restart
  resumes exactly where the loop was.
\<close>

theorem stored_event_id:
  assumes "event_id_store (ee_load E) (ee_store E)" and "Start E st w = Some (Inr i, st', w')"
    and "es_store s = st'" and "es_lastEventID s = i" and "run_loop E inps s w' = Some (s', w2)"
  shows "ee_load E (es_store s') = Inr (es_lastEventID s')"
proof -
  have "agrees (ee_load E) s"
    using event_id_store.Start_loads[OF assms(1) refl refl assms(2)] assms(3,4) by (simp add: agrees_def)
  then show ?thesis using event_id_store.run_loop_agrees[OF assms(1) refl _ assms(5)] by (simp add: agrees_def)
qed

text \<open>
  A source with one event after \<open>''e0''\<close>, and two subscribers that note what they handle. The world
  holds what was handled.
\<close>

definition ex_event :: "string \<Rightarrow> unit Event" where
  "ex_event i = \<lparr>EventID = i, Refresh = 0, ev_User = None, ev_UserSettings = None, ev_Addresses = [],
     ev_Labels = [], ev_Messages = [()], ev_UsedSpace = None, ev_Notifications = []\<rparr>"

definition ex_event_env :: "(unit, string, string, (string \<times> unit Event) list, unit) event_env" where
  "ex_event_env =
     \<lparr>ee_load = InMemoryEventIDStore_Load, ee_store = InMemoryEventIDStore_Store,
      ee_GetLatestEventID = (\<lambda>w. (Inr ''e0'', w)), ee_retryID = (\<lambda>f w. case f w of (r, w') \<Rightarrow> Some (r, False, w')),
      ee_GetEvent = (\<lambda>i w. (Inr [ex_event (if i = ''e0'' then ''e1'' else i)], w)),
      ee_retry = (\<lambda>f w. case f w of (r, w') \<Rightarrow> Some (r, False, w')),
      ee_handle = (\<lambda>sub ev w. (None, w @ [(sub, ev)])), ee_ctxErr = (\<lambda>_. None),
      ee_doContext = (\<lambda>f xs w. iter_err f xs w)\<rparr>"

definition ex_event_service :: "(string, string) event_service" where
  "ex_event_service =
     \<lparr>es_store = ''e0'', es_lastEventID = ''e0'', es_paused = False,
      es_subscriberList = \<lparr>subscribers = [''imap''], closed = [], cancelled = []\<rparr>, es_pending = [pendingOpAdd ''smtp''],
      es_waiters = [], es_closedWaiters = [], es_published = []\<rparr>"

lemma ex_tick:
  "run_step ex_event_env Tick ex_event_service [] =
   Some (True, ex_event_service\<lparr>es_store := ''e1'', es_lastEventID := ''e1'', es_pending := [],
      es_subscriberList := \<lparr>subscribers = [''imap'', ''smtp''], closed = [], cancelled = []\<rparr>\<rparr>,
     [(''imap'', ex_event ''e1''), (''smtp'', ex_event ''e1'')])"
  by (simp add: run_step_def poll_def ex_event_env_def ex_event_service_def Let_def subscriberList_Add_def
      PublishParallel_def publish_task_def InMemoryEventIDStore_Store_def ex_event_def)

theorem stored_event_id_witness:
  "\<exists>s' w2. run_loop ex_event_env [Tick, ConnStatusDown, RewindReq ''e0''] ex_event_service [] = Some (s', w2) \<and>
     ee_load ex_event_env (es_store s') = Inr (es_lastEventID s')"
proof -
  have st: "event_id_store (ee_load ex_event_env) (ee_store ex_event_env)"
    using mem_store.event_id_store_axioms by (simp add: ex_event_env_def)
  have start: "Start ex_event_env '''' [] = Some (Inr ''e0'', ''e0'', [])"
    by (simp add: Start_def ex_event_env_def InMemoryEventIDStore_Load_def InMemoryEventIDStore_Store_def)
  have s: "es_store ex_event_service = ''e0''" "es_lastEventID ex_event_service = ''e0''"
    by (simp_all add: ex_event_service_def)
  obtain s' w2 where r: "run_loop ex_event_env [Tick, ConnStatusDown, RewindReq ''e0''] ex_event_service [] = Some (s', w2)"
    by (simp add: ex_tick) (simp add: run_step_def poll_def ex_event_env_def ex_event_service_def Let_def
        ex_event_def Pause_def InMemoryEventIDStore_Store_def)
  then show ?thesis using stored_event_id[OF st start s r] by blast
qed

text \<open>
  Property C5. The loop moves to a new event ID, other than on request, only after every subscriber,
  including those that were waiting to be added, handled every event up to it.
\<close>

theorem event_id_after_handling:
  assumes rec: "records did E" and law: "do_law (ee_doContext E)"
    and "run_step E inp s w = Some (b, s', w')" and "es_lastEventID s' \<noteq> es_lastEventID s" and "\<forall>i. inp \<noteq> RewindReq i"
  shows "\<exists>evs r. evs \<noteq> [] \<and> EventID (last evs) = es_lastEventID s' \<and>
     ee_retry E (ee_GetEvent E (es_lastEventID s)) w = Some (Inr evs, r) \<and>
     (\<forall>ev \<in> set evs. \<forall>sub \<in> set (subscribers (es_subscriberList s')). did sub ev w')"
proof -
  have poll: "\<exists>evs r. evs \<noteq> [] \<and> EventID (last evs) = es_lastEventID s' \<and>
      ee_retry E (ee_GetEvent E (es_lastEventID s0)) w = Some (Inr evs, r) \<and>
      (\<forall>ev \<in> set evs. \<forall>sub \<in> set (subscribers (es_subscriberList s')). did sub ev w')"
    if "poll E s0 w = Some (s', w')" and "es_lastEventID s' \<noteq> es_lastEventID s0" for s0
    by (rule poll_records[OF rec law that])
  show ?thesis
  proof (cases inp)
    case Tick
    then show ?thesis using assms(3,4) poll[of s] by (auto simp: run_step_def split: if_splits)
  next
    case ConnStatusDown
    then show ?thesis using assms(3,4) poll[of "Pause s"] by (auto simp: run_step_def)
  next
    case ConnStatusUp
    then show ?thesis using assms(3,4) poll[of "Resume s"] by (auto simp: run_step_def)
  next
    case OtherBusEvent
    then show ?thesis using assms(3,4) poll[of s] by (auto simp: run_step_def)
  qed (use assms(3-5) in \<open>auto simp: run_step_def\<close>)
qed

theorem event_id_after_handling_witness:
  "\<exists>s' w'. run_step ex_event_env Tick ex_event_service [] = Some (True, s', w') \<and>
     es_lastEventID s' = ''e1'' \<and> (\<forall>sub \<in> {''imap'', ''smtp''}. (sub, ex_event ''e1'') \<in> set w')"
proof -
  let ?did = "\<lambda>sub ev w. (sub, ev) \<in> set w"
  have keep: "(s, v) \<in> set w'" if "iter_err f xs w = (e, w')" "(s, v) \<in> set w"
    "\<forall>x t e t'. f x t = (e, t') \<longrightarrow> (\<forall>s v. (s, v) \<in> set t \<longrightarrow> (s, v) \<in> set t')"
    for f :: "string \<Rightarrow> (string \<times> unit Event) list \<Rightarrow> (string \<times> handle_err) option \<times> (string \<times> unit Event) list"
      and xs w e w' s v
    by (rule iter_err_invariant[where I = "\<lambda>w. (s, v) \<in> set w", OF _ that(2,1)]) (use that(3) in blast)
  have rec: "records ?did ex_event_env"
    unfolding records_def
  proof (intro conjI allI impI)
    fix f xs w e w' s v
    assume "ee_doContext ex_event_env f xs w = (e, w')"
      "\<forall>x t e t'. f x t = (e, t') \<longrightarrow> (\<forall>s v. (s, v) \<in> set t \<longrightarrow> (s, v) \<in> set t')" "(s, v) \<in> set w"
    then show "(s, v) \<in> set w'" using keep[of f xs w e w' s v] by (simp add: ex_event_env_def)
  qed (auto simp: ex_event_env_def)
  have law: "do_law (ee_doContext ex_event_env)" by (simp add: ex_event_env_def do_law_iter_err)
  let ?s = "ex_event_service\<lparr>es_store := ''e1'', es_lastEventID := ''e1'', es_pending := [],
      es_subscriberList := \<lparr>subscribers = [''imap'', ''smtp''], closed = [], cancelled = []\<rparr>\<rparr>"
  obtain evs r where h: "ee_retry ex_event_env (ee_GetEvent ex_event_env ''e0'') [] = Some (Inr evs, r)"
    "\<forall>ev \<in> set evs. \<forall>sub \<in> {''imap'', ''smtp''}. (sub, ev) \<in> set [(''imap'', ex_event ''e1''), (''smtp'', ex_event ''e1'')]"
    using event_id_after_handling[OF rec law ex_tick] by (auto simp: ex_event_service_def)
  have "evs = [ex_event ''e1'']" using h(1) by (simp add: ex_event_env_def)
  then show ?thesis using h(2) ex_tick by simp
qed

definition permanent :: "handle_err \<Rightarrow> bool" where
  "permanent err \<longleftrightarrow> (case err of HApiError st \<Rightarrow> st \<noteq> 429 \<and> st < 500 | HLabelConstraint \<Rightarrow> True | HOther _ \<Rightarrow> True | _ \<Rightarrow> False)"

text \<open>
  A failed event leaves the event ID in the loop and in the store as they were. The loop is
  paused exactly by failures that are neither a cancellation, nor of the network, nor a
  malformed or truncated answer, nor 429 or 5xx; such a failure is also announced as a
  bad event with the old and the new event ID, after which the event is retried only once
  the loop is resumed.
\<close>

theorem handleEventError_classifies:
  "es_lastEventID (handleEventError l n err s) = es_lastEventID s \<and>
   es_store (handleEventError l n err s) = es_store s \<and>
   (es_paused (handleEventError l n err s) \<longleftrightarrow> es_paused s \<or> permanent err) \<and>
   es_published (handleEventError l n err s) = es_published s @
     (if permanent err then [UserBadEvent l n err]
      else if err = HJsonTypeError then [UncategorizedEventError err] else [])"
  by (cases err) (auto simp: handleEventError_def permanent_def onBadEvent_def Pause_def)

datatype part = PRefresh | PSettings | PUser | PAddresses | PLabels | PMessages | PUsedSpace | PNotifications

definition tracing :: "(part \<Rightarrow> bool) \<Rightarrow> (part \<Rightarrow> handle_err option) \<Rightarrow> ('x, part list) EventHandler" where
  "tracing present fails =
     (let h = \<lambda>p. if present p then Some (\<lambda>_ w. (fails p, w @ [p])) else None
      in \<lparr>RefreshHandler = (if present PRefresh then Some (\<lambda>_ w. (fails PRefresh, w @ [PRefresh])) else None),
          AddressHandler = h PAddresses,
          UserHandler = (if present PUser then Some (\<lambda>_ w. (fails PUser, w @ [PUser])) else None),
          LabelHandler = h PLabels, MessageHandler = h PMessages,
          UsedSpaceHandler = (if present PUsedSpace then Some (\<lambda>_ w. (fails PUsedSpace, w @ [PUsedSpace])) else None),
          UserSettingsHandler = (if present PSettings then Some (\<lambda>_ w. (fails PSettings, w @ [PSettings])) else None),
          NotificationHandler = h PNotifications\<rparr>)"

fun has_part :: "'x Event \<Rightarrow> part \<Rightarrow> bool" where
  "has_part ev PSettings \<longleftrightarrow> ev_UserSettings ev \<noteq> None"
| "has_part ev PUser \<longleftrightarrow> ev_User ev \<noteq> None"
| "has_part ev PAddresses \<longleftrightarrow> ev_Addresses ev \<noteq> []"
| "has_part ev PLabels \<longleftrightarrow> ev_Labels ev \<noteq> []"
| "has_part ev PMessages \<longleftrightarrow> ev_Messages ev \<noteq> []"
| "has_part ev PUsedSpace \<longleftrightarrow> ev_UsedSpace ev \<noteq> None"
| "has_part ev PNotifications \<longleftrightarrow> ev_Notifications ev \<noteq> []"
| "has_part ev PRefresh \<longleftrightarrow> False"

lemma iter_err_filter:
  assumes "\<And>x s. g x s = (if P x then f x s else (None, s))"
  shows "iter_err g xs s = iter_err f (filter P xs) s"
  by (induction xs arbitrary: s) (auto simp: assms split: prod.splits option.splits)

lemma iter_err_map: "iter_err (\<lambda>f. f) (map g xs) s = iter_err g xs s"
  by (induction xs arbitrary: s) (auto split: prod.splits option.splits)

lemma part_traced:
  "opt_part x (if b then Some (\<lambda>_ w. (e, w @ [p])) else None) =
     (\<lambda>w. if x \<noteq> None \<and> b then (e, w @ [p]) else (None, w))"
  "list_part xs (if b then Some (\<lambda>_ w. (e, w @ [p])) else None) =
     (\<lambda>w. if xs \<noteq> [] \<and> b then (e, w @ [p]) else (None, w))"
  by (auto simp: opt_part_def list_part_def fun_eq_iff split: option.splits)

text \<open>
  The parts of an event are handled in the order user settings, user, addresses, labels,
  messages, used space, notifications, each only if the event has it and there is a handler,
  and the first failure ends the event. An event with the refresh flag goes to the refresh
  handler alone. The handlers here note their calls.
\<close>

theorem OnEvent_order:
  "OnEvent refreshMail (tracing present fails) event w =
     (if Refresh event AND refreshMail \<noteq> 0 \<and> present PRefresh then (fails PRefresh, w @ [PRefresh])
      else iter_err (\<lambda>p w. (fails p, w @ [p]))
             (filter (\<lambda>p. has_part event p \<and> present p)
               [PSettings, PUser, PAddresses, PLabels, PMessages, PUsedSpace, PNotifications]) w)"
proof (cases "Refresh event AND refreshMail \<noteq> 0 \<and> present PRefresh")
  case True
  then show ?thesis by (simp add: OnEvent_def tracing_def)
next
  case False
  let ?g = "\<lambda>p w. if has_part event p \<and> present p then (fails p, w @ [p]) else (None, w)"
  have "OnEvent refreshMail (tracing present fails) event w =
      iter_err (\<lambda>part. part) (map ?g [PSettings, PUser, PAddresses, PLabels, PMessages, PUsedSpace, PNotifications]) w"
    using False by (simp only: OnEvent_def tracing_def Let_def EventHandler.simps part_traced has_part.simps
        list.map if_False) (simp only: if_split simp_thms option.simps split: if_split, blast)
  also have "\<dots> = iter_err ?g [PSettings, PUser, PAddresses, PLabels, PMessages, PUsedSpace, PNotifications] w"
    by (rule iter_err_map)
  finally show ?thesis using False
    by (simp only: iter_err_filter[where g = ?g and f = "\<lambda>p w. (fails p, w @ [p])" and
          P = "\<lambda>p. has_part event p \<and> present p"] if_False)
qed

end
