(* ===== verification/Go_Strings.thy ===== *)
theory Go_Strings
  imports Bridge_Prelude
begin

section \<open>Strings and encodings\<close>

text \<open>
  The string functions of Go's standard library that the components use, on strings as lists of
  bytes; case folding is the one of ASCII. Base64 as \<^verbatim>\<open>pkg/algo/encode.go\<close> uses it
  (\<^verbatim>\<open>base64.RawURLEncoding\<close>), on bytes as numbers below 256.
\<close>

subsection \<open>Case folding and splitting\<close>

definition to_lower :: "char \<Rightarrow> char" where
  "to_lower c = (if 65 \<le> (of_char c :: nat) \<and> (of_char c :: nat) \<le> 90 then char_of (of_char c + 32 :: nat) else c)"

definition EqualFold :: "string \<Rightarrow> string \<Rightarrow> bool" where
  "EqualFold a b \<longleftrightarrow> map to_lower a = map to_lower b"

lemma EqualFold_refl [simp]: "EqualFold a a"
  by (simp add: EqualFold_def)

lemma EqualFold_sym: "EqualFold a b \<longleftrightarrow> EqualFold b a"
  by (auto simp: EqualFold_def)

lemma EqualFold_trans: "EqualFold a b \<Longrightarrow> EqualFold b c \<Longrightarrow> EqualFold a c"
  by (simp add: EqualFold_def)

text \<open>\<^verbatim>\<open>strings.Split\<close> with a separator of one character.\<close>

fun Split :: "'a list \<Rightarrow> 'a \<Rightarrow> 'a list list" where
  "Split [] c = [[]]"
| "Split (x # xs) c =
     (if x = c then [] # Split xs c else (x # hd (Split xs c)) # tl (Split xs c))"

lemma Split_not_Nil [simp]: "Split xs c \<noteq> []"
  by (cases xs) auto

lemma Split_no_sep: "p \<in> set (Split xs c) \<Longrightarrow> c \<notin> set p"
proof (induction xs arbitrary: p)
  case (Cons x xs)
  have "c \<notin> set (hd (Split xs c))" using Cons.IH[of "hd (Split xs c)"] by simp
  moreover have "q \<in> set (tl (Split xs c)) \<Longrightarrow> c \<notin> set q" for q
    using Cons.IH[of q] list.set_sel(2)[of "Split xs c" q] by simp
  ultimately show ?case using Cons by (auto split: if_splits)
qed simp

lemma Split_absent: "c \<notin> set xs \<Longrightarrow> Split xs c = [xs]"
  by (induction xs) auto

lemma Split_append_sep: "c \<notin> set xs \<Longrightarrow> Split (xs @ c # ys) c = xs # Split ys c"
  by (induction xs) auto

lemma hd_Split: "hd (Split xs c) = takeWhile (\<lambda>x. x \<noteq> c) xs"
  by (induction xs) auto

subsection \<open>Searching and trimming\<close>

fun Contains :: "string \<Rightarrow> string \<Rightarrow> bool" where
  "Contains [] sub \<longleftrightarrow> sub = []"
| "Contains (c # cs) sub \<longleftrightarrow> take (length sub) (c # cs) = sub \<or> Contains cs sub"

definition TrimSuffix :: "string \<Rightarrow> string \<Rightarrow> string" where
  "TrimSuffix s suf =
     (if length suf \<le> length s \<and> drop (length s - length suf) s = suf then take (length s - length suf) s else s)"

subsection \<open>Base64\<close>

text \<open>Bytes as natural numbers below 256, digits as natural numbers below 64.\<close>

definition b64_alphabet :: string where
  "b64_alphabet = ''ABCDEFGHIJKLMNOPQRSTUVWXYZabcdefghijklmnopqrstuvwxyz0123456789-_''"

fun b64_digits :: "nat list \<Rightarrow> nat list" where
  "b64_digits (a # b # c # rest) =
     [a div 4, (a mod 4) * 16 + b div 16, (b mod 16) * 4 + c div 64, c mod 64] @ b64_digits rest"
| "b64_digits [a, b] = [a div 4, (a mod 4) * 16 + b div 16, (b mod 16) * 4]"
| "b64_digits [a] = [a div 4, (a mod 4) * 16]"
| "b64_digits [] = []"

fun b64_bytes :: "nat list \<Rightarrow> nat list option" where
  "b64_bytes (p # q # r # s # rest) =
     map_option (\<lambda>bs. [p * 4 + q div 16, (q mod 16) * 16 + r div 4, (r mod 4) * 64 + s] @ bs) (b64_bytes rest)"
| "b64_bytes [p, q, r] = Some [p * 4 + q div 16, (q mod 16) * 16 + r div 4]"
| "b64_bytes [p, q] = Some [p * 4 + q div 16]"
| "b64_bytes [p] = None"
| "b64_bytes [] = Some []"

definition B64RawEncode :: "nat list \<Rightarrow> string" where
  "B64RawEncode b = map (\<lambda>d. b64_alphabet ! d) (b64_digits b)"

text \<open>
  The decoder skips line breaks, fails on any other character outside the alphabet and on a single
  left-over digit, and ignores the unused bits of the last digit. \<open>None\<close> is the error.
\<close>

fun b64_values :: "string \<Rightarrow> nat list option" where
  "b64_values [] = Some []"
| "b64_values (ch # cs) =
     (if ch = CHR 0x0A \<or> ch = CHR 0x0D then b64_values cs
      else case index_of ch b64_alphabet of
             None \<Rightarrow> None
           | Some d \<Rightarrow> map_option (\<lambda>ds. d # ds) (b64_values cs))"

definition B64RawDecode :: "string \<Rightarrow> nat list option" where
  "B64RawDecode s = Option.bind (b64_values s) b64_bytes"

lemma length_b64_alphabet [simp]: "length b64_alphabet = 64"
  by (simp add: b64_alphabet_def)

lemma distinct_b64_alphabet: "distinct b64_alphabet"
  by (simp add: b64_alphabet_def)

lemma no_breaks: "CHR 0x0A \<notin> set b64_alphabet" "CHR 0x0D \<notin> set b64_alphabet"
  by (simp_all add: b64_alphabet_def)

lemma index_of_distinct: "distinct xs \<Longrightarrow> i < length xs \<Longrightarrow> index_of (xs ! i) xs = Some i"
proof (induction xs arbitrary: i)
  case (Cons x xs)
  then show ?case by (cases i) auto
qed simp

lemma b64_values_alphabet:
  "\<forall>d \<in> set ds. d < 64 \<Longrightarrow> b64_values (map (\<lambda>d. b64_alphabet ! d) ds) = Some ds"
proof (induction ds)
  case (Cons d ds)
  have "b64_alphabet ! d \<in> set b64_alphabet" using Cons.prems by simp
  then have "b64_alphabet ! d \<noteq> CHR 0x0A" "b64_alphabet ! d \<noteq> CHR 0x0D" using no_breaks by metis+
  then show ?case using Cons index_of_distinct[OF distinct_b64_alphabet, of d] by simp
qed simp

lemma b64_digits_bound: "\<forall>b \<in> set bs. b < 256 \<Longrightarrow> \<forall>d \<in> set (b64_digits bs). d < 64"
  by (induction bs rule: b64_digits.induct) auto

lemma b64_bytes_digits: "\<forall>b \<in> set bs. b < 256 \<Longrightarrow> b64_bytes (b64_digits bs) = Some bs"
  by (induction bs rule: b64_digits.induct) auto

lemma B64RawDecode_Encode: "\<forall>b \<in> set bs. b < 256 \<Longrightarrow> B64RawDecode (B64RawEncode bs) = Some bs"
  by (simp add: B64RawDecode_def B64RawEncode_def b64_values_alphabet b64_digits_bound b64_bytes_digits)

end
