(* ===== verification/Identity_State.thy ===== *)
theory Identity_State
  imports Go_Strings "HOL-Library.Multiset" "HOL-Library.List_Lexorder" "HOL-Library.Char_ord"
begin

section \<open>The user's identity\<close>

text \<open>
  Models \<^verbatim>\<open>internal/services/useridentity\<close> (\<^verbatim>\<open>state.go\<close> and the handlers and requests of
  \<^verbatim>\<open>service.go\<close>) with the helpers of \<^verbatim>\<open>internal/usertypes\<close>: the addresses of an account, kept as a map
  and as a sorted slice, how events change them and what is published, and authentication.
  The order in which Go ranges over a map is a parameter \<open>enum\<close>; sorting is not stable, which
  another \<open>enum\<close> accounts for.
\<close>

subsection \<open>Data\<close>

datatype AddressStatus = AddressStatusDisabled | AddressStatusEnabled | AddressStatusDeleting

datatype AddressType = AddressTypeOriginal | AddressTypeAlias | AddressTypeCustom | AddressTypePremium | AddressTypeExternal

record 'k Address =
  a_ID :: string
  a_Email :: string
  a_Status :: AddressStatus
  a_Order :: int
  a_Send :: bool
  a_Type :: AddressType
  a_Keys :: 'k

record 'k User =
  u_ID :: string
  u_Name :: string
  u_UsedSpace :: uint64
  u_Keys :: 'k

type_synonym 'k address_map = "string \<rightharpoonup> 'k Address"
type_synonym 'k map_order = "'k address_map \<Rightarrow> 'k Address list"

datatype EventAction = EventDelete | EventCreate | EventUpdate | EventUpdateFlags

record 'k AddressEvent =
  ev_ID :: string
  ev_Action :: EventAction
  ev_Address :: "'k Address"

record 'k State =
  AddressesSorted :: "'k Address list"
  Addresses :: "'k address_map"
  st_User :: "'k User"

text \<open>A range over a map visits every entry once.\<close>

definition enum_ok :: "'k map_order \<Rightarrow> bool" where
  "enum_ok enum \<longleftrightarrow> (\<forall>m. finite (dom m) \<longrightarrow> mset (enum m) = image_mset (\<lambda>i. the (m i)) (mset_set (dom m)))"

subsection \<open>Operations on the state\<close>

definition GroupBy :: "('v \<Rightarrow> 'key) \<Rightarrow> 'v list \<Rightarrow> 'key \<rightharpoonup> 'v" where
  "GroupBy key items = foldl (\<lambda>groups item. groups(key item \<mapsto> item)) Map.empty items"

definition buildAddressMapFromSlice :: "'k Address list \<Rightarrow> 'k address_map" where
  "buildAddressMapFromSlice addrs = GroupBy a_ID addrs"

definition sortAddresses :: "'k Address list \<Rightarrow> 'k Address list" where
  "sortAddresses addrs = sort_key a_Order addrs"

definition set_addresses :: "'k map_order \<Rightarrow> 'k address_map \<Rightarrow> 'k State \<Rightarrow> 'k State" where
  "set_addresses enum m s = s\<lparr>Addresses := m, AddressesSorted := sortAddresses (enum m)\<rparr>"

definition NewState :: "'k map_order \<Rightarrow> 'k User \<Rightarrow> 'k Address list \<Rightarrow> 'k State" where
  "NewState enum user addrs =
     (let m = buildAddressMapFromSlice addrs
      in \<lparr>AddressesSorted = sortAddresses (enum m), Addresses = m, st_User = user\<rparr>)"

definition SanitizeEmail :: "string \<Rightarrow> string" where
  "SanitizeEmail email =
     (case Split email (CHR ''@'') of
        [user, domain] \<Rightarrow> hd (Split user (CHR ''+'')) @ ''@'' @ domain
      | _ \<Rightarrow> email)"

definition GetAddr :: "string \<Rightarrow> 'k State \<Rightarrow> 'k Address option" where
  "GetAddr email s = find (\<lambda>a. EqualFold (a_Email a) (SanitizeEmail email)) (AddressesSorted s)"

definition GetAddrByID :: "string \<Rightarrow> 'k State \<Rightarrow> 'k Address option" where
  "GetAddrByID i s = Addresses s i"

definition GetPrimaryAddr :: "'k State \<Rightarrow> 'k Address option" where
  "GetPrimaryAddr s = (if AddressesSorted s = [] then None else Some (hd (AddressesSorted s)))"

definition OnUserEvent :: "'k User \<Rightarrow> 'k State \<Rightarrow> 'k State" where
  "OnUserEvent user s = s\<lparr>st_User := user\<rparr>"

text \<open>The two answers of the identity provider are arguments.\<close>

definition OnRefreshEvent ::
  "'k map_order \<Rightarrow> 'e + 'k User \<Rightarrow> 'e + 'k Address list \<Rightarrow> 'k State \<Rightarrow> 'e option \<times> 'k State" where
  "OnRefreshEvent enum getUser getAddresses s =
     (case getUser of
        Inl e \<Rightarrow> (Some e, s)
      | Inr user \<Rightarrow>
          (case getAddresses of
             Inl e \<Rightarrow> (Some e, s)
           | Inr addrs \<Rightarrow> (None, set_addresses enum (buildAddressMapFromSlice addrs) (s\<lparr>st_User := user\<rparr>))))"

definition OnUserSpaceChanged :: "uint64 \<Rightarrow> 'k State \<Rightarrow> bool \<times> 'k State" where
  "OnUserSpaceChanged value s =
     (if u_UsedSpace (st_User s) = value then (False, s)
      else (True, s\<lparr>st_User := (st_User s)\<lparr>u_UsedSpace := value\<rparr>\<rparr>))"

datatype AddressUpdate =
    AddressUpdateNoop
  | AddressUpdateCreated
  | AddressUpdateEnabled
  | AddressUpdateDisabled
  | AddressUpdateUpdated
  | AddressUpdateDeleted

definition OnAddressCreated :: "'k map_order \<Rightarrow> 'k AddressEvent \<Rightarrow> 'k State \<Rightarrow> AddressUpdate \<times> 'k State" where
  "OnAddressCreated enum event s =
     (let a = ev_Address event in
      if Addresses s (a_ID a) \<noteq> None then (AddressUpdateNoop, s)
      else let s' = set_addresses enum ((Addresses s)(a_ID a \<mapsto> a)) s
           in (if a_Status a \<noteq> AddressStatusEnabled then AddressUpdateNoop else AddressUpdateCreated, s'))"

definition OnAddressUpdated ::
  "'k map_order \<Rightarrow> 'k AddressEvent \<Rightarrow> 'k State \<Rightarrow> ('k Address \<times> AddressUpdate) \<times> 'k State" where
  "OnAddressUpdated enum event s =
     (let a = ev_Address event in
      case Addresses s (a_ID a) of
        None \<Rightarrow> (case OnAddressCreated enum event s of (u, s') \<Rightarrow> ((a, u), s'))
      | Some oldAddr \<Rightarrow>
          (let s' = set_addresses enum ((Addresses s)(a_ID a \<mapsto> a)) s in
           if a_Status oldAddr \<noteq> AddressStatusEnabled \<and> a_Status a = AddressStatusEnabled
           then ((a, AddressUpdateEnabled), s')
           else if a_Status oldAddr = AddressStatusEnabled \<and> a_Status a \<noteq> AddressStatusEnabled
           then ((a, AddressUpdateDisabled), s')
           else ((a, AddressUpdateUpdated), s')))"

text \<open>The zero address that is returned with \<open>AddressUpdateNoop\<close> is \<open>None\<close>.\<close>

definition OnAddressDeleted ::
  "'k map_order \<Rightarrow> 'k AddressEvent \<Rightarrow> 'k State \<Rightarrow> ('k Address option \<times> AddressUpdate) \<times> 'k State" where
  "OnAddressDeleted enum event s =
     (case Addresses s (ev_ID event) of
        None \<Rightarrow> ((None, AddressUpdateNoop), s)
      | Some addr \<Rightarrow>
          (let s' = set_addresses enum ((Addresses s)(ev_ID event := None)) s in
           if a_Status addr \<noteq> AddressStatusEnabled then ((None, AddressUpdateNoop), s')
           else ((Some addr, AddressUpdateDeleted), s')))"

fun OnAddressEvents :: "'k map_order \<Rightarrow> 'k AddressEvent list \<Rightarrow> 'k State \<Rightarrow> 'k State" where
  "OnAddressEvents enum [] s = s"
| "OnAddressEvents enum (evt # evts) s =
     OnAddressEvents enum evts
       (case ev_Action evt of
          EventCreate \<Rightarrow> snd (OnAddressCreated enum evt s)
        | EventUpdate \<Rightarrow> snd (OnAddressUpdated enum evt s)
        | EventUpdateFlags \<Rightarrow> snd (OnAddressUpdated enum evt s)
        | EventDelete \<Rightarrow> snd (OnAddressDeleted enum evt s))"

text \<open>\<^verbatim>\<open>Clone\<close> copies the slice and the map; values in HOL are never shared.\<close>

definition Clone :: "'k State \<Rightarrow> 'k State" where
  "Clone s = \<lparr>AddressesSorted = AddressesSorted s, Addresses = Addresses s, st_User = st_User s\<rparr>"

datatype auth_err = ErrDecodePassword | ErrInvalidPassword | ErrInvalidEmail

text \<open>\<open>None\<close> is the panic on the magic address. \<open>bridgePass\<close> is what the provider returns.\<close>

definition CheckAuth :: "string \<Rightarrow> string \<Rightarrow> nat list \<Rightarrow> 'k State \<Rightarrow> (auth_err + string) option" where
  "CheckAuth email password bridgePass s =
     (if email = ''crash@bandicoot'' then None
      else case B64RawDecode password of
             None \<Rightarrow> Some (Inl ErrDecodePassword)
           | Some dec \<Rightarrow>
               if bridgePass \<noteq> dec then Some (Inl ErrInvalidPassword)
               else case find (\<lambda>a. a_Status a = AddressStatusEnabled \<and> EqualFold (a_Email a) email) (AddressesSorted s) of
                      None \<Rightarrow> Some (Inl ErrInvalidEmail)
                    | Some a \<Rightarrow> Some (Inr (a_ID a)))"

text \<open>
  Key rings: \<open>unlock\<close> is \<^verbatim>\<open>Keys.Unlock\<close> of the API library, \<open>entities\<close> is \<^verbatim>\<open>CountDecryptionEntities\<close>.
  \<open>WithAddrKRs\<close> calls its function with the user's key ring and those of the addresses.
\<close>

definition addr_keyring ::
  "('k \<Rightarrow> 'p \<Rightarrow> 'kr option \<Rightarrow> 'e + 'kr) \<Rightarrow> ('kr \<Rightarrow> nat) \<Rightarrow> 'p \<Rightarrow> 'kr \<Rightarrow> 'k Address \<Rightarrow> 'kr option" where
  "addr_keyring unlock entities keyPass userKR addr =
     (case unlock (a_Keys addr) keyPass (Some userKR) of
        Inl _ \<Rightarrow> None
      | Inr kr \<Rightarrow> if entities kr = 0 then None else Some kr)"

definition WithAddrKRs ::
  "('k \<Rightarrow> 'p \<Rightarrow> 'kr option \<Rightarrow> 'e + 'kr) \<Rightarrow> ('kr \<Rightarrow> nat) \<Rightarrow> 'p \<Rightarrow> ('kr \<Rightarrow> (string \<rightharpoonup> 'kr) \<Rightarrow> 'e + 'r) \<Rightarrow> 'k State \<Rightarrow> 'e + 'r" where
  "WithAddrKRs unlock entities keyPass f s =
     (case unlock (u_Keys (st_User s)) keyPass None of
        Inl e \<Rightarrow> Inl e
      | Inr userKR \<Rightarrow> f userKR (\<lambda>i. Option.bind (Addresses s i) (addr_keyring unlock entities keyPass userKR)))"

text \<open>\<open>None\<close> as the error: the address was not found.\<close>

definition WithAddrKR ::
  "('k \<Rightarrow> 'p \<Rightarrow> 'kr option \<Rightarrow> 'e + 'kr) \<Rightarrow> string \<Rightarrow> 'p \<Rightarrow> ('kr \<Rightarrow> 'kr \<Rightarrow> 'e + 'r) \<Rightarrow> 'k State \<Rightarrow> 'e option + 'r" where
  "WithAddrKR unlock addrID keyPass f s =
     (case Addresses s addrID of
        None \<Rightarrow> Inl None
      | Some addr \<Rightarrow>
          map_sum Some id
            (case unlock (u_Keys (st_User s)) keyPass None of
               Inl e \<Rightarrow> Inl e
             | Inr userKR \<Rightarrow>
                 (case unlock (a_Keys addr) keyPass (Some userKR) of
                    Inl e \<Rightarrow> Inl e
                  | Inr addrKR \<Rightarrow> f userKR addrKR)))"

subsection \<open>The service\<close>

datatype published =
    UserAddressCreated string string string
  | UserAddressEnabled string string string
  | UserAddressDisabled string string string
  | UserAddressUpdated string string string
  | UserAddressDeleted string string string
  | UsedSpaceChanged string uint64
  | UserChanged string
  | UserRefreshed string bool

definition HandleUsedSpaceEvent :: "int64 \<Rightarrow> 'k State \<Rightarrow> published list \<times> 'k State" where
  "HandleUsedSpaceEvent newSpace s =
     (case OnUserSpaceChanged newSpace s of
        (True, s') \<Rightarrow> ([UsedSpaceChanged (u_ID (st_User s')) newSpace], s')
      | (False, s') \<Rightarrow> ([], s'))"

definition HandleUserEvent :: "'k User \<Rightarrow> 'k State \<Rightarrow> published list \<times> 'k State" where
  "HandleUserEvent user s = ([UserChanged (u_ID user)], OnUserEvent user s)"

definition published_update :: "string \<Rightarrow> 'k Address \<Rightarrow> AddressUpdate \<Rightarrow> published list" where
  "published_update uid addr st =
     (case st of
        AddressUpdateCreated \<Rightarrow> [UserAddressCreated uid (a_ID addr) (a_Email addr)]
      | AddressUpdateUpdated \<Rightarrow> [UserAddressUpdated uid (a_ID addr) (a_Email addr)]
      | AddressUpdateDisabled \<Rightarrow> [UserAddressDisabled uid (a_ID addr) (a_Email addr)]
      | AddressUpdateEnabled \<Rightarrow> [UserAddressEnabled uid (a_ID addr) (a_Email addr)]
      | AddressUpdateNoop \<Rightarrow> []
      | AddressUpdateDeleted \<Rightarrow> [])"

definition HandleAddressEvent :: "'k map_order \<Rightarrow> 'k AddressEvent \<Rightarrow> 'k State \<Rightarrow> published list \<times> 'k State" where
  "HandleAddressEvent enum event s =
     (let uid = u_ID (st_User s) in
      case ev_Action event of
        EventCreate \<Rightarrow>
          (case OnAddressCreated enum event s of
             (u, s') \<Rightarrow>
               (if u = AddressUpdateCreated
                then [UserAddressCreated uid (a_ID (ev_Address event)) (a_Email (ev_Address event))] else [], s'))
      | EventDelete \<Rightarrow>
          (case OnAddressDeleted enum event s of
             ((Some addr, AddressUpdateDeleted), s') \<Rightarrow> ([UserAddressDeleted uid (ev_ID event) (a_Email addr)], s')
           | (_, s') \<Rightarrow> ([], s'))
      | _ \<Rightarrow>
          (case OnAddressUpdated enum event s of
             ((addr, st), s') \<Rightarrow> (published_update uid addr st, s')))"

fun HandleAddressEvents :: "'k map_order \<Rightarrow> 'k AddressEvent list \<Rightarrow> 'k State \<Rightarrow> published list \<times> 'k State" where
  "HandleAddressEvents enum [] s = ([], s)"
| "HandleAddressEvents enum (event # events) s =
     (case HandleAddressEvent enum event s of
        (ps, s1) \<Rightarrow> (case HandleAddressEvents enum events s1 of (qs, s2) \<Rightarrow> (ps @ qs, s2)))"

definition HandleRefreshEvent ::
  "'k map_order \<Rightarrow> 'e + 'k User \<Rightarrow> 'e + 'k Address list \<Rightarrow> 'k State \<Rightarrow> 'e option \<times> published list \<times> 'k State" where
  "HandleRefreshEvent enum getUser getAddresses s =
     (case OnRefreshEvent enum getUser getAddresses s of
        (Some e, s') \<Rightarrow> (Some e, [], s')
      | (None, s') \<Rightarrow> (None, [UserRefreshed (u_ID (st_User s')) False], s'))"

text \<open>What the service's goroutine does with one request or event.\<close>

datatype ('k, 'e) identity_input =
    ResyncReq "'e + 'k User" "'e + 'k Address list"
  | GetUserReq
  | GetAddressesReq
  | CheckAuthReq string string
  | UsedSpaceEvent int64
  | UserEvent "'k User"
  | AddressEvents "'k AddressEvent list"
  | RefreshEvent "'e + 'k User" "'e + 'k Address list"

datatype ('k, 'e) identity_reply =
    NoReply
  | ErrReply "'e option"
  | UserReply "'k User"
  | AddressesReply "'k address_map"
  | AuthReply "auth_err + string"

fun identity_step ::
  "'k map_order \<Rightarrow> nat list \<Rightarrow> ('k, 'e) identity_input \<Rightarrow> 'k State \<Rightarrow>
     (('k, 'e) identity_reply \<times> published list \<times> 'k State) option" where
  "identity_step enum bp (ResyncReq gu ga) s =
     (case OnRefreshEvent enum gu ga s of (err, s') \<Rightarrow> Some (ErrReply err, [], s'))"
| "identity_step enum bp GetUserReq s = Some (UserReply (st_User s), [], s)"
| "identity_step enum bp GetAddressesReq s = Some (AddressesReply (Addresses s), [], s)"
| "identity_step enum bp (CheckAuthReq email pass) s =
     map_option (\<lambda>r. (AuthReply r, [], s)) (CheckAuth email pass bp s)"
| "identity_step enum bp (UsedSpaceEvent n) s = (case HandleUsedSpaceEvent n s of (ps, s') \<Rightarrow> Some (NoReply, ps, s'))"
| "identity_step enum bp (UserEvent u) s = (case HandleUserEvent u s of (ps, s') \<Rightarrow> Some (NoReply, ps, s'))"
| "identity_step enum bp (AddressEvents es) s =
     (case HandleAddressEvents enum es s of (ps, s') \<Rightarrow> Some (NoReply, ps, s'))"
| "identity_step enum bp (RefreshEvent gu ga) s =
     (case HandleRefreshEvent enum gu ga s of (err, ps, s') \<Rightarrow> Some (ErrReply err, ps, s'))"

fun identity_run ::
  "'k map_order \<Rightarrow> nat list \<Rightarrow> ('k, 'e) identity_input list \<Rightarrow> 'k State \<Rightarrow> (published list \<times> 'k State) option" where
  "identity_run enum bp [] s = Some ([], s)"
| "identity_run enum bp (i # is) s =
     (case identity_step enum bp i s of
        None \<Rightarrow> None
      | Some (r, ps, s1) \<Rightarrow> map_option (\<lambda>(qs, s2). (ps @ qs, s2)) (identity_run enum bp is s1))"

subsection \<open>The invariant\<close>

definition identity_inv :: "'k map_order \<Rightarrow> 'k State \<Rightarrow> bool" where
  "identity_inv enum s \<longleftrightarrow> finite (dom (Addresses s)) \<and> (\<forall>i a. Addresses s i = Some a \<longrightarrow> a_ID a = i) \<and>
     AddressesSorted s = sortAddresses (enum (Addresses s))"

lemma set_enum:
  assumes "enum_ok enum" and "finite (dom m)"
  shows "set (enum m) = ran m"
proof -
  have "mset (enum m) = image_mset (\<lambda>i. the (m i)) (mset_set (dom m))"
    using assms by (simp add: enum_ok_def)
  then have "set_mset (mset (enum m)) = (\<lambda>i. the (m i)) ` dom m" using assms(2) by simp
  then show ?thesis by (force simp: ran_def)
qed

lemma sorted_set:
  assumes "enum_ok enum" and "identity_inv enum s"
  shows "set (AddressesSorted s) = ran (Addresses s)" and "sorted (map a_Order (AddressesSorted s))"
  using assms by (simp_all add: identity_inv_def sortAddresses_def set_enum)

lemma GroupBy_inv:
  assumes "finite (dom m)" and "\<forall>i v. m i = Some v \<longrightarrow> key v = i"
  shows "finite (dom (foldl (\<lambda>g v. g(key v \<mapsto> v)) m vs)) \<and>
     (\<forall>i v. foldl (\<lambda>g v. g(key v \<mapsto> v)) m vs i = Some v \<longrightarrow> key v = i)"
  using assms
proof (induction vs arbitrary: m)
  case (Cons v vs)
  have "\<forall>i w. (m(key v \<mapsto> v)) i = Some w \<longrightarrow> key w = i" using Cons.prems(2) by simp
  moreover have "finite (dom (m(key v \<mapsto> v)))" using Cons.prems(1) by simp
  ultimately show ?case unfolding foldl_Cons by (intro Cons.IH)
qed simp

lemma NewState_inv [inv_intro]: "identity_inv enum (NewState enum user addrs)"
  using GroupBy_inv[of Map.empty a_ID addrs]
  by (simp add: identity_inv_def NewState_def buildAddressMapFromSlice_def GroupBy_def Let_def)

lemma set_addresses_inv:
  assumes "finite (dom m)" and "\<forall>i a. m i = Some a \<longrightarrow> a_ID a = i"
  shows "identity_inv enum (set_addresses enum m s)"
  using assms by (simp add: identity_inv_def set_addresses_def)

lemma set_addresses_simps [simp]:
  "Addresses (set_addresses enum m s) = m" "st_User (set_addresses enum m s) = st_User s"
  by (simp_all add: set_addresses_def)

lemma upd_inv: "identity_inv enum s \<Longrightarrow> identity_inv enum (set_addresses enum ((Addresses s)(a_ID a \<mapsto> a)) s)"
  by (rule set_addresses_inv) (auto simp: identity_inv_def)

lemma del_inv: "identity_inv enum s \<Longrightarrow> identity_inv enum (set_addresses enum ((Addresses s)(i := None)) s)"
  by (rule set_addresses_inv) (auto simp: identity_inv_def split: if_splits)

lemma OnAddressCreated_inv [inv_intro]:
  "identity_inv enum s \<Longrightarrow> identity_inv enum (snd (OnAddressCreated enum e s))"
  by (simp add: OnAddressCreated_def Let_def upd_inv)

lemma OnAddressUpdated_inv [inv_intro]:
  assumes "identity_inv enum s"
  shows "identity_inv enum (snd (OnAddressUpdated enum e s))"
proof (cases "Addresses s (a_ID (ev_Address e))")
  case None
  then have "snd (OnAddressUpdated enum e s) = snd (OnAddressCreated enum e s)"
    by (simp add: OnAddressUpdated_def Let_def split: prod.splits)
  then show ?thesis using OnAddressCreated_inv[OF assms] by simp
next
  case (Some old)
  then have "snd (OnAddressUpdated enum e s) =
      set_addresses enum ((Addresses s)(a_ID (ev_Address e) \<mapsto> ev_Address e)) s"
    by (simp add: OnAddressUpdated_def Let_def)
  then show ?thesis using upd_inv[OF assms] by simp
qed

lemma OnAddressDeleted_inv [inv_intro]:
  "identity_inv enum s \<Longrightarrow> identity_inv enum (snd (OnAddressDeleted enum e s))"
  by (simp add: OnAddressDeleted_def Let_def del_inv split: option.splits)

lemma HandleAddressEvent_state:
  "snd (HandleAddressEvent enum e s) = OnAddressEvents enum [e] s"
  by (cases "ev_Action e")
    (auto simp: HandleAddressEvent_def Let_def case_prod_beta split: option.splits AddressUpdate.splits)

lemma OnAddressEvents_Cons:
  "OnAddressEvents enum (e # es) s = OnAddressEvents enum es (OnAddressEvents enum [e] s)"
  by simp

lemma HandleAddressEvents_state: "snd (HandleAddressEvents enum es s) = OnAddressEvents enum es s"
proof (induction es arbitrary: s)
  case (Cons e es)
  then show ?case using HandleAddressEvent_state[of enum e s]
    by (simp add: case_prod_beta del: OnAddressEvents.simps(2)) (simp add: OnAddressEvents_Cons[of enum e es s] del: OnAddressEvents.simps(2))
qed simp

lemma OnAddressEvents_inv [inv_intro]: "identity_inv enum s \<Longrightarrow> identity_inv enum (OnAddressEvents enum es s)"
  by (induction es arbitrary: s)
    (auto split: EventAction.splits intro: OnAddressCreated_inv OnAddressUpdated_inv OnAddressDeleted_inv)

lemma OnRefreshEvent_inv [inv_intro]:
  "identity_inv enum s \<Longrightarrow> identity_inv enum (snd (OnRefreshEvent enum gu ga s))"
  using GroupBy_inv[of Map.empty a_ID]
  by (auto simp: OnRefreshEvent_def buildAddressMapFromSlice_def GroupBy_def split: sum.splits intro!: set_addresses_inv)

lemma user_inv: "identity_inv enum (s\<lparr>st_User := u\<rparr>) = identity_inv enum s"
  by (simp add: identity_inv_def)

lemma identity_step_inv:
  assumes "identity_inv enum s" and "identity_step enum bp i s = Some (r, ps, s')"
  shows "identity_inv enum s'"
proof (cases i)
  case (AddressEvents es)
  then have "s' = OnAddressEvents enum es s"
    using assms(2) HandleAddressEvents_state[of enum es s] by (auto split: prod.splits)
  then show ?thesis using OnAddressEvents_inv[OF assms(1)] by simp
next
  case (ResyncReq gu ga)
  then show ?thesis using assms OnRefreshEvent_inv[OF assms(1), of gu ga] by (auto split: prod.splits)
next
  case (RefreshEvent gu ga)
  then show ?thesis using assms OnRefreshEvent_inv[OF assms(1), of gu ga]
    by (auto simp: HandleRefreshEvent_def split: prod.splits option.splits)
qed (use assms in \<open>auto simp: HandleUsedSpaceEvent_def OnUserSpaceChanged_def HandleUserEvent_def OnUserEvent_def
    user_inv split: prod.splits if_splits\<close>)

lemma identity_run_inv:
  "identity_inv enum s \<Longrightarrow> identity_run enum bp is s = Some (ps, s') \<Longrightarrow> identity_inv enum s'"
proof (induction "is" arbitrary: s ps)
  case (Cons i "is")
  obtain r ps1 s1 where st: "identity_step enum bp i s = Some (r, ps1, s1)"
    using Cons.prems(2) by (auto split: option.splits)
  obtain qs where "identity_run enum bp is s1 = Some (qs, s')" using Cons.prems(2) st by auto
  then show ?case using Cons.IH identity_step_inv[OF Cons.prems(1) st] by blast
qed simp

subsection \<open>What subscribers see\<close>

definition enabled_ids :: "'k State \<Rightarrow> string set" where
  "enabled_ids s = {i. \<exists>a. Addresses s i = Some a \<and> a_Status a = AddressStatusEnabled}"

text \<open>A subscriber that keeps the set of enabled addresses from what is published.\<close>

fun mirror :: "published \<Rightarrow> string set \<Rightarrow> string set" where
  "mirror (UserAddressCreated _ i _) A = insert i A"
| "mirror (UserAddressEnabled _ i _) A = insert i A"
| "mirror (UserAddressDisabled _ i _) A = A - {i}"
| "mirror (UserAddressDeleted _ i _) A = A - {i}"
| "mirror _ A = A"

lemma enabled_ids_set:
  "enabled_ids (set_addresses enum (m(i \<mapsto> a)) s) =
     (if a_Status a = AddressStatusEnabled then insert i {j. \<exists>a. m j = Some a \<and> a_Status a = AddressStatusEnabled}
      else {j. \<exists>a. m j = Some a \<and> a_Status a = AddressStatusEnabled} - {i})"
  "enabled_ids (set_addresses enum (m(i := None)) s) = {j. \<exists>a. m j = Some a \<and> a_Status a = AddressStatusEnabled} - {i}"
  by (auto simp: enabled_ids_def)

lemma mirror_created:
  "fold mirror (if fst (OnAddressCreated enum e s) = AddressUpdateCreated
       then [UserAddressCreated uid (a_ID (ev_Address e)) em] else []) (enabled_ids s) =
   enabled_ids (snd (OnAddressCreated enum e s))"
  by (auto simp: OnAddressCreated_def Let_def enabled_ids_def)

lemma mirror_event:
  assumes "HandleAddressEvent enum e s = (ps, s')"
  shows "fold mirror ps (enabled_ids s) = enabled_ids s'"
proof -
  let ?a = "ev_Address e"
  have upd: "fold mirror (published_update u ?a (snd (fst (OnAddressUpdated enum e s)))) (enabled_ids s) =
      enabled_ids (snd (OnAddressUpdated enum e s))" for u
    by (cases "Addresses s (a_ID ?a)")
      (auto simp: OnAddressUpdated_def OnAddressCreated_def Let_def enabled_ids_def published_update_def)
  have same: "fst (fst (OnAddressUpdated enum e s)) = ?a"
    by (auto simp: OnAddressUpdated_def Let_def split: option.splits prod.splits)
  show ?thesis
  proof (cases "ev_Action e")
    case EventDelete
    then show ?thesis using assms
      by (auto simp: HandleAddressEvent_def OnAddressDeleted_def Let_def enabled_ids_def
          split: option.splits if_splits)
  next
    case EventCreate
    then show ?thesis using assms mirror_created[of enum e s "u_ID (st_User s)" "a_Email ?a"]
      by (auto simp: HandleAddressEvent_def Let_def split: prod.splits)
  next
    case EventUpdate
    then show ?thesis using assms upd[of "u_ID (st_User s)"] same
      by (auto simp: HandleAddressEvent_def Let_def case_prod_beta)
  next
    case EventUpdateFlags
    then show ?thesis using assms upd[of "u_ID (st_User s)"] same
      by (auto simp: HandleAddressEvent_def Let_def case_prod_beta)
  qed
qed

lemma find_sorted_min:
  assumes "sorted (map f xs)" and "find P xs = Some x" and "y \<in> set xs" and "P y"
  shows "f x \<le> f y"
  using assms by (induction xs) (auto split: if_splits)

lemma primary_min:
  assumes "set xs = R" and "sorted (map f xs)" and "xs = p # ys"
  shows "p \<in> R \<and> (\<forall>a \<in> R. f p \<le> f a)"
  using assms by auto

subsection \<open>Properties\<close>

text \<open>
  Property C31. Whatever requests and events the identity service has handled, its two views of the
  addresses agree: the sorted slice holds exactly the addresses of the map, in ascending
  order, every address is stored under its own ID, and the primary address is one of
  lowest order.
\<close>

theorem identity_views_agree:
  assumes "enum_ok enum" and "identity_run enum bp is (NewState enum user addrs) = Some (ps, s)"
  shows "set (AddressesSorted s) = ran (Addresses s) \<and> sorted (map a_Order (AddressesSorted s)) \<and>
     (\<forall>i a. Addresses s i = Some a \<longrightarrow> a_ID a = i) \<and>
     (\<forall>p. GetPrimaryAddr s = Some p \<longrightarrow> p \<in> ran (Addresses s) \<and> (\<forall>a \<in> ran (Addresses s). a_Order p \<le> a_Order a))"
proof -
  have inv: "identity_inv enum s" by (rule identity_run_inv[OF NewState_inv assms(2)])
  note views = sorted_set[OF assms(1) inv]
  have "p \<in> ran (Addresses s) \<and> (\<forall>a \<in> ran (Addresses s). a_Order p \<le> a_Order a)" if "GetPrimaryAddr s = Some p" for p
  proof -
    have "AddressesSorted s = p # tl (AddressesSorted s)"
      using that by (cases "AddressesSorted s") (auto simp: GetPrimaryAddr_def)
    then show ?thesis using primary_min[OF views] by blast
  qed
  then show ?thesis using views inv by (simp add: identity_inv_def)
qed

text \<open>A range in the order of the keys, and an account with two addresses.\<close>

definition key_order :: "'k map_order" where
  "key_order m = map (\<lambda>i. the (m i)) (sorted_list_of_set (dom m))"

lemma key_order_ok: "enum_ok key_order"
  unfolding enum_ok_def key_order_def
  by (metis mset_map mset_sorted_list_of_multiset sorted_list_of_mset_set)

definition ex_addr :: "string \<Rightarrow> string \<Rightarrow> AddressStatus \<Rightarrow> int \<Rightarrow> unit Address" where
  "ex_addr i em st n = \<lparr>a_ID = i, a_Email = em, a_Status = st, a_Order = n, a_Send = True, a_Type = AddressTypeOriginal, a_Keys = ()\<rparr>"

definition ex_user :: "unit User" where
  "ex_user = \<lparr>u_ID = ''u'', u_Name = ''user'', u_UsedSpace = 0, u_Keys = ()\<rparr>"

definition ex_identity :: "unit State" where
  "ex_identity = NewState key_order ex_user
     [ex_addr ''1'' ''old@pm.me'' AddressStatusDisabled 1, ex_addr ''2'' ''me@pm.me'' AddressStatusEnabled 2]"

definition ex_events :: "unit AddressEvent list" where
  "ex_events = [\<lparr>ev_ID = ''1'', ev_Action = EventUpdate, ev_Address = ex_addr ''1'' ''old@pm.me'' AddressStatusEnabled 1\<rparr>,
     \<lparr>ev_ID = ''2'', ev_Action = EventDelete, ev_Address = ex_addr [] [] AddressStatusDisabled 0\<rparr>]"

theorem identity_views_agree_witness:
  "\<exists>ps s. identity_run key_order [] [GetUserReq, AddressEvents ex_events :: (unit, unit) identity_input] ex_identity = Some (ps, s) \<and>
     set (AddressesSorted s) = ran (Addresses s) \<and> sorted (map a_Order (AddressesSorted s))"
proof -
  obtain ps s where r: "identity_run key_order [] [GetUserReq, AddressEvents ex_events :: (unit, unit) identity_input] ex_identity = Some (ps, s)"
    by (cases "HandleAddressEvents key_order ex_events ex_identity") auto
  show ?thesis using identity_views_agree[OF key_order_ok r[unfolded ex_identity_def]] r by blast
qed

text \<open>
  What the service publishes while handling address events is enough to know the enabled
  addresses: a subscriber that adds created and enabled addresses and removes disabled and
  deleted ones always has the set the service has, and a replica of the state that
  applies the same events equals the service's.
\<close>

theorem address_events_mirror:
  "fold mirror (fst (HandleAddressEvents enum es s)) (enabled_ids s) = enabled_ids (snd (HandleAddressEvents enum es s)) \<and>
   snd (HandleAddressEvents enum es s) = OnAddressEvents enum es s"
proof -
  have "fold mirror (fst (HandleAddressEvents enum es s)) (enabled_ids s) = enabled_ids (snd (HandleAddressEvents enum es s))"
  proof (induction es arbitrary: s)
    case (Cons e es)
    obtain ps s1 where "HandleAddressEvent enum e s = (ps, s1)" by (cases "HandleAddressEvent enum e s")
    then show ?case using mirror_event[of enum e s ps s1] Cons.IH[of s1] by (simp add: case_prod_beta)
  qed simp
  then show ?thesis using HandleAddressEvents_state by blast
qed



end
