(* ===== verification/Send_Prefs.thy ===== *)
theory Send_Prefs
  imports Bridge_Prelude "HOL-Library.AList"
begin

section \<open>Send preferences\<close>

text \<open>
  Models \<^verbatim>\<open>internal/services/smtp/smtp_prefs.go\<close> and \<^verbatim>\<open>smtp_packages.go\<close>: how the contact's settings, the
  keys served by the API, the user's mail settings and the composer determine encryption,
  signature, scheme, format and key for one recipient, and how the recipients are put
  into packages. OpenPGP keys and the packages themselves belong to libraries and are
  parameters. \<open>None\<close> is a panic.
\<close>

subsection \<open>Data\<close>

datatype EncryptionScheme =
    InternalScheme
  | EncryptedOutsideScheme
  | ClearScheme
  | PGPInlineScheme
  | PGPMIMEScheme
  | ClearMIMEScheme

datatype SignatureType = NoSignature | DetachedSignature

definition pgpInline :: string where "pgpInline = ''pgp-inline''"
definition pgpMIME :: string where "pgpMIME = ''pgp-mime''"
definition pmInternal :: string where "pmInternal = ''internal''"

abbreviation TextHTML :: string where "TextHTML \<equiv> ''text/html''"
abbreviation TextPlain :: string where "TextPlain \<equiv> ''text/plain''"
abbreviation MultipartMixed :: string where "MultipartMixed \<equiv> ''multipart/mixed''"

text \<open>The settings the API returns for a contact; \<^verbatim>\<open>nil\<close> is \<open>None\<close>.\<close>

record 'key ContactSettings =
  cs_MIMEType :: "string option"
  cs_Keys :: "'key list"
  cs_Scheme :: "EncryptionScheme option"
  cs_Sign :: "bool option"
  cs_Encrypt :: "bool option"
  cs_EncryptUntrusted :: "bool option"

record MailSettings =
  ms_Sign :: int
  ms_PGPScheme :: EncryptionScheme
  ms_DraftMIMEType :: string
  ms_AttachPublicKey :: bool

record contactSettings =
  Keys :: "string list"
  Scheme :: string
  Sign :: bool
  SignIsSet :: bool
  Encrypt :: bool
  EncryptUntrusted :: bool
  MIMEType :: string

record 'kr SendPreferences =
  sp_Encrypt :: bool
  sp_PubKey :: "'kr option"
  sp_SignatureType :: SignatureType
  sp_EncryptionScheme :: EncryptionScheme
  sp_MIMEType :: string

text \<open>The OpenPGP library: serialised and armored keys, fingerprints and key rings.\<close>

record ('key, 'kr, 'e) pgp =
  pg_Serialize :: "'key \<Rightarrow> 'e + string"
  pg_NewKey :: "string \<Rightarrow> 'e + 'key"
  pg_NewKeyFromArmored :: "string \<Rightarrow> 'e + 'key"
  pg_GetFingerprint :: "'key \<Rightarrow> string"
  pg_NewKeyRing :: "'key \<Rightarrow> 'e + 'kr"

datatype 'e prefs_err = ErrPGP 'e | ErrNoAPIKey

definition empty_contactSettings :: contactSettings where
  "empty_contactSettings =
     \<lparr>Keys = [], Scheme = '''', Sign = False, SignIsSet = False, Encrypt = False, EncryptUntrusted = False, MIMEType = ''''\<rparr>"

subsection \<open>Contact settings\<close>

fun serialize_all :: "('key \<Rightarrow> 'e + string) \<Rightarrow> 'key list \<Rightarrow> string list option" where
  "serialize_all ser [] = Some []"
| "serialize_all ser (k # ks) =
     (case ser k of Inl _ \<Rightarrow> None | Inr b \<Rightarrow> map_option (\<lambda>bs. b # bs) (serialize_all ser ks))"

definition newContactSettings :: "('key \<Rightarrow> 'e + string) \<Rightarrow> 'key ContactSettings \<Rightarrow> contactSettings option" where
  "newContactSettings ser settings =
     (let m0 = empty_contactSettings;
          m1 = (case cs_MIMEType settings of Some t \<Rightarrow> m0\<lparr>MIMEType := t\<rparr> | None \<Rightarrow> m0);
          m2 = (case cs_Sign settings of Some b \<Rightarrow> m1\<lparr>Sign := b, SignIsSet := True\<rparr> | None \<Rightarrow> m1);
          m3 = (case cs_Encrypt settings of Some b \<Rightarrow> m2\<lparr>Encrypt := b\<rparr> | None \<Rightarrow> m2);
          m4 = (case cs_EncryptUntrusted settings of Some b \<Rightarrow> m3\<lparr>EncryptUntrusted := b\<rparr>
                | None \<Rightarrow> m3\<lparr>EncryptUntrusted := True\<rparr>)
      in case cs_Scheme settings of
           None \<Rightarrow> map_option (\<lambda>ks. m4\<lparr>Keys := ks\<rparr>) (serialize_all ser (cs_Keys settings))
         | Some PGPMIMEScheme \<Rightarrow>
             map_option (\<lambda>ks. m4\<lparr>Scheme := pgpMIME, Keys := ks\<rparr>) (serialize_all ser (cs_Keys settings))
         | Some PGPInlineScheme \<Rightarrow>
             map_option (\<lambda>ks. m4\<lparr>Scheme := pgpInline, Keys := ks\<rparr>) (serialize_all ser (cs_Keys settings))
         | Some _ \<Rightarrow> None)"

subsection \<open>The builder\<close>

record 'kr sendPrefsBuilder =
  b_internal :: bool
  b_encrypt :: "bool option"
  b_sign :: "bool option"
  b_scheme :: "string option"
  b_mimeType :: "string option"
  b_publicKey :: "'kr option"

definition empty_builder :: "'kr sendPrefsBuilder" where
  "empty_builder = \<lparr>b_internal = False, b_encrypt = None, b_sign = None, b_scheme = None, b_mimeType = None, b_publicKey = None\<rparr>"

definition withInternal :: "'kr sendPrefsBuilder \<Rightarrow> 'kr sendPrefsBuilder" where
  "withInternal b = b\<lparr>b_internal := True\<rparr>"

definition withEncrypt :: "bool \<Rightarrow> 'kr sendPrefsBuilder \<Rightarrow> 'kr sendPrefsBuilder" where
  "withEncrypt v b = b\<lparr>b_encrypt := Some v\<rparr>"

definition withEncryptDefault :: "bool \<Rightarrow> 'kr sendPrefsBuilder \<Rightarrow> 'kr sendPrefsBuilder" where
  "withEncryptDefault v b = (if b_encrypt b = None then b\<lparr>b_encrypt := Some v\<rparr> else b)"

definition shouldEncrypt :: "'kr sendPrefsBuilder \<Rightarrow> bool" where
  "shouldEncrypt b = (case b_encrypt b of Some v \<Rightarrow> v | None \<Rightarrow> False)"

definition withSign :: "bool \<Rightarrow> 'kr sendPrefsBuilder \<Rightarrow> 'kr sendPrefsBuilder" where
  "withSign v b = b\<lparr>b_sign := Some v\<rparr>"

definition withSignDefault :: "'kr sendPrefsBuilder \<Rightarrow> 'kr sendPrefsBuilder" where
  "withSignDefault b = (if b_sign b = None then b\<lparr>b_sign := Some True\<rparr> else b)"

definition shouldSign :: "'kr sendPrefsBuilder \<Rightarrow> bool" where
  "shouldSign b = (case b_sign b of Some v \<Rightarrow> v | None \<Rightarrow> False)"

definition withScheme :: "string \<Rightarrow> 'kr sendPrefsBuilder \<Rightarrow> 'kr sendPrefsBuilder" where
  "withScheme v b = b\<lparr>b_scheme := Some v\<rparr>"

definition withSchemeDefault :: "string \<Rightarrow> 'kr sendPrefsBuilder \<Rightarrow> 'kr sendPrefsBuilder" where
  "withSchemeDefault v b = (if b_scheme b = None then b\<lparr>b_scheme := Some v\<rparr> else b)"

definition getScheme :: "'kr sendPrefsBuilder \<Rightarrow> string" where
  "getScheme b = (case b_scheme b of Some v \<Rightarrow> v | None \<Rightarrow> '''')"

definition withMIMEType :: "string \<Rightarrow> 'kr sendPrefsBuilder \<Rightarrow> 'kr sendPrefsBuilder" where
  "withMIMEType v b = b\<lparr>b_mimeType := Some v\<rparr>"

definition withMIMETypeDefault :: "string \<Rightarrow> 'kr sendPrefsBuilder \<Rightarrow> 'kr sendPrefsBuilder" where
  "withMIMETypeDefault v b = (if b_mimeType b = None then b\<lparr>b_mimeType := Some v\<rparr> else b)"

definition removeMIMEType :: "'kr sendPrefsBuilder \<Rightarrow> 'kr sendPrefsBuilder" where
  "removeMIMEType b = b\<lparr>b_mimeType := None\<rparr>"

definition getMIMEType :: "'kr sendPrefsBuilder \<Rightarrow> string" where
  "getMIMEType b = (case b_mimeType b of Some v \<Rightarrow> v | None \<Rightarrow> '''')"

definition withPublicKey :: "'kr \<Rightarrow> 'kr sendPrefsBuilder \<Rightarrow> 'kr sendPrefsBuilder" where
  "withPublicKey kr b = b\<lparr>b_publicKey := Some kr\<rparr>"

definition build :: "'kr sendPrefsBuilder \<Rightarrow> 'kr SendPreferences" where
  "build b =
     \<lparr>sp_Encrypt = shouldEncrypt b, sp_PubKey = b_publicKey b,
      sp_SignatureType = (if shouldSign b then DetachedSignature else NoSignature),
      sp_EncryptionScheme =
        (if b_internal b then InternalScheme
         else if shouldSign b \<and> shouldEncrypt b
         then (if getScheme b = pgpInline then PGPInlineScheme else PGPMIMEScheme)
         else if shouldSign b \<and> \<not> shouldEncrypt b
         then (if getScheme b = pgpInline then ClearScheme else ClearMIMEScheme)
         else ClearScheme),
      sp_MIMEType = getMIMEType b\<rparr>"

lemmas builder_defs = withInternal_def withEncrypt_def withEncryptDefault_def shouldEncrypt_def withSign_def
  withSignDefault_def shouldSign_def withScheme_def withSchemeDefault_def getScheme_def withMIMEType_def
  withMIMETypeDefault_def removeMIMEType_def getMIMEType_def withPublicKey_def

subsection \<open>Choosing the key\<close>

fun parse_all :: "('a \<Rightarrow> 'e + 'key) \<Rightarrow> 'a list \<Rightarrow> 'e + 'key list" where
  "parse_all p [] = Inr []"
| "parse_all p (x # xs) =
     (case p x of Inl e \<Rightarrow> Inl e | Inr k \<Rightarrow> (case parse_all p xs of Inl e \<Rightarrow> Inl e | Inr ks \<Rightarrow> Inr (k # ks)))"

definition matchFingerprints :: "('key \<Rightarrow> string) \<Rightarrow> 'key list \<Rightarrow> 'key list \<Rightarrow> 'key list" where
  "matchFingerprints fpr a b =
     (let aMap = foldl (\<lambda>m el. m(fpr el \<mapsto> el)) Map.empty a
      in filter (\<lambda>el. aMap (fpr el) \<noteq> None) b)"

definition pickSendingKey ::
  "('key, 'kr, 'e) pgp \<Rightarrow> contactSettings \<Rightarrow> string list \<Rightarrow> ('e prefs_err + 'kr) option" where
  "pickSendingKey G vCardData rawAPIKeys =
     (case parse_all (pg_NewKey G) (Keys vCardData) of
        Inl e \<Rightarrow> Some (Inl (ErrPGP e))
      | Inr contactKeys \<Rightarrow>
          (case parse_all (pg_NewKeyFromArmored G) rawAPIKeys of
             Inl e \<Rightarrow> Some (Inl (ErrPGP e))
           | Inr apiKeys \<Rightarrow>
               (let matchedKeys = matchFingerprints (pg_GetFingerprint G) contactKeys apiKeys;
                    sendingKey = (if matchedKeys \<noteq> [] then Some (hd matchedKeys)
                                  else if apiKeys = [] then None else Some (hd apiKeys))
                in case sendingKey of
                     None \<Rightarrow> None
                   | Some k \<Rightarrow> Some (map_sum ErrPGP id (pg_NewKeyRing G k)))))"

subsection \<open>Settings\<close>

definition setInternalPGPSettings ::
  "('key, 'kr, 'e) pgp \<Rightarrow> contactSettings \<Rightarrow> string list \<Rightarrow> 'kr sendPrefsBuilder \<Rightarrow>
     ('e prefs_err + 'kr sendPrefsBuilder) option" where
  "setInternalPGPSettings G vCardData apiKeys b0 =
     (if apiKeys = [] then Some (Inl ErrNoAPIKey)
      else let b1 = withScheme pmInternal (withSign True (withEncrypt True b0));
               b2 = (if MIMEType vCardData \<noteq> '''' then withMIMEType (MIMEType vCardData) b1 else b1)
           in map_option (map_sum id (\<lambda>kr. withPublicKey kr b2)) (pickSendingKey G vCardData apiKeys))"

definition setExternalPGPSettingsWithWKDKeys ::
  "('key, 'kr, 'e) pgp \<Rightarrow> contactSettings \<Rightarrow> string list \<Rightarrow> 'kr sendPrefsBuilder \<Rightarrow>
     ('e prefs_err + 'kr sendPrefsBuilder) option" where
  "setExternalPGPSettingsWithWKDKeys G vCardData apiKeys b0 =
     (if apiKeys = [] then Some (Inl ErrNoAPIKey)
      else let b1 = withEncrypt (EncryptUntrusted vCardData) b0;
               b2 = (if EncryptUntrusted vCardData then withSign True b1
                     else if SignIsSet vCardData then withSign (Sign vCardData) b1 else b1);
               b3 = (if Scheme vCardData \<noteq> '''' then withScheme (Scheme vCardData) b2 else b2);
               b4 = (if Scheme vCardData = pgpMIME then removeMIMEType b3
                     else if Scheme vCardData = pgpInline then withMIMEType TextPlain b3 else b3)
           in map_option (map_sum id (\<lambda>kr. withPublicKey kr b4)) (pickSendingKey G vCardData apiKeys))"

definition setExternalPGPSettingsWithoutWKDKeys ::
  "('key, 'kr, 'e) pgp \<Rightarrow> contactSettings \<Rightarrow> 'kr sendPrefsBuilder \<Rightarrow> 'e prefs_err + 'kr sendPrefsBuilder" where
  "setExternalPGPSettingsWithoutWKDKeys G vCardData b0 =
     (let b1 = withEncrypt (Encrypt vCardData) b0;
          b2 = (if SignIsSet vCardData then withSign (Sign vCardData) b1 else b1);
          b3 = (if Encrypt vCardData then withSign True b2 else b2);
          b4 = (if Scheme vCardData \<noteq> '''' then withScheme (Scheme vCardData) b3 else b3);
          b5 = (if Sign vCardData
                then (if Scheme vCardData = pgpMIME then removeMIMEType b4
                      else if Scheme vCardData = pgpInline then withMIMEType TextPlain b4 else b4)
                else if MIMEType vCardData \<noteq> '''' then withMIMEType (MIMEType vCardData) b4 else b4)
      in case Keys vCardData of
           [] \<Rightarrow> Inr b5
         | k # _ \<Rightarrow>
             (case pg_NewKey G k of
                Inl e \<Rightarrow> Inl (ErrPGP e)
              | Inr key \<Rightarrow>
                  (case pg_NewKeyRing G key of Inl e \<Rightarrow> Inl (ErrPGP e) | Inr kr \<Rightarrow> Inr (withPublicKey kr b5))))"

definition setPGPSettings ::
  "('key, 'kr, 'e) pgp \<Rightarrow> contactSettings \<Rightarrow> string list \<Rightarrow> bool \<Rightarrow> 'kr sendPrefsBuilder \<Rightarrow>
     ('e prefs_err + 'kr sendPrefsBuilder) option" where
  "setPGPSettings G vCardData apiKeys isInternal b =
     (if isInternal then setInternalPGPSettings G vCardData apiKeys (withInternal b)
      else if apiKeys \<noteq> [] then setExternalPGPSettingsWithWKDKeys G vCardData apiKeys b
      else Some (setExternalPGPSettingsWithoutWKDKeys G vCardData b))"

definition setEncryptionPreferences :: "MailSettings \<Rightarrow> 'kr sendPrefsBuilder \<Rightarrow> 'kr sendPrefsBuilder" where
  "setEncryptionPreferences mailSettings b0 =
     (let b1 = withEncryptDefault False b0;
          b2 = (if ms_Sign mailSettings > 0 then withSignDefault b1 else b1);
          b3 = (if shouldEncrypt b2 then withSign True b2 else b2);
          b4 = (case ms_PGPScheme mailSettings of
                  PGPInlineScheme \<Rightarrow> withSchemeDefault pgpInline b3
                | PGPMIMEScheme \<Rightarrow> withSchemeDefault pgpMIME b3
                | _ \<Rightarrow> b3)
      in if shouldSign b4 \<and> getScheme b4 = pgpInline then withMIMEType TextPlain b4
         else withMIMETypeDefault (ms_DraftMIMEType mailSettings) b4)"

definition setMIMEPreferences :: "string \<Rightarrow> 'kr sendPrefsBuilder \<Rightarrow> 'kr sendPrefsBuilder" where
  "setMIMEPreferences composerMIMEType b =
     (if \<not> b_internal b \<and> shouldSign b
      then (if getScheme b = pgpInline then withMIMEType TextPlain b else withMIMEType MultipartMixed b)
      else if composerMIMEType = TextPlain then withMIMEType TextPlain b
      else b)"

definition buildSendPrefs ::
  "('key, 'kr, 'e) pgp \<Rightarrow> 'key ContactSettings \<Rightarrow> MailSettings \<Rightarrow> string list \<Rightarrow> string \<Rightarrow> bool \<Rightarrow>
     ('e prefs_err + 'kr SendPreferences) option" where
  "buildSendPrefs G contact mailSettings pubKeys mimeType isInternal =
     (case newContactSettings (pg_Serialize G) contact of
        None \<Rightarrow> None
      | Some vCardData \<Rightarrow>
          map_option
            (map_sum id (\<lambda>b. build (setMIMEPreferences mimeType (setEncryptionPreferences mailSettings b))))
            (setPGPSettings G vCardData pubKeys isInternal empty_builder))"

subsection \<open>Packages\<close>

text \<open>The map from addresses to preferences, as an association list with distinct addresses.\<close>

type_synonym 'kr recipients = "(string \<times> 'kr SendPreferences) list"

definition recipients_scheme :: "EncryptionScheme list \<Rightarrow> 'kr recipients \<Rightarrow> 'kr recipients" where
  "recipients_scheme schemes r = filter (\<lambda>(_, p). sp_EncryptionScheme p \<in> set schemes) r"

definition recipients_content :: "string list \<Rightarrow> 'kr recipients \<Rightarrow> 'kr recipients" where
  "recipients_content types r = filter (\<lambda>(_, p). sp_MIMEType p \<in> set types) r"

datatype 'e send_err = ErrPackage 'e | ErrInvalidMIMEType

text \<open>
  \<open>addMIME\<close> and \<open>addText\<close> are the library's \<^verbatim>\<open>AddMIMEPackage\<close> and \<^verbatim>\<open>AddTextPackage\<close>, with the key ring,
  the bodies and the attachment keys already given.
\<close>

definition add_if ::
  "('kr recipients \<Rightarrow> 'req \<Rightarrow> 'e + 'req) \<Rightarrow> 'kr recipients \<Rightarrow> 'e send_err + 'req \<Rightarrow> 'e send_err + 'req" where
  "add_if add recs r =
     (case r of Inl e \<Rightarrow> Inl e | Inr req \<Rightarrow> if recs \<noteq> [] then map_sum ErrPackage id (add recs req) else Inr req)"

definition createSendReq ::
  "('kr recipients \<Rightarrow> 'req \<Rightarrow> 'e + 'req) \<Rightarrow> (string \<Rightarrow> 'kr recipients \<Rightarrow> 'req \<Rightarrow> 'e + 'req) \<Rightarrow> 'req \<Rightarrow>
     'kr recipients \<Rightarrow> 'e send_err + 'req" where
  "createSendReq addMIME addText req0 recs =
     (let r1 = add_if addMIME (recipients_scheme [PGPMIMEScheme, ClearMIMEScheme] recs) (Inr req0);
          text = recipients_scheme [InternalScheme, ClearScheme, PGPInlineScheme] recs
      in if text = [] then r1
         else let r2 = add_if (addText TextHTML) (recipients_content [TextHTML] text) r1;
                  r3 = add_if (addText TextPlain) (recipients_content [TextPlain] text) r2
              in case r3 of
                   Inl e \<Rightarrow> Inl e
                 | Inr req \<Rightarrow> if recipients_content [MultipartMixed] text \<noteq> [] then Inl ErrInvalidMIMEType else Inr req)"

subsection \<open>What the preferences say\<close>

definition finish_prefs :: "MailSettings \<Rightarrow> string \<Rightarrow> 'kr sendPrefsBuilder \<Rightarrow> 'kr SendPreferences" where
  "finish_prefs ms t b = build (setMIMEPreferences t (setEncryptionPreferences ms b))"

lemma setEncryptionPreferences_keeps [simp]:
  "b_internal (setEncryptionPreferences ms b) = b_internal b"
  "b_publicKey (setEncryptionPreferences ms b) = b_publicKey b"
  "shouldEncrypt (setEncryptionPreferences ms b) = shouldEncrypt b"
  "shouldEncrypt b \<Longrightarrow> shouldSign (setEncryptionPreferences ms b)"
  by (auto simp: setEncryptionPreferences_def builder_defs Let_def split: EncryptionScheme.splits option.splits)

lemma setEncryptionPreferences_mime:
  "b_mimeType (setEncryptionPreferences ms b) \<in>
     {Some TextPlain, Some (ms_DraftMIMEType ms), b_mimeType b} - {None}"
  by (cases "b_mimeType b")
     (auto simp: setEncryptionPreferences_def builder_defs Let_def split: EncryptionScheme.splits option.splits)

lemma setMIMEPreferences_keeps [simp]:
  "b_internal (setMIMEPreferences t b) = b_internal b"
  "b_publicKey (setMIMEPreferences t b) = b_publicKey b"
  "shouldEncrypt (setMIMEPreferences t b) = shouldEncrypt b"
  "shouldSign (setMIMEPreferences t b) = shouldSign b"
  "getScheme (setMIMEPreferences t b) = getScheme b"
  by (auto simp: setMIMEPreferences_def builder_defs)

lemma finish_prefs_simps [simp]:
  "sp_Encrypt (finish_prefs ms t b) = shouldEncrypt b"
  "sp_PubKey (finish_prefs ms t b) = b_publicKey b"
  "sp_EncryptionScheme (finish_prefs ms t b) = InternalScheme \<longleftrightarrow> b_internal b"
  "sp_EncryptionScheme (finish_prefs ms t b) \<noteq> EncryptedOutsideScheme"
  "shouldEncrypt b \<Longrightarrow> sp_SignatureType (finish_prefs ms t b) = DetachedSignature"
  by (auto simp: finish_prefs_def build_def)

lemma finish_prefs_encrypted:
  "\<not> b_internal b \<Longrightarrow>
     sp_EncryptionScheme (finish_prefs ms t b) \<in> {PGPInlineScheme, PGPMIMEScheme} \<longleftrightarrow> shouldEncrypt b"
  by (auto simp: finish_prefs_def build_def)

lemma finish_prefs_signed_mime:
  assumes "\<not> b_internal b" "sp_SignatureType (finish_prefs ms t b) = DetachedSignature"
  shows "sp_MIMEType (finish_prefs ms t b) =
           (if sp_EncryptionScheme (finish_prefs ms t b) \<in> {PGPMIMEScheme, ClearMIMEScheme}
            then MultipartMixed else TextPlain)"
  using assms
  by (auto simp: finish_prefs_def build_def setMIMEPreferences_def withMIMEType_def getMIMEType_def
      getScheme_def shouldSign_def shouldEncrypt_def split: if_splits)

lemma finish_prefs_text_mime:
  assumes "b_internal b \<or> sp_SignatureType (finish_prefs ms t b) = NoSignature"
  shows "sp_MIMEType (finish_prefs ms t b) \<in> {TextPlain, ms_DraftMIMEType ms} \<union> set_option (b_mimeType b)"
  using assms setEncryptionPreferences_mime[of ms b]
  by (auto simp: finish_prefs_def build_def setMIMEPreferences_def builder_defs split: if_splits)

lemma map_option_sum_Inr:
  "map_option (map_sum id f) r = Some (Inr y) \<longleftrightarrow> (\<exists>x. r = Some (Inr x) \<and> y = f x)"
proof (cases r)
  case (Some s)
  then show ?thesis by (cases s) auto
qed simp

lemma buildSendPrefs_finish:
  "buildSendPrefs G contact ms pubKeys t isInternal = Some (Inr p) \<longleftrightarrow>
     (\<exists>v b. newContactSettings (pg_Serialize G) contact = Some v \<and>
            setPGPSettings G v pubKeys isInternal empty_builder = Some (Inr b) \<and> p = finish_prefs ms t b)"
  unfolding buildSendPrefs_def finish_prefs_def
  by (auto simp: map_option_sum_Inr simp del: map_option_eq_Some split: option.splits)

lemma empty_builder_simps [simp]:
  "b_internal empty_builder = False" "b_publicKey empty_builder = None" "b_mimeType empty_builder = None"
  "b_encrypt empty_builder = None" "b_sign empty_builder = None" "b_scheme empty_builder = None"
  by (simp_all add: empty_builder_def)


lemma setInternalPGPSettings_result:
  assumes "setInternalPGPSettings G v keys b0 = Some (Inr b)"
  shows "b_internal b = b_internal b0" "shouldEncrypt b" "keys \<noteq> []"
    and "\<exists>kr. b_publicKey b = Some kr \<and> pickSendingKey G v keys = Some (Inr kr)"
    and "b_mimeType b = (if MIMEType v \<noteq> '''' then Some (MIMEType v) else b_mimeType b0)"
  using assms
  by (auto simp: setInternalPGPSettings_def Let_def builder_defs map_option_sum_Inr simp del: map_option_eq_Some
      split: if_splits)

lemma setExternalPGPSettingsWithWKDKeys_result:
  assumes "setExternalPGPSettingsWithWKDKeys G v keys b0 = Some (Inr b)"
  shows "b_internal b = b_internal b0" "shouldEncrypt b = EncryptUntrusted v" "keys \<noteq> []"
    and "\<exists>kr. b_publicKey b = Some kr \<and> pickSendingKey G v keys = Some (Inr kr)"
    and "b_mimeType b \<in> {None, Some TextPlain, b_mimeType b0}"
  using assms
  by (auto simp: setExternalPGPSettingsWithWKDKeys_def Let_def builder_defs map_option_sum_Inr
      simp del: map_option_eq_Some split: if_splits)

lemma setExternalPGPSettingsWithoutWKDKeys_result:
  assumes "setExternalPGPSettingsWithoutWKDKeys G v b0 = Inr b"
  shows "b_internal b = b_internal b0" "shouldEncrypt b = Encrypt v"
    and "b_publicKey b0 = None \<Longrightarrow> b_publicKey b = None \<longleftrightarrow> Keys v = []"
    and "b_mimeType b \<in> {None, Some TextPlain, b_mimeType b0} \<union> (if MIMEType v = '''' then {} else {Some (MIMEType v)})"
  using assms
  by (auto simp: setExternalPGPSettingsWithoutWKDKeys_def Let_def builder_defs split: if_splits list.splits sum.splits)

lemma newContactSettings_fields:
  assumes "newContactSettings ser c = Some v"
  shows "MIMEType v = (case cs_MIMEType c of Some t \<Rightarrow> t | None \<Rightarrow> '''')"
    and "Encrypt v = (cs_Encrypt c = Some True)"
    and "EncryptUntrusted v = (cs_EncryptUntrusted c \<noteq> Some False)"
    and "serialize_all ser (cs_Keys c) = Some (Keys v)"
  using assms
  by (auto simp: newContactSettings_def empty_contactSettings_def Let_def split: option.splits EncryptionScheme.splits)

lemma serialize_all_Nil: "serialize_all ser ks = Some bs \<Longrightarrow> bs = [] \<longleftrightarrow> ks = []"
  by (cases ks) (auto split: sum.splits)

lemma setPGPSettings_result:
  assumes "setPGPSettings G v keys isInternal empty_builder = Some (Inr b)"
  shows "b_internal b = isInternal"
    and "shouldEncrypt b = (if isInternal then True else if keys \<noteq> [] then EncryptUntrusted v else Encrypt v)"
    and "isInternal \<or> keys \<noteq> [] \<Longrightarrow> keys \<noteq> [] \<and> (\<exists>kr. b_publicKey b = Some kr \<and> pickSendingKey G v keys = Some (Inr kr))"
    and "\<not> isInternal \<Longrightarrow> keys = [] \<Longrightarrow> b_publicKey b = None \<longleftrightarrow> Keys v = []"
    and "set_option (b_mimeType b) \<subseteq> {TextPlain} \<union> (if MIMEType v = '''' then {} else {MIMEType v})"
  using assms
  by (auto simp: setPGPSettings_def withInternal_def
      dest: setInternalPGPSettings_result setExternalPGPSettingsWithWKDKeys_result
      setExternalPGPSettingsWithoutWKDKeys_result split: if_splits)


lemma foldl_upd_None:
  "foldl (\<lambda>m el. m(f el \<mapsto> el)) m0 xs k = None \<longleftrightarrow> m0 k = None \<and> k \<notin> f ` set xs"
  by (induction xs arbitrary: m0) auto

lemma matchFingerprints_filter:
  "matchFingerprints fpr a b = filter (\<lambda>k. fpr k \<in> fpr ` set a) b"
proof -
  have "foldl (\<lambda>m el. m(fpr el \<mapsto> el)) Map.empty a k \<noteq> None \<longleftrightarrow> k \<in> fpr ` set a" for k
    using foldl_upd_None[of fpr Map.empty a k] by simp
  then show ?thesis unfolding matchFingerprints_def Let_def by (rule arg_cong[where f = "\<lambda>P. filter P b", OF ext])
qed

text \<open>
  When all keys parse and the API served at least one, the key ring is made of a
  served key: the first one whose fingerprint the contact pins if there is one, and otherwise
  the first one served, even when the contact pins other keys.
\<close>

theorem pickSendingKey_choice:
  assumes "parse_all (pg_NewKey G) (Keys v) = Inr contactKeys"
    and "parse_all (pg_NewKeyFromArmored G) raw = Inr apiKeys" and "raw \<noteq> []"
  shows "\<exists>key \<in> set apiKeys. pickSendingKey G v raw = Some (map_sum ErrPGP id (pg_NewKeyRing G key)) \<and>
           (case find (\<lambda>k. pg_GetFingerprint G k \<in> pg_GetFingerprint G ` set contactKeys) apiKeys of
              Some k \<Rightarrow> key = k
            | None \<Rightarrow> key = hd apiKeys)"
proof -
  let ?P = "\<lambda>k. pg_GetFingerprint G k \<in> pg_GetFingerprint G ` set contactKeys"
  have ne: "apiKeys \<noteq> []"
    using assms(2,3) by (cases raw) (auto split: sum.splits)
  show ?thesis
  proof (cases "find ?P apiKeys")
    case None
    then have "filter ?P apiKeys = []" by (auto simp: find_None_iff filter_empty_conv)
    then have "pickSendingKey G v raw = Some (map_sum ErrPGP id (pg_NewKeyRing G (hd apiKeys)))"
      using assms ne by (simp add: pickSendingKey_def matchFingerprints_filter)
    then show ?thesis using None ne by auto
  next
    case (Some k)
    then have f: "filter ?P apiKeys \<noteq> []" "hd (filter ?P apiKeys) = k" "k \<in> set apiKeys"
      by (induction apiKeys) (auto split: if_splits)
    then have "pickSendingKey G v raw = Some (map_sum ErrPGP id (pg_NewKeyRing G k))"
      using assms by (simp add: pickSendingKey_def matchFingerprints_filter)
    then show ?thesis using Some f(3) by auto
  qed
qed

subsection \<open>Packages and preferences\<close>

lemma send_prefs_mime:
  assumes "buildSendPrefs G contact ms pubKeys t isInternal = Some (Inr p)"
    and "ms_DraftMIMEType ms \<in> {TextHTML, TextPlain}"
    and "cs_MIMEType contact \<in> {None, Some '''', Some TextHTML, Some TextPlain}"
  shows "if sp_EncryptionScheme p \<in> {PGPMIMEScheme, ClearMIMEScheme} then sp_MIMEType p = MultipartMixed
         else sp_EncryptionScheme p \<in> {InternalScheme, ClearScheme, PGPInlineScheme} \<and> sp_MIMEType p \<in> {TextHTML, TextPlain}"
proof -
  from assms(1) obtain v b where v: "newContactSettings (pg_Serialize G) contact = Some v"
    and b: "setPGPSettings G v pubKeys isInternal empty_builder = Some (Inr b)" and p: "p = finish_prefs ms t b"
    unfolding buildSendPrefs_finish by blast
  have mt: "set_option (b_mimeType b) \<subseteq> {TextHTML, TextPlain}"
  proof -
    have "MIMEType v \<in> {'''', TextHTML, TextPlain}"
      using assms(3) unfolding newContactSettings_fields(1)[OF v] by (elim insertE emptyE) simp_all
    then have "(if MIMEType v = '''' then {} else {MIMEType v}) \<subseteq> {TextHTML, TextPlain}" by (elim insertE emptyE) simp_all
    with setPGPSettings_result(5)[OF b] show ?thesis by blast
  qed
  show ?thesis
  proof (cases "\<not> b_internal b \<and> sp_SignatureType p = DetachedSignature")
    case True
    then have "sp_MIMEType p = (if sp_EncryptionScheme p \<in> {PGPMIMEScheme, ClearMIMEScheme} then MultipartMixed else TextPlain)"
      using finish_prefs_signed_mime[of b ms t] unfolding p by blast
    moreover have "sp_EncryptionScheme p \<noteq> EncryptedOutsideScheme" by (simp add: p)
    ultimately show ?thesis by (cases "sp_EncryptionScheme p") simp_all
  next
    case False
    then have f: "b_internal b \<or> sp_SignatureType p = NoSignature" by (cases "sp_SignatureType p") auto
    then have "sp_EncryptionScheme p \<in> {InternalScheme, ClearScheme}"
      by (auto simp: p finish_prefs_def build_def split: if_splits)
    moreover have "sp_MIMEType p \<in> {TextHTML, TextPlain}"
    proof -
      have "sp_MIMEType p \<in> {TextPlain, ms_DraftMIMEType ms} \<union> set_option (b_mimeType b)"
        using finish_prefs_text_mime[of b ms t] f unfolding p by blast
      moreover have "{TextPlain, ms_DraftMIMEType ms} \<union> set_option (b_mimeType b) \<subseteq> {TextHTML, TextPlain}"
        by (intro Un_least insert_subsetI mt assms(2)) simp_all
      ultimately show ?thesis by (rule rev_subsetD)
    qed
    ultimately show ?thesis by auto
  qed
qed

definition record_package :: "string \<Rightarrow> 'kr recipients \<Rightarrow> (string \<times> 'kr recipients) list \<Rightarrow> 'e + (string \<times> 'kr recipients) list" where
  "record_package t recs pkgs = Inr (pkgs @ [(t, recs)])"

lemma add_if_record [simp]:
  "add_if (record_package t) recs (Inr pkgs) = Inr (pkgs @ (if recs = [] then [] else [(t, recs)]))"
  by (simp add: add_if_def record_package_def)

text \<open>What a package list gives one recipient.\<close>

definition packages_of :: "string \<Rightarrow> (string \<times> 'kr recipients) list \<Rightarrow> (string \<times> 'kr SendPreferences) list" where
  "packages_of a pkgs = concat (map (\<lambda>(t, r). map (\<lambda>(_, p). (t, p)) (filter (\<lambda>(b, _). b = a) r)) pkgs)"

lemma packages_of_simps [simp]:
  "packages_of a [] = []"
  "packages_of a (xs @ ys) = packages_of a xs @ packages_of a ys"
  "packages_of a (if r = [] then [] else [(t, r)]) = map (\<lambda>(_, p). (t, p)) (filter (\<lambda>(b, _). b = a) r)"
  by (auto simp: packages_of_def)

lemma filter_key_distinct:
  "distinct (map fst xs) \<Longrightarrow> filter (\<lambda>(b, _). b = a) xs = (case map_of xs a of Some p \<Rightarrow> [(a, p)] | None \<Rightarrow> [])"
proof (induction xs)
  case (Cons x xs)
  obtain b p where x: "x = (b, p)" by fastforce
  have "b = a \<Longrightarrow> map_of xs a = None" using Cons.prems x by (simp add: map_of_eq_None_iff)
  then show ?case using Cons x by auto
qed simp


text \<open>An instance for the witnesses: a key is its own serialisation, armor and fingerprint.\<close>

definition plain_pgp :: "(string, string list, string) pgp" where
  "plain_pgp = \<lparr>pg_Serialize = Inr, pg_NewKey = (\<lambda>s. if s = '''' then Inl ''empty'' else Inr s),
     pg_NewKeyFromArmored = (\<lambda>s. if s = '''' then Inl ''empty'' else Inr s),
     pg_GetFingerprint = id, pg_NewKeyRing = (\<lambda>k. Inr [k])\<rparr>"

definition example_contact :: "string ContactSettings" where
  "example_contact = \<lparr>cs_MIMEType = None, cs_Keys = [''b''], cs_Scheme = Some PGPMIMEScheme, cs_Sign = None,
     cs_Encrypt = None, cs_EncryptUntrusted = None\<rparr>"

definition example_settings :: MailSettings where
  "example_settings = \<lparr>ms_Sign = 0, ms_PGPScheme = PGPMIMEScheme, ms_DraftMIMEType = TextHTML, ms_AttachPublicKey = False\<rparr>"

lemma example_prefs:
  "buildSendPrefs plain_pgp example_contact example_settings [''a'', ''b''] TextHTML False =
     Some (Inr \<lparr>sp_Encrypt = True, sp_PubKey = Some [''b''], sp_SignatureType = DetachedSignature,
       sp_EncryptionScheme = PGPMIMEScheme, sp_MIMEType = MultipartMixed\<rparr>)"
  by code_simp

lemma example_prefs_internal:
  "buildSendPrefs plain_pgp example_contact example_settings [''a''] TextHTML True =
     Some (Inr \<lparr>sp_Encrypt = True, sp_PubKey = Some [''a''], sp_SignatureType = DetachedSignature,
       sp_EncryptionScheme = InternalScheme, sp_MIMEType = TextHTML\<rparr>)"
  by code_simp


theorem pickSendingKey_choice_witness:
  "pickSendingKey plain_pgp (empty_contactSettings\<lparr>Keys := [''b'', ''c'']\<rparr>) [''a'', ''b''] = Some (Inr [''b''])"
proof -
  let ?v = "empty_contactSettings\<lparr>Keys := [''b'', ''c'']\<rparr>"
  have "parse_all (pg_NewKey plain_pgp) (Keys ?v) = Inr [''b'', ''c'']"
    "parse_all (pg_NewKeyFromArmored plain_pgp) [''a'', ''b''] = Inr [''a'', ''b'']"
    by (simp_all add: plain_pgp_def empty_contactSettings_def)
  from pickSendingKey_choice[OF this] show ?thesis
    by (simp add: plain_pgp_def)
qed


end
