(* ===== verification/Smtp_Send.thy ===== *)
theory Smtp_Send
  imports Send_Recorder Identity_State Send_Prefs
begin

section \<open>Sending a message\<close>

text \<open>
  Models \<^verbatim>\<open>internal/services/smtp/smtp.go\<close>: from the message an SMTP client hands over, through the send
  recorder, the draft, its attachments and recipients, to the packages that are sent. The API client,
  the message parser and OpenPGP are given by an environment of answers, and every call that
  changes something on the server is listed in the order it is made. Attachments are uploaded and recipients
  looked up in parallel; the model lists these calls in order and reports the first
  error in that order. \<open>None\<close> is a panic.
\<close>

subsection \<open>Strings\<close>

definition InternalIDDomain :: string where
  "InternalIDDomain = ''protonmail.internalid''"

subsection \<open>Data\<close>

text \<open>The errors of the API client, as far as the code tells them apart: an answer with status and code, or anything else.\<close>

datatype client_err = APIError nat nat | OtherErr string

record mail_address =
  ma_Name :: string
  ma_Address :: string

record MessageFilter =
  mf_ID :: "string list"
  mf_ExternalID :: string
  mf_AddressID :: string

text \<open>\<open>md_IsDraft\<close> is the answer of the library's \<^verbatim>\<open>IsDraft\<close>.\<close>

record MessageMetadata =
  md_ID :: string
  md_IsDraft :: bool
  md_FlagSent :: bool
  md_FlagReceived :: bool

datatype CreateDraftAction = ReplyAction | ReplyAllAction | ForwardAction

record DraftTemplate =
  dt_Subject :: string
  dt_Body :: string
  dt_MIMEType :: string
  dt_Sender :: "mail_address option"
  dt_ToList :: "mail_address list"
  dt_CCList :: "mail_address list"
  dt_BCCList :: "mail_address list"
  dt_ExternalID :: string

record CreateDraftReq =
  cd_Message :: DraftTemplate
  cd_ParentID :: string
  cd_Action :: CreateDraftAction

record Attachment =
  at_Header :: "string \<rightharpoonup> string list"
  at_Name :: string
  at_ContentID :: string
  at_MIMEType :: string
  at_MIMEParams :: "string \<rightharpoonup> string"
  at_Disposition :: string
  at_Data :: string

record CreateAttachmentReq =
  ca_Filename :: string
  ca_MessageID :: string
  ca_MIMEType :: string
  ca_Disposition :: string
  ca_ContentID :: string
  ca_Body :: string

text \<open>The parsed message of \<^verbatim>\<open>pkg/message\<close>.\<close>

record Message =
  m_MIMEBody :: string
  m_RichBody :: string
  m_PlainBody :: string
  m_Attachments :: "Attachment list"
  m_MIMEType :: string
  m_Subject :: string
  m_Sender :: "mail_address option"
  m_ToList :: "mail_address list"
  m_CCList :: "mail_address list"
  m_BCCList :: "mail_address list"
  m_ReplyTos :: "mail_address list"
  m_References :: "string list"
  m_ExternalID :: string
  m_InReplyTo :: string
  m_XForward :: string

text \<open>The API's message, as the code reads it.\<close>

record ProtonMessage =
  pm_ID :: string
  pm_ToList :: "mail_address list"
  pm_CCList :: "mail_address list"
  pm_BCCList :: "mail_address list"
  pm_MIMEType :: string

record ContactEmail =
  ce_Email :: string
  ce_ContactID :: string

datatype RecipientType = RecipientTypeInternal | RecipientTypeExternal

datatype recipient_err =
    LookupPublicKey string bool client_err
  | ContactSettingsErr string client_err
  | SendPrefsErr "client_err prefs_err"

text \<open>
  The flag of \<open>LookupPublicKey\<close> tells whether the chain has \<^verbatim>\<open>ErrRecipientAddressDoesNotExist\<close> with the
  recipient.
\<close>

datatype send_with_key_err =
    ErrUnsupportedOutgoingMIME string
  | ErrValidationFailed
  | ErrMessageTooLarge
  | ErrInvalidListOfRecipients
  | ErrSenderAddressNotOwned string
  | CreateDraftErr client_err
  | CreateAttachmentsErr client_err
  | ErrGetRecipientsOperation recipient_err
  | CreatePackagesErr "client_err send_err"
  | SendDraftErr client_err

datatype smtp_err =
    ErrInvalidReturnPath
  | ReadMessageErr client_err
  | MessageHashErr client_err
  | SendHashErr ctx_error
  | CreateParserErr client_err
  | ErrCannotSendFromAddress string
  | MailSettingsErr client_err
  | KeyErr client_err
  | ParseMessageErr client_err
  | ErrSendMessageOperation send_with_key_err

text \<open>The calls that change something on the server.\<close>

datatype api_call =
    CreateDraft CreateDraftReq
  | UploadAttachment CreateAttachmentReq
  | SendDraft string
  | DeleteMessage "string list"

text \<open>
  The environment: the API client, the parser, OpenPGP and \<^verbatim>\<open>mime.FormatMediaType\<close>. \<open>'p\<close> is a parser, \<open>'kr\<close> a
  key ring, \<open>'sk\<close> a session key, \<open>'req\<close> the request that collects packages.
\<close>

record ('key, 'kr, 'sk, 'req, 'p, 'contact) smtp_env =
  e_pgp :: "('key, 'kr, client_err) pgp"
  e_GetMessageHash :: "string \<Rightarrow> client_err + string"
  e_NewParser :: "string \<Rightarrow> client_err + 'p"
  e_FromAddresses :: "'p \<Rightarrow> client_err + string list"
  e_AttachEmptyTextPart :: "'p \<Rightarrow> 'p"
  e_AttachPublicKey :: "'kr \<Rightarrow> 'p \<Rightarrow> client_err + 'p"
  e_ParseWithParser :: "'p \<Rightarrow> client_err + Message"
  e_FirstKey :: "'kr \<Rightarrow> client_err + 'kr"
  e_GetMailSettings :: "client_err + MailSettings"
  e_GetMessageMetadata :: "MessageFilter \<Rightarrow> client_err + MessageMetadata list"
  e_CreateDraft :: "CreateDraftReq \<Rightarrow> client_err + ProtonMessage"
  e_UploadAttachment :: "CreateAttachmentReq \<Rightarrow> client_err + string \<times> string"
  e_FormatMediaType :: "string \<Rightarrow> (string \<rightharpoonup> string) \<Rightarrow> string"
  e_SessionKey :: "'kr \<Rightarrow> string \<Rightarrow> client_err + 'sk"
  e_GetPublicKeys :: "string \<Rightarrow> client_err + string list \<times> RecipientType"
  e_GetAllContactEmails :: "string \<Rightarrow> client_err + ContactEmail list"
  e_GetContact :: "string \<Rightarrow> client_err + 'contact"
  e_GetSettings :: "'contact \<Rightarrow> 'kr \<Rightarrow> string \<Rightarrow> client_err + 'key ContactSettings"
  e_EmptyRequest :: 'req
  e_AddMIMEPackage :: "'kr \<Rightarrow> string \<Rightarrow> 'kr recipients \<Rightarrow> 'req \<Rightarrow> client_err + 'req"
  e_AddTextPackage :: "'kr \<Rightarrow> string \<Rightarrow> string \<Rightarrow> (string \<rightharpoonup> 'sk) \<Rightarrow> 'kr recipients \<Rightarrow> 'req \<Rightarrow> client_err + 'req"
  e_SendDraft :: "string \<Rightarrow> 'req \<Rightarrow> client_err + ProtonMessage"
  e_DeleteMessage :: "string list \<Rightarrow> client_err option"

subsection \<open>The parent of a reply\<close>

definition addr_filter :: "AddressMode \<Rightarrow> string \<Rightarrow> string" where
  "addr_filter mode authAddrID = (if mode = AddressModeSplit then authAddrID else '''')"

fun scan_metadata :: "MessageMetadata list \<Rightarrow> string \<times> string list \<Rightarrow> string \<times> string list" where
  "scan_metadata [] acc = acc"
| "scan_metadata (m # ms) (parentID, drafts) =
     scan_metadata ms (if \<not> md_IsDraft m then (md_ID m, drafts) else (parentID, drafts @ [md_ID m]))"

fun scan_internal ::
  "(MessageFilter \<Rightarrow> client_err + MessageMetadata list) \<Rightarrow> string \<Rightarrow> string list \<Rightarrow> string \<times> string list \<Rightarrow>
     client_err + string \<times> string list" where
  "scan_internal get addrID [] acc = Inr acc"
| "scan_internal get addrID (ref # refs) acc =
     (case get \<lparr>mf_ID = [ref], mf_ExternalID = '''', mf_AddressID = addrID\<rparr> of
        Inl e \<Rightarrow> Inl e
      | Inr ms \<Rightarrow> scan_internal get addrID refs (scan_metadata ms acc))"

definition external_parent :: "MessageMetadata list \<Rightarrow> string" where
  "external_parent ms =
     (case ms of
        [] \<Rightarrow> ''''
      | [m] \<Rightarrow> if md_FlagSent m \<or> md_FlagReceived m then md_ID m else ''''
      | _ \<Rightarrow> (case find md_FlagSent ms of Some m \<Rightarrow> md_ID m | None \<Rightarrow> ''''))"

definition getParentID ::
  "(MessageFilter \<Rightarrow> client_err + MessageMetadata list) \<Rightarrow> string \<Rightarrow> AddressMode \<Rightarrow> string list \<Rightarrow>
     client_err + string \<times> string list" where
  "getParentID get authAddrID mode references =
     (let isInternal = (\<lambda>ref. Contains ref InternalIDDomain);
          internal = map (\<lambda>ref. TrimSuffix ref (''@'' @ InternalIDDomain)) (filter isInternal references);
          external = filter (\<lambda>ref. \<not> isInternal ref) references;
          addrID = addr_filter mode authAddrID
      in case scan_internal get addrID internal ('''', []) of
           Inl e \<Rightarrow> Inl e
         | Inr (parentID, drafts) \<Rightarrow>
             if parentID = '''' \<and> external \<noteq> []
             then (case get \<lparr>mf_ID = [], mf_ExternalID = last external, mf_AddressID = addrID\<rparr> of
                     Inl e \<Rightarrow> Inl e
                   | Inr ms \<Rightarrow> Inr (external_parent ms, drafts))
             else Inr (parentID, drafts))"

subsection \<open>The draft\<close>

definition constructEmail :: "string \<Rightarrow> string \<Rightarrow> string" where
  "constructEmail headerEmail addressEmail =
     (case Split headerEmail (CHR ''@'') of
        [user, _] \<Rightarrow>
          (case Split user (CHR ''+'') of
             [_, tag] \<Rightarrow>
               (case Split addressEmail (CHR ''@'') of
                  [addrUser, addrDomain] \<Rightarrow> addrUser @ ''+'' @ tag @ ''@'' @ addrDomain
                | _ \<Rightarrow> addressEmail)
           | _ \<Rightarrow> addressEmail)
      | _ \<Rightarrow> addressEmail)"

fun add_bcc :: "string list \<Rightarrow> DraftTemplate \<Rightarrow> DraftTemplate" where
  "add_bcc [] t = t"
| "add_bcc (recipient # to) t =
     add_bcc to
       (if recipient \<notin> set (map ma_Address (dt_ToList t @ dt_CCList t @ dt_BCCList t))
        then t\<lparr>dt_BCCList := dt_BCCList t @ [\<lparr>ma_Name = '''', ma_Address = recipient\<rparr>]\<rparr>
        else t)"

definition template_sender :: "string \<Rightarrow> mail_address option \<Rightarrow> mail_address" where
  "template_sender from s =
     (case s of
        None \<Rightarrow> \<lparr>ma_Name = '''', ma_Address = from\<rparr>
      | Some a \<Rightarrow> if ma_Address a = '''' then a\<lparr>ma_Address := from\<rparr> else a)"

definition createDraft ::
  "(CreateDraftReq \<Rightarrow> client_err + ProtonMessage) \<Rightarrow> string list \<Rightarrow> string \<Rightarrow> string list \<Rightarrow> string \<Rightarrow> string \<Rightarrow>
     string \<Rightarrow> DraftTemplate \<Rightarrow> (send_with_key_err + (client_err + ProtonMessage)) \<times> api_call list" where
  "createDraft create emails from to parentID replyToID xForwardID template0 =
     (let sender = template_sender from (dt_Sender template0)
      in case find (\<lambda>email. EqualFold email (SanitizeEmail (ma_Address sender))) emails of
           None \<Rightarrow> (Inl (ErrSenderAddressNotOwned (ma_Address sender)), [])
         | Some email \<Rightarrow>
             (let t1 = template0\<lparr>dt_Sender := Some (sender\<lparr>ma_Address := constructEmail (ma_Address sender) email\<rparr>)\<rparr>;
                  t2 = t1\<lparr>dt_ToList := filter (\<lambda>a. ma_Address a \<in> set to) (dt_ToList t1)\<rparr>;
                  t3 = add_bcc to t2;
                  act = (if replyToID \<noteq> '''' then (if replyToID = xForwardID then ForwardAction else ReplyAction)
                         else ForwardAction);
                  req = \<lparr>cd_Message = t3, cd_ParentID = parentID, cd_Action = act\<rparr>
              in (Inr (create req), [CreateDraft req])))"

subsection \<open>Attachments\<close>

definition attachment_disposition :: "string \<Rightarrow> string \<Rightarrow> string" where
  "attachment_disposition disposition contentID =
     (if disposition = ''inline'' then (if contentID = '''' then ''attachment'' else disposition)
      else if disposition = ''attachment'' then disposition
      else if contentID \<noteq> '''' then ''inline'' else ''attachment'')"

definition attachment_req ::
  "(string \<Rightarrow> (string \<rightharpoonup> string) \<Rightarrow> string) \<Rightarrow> string \<Rightarrow> Attachment \<Rightarrow> CreateAttachmentReq" where
  "attachment_req formatMediaType draftID att =
     \<lparr>ca_Filename = at_Name att, ca_MessageID = draftID,
      ca_MIMEType = formatMediaType (at_MIMEType att) ((at_MIMEParams att)(''name'' := None, ''filename'' := None)),
      ca_Disposition = attachment_disposition (at_Disposition att) (at_ContentID att),
      ca_ContentID = at_ContentID att, ca_Body = at_Data att\<rparr>"

fun upload_attachments ::
  "('key, 'kr, 'sk, 'req, 'p, 'contact) smtp_env \<Rightarrow> 'kr \<Rightarrow> string \<Rightarrow> Attachment list \<Rightarrow>
     (client_err + (string \<times> 'sk) list) \<times> api_call list" where
  "upload_attachments E addrKR draftID [] = (Inr [], [])"
| "upload_attachments E addrKR draftID (att # atts) =
     (let req = attachment_req (e_FormatMediaType E) draftID att
      in case (case e_UploadAttachment E req of
                 Inl e \<Rightarrow> Inl e
               | Inr (attID, keyPackets) \<Rightarrow> map_sum id (\<lambda>key. (attID, key)) (e_SessionKey E addrKR keyPackets)) of
           Inl e \<Rightarrow> (Inl e, [UploadAttachment req])
         | Inr k \<Rightarrow>
             (case upload_attachments E addrKR draftID atts of
                (r, calls) \<Rightarrow> (map_sum id (\<lambda>ks. k # ks) r, UploadAttachment req # calls)))"

definition createAttachments ::
  "('key, 'kr, 'sk, 'req, 'p, 'contact) smtp_env \<Rightarrow> 'kr \<Rightarrow> string \<Rightarrow> Attachment list \<Rightarrow>
     (client_err + (string \<rightharpoonup> 'sk)) \<times> api_call list" where
  "createAttachments E addrKR draftID atts =
     (case upload_attachments E addrKR draftID atts of
        (r, calls) \<Rightarrow> (map_sum id (\<lambda>ks. foldl (\<lambda>m (i, k). m(i \<mapsto> k)) Map.empty ks) r, calls))"

subsection \<open>Recipients\<close>

definition empty_ContactSettings :: "'key ContactSettings" where
  "empty_ContactSettings =
     \<lparr>cs_MIMEType = None, cs_Keys = [], cs_Scheme = None, cs_Sign = None, cs_Encrypt = None, cs_EncryptUntrusted = None\<rparr>"

definition getContactSettings ::
  "('key, 'kr, 'sk, 'req, 'p, 'contact) smtp_env \<Rightarrow> 'kr \<Rightarrow> string \<Rightarrow> client_err + 'key ContactSettings" where
  "getContactSettings E userKR recipient =
     (case e_GetAllContactEmails E recipient of
        Inl e \<Rightarrow> Inl e
      | Inr contacts \<Rightarrow>
          (case find (\<lambda>c. ce_Email c = recipient) contacts of
             None \<Rightarrow> Inr empty_ContactSettings
           | Some c \<Rightarrow>
               (case e_GetContact E (ce_ContactID c) of
                  Inl e \<Rightarrow> Inl e
                | Inr contact \<Rightarrow> e_GetSettings E contact userKR recipient)))"

definition address_missing :: "client_err \<Rightarrow> bool" where
  "address_missing e \<longleftrightarrow> e = APIError 422 33102"

definition recipient_prefs ::
  "('key, 'kr, 'sk, 'req, 'p, 'contact) smtp_env \<Rightarrow> 'kr \<Rightarrow> MailSettings \<Rightarrow> string \<Rightarrow> string \<Rightarrow>
     (recipient_err + 'kr SendPreferences) option" where
  "recipient_prefs E userKR settings mimeType recipient =
     (case e_GetPublicKeys E recipient of
        Inl e \<Rightarrow> Some (Inl (LookupPublicKey recipient (address_missing e) e))
      | Inr (pubKeys, recType) \<Rightarrow>
          (case getContactSettings E userKR recipient of
             Inl e \<Rightarrow> Some (Inl (ContactSettingsErr recipient e))
           | Inr contact \<Rightarrow>
               map_option (map_sum SendPrefsErr id)
                 (buildSendPrefs (e_pgp E) contact settings pubKeys mimeType (recType = RecipientTypeInternal))))"

fun map_try :: "('a \<Rightarrow> ('e + 'b) option) \<Rightarrow> 'a list \<Rightarrow> ('e + 'b list) option" where
  "map_try f [] = Some (Inr [])"
| "map_try f (x # xs) =
     (case f x of
        None \<Rightarrow> None
      | Some (Inl e) \<Rightarrow> Some (Inl e)
      | Some (Inr y) \<Rightarrow> map_option (map_sum id (\<lambda>ys. y # ys)) (map_try f xs))"

definition draft_addresses :: "ProtonMessage \<Rightarrow> string list" where
  "draft_addresses draft = map ma_Address (pm_ToList draft @ pm_CCList draft @ pm_BCCList draft)"

definition getRecipients ::
  "('key, 'kr, 'sk, 'req, 'p, 'contact) smtp_env \<Rightarrow> 'kr \<Rightarrow> MailSettings \<Rightarrow> ProtonMessage \<Rightarrow>
     (recipient_err + 'kr recipients) option" where
  "getRecipients E userKR settings draft =
     map_option (map_sum id (\<lambda>prefs. foldl (\<lambda>m (a, p). AList.update a p m) [] (zip (draft_addresses draft) prefs)))
       (map_try (recipient_prefs E userKR settings (pm_MIMEType draft)) (draft_addresses draft))"

subsection \<open>Sending\<close>

definition draft_error :: "client_err \<Rightarrow> send_with_key_err" where
  "draft_error e =
     (case e of
        APIError st code \<Rightarrow>
          if st = 422 \<and> code = 2001 then ErrValidationFailed
          else if st = 422 \<and> code = 2024 then ErrMessageTooLarge
          else if st = 422 \<and> code = 2002 then ErrInvalidListOfRecipients
          else CreateDraftErr e
      | _ \<Rightarrow> CreateDraftErr e)"

definition finish_send ::
  "('key, 'kr, 'sk, 'req, 'p, 'contact) smtp_env \<Rightarrow> MailSettings \<Rightarrow> 'kr \<Rightarrow> 'kr \<Rightarrow> Message \<Rightarrow> string list \<Rightarrow>
     ProtonMessage \<Rightarrow> ((send_with_key_err + ProtonMessage) \<times> api_call list) option" where
  "finish_send E settings userKR addrKR msg draftsToDelete draft =
     (case createAttachments E addrKR (pm_ID draft) (m_Attachments msg) of
        (Inl e, ups) \<Rightarrow> Some (Inl (CreateAttachmentsErr e), ups)
      | (Inr attKeys, ups) \<Rightarrow>
          (case getRecipients E userKR settings draft of
             None \<Rightarrow> None
           | Some (Inl e) \<Rightarrow> Some (Inl (ErrGetRecipientsOperation e), ups)
           | Some (Inr recs) \<Rightarrow>
               (case createSendReq (e_AddMIMEPackage E addrKR (m_MIMEBody msg))
                       (\<lambda>t. e_AddTextPackage E addrKR (if t = TextHTML then m_RichBody msg else m_PlainBody msg) t attKeys)
                       (e_EmptyRequest E) recs of
                  Inl e \<Rightarrow> Some (Inl (CreatePackagesErr e), ups)
                | Inr req \<Rightarrow>
                    (case e_SendDraft E (pm_ID draft) req of
                       Inl e \<Rightarrow> Some (Inl (SendDraftErr e), ups @ [SendDraft (pm_ID draft)])
                     | Inr res \<Rightarrow>
                         Some (Inr res, ups @ SendDraft (pm_ID draft) #
                           (if draftsToDelete \<noteq> [] then [DeleteMessage draftsToDelete] else []))))))"

definition sendWithKey ::
  "('key, 'kr, 'sk, 'req, 'p, 'contact) smtp_env \<Rightarrow> string \<Rightarrow> AddressMode \<Rightarrow> MailSettings \<Rightarrow> 'kr \<Rightarrow> 'kr \<Rightarrow>
     string list \<Rightarrow> string \<Rightarrow> string list \<Rightarrow> Message \<Rightarrow> ((send_with_key_err + ProtonMessage) \<times> api_call list) option" where
  "sendWithKey E authAddrID addrMode settings userKR addrKR emails from to msg =
     (let references = m_References msg @ (if m_InReplyTo msg \<noteq> '''' then [m_InReplyTo msg] else []);
          (parentID, draftsToDelete) =
            (case getParentID (e_GetMessageMetadata E) authAddrID addrMode references of
               Inl _ \<Rightarrow> ('''', []) | Inr r \<Rightarrow> r)
      in if m_MIMEType msg \<noteq> TextHTML \<and> m_MIMEType msg \<noteq> TextPlain
         then Some (Inl (ErrUnsupportedOutgoingMIME (m_MIMEType msg)), [])
         else let decBody = (if m_MIMEType msg = TextHTML then m_RichBody msg else m_PlainBody msg);
                  template = \<lparr>dt_Subject = m_Subject msg, dt_Body = decBody, dt_MIMEType = m_MIMEType msg,
                     dt_Sender = m_Sender msg, dt_ToList = m_ToList msg, dt_CCList = m_CCList msg,
                     dt_BCCList = m_BCCList msg, dt_ExternalID = m_ExternalID msg\<rparr>
              in case createDraft (e_CreateDraft E) emails from to parentID (m_InReplyTo msg) (m_XForward msg) template of
                   (Inl e, calls) \<Rightarrow> Some (Inl e, calls)
                 | (Inr (Inl e), calls) \<Rightarrow> Some (Inl (draft_error e), calls)
                 | (Inr (Inr draft), calls) \<Rightarrow>
                     map_option (\<lambda>(r, calls'). (r, calls @ calls')) (finish_send E settings userKR addrKR msg draftsToDelete draft))"

definition getMessageSender :: "client_err + string list \<Rightarrow> string option" where
  "getMessageSender fromAddresses = (case fromAddresses of Inr (a # _) \<Rightarrow> Some a | _ \<Rightarrow> None)"

text \<open>The function given to \<^verbatim>\<open>WithAddrKR\<close>: the message is sent and the recorder told.\<close>

definition send_parsed ::
  "('key, 'kr, 'sk, 'req, 'p, 'contact) smtp_env \<Rightarrow> string \<Rightarrow> AddressMode \<Rightarrow> MailSettings \<Rightarrow> string list \<Rightarrow> string \<Rightarrow>
     string list \<Rightarrow> 'p \<Rightarrow> 'kr \<Rightarrow> 'kr \<Rightarrow> ((smtp_err + ProtonMessage) \<times> api_call list) option" where
  "send_parsed E authID addrMode settings emails from to parser userKR addrKR0 =
     (case e_FirstKey E addrKR0 of
        Inl e \<Rightarrow> Some (Inl (KeyErr e), [])
      | Inr addrKR \<Rightarrow>
          (let p1 = e_AttachEmptyTextPart E parser
           in case (if ms_AttachPublicKey settings then e_AttachPublicKey E addrKR p1 else Inr p1) of
                Inl e \<Rightarrow> Some (Inl (KeyErr e), [])
              | Inr p2 \<Rightarrow>
                  (case e_ParseWithParser E p2 of
                     Inl e \<Rightarrow> Some (Inl (ParseMessageErr e), [])
                   | Inr msg \<Rightarrow>
                       map_option (\<lambda>(r, calls). (map_sum ErrSendMessageOperation id r, calls))
                         (sendWithKey E authID addrMode settings userKR addrKR emails from to msg))))"

text \<open>The key rings \<^verbatim>\<open>usertypes.WithAddrKR\<close> gives to its function; \<open>unlock\<close> is the library's \<^verbatim>\<open>Keys.Unlock\<close>.\<close>

definition addr_keyrings ::
  "('k \<Rightarrow> 'w \<Rightarrow> 'kr option \<Rightarrow> client_err + 'kr) \<Rightarrow> 'k User \<Rightarrow> 'k Address \<Rightarrow> 'w \<Rightarrow> client_err + 'kr \<times> 'kr" where
  "addr_keyrings unlock apiUser apiAddr keyPass =
     (case unlock (u_Keys apiUser) keyPass None of
        Inl e \<Rightarrow> Inl e
      | Inr userKR \<Rightarrow> map_sum id (\<lambda>addrKR. (userKR, addrKR)) (unlock (a_Keys apiAddr) keyPass (Some userKR)))"

text \<open>What follows once the recorder granted the message with the entry \<open>i\<close>.\<close>

definition send_granted ::
  "('key, 'kr, 'sk, 'req, 'p, 'contact) smtp_env \<Rightarrow> ('k \<Rightarrow> 'w \<Rightarrow> 'kr option \<Rightarrow> client_err + 'kr) \<Rightarrow> 'w \<Rightarrow> 'k State \<Rightarrow>
     AddressMode \<Rightarrow> string \<Rightarrow> string \<Rightarrow> 'k Address \<Rightarrow> string list \<Rightarrow> string \<Rightarrow> string \<Rightarrow> ID \<Rightarrow> SendRecorder \<Rightarrow>
     (smtp_err option \<times> api_call list \<times> SendRecorder) option" where
  "send_granted E unlock keyPass ident addrMode authID from fromAddr to b hash i h =
     (let emails = map a_Email (AddressesSorted ident);
          fail = (\<lambda>e calls. map_option (\<lambda>h'. (Some e, calls, h')) (RemoveOnFail hash i h))
      in case e_NewParser E b of
           Inl e \<Rightarrow> fail (CreateParserErr e) []
         | Inr parser \<Rightarrow>
             (case (case getMessageSender (e_FromAddresses E parser) of
                      None \<Rightarrow> Some (from, fromAddr)
                    | Some sender \<Rightarrow> map_option (\<lambda>a. (sender, a)) (GetAddr sender ident)) of
                None \<Rightarrow> Some (Some ErrInvalidReturnPath, [], h)
              | Some (from', addr) \<Rightarrow>
                  if \<not> a_Send addr \<or> a_Status addr \<noteq> AddressStatusEnabled
                  then Some (Some (ErrCannotSendFromAddress (a_Email addr)), [], h)
                  else (case e_GetMailSettings E of
                          Inl e \<Rightarrow> fail (MailSettingsErr e) []
                        | Inr settings \<Rightarrow>
                            (case addr_keyrings unlock (st_User ident) addr keyPass of
                               Inl e \<Rightarrow> fail (KeyErr e) []
                             | Inr (userKR, addrKR) \<Rightarrow>
                                 (case send_parsed E authID addrMode settings emails from' to parser userKR addrKR of
                                    None \<Rightarrow> None
                                  | Some (Inl e, calls) \<Rightarrow> fail e calls
                                  | Some (Inr sent, calls) \<Rightarrow>
                                      map_option (\<lambda>h'. (None, calls, h')) (SignalMessageSent hash i (pm_ID sent) h))))))"

text \<open>
  The whole handler. \<open>tryInsertWait\<close> is the blocking call of the recorder with the outcome it returned and the table
  at that time; \<open>body\<close> is what reading the message gave.
\<close>

definition smtpSendMail ::
  "('key, 'kr, 'sk, 'req, 'p, 'contact) smtp_env \<Rightarrow> ('k \<Rightarrow> 'w \<Rightarrow> 'kr option \<Rightarrow> client_err + 'kr) \<Rightarrow> 'w \<Rightarrow> 'k State \<Rightarrow>
     AddressMode \<Rightarrow> (string \<Rightarrow> string list \<Rightarrow> SendRecorder \<Rightarrow> SendRecorder \<times> insert_pc) \<Rightarrow> string \<Rightarrow> string \<Rightarrow> string list \<Rightarrow>
     client_err + string \<Rightarrow> SendRecorder \<Rightarrow> (smtp_err option \<times> api_call list \<times> SendRecorder) option" where
  "smtpSendMail E unlock keyPass ident addrMode tryInsertWait authID from to body h =
     (case GetAddr from ident of
        None \<Rightarrow> Some (Some ErrInvalidReturnPath, [], h)
      | Some fromAddr \<Rightarrow>
          (case body of
             Inl e \<Rightarrow> Some (Some (ReadMessageErr e), [], h)
           | Inr b \<Rightarrow>
               (case e_GetMessageHash E b of
                  Inl e \<Rightarrow> Some (Some (MessageHashErr e), [], h)
                | Inr hash \<Rightarrow>
                    (case tryInsertWait hash to h of
                       (h1, InsertFailed e) \<Rightarrow> Some (Some (SendHashErr e), [], h1)
                     | (h1, Duplicate _) \<Rightarrow> Some (None, [], h1)
                     | (h1, Inserted i) \<Rightarrow> send_granted E unlock keyPass ident addrMode authID from fromAddr to b hash i h1
                     | (h1, _) \<Rightarrow> None))))"

subsection \<open>Calls in order\<close>

fun sent_draft :: "api_call \<Rightarrow> string list" where
  "sent_draft (SendDraft d) = [d]"
| "sent_draft _ = []"

fun deleted_drafts :: "api_call \<Rightarrow> string list" where
  "deleted_drafts (DeleteMessage ids) = ids"
| "deleted_drafts _ = []"

definition quiet :: "api_call list \<Rightarrow> bool" where
  "quiet calls \<longleftrightarrow> concat (map sent_draft calls) = [] \<and> concat (map deleted_drafts calls) = []"

lemma quiet_simps [simp]:
  "quiet []" "quiet (UploadAttachment r # calls) = quiet calls" "quiet (CreateDraft d # calls) = quiet calls"
  by (simp_all add: quiet_def)

lemma quiet_uploads: "quiet (snd (upload_attachments E kr draftID atts))"
  by (induction E kr draftID atts rule: upload_attachments.induct)
     (auto simp: Let_def split: sum.splits prod.splits)

text \<open>How a run that got as far as the API ended: the calls and the answer to the only \<open>SendDraft\<close>.\<close>

definition send_ok ::
  "('key, 'kr, 'sk, 'req, 'p, 'contact) smtp_env \<Rightarrow> ProtonMessage \<Rightarrow> api_call list \<Rightarrow> bool" where
  "send_ok E sent calls \<longleftrightarrow>
     (\<exists>pre draftID req ds. calls = pre @ SendDraft draftID # ds \<and> quiet pre \<and> e_SendDraft E draftID req = Inr sent \<and>
        (ds = [] \<or> (\<exists>ids. ids \<noteq> [] \<and> ds = [DeleteMessage ids])))"

definition send_failed :: "('key, 'kr, 'sk, 'req, 'p, 'contact) smtp_env \<Rightarrow> api_call list \<Rightarrow> bool" where
  "send_failed E calls \<longleftrightarrow>
     quiet calls \<or> (\<exists>pre draftID req e. calls = pre @ [SendDraft draftID] \<and> quiet pre \<and> e_SendDraft E draftID req = Inl e)"

lemma send_ok_prepend: "send_ok E sent calls \<Longrightarrow> quiet pre \<Longrightarrow> send_ok E sent (pre @ calls)"
  unfolding send_ok_def
proof (elim exE conjE)
  fix p d req ds assume "calls = p @ SendDraft d # ds" "quiet p" "e_SendDraft E d req = Inr sent"
    and ds: "ds = [] \<or> (\<exists>ids. ids \<noteq> [] \<and> ds = [DeleteMessage ids])" and "quiet pre"
  then have "pre @ calls = (pre @ p) @ SendDraft d # ds" "quiet (pre @ p)" "e_SendDraft E d req = Inr sent"
    by (auto simp: quiet_def)
  with ds show "\<exists>p d req ds. pre @ calls = p @ SendDraft d # ds \<and> quiet p \<and> e_SendDraft E d req = Inr sent \<and>
      (ds = [] \<or> (\<exists>ids. ids \<noteq> [] \<and> ds = [DeleteMessage ids]))" by blast
qed

lemma send_failed_prepend: "send_failed E calls \<Longrightarrow> quiet pre \<Longrightarrow> send_failed E (pre @ calls)"
  unfolding send_failed_def
proof (elim disjE exE conjE)
  fix p d req e assume "calls = p @ [SendDraft d]" "quiet p" "e_SendDraft E d req = Inl e" and q: "quiet pre"
  then have "pre @ calls = (pre @ p) @ [SendDraft d]" "quiet (pre @ p)" "e_SendDraft E d req = Inl e"
    by (auto simp: quiet_def)
  then show "quiet (pre @ calls) \<or> (\<exists>pr d req e. pre @ calls = pr @ [SendDraft d] \<and> quiet pr \<and> e_SendDraft E d req = Inl e)"
    by blast
qed (auto simp: quiet_def)

lemma finish_send_cases:
  assumes "finish_send E settings userKR addrKR msg drafts draft = Some (r, calls)"
  shows "case r of Inr sent \<Rightarrow> send_ok E sent calls | Inl _ \<Rightarrow> send_failed E calls"
proof -
  obtain k ups where c: "createAttachments E addrKR (pm_ID draft) (m_Attachments msg) = (k, ups)" by fastforce
  then have q: "quiet ups"
    using quiet_uploads[of E addrKR "pm_ID draft" "m_Attachments msg"]
    by (auto simp: createAttachments_def split: prod.splits)
  have ok: "send_ok E sent (ups @ SendDraft (pm_ID draft) # (if drafts \<noteq> [] then [DeleteMessage drafts] else []))"
    if "e_SendDraft E (pm_ID draft) req = Inr sent" for req sent
  proof -
    let ?ds = "if drafts \<noteq> [] then [DeleteMessage drafts] else []"
    have "?ds = [] \<or> (\<exists>ids. ids \<noteq> [] \<and> ?ds = [DeleteMessage ids])" by simp
    then show ?thesis using that q unfolding send_ok_def by blast
  qed
  have bad: "send_failed E (ups @ [SendDraft (pm_ID draft)])" if "e_SendDraft E (pm_ID draft) req = Inl e" for req e
    using that q unfolding send_failed_def by blast
  have fu: "send_failed E ups" using q by (simp add: send_failed_def)
  show ?thesis
  proof (cases k)
    case (Inl e)
    then show ?thesis using assms c fu by (auto simp: finish_send_def)
  next
    case (Inr attKeys)
    show ?thesis
    proof (cases "getRecipients E userKR settings draft")
      case None
      then show ?thesis using assms c Inr by (simp add: finish_send_def)
    next
      case (Some rs)
      show ?thesis
      proof (cases rs)
        case (Inl e)
        then show ?thesis using assms c \<open>k = Inr attKeys\<close> Some fu by (auto simp: finish_send_def)
      next
        case (Inr recs)
        note step = assms[unfolded finish_send_def c \<open>k = Inr attKeys\<close> Some Inr prod.case sum.case option.case]
        show ?thesis
        proof (cases "createSendReq (e_AddMIMEPackage E addrKR (m_MIMEBody msg))
            (\<lambda>t. e_AddTextPackage E addrKR (if t = TextHTML then m_RichBody msg else m_PlainBody msg) t attKeys)
            (e_EmptyRequest E) recs")
          case (Inl e)
          have "r = Inl (CreatePackagesErr e)" "calls = ups" using step unfolding Inl sum.case by blast+
          then show ?thesis using fu by simp
        next
          case (Inr req)
          note step' = step[unfolded Inr sum.case]
          show ?thesis
          proof (cases "e_SendDraft E (pm_ID draft) req")
            case (Inl e)
            have "r = Inl (SendDraftErr e)" "calls = ups @ [SendDraft (pm_ID draft)]" using step' unfolding Inl sum.case by blast+
            then show ?thesis using bad[OF Inl] by simp
          next
            case (Inr sent)
            have "r = Inr sent" "calls = ups @ SendDraft (pm_ID draft) # (if drafts \<noteq> [] then [DeleteMessage drafts] else [])"
              using step' unfolding Inr sum.case by blast+
            then show ?thesis using ok[OF Inr] by simp
          qed
        qed
      qed
    qed
  qed
qed

lemma createDraft_quiet: "quiet (snd (createDraft create emails from to p rep x t))"
  by (simp add: createDraft_def Let_def split: option.splits)

lemma sendWithKey_cases:
  assumes "sendWithKey E authID mode settings userKR addrKR emails from to msg = Some (r, calls)"
  shows "case r of Inr sent \<Rightarrow> send_ok E sent calls | Inl _ \<Rightarrow> send_failed E calls"
proof (cases "m_MIMEType msg \<noteq> TextHTML \<and> m_MIMEType msg \<noteq> TextPlain")
  case True
  then show ?thesis using assms by (auto simp: sendWithKey_def Let_def send_failed_def split: prod.splits)
next
  case False
  obtain parentID drafts where p: "(case getParentID (e_GetMessageMetadata E) authID mode
      (m_References msg @ (if m_InReplyTo msg \<noteq> [] then [m_InReplyTo msg] else [])) of
      Inl _ \<Rightarrow> ([], []) | Inr r \<Rightarrow> r) = (parentID, drafts)" by fastforce
  define t where "t = \<lparr>dt_Subject = m_Subject msg,
      dt_Body = (if m_MIMEType msg = TextHTML then m_RichBody msg else m_PlainBody msg), dt_MIMEType = m_MIMEType msg,
      dt_Sender = m_Sender msg, dt_ToList = m_ToList msg, dt_CCList = m_CCList msg,
      dt_BCCList = m_BCCList msg, dt_ExternalID = m_ExternalID msg\<rparr>"
  obtain d cs where d: "createDraft (e_CreateDraft E) emails from to parentID (m_InReplyTo msg) (m_XForward msg) t = (d, cs)"
    by fastforce
  have q: "quiet cs" using createDraft_quiet[of "e_CreateDraft E" emails "from" to parentID "m_InReplyTo msg" "m_XForward msg" t] d
    by simp
  note step = assms[unfolded sendWithKey_def Let_def p prod.case if_not_P[OF False], folded t_def, unfolded d prod.case]
  show ?thesis
  proof (cases d)
    case (Inl e)
    then show ?thesis using step q by (auto simp: send_failed_def)
  next
    case (Inr a)
    show ?thesis
    proof (cases a)
      case (Inl e)
      then show ?thesis using step q Inr by (auto simp: send_failed_def)
    next
      case (Inr draft)
      then obtain cs' where "finish_send E settings userKR addrKR msg drafts draft = Some (r, cs')" "calls = cs @ cs'"
        using step \<open>d = Inr a\<close> by auto
      with finish_send_cases[OF this(1)] q show ?thesis
        by (auto split: sum.splits intro: send_ok_prepend send_failed_prepend)
    qed
  qed
qed

subsection \<open>The outcome and the recorder\<close>

fun keeps_entry :: "smtp_err \<Rightarrow> bool" where
  "keeps_entry ErrInvalidReturnPath = True"
| "keeps_entry (ErrCannotSendFromAddress _) = True"
| "keeps_entry _ = False"

lemma send_parsed_cases:
  assumes "send_parsed E authID mode settings emails from to parser userKR addrKR0 = Some (r, calls)"
  shows "case r of Inr sent \<Rightarrow> send_ok E sent calls | Inl e \<Rightarrow> send_failed E calls \<and> \<not> keeps_entry e"
proof -
  have f: "send_failed E []" by (simp add: send_failed_def)
  show ?thesis
  proof (cases "e_FirstKey E addrKR0")
    case (Inl e)
    then show ?thesis using assms f by (auto simp: send_parsed_def)
  next
    case (Inr addrKR)
    note s1 = assms[unfolded send_parsed_def Inr Let_def sum.case]
    show ?thesis
    proof (cases "if ms_AttachPublicKey settings then e_AttachPublicKey E addrKR (e_AttachEmptyTextPart E parser)
        else Inr (e_AttachEmptyTextPart E parser)")
      case (Inl e)
      then show ?thesis using s1 f by auto
    next
      case (Inr p2)
      note s2 = s1[unfolded Inr sum.case]
      show ?thesis
      proof (cases "e_ParseWithParser E p2")
        case (Inl e)
        then show ?thesis using s2 f by auto
      next
        case (Inr msg)
        with s2 obtain r' where r': "sendWithKey E authID mode settings userKR addrKR emails from to msg = Some (r', calls)"
          "r = map_sum ErrSendMessageOperation id r'" by auto
        with sendWithKey_cases[OF r'(1)] show ?thesis by (auto split: sum.splits simp: map_sum_def)
      qed
    qed
  qed
qed

lemma send_granted_cases:
  assumes "send_granted E unlock keyPass ident mode authID from fromAddr to b hash i h = Some (r, calls, h')"
  obtains (kept) err where "r = Some err" "keeps_entry err" "calls = []" "h' = h"
  | (failed) err where "r = Some err" "\<not> keeps_entry err" "send_failed E calls" "RemoveOnFail hash i h = Some h'"
  | (sent) sent where "r = None" "send_ok E sent calls" "SignalMessageSent hash i (pm_ID sent) h = Some h'"
proof -
  have f: "send_failed E []" by (simp add: send_failed_def)
  define emails where "emails = map a_Email (AddressesSorted ident)"
  show thesis
  proof (cases "e_NewParser E b")
    case (Inl e)
    then show ?thesis using assms f by (auto simp: send_granted_def intro: failed)
  next
    case (Inr parser)
    define who where "who = (case getMessageSender (e_FromAddresses E parser) of None \<Rightarrow> Some (from, fromAddr)
        | Some sender \<Rightarrow> map_option (\<lambda>a. (sender, a)) (GetAddr sender ident))"
    note s1 = assms[unfolded send_granted_def Let_def Inr sum.case, folded who_def emails_def]
    show ?thesis
    proof (cases who)
      case None
      then show ?thesis using s1 by (auto intro: kept)
    next
      case (Some w)
      obtain from' addr where w: "w = (from', addr)" by fastforce
      note s2 = s1[unfolded Some w option.case prod.case]
      show ?thesis
      proof (cases "\<not> a_Send addr \<or> a_Status addr \<noteq> AddressStatusEnabled")
        case True
        then show ?thesis using s2 by (auto intro: kept)
      next
        case False
        note s3 = s2[unfolded if_not_P[OF False]]
        show ?thesis
        proof (cases "e_GetMailSettings E")
          case (Inl e)
          then show ?thesis using s3 f by (auto intro: failed)
        next
          case (Inr settings)
          note s4 = s3[unfolded Inr sum.case]
          show ?thesis
          proof (cases "addr_keyrings unlock (st_User ident) addr keyPass")
            case (Inl e)
            then show ?thesis using s4 f by (auto intro: failed)
          next
            case (Inr krs)
            obtain u a where k: "krs = (u, a)" by fastforce
            note s5 = s4[unfolded Inr sum.case k prod.case]
            then obtain r' cs where sp: "send_parsed E authID mode settings emails from' to parser u a = Some (r', cs)"
              by (auto split: option.splits)
            show ?thesis
            proof (cases r')
              case (Inl e)
              then show ?thesis using s5 sp send_parsed_cases[OF sp] by (auto intro: failed)
            next
              case (Inr sent)
              then show ?thesis using s5 sp send_parsed_cases[OF sp] by (auto intro: sent)
            qed
          qed
        qed
      qed
    qed
  qed
qed

text \<open>
  Property C2. A message granted by the recorder and processed without a panic. When it is reported as sent, the API
  accepted exactly one \<open>SendDraft\<close>, referenced drafts were deleted only after it, and the entry carries the
  ID the API gave, with everybody who waited for it woken. When it is reported as failed, nothing was accepted
  or deleted; the entry is gone and those who waited are woken, except when the sender of the
  message is unknown or may not send, which leaves the entry as it was.
\<close>

theorem send_outcome_reported:
  assumes "recorder_inv h" and "recorded h hash e" and "srID e = i" and "msgID e = []"
    and "send_granted E unlock keyPass ident mode authID from fromAddr to b hash i h = Some (r, calls, h')"
  shows "recorder_inv h' \<and>
    (case r of
       None \<Rightarrow> (\<exists>sent. send_ok E sent calls \<and>
                 (\<exists>e'. recorded h' hash e' \<and> srID e' = i \<and> toList e' = toList e \<and> msgID e' = pm_ID sent \<and> waitChClosed e'))
     | Some err \<Rightarrow> send_failed E calls \<and>
                 (if keeps_entry err then calls = [] \<and> h' = h
                  else (\<forall>e'. recorded h' hash e' \<longrightarrow> srID e' \<noteq> i) \<and> waitCh e \<in> set (closedChs h')))"
  using assms(5)
proof (cases rule: send_granted_cases)
  case (kept err)
  then show ?thesis using assms(1) by (simp add: send_failed_def)
next
  case (failed err)
  obtain h2 where h2: "RemoveOnFail hash i h = Some h2" "recorder_inv h2"
    "\<And>hash' e'. recorded h2 hash' e' \<longleftrightarrow> recorded h hash' e' \<and> \<not> (hash' = hash \<and> srID e' = i \<and> msgID e' = [])"
    "\<And>e. recorded h hash e \<Longrightarrow> srID e = i \<Longrightarrow> msgID e = [] \<Longrightarrow> waitCh e \<in> set (closedChs h2)"
    using RemoveOnFail_spec[OF assms(1), of hash i] by metis
  have "h' = h2" using failed(4) h2(1) by simp
  moreover have "srID e' \<noteq> i" if "recorded h2 hash e'" for e'
  proof
    assume "srID e' = i"
    then have "e' = e" using that recorder_invD(4)[OF assms(1), of hash e' hash e] assms(2,3) unfolding h2(3) by simp
    then show False using that assms(3,4) unfolding h2(3) by blast
  qed
  ultimately show ?thesis using failed(1-3) h2(2) h2(4)[OF assms(2-4)] by simp
next
  case (sent sent)
  obtain h2 where h2: "SignalMessageSent hash i (pm_ID sent) h = Some h2" "recorder_inv h2"
    "\<And>hash' e'. recorded h2 hash' e' \<longleftrightarrow>
       (\<exists>e. recorded h hash' e \<and> e' = (if hash' = hash then markSent i (pm_ID sent) e else e))"
    using SignalMessageSent_spec[OF assms(1), of hash i "pm_ID sent"] by metis
  have "h' = h2" using sent(3) h2(1) by simp
  moreover have "recorded h2 hash (markSent i (pm_ID sent) e)" unfolding h2(3) using assms(2) by auto
  ultimately show ?thesis using sent(1,2) h2(2) assms(3) by (auto intro!: exI[of _ "markSent i (pm_ID sent) e"])
qed

text \<open>
  When the sender named in the message is unknown or may not send, the attempt fails but its entry
  stays in the recorder without an ID and with its channel open: a retry of the same message to the
  same recipients before the entry expires does not get to send, it waits for an attempt that has
  already ended.
\<close>

theorem rejected_sender_blocks_retry:
  assumes "recorder_inv h" and "recorded h hash e" and "srID e = i" and "msgID e = []" and "\<not> waitChClosed e"
    and "matchToList (toList e) to"
    and "send_granted E unlock keyPass ident mode authID from fromAddr to b hash i h = Some (Some err, calls, h')"
    and "keeps_entry err" and "\<not> exp e < clk e"
  shows "\<exists>h2. TryInsertWait_enter clk now hash to h' = (h2, InsertWaiting i (waitCh e)) \<and>
           waitCh e \<notin> set (closedChs h2) \<and> recorded h2 hash e"
proof -
  have h': "h' = h" using assms(7)
  proof (cases rule: send_granted_cases)
    case (failed err') then show ?thesis using assms(8) by simp
  qed auto
  let ?h = "removeExpiredUnsafe clk h"
  have e: "recorded ?h hash e" using assms(2,9) by (simp add: recorded_removeExpired)
  have inv: "recorder_inv ?h" by (rule removeExpired_inv[OF assms(1)])
  have "find (\<lambda>e. matchToList (toList e) to) (getEntries ?h hash) \<noteq> None"
    using e assms(6) unfolding recorded_def by (metis find_None_iff_all)
  then obtain f where f: "find (\<lambda>e. matchToList (toList e) to) (getEntries ?h hash) = Some f" by blast
  then have "recorded ?h hash f" "matchToList (toList f) to" using find_SomeD[OF f] by (simp_all add: recorded_def)
  then have "f = e"
    using sorted_unmatched_unique[OF recorder_invD(2)[OF inv, of hash], of f e] e assms(6)
      matchToList_trans[of "toList f" to "toList e"] matchToList_sym by (simp add: recorded_def)
  then have "TryInsertWait_enter clk now hash to h = (?h, InsertWaiting i (waitCh e))"
    using f assms(3) by (simp add: TryInsertWait_enter_def TryInsert_def Let_def)
  moreover have "waitCh e \<notin> set (closedChs ?h)"
    using recorder_invD(3)[OF inv e] assms(5) by (simp add: entry_ok_def)
  ultimately show ?thesis using e h' by blast
qed

subsection \<open>The draft\<close>

lemma add_bcc_keeps [simp]:
  "dt_ToList (add_bcc to t) = dt_ToList t" "dt_CCList (add_bcc to t) = dt_CCList t" "dt_Sender (add_bcc to t) = dt_Sender t"
  by (induction to t rule: add_bcc.induct) simp_all

definition template_addresses :: "DraftTemplate \<Rightarrow> string set" where
  "template_addresses t = ma_Address ` (set (dt_ToList t) \<union> set (dt_CCList t) \<union> set (dt_BCCList t))"

lemma add_bcc_addresses: "template_addresses (add_bcc to t) = template_addresses t \<union> set to"
  by (induction to t rule: add_bcc.induct) (auto simp: template_addresses_def)

text \<open>
  The draft that is created: its sender is an address of the user (the first that agrees up to case, without
  the plus tag), and nothing is created otherwise. The recipients in the header's To that the client did not ask for
  are dropped, everybody the client asked for is a recipient, and the only others are those in the
  header's Cc and Bcc.
\<close>

theorem createDraft_recipients:
  "case createDraft create emails from to parentID replyToID xForwardID t of
     (Inl err, calls) \<Rightarrow>
       calls = [] \<and> err = ErrSenderAddressNotOwned (ma_Address (template_sender from (dt_Sender t))) \<and>
       \<not> list_ex (\<lambda>em. EqualFold em (SanitizeEmail (ma_Address (template_sender from (dt_Sender t))))) emails
   | (Inr r, calls) \<Rightarrow>
       \<exists>req em sender.
         calls = [CreateDraft req] \<and> r = create req \<and> cd_ParentID req = parentID \<and>
         em \<in> set emails \<and> EqualFold em (SanitizeEmail (ma_Address (template_sender from (dt_Sender t)))) \<and>
         dt_Sender (cd_Message req) = Some sender \<and>
         ma_Address sender = constructEmail (ma_Address (template_sender from (dt_Sender t))) em \<and>
         ma_Address ` set (dt_ToList (cd_Message req)) \<subseteq> set to \<and>
         template_addresses (cd_Message req) =
           set to \<union> ma_Address ` (set (dt_CCList t) \<union> set (dt_BCCList t))"
proof -
  let ?s = "template_sender from (dt_Sender t)"
  let ?P = "\<lambda>em. EqualFold em (SanitizeEmail (ma_Address ?s))"
  show ?thesis
  proof (cases "find ?P emails")
    case None
    then have "createDraft create emails from to parentID replyToID xForwardID t =
        (Inl (ErrSenderAddressNotOwned (ma_Address ?s)), [])"
      by (simp add: createDraft_def Let_def)
    moreover have "\<not> list_ex ?P emails" using None by (simp add: find_None_iff_all list_ex_iff)
    ultimately show ?thesis by simp
  next
    case (Some em)
    define t2 where "t2 = t\<lparr>dt_Sender := Some (?s\<lparr>ma_Address := constructEmail (ma_Address ?s) em\<rparr>),
        dt_ToList := filter (\<lambda>a. ma_Address a \<in> set to) (dt_ToList t)\<rparr>"
    define req where "req = \<lparr>cd_Message = add_bcc to t2, cd_ParentID = parentID,
        cd_Action = (if replyToID \<noteq> [] then (if replyToID = xForwardID then ForwardAction else ReplyAction) else ForwardAction)\<rparr>"
    have c: "createDraft create emails from to parentID replyToID xForwardID t = (Inr (create req), [CreateDraft req])"
      using Some by (simp add: createDraft_def Let_def req_def t2_def)
    have "template_addresses (cd_Message req) = set to \<union> ma_Address ` (set (dt_CCList t) \<union> set (dt_BCCList t))"
    proof -
      have "template_addresses (cd_Message req) = template_addresses t2 \<union> set to" by (simp add: req_def add_bcc_addresses)
      then show ?thesis by (auto simp: template_addresses_def t2_def)
    qed
    moreover have "ma_Address ` set (dt_ToList (cd_Message req)) \<subseteq> set to" by (auto simp: req_def t2_def)
    moreover have "dt_Sender (cd_Message req) = Some (?s\<lparr>ma_Address := constructEmail (ma_Address ?s) em\<rparr>)"
      by (simp add: req_def t2_def)
    ultimately show ?thesis unfolding c prod.case sum.case using find_SomeD[OF Some]
      by (intro exI[of _ req] exI[of _ em] exI[of _ "?s\<lparr>ma_Address := constructEmail (ma_Address ?s) em\<rparr>"])
         (simp add: req_def)
  qed
qed

subsection \<open>The parent\<close>

definition last_id :: "MessageMetadata list \<Rightarrow> string" where
  "last_id ms = (if ms = [] then '''' else md_ID (last ms))"

lemma scan_metadata_eq:
  "scan_metadata ms (p, ds) =
     ((if filter (\<lambda>m. \<not> md_IsDraft m) ms = [] then p else last_id (filter (\<lambda>m. \<not> md_IsDraft m) ms)),
      ds @ map md_ID (filter md_IsDraft ms))"
  by (induction ms arbitrary: p ds) (auto simp: last_id_def)


text \<open>
  The parent of a reply, with a server that answers every lookup. The messages found for the internal references
  are split into drafts, which are all returned for deletion, and others, the last of which is the parent. If there
  is none, the last external reference decides: a single match if it was sent or received, and of several
  matches the first one that was sent. In split mode every lookup is limited to the address of the
  account.
\<close>

theorem getParentID_parent:
  fixes references :: "string list"
  assumes "\<And>ref. ref \<in> set references \<Longrightarrow> Contains ref InternalIDDomain \<Longrightarrow>
      get \<lparr>mf_ID = [TrimSuffix ref (''@'' @ InternalIDDomain)], mf_ExternalID = '''', mf_AddressID = addr_filter mode authAddrID\<rparr> =
        Inr (found ref)"
    and "\<And>ref. ref \<in> set references \<Longrightarrow>
      get \<lparr>mf_ID = [], mf_ExternalID = ref, mf_AddressID = addr_filter mode authAddrID\<rparr> = Inr (ext ref)"
  shows "let ms = concat (map found (filter (\<lambda>ref. Contains ref InternalIDDomain) references));
             external = filter (\<lambda>ref. \<not> Contains ref InternalIDDomain) references;
             p = last_id (filter (\<lambda>m. \<not> md_IsDraft m) ms)
         in getParentID get authAddrID mode references =
              Inr (if p \<noteq> '''' then p else if external = [] then '''' else external_parent (ext (last external)),
                   map md_ID (filter md_IsDraft ms))"
proof -
  let ?a = "addr_filter mode authAddrID"
  let ?int = "filter (\<lambda>ref. Contains ref InternalIDDomain) references"
  let ?ext = "filter (\<lambda>ref. \<not> Contains ref InternalIDDomain) references"
  let ?trim = "\<lambda>ref. TrimSuffix ref (''@'' @ InternalIDDomain)"
  let ?ms = "concat (map found ?int)"
  have scan: "scan_internal get ?a (map ?trim rs) acc = Inr (scan_metadata (concat (map found rs)) acc)"
    if "set rs \<subseteq> set ?int" for rs acc
    using that
  proof (induction rs arbitrary: acc)
    case (Cons r rs)
    then have "get \<lparr>mf_ID = [?trim r], mf_ExternalID = [], mf_AddressID = ?a\<rparr> = Inr (found r)" using assms(1) by simp
    moreover have "scan_metadata (found r @ concat (map found rs)) acc =
        scan_metadata (concat (map found rs)) (scan_metadata (found r) acc)"
      by (cases acc) (simp add: scan_metadata_eq last_id_def)
    ultimately show ?case using Cons by simp
  qed simp
  have last: "?ext \<noteq> [] \<Longrightarrow> get \<lparr>mf_ID = [], mf_ExternalID = last ?ext, mf_AddressID = ?a\<rparr> = Inr (ext (last ?ext))"
    using assms(2) last_in_set[of ?ext] by simp
  have none: "last_id [] = []" by (simp add: last_id_def)
  show ?thesis
    unfolding Let_def getParentID_def scan[OF subset_refl] scan_metadata_eq sum.case prod.case
    using last none by (cases "filter (\<lambda>m. \<not> md_IsDraft m) ?ms = []") (auto simp: last_id_def)
qed

subsection \<open>A concrete run\<close>

text \<open>
  One user, one address that may send and one that may not, a server that accepts everything.
\<close>

definition ex_message :: Message where
  "ex_message = \<lparr>m_MIMEBody = ''m'', m_RichBody = ''r'', m_PlainBody = ''p'', m_Attachments = [], m_MIMEType = TextPlain,
     m_Subject = ''s'', m_Sender = None, m_ToList = [], m_CCList = [], m_BCCList = [], m_ReplyTos = [], m_References = [],
     m_ExternalID = '''', m_InReplyTo = '''', m_XForward = ''''\<rparr>"

definition ex_env :: "(string, string list, unit, (string \<times> string list recipients) list, string, unit) smtp_env" where
  "ex_env = \<lparr>e_pgp = \<lparr>pg_Serialize = Inr, pg_NewKey = Inr, pg_NewKeyFromArmored = Inr, pg_GetFingerprint = id, pg_NewKeyRing = (\<lambda>k. Inr [k])\<rparr>,
     e_GetMessageHash = (\<lambda>b. Inr b), e_NewParser = (\<lambda>b. Inr b), e_FromAddresses = (\<lambda>p. Inr [p]),
     e_AttachEmptyTextPart = id, e_AttachPublicKey = (\<lambda>_ p. Inr p), e_ParseWithParser = (\<lambda>_. Inr ex_message),
     e_FirstKey = Inr, e_GetMailSettings = Inr example_settings, e_GetMessageMetadata = (\<lambda>_. Inr []),
     e_CreateDraft = (\<lambda>req. Inr \<lparr>pm_ID = ''d'', pm_ToList = dt_ToList (cd_Message req), pm_CCList = dt_CCList (cd_Message req),
       pm_BCCList = dt_BCCList (cd_Message req), pm_MIMEType = dt_MIMEType (cd_Message req)\<rparr>),
     e_UploadAttachment = (\<lambda>_. Inr ([], [])), e_FormatMediaType = (\<lambda>t _. t), e_SessionKey = (\<lambda>_ _. Inr ()),
     e_GetPublicKeys = (\<lambda>a. Inr ([''k''], RecipientTypeInternal)), e_GetAllContactEmails = (\<lambda>_. Inr []),
     e_GetContact = (\<lambda>_. Inr ()), e_GetSettings = (\<lambda>_ _ _. Inr empty_ContactSettings), e_EmptyRequest = [],
     e_AddMIMEPackage = (\<lambda>_ _. record_package MultipartMixed), e_AddTextPackage = (\<lambda>_ _ t _. record_package t),
     e_SendDraft = (\<lambda>d req. Inr \<lparr>pm_ID = ''sent'', pm_ToList = [], pm_CCList = [], pm_BCCList = [], pm_MIMEType = TextPlain\<rparr>),
     e_DeleteMessage = (\<lambda>_. None)\<rparr>"

definition ex_sender :: "unit Address" where
  "ex_sender = \<lparr>a_ID = ''1'', a_Email = ''u@x'', a_Status = AddressStatusEnabled, a_Order = 0, a_Send = True, a_Type = AddressTypeOriginal, a_Keys = ()\<rparr>"

definition ex_ident :: "unit State" where
  "ex_ident = \<lparr>AddressesSorted = [ex_sender, ex_sender\<lparr>a_ID := ''2'', a_Email := ''v@x'', a_Send := False\<rparr>], Addresses = Map.empty,
     st_User = \<lparr>u_ID = ''u'', u_Name = ''u'', u_UsedSpace = 0, u_Keys = ()\<rparr>\<rparr>"

definition ex_table :: "string \<Rightarrow> SendRecorder" where
  "ex_table hash = fst (TryInsert (\<lambda>_. 0) 0 hash [''to@y''] (NewSendRecorder 10))"

definition ex_entry :: sendEntry where
  "ex_entry = \<lparr>srID = 1, msgID = [], toList = [''to@y''], exp = 10, waitCh = 0, waitChClosed = False\<rparr>"

definition ex_granted :: "string \<Rightarrow> (smtp_err option \<times> api_call list \<times> SendRecorder) option" where
  "ex_granted hash = send_granted ex_env (\<lambda>_ _ _. Inr [''a'']) () ex_ident AddressModeCombined ''1'' ''u@x'' ex_sender [''to@y''] hash hash 1 (ex_table hash)"

lemma ex_table: "recorder_inv (ex_table hash)" "recorded (ex_table hash) hash ex_entry"
proof -
  have "recorder_inv (NewSendRecorder 10)" by (rule recorder_invI) (simp_all add: NewSendRecorder_def recorded_def getEntries_def)
  moreover have "TryInsert (\<lambda>_. 0) 0 hash [''to@y''] (NewSendRecorder 10) = (ex_table hash, 1, 0, True)"
    by (simp add: ex_table_def TryInsert_def NewSendRecorder_def removeExpiredUnsafe_def getEntries_def newSendRecorderID_def Let_def)
  moreover have "cancelIDCounter (NewSendRecorder 10) \<noteq> - 1" by (simp add: NewSendRecorder_def)
  ultimately show "recorder_inv (ex_table hash)" using TryInsert_inv by blast
  show "recorded (ex_table hash) hash ex_entry"
    by (simp add: ex_table_def TryInsert_def NewSendRecorder_def removeExpiredUnsafe_def getEntries_def newSendRecorderID_def Let_def
        recorded_def ex_entry_def)
qed

lemma ex_granted_results:
  "map_option fst (ex_granted ''u@x'') = Some None"
  "map_option fst (ex_granted ''v@x'') = Some (Some (ErrCannotSendFromAddress ''v@x''))"
  by code_simp+

theorem send_outcome_reported_witness:
  "\<exists>calls h' sent e'. ex_granted ''u@x'' = Some (None, calls, h') \<and> send_ok ex_env sent calls \<and> recorder_inv h' \<and>
     recorded h' ''u@x'' e' \<and> srID e' = 1 \<and> msgID e' = pm_ID sent"
proof -
  obtain calls h' where g: "ex_granted ''u@x'' = Some (None, calls, h')"
    using ex_granted_results(1) by (auto simp: map_option_case split: option.splits)
  show ?thesis using g
      send_outcome_reported[OF ex_table(1) ex_table(2) _ _ g[unfolded ex_granted_def]]
    by (simp add: ex_entry_def) blast
qed

theorem rejected_sender_blocks_retry_witness:
  "\<exists>calls h' h2. ex_granted ''v@x'' = Some (Some (ErrCannotSendFromAddress ''v@x''), calls, h') \<and>
     TryInsertWait_enter (\<lambda>_. 5) 5 ''v@x'' [''to@y''] h' = (h2, InsertWaiting 1 0) \<and> 0 \<notin> set (closedChs h2)"
proof -
  obtain calls h' where g: "ex_granted ''v@x'' = Some (Some (ErrCannotSendFromAddress ''v@x''), calls, h')"
    using ex_granted_results(2) by (auto simp: map_option_case split: option.splits)
  show ?thesis using g
      rejected_sender_blocks_retry[OF ex_table(1) ex_table(2) _ _ _ _ g[unfolded ex_granted_def], of "\<lambda>_. 5" 5]
    by (simp add: ex_entry_def) blast
qed

definition ex_metadata :: "string \<Rightarrow> bool \<Rightarrow> MessageMetadata" where
  "ex_metadata i d = \<lparr>md_ID = i, md_IsDraft = d, md_FlagSent = False, md_FlagReceived = True\<rparr>"

definition ex_lookup :: "MessageFilter \<Rightarrow> client_err + MessageMetadata list" where
  "ex_lookup f = Inr (if mf_ID f = [''abc''] then [ex_metadata ''abc'' True]
                      else if mf_ExternalID f = ''ext'' then [ex_metadata ''x'' False] else [])"

theorem getParentID_parent_witness:
  "getParentID ex_lookup ''1'' AddressModeSplit [''abc@protonmail.internalid'', ''ext''] = Inr (''x'', [''abc''])"
proof -
  let ?refs = "[''abc@protonmail.internalid'', ''ext'']"
  have c: "Contains ''abc@protonmail.internalid'' InternalIDDomain" "\<not> Contains ''ext'' InternalIDDomain" by code_simp+
  have "let ms = concat (map (\<lambda>_. [ex_metadata ''abc'' True]) (filter (\<lambda>ref. Contains ref InternalIDDomain) ?refs));
             external = filter (\<lambda>ref. \<not> Contains ref InternalIDDomain) ?refs;
             p = last_id (filter (\<lambda>m. \<not> md_IsDraft m) ms)
         in getParentID ex_lookup ''1'' AddressModeSplit ?refs =
              Inr (if p \<noteq> '''' then p else if external = [] then ''''
                   else external_parent ((\<lambda>r. if r = ''ext'' then [ex_metadata ''x'' False] else []) (last external)),
                   map md_ID (filter md_IsDraft ms))"
  proof (rule getParentID_parent)
    fix ref assume r: "ref \<in> set ?refs" and "Contains ref InternalIDDomain"
    then have "ref = ''abc@protonmail.internalid''" using c(2) by (metis empty_iff empty_set set_ConsD)
    moreover have "TrimSuffix ''abc@protonmail.internalid'' (''@'' @ InternalIDDomain) = ''abc''" by code_simp
    ultimately show "ex_lookup \<lparr>mf_ID = [TrimSuffix ref (''@'' @ InternalIDDomain)], mf_ExternalID = '''',
        mf_AddressID = addr_filter AddressModeSplit ''1''\<rparr> = Inr [ex_metadata ''abc'' True]"
      by (simp only: ex_lookup_def MessageFilter.simps if_True simp_thms)
  next
    fix ref assume "ref \<in> set ?refs"
    show "ex_lookup \<lparr>mf_ID = [], mf_ExternalID = ref, mf_AddressID = addr_filter AddressModeSplit ''1''\<rparr> =
        Inr (if ref = ''ext'' then [ex_metadata ''x'' False] else [])"
      by (simp add: ex_lookup_def)
  qed
  then show ?thesis using c by (simp add: Let_def ex_metadata_def last_id_def external_parent_def)
qed

end
