(* ===== verification/Smtp_Server.thy ===== *)
theory Smtp_Server
  imports Smtp_Send
begin

section \<open>The SMTP server side\<close>

text \<open>
  Models the way of a submission from an SMTP session to an account and back:
  \<^verbatim>\<open>internal/services/smtp/smtp_backend.go\<close> (sessions), \<^verbatim>\<open>accounts.go\<close> (accounts and their throttling),
  \<^verbatim>\<open>service.go\<close> (the goroutine of an account), \<^verbatim>\<open>errormapper.go\<close> and \<^verbatim>\<open>pkg/errmapper\<close> (the texts a mail
  client gets to see). Times are nanoseconds; \<^verbatim>\<open>Sub\<close> saturates as Go's does.
\<close>

subsection \<open>Throttling\<close>

definition maxFailedCommands :: nat where "maxFailedCommands = 3"
definition defaultErrTimeout :: gotime where "defaultErrTimeout = 20 * 1000000000"
definition successiveErrInterval :: gotime where "successiveErrInterval = 1000000000"

text \<open>Go's zero time, on a clock that starts in 1970.\<close>

definition time_zero :: gotime where "time_zero = - 62135596800 * 1000000000"

definition Sub :: "gotime \<Rightarrow> gotime \<Rightarrow> gotime" where
  "Sub t u = max (- (2 ^ 63)) (min (2 ^ 63 - 1) (t - u))"

record smtpAccountState =
  errTimeout :: gotime
  errCounter :: nat
  lastRequest :: gotime

datatype account_err =
    ErrInvalidRecipient
  | ErrNoSuchUser
  | ErrTooManyErrors
  | ErrSMTPAuthFailed
  | ServiceErr smtp_err
  | RequestErr string

definition canMakeRequest :: "gotime \<Rightarrow> smtpAccountState \<Rightarrow> account_err option \<times> smtpAccountState" where
  "canMakeRequest requestTime s =
     (if errCounter s \<ge> maxFailedCommands
      then (if Sub requestTime (lastRequest s) \<ge> errTimeout s then (None, s\<lparr>errCounter := 0\<rparr>)
            else (Some ErrTooManyErrors, s))
      else (None, s))"

definition handleSMTPErr :: "gotime \<Rightarrow> account_err option \<Rightarrow> smtpAccountState \<Rightarrow> smtpAccountState" where
  "handleSMTPErr requestTime err s =
     (let s1 = (if err = None \<or> Sub requestTime (lastRequest s) > successiveErrInterval
                then s\<lparr>errCounter := 0\<rparr> else s\<lparr>errCounter := errCounter s + 1\<rparr>)
      in s1\<lparr>lastRequest := requestTime\<rparr>)"

subsection \<open>Accounts\<close>

text \<open>
  The map of accounts as an association list; \<open>'svc\<close> is the service of an account. A range over the map visits
  the list in order.
\<close>

type_synonym 'svc accounts = "(string \<times> 'svc \<times> smtpAccountState) list"

definition NewAccounts :: "'svc accounts" where
  "NewAccounts = []"

definition AddAccount :: "string \<Rightarrow> 'svc \<Rightarrow> 'svc accounts \<Rightarrow> 'svc accounts" where
  "AddAccount userID svc accs =
     AList.update userID (svc, \<lparr>errTimeout = defaultErrTimeout, errCounter = 0, lastRequest = time_zero\<rparr>) accs"

definition RemoveAccount :: "string \<Rightarrow> 'svc accounts \<Rightarrow> 'svc accounts" where
  "RemoveAccount userID accs = AList.delete userID accs"

fun Accounts_CheckAuth ::
  "('svc \<Rightarrow> string \<Rightarrow> string \<Rightarrow> 'e + string) \<Rightarrow> string \<Rightarrow> string \<Rightarrow> 'svc accounts \<Rightarrow> account_err + string \<times> string" where
  "Accounts_CheckAuth checkAuth user password [] = Inl ErrSMTPAuthFailed"
| "Accounts_CheckAuth checkAuth user password ((i, svc, st) # accs) =
     (case checkAuth svc user password of
        Inl _ \<Rightarrow> Accounts_CheckAuth checkAuth user password accs
      | Inr addrID \<Rightarrow> Inr (i, addrID))"

text \<open>
  \<open>send\<close> is \<^verbatim>\<open>SendMail\<close> of the account's service: it may change the service and returns an error or nothing.
\<close>

definition Accounts_SendMail ::
  "('svc \<Rightarrow> account_err option \<times> 'svc) \<Rightarrow> gotime \<Rightarrow> string \<Rightarrow> string list \<Rightarrow> 'svc accounts \<Rightarrow>
     account_err option \<times> 'svc accounts" where
  "Accounts_SendMail send requestTime userID to accs =
     (if to = [] then (Some ErrInvalidRecipient, accs)
      else case map_of accs userID of
             None \<Rightarrow> (Some ErrNoSuchUser, accs)
           | Some (svc, st) \<Rightarrow>
               (case canMakeRequest requestTime st of
                  (Some e, st1) \<Rightarrow> (Some e, AList.update userID (svc, st1) accs)
                | (None, st1) \<Rightarrow>
                    (case send svc of
                       (err, svc') \<Rightarrow> (err, AList.update userID (svc', handleSMTPErr requestTime err st1) accs))))"

subsection \<open>The service of an account\<close>

record 'k smtp_service =
  ss_identity :: "'k State"
  ss_addressMode :: AddressMode
  ss_recorder :: SendRecorder

text \<open>
  What the goroutine of \<open>run\<close> receives. The answers of the identity provider come with the request that asks for
  them; \<open>send\<close> is \<open>smtpSendMail\<close> with the environment of the request.
\<close>

datatype ('k, 'e) smtp_request =
    SendMailReq
  | SetAddressModeReq AddressMode
  | SmtpCheckAuthReq string string
  | SmtpResyncReq "'e + 'k User" "'e + 'k Address list"
  | OnLogoutReq "'e option"
  | SmtpAddressEvents "'k AddressEvent list"
  | SmtpUserEvent "'k User"
  | SmtpRefreshEvent "'e + 'k User" "'e + 'k Address list"

datatype 'e smtp_reply =
    SendReply "smtp_err option" "api_call list"
  | DoneReply
  | AuthReply "auth_err + string"
  | ProviderReply "'e option"

definition smtp_run_step ::
  "'k map_order \<Rightarrow> nat list \<Rightarrow> ('k State \<Rightarrow> AddressMode \<Rightarrow> SendRecorder \<Rightarrow> (smtp_err option \<times> api_call list \<times> SendRecorder) option) \<Rightarrow>
     ('k, 'e) smtp_request \<Rightarrow> 'k smtp_service \<Rightarrow> ('e smtp_reply \<times> 'k smtp_service) option" where
  "smtp_run_step enum bridgePass send req s =
     (case req of
        SendMailReq \<Rightarrow>
          map_option (\<lambda>(err, calls, h). (SendReply err calls, s\<lparr>ss_recorder := h\<rparr>))
            (send (ss_identity s) (ss_addressMode s) (ss_recorder s))
      | SetAddressModeReq mode \<Rightarrow> Some (DoneReply, s\<lparr>ss_addressMode := mode\<rparr>)
      | SmtpCheckAuthReq email pass \<Rightarrow>
          map_option (\<lambda>r. (AuthReply r, s)) (CheckAuth email pass bridgePass (ss_identity s))
      | SmtpResyncReq gu ga \<Rightarrow>
          (case OnRefreshEvent enum gu ga (ss_identity s) of (err, st) \<Rightarrow> Some (ProviderReply err, s\<lparr>ss_identity := st\<rparr>))
      | OnLogoutReq err \<Rightarrow> Some (ProviderReply err, s)
      | SmtpAddressEvents evs \<Rightarrow> Some (DoneReply, s\<lparr>ss_identity := OnAddressEvents enum evs (ss_identity s)\<rparr>)
      | SmtpUserEvent u \<Rightarrow> Some (DoneReply, s\<lparr>ss_identity := OnUserEvent u (ss_identity s)\<rparr>)
      | SmtpRefreshEvent gu ga \<Rightarrow>
          (case OnRefreshEvent enum gu ga (ss_identity s) of (err, st) \<Rightarrow> Some (ProviderReply err, s\<lparr>ss_identity := st\<rparr>)))"

subsection \<open>Error texts\<close>

text \<open>The errors the rules look for with \<^verbatim>\<open>errors.Is\<close>.\<close>

datatype target =
    TSendMessageOperation
  | TGetRecipientsOperation
  | TGetSendPreferencesOperation
  | TLookupRecipientPublicKey
  | TRecipientAddressDoesNotExist
  | TValidationFailed
  | TMessageTooLarge
  | TInvalidListOfRecipients
  | TCannotSendFromAddress
  | TTooManyErrors
  | TSenderAddressNotOwned
  | TUnsupportedOutgoingMIME
  | TSMTPAuthFailed
  | TNoSuchUser
  | TInvalidRecipient
  | TInvalidReturnPath

fun recipient_chain :: "recipient_err \<Rightarrow> target list" where
  "recipient_chain (LookupPublicKey a missing e) =
     TGetSendPreferencesOperation # TLookupRecipientPublicKey # (if missing then [TRecipientAddressDoesNotExist] else [])"
| "recipient_chain _ = [TGetSendPreferencesOperation]"

fun send_chain :: "send_with_key_err \<Rightarrow> target list" where
  "send_chain (ErrUnsupportedOutgoingMIME _) = [TUnsupportedOutgoingMIME]"
| "send_chain ErrValidationFailed = [TValidationFailed]"
| "send_chain ErrMessageTooLarge = [TMessageTooLarge]"
| "send_chain ErrInvalidListOfRecipients = [TInvalidListOfRecipients]"
| "send_chain (ErrSenderAddressNotOwned _) = [TSenderAddressNotOwned]"
| "send_chain (ErrGetRecipientsOperation e) = TGetRecipientsOperation # recipient_chain e"
| "send_chain _ = []"

fun smtp_chain :: "smtp_err \<Rightarrow> target list" where
  "smtp_chain ErrInvalidReturnPath = [TInvalidReturnPath]"
| "smtp_chain (ErrCannotSendFromAddress _) = [TCannotSendFromAddress]"
| "smtp_chain (ErrSendMessageOperation e) = TSendMessageOperation # send_chain e"
| "smtp_chain _ = []"

fun err_chain :: "account_err \<Rightarrow> target list" where
  "err_chain ErrInvalidRecipient = [TInvalidRecipient]"
| "err_chain ErrNoSuchUser = [TNoSuchUser]"
| "err_chain ErrTooManyErrors = [TTooManyErrors]"
| "err_chain ErrSMTPAuthFailed = [TSMTPAuthFailed]"
| "err_chain (ServiceErr e) = smtp_chain e"
| "err_chain (RequestErr _) = []"

datatype MatchType = MatchAll | MatchAny

text \<open>A rule; \<open>'err\<close> are the errors, \<open>'r\<close> the results.\<close>

record ('err, 't, 'r) Rule =
  r_Targets :: "'t list"
  r_MatchType :: MatchType
  r_ResultFn :: "'err \<Rightarrow> 'r"

definition rule_match :: "('err \<Rightarrow> 't list) \<Rightarrow> 'err \<Rightarrow> ('err, 't, 'r) Rule \<Rightarrow> bool" where
  "rule_match chain err rule =
     (case r_MatchType rule of
        MatchAny \<Rightarrow> list_ex (\<lambda>t. t \<in> set (chain err)) (r_Targets rule)
      | MatchAll \<Rightarrow> list_all (\<lambda>t. t \<in> set (chain err)) (r_Targets rule))"

text \<open>\<open>Inl\<close>: the original error.\<close>

fun Resolve :: "('err \<Rightarrow> 't list) \<Rightarrow> ('err, 't, 'r) Rule list \<Rightarrow> 'err \<Rightarrow> 'err + 'r" where
  "Resolve chain [] err = Inl err"
| "Resolve chain (rule # rules) err =
     (if rule_match chain err rule then Inr (r_ResultFn rule err) else Resolve chain rules err)"

definition NewRule :: "'t list \<Rightarrow> MatchType \<Rightarrow> 'r \<Rightarrow> ('err, 't, 'r) Rule" where
  "NewRule targets m result = \<lparr>r_Targets = targets, r_MatchType = m, r_ResultFn = (\<lambda>_. result)\<rparr>"

definition NewRuleWithResultFunc :: "'t list \<Rightarrow> MatchType \<Rightarrow> ('err \<Rightarrow> 'r) \<Rightarrow> ('err, 't, 'r) Rule" where
  "NewRuleWithResultFunc targets m f = \<lparr>r_Targets = targets, r_MatchType = m, r_ResultFn = f\<rparr>"

fun missing_address :: "account_err \<Rightarrow> string option" where
  "missing_address (ServiceErr (ErrSendMessageOperation (ErrGetRecipientsOperation (LookupPublicKey a True e)))) = Some a"
| "missing_address _ = None"

fun rejected_address :: "account_err \<Rightarrow> string option" where
  "rejected_address (ServiceErr (ErrCannotSendFromAddress a)) = Some a"
| "rejected_address _ = None"

definition smtpErrRules :: "(account_err, target, string) Rule list" where
  "smtpErrRules =
     [NewRuleWithResultFunc
        [TSendMessageOperation, TGetRecipientsOperation, TGetSendPreferencesOperation, TLookupRecipientPublicKey,
         TRecipientAddressDoesNotExist] MatchAll
        (\<lambda>err. case missing_address err of
           Some a \<Rightarrow> ''No email was sent. The address '' @ a @ '' does not exist. Correct the recipient and resend the message''
         | None \<Rightarrow> ''No email was sent. One or more addresses do not exist. Correct the recipients and resend the message''),
      NewRule [TSendMessageOperation, TValidationFailed] MatchAll
        ''This message couldn't be sent because the email client sent a malformed message'',
      NewRuleWithResultFunc [TCannotSendFromAddress] MatchAny
        (\<lambda>err. case rejected_address err of
           Some a \<Rightarrow> ''You cannot send from this address: '' @ a @ ''. Check your email client and Bridge settings''
         | None \<Rightarrow> ''You cannot send from this address. Check your email client and Bridge settings''),
      NewRule [TTooManyErrors] MatchAny ''Too many failed send attempts. Try again later'',
      NewRule [TSenderAddressNotOwned] MatchAny
        ''The sender address is not valid for this account. Check your email client and Proton settings, or choose a different sender address'',
      NewRule [TUnsupportedOutgoingMIME] MatchAny
        ''This message uses an unsupported message format. Try plain text or HTML'',
      NewRule [TSMTPAuthFailed] MatchAny
        ''User Authentication failed. Please check the outgoing server configuration in your mail client and try again'',
      NewRule [TNoSuchUser] MatchAll
        ''The account is not available in Bridge. Verify the outgoing server settings in your mail client and try again'',
      NewRule [TInvalidRecipient, TInvalidReturnPath] MatchAny
        ''The sender or recipient address is not valid. Review the addresses and resend the message'']"

definition mapError :: "account_err \<Rightarrow> account_err + string" where
  "mapError err = Resolve err_chain smtpErrRules err"

subsection \<open>Sessions\<close>

record smtpSession =
  s_userID :: string
  s_authID :: string
  s_from :: string
  s_to :: "string list"

definition NewSession :: smtpSession where
  "NewSession = \<lparr>s_userID = '''', s_authID = '''', s_from = '''', s_to = []\<rparr>"

datatype login_err = UnknownError | InvalidUsernameOrPassword

definition UnknownClient :: string where "UnknownClient = ''UnknownClient''"
definition DefaultVersion :: string where "DefaultVersion = ''0.0.1''"

text \<open>The user agent of the bridge is behind an interface: \<open>getUA\<close> and \<open>setUA\<close>.\<close>

definition AuthPlain ::
  "(string \<Rightarrow> string \<Rightarrow> account_err + string \<times> string) \<Rightarrow> ('u \<Rightarrow> string) \<Rightarrow> (string \<Rightarrow> string \<Rightarrow> 'u \<Rightarrow> 'u) \<Rightarrow> string \<Rightarrow> string \<Rightarrow>
     smtpSession \<times> 'u \<Rightarrow> login_err option \<times> smtpSession \<times> 'u" where
  "AuthPlain checkAuth getUA setUA username password su =
     (case su of
        (s, ua) \<Rightarrow>
          (case checkAuth username password of
             Inl err \<Rightarrow> (Some (if err \<noteq> ErrNoSuchUser then UnknownError else InvalidUsernameOrPassword), s, ua)
           | Inr (userID, authID) \<Rightarrow>
               (None, s\<lparr>s_userID := userID, s_authID := authID\<rparr>,
                if Contains (getUA ua) DefaultUserAgent then setUA UnknownClient DefaultVersion ua else ua)))"

definition Session_Reset :: "smtpSession \<Rightarrow> smtpSession" where
  "Session_Reset s = s\<lparr>s_from := '''', s_to := []\<rparr>"

definition Session_Logout :: "smtpSession \<Rightarrow> smtpSession" where
  "Session_Logout s = Session_Reset s"

definition Session_Mail :: "string \<Rightarrow> smtpSession \<Rightarrow> smtpSession" where
  "Session_Mail from s = s\<lparr>s_from := from\<rparr>"

definition Session_Rcpt :: "string \<Rightarrow> smtpSession \<Rightarrow> smtpSession" where
  "Session_Rcpt to s = (if to \<noteq> '''' then s\<lparr>s_to := s_to s @ [to]\<rparr> else s)"

text \<open>\<open>send\<close> is \<^verbatim>\<open>SendMail\<close> of the accounts, on whatever state \<open>'a\<close> they have.\<close>

definition Session_Data ::
  "(string \<Rightarrow> string \<Rightarrow> string \<Rightarrow> string list \<Rightarrow> 'a \<Rightarrow> account_err option \<times> 'a) \<Rightarrow> smtpSession \<Rightarrow> 'a \<Rightarrow>
     (account_err + string) option \<times> 'a" where
  "Session_Data send s a =
     (case send (s_userID s) (s_authID s) (s_from s) (s_to s) a of (err, a') \<Rightarrow> (map_option mapError err, a'))"

subsection \<open>When an account is throttled\<close>

text \<open>
  A submission at a time with the answer the service would give; the log has the admitted ones with the newest first and
  whether they failed.
\<close>

definition attempt ::
  "gotime \<times> account_err option \<Rightarrow> smtpAccountState \<times> (gotime \<times> bool) list \<Rightarrow> smtpAccountState \<times> (gotime \<times> bool) list" where
  "attempt te sl =
     (case (te, sl) of
        ((t, err), (s, log)) \<Rightarrow>
          (case canMakeRequest t s of
             (Some _, s1) \<Rightarrow> (s1, log)
           | (None, s1) \<Rightarrow> (handleSMTPErr t err s1, (t, err \<noteq> None) # log)))"

fun quick_failures :: "nat \<Rightarrow> (gotime \<times> bool) list \<Rightarrow> bool" where
  "quick_failures 0 log = True"
| "quick_failures (Suc n) ((t, failed) # (t', failed') # log) =
     (failed \<and> Sub t t' \<le> successiveErrInterval \<and> quick_failures n ((t', failed') # log))"
| "quick_failures (Suc n) _ = False"

lemma quick_failures_mono: "quick_failures n log \<Longrightarrow> m \<le> n \<Longrightarrow> quick_failures m log"
proof (induction n log arbitrary: m rule: quick_failures.induct)
  case (2 n t failed t' failed' log)
  then show ?case by (cases m) auto
qed auto

definition fresh_account :: smtpAccountState where
  "fresh_account = \<lparr>errTimeout = defaultErrTimeout, errCounter = 0, lastRequest = time_zero\<rparr>"

definition throttle_inv :: "smtpAccountState \<times> (gotime \<times> bool) list \<Rightarrow> bool" where
  "throttle_inv sl \<longleftrightarrow>
     (case sl of (s, log) \<Rightarrow>
        errTimeout s = defaultErrTimeout \<and> lastRequest s = (case log of [] \<Rightarrow> time_zero | (t, _) # _ \<Rightarrow> t) \<and>
        (\<forall>n. quick_failures n log \<longleftrightarrow> n \<le> errCounter s))"

lemma attempt_inv:
  assumes "throttle_inv sl" and "0 \<le> t"
  shows "throttle_inv (attempt (t, err) sl)"
proof -
  obtain s log where sl: "sl = (s, log)" by fastforce
  note inv = assms(1)[unfolded sl throttle_inv_def prod.case]
  have zero: "Sub t time_zero > successiveErrInterval"
    using assms(2) by (simp add: Sub_def time_zero_def successiveErrInterval_def)
  define quick where "quick \<longleftrightarrow> err \<noteq> None \<and> \<not> Sub t (lastRequest s) > successiveErrInterval"
  have step: "quick_failures n ((t, err \<noteq> None) # log) \<longleftrightarrow> (case n of 0 \<Rightarrow> True | Suc m \<Rightarrow> quick \<and> m \<le> errCounter s)" for n
  proof (cases n)
    case (Suc m)
    show ?thesis
    proof (cases log)
      case Nil
      then show ?thesis using Suc inv zero by (auto simp: quick_def simp del: not_None_eq)
    next
      case (Cons x l)
      then show ?thesis using Suc inv by (cases x) (auto simp: quick_def simp del: not_None_eq)
    qed
  qed simp
  show ?thesis
  proof (cases "errCounter s \<ge> maxFailedCommands")
    case True
    show ?thesis
    proof (cases "Sub t (lastRequest s) \<ge> errTimeout s")
      case True
      then have "\<not> quick" using inv by (simp add: quick_def defaultErrTimeout_def successiveErrInterval_def)
      moreover have "attempt (t, err) sl = (s\<lparr>errCounter := 0, lastRequest := t\<rparr>, (t, err \<noteq> None) # log)"
        using True \<open>errCounter s \<ge> maxFailedCommands\<close> inv unfolding sl
        by (simp add: attempt_def canMakeRequest_def handleSMTPErr_def Let_def defaultErrTimeout_def successiveErrInterval_def
            del: not_None_eq)
      ultimately show ?thesis using inv by (simp add: throttle_inv_def step del: not_None_eq split: nat.splits)
    next
      case False
      then have "attempt (t, err) sl = sl" using True unfolding sl by (simp add: attempt_def canMakeRequest_def)
      then show ?thesis using assms(1) by simp
    qed
  next
    case False
    then have "attempt (t, err) sl = (s\<lparr>errCounter := if quick then errCounter s + 1 else 0, lastRequest := t\<rparr>, (t, err \<noteq> None) # log)"
      unfolding sl quick_def by (simp add: attempt_def canMakeRequest_def handleSMTPErr_def Let_def del: not_None_eq)
    then show ?thesis using inv by (auto simp: throttle_inv_def step simp del: not_None_eq split: nat.splits)
  qed
qed

lemma attempts_inv:
  assumes "\<forall>(t, err) \<in> set ts. 0 \<le> t" and "throttle_inv sl"
  shows "throttle_inv (fold attempt ts sl)"
  using assms
proof (induction ts arbitrary: sl)
  case (Cons te ts)
  obtain t err where te: "te = (t, err)" by fastforce
  have "throttle_inv (attempt te sl)" unfolding te using Cons.prems te by (intro attempt_inv) auto
  then show ?case using Cons by simp
qed simp

lemma throttle_inv_fresh: "throttle_inv (fresh_account, [])"
proof -
  have "quick_failures n [] \<longleftrightarrow> n \<le> 0" for n by (cases n) simp_all
  then show ?thesis by (simp add: throttle_inv_def fresh_account_def)
qed

text \<open>
  Property C34. Throttling of one account, over any sequence of submissions. A submission is refused exactly when the last
  three admitted ones failed, each at most a second after the one before, and less than twenty seconds have
  passed since the last of them. A refusal changes nothing, so it does not prolong the lock.
\<close>

theorem throttle_exact:
  assumes "\<forall>(t, err) \<in> set ts. 0 \<le> t" and "fold attempt ts (fresh_account, []) = (s, log)"
  shows "if quick_failures 3 log \<and> Sub t (fst (hd log)) < 20 * 1000000000
         then canMakeRequest t s = (Some ErrTooManyErrors, s)
         else \<exists>s'. canMakeRequest t s = (None, s')"
proof -
  have inv: "throttle_inv (s, log)" using attempts_inv[OF assms(1) throttle_inv_fresh] assms(2) by metis
  have q: "quick_failures 3 log \<longleftrightarrow> maxFailedCommands \<le> errCounter s"
    using inv by (simp add: throttle_inv_def maxFailedCommands_def)
  have "quick_failures 3 [] \<longleftrightarrow> False" by (simp add: numeral_3_eq_3)
  then have "quick_failures 3 log \<Longrightarrow> fst (hd log) = lastRequest s"
    using inv by (cases log) (auto simp: throttle_inv_def)
  moreover have "errTimeout s = 20 * 1000000000" using inv by (simp add: throttle_inv_def defaultErrTimeout_def)
  ultimately show ?thesis using q by (auto simp: canMakeRequest_def)
qed

theorem throttle_exact_witness:
  "let e = Some (RequestErr ''x''); ts = [(0, e), (1, e), (2, e), (3, e), (4, e)]
   in \<exists>s log. fold attempt ts (fresh_account, []) = (s, log) \<and> canMakeRequest 5 s = (Some ErrTooManyErrors, s) \<and>
        quick_failures 3 log \<and> fst (hd log) = 3"
proof -
  define e where "e = Some (RequestErr ''x'')"
  define ts :: "(gotime \<times> account_err option) list" where "ts = [(0, e), (1, e), (2, e), (3, e), (4, e)]"
  let ?s = "\<lparr>errTimeout = defaultErrTimeout, errCounter = 3, lastRequest = 3\<rparr>"
  let ?log = "[(3, True), (2, True), (1, True), (0 :: gotime, True)]"
  have run: "fold attempt ts (fresh_account, []) = (?s, ?log)"
    by (simp add: ts_def e_def attempt_def fresh_account_def canMakeRequest_def maxFailedCommands_def handleSMTPErr_def
        Sub_def time_zero_def successiveErrInterval_def defaultErrTimeout_def Let_def)
  have q: "quick_failures 3 ?log" by (simp add: numeral_3_eq_3 Sub_def successiveErrInterval_def)
  have nonneg: "\<forall>(t, err) \<in> set ts. 0 \<le> t" by (simp add: ts_def)
  have "canMakeRequest 5 ?s = (Some ErrTooManyErrors, ?s)"
    using throttle_exact[OF nonneg run, of 5] q by (simp add: Sub_def)
  with run q show ?thesis unfolding Let_def e_def[symmetric] ts_def[symmetric] by force
qed

subsection \<open>What the mail client is told\<close>

text \<open>
  Which errors reach the client as they are: those whose chain names nothing but the steps of sending, a
  message that is too large and an invalid list of recipients. The other errors are
  replaced by a text, and the texts for a missing recipient and for a sender that may not send name
  the address.
\<close>

theorem mapError_texts:
  "(mapError err = Inl err \<longleftrightarrow>
      list_all (\<lambda>t. t \<in> {TSendMessageOperation, TGetRecipientsOperation, TGetSendPreferencesOperation,
                        TLookupRecipientPublicKey, TMessageTooLarge, TInvalidListOfRecipients}) (err_chain err)) \<and>
   mapError (ServiceErr (ErrSendMessageOperation (ErrGetRecipientsOperation (LookupPublicKey a True e)))) =
     Inr (''No email was sent. The address '' @ a @ '' does not exist. Correct the recipient and resend the message'') \<and>
   mapError (ServiceErr (ErrCannotSendFromAddress a)) =
     Inr (''You cannot send from this address: '' @ a @ ''. Check your email client and Bridge settings'')"
proof -
  note rules = mapError_def smtpErrRules_def rule_match_def NewRule_def NewRuleWithResultFunc_def
  have s: "mapError (ServiceErr x) = Inl (ServiceErr x) \<longleftrightarrow>
      list_all (\<lambda>t. t \<in> {TSendMessageOperation, TGetRecipientsOperation, TGetSendPreferencesOperation,
                        TLookupRecipientPublicKey, TMessageTooLarge, TInvalidListOfRecipients}) (smtp_chain x)" for x
  proof (cases x)
    case (ErrSendMessageOperation y)
    show ?thesis
    proof (cases y)
      case (ErrGetRecipientsOperation z)
      then show ?thesis using ErrSendMessageOperation by (cases z) (auto simp: rules)
    qed (auto simp: rules ErrSendMessageOperation)
  qed (auto simp: rules)
  have "mapError err = Inl err \<longleftrightarrow>
      list_all (\<lambda>t. t \<in> {TSendMessageOperation, TGetRecipientsOperation, TGetSendPreferencesOperation,
                        TLookupRecipientPublicKey, TMessageTooLarge, TInvalidListOfRecipients}) (err_chain err)"
    using s by (cases err) (auto simp: rules)
  then show ?thesis by (simp add: rules)
qed

lemma Accounts_CheckAuth_err: "Accounts_CheckAuth checkAuth user password accs = Inl err \<Longrightarrow> err = ErrSMTPAuthFailed"
  by (induction checkAuth user password accs rule: Accounts_CheckAuth.induct) (auto split: sum.splits)

text \<open>
  Logging in over the accounts: a success gives the session the user and address of an account whose service accepted
  the password, and every failure is reported as an unknown error; the text for a wrong user name or password is
  never used, and a failure leaves the session as it was.
\<close>

theorem AuthPlain_outcome:
  "case AuthPlain (\<lambda>u p. Accounts_CheckAuth checkAuth u p accs) getUA setUA username password (s, ua) of
     (None, s', ua') \<Rightarrow>
       (\<exists>svc st. (s_userID s', svc, st) \<in> set accs \<and> checkAuth svc username password = Inr (s_authID s')) \<and>
       s_from s' = s_from s \<and> s_to s' = s_to s
   | (Some err, s', ua') \<Rightarrow> err = UnknownError \<and> s' = s \<and> ua' = ua \<and>
       list_all (\<lambda>(i, svc, st). \<exists>e. checkAuth svc username password = Inl e) accs"
proof (cases "Accounts_CheckAuth checkAuth username password accs")
  case (Inl err)
  then have "err = ErrSMTPAuthFailed" by (rule Accounts_CheckAuth_err)
  moreover have "list_all (\<lambda>(i, svc, st). \<exists>e. checkAuth svc username password = Inl e) accs"
    using Inl by (induction checkAuth username password accs rule: Accounts_CheckAuth.induct) (auto split: sum.splits)
  ultimately show ?thesis using Inl by (simp add: AuthPlain_def)
next
  case (Inr r)
  obtain userID authID where r: "r = (userID, authID)" by fastforce
  have "\<exists>svc st. (userID, svc, st) \<in> set accs \<and> checkAuth svc username password = Inr authID"
    using Inr[unfolded r]
    by (induction checkAuth username password accs rule: Accounts_CheckAuth.induct) (auto split: sum.splits)
  then show ?thesis using Inr r by (simp add: AuthPlain_def)
qed

end
