(* ===== verification/Imap_Labels.thy ===== *)
theory Imap_Labels
  imports Bridge_Prelude Go_Strings "HOL-Library.AList" "HOL-Library.Multiset"
begin

section \<open>Labels and mailboxes\<close>

text \<open>
  Models the labels of an account and their mailboxes in \<^verbatim>\<open>internal/services/imapservice\<close>:
  \<^verbatim>\<open>helpers.go\<close> and \<^verbatim>\<open>imap_updates.go\<close> (names, flags and the updates sent to the IMAP library),
  \<^verbatim>\<open>shared_labels.go\<close> (the label map), \<^verbatim>\<open>conflicts.go\<close> (mailbox names that are taken), \<^verbatim>\<open>labelchecker.go\<close>
  and \<^verbatim>\<open>service_label_events.go\<close>. The IMAP library is reached through the updates that are published
  and through lookups by name, both of which appear as such.
\<close>

subsection \<open>Labels\<close>

text \<open>The IDs of the system labels are distinct constants of the API library.\<close>

datatype labelID =
    InboxLabel | AllDraftsLabel | AllSentLabel | TrashLabel | SpamLabel | AllMailLabel | ArchiveLabel
  | SentLabel | DraftsLabel | StarredLabel | AllScheduledLabel | LabelID string

datatype LabelType = LabelTypeLabel | LabelTypeContactGroup | LabelTypeFolder | LabelTypeSystem

record Label =
  l_ID :: labelID
  l_ParentID :: labelID
  l_Name :: string
  l_Path :: "string list"
  l_Type :: LabelType
  l_Color :: string

type_synonym labelMap = "(labelID \<times> Label) list"

definition folderPrefix :: string where "folderPrefix = ''Folders''"
definition labelPrefix :: string where "labelPrefix = ''Labels''"

definition WantLabel :: "Label \<Rightarrow> bool" where
  "WantLabel label =
     (if l_Type label \<noteq> LabelTypeSystem then l_Type label \<noteq> LabelTypeContactGroup
      else l_ID label \<in> {InboxLabel, TrashLabel, SpamLabel, AllMailLabel, ArchiveLabel, SentLabel, DraftsLabel,
                         StarredLabel, AllScheduledLabel})"

definition wantLabels :: "labelMap \<Rightarrow> labelID list \<Rightarrow> labelID list" where
  "wantLabels apiLabels labelIDs =
     filter (\<lambda>i. case map_of apiLabels i of None \<Rightarrow> False | Some l \<Rightarrow> WantLabel l) labelIDs"

definition isAllMailOrScheduled :: "labelID \<Rightarrow> bool" where
  "isAllMailOrScheduled i \<longleftrightarrow> i = AllMailLabel \<or> i = AllScheduledLabel"

definition GetMailboxName :: "Label \<Rightarrow> string list" where
  "GetMailboxName label =
     (case l_Type label of
        LabelTypeFolder \<Rightarrow> folderPrefix # l_Path label
      | LabelTypeLabel \<Rightarrow> labelPrefix # l_Path label
      | LabelTypeSystem \<Rightarrow> [l_Name label]
      | LabelTypeContactGroup \<Rightarrow> l_Path label)"

text \<open>\<open>None\<close> is the index out of range on an empty path.\<close>

definition nameWithTempPrefix :: "string list \<Rightarrow> string list option" where
  "nameWithTempPrefix path = (if path = [] then None else Some (butlast path @ [''tmp_'' @ last path]))"

definition getMailboxNameWithTempPrefix :: "Label \<Rightarrow> string list option" where
  "getMailboxNameWithTempPrefix label = nameWithTempPrefix (GetMailboxName label)"

definition compareLabelNames :: "string list \<Rightarrow> string list \<Rightarrow> bool" where
  "compareLabelNames a b \<longleftrightarrow> concat a = concat b"

subsection \<open>Flags and updates\<close>

text \<open>\<open>FlagsForward\<close> stands for the flags of \<^verbatim>\<open>ForwardFlagList\<close>, which are always used together.\<close>

datatype flag = FlagSeen | FlagFlagged | FlagDraft | FlagAnswered | FlagDeleted | FlagsForward

datatype attr = AttrNoInferiors | AttrNoSelect | AttrTrash | AttrJunk | AttrAll | AttrArchive | AttrSent | AttrDrafts | AttrFlagged

record Mailbox =
  mb_ID :: labelID
  mb_Name :: "string list"
  mb_Flags :: "flag list"
  mb_PermanentFlags :: "flag list"
  mb_Attributes :: "attr list"

record MessageCreated =
  mc_MessageID :: string
  mc_Flags :: "flag list"
  mc_MailboxIDs :: "labelID list"
  mc_Literal :: string

datatype update =
    NewMailboxCreated Mailbox
  | NewMailboxUpdatedOrCreated Mailbox
  | NewMailboxUpdated labelID "string list"
  | NewMailboxDeleted labelID
  | NewMailboxDeletedSilent labelID
  | NewMessagesCreated bool "MessageCreated list"
  | NewMessageUpdated MessageCreated bool bool
  | NewMessageMailboxesUpdated string "labelID list" "flag list"
  | NewMessagesDeleted string

definition defaultMailboxFlags :: "flag list" where
  "defaultMailboxFlags = [FlagSeen, FlagFlagged, FlagDeleted, FlagsForward]"

definition defaultMailboxPermanentFlags :: "flag list" where
  "defaultMailboxPermanentFlags = defaultMailboxFlags"

definition newMailboxCreatedUpdate :: "labelID \<Rightarrow> string list \<Rightarrow> update" where
  "newMailboxCreatedUpdate i name =
     NewMailboxCreated \<lparr>mb_ID = i, mb_Name = name, mb_Flags = defaultMailboxFlags,
       mb_PermanentFlags = defaultMailboxPermanentFlags, mb_Attributes = []\<rparr>"

definition newMailboxUpdatedOrCreated :: "labelID \<Rightarrow> string list \<Rightarrow> update" where
  "newMailboxUpdatedOrCreated i name =
     NewMailboxUpdatedOrCreated \<lparr>mb_ID = i, mb_Name = name, mb_Flags = defaultMailboxFlags,
       mb_PermanentFlags = defaultMailboxPermanentFlags, mb_Attributes = []\<rparr>"

definition newPlaceHolderMailboxCreatedUpdate :: "string \<Rightarrow> update" where
  "newPlaceHolderMailboxCreatedUpdate name =
     NewMailboxCreated \<lparr>mb_ID = LabelID name, mb_Name = [name], mb_Flags = defaultMailboxFlags,
       mb_PermanentFlags = defaultMailboxPermanentFlags, mb_Attributes = [AttrNoSelect]\<rparr>"

definition newSystemMailboxCreatedUpdate :: "labelID \<Rightarrow> string \<Rightarrow> update" where
  "newSystemMailboxCreatedUpdate i labelName0 =
     (let labelName1 = (if EqualFold labelName0 ''INBOX'' then ''INBOX'' else labelName0);
          labelName = (if i = AllScheduledLabel then ''Scheduled'' else labelName1);
          attrs = (case i of
              TrashLabel \<Rightarrow> [AttrTrash] | SpamLabel \<Rightarrow> [AttrJunk] | AllMailLabel \<Rightarrow> [AttrAll]
            | ArchiveLabel \<Rightarrow> [AttrArchive] | SentLabel \<Rightarrow> [AttrSent] | DraftsLabel \<Rightarrow> [AttrDrafts]
            | StarredLabel \<Rightarrow> [AttrFlagged] | _ \<Rightarrow> []);
          flags = (if i = AllMailLabel then [FlagSeen, FlagFlagged] else defaultMailboxFlags);
          perm = (if i = AllMailLabel then [FlagSeen, FlagFlagged] else defaultMailboxPermanentFlags)
      in NewMailboxCreated \<lparr>mb_ID = i, mb_Name = [labelName], mb_Flags = flags, mb_PermanentFlags = perm,
           mb_Attributes = AttrNoInferiors # attrs\<rparr>)"

text \<open>
  \<open>wait\<close> is what the IMAP library answers when it has applied an update. The updates the code keeps for waiting
  are objects, one per connector; here each is paired with the address of its connector.
\<close>

type_synonym pending = "(string \<times> update) list"

fun waitOnIMAPUpdates :: "(string \<times> update \<Rightarrow> 'e option) \<Rightarrow> pending \<Rightarrow> 'e option" where
  "waitOnIMAPUpdates wait [] = None"
| "waitOnIMAPUpdates wait (u # us) = (case wait u of Some e \<Rightarrow> Some e | None \<Rightarrow> waitOnIMAPUpdates wait us)"

text \<open>A connector, as far as it takes updates: its queue, and whether the queue was closed.\<close>

record connector =
  c_addrID :: string
  c_updates :: "update list"
  c_closed :: bool

definition publishUpdate :: "update list \<Rightarrow> connector \<Rightarrow> connector" where
  "publishUpdate us c = (if c_closed c then c else c\<lparr>c_updates := c_updates c @ us\<rparr>)"

type_synonym connectors = "(string \<times> connector) list"

definition publish_all :: "update list \<Rightarrow> connectors \<Rightarrow> connectors" where
  "publish_all us cs = map (\<lambda>(a, c). (a, publishUpdate us c)) cs"

definition pending_all :: "update list \<Rightarrow> connectors \<Rightarrow> pending" where
  "pending_all us cs = concat (map (\<lambda>(a, c). map (Pair a) us) cs)"

subsection \<open>The label map\<close>

definition newRWLabels :: labelMap where
  "newRWLabels = []"

definition SetLabels :: "Label list \<Rightarrow> labelMap" where
  "SetLabels labels = foldl (\<lambda>m l. AList.update (l_ID l) l m) [] labels"

definition GetLabel :: "labelID \<Rightarrow> labelMap \<Rightarrow> Label option" where
  "GetLabel i m = map_of m i"

definition GetLabels :: "labelMap \<Rightarrow> Label list" where
  "GetLabels m = map snd m"

definition SetLabel :: "labelID \<Rightarrow> Label \<Rightarrow> labelMap \<Rightarrow> labelMap" where
  "SetLabel i l m = AList.update i l m"

definition Delete :: "labelID \<Rightarrow> labelMap \<Rightarrow> labelMap" where
  "Delete i m = AList.delete i m"

text \<open>
  The interface that connectors and event handlers use (\<^verbatim>\<open>labelsRead\<close> and \<^verbatim>\<open>labelsWrite\<close>): what is looked up is what was
  written last.
\<close>

locale shared_labels =
  fixes get :: "'i \<Rightarrow> 'm \<Rightarrow> 'l option"
    and put :: "'i \<Rightarrow> 'l \<Rightarrow> 'm \<Rightarrow> 'm"
    and del :: "'i \<Rightarrow> 'm \<Rightarrow> 'm"
  assumes get_put: "get i (put j l m) = (if i = j then Some l else get i m)"
    and get_del: "get i (del j m) = (if i = j then None else get i m)"
begin

lemma put_overwrites: "get i (put j l (put j l' m)) = get i (put j l m)"
  by (simp add: get_put)

lemma created_then_deleted: "get j m = None \<Longrightarrow> get i (del j (put j l m)) = get i m"
  by (simp add: get_put get_del)

end

interpretation rwl: shared_labels GetLabel SetLabel Delete
  by unfold_locales (simp_all add: GetLabel_def SetLabel_def Delete_def update_conv' delete_conv')

subsection \<open>Conflicts\<close>

record MailboxData =
  md_RemoteID :: labelID
  md_BridgeName :: "string list"

datatype fetch_err = FetchNotFound | FetchErr string
datatype label_err = ErrNoSuchLabel | LabelAPIErr nat | LabelErr string

datatype conflict_err =
    ConflictFetchErr string
  | ConflictLabelErr label_err
  | UnexpectedLabelConflict labelID labelID
  | InternalConflict
  | ConflictPanic

text \<open>
  \<open>ResolveConflict\<close> follows the mailboxes that hold a wanted name. \<open>fetch\<close> looks a label's mailbox name up in the
  IMAP library, \<open>remote\<close> is the API's \<^verbatim>\<open>GetLabel\<close>. The generator of updates it returns is called once per
  connector and gives the same updates each time. \<open>None\<close>: it never returns.
\<close>

partial_function (option) ResolveConflict ::
  "(Label \<Rightarrow> fetch_err + MailboxData) \<Rightarrow> (labelID \<Rightarrow> label_err + Label) \<Rightarrow> labelID list \<Rightarrow> Label \<Rightarrow>
     (conflict_err + update list) option" where
  "ResolveConflict fetch remote visited label =
     (if l_ID label \<in> set visited
      then Some (case getMailboxNameWithTempPrefix label of
                   None \<Rightarrow> Inl ConflictPanic
                 | Some name \<Rightarrow> Inr [newMailboxUpdatedOrCreated (l_ID label) name])
      else case fetch label of
             Inl FetchNotFound \<Rightarrow> Some (Inr [newMailboxUpdatedOrCreated (l_ID label) (GetMailboxName label)])
           | Inl (FetchErr e) \<Rightarrow> Some (Inl (ConflictFetchErr e))
           | Inr mailboxData \<Rightarrow>
               if md_RemoteID mailboxData = l_ID label then Some (Inr [])
               else case remote (md_RemoteID mailboxData) of
                      Inl ErrNoSuchLabel \<Rightarrow>
                        Some (Inr [NewMailboxDeleted (md_RemoteID mailboxData),
                                   newMailboxUpdatedOrCreated (l_ID label) (GetMailboxName label)])
                    | Inl e \<Rightarrow> Some (Inl (ConflictLabelErr e))
                    | Inr conflictingLabel \<Rightarrow>
                        if compareLabelNames (GetMailboxName conflictingLabel) (md_BridgeName mailboxData)
                        then Some (Inl (UnexpectedLabelConflict (l_ID label) (l_ID conflictingLabel)))
                        else Option.bind (ResolveConflict fetch remote (l_ID label # visited) conflictingLabel)
                               (\<lambda>r. Some (case r of
                                  Inl e \<Rightarrow> Inl e
                                | Inr childUpdates \<Rightarrow>
                                    Inr (childUpdates @ [newMailboxUpdatedOrCreated (l_ID label) (GetMailboxName label)]))))"

text \<open>
  The bridge's own labels have Go's zero value as their type, which is none of the API's types; \<open>GetMailboxName\<close> treats it like that of
  a contact group.
\<close>

definition internal_label :: "string \<Rightarrow> Label" where
  "internal_label prefix =
     \<lparr>l_ID = LabelID prefix, l_ParentID = LabelID '''', l_Name = prefix, l_Path = [prefix], l_Type = LabelTypeContactGroup, l_Color = ''''\<rparr>"

fun internal_conflicts ::
  "(Label \<Rightarrow> fetch_err + MailboxData) \<Rightarrow> labelMap \<Rightarrow> string list \<Rightarrow> conflict_err + update list" where
  "internal_conflicts fetch apiLabels [] = Inr []"
| "internal_conflicts fetch apiLabels (prefix # prefixes) =
     (case fetch (internal_label prefix) of
        Inl FetchNotFound \<Rightarrow> internal_conflicts fetch apiLabels prefixes
      | Inl (FetchErr e) \<Rightarrow> Inl (ConflictFetchErr e)
      | Inr mbox \<Rightarrow>
          if md_RemoteID mbox = LabelID prefix then internal_conflicts fetch apiLabels prefixes
          else if map_of apiLabels (md_RemoteID mbox) \<noteq> None then Inl InternalConflict
          else map_sum id (\<lambda>us. NewMailboxDeletedSilent (md_RemoteID mbox) # us) (internal_conflicts fetch apiLabels prefixes))"

definition Internal_ResolveConflict ::
  "(Label \<Rightarrow> fetch_err + MailboxData) \<Rightarrow> labelMap \<Rightarrow> conflict_err + update list" where
  "Internal_ResolveConflict fetch apiLabels = internal_conflicts fetch apiLabels [folderPrefix, labelPrefix]"

text \<open>The mailbox lookup of the first connector that has a gluon ID.\<close>

fun mailboxFetcher ::
  "(string \<Rightarrow> string option) \<Rightarrow> (string \<Rightarrow> string list \<Rightarrow> fetch_err + MailboxData) \<Rightarrow> connectors \<Rightarrow> Label \<Rightarrow> fetch_err + MailboxData" where
  "mailboxFetcher getGluonID byName [] label = Inl (FetchErr ''no gluon connectors found'')"
| "mailboxFetcher getGluonID byName ((a, c) # cs) label =
     (case getGluonID (c_addrID c) of
        None \<Rightarrow> mailboxFetcher getGluonID byName cs label
      | Some g \<Rightarrow> byName g (GetMailboxName label))"

subsection \<open>The label checker\<close>

datatype labelDiscrepancyType = discrepancyInternal | discrepancySystem | discrepancyUser

record labelDiscrepancy =
  ld_labelName :: string
  ld_labelPath :: string
  ld_labelPathParsed :: string
  ld_labelID :: labelID
  ld_conflictingLabelName :: string
  ld_conflictingLabelID :: labelID
  ld_Type :: labelDiscrepancyType

fun joinStrings :: "string list \<Rightarrow> string" where
  "joinStrings [] = []"
| "joinStrings [x] = x"
| "joinStrings (x # y # ys) = x @ ''/'' @ joinStrings (y # ys)"

text \<open>\<open>hash\<close> is \<^verbatim>\<open>algo.HashBase64SHA256\<close>: the names of the user's own labels are reported only as hashes.\<close>

definition newLabelDiscrepancy ::
  "(string \<Rightarrow> string) \<Rightarrow> Label \<Rightarrow> MailboxData \<Rightarrow> labelDiscrepancyType \<Rightarrow> labelDiscrepancy" where
  "newLabelDiscrepancy hash label mbox dType =
     (let h = (if dType = discrepancyUser then hash else id)
      in \<lparr>ld_labelName = h (l_Name label), ld_labelPath = h (joinStrings (l_Path label)),
          ld_labelPathParsed = h (joinStrings (GetMailboxName label)), ld_labelID = l_ID label,
          ld_conflictingLabelName = h (joinStrings (md_BridgeName mbox)), ld_conflictingLabelID = md_RemoteID mbox, ld_Type = dType\<rparr>)"

definition discrepancy_type :: "LabelType \<Rightarrow> labelDiscrepancyType" where
  "discrepancy_type t =
     (case t of LabelTypeFolder \<Rightarrow> discrepancyUser | LabelTypeLabel \<Rightarrow> discrepancyUser | _ \<Rightarrow> discrepancySystem)"

fun check_labels ::
  "(string \<Rightarrow> string) \<Rightarrow> (Label \<Rightarrow> fetch_err + MailboxData) \<Rightarrow> (Label \<Rightarrow> labelDiscrepancyType) \<Rightarrow> Label list \<Rightarrow>
     string + labelDiscrepancy list" where
  "check_labels hash fetch dtype [] = Inr []"
| "check_labels hash fetch dtype (label # labels) =
     (case fetch label of
        Inl FetchNotFound \<Rightarrow> check_labels hash fetch dtype labels
      | Inl (FetchErr e) \<Rightarrow> Inl e
      | Inr mbox \<Rightarrow>
          if md_RemoteID mbox \<noteq> l_ID label
          then map_sum id (\<lambda>ds. newLabelDiscrepancy hash label mbox (dtype label) # ds) (check_labels hash fetch dtype labels)
          else check_labels hash fetch dtype labels)"

definition checkConflicts ::
  "(string \<Rightarrow> string) \<Rightarrow> (Label \<Rightarrow> fetch_err + MailboxData) \<Rightarrow> labelMap \<Rightarrow> string + labelDiscrepancy list" where
  "checkConflicts hash fetch labels =
     (case check_labels hash fetch (\<lambda>_. discrepancyInternal) (map internal_label [folderPrefix, labelPrefix]) of
        Inl e \<Rightarrow> Inl e
      | Inr ds \<Rightarrow>
          map_sum id (\<lambda>ds'. ds @ ds')
            (check_labels hash fetch (\<lambda>l. discrepancy_type (l_Type l)) (filter WantLabel (map snd labels))))"

text \<open>The outcome of the check at startup: an error, or the discrepancies that are reported, if there are any.\<close>

definition CheckAndReportConflicts ::
  "(string \<Rightarrow> string) \<Rightarrow> (Label \<Rightarrow> fetch_err + MailboxData) \<Rightarrow> labelMap \<Rightarrow> string + labelDiscrepancy list option" where
  "CheckAndReportConflicts hash fetch labels =
     map_sum id (\<lambda>ds. if ds = [] then None else Some ds) (checkConflicts hash fetch labels)"

subsection \<open>Resolving conflicts brings the names up to date\<close>

text \<open>
  The specification: a table of mailbox names by ID, in which an update may not give a name to a second
  mailbox.
\<close>

type_synonym name_table = "(labelID \<times> string list) list"

definition holder :: "name_table \<Rightarrow> string list \<Rightarrow> labelID option" where
  "holder T n = map_option fst (find (\<lambda>(i, m). m = n) T)"

fun apply_update :: "update \<Rightarrow> name_table \<Rightarrow> name_table option" where
  "apply_update (NewMailboxUpdatedOrCreated mb) T =
     (if list_ex (\<lambda>(i, n). i \<noteq> mb_ID mb \<and> n = mb_Name mb) T then None else Some (AList.update (mb_ID mb) (mb_Name mb) T))"
| "apply_update (NewMailboxDeleted i) T = Some (AList.delete i T)"
| "apply_update _ T = Some T"

fun apply_updates :: "update list \<Rightarrow> name_table \<Rightarrow> name_table option" where
  "apply_updates [] T = Some T"
| "apply_updates (u # us) T = (case apply_update u T of None \<Rightarrow> None | Some T' \<Rightarrow> apply_updates us T')"

definition names_ok :: "name_table \<Rightarrow> bool" where
  "names_ok T \<longleftrightarrow> distinct (map fst T) \<and> distinct (map snd T)"

text \<open>Lookups in the table, and the API's labels.\<close>

definition table_fetch :: "name_table \<Rightarrow> Label \<Rightarrow> fetch_err + MailboxData" where
  "table_fetch T l =
     (case holder T (GetMailboxName l) of
        None \<Rightarrow> Inl FetchNotFound
      | Some i \<Rightarrow> Inr \<lparr>md_RemoteID = i, md_BridgeName = GetMailboxName l\<rparr>)"

definition api_fetch :: "labelMap \<Rightarrow> labelID \<Rightarrow> label_err + Label" where
  "api_fetch R i = (case map_of R i of None \<Rightarrow> Inl ErrNoSuchLabel | Some l \<Rightarrow> Inr l)"

text \<open>The API's labels: keyed by ID, with different mailbox names that joining does not confuse.\<close>

definition api_ok :: "labelMap \<Rightarrow> bool" where
  "api_ok R \<longleftrightarrow> (\<forall>(i, l) \<in> set R. l_ID l = i) \<and> distinct (map fst R) \<and>
     distinct (map (\<lambda>(i, l). concat (GetMailboxName l)) R)"

lemma holder_Some: "holder T n = Some i \<Longrightarrow> (i, n) \<in> set T"
  by (auto simp: holder_def dest: find_SomeD)

lemma holder_None: "holder T n = None \<longleftrightarrow> (\<forall>i. (i, n) \<notin> set T)"
  by (auto simp: holder_def find_None_iff_all)

lemma names_ok_unique: "names_ok T \<Longrightarrow> (i, n) \<in> set T \<Longrightarrow> (j, n) \<in> set T \<Longrightarrow> i = j"
  unfolding names_ok_def by (metis distinct_map inj_onD prod.inject snd_conv)

lemma names_ok_map_of: "names_ok T \<Longrightarrow> (i, n) \<in> set T \<longleftrightarrow> map_of T i = Some n"
  by (simp add: names_ok_def)

lemma distinct_snd_iff:
  assumes "distinct (map fst T)"
  shows "distinct (map snd T) \<longleftrightarrow> (\<forall>i j n. map_of T i = Some n \<longrightarrow> map_of T j = Some n \<longrightarrow> i = j)"
proof -
  have "distinct T" using assms by (simp add: distinct_map)
  then have "distinct (map snd T) \<longleftrightarrow> inj_on snd (set T)" by (simp add: distinct_map)
  also have "\<dots> \<longleftrightarrow> (\<forall>i j n. (i, n) \<in> set T \<longrightarrow> (j, n) \<in> set T \<longrightarrow> i = j)" by (force simp: inj_on_def)
  finally show ?thesis using assms by simp
qed

lemma names_ok_iff:
  "names_ok T \<longleftrightarrow> distinct (map fst T) \<and> (\<forall>i j n. map_of T i = Some n \<longrightarrow> map_of T j = Some n \<longrightarrow> i = j)"
  unfolding names_ok_def using distinct_snd_iff by blast

lemma apply_rename:
  assumes "names_ok T" and "\<And>j. map_of T j = Some n \<Longrightarrow> j = i"
  shows "\<exists>T'. apply_update (newMailboxUpdatedOrCreated i n) T = Some T' \<and> names_ok T' \<and> map_of T' = (map_of T)(i \<mapsto> n)"
proof -
  have d: "distinct (map fst T)" using assms(1) by (simp add: names_ok_def)
  have "\<not> list_ex (\<lambda>(j, m). j \<noteq> i \<and> m = n) T"
    using assms names_ok_map_of[OF assms(1)] by (auto simp: list_ex_iff)
  then have a: "apply_update (newMailboxUpdatedOrCreated i n) T = Some (AList.update i n T)"
    by (simp add: newMailboxUpdatedOrCreated_def)
  have m: "map_of (AList.update i n T) = (map_of T)(i \<mapsto> n)" by (simp add: update_conv')
  have "names_ok (AList.update i n T)"
    unfolding names_ok_iff m using assms d by (auto simp: names_ok_iff distinct_update)
  then show ?thesis using a m by blast
qed

lemma apply_delete:
  assumes "names_ok T"
  shows "\<exists>T'. apply_update (NewMailboxDeleted i) T = Some T' \<and> names_ok T' \<and> map_of T' = (map_of T)(i := None)"
proof -
  have m: "map_of (AList.delete i T) = (map_of T)(i := None)" by (simp add: delete_conv')
  have "names_ok (AList.delete i T)"
    unfolding names_ok_iff m using assms by (auto simp: names_ok_iff distinct_delete)
  then show ?thesis using m by auto
qed

lemma apply_updates_append:
  "apply_updates (us @ vs) T = Option.bind (apply_updates us T) (apply_updates vs)"
  by (induction us arbitrary: T) (auto split: option.splits)

definition up_to_date :: "labelMap \<Rightarrow> name_table \<Rightarrow> labelID \<Rightarrow> bool" where
  "up_to_date R T i \<longleftrightarrow> map_of T i = map_option GetMailboxName (map_of R i)"

lemma api_okD:
  assumes "api_ok R"
  shows "map_of R i = Some l \<Longrightarrow> l_ID l = i"
    and "map_of R i = Some l \<Longrightarrow> map_of R j = Some k \<Longrightarrow> concat (GetMailboxName l) = concat (GetMailboxName k) \<Longrightarrow> i = j"
proof -
  show "map_of R i = Some l \<Longrightarrow> l_ID l = i" using assms map_of_SomeD[of R i l] by (auto simp: api_ok_def)
  have inj: "inj_on (\<lambda>(i, l). concat (GetMailboxName l)) (set R)" using assms by (simp add: api_ok_def distinct_map)
  show "map_of R i = Some l \<Longrightarrow> map_of R j = Some k \<Longrightarrow> concat (GetMailboxName l) = concat (GetMailboxName k) \<Longrightarrow> i = j"
    using inj_onD[OF inj, of "(i, l)" "(j, k)"] map_of_SomeD[of R i l] map_of_SomeD[of R j k] by simp
qed

text \<open>
  The state of the recursion: the visited labels, newest first, each holding the name of one visited before it, and
  the current label holding the name of the newest. \<open>l0\<close> is the label it started with.
\<close>

definition chain_ok :: "name_table \<Rightarrow> labelMap \<Rightarrow> Label \<Rightarrow> labelID list \<Rightarrow> Label \<Rightarrow> bool" where
  "chain_ok T R l0 V l \<longleftrightarrow>
     map_of R (l_ID l) = Some l \<and> l_ID l \<notin> set V \<and> (\<forall>v \<in> set V. map_of R v \<noteq> None) \<and>
     last (l_ID l # V) = l_ID l0 \<and>
     (\<forall>v \<in> set V. v \<noteq> l_ID l0 \<longrightarrow> (\<exists>w \<in> set V. \<exists>k. map_of R w = Some k \<and> map_of T v = Some (GetMailboxName k))) \<and>
     (V \<noteq> [] \<longrightarrow> (\<exists>k. map_of R (hd V) = Some k \<and> map_of T (l_ID l) = Some (GetMailboxName k)))"

lemma chain_ok_step:
  assumes "chain_ok T R l0 V l" and "map_of R h = Some lh" and "l_ID lh = h" and "h \<notin> set V" and "h \<noteq> l_ID l"
    and "map_of T h = Some (GetMailboxName l)"
  shows "chain_ok T R l0 (l_ID l # V) lh"
proof -
  have "\<exists>w \<in> set (l_ID l # V). \<exists>k. map_of R w = Some k \<and> map_of T v = Some (GetMailboxName k)"
    if "v \<in> set (l_ID l # V)" "v \<noteq> l_ID l0" for v
  proof (cases "v = l_ID l")
    case True
    then have "V \<noteq> []" using that(2) assms(1) by (auto simp: chain_ok_def)
    then show ?thesis using True assms(1) hd_in_set[of V] unfolding chain_ok_def by (metis list.set_intros(2))
  next
    case False
    then show ?thesis using that assms(1) unfolding chain_ok_def by (metis list.set_intros(2) set_ConsD)
  qed
  then show ?thesis using assms unfolding chain_ok_def by simp
qed

lemma resolve_steps:
  assumes T: "names_ok T" and R: "api_ok R" and l: "map_of R (l_ID l) = Some l" "l_ID l \<notin> set V"
  defines "n \<equiv> GetMailboxName l"
  shows "holder T n = None \<Longrightarrow>
      ResolveConflict (table_fetch T) (api_fetch R) V l = Some (Inr [newMailboxUpdatedOrCreated (l_ID l) n])"
    and "holder T n = Some (l_ID l) \<Longrightarrow> ResolveConflict (table_fetch T) (api_fetch R) V l = Some (Inr [])"
    and "holder T n = Some h \<Longrightarrow> h \<noteq> l_ID l \<Longrightarrow> map_of R h = None \<Longrightarrow>
      ResolveConflict (table_fetch T) (api_fetch R) V l =
        Some (Inr [NewMailboxDeleted h, newMailboxUpdatedOrCreated (l_ID l) n])"
    and "holder T n = Some h \<Longrightarrow> h \<noteq> l_ID l \<Longrightarrow> map_of R h = Some lh \<Longrightarrow>
      ResolveConflict (table_fetch T) (api_fetch R) (l_ID l # V) lh = Some (Inr us) \<Longrightarrow>
      ResolveConflict (table_fetch T) (api_fetch R) V l =
        Some (Inr (us @ [newMailboxUpdatedOrCreated (l_ID l) n]))"
proof -
  note unf = ResolveConflict.simps[of "table_fetch T" "api_fetch R" V l]
  show "holder T n = None \<Longrightarrow>
      ResolveConflict (table_fetch T) (api_fetch R) V l = Some (Inr [newMailboxUpdatedOrCreated (l_ID l) n])"
    using l(2) by (simp add: unf table_fetch_def n_def)
  show "holder T n = Some (l_ID l) \<Longrightarrow> ResolveConflict (table_fetch T) (api_fetch R) V l = Some (Inr [])"
    using l(2) by (simp add: unf table_fetch_def n_def)
  show "holder T n = Some h \<Longrightarrow> h \<noteq> l_ID l \<Longrightarrow> map_of R h = None \<Longrightarrow>
      ResolveConflict (table_fetch T) (api_fetch R) V l =
        Some (Inr [NewMailboxDeleted h, newMailboxUpdatedOrCreated (l_ID l) n])"
    using l(2) by (simp add: unf table_fetch_def api_fetch_def n_def)
  assume h: "holder T n = Some h" "h \<noteq> l_ID l" "map_of R h = Some lh"
    and us: "ResolveConflict (table_fetch T) (api_fetch R) (l_ID l # V) lh = Some (Inr us)"
  have "\<not> compareLabelNames (GetMailboxName lh) n"
    using api_okD(2)[OF R h(3) l(1)] h(2) by (auto simp: compareLabelNames_def n_def)
  then show "ResolveConflict (table_fetch T) (api_fetch R) V l =
        Some (Inr (us @ [newMailboxUpdatedOrCreated (l_ID l) n]))"
    using l(2) h us by (simp add: unf table_fetch_def api_fetch_def n_def)
qed

lemma apply_delete_rename:
  assumes "names_ok T" and "\<And>j. map_of T j = Some n \<Longrightarrow> j = i \<or> j = h"
  shows "\<exists>T'. apply_updates [NewMailboxDeleted h, newMailboxUpdatedOrCreated i n] T = Some T' \<and> names_ok T' \<and>
     map_of T' = (map_of T)(h := None, i \<mapsto> n)"
proof -
  obtain T1 where T1: "apply_update (NewMailboxDeleted h) T = Some T1" "names_ok T1" "map_of T1 = (map_of T)(h := None)"
    using apply_delete[OF assms(1)] by blast
  have "j = i" if "map_of T1 j = Some n" for j using that assms(2)[of j] by (auto simp: T1(3) split: if_splits)
  then obtain T' where "apply_update (newMailboxUpdatedOrCreated i n) T1 = Some T'" "names_ok T'" "map_of T' = (map_of T1)(i \<mapsto> n)"
    using apply_rename[OF T1(2), of n i] by blast
  then show ?thesis using T1 by simp
qed

text \<open>
  What a call leaves behind: the label has its name, and whatever else changed is up to date, except that the first
  label of the chain may have been moved to its temporary name.
\<close>

definition resolved :: "name_table \<Rightarrow> labelMap \<Rightarrow> Label \<Rightarrow> string list \<Rightarrow> labelID list \<Rightarrow> Label \<Rightarrow> name_table \<Rightarrow> bool" where
  "resolved T R l0 tmp V l T' \<longleftrightarrow>
     names_ok T' \<and> map_of T' (l_ID l) = Some (GetMailboxName l) \<and>
     (\<forall>x. map_of T' x \<noteq> map_of T x \<longrightarrow>
        (x \<notin> set V \<and> up_to_date R T' x) \<or> (V \<noteq> [] \<and> x = l_ID l0 \<and> map_of T' x = Some tmp))"

lemma resolved_rename:
  assumes R: "api_ok R" and c: "chain_ok T R l0 V l" and T: "names_ok T"
    and h: "map_of T h = Some (GetMailboxName l)" "h \<noteq> l_ID l"
    and tmp: "\<And>i k. map_of R i = Some k \<Longrightarrow> GetMailboxName k \<noteq> tmp"
    and T1: "names_ok T1" "map_of T1 h \<noteq> Some (GetMailboxName l)"
      "\<And>x. map_of T1 x \<noteq> map_of T x \<Longrightarrow>
        (x \<notin> set (l_ID l # V) \<and> up_to_date R T1 x) \<or> (x = l_ID l0 \<and> map_of T1 x = Some tmp)"
  shows "\<exists>T'. apply_updates [newMailboxUpdatedOrCreated (l_ID l) (GetMailboxName l)] T1 = Some T' \<and> resolved T R l0 tmp V l T'"
proof -
  have l: "map_of R (l_ID l) = Some l" "l_ID l \<notin> set V" "last (l_ID l # V) = l_ID l0" using c by (simp_all add: chain_ok_def)
  have free: "j = l_ID l" if j: "map_of T1 j = Some (GetMailboxName l)" for j
  proof (cases "map_of T1 j = map_of T j")
    case True
    then have "j = h" using j h(1) T by (metis names_ok_map_of names_ok_unique)
    then show ?thesis using j T1(2) by simp
  next
    case False
    have "GetMailboxName l \<noteq> tmp" using tmp[OF l(1)] .
    then have "up_to_date R T1 j" using T1(3)[OF False] j by auto
    then obtain k where "map_of R j = Some k" "GetMailboxName k = GetMailboxName l"
      using j by (cases "map_of R j") (auto simp: up_to_date_def)
    then show ?thesis using api_okD(2)[OF R _ l(1), of j k] by simp
  qed
  obtain T' where T': "apply_update (newMailboxUpdatedOrCreated (l_ID l) (GetMailboxName l)) T1 = Some T'" "names_ok T'"
    "map_of T' = (map_of T1)(l_ID l \<mapsto> GetMailboxName l)"
    using apply_rename[OF T1(1) free] by blast
  have "(x \<notin> set V \<and> up_to_date R T' x) \<or> (V \<noteq> [] \<and> x = l_ID l0 \<and> map_of T' x = Some tmp)"
    if x: "map_of T' x \<noteq> map_of T x" for x
  proof (cases "x = l_ID l")
    case True
    then show ?thesis using l T'(3) by (simp add: up_to_date_def)
  next
    case False
    then have "(x \<notin> set (l_ID l # V) \<and> up_to_date R T1 x) \<or> (x = l_ID l0 \<and> map_of T1 x = Some tmp)"
      using x T1(3)[of x] by (simp add: T'(3))
    then show ?thesis using False l(3) by (auto simp: up_to_date_def T'(3))
  qed
  then show ?thesis using T' by (simp add: resolved_def)
qed

lemma chain_conflict_in_visited:
  assumes "api_ok R" "chain_ok T R l0 V l" "h \<in> set V" "map_of T h = Some (GetMailboxName l)"
  shows "h = l_ID l0"
proof (rule ccontr)
  assume "h \<noteq> l_ID l0"
  then obtain w k where "w \<in> set V" "map_of R w = Some k" "map_of T h = Some (GetMailboxName k)"
    using assms(2,3) unfolding chain_ok_def by blast
  then have "w = l_ID l" using api_okD(2)[OF assms(1), of w k "l_ID l" l] assms(2,4) by (simp add: chain_ok_def)
  then show False using \<open>w \<in> set V\<close> assms(2) by (simp add: chain_ok_def)
qed

lemma resolve_chain:
  assumes T: "names_ok T" and R: "api_ok R" and l0: "map_of R (l_ID l0) = Some l0"
    and tmp: "getMailboxNameWithTempPrefix l0 = Some tmp" "\<And>i. map_of T i \<noteq> Some tmp"
      "\<And>i k. map_of R i = Some k \<Longrightarrow> GetMailboxName k \<noteq> tmp"
    and c: "chain_ok T R l0 V l"
  shows "\<exists>us T'. ResolveConflict (table_fetch T) (api_fetch R) V l = Some (Inr us) \<and>
     apply_updates us T = Some T' \<and> resolved T R l0 tmp V l T'"
  using c
proof (induction "card (dom (map_of T) - set V - {l_ID l})" arbitrary: V l rule: less_induct)
  case less
  let ?n = "GetMailboxName l" and ?i = "l_ID l"
  note c = less.prems
  have l: "map_of R ?i = Some l" "?i \<notin> set V" using c by (simp_all add: chain_ok_def)
  note st = resolve_steps[OF T R l]
  show ?case
  proof (cases "holder T ?n")
    case None
    then have "\<And>j. map_of T j = Some ?n \<Longrightarrow> j = ?i" using T by (auto simp: holder_None names_ok_map_of)
    from apply_rename[OF T this] show ?thesis
      using st(1)[OF None] l by (force simp: resolved_def up_to_date_def)
  next
    case (Some h)
    then have Th: "map_of T h = Some ?n" using T by (metis holder_Some names_ok_map_of)
    show ?thesis
    proof (cases "h = ?i")
      case True
      then show ?thesis using st(2) Some Th T by (auto simp: resolved_def)
    next
      case h: False
      show ?thesis
      proof (cases "map_of R h")
        case none: None
        then have hV: "h \<notin> set V" using c by (auto simp: chain_ok_def)
        have "\<And>j. map_of T j = Some ?n \<Longrightarrow> j = ?i \<or> j = h" using Th T by (metis names_ok_map_of names_ok_unique)
        from apply_delete_rename[OF T this] show ?thesis
          using st(3)[OF Some h none] l none hV by (fastforce simp: resolved_def up_to_date_def)
      next
        case lh: (Some lh)
        have idh: "l_ID lh = h" using api_okD(1)[OF R lh] .
        have nh: "GetMailboxName lh \<noteq> ?n" using api_okD(2)[OF R lh l(1)] h by auto
        have "\<exists>us T1. ResolveConflict (table_fetch T) (api_fetch R) (?i # V) lh = Some (Inr us) \<and>
           apply_updates us T = Some T1 \<and> names_ok T1 \<and> map_of T1 h \<noteq> Some ?n \<and>
           (\<forall>x. map_of T1 x \<noteq> map_of T x \<longrightarrow>
              (x \<notin> set (?i # V) \<and> up_to_date R T1 x) \<or> (x = l_ID l0 \<and> map_of T1 x = Some tmp))"
        proof (cases "h \<in> set V")
          case True
          have h0: "h = l_ID l0" by (rule chain_conflict_in_visited[OF R c True Th])
          then have lh0: "lh = l0" using lh l0 by simp
          obtain T1 where T1: "apply_update (newMailboxUpdatedOrCreated h tmp) T = Some T1" "names_ok T1"
            "map_of T1 = (map_of T)(h \<mapsto> tmp)"
            using apply_rename[OF T, of tmp h] tmp(2) by blast
          have "ResolveConflict (table_fetch T) (api_fetch R) (?i # V) lh = Some (Inr [newMailboxUpdatedOrCreated h tmp])"
            using True lh0 tmp(1) h0 by (simp add: ResolveConflict.simps[of _ _ "?i # V"])
          then show ?thesis using T1 h0 tmp(3)[OF l(1)] by auto
        next
          case False
          have dec: "card (dom (map_of T) - set (?i # V) - {l_ID lh}) < card (dom (map_of T) - set V - {?i})"
            using False h Th idh by (intro psubset_card_mono) (auto simp: finite_dom_map_of)
          from less.hyps[OF dec chain_ok_step[OF c lh idh False h Th]] show ?thesis
            using idh nh by (fastforce simp: resolved_def)
        qed
        then obtain us T1 where us: "ResolveConflict (table_fetch T) (api_fetch R) (?i # V) lh = Some (Inr us)"
          and T1: "apply_updates us T = Some T1" "names_ok T1" "map_of T1 h \<noteq> Some ?n"
            "\<And>x. map_of T1 x \<noteq> map_of T x \<Longrightarrow>
              (x \<notin> set (?i # V) \<and> up_to_date R T1 x) \<or> (x = l_ID l0 \<and> map_of T1 x = Some tmp)"
          by blast
        from resolved_rename[OF R c T Th h tmp(3) T1(2-4)] show ?thesis
          using st(4)[OF Some h lh us] T1(1) by (auto simp: apply_updates_append)
      qed
    qed
  qed
qed

text \<open>
  Property C4. Resolving a mailbox name conflict always returns, even when labels have exchanged names in a cycle, and its
  updates can be applied one after the other without ever giving one name to two mailboxes. Afterwards the label's mailbox
  has the name the API wants, and every other mailbox that was touched has the name the API wants for it, or is gone because the API
  no longer knows it; no temporary name is left.
\<close>

theorem conflict_resolution_refines:
  assumes T: "names_ok T" and R: "api_ok R" and l: "map_of R (l_ID l) = Some l"
    and tmp: "getMailboxNameWithTempPrefix l = Some tmp"
      "\<forall>n \<in> set (map snd T). n \<noteq> tmp" "\<forall>k \<in> set (map snd R). GetMailboxName k \<noteq> tmp"
  shows "\<exists>us T'. ResolveConflict (table_fetch T) (api_fetch R) [] l = Some (Inr us) \<and>
     apply_updates us T = Some T' \<and> names_ok T' \<and> up_to_date R T' (l_ID l) \<and>
     (\<forall>x. map_of T' x \<noteq> map_of T x \<longrightarrow> up_to_date R T' x)"
proof -
  have "chain_ok T R l [] l" using l by (simp add: chain_ok_def)
  moreover have "\<And>i. map_of T i \<noteq> Some tmp" using tmp(2) by (force dest: map_of_SomeD)
  moreover have "\<And>i k. map_of R i = Some k \<Longrightarrow> GetMailboxName k \<noteq> tmp" using tmp(3) by (force dest: map_of_SomeD)
  ultimately obtain us T' where "ResolveConflict (table_fetch T) (api_fetch R) [] l = Some (Inr us)"
    "apply_updates us T = Some T'" "resolved T R l tmp [] l T'"
    using resolve_chain[OF T R l tmp(1)] by blast
  then show ?thesis using l by (auto simp: resolved_def up_to_date_def)
qed

definition swap_label :: "string \<Rightarrow> string \<Rightarrow> Label" where
  "swap_label i n = \<lparr>l_ID = LabelID i, l_ParentID = LabelID '''', l_Name = n, l_Path = [n], l_Type = LabelTypeFolder, l_Color = ''#f66''\<rparr>"

theorem conflict_resolution_refines_witness:
  "\<exists>us T'. ResolveConflict (table_fetch [(LabelID ''1'', [''Folders'', ''b'']), (LabelID ''2'', [''Folders'', ''a''])])
        (api_fetch [(LabelID ''1'', swap_label ''1'' ''a''), (LabelID ''2'', swap_label ''2'' ''b'')]) [] (swap_label ''1'' ''a'') =
        Some (Inr us) \<and>
     apply_updates us [(LabelID ''1'', [''Folders'', ''b'']), (LabelID ''2'', [''Folders'', ''a''])] = Some T' \<and> names_ok T' \<and>
     up_to_date [(LabelID ''1'', swap_label ''1'' ''a''), (LabelID ''2'', swap_label ''2'' ''b'')] T' (l_ID (swap_label ''1'' ''a'')) \<and>
     (\<forall>x. map_of T' x \<noteq> map_of [(LabelID ''1'', [''Folders'', ''b'']), (LabelID ''2'', [''Folders'', ''a''])] x \<longrightarrow>
        up_to_date [(LabelID ''1'', swap_label ''1'' ''a''), (LabelID ''2'', swap_label ''2'' ''b'')] T' x)"
  by (rule conflict_resolution_refines[where tmp = "[''Folders'', ''tmp_a'']"])
    (simp_all add: names_ok_def api_ok_def swap_label_def getMailboxNameWithTempPrefix_def nameWithTempPrefix_def
      GetMailboxName_def folderPrefix_def)

subsection \<open>Resolving conflicts always returns\<close>

lemma ResolveConflict_ends:
  assumes fin: "finite S" and S: "\<And>i k. remote i = Inr k \<Longrightarrow> l_ID k \<in> S"
  shows "\<exists>r. ResolveConflict fetch remote V l = Some r"
proof (induction "card (insert (l_ID l) S - set V)" arbitrary: V l rule: less_induct)
  case less
  note unf = ResolveConflict.simps[of fetch remote V l]
  show ?case
  proof (cases "l_ID l \<in> set V")
    case True
    then show ?thesis by (subst unf) simp
  next
    case False
    have rec: "\<exists>r. ResolveConflict fetch remote (l_ID l # V) k = Some r" if "remote i = Inr k" for i k
    proof (rule less.hyps)
      have "insert (l_ID k) S - set (l_ID l # V) \<subset> insert (l_ID l) S - set V" using S[OF that] False by auto
      then show "card (insert (l_ID k) S - set (l_ID l # V)) < card (insert (l_ID l) S - set V)"
        using fin by (intro psubset_card_mono) auto
    qed
    show ?thesis
    proof (cases "fetch l")
      case (Inl e)
      then show ?thesis using False by (cases e) (simp_all add: unf)
    next
      case (Inr m)
      show ?thesis
      proof (cases "remote (md_RemoteID m)")
        case e: (Inl e)
        show ?thesis using False Inr e by (cases e) (simp_all add: unf)
      next
        case k: (Inr k)
        from rec[OF k] show ?thesis using False Inr k by (auto simp: unf)
      qed
    qed
  qed
qed

end
