(* ===== verification/Label_Events.thy ===== *)
theory Label_Events
  imports Imap_Labels Identity_State
begin

section \<open>Label events\<close>

text \<open>
  Models \<^verbatim>\<open>internal/services/imapservice/service_label_events.go\<close>: what the label events of an account do to the
  shared label map, to the connectors' update queues and to the published user events. The mailbox lookups and the API
  are an environment whose answers may differ from one round to the next; the state counts the rounds.
\<close>

record LabelEvent =
  le_ID :: labelID
  le_Action :: EventAction
  le_Label :: Label

datatype user_label_event =
    UserLabelCreated labelID string
  | UserLabelUpdated labelID string
  | UserLabelDeleted labelID

record label_env =
  e_fetch :: "nat \<Rightarrow> Label \<Rightarrow> fetch_err + MailboxData"
  e_GetLabel :: "nat \<Rightarrow> labelID \<Rightarrow> LabelType list \<Rightarrow> label_err + Label"

record label_state =
  ls_labels :: labelMap
  ls_connectors :: connectors
  ls_events :: "user_label_event list"
  ls_round :: nat

datatype 'e label_event_err =
    CreateLabelErr conflict_err
  | GetLabelErr labelID label_err
  | UpdateLabelErr conflict_err
  | LabelUpdateNotApplied 'e

abbreviation resolve :: "label_env \<Rightarrow> nat \<Rightarrow> Label \<Rightarrow> (conflict_err + update list) option" where
  "resolve env k label \<equiv>
     ResolveConflict (e_fetch env k)
       (\<lambda>i. e_GetLabel env k i [LabelTypeFolder, LabelTypeLabel, LabelTypeSystem]) [] label"

definition publish :: "update list \<Rightarrow> label_state \<Rightarrow> pending \<times> label_state" where
  "publish us st = (pending_all us (ls_connectors st), st\<lparr>ls_connectors := publish_all us (ls_connectors st)\<rparr>)"

definition onLabelCreated ::
  "label_env \<Rightarrow> LabelEvent \<Rightarrow> label_state \<Rightarrow> ((conflict_err + pending) \<times> label_state) option" where
  "onLabelCreated env event st =
     (let label = le_Label event;
          st1 = st\<lparr>ls_labels := SetLabel (l_ID label) label (ls_labels st), ls_round := Suc (ls_round st)\<rparr>
      in case resolve env (ls_round st) label of
           None \<Rightarrow> None
         | Some (Inl e) \<Rightarrow> Some (Inl e, st1)
         | Some (Inr conflictUpdates) \<Rightarrow>
             let (updates, st2) = publish (conflictUpdates @ [newMailboxCreatedUpdate (le_ID event) (GetMailboxName label)]) st1
             in Some (Inr updates, st2\<lparr>ls_events := ls_events st2 @ [UserLabelCreated (l_ID label) (l_Name label)]\<rparr>))"

text \<open>
  One round of the loop of \<open>onLabelUpdated\<close>: the updates that were published and the children of the label, which join the queue. A
  label that the API does not know (status 422) is skipped.
\<close>

definition onLabelUpdated_round ::
  "label_env \<Rightarrow> Label \<Rightarrow> Label \<Rightarrow> label_state \<Rightarrow> (('e label_event_err + pending \<times> Label list) \<times> label_state) option" where
  "onLabelUpdated_round env eventLabel label st =
     (let k = ls_round st;
          labels1 = (if GetLabel (l_ID label) (ls_labels st) \<noteq> None
                     then SetLabel (l_ID label) eventLabel (ls_labels st) else ls_labels st);
          st1 = st\<lparr>ls_labels := labels1, ls_round := Suc k\<rparr>
      in case e_GetLabel env k (l_ID label) [l_Type label] of
           Inl e \<Rightarrow>
             if e = LabelAPIErr 422 then Some (Inr ([], []), st1) else Some (Inl (GetLabelErr (l_ID label) e), st1)
         | Inr apiLabel \<Rightarrow>
             let st2 = st1\<lparr>ls_labels := SetLabel (l_ID apiLabel) apiLabel labels1\<rparr>
             in case resolve env k apiLabel of
                  None \<Rightarrow> None
                | Some (Inl e) \<Rightarrow> Some (Inl (UpdateLabelErr e), st2)
                | Some (Inr conflictUpdates) \<Rightarrow>
                    let (us, st3) = publish (conflictUpdates @ [NewMailboxUpdated (l_ID apiLabel) (GetMailboxName apiLabel)]) st2
                    in Some (Inr (us, filter (\<lambda>other. l_ParentID other = l_ID label) (GetLabels (ls_labels st3))),
                             st3\<lparr>ls_events := ls_events st3 @ [UserLabelUpdated (l_ID apiLabel) (l_Name apiLabel)]\<rparr>))"

text \<open>The loop over the queue. \<open>None\<close>: it does not end.\<close>

partial_function (option) onLabelUpdated_loop ::
  "label_env \<Rightarrow> Label \<Rightarrow> Label list \<Rightarrow> pending \<Rightarrow> label_state \<Rightarrow>
     (('e label_event_err + pending) \<times> label_state) option" where
  "onLabelUpdated_loop env eventLabel stack updates st =
     (case stack of
        [] \<Rightarrow> Some (Inr updates, st)
      | label # rest \<Rightarrow>
          Option.bind (onLabelUpdated_round env eventLabel label st)
            (\<lambda>(res, st1). case res of
               Inl e \<Rightarrow> Some (Inl e, st1)
             | Inr (us, children) \<Rightarrow> onLabelUpdated_loop env eventLabel (rest @ children) (updates @ us) st1))"

definition onLabelUpdated ::
  "label_env \<Rightarrow> LabelEvent \<Rightarrow> label_state \<Rightarrow> (('e label_event_err + pending) \<times> label_state) option" where
  "onLabelUpdated env event st = onLabelUpdated_loop env (le_Label event) [le_Label event] [] st"

definition onLabelDeleted :: "LabelEvent \<Rightarrow> label_state \<Rightarrow> pending \<times> label_state" where
  "onLabelDeleted event st =
     (let (updates, st1) = publish [NewMailboxDeleted (le_ID event)] st
      in (updates, st1\<lparr>ls_labels := Delete (le_ID event) (ls_labels st1), ls_events := ls_events st1 @ [UserLabelDeleted (le_ID event)]\<rparr>))"

text \<open>\<open>wait k\<close> is how the IMAP library applies an update that is waited for after round \<open>k\<close>.\<close>

fun HandleLabelEvents ::
  "label_env \<Rightarrow> (nat \<Rightarrow> string \<times> update \<Rightarrow> 'e option) \<Rightarrow> LabelEvent list \<Rightarrow> label_state \<Rightarrow>
     ('e label_event_err option \<times> label_state) option" where
  "HandleLabelEvents env wait [] st = Some (None, st)"
| "HandleLabelEvents env wait (event # events) st =
     (case le_Action event of
        EventCreate \<Rightarrow>
          if \<not> WantLabel (le_Label event) then HandleLabelEvents env wait events st
          else (case onLabelCreated env event st of
                  None \<Rightarrow> None
                | Some (Inl e, st1) \<Rightarrow> Some (Some (CreateLabelErr e), st1)
                | Some (Inr updates, st1) \<Rightarrow>
                    (case waitOnIMAPUpdates (wait (ls_round st1)) updates of
                       Some e \<Rightarrow> Some (Some (LabelUpdateNotApplied e), st1)
                     | None \<Rightarrow> HandleLabelEvents env wait events st1))
      | EventDelete \<Rightarrow>
          let (updates, st1) = onLabelDeleted event st
          in (case waitOnIMAPUpdates (wait (ls_round st1)) updates of
                Some e \<Rightarrow> Some (Some (LabelUpdateNotApplied e), st1)
              | None \<Rightarrow> HandleLabelEvents env wait events st1)
      | _ \<Rightarrow>
          if \<not> WantLabel (le_Label event) then HandleLabelEvents env wait events st
          else (case onLabelUpdated env event st of
                  None \<Rightarrow> None
                | Some (Inl e, st1) \<Rightarrow> Some (Some e, st1)
                | Some (Inr updates, st1) \<Rightarrow>
                    (case waitOnIMAPUpdates (wait (ls_round st1)) updates of
                       Some e \<Rightarrow> Some (Some (LabelUpdateNotApplied e), st1)
                     | None \<Rightarrow> HandleLabelEvents env wait events st1)))"

subsection \<open>The handlers end\<close>

text \<open>\<open>r\<close> ranks label IDs so that a label is below its parent: the parents form a forest.\<close>

definition forest :: "(labelID \<Rightarrow> nat) \<Rightarrow> Label list \<Rightarrow> bool" where
  "forest r ls \<longleftrightarrow> list_all (\<lambda>l. r (l_ID l) < r (l_ParentID l)) ls"

lemma set_SetLabel: "set (SetLabel i l m) \<subseteq> insert (i, l) (set m)"
  unfolding SetLabel_def by (induction m) auto

lemma set_Delete: "set (Delete i m) \<subseteq> set m"
  by (auto simp: Delete_def AList.delete_eq)

lemma forest_SetLabel:
  assumes "forest r (GetLabels m)" "r (l_ID l) < r (l_ParentID l)"
  shows "forest r (GetLabels (SetLabel i l m))"
  using assms set_SetLabel[of i l m] by (fastforce simp: forest_def list_all_iff GetLabels_def)

lemma forest_Delete: "forest r (GetLabels m) \<Longrightarrow> forest r (GetLabels (Delete i m))"
  using set_Delete[of i m] by (auto simp: forest_def list_all_iff GetLabels_def)

lemma publish_labels [simp]: "ls_labels (snd (publish us st)) = ls_labels st"
  by (simp add: publish_def)

lemma ranks_decrease:
  assumes "\<forall>c \<in> set children. r (l_ID c) < r (l_ID l)"
  shows "(mset (map (r \<circ> l_ID) (rest @ children)), mset (map (r \<circ> l_ID) (l # rest))) \<in> mult less_than"
proof -
  have "(mset (map (r \<circ> l_ID) rest) + mset (map (r \<circ> l_ID) children), mset (map (r \<circ> l_ID) rest) + {#r (l_ID l)#}) \<in> mult less_than"
    using assms by (intro one_step_implies_mult) auto
  then show ?thesis by simp
qed

lemma resolve_ends:
  assumes "finite S" and "\<And>k i ts l. e_GetLabel env k i ts = Inr l \<Longrightarrow> l_ID l \<in> S"
  shows "\<exists>r. resolve env k label = Some r"
  using assms by (intro ResolveConflict_ends[of S]) auto

text \<open>An environment whose labels are finitely many and form a forest.\<close>

definition api_forest :: "label_env \<Rightarrow> labelID set \<Rightarrow> (labelID \<Rightarrow> nat) \<Rightarrow> bool" where
  "api_forest env S r \<longleftrightarrow> finite S \<and>
     (\<forall>k i ts l. e_GetLabel env k i ts = Inr l \<longrightarrow> l_ID l \<in> S \<and> r (l_ID l) < r (l_ParentID l))"

lemma onLabelUpdated_round_ends:
  assumes api: "api_forest env S r" and ev: "r (l_ID ev) < r (l_ParentID ev)" and F: "forest r (GetLabels (ls_labels st))"
  shows "\<exists>(res :: 'e label_event_err + pending \<times> Label list) st'. onLabelUpdated_round env ev label st = Some (res, st') \<and>
     forest r (GetLabels (ls_labels st')) \<and> (\<forall>us ch. res = Inr (us, ch) \<longrightarrow> (\<forall>c \<in> set ch. r (l_ID c) < r (l_ID label)))"
proof -
  define labels1 where "labels1 = (if GetLabel (l_ID label) (ls_labels st) \<noteq> None
                         then SetLabel (l_ID label) ev (ls_labels st) else ls_labels st)"
  have F1: "forest r (GetLabels labels1)" using F ev by (simp add: labels1_def forest_SetLabel)
  note unf = onLabelUpdated_round_def[of env ev label st, folded labels1_def]
  show ?thesis
  proof (cases "e_GetLabel env (ls_round st) (l_ID label) [l_Type label]")
    case (Inl e)
    then show ?thesis using F1 by (simp add: unf Let_def)
  next
    case (Inr apiLabel)
    have F2: "forest r (GetLabels (SetLabel (l_ID apiLabel) apiLabel labels1))"
      using F1 api Inr by (simp add: api_forest_def forest_SetLabel)
    then have ch: "\<forall>c \<in> set (filter (\<lambda>other. l_ParentID other = l_ID label) (GetLabels (SetLabel (l_ID apiLabel) apiLabel labels1))).
        r (l_ID c) < r (l_ID label)"
      by (auto simp: forest_def list_all_iff)
    have "\<exists>x. resolve env (ls_round st) apiLabel = Some x" using api by (intro resolve_ends[of S]) (auto simp: api_forest_def)
    then obtain x where "resolve env (ls_round st) apiLabel = Some x" by blast
    then show ?thesis using F2 ch Inr by (cases x) (simp_all add: unf publish_def)
  qed
qed

lemma onLabelUpdated_loop_ends:
  assumes api: "api_forest env S r" and ev: "r (l_ID ev) < r (l_ParentID ev)"
  shows "forest r (GetLabels (ls_labels st)) \<Longrightarrow>
    \<exists>(res :: 'e label_event_err + pending) st'. onLabelUpdated_loop env ev stack us st = Some (res, st') \<and> forest r (GetLabels (ls_labels st'))"
proof (induction "mset (map (r \<circ> l_ID) stack)" arbitrary: stack us st rule: wf_induct_rule[OF wf_mult[OF wf_less_than]])
  case 1
  note IH = 1(1) and F = 1(2)
  show ?case
  proof (cases stack)
    case Nil
    then show ?thesis using F by (simp add: onLabelUpdated_loop.simps[of _ _ "[]"])
  next
    case (Cons label rest)
    note unf = onLabelUpdated_loop.simps[of env ev "label # rest"]
    obtain res :: "'e label_event_err + pending \<times> Label list" and st1 where
      r1: "onLabelUpdated_round env ev label st = Some (res, st1)" "forest r (GetLabels (ls_labels st1))"
        "\<And>pu ch. res = Inr (pu, ch) \<Longrightarrow> \<forall>c \<in> set ch. r (l_ID c) < r (l_ID label)"
      using onLabelUpdated_round_ends[OF api ev F] by blast
    show ?thesis
    proof (cases res)
      case (Inl e)
      then show ?thesis using r1 Cons by (simp add: unf)
    next
      case (Inr p)
      obtain pu ch where p: "p = (pu, ch)" by fastforce
      have "(mset (map (r \<circ> l_ID) (rest @ ch)), mset (map (r \<circ> l_ID) stack)) \<in> mult less_than"
        using ranks_decrease[OF r1(3)] Inr p Cons by simp
      from IH[OF this r1(2)] show ?thesis using r1(1) Inr p Cons by (simp add: unf)
    qed
  qed
qed

lemma onLabelCreated_ends:
  assumes "api_forest env S r" "forest r [le_Label event]" "forest r (GetLabels (ls_labels st))"
  shows "\<exists>res st'. onLabelCreated env event st = Some (res, st') \<and> forest r (GetLabels (ls_labels st'))"
proof -
  have F: "forest r (GetLabels (SetLabel (l_ID (le_Label event)) (le_Label event) (ls_labels st)))"
    using assms(2,3) by (intro forest_SetLabel) (simp_all add: forest_def)
  have "\<exists>x. resolve env (ls_round st) (le_Label event) = Some x"
    using assms(1) by (intro resolve_ends[of S]) (auto simp: api_forest_def)
  then obtain x where "resolve env (ls_round st) (le_Label event) = Some x" by blast
  then show ?thesis using F by (cases x) (simp_all add: onLabelCreated_def publish_def Let_def)
qed

lemma onLabelDeleted_forest: "forest r (GetLabels (ls_labels st)) \<Longrightarrow> forest r (GetLabels (ls_labels (snd (onLabelDeleted event st))))"
  by (simp add: onLabelDeleted_def publish_def forest_Delete)


definition twig :: "string \<Rightarrow> string \<Rightarrow> string list \<Rightarrow> Label" where
  "twig i p path = \<lparr>l_ID = LabelID i, l_ParentID = LabelID p, l_Name = last path, l_Path = path, l_Type = LabelTypeFolder, l_Color = ''#f66''\<rparr>"

definition twig_env :: label_env where
  "twig_env = \<lparr>e_fetch = (\<lambda>k l. Inl FetchNotFound),
     e_GetLabel = (\<lambda>k i ts. if i = LabelID ''1'' then Inr (twig ''1'' '''' [''b''])
                             else if i = LabelID ''2'' then Inr (twig ''2'' ''1'' [''b'', ''c'']) else Inl ErrNoSuchLabel)\<rparr>"

definition twig_state :: label_state where
  "twig_state = \<lparr>ls_labels = [(LabelID ''1'', twig ''1'' '''' [''a'']), (LabelID ''2'', twig ''2'' ''1'' [''a'', ''c''])],
     ls_connectors = [], ls_events = [], ls_round = 0\<rparr>"

definition twig_event :: LabelEvent where
  "twig_event = \<lparr>le_ID = LabelID ''1'', le_Action = EventUpdate, le_Label = twig ''1'' '''' [''b'']\<rparr>"

definition twig_rank :: "labelID \<Rightarrow> nat" where
  "twig_rank i = (if i = LabelID '''' then 2 else if i = LabelID ''1'' then 1 else 0)"


subsection \<open>What is waited for was published\<close>

definition sent :: "string \<Rightarrow> pending \<Rightarrow> update list" where
  "sent a p = map snd (filter (\<lambda>q. fst q = a) p)"

text \<open>
  From \<open>st\<close> to \<open>st'\<close> every open connector received exactly the updates of \<open>p\<close> that are its own, in order, and \<open>p\<close>
  has no updates of other addresses.
\<close>

definition delivers :: "connectors \<Rightarrow> pending \<Rightarrow> connectors \<Rightarrow> bool" where
  "delivers cs p cs' \<longleftrightarrow> map fst cs' = map fst cs \<and> set (map fst p) \<subseteq> set (map fst cs) \<and>
     (\<forall>a c. map_of cs a = Some c \<and> \<not> c_closed c \<longrightarrow> map_of cs' a = Some (c\<lparr>c_updates := c_updates c @ sent a p\<rparr>))"

lemma sent_append [simp]: "sent a (p @ q) = sent a p @ sent a q"
  by (simp add: sent_def)

lemma sent_pending_other: "a \<notin> set (map fst cs) \<Longrightarrow> sent a (pending_all us cs) = []"
  by (induction cs) (auto simp: sent_def pending_all_def)

lemma sent_pending_all: "distinct (map fst cs) \<Longrightarrow> a \<in> set (map fst cs) \<Longrightarrow> sent a (pending_all us cs) = us"
proof (induction cs)
  case (Cons x cs)
  have split: "pending_all us (x # cs) = map (Pair (fst x)) us @ pending_all us cs" by (simp add: pending_all_def split_beta)
  show ?case
  proof (cases "a = fst x")
    case True
    then have "sent a (pending_all us cs) = []" using Cons.prems(1) by (intro sent_pending_other) simp
    moreover have "sent a (map (Pair a) us) = us" by (simp add: sent_def comp_def)
    ultimately show ?thesis using True by (simp add: split)
  next
    case False
    then have "sent a (map (Pair (fst x)) us) = []" by (simp add: sent_def)
    then show ?thesis using False Cons by (simp add: split)
  qed
qed simp

lemma map_of_publish_all: "map_of (publish_all us cs) a = map_option (publishUpdate us) (map_of cs a)"
  by (induction cs) (auto simp: publish_all_def)

lemma delivers_publish: "distinct (map fst cs) \<Longrightarrow> delivers cs (pending_all us cs) (publish_all us cs)"
proof -
  assume d: "distinct (map fst cs)"
  have "map fst (publish_all us cs) = map fst cs" by (simp add: publish_all_def comp_def split_beta)
  moreover have "set (map fst (pending_all us cs)) \<subseteq> set (map fst cs)" by (force simp: pending_all_def)
  moreover have "map_of (publish_all us cs) a = Some (c\<lparr>c_updates := c_updates c @ sent a (pending_all us cs)\<rparr>)"
    if "map_of cs a = Some c" "\<not> c_closed c" for a c
  proof -
    have "a \<in> set (map fst cs)" using map_of_SomeD[OF that(1)] by force
    then show ?thesis using that by (simp add: map_of_publish_all publishUpdate_def sent_pending_all[OF d])
  qed
  ultimately show ?thesis by (simp add: delivers_def)
qed

lemma delivers_refl [simp]: "delivers cs [] cs"
  by (simp add: delivers_def sent_def)

lemma delivers_trans: "delivers cs p cs1 \<Longrightarrow> delivers cs1 q cs2 \<Longrightarrow> delivers cs (p @ q) cs2"
proof -
  assume 1: "delivers cs p cs1" and 2: "delivers cs1 q cs2"
  have "map_of cs2 a = Some (c\<lparr>c_updates := c_updates c @ sent a (p @ q)\<rparr>)" if c: "map_of cs a = Some c" "\<not> c_closed c" for a c
  proof -
    have "map_of cs1 a = Some (c\<lparr>c_updates := c_updates c @ sent a p\<rparr>)" using 1 c unfolding delivers_def by blast
    moreover have "\<not> c_closed (c\<lparr>c_updates := c_updates c @ sent a p\<rparr>)" using c(2) by simp
    ultimately have "map_of cs2 a = Some (c\<lparr>c_updates := c_updates c @ sent a p, c_updates := (c_updates c @ sent a p) @ sent a q\<rparr>)"
      using 2 unfolding delivers_def by (metis connector.select_convs(2) connector.surjective connector.update_convs(2))
    then show ?thesis by simp
  qed
  then show ?thesis using 1 2 by (simp add: delivers_def)
qed

lemma delivers_fst: "delivers cs p cs' \<Longrightarrow> map fst cs' = map fst cs"
  by (simp add: delivers_def)

lemma onLabelUpdated_round_delivers:
  assumes "onLabelUpdated_round env ev label st = Some (Inr (us, ch), st')" "distinct (map fst (ls_connectors st))"
  shows "delivers (ls_connectors st) us (ls_connectors st')"
  using assms delivers_publish[OF assms(2)]
  by (auto simp: onLabelUpdated_round_def Let_def publish_def split: sum.splits if_splits option.splits)

lemma onLabelUpdated_loop_delivers:
  fixes y :: "('e label_event_err + pending) \<times> label_state"
  assumes "onLabelUpdated_loop env ev stack us st = Some y"
  shows "\<forall>p st'. y = (Inr p, st') \<longrightarrow> distinct (map fst (ls_connectors st)) \<longrightarrow>
     (\<exists>q. p = us @ q \<and> delivers (ls_connectors st) q (ls_connectors st'))"
  using assms
proof (rule onLabelUpdated_loop.raw_induct[of "\<lambda>env ev stack us st y. \<forall>p st'. y = (Inr p, st') \<longrightarrow> distinct (map fst (ls_connectors st)) \<longrightarrow>
     (\<exists>q. p = us @ q \<and> delivers (ls_connectors st) q (ls_connectors st'))", rotated], goal_cases)
  case (1 loop env ev stack us st y)
  show ?case
  proof (cases stack)
    case Nil
    then show ?thesis using 1(2) by auto
  next
    case (Cons label rest)
    then obtain res :: "'e label_event_err + pending \<times> Label list" and st1 where r: "onLabelUpdated_round env ev label st = Some (res, st1)"
      using 1(2) by (auto split: bind_splits)
    show ?thesis
    proof (cases res)
      case (Inl e)
      then show ?thesis using 1(2) Cons r by auto
    next
      case (Inr pc)
      obtain pu ch where pc: "pc = (pu, ch)" by fastforce
      have l: "loop env ev (rest @ ch) (us @ pu) st1 = Some y" using 1(2) Cons r Inr pc by simp
      have "\<exists>q. p = us @ q \<and> delivers (ls_connectors st) q (ls_connectors st')"
        if y: "y = (Inr p, st')" and d: "distinct (map fst (ls_connectors st))" for p st'
      proof -
        have d1: "delivers (ls_connectors st) pu (ls_connectors st1)"
          using onLabelUpdated_round_delivers r Inr pc d by blast
        then obtain q where "p = (us @ pu) @ q" "delivers (ls_connectors st1) q (ls_connectors st')"
          using 1(1)[OF l] y d delivers_fst by metis
        then show ?thesis using delivers_trans[OF d1] by auto
      qed
      then show ?thesis by blast
    qed
  qed
qed

text \<open>
  The label handlers wait only for updates they have published: on success every connector's queue has grown by
  exactly the updates that are waited for on its behalf, in order, and nothing is waited for on behalf of an address without
  a connector.
\<close>

theorem label_updates_delivered:
  assumes "distinct (map fst (ls_connectors st))"
  shows "(onLabelCreated env event st = Some (Inr p, st') \<longrightarrow> delivers (ls_connectors st) p (ls_connectors st')) \<and>
     (onLabelUpdated env event st = Some (Inr p, st') \<longrightarrow> delivers (ls_connectors st) p (ls_connectors st')) \<and>
     (onLabelDeleted event st = (p, st') \<longrightarrow> delivers (ls_connectors st) p (ls_connectors st'))"
proof (intro conjI impI)
  assume "onLabelCreated env event st = Some (Inr p, st')"
  then show "delivers (ls_connectors st) p (ls_connectors st')"
    using delivers_publish[OF assms] by (auto simp: onLabelCreated_def Let_def publish_def split: option.splits sum.splits)
next
  assume "onLabelUpdated env event st = Some (Inr p, st')"
  then show "delivers (ls_connectors st) p (ls_connectors st')"
    using onLabelUpdated_loop_delivers assms unfolding onLabelUpdated_def by fastforce
next
  assume "onLabelDeleted event st = (p, st')"
  then show "delivers (ls_connectors st) p (ls_connectors st')"
    using delivers_publish[OF assms] by (auto simp: onLabelDeleted_def Let_def publish_def)
qed

theorem label_updates_delivered_witness:
  "delivers [(''A'', \<lparr>c_addrID = ''A'', c_updates = [], c_closed = False\<rparr>)] [(''A'', NewMailboxDeleted (LabelID ''1''))]
     [(''A'', \<lparr>c_addrID = ''A'', c_updates = [NewMailboxDeleted (LabelID ''1'')], c_closed = False\<rparr>)]"
  using label_updates_delivered[of "twig_state\<lparr>ls_connectors := [(''A'', \<lparr>c_addrID = ''A'', c_updates = [], c_closed = False\<rparr>)]\<rparr>" twig_env
      "twig_event\<lparr>le_Action := EventDelete\<rparr>" "[(''A'', NewMailboxDeleted (LabelID ''1''))]"
      "snd (onLabelDeleted (twig_event\<lparr>le_Action := EventDelete\<rparr>)
         (twig_state\<lparr>ls_connectors := [(''A'', \<lparr>c_addrID = ''A'', c_updates = [], c_closed = False\<rparr>)]\<rparr>))",
      THEN conjunct2, THEN conjunct2, THEN mp]
  by (simp add: onLabelDeleted_def publish_def pending_all_def publish_all_def publishUpdate_def twig_event_def)

subsection \<open>The label map after an update\<close>

definition keyed :: "labelMap \<Rightarrow> bool" where
  "keyed m \<longleftrightarrow> list_all (\<lambda>(i, l). l_ID l = i) m"

text \<open>
  A subfolder that the API no longer knows keeps, under its own ID, the label of the renamed folder: the map is no longer keyed
  by the labels' IDs.
\<close>

theorem label_update_overwrites_child:
  "map_option (\<lambda>(res, st). (isl res, map_of (ls_labels st) (LabelID ''2'')))
     (onLabelUpdated (twig_env\<lparr>e_GetLabel := (\<lambda>k i ts. if i = LabelID ''1'' then Inr (twig ''1'' '''' [''b'']) else Inl (LabelAPIErr 422))\<rparr>)
        twig_event twig_state) = Some (False, Some (twig ''1'' '''' [''b'']))"
  by (simp add: onLabelUpdated_def onLabelUpdated_loop.simps onLabelUpdated_round_def twig_event_def twig_state_def twig_env_def
      ResolveConflict.simps twig_def SetLabel_def GetLabel_def GetLabels_def publish_def Let_def publish_all_def pending_all_def)

end
