(* ===== verification/Sync_Applier.thy ===== *)
theory Sync_Applier
  imports Label_Events
begin

section \<open>Applying sync results to the mailboxes\<close>

text \<open>
  Models \<^verbatim>\<open>internal/services/imapservice/sync_update_applier.go\<close>: the sync hands its labels and built messages to
  the service's own goroutine as requests, which publish updates to the connectors, and then waits until the
  IMAP library has applied them.
\<close>

text \<open>A build result that has an update.\<close>

record SyncUpdate =
  br_AddressID :: string
  br_Update :: MessageCreated

subsection \<open>Messages\<close>

definition newMessagesCreated :: "MessageCreated list \<Rightarrow> update" where
  "newMessagesCreated ms = NewMessagesCreated True ms"

text \<open>One batch per address, in the order in which the addresses first occur.\<close>

definition add_update :: "(string \<times> MessageCreated list) list \<Rightarrow> SyncUpdate \<Rightarrow> (string \<times> MessageCreated list) list" where
  "add_update m up =
     AList.update (br_AddressID up)
       ((case map_of m (br_AddressID up) of None \<Rightarrow> [] | Some ms \<Rightarrow> ms) @ [br_Update up]) m"

definition update_batches :: "SyncUpdate list \<Rightarrow> (string \<times> MessageCreated list) list" where
  "update_batches updates = foldl add_update [] updates"

fun publish_batches :: "(string \<times> MessageCreated list) list \<Rightarrow> connectors \<Rightarrow> connectors" where
  "publish_batches [] cs = cs"
| "publish_batches ((addrID, ms) # bs) cs =
     publish_batches bs
       (case map_of cs addrID of
          None \<Rightarrow> cs
        | Some c \<Rightarrow> AList.update addrID (publishUpdate [newMessagesCreated ms] c) cs)"

datatype 'e applier_err =
    UnexpectedConnectorList
  | ApplierCancelled
  | NoReply
  | SyncLabelsErr conflict_err
  | UpdateNotApplied 'e

definition apply_request ::
  "AddressMode \<Rightarrow> SyncUpdate list \<Rightarrow> connectors \<Rightarrow> ('e applier_err + pending) \<times> connectors" where
  "apply_request mode updates cs =
     (case mode of
        AddressModeCombined \<Rightarrow>
          (case cs of
             [(a, c)] \<Rightarrow>
               let update = newMessagesCreated (map br_Update updates)
               in (Inr [(a, update)], [(a, publishUpdate [update] c)])
           | _ \<Rightarrow> (Inl UnexpectedConnectorList, cs))
      | AddressModeSplit \<Rightarrow>
          let batches = update_batches updates
          in (Inr (map (\<lambda>(a, ms). (a, newMessagesCreated ms)) batches), publish_batches batches cs))"

text \<open>
  How the two channel operations of \<^verbatim>\<open>sendRequest\<close> turn out: the caller's context may be done before the request is taken or
  before its answer arrives (the request runs in the latter case), and the reply channel may have been closed.
\<close>

datatype schedule = NotTaken | CancelledBeforeReply | ReplyClosed | Replied

definition sendRequest ::
  "schedule \<Rightarrow> ('s \<Rightarrow> ('e applier_err + pending) \<times> 's) \<Rightarrow> 's \<Rightarrow> ('e applier_err + pending) \<times> 's" where
  "sendRequest sched request s =
     (case sched of
        NotTaken \<Rightarrow> (Inl ApplierCancelled, s)
      | CancelledBeforeReply \<Rightarrow> (Inl ApplierCancelled, snd (request s))
      | ReplyClosed \<Rightarrow> (Inl NoReply, snd (request s))
      | Replied \<Rightarrow> request s)"

definition ApplySyncUpdates ::
  "schedule \<Rightarrow> (string \<times> update \<Rightarrow> 'e option) \<Rightarrow> AddressMode \<Rightarrow> SyncUpdate list \<Rightarrow> connectors \<Rightarrow>
     'e applier_err option \<times> connectors" where
  "ApplySyncUpdates sched wait mode updates cs =
     (case sendRequest sched (apply_request mode updates) cs of
        (Inl e, cs') \<Rightarrow> (Some e, cs')
      | (Inr result, cs') \<Rightarrow> (map_option UpdateNotApplied (waitOnIMAPUpdates wait result), cs'))"

subsection \<open>Labels\<close>

definition placeholders :: "string \<Rightarrow> update list" where
  "placeholders prefix = [newPlaceHolderMailboxCreatedUpdate prefix, NewMailboxUpdated (LabelID prefix) [prefix]]"

text \<open>The loop over the label map; the list gives the order in which the map is traversed.\<close>

fun sync_label_loop ::
  "label_env \<Rightarrow> labelMap \<Rightarrow> pending \<Rightarrow> label_state \<Rightarrow> ((conflict_err + pending) \<times> label_state) option" where
  "sync_label_loop env [] updates st = Some (Inr updates, st)"
| "sync_label_loop env ((labelID, label) # labels) updates st =
     (if \<not> WantLabel label then sync_label_loop env labels updates st
      else case l_Type label of
        LabelTypeSystem \<Rightarrow>
          let (us, st1) = publish [newSystemMailboxCreatedUpdate (l_ID label) (l_Name label)] st
          in sync_label_loop env labels (updates @ us) st1
      | LabelTypeContactGroup \<Rightarrow> sync_label_loop env labels updates st
      | _ \<Rightarrow>
          (case resolve env (ls_round st) label of
             None \<Rightarrow> None
           | Some (Inl e) \<Rightarrow> Some (Inl e, st)
           | Some (Inr conflictUpdates) \<Rightarrow>
               let (us, st1) = publish (conflictUpdates @ [newMailboxCreatedUpdate labelID (GetMailboxName label)])
                                 (st\<lparr>ls_round := Suc (ls_round st)\<rparr>)
               in sync_label_loop env labels (updates @ us) st1))"

definition syncLabels ::
  "label_env \<Rightarrow> labelMap \<Rightarrow> label_state \<Rightarrow> ((conflict_err + pending) \<times> label_state) option" where
  "syncLabels env labels st =
     (case Internal_ResolveConflict (e_fetch env (ls_round st)) labels of
        Inl e \<Rightarrow> Some (Inl e, st)
      | Inr conflictUpdates \<Rightarrow>
          let (us, st1) = publish conflictUpdates (st\<lparr>ls_round := Suc (ls_round st)\<rparr>);
              (us1, st2) = publish (placeholders folderPrefix) st1;
              (us2, st3) = publish (placeholders labelPrefix) st2
          in sync_label_loop env labels (us @ us1 @ us2) st3)"

definition SyncLabels ::
  "schedule \<Rightarrow> (string \<times> update \<Rightarrow> 'e option) \<Rightarrow> label_env \<Rightarrow> labelMap \<Rightarrow> label_state \<Rightarrow> ('e applier_err option \<times> label_state) option" where
  "SyncLabels sched wait env labels st =
     (if sched = NotTaken then Some (Some ApplierCancelled, st)
      else case syncLabels env labels st of
        None \<Rightarrow> None
      | Some (res, st') \<Rightarrow>
          (case sendRequest sched (\<lambda>_. (map_sum SyncLabelsErr id res, st')) st of
             (Inl e, st'') \<Rightarrow> Some (Some e, st'')
           | (Inr updates, st'') \<Rightarrow> Some (map_option UpdateNotApplied (waitOnIMAPUpdates wait updates), st'')))"

subsection \<open>No message is lost or misdirected\<close>

definition messages_of :: "string \<Rightarrow> SyncUpdate list \<Rightarrow> MessageCreated list" where
  "messages_of a ups = map br_Update (filter (\<lambda>u. br_AddressID u = a) ups)"

lemma update_batches_snoc: "update_batches (ups @ [u]) = add_update (update_batches ups) u"
  by (simp add: update_batches_def)

lemma map_of_update_batches:
  "map_of (update_batches ups) a = (if messages_of a ups = [] then None else Some (messages_of a ups))"
proof (induction ups rule: rev_induct)
  case Nil
  then show ?case by (simp add: update_batches_def messages_of_def)
next
  case (snoc u ups)
  have "map_of (update_batches (ups @ [u])) a =
      (if a = br_AddressID u then Some ((case map_of (update_batches ups) a of None \<Rightarrow> [] | Some ms \<Rightarrow> ms) @ [br_Update u])
       else map_of (update_batches ups) a)"
    by (simp add: update_batches_snoc add_update_def update_conv')
  also have "\<dots> = (if messages_of a (ups @ [u]) = [] then None else Some (messages_of a (ups @ [u])))"
    unfolding snoc.IH by (auto simp: messages_of_def)
  finally show ?case .
qed

lemma distinct_update_batches: "distinct (map fst (update_batches ups))"
  by (induction ups rule: rev_induct)
    (simp_all add: update_batches_snoc add_update_def distinct_update, simp add: update_batches_def)

lemma publish_one_delivers:
  assumes "map_of cs a = Some c" "distinct (map fst cs)"
  shows "delivers cs [(a, u)] (AList.update a (publishUpdate [u] c) cs)"
proof -
  have "a \<in> set (map fst cs)" using map_of_SomeD[OF assms(1)] by force
  then have "map fst (AList.update a x cs) = map fst cs" for x by (simp add: update_keys)
  moreover have "map_of (AList.update a (publishUpdate [u] c) cs) b = Some (d\<lparr>c_updates := c_updates d @ sent b [(a, u)]\<rparr>)"
    if "map_of cs b = Some d" "\<not> c_closed d" for b d
    using that assms(1) by (auto simp: update_conv' publishUpdate_def sent_def)
  ultimately show ?thesis using \<open>a \<in> set (map fst cs)\<close> by (simp add: delivers_def)
qed

lemma publish_batches_delivers:
  "distinct (map fst cs) \<Longrightarrow> set (map fst bs) \<subseteq> set (map fst cs) \<Longrightarrow>
     delivers cs (map (\<lambda>(a, ms). (a, newMessagesCreated ms)) bs) (publish_batches bs cs)"
proof (induction bs arbitrary: cs)
  case (Cons b bs)
  obtain a ms where b: "b = (a, ms)" by fastforce
  then obtain c where c: "map_of cs a = Some c"
    using Cons.prems(2) by (metis list.set_intros(1) list.simps(9) map_of_eq_None_iff not_Some_eq fst_conv set_map subset_eq)
  define cs1 where "cs1 = AList.update a (publishUpdate [newMessagesCreated ms] c) cs"
  have d: "delivers cs [(a, newMessagesCreated ms)] cs1"
    unfolding cs1_def by (rule publish_one_delivers[OF c Cons.prems(1)])
  have "delivers cs1 (map (\<lambda>(a, ms). (a, newMessagesCreated ms)) bs) (publish_batches bs cs1)"
    using Cons.prems delivers_fst[OF d] by (intro Cons.IH) auto
  from delivers_trans[OF d this] show ?case using b c by (simp add: cs1_def)
qed simp

lemma sent_batches:
  "distinct (map fst bs) \<Longrightarrow>
     sent a (map (\<lambda>(a, ms). (a, newMessagesCreated ms)) bs) = (case map_of bs a of None \<Rightarrow> [] | Some ms \<Rightarrow> [newMessagesCreated ms])"
proof (induction bs)
  case (Cons b bs)
  obtain b' ms where b: "b = (b', ms)" by fastforce
  have "map_of bs b' = None" using Cons.prems b by (simp add: map_of_eq_None_iff)
  then show ?case using Cons b by (auto simp: sent_def)
qed (simp add: sent_def)

text \<open>
  With one connector per address, the sync's messages reach their own mailbox and only that one: each
  address that has messages in the batch receives one update that carries exactly its messages, in order, the others receive
  nothing, and everything that is then waited for has been published.
\<close>

theorem sync_updates_partitioned:
  assumes "distinct (map fst cs)" "br_AddressID ` set updates \<subseteq> set (map fst cs)"
    and "apply_request AddressModeSplit updates cs = (Inr p, cs')"
  shows "delivers cs p cs' \<and>
     (\<forall>a. sent a p = (if messages_of a updates = [] then [] else [NewMessagesCreated True (messages_of a updates)]))"
proof -
  have p: "p = map (\<lambda>(a, ms). (a, newMessagesCreated ms)) (update_batches updates)" "cs' = publish_batches (update_batches updates) cs"
    using assms(3) by (simp_all add: apply_request_def Let_def)
  have "a \<in> set (map fst cs)" if "a \<in> set (map fst (update_batches updates))" for a
  proof -
    have "map_of (update_batches updates) a \<noteq> None" using that by (simp add: map_of_eq_None_iff)
    then have "messages_of a updates \<noteq> []" by (simp add: map_of_update_batches split: if_splits)
    then show ?thesis using assms(2) by (auto simp: messages_of_def filter_empty_conv)
  qed
  then have "delivers cs p cs'" unfolding p using assms(1) by (intro publish_batches_delivers) auto
  moreover have "sent a p = (if messages_of a updates = [] then [] else [NewMessagesCreated True (messages_of a updates)])" for a
    unfolding p sent_batches[OF distinct_update_batches] map_of_update_batches by (simp add: newMessagesCreated_def)
  ultimately show ?thesis by blast
qed

definition sample_message :: "string \<Rightarrow> MessageCreated" where
  "sample_message i = \<lparr>mc_MessageID = i, mc_Flags = [], mc_MailboxIDs = [InboxLabel], mc_Literal = ''''\<rparr>"

definition sample_connector :: "string \<Rightarrow> connector" where
  "sample_connector a = \<lparr>c_addrID = a, c_updates = [], c_closed = False\<rparr>"

theorem sync_updates_partitioned_witness:
  "sent ''A'' (map (\<lambda>(a, ms). (a, newMessagesCreated ms))
       (update_batches [\<lparr>br_AddressID = ''A'', br_Update = sample_message ''1''\<rparr>, \<lparr>br_AddressID = ''B'', br_Update = sample_message ''2''\<rparr>,
                        \<lparr>br_AddressID = ''A'', br_Update = sample_message ''3''\<rparr>])) =
     [NewMessagesCreated True [sample_message ''1'', sample_message ''3'']]"
  using sync_updates_partitioned[of "[(''A'', sample_connector ''A''), (''B'', sample_connector ''B'')]"
      "[\<lparr>br_AddressID = ''A'', br_Update = sample_message ''1''\<rparr>, \<lparr>br_AddressID = ''B'', br_Update = sample_message ''2''\<rparr>,
        \<lparr>br_AddressID = ''A'', br_Update = sample_message ''3''\<rparr>]", THEN conjunct2, THEN spec, of _ _ "''A''"]
  by (simp add: apply_request_def Let_def messages_of_def)

text \<open>
  An address that has messages but no connector: its update is not published anywhere, yet it is among the updates that
  are waited for.
\<close>

theorem unconnected_address_is_waited_for:
  "apply_request AddressModeSplit [\<lparr>br_AddressID = ''B'', br_Update = sample_message ''1''\<rparr>] [(''A'', sample_connector ''A'')] =
     (Inr [(''B'', NewMessagesCreated True [sample_message ''1''])], [(''A'', sample_connector ''A'')])"
  by (simp add: apply_request_def update_batches_def add_update_def newMessagesCreated_def)

subsection \<open>Every wanted label gets its mailbox\<close>

text \<open>What a connector must have been told of a label.\<close>

definition mailbox_update :: "labelID \<Rightarrow> Label \<Rightarrow> update" where
  "mailbox_update i l =
     (if l_Type l = LabelTypeSystem then newSystemMailboxCreatedUpdate (l_ID l) (l_Name l)
      else newMailboxCreatedUpdate i (GetMailboxName l))"

lemma publish_delivers:
  assumes "publish us st = (p, st')" "distinct (map fst (ls_connectors st))"
  shows "delivers (ls_connectors st) p (ls_connectors st')"
    and "a \<in> set (map fst (ls_connectors st)) \<Longrightarrow> sent a p = us"
  using assms delivers_publish[OF assms(2), of us] sent_pending_all[OF assms(2), of a us]
  by (auto simp: publish_def)

lemma WantLabel_type: "WantLabel l \<Longrightarrow> l_Type l \<noteq> LabelTypeContactGroup"
  by (auto simp: WantLabel_def)

lemma sync_label_loop_complete:
  assumes "sync_label_loop env labels us st = Some (Inr p, st')" "distinct (map fst (ls_connectors st))"
  shows "\<exists>q. p = us @ q \<and> delivers (ls_connectors st) q (ls_connectors st') \<and>
     (\<forall>a \<in> set (map fst (ls_connectors st)). \<forall>(i, l) \<in> set labels. WantLabel l \<longrightarrow> mailbox_update i l \<in> set (sent a q))"
  using assms
proof (induction labels arbitrary: us st)
  case (Cons il labels)
  obtain i l where il: "il = (i, l)" by fastforce
  note prem = Cons.prems(1)[unfolded il sync_label_loop.simps] and dist = Cons.prems(2)
  let ?goal = "\<exists>q. p = us @ q \<and> delivers (ls_connectors st) q (ls_connectors st') \<and>
     (\<forall>a \<in> set (map fst (ls_connectors st)). \<forall>(i, l) \<in> set ((i, l) # labels). WantLabel l \<longrightarrow> mailbox_update i l \<in> set (sent a q))"
  have step: ?goal
    if pub: "publish vs st0 = (pu, st1)" and c0: "ls_connectors st0 = ls_connectors st"
      and v: "mailbox_update i l \<in> set vs" and r: "sync_label_loop env labels (us @ pu) st1 = Some (Inr p, st')"
    for vs st0 pu st1
  proof -
    have d: "distinct (map fst (ls_connectors st0))" using dist c0 by simp
    note pd = publish_delivers[OF pub d, unfolded c0]
    have f: "map fst (ls_connectors st1) = map fst (ls_connectors st)" using delivers_fst[OF pd(1)] .
    then obtain q where q: "p = (us @ pu) @ q" "delivers (ls_connectors st1) q (ls_connectors st')"
      "\<forall>a \<in> set (map fst (ls_connectors st)). \<forall>(i, l) \<in> set labels. WantLabel l \<longrightarrow> mailbox_update i l \<in> set (sent a q)"
      using Cons.IH[OF r] dist by auto
    show ?thesis using delivers_trans[OF pd(1) q(2)] q(1,3) pd(2) v by (intro exI[of _ "pu @ q"]) fastforce
  qed
  have ?goal
  proof (cases "WantLabel l")
    case False
    then show ?thesis using Cons.IH[OF _ dist, of us] prem by auto
  next
    case True
    show ?thesis
    proof (cases "l_Type l = LabelTypeSystem")
      case sys: True
      obtain pu st1 where pub: "publish [newSystemMailboxCreatedUpdate (l_ID l) (l_Name l)] st = (pu, st1)" by fastforce
      have r: "sync_label_loop env labels (us @ pu) st1 = Some (Inr p, st')" using prem True sys pub by simp
      show ?thesis using sys by (intro step[OF pub _ _ r]) (simp_all add: mailbox_update_def)
    next
      case usr: False
      then have ty: "l_Type l = LabelTypeFolder \<or> l_Type l = LabelTypeLabel" using WantLabel_type[OF True] by (cases "l_Type l") auto
      then obtain cu where cu: "resolve env (ls_round st) l = Some (Inr cu)"
        using prem True by (auto split: option.splits sum.splits)
      obtain pu st1 where pub: "publish (cu @ [newMailboxCreatedUpdate i (GetMailboxName l)]) (st\<lparr>ls_round := Suc (ls_round st)\<rparr>) = (pu, st1)"
        by fastforce
      have r: "sync_label_loop env labels (us @ pu) st1 = Some (Inr p, st')" using prem True ty cu pub by auto
      show ?thesis using usr by (intro step[OF pub _ _ r]) (simp_all add: mailbox_update_def)
    qed
  qed
  then show ?case by (simp only: il)
qed simp

text \<open>
  A successful label sync leaves no wanted label without a mailbox: every connector has received, besides the
  two placeholder mailboxes for folders and labels, the creation of a mailbox for every wanted label of the account, and all
  that is then waited for has been published.
\<close>

theorem syncLabels_complete:
  assumes "syncLabels env labels st = Some (Inr p, st')" "distinct (map fst (ls_connectors st))"
  shows "delivers (ls_connectors st) p (ls_connectors st') \<and>
     (\<forall>a \<in> set (map fst (ls_connectors st)).
        newPlaceHolderMailboxCreatedUpdate folderPrefix \<in> set (sent a p) \<and>
        newPlaceHolderMailboxCreatedUpdate labelPrefix \<in> set (sent a p) \<and>
        (\<forall>(i, l) \<in> set labels. WantLabel l \<longrightarrow> mailbox_update i l \<in> set (sent a p)))"
proof -
  obtain cu where cu: "Internal_ResolveConflict (e_fetch env (ls_round st)) labels = Inr cu"
    using assms(1) by (auto simp: syncLabels_def split: sum.splits)
  obtain us st1 where p1: "publish cu (st\<lparr>ls_round := Suc (ls_round st)\<rparr>) = (us, st1)" by fastforce
  obtain us1 st2 where p2: "publish (placeholders folderPrefix) st1 = (us1, st2)" by fastforce
  obtain us2 st3 where p3: "publish (placeholders labelPrefix) st2 = (us2, st3)" by fastforce
  have l: "sync_label_loop env labels (us @ us1 @ us2) st3 = Some (Inr p, st')"
    using assms(1) cu p1 p2 p3 by (simp add: syncLabels_def)
  have d0: "distinct (map fst (ls_connectors (st\<lparr>ls_round := Suc (ls_round st)\<rparr>)))" using assms(2) by simp
  have D1: "delivers (ls_connectors st) us (ls_connectors st1)" using publish_delivers(1)[OF p1 d0] by simp
  note f1 = delivers_fst[OF D1]
  have d1: "distinct (map fst (ls_connectors st1))" using assms(2) f1 by simp
  note D2 = publish_delivers[OF p2 d1] and f2 = delivers_fst[OF publish_delivers(1)[OF p2 d1]]
  have d2: "distinct (map fst (ls_connectors st2))" using d1 f2 by simp
  note D3 = publish_delivers[OF p3 d2] and f3 = delivers_fst[OF publish_delivers(1)[OF p3 d2]]
  have d3: "distinct (map fst (ls_connectors st3))" using d2 f3 by simp
  obtain q where q: "p = (us @ us1 @ us2) @ q" "delivers (ls_connectors st3) q (ls_connectors st')"
    "\<forall>a \<in> set (map fst (ls_connectors st3)). \<forall>(i, l) \<in> set labels. WantLabel l \<longrightarrow> mailbox_update i l \<in> set (sent a q)"
    using sync_label_loop_complete[OF l d3] by blast
  have "delivers (ls_connectors st) p (ls_connectors st')"
    using delivers_trans[OF D1 delivers_trans[OF D2(1) delivers_trans[OF D3(1) q(2)]]] q(1) by simp
  moreover have "newPlaceHolderMailboxCreatedUpdate folderPrefix \<in> set (sent a p)"
    "newPlaceHolderMailboxCreatedUpdate labelPrefix \<in> set (sent a p)"
    "\<forall>(i, l) \<in> set labels. WantLabel l \<longrightarrow> mailbox_update i l \<in> set (sent a p)"
    if a: "a \<in> set (map fst (ls_connectors st))" for a
  proof -
    have a1: "a \<in> set (map fst (ls_connectors st1))" and a2: "a \<in> set (map fst (ls_connectors st2))"
      and a3: "a \<in> set (map fst (ls_connectors st3))" using a unfolding f1 f2 f3 by simp_all
    show "newPlaceHolderMailboxCreatedUpdate folderPrefix \<in> set (sent a p)"
      using D2(2)[OF a1] by (simp add: q(1) placeholders_def)
    show "newPlaceHolderMailboxCreatedUpdate labelPrefix \<in> set (sent a p)"
      using D3(2)[OF a2] by (simp add: q(1) placeholders_def)
    show "\<forall>(i, l) \<in> set labels. WantLabel l \<longrightarrow> mailbox_update i l \<in> set (sent a p)"
      using bspec[OF q(3) a3] by (auto simp: q(1))
  qed
  ultimately show ?thesis by blast
qed

definition sample_state :: label_state where
  "sample_state = \<lparr>ls_labels = [], ls_connectors = [(''A'', sample_connector ''A'')], ls_events = [], ls_round = 0\<rparr>"

theorem syncLabels_complete_witness:
  "\<exists>p st'. syncLabels twig_env (ls_labels twig_state) sample_state = Some (Inr p, st') \<and>
     mailbox_update (LabelID ''2'') (twig ''2'' ''1'' [''a'', ''c'']) \<in> set (sent ''A'' p)"
proof -
  have ev: "\<exists>p st'. syncLabels twig_env (ls_labels twig_state) sample_state = Some (Inr p, st')"
    by (simp add: syncLabels_def Internal_ResolveConflict_def twig_env_def twig_state_def twig_def WantLabel_def publish_def
        ResolveConflict.simps)
  then obtain p st' where p: "syncLabels twig_env (ls_labels twig_state) sample_state = Some (Inr p, st')" by blast
  have d: "distinct (map fst (ls_connectors sample_state))" by (simp add: sample_state_def)
  have w: "WantLabel (twig ''2'' ''1'' [''a'', ''c''])" by (simp add: twig_def WantLabel_def)
  have "mailbox_update (LabelID ''2'') (twig ''2'' ''1'' [''a'', ''c'']) \<in> set (sent ''A'' p)"
    using syncLabels_complete[OF p d] w by (simp add: sample_state_def twig_state_def)
  then show ?thesis using p by blast
qed

end
