(* ===== verification/Imap_Connector.thy ===== *)
theory Imap_Connector
  imports Sync_Applier
begin

section \<open>The IMAP connector: mailboxes and labels of messages\<close>

text \<open>
  Models the operations of \<^verbatim>\<open>internal/services/imapservice/connector.go\<close> that an IMAP client triggers on mailboxes and on
  messages that exist already: creating, renaming and deleting mailboxes, copying, moving, expunging and marking
  messages, and the repair of mailbox names at startup. The API is an environment; the requests that change
  something there are recorded in the order they are made.
\<close>

subsection \<open>State and environment\<close>

datatype conn_call =
    CallCreateLabel string LabelType labelID
  | CallUpdateLabel labelID string string labelID
  | CallDeleteLabel labelID
  | CallLabelMessages "string list" labelID
  | CallUnlabelMessages "string list" labelID
  | CallDeleteMessage "string list"
  | CallMarkMessagesRead "string list"
  | CallMarkMessagesUnread "string list"
  | CallMarkMessagesForwarded "string list"
  | CallMarkMessagesUnForwarded "string list"

text \<open>\<open>mm_Seen\<close>, \<open>mm_Starred\<close> and \<open>mm_IsDraft\<close> are the answers of the API library's methods of these names.\<close>

record MsgMeta =
  mm_ID :: string
  mm_AddressID :: string
  mm_LabelIDs :: "labelID list"
  mm_Seen :: bool
  mm_Starred :: bool
  mm_IsDraft :: bool
  mm_IsReplied :: bool
  mm_IsRepliedAll :: bool
  mm_IsForwarded :: bool
  mm_Time :: int

text \<open>\<open>k_do\<close> answers the requests that return no data, \<open>k_Chunk\<close> is the slice library's \<^verbatim>\<open>Chunk\<close>.\<close>

record 'e conn_api =
  k_CreateLabel :: "string \<Rightarrow> LabelType \<Rightarrow> labelID \<Rightarrow> 'e + Label"
  k_UpdateLabel :: "labelID \<Rightarrow> string \<Rightarrow> string \<Rightarrow> labelID \<Rightarrow> 'e + Label"
  k_GetLabel :: "labelID \<Rightarrow> LabelType list \<Rightarrow> label_err + Label"
  k_do :: "conn_call \<Rightarrow> 'e option"
  k_GetMessageMetadataPage :: "string list \<Rightarrow> 'e + MsgMeta list"
  k_Chunk :: "nat \<Rightarrow> string list \<Rightarrow> string list list"

datatype 'e conn_err =
    ErrOperationNotAllowed
  | ClientErr 'e
  | LabelErrOf label_err
  | LabelingErr 'e
  | UnlabelingErr 'e

record conn_state =
  cn_labels :: labelMap
  cn_calls :: "conn_call list"
  cn_showAllMail :: bool

definition record_call :: "conn_call \<Rightarrow> conn_state \<Rightarrow> conn_state" where
  "record_call c s = s\<lparr>cn_calls := cn_calls s @ [c]\<rparr>"

definition do_call :: "'e conn_api \<Rightarrow> conn_call \<Rightarrow> conn_state \<Rightarrow> 'e option \<times> conn_state" where
  "do_call A c s = (k_do A c, record_call c s)"

definition noParent :: labelID where
  "noParent = LabelID ''''"

subsection \<open>Mailboxes\<close>

definition toIMAPMailbox :: "Label \<Rightarrow> flag list \<Rightarrow> flag list \<Rightarrow> attr list \<Rightarrow> Mailbox" where
  "toIMAPMailbox label flags permFlags attrs =
     (let path = (case l_Type label of
                    LabelTypeLabel \<Rightarrow> labelPrefix # l_Path label
                  | LabelTypeFolder \<Rightarrow> folderPrefix # l_Path label
                  | _ \<Rightarrow> l_Path label)
      in \<lparr>mb_ID = l_ID label, mb_Name = path, mb_Flags = flags, mb_PermanentFlags = permFlags, mb_Attributes = attrs\<rparr>)"

text \<open>\<open>NewConnector\<close> gives every connector the default flags and no attributes.\<close>

definition connector_mailbox :: "Label \<Rightarrow> Mailbox" where
  "connector_mailbox label = toIMAPMailbox label defaultMailboxFlags defaultMailboxPermanentFlags []"

definition createLabel ::
  "'e conn_api \<Rightarrow> string list \<Rightarrow> conn_state \<Rightarrow> ('e conn_err + Mailbox) \<times> conn_state" where
  "createLabel A name s =
     (case name of
        [n] \<Rightarrow>
          let s1 = record_call (CallCreateLabel n LabelTypeLabel noParent) s
          in (case k_CreateLabel A n LabelTypeLabel noParent of
                Inl e \<Rightarrow> (Inl (ClientErr e), s1)
              | Inr label \<Rightarrow> (Inr (connector_mailbox label), s1\<lparr>cn_labels := SetLabel (l_ID label) label (cn_labels s1)\<rparr>))
      | _ \<Rightarrow> (Inl ErrOperationNotAllowed, s))"

text \<open>The parent of a folder: the first label with the path above it. The list of labels gives the order in which the map is traversed.\<close>

definition find_parent :: "string list \<Rightarrow> labelMap \<Rightarrow> labelID" where
  "find_parent path labels =
     (case find (\<lambda>l. l_Path l = path) (GetLabels labels) of None \<Rightarrow> noParent | Some l \<Rightarrow> l_ID l)"

definition parent_of :: "string list \<Rightarrow> labelMap \<Rightarrow> labelID option" where
  "parent_of name labels =
     (if length name > 1
      then (let p = find_parent (butlast name) labels in if p = noParent then None else Some p)
      else Some noParent)"

definition createFolder ::
  "'e conn_api \<Rightarrow> string list \<Rightarrow> conn_state \<Rightarrow> ('e conn_err + Mailbox) \<times> conn_state" where
  "createFolder A name s =
     (case parent_of name (cn_labels s) of
        None \<Rightarrow> (Inl ErrOperationNotAllowed, s)
      | Some parentID \<Rightarrow>
          let s1 = record_call (CallCreateLabel (last name) LabelTypeFolder parentID) s
          in (case k_CreateLabel A (last name) LabelTypeFolder parentID of
                Inl e \<Rightarrow> (Inl (ClientErr e), s1)
              | Inr label \<Rightarrow> (Inr (connector_mailbox label), s1\<lparr>cn_labels := SetLabel (l_ID label) label (cn_labels s1)\<rparr>)))"

definition CreateMailbox ::
  "'e conn_api \<Rightarrow> string list \<Rightarrow> conn_state \<Rightarrow> ('e conn_err + Mailbox) \<times> conn_state" where
  "CreateMailbox A name s =
     (if length name < 2 then (Inl ErrOperationNotAllowed, s)
      else if hd name = folderPrefix then createFolder A (tl name) s
      else if hd name = labelPrefix then createLabel A (tl name) s
      else (Inl ErrOperationNotAllowed, s))"

definition updateLabel ::
  "'e conn_api \<Rightarrow> labelID \<Rightarrow> string list \<Rightarrow> conn_state \<Rightarrow> 'e conn_err option \<times> conn_state" where
  "updateLabel A labelID name s =
     (case name of
        [n] \<Rightarrow>
          (case k_GetLabel A labelID [LabelTypeLabel] of
             Inl e \<Rightarrow> (Some (LabelErrOf e), s)
           | Inr label \<Rightarrow>
               let s1 = record_call (CallUpdateLabel (l_ID label) n (l_Color label) noParent) s
               in (case k_UpdateLabel A (l_ID label) n (l_Color label) noParent of
                     Inl e \<Rightarrow> (Some (ClientErr e), s1)
                   | Inr update \<Rightarrow> (None, s1\<lparr>cn_labels := SetLabel (l_ID label) update (cn_labels s1)\<rparr>)))
      | _ \<Rightarrow> (Some ErrOperationNotAllowed, s))"

definition updateFolder ::
  "'e conn_api \<Rightarrow> labelID \<Rightarrow> string list \<Rightarrow> conn_state \<Rightarrow> 'e conn_err option \<times> conn_state" where
  "updateFolder A labelID name s =
     (case parent_of name (cn_labels s) of
        None \<Rightarrow> (Some ErrOperationNotAllowed, s)
      | Some parentID \<Rightarrow>
          (case k_GetLabel A labelID [LabelTypeFolder] of
             Inl e \<Rightarrow> (Some (LabelErrOf e), s)
           | Inr label \<Rightarrow>
               let s1 = record_call (CallUpdateLabel labelID (last name) (l_Color label) parentID) s
               in (case k_UpdateLabel A labelID (last name) (l_Color label) parentID of
                     Inl e \<Rightarrow> (Some (ClientErr e), s1)
                   | Inr update \<Rightarrow> (None, s1\<lparr>cn_labels := SetLabel (l_ID label) update (cn_labels s1)\<rparr>))))"

definition UpdateMailboxName ::
  "'e conn_api \<Rightarrow> labelID \<Rightarrow> string list \<Rightarrow> conn_state \<Rightarrow> 'e conn_err option \<times> conn_state" where
  "UpdateMailboxName A mboxID name s =
     (if length name < 2 then (Some ErrOperationNotAllowed, s)
      else if hd name = folderPrefix then updateFolder A mboxID (tl name) s
      else if hd name = labelPrefix then updateLabel A mboxID (tl name) s
      else (Some ErrOperationNotAllowed, s))"

definition DeleteMailbox ::
  "'e conn_api \<Rightarrow> labelID \<Rightarrow> conn_state \<Rightarrow> 'e conn_err option \<times> conn_state" where
  "DeleteMailbox A mboxID s =
     (case do_call A (CallDeleteLabel mboxID) s of
        (Some e, s1) \<Rightarrow> (Some (ClientErr e), s1)
      | (None, s1) \<Rightarrow> (None, s1\<lparr>cn_labels := Delete mboxID (cn_labels s1)\<rparr>))"

datatype MailboxVisibility = Hidden | HiddenIfEmpty | Visible

definition GetMailboxVisibility :: "labelID \<Rightarrow> conn_state \<Rightarrow> MailboxVisibility" where
  "GetMailboxVisibility mboxID s =
     (case mboxID of
        AllMailLabel \<Rightarrow> if cn_showAllMail s then Visible else Hidden
      | AllScheduledLabel \<Rightarrow> HiddenIfEmpty
      | _ \<Rightarrow> Visible)"

definition ShowAllMail :: "bool \<Rightarrow> conn_state \<Rightarrow> conn_state" where
  "ShowAllMail v s = s\<lparr>cn_showAllMail := v\<rparr>"

text \<open>\<open>None\<close>: the panic on the magic address.\<close>

definition Authorize :: "AddressMode \<Rightarrow> string \<Rightarrow> string \<Rightarrow> string \<Rightarrow> nat list \<Rightarrow> 'k State \<Rightarrow> bool option" where
  "Authorize addressMode connAddrID username password bridgePass ident =
     map_option (\<lambda>r. case r of
        Inl _ \<Rightarrow> False
      | Inr addrID \<Rightarrow> \<not> (addressMode = AddressModeSplit \<and> addrID \<noteq> connAddrID))
     (CheckAuth username password bridgePass ident)"

subsection \<open>Labels of messages\<close>

definition lift_err :: "'e option \<times> conn_state \<Rightarrow> 'e conn_err option \<times> conn_state" where
  "lift_err r = (map_option ClientErr (fst r), snd r)"

definition AddMessagesToMailbox ::
  "'e conn_api \<Rightarrow> string list \<Rightarrow> labelID \<Rightarrow> conn_state \<Rightarrow> 'e conn_err option \<times> conn_state" where
  "AddMessagesToMailbox A messageIDs mboxID s =
     (if isAllMailOrScheduled mboxID then (Some ErrOperationNotAllowed, s)
      else lift_err (do_call A (CallLabelMessages messageIDs mboxID) s))"

definition isMailboxOfTypeLabel :: "labelID \<Rightarrow> labelMap \<Rightarrow> bool" where
  "isMailboxOfTypeLabel mboxID labels =
     (case GetLabel mboxID labels of None \<Rightarrow> False | Some v \<Rightarrow> l_Type v = LabelTypeLabel)"

definition unlabelMessages :: "'e conn_api \<Rightarrow> string list \<Rightarrow> labelID \<Rightarrow> conn_state \<Rightarrow> 'e option \<times> conn_state" where
  "unlabelMessages A messageIDs labelID s = do_call A (CallUnlabelMessages messageIDs labelID) s"

text \<open>
  The labels that keep a message from being deleted for good, as the loop over its label IDs collects them. \<open>own\<close> is the mailbox whose
  label counts as removed already, in the variant of the code that does not remove it. An unknown label is looked
  up among the folders and system labels of the API; if it is not there it is ignored.
\<close>

definition all_label :: "labelID \<Rightarrow> bool" where
  "all_label i \<longleftrightarrow> i = AllDraftsLabel \<or> i = AllMailLabel \<or> i = AllSentLabel \<or> i = AllScheduledLabel"

fun remainingLabels ::
  "'e conn_api \<Rightarrow> labelMap \<Rightarrow> labelID option \<Rightarrow> string \<Rightarrow> labelID list \<Rightarrow> label_err + string list" where
  "remainingLabels A labels own mID [] = Inr []"
| "remainingLabels A labels own mID (i # is) =
     (let rest = remainingLabels A labels own mID is;
          decide = (\<lambda>label.
            if \<not> WantLabel label then rest
            else if own = Some i then rest
            else if l_Type label = LabelTypeSystem \<and> all_label i then rest
            else map_sum id (Cons mID) rest)
      in case GetLabel i labels of
           Some label \<Rightarrow> decide label
         | None \<Rightarrow>
             (case k_GetLabel A i [LabelTypeFolder, LabelTypeSystem, LabelTypeSystem] of
                Inl ErrNoSuchLabel \<Rightarrow> rest
              | Inl e \<Rightarrow> Inl e
              | Inr label \<Rightarrow> decide label))"

fun mark_messages ::
  "'e conn_api \<Rightarrow> labelMap \<Rightarrow> labelID option \<Rightarrow> MsgMeta list \<Rightarrow> label_err + string list" where
  "mark_messages A labels own [] = Inr []"
| "mark_messages A labels own (m # ms) =
     (case remainingLabels A labels own (mm_ID m) (mm_LabelIDs m) of
        Inl e \<Rightarrow> Inl e
      | Inr remaining \<Rightarrow>
          map_sum id (\<lambda>ids. if remaining = [] then mm_ID m # ids else ids) (mark_messages A labels own ms))"

fun mark_chunks ::
  "'e conn_api \<Rightarrow> labelMap \<Rightarrow> labelID option \<Rightarrow> string list list \<Rightarrow> 'e conn_err + string list" where
  "mark_chunks A labels own [] = Inr []"
| "mark_chunks A labels own (chunk # chunks) =
     (case k_GetMessageMetadataPage A chunk of
        Inl e \<Rightarrow> Inl (ClientErr e)
      | Inr metadata \<Rightarrow>
          (case mark_messages A labels own metadata of
             Inl e \<Rightarrow> Inl (LabelErrOf e)
           | Inr ids \<Rightarrow> map_sum id (\<lambda>ids'. ids @ ids') (mark_chunks A labels own chunks)))"

definition permaDelete ::
  "'e conn_api \<Rightarrow> labelID option \<Rightarrow> string list \<Rightarrow> labelID \<Rightarrow> conn_state \<Rightarrow> 'e conn_err option \<times> conn_state" where
  "permaDelete A own messageIDs mboxID s =
     (if mboxID = TrashLabel \<or> mboxID = DraftsLabel
      then (case mark_chunks A (cn_labels s) own (k_Chunk A 150 messageIDs) of
              Inl e \<Rightarrow> (Some e, s)
            | Inr msgToPermaDelete \<Rightarrow>
                if msgToPermaDelete = [] then (None, s)
                else lift_err (do_call A (CallDeleteMessage msgToPermaDelete) s))
      else (None, s))"

definition removeMessagesFromMailboxWithoutUnlabelOnFolders ::
  "'e conn_api \<Rightarrow> string list \<Rightarrow> labelID \<Rightarrow> conn_state \<Rightarrow> 'e conn_err option \<times> conn_state" where
  "removeMessagesFromMailboxWithoutUnlabelOnFolders A messageIDs mboxID s =
     (if isAllMailOrScheduled mboxID then (Some ErrOperationNotAllowed, s)
      else case (if isMailboxOfTypeLabel mboxID (cn_labels s) then unlabelMessages A messageIDs mboxID s else (None, s)) of
             (Some e, s1) \<Rightarrow> (Some (ClientErr e), s1)
           | (None, s1) \<Rightarrow> permaDelete A (Some mboxID) messageIDs mboxID s1)"

definition removeMessagesFromMailboxWithUnlabelCallOnFolders ::
  "'e conn_api \<Rightarrow> string list \<Rightarrow> labelID \<Rightarrow> conn_state \<Rightarrow> 'e conn_err option \<times> conn_state" where
  "removeMessagesFromMailboxWithUnlabelCallOnFolders A messageIDs mboxID s =
     (if isAllMailOrScheduled mboxID then (Some ErrOperationNotAllowed, s)
      else case unlabelMessages A messageIDs mboxID s of
             (Some e, s1) \<Rightarrow> (Some (ClientErr e), s1)
           | (None, s1) \<Rightarrow> permaDelete A None messageIDs mboxID s1)"

text \<open>\<open>unlabelDisabled\<close> is the value of the feature flag \<^verbatim>\<open>FolderUnlabelCallDisabled\<close>.\<close>

definition RemoveMessagesFromMailbox ::
  "bool \<Rightarrow> 'e conn_api \<Rightarrow> string list \<Rightarrow> labelID \<Rightarrow> conn_state \<Rightarrow> 'e conn_err option \<times> conn_state" where
  "RemoveMessagesFromMailbox unlabelDisabled A messageIDs mboxID s =
     (if unlabelDisabled then removeMessagesFromMailboxWithoutUnlabelOnFolders A messageIDs mboxID s
      else removeMessagesFromMailboxWithUnlabelCallOnFolders A messageIDs mboxID s)"

definition move_forbidden :: "labelID \<Rightarrow> labelID \<Rightarrow> bool" where
  "move_forbidden mboxFromID mboxToID \<longleftrightarrow>
     mboxFromID = InboxLabel \<and> mboxToID = SentLabel \<or> mboxFromID = SentLabel \<and> mboxToID = InboxLabel \<or>
     isAllMailOrScheduled mboxFromID \<or> isAllMailOrScheduled mboxToID"

definition is_label_type :: "LabelType list \<Rightarrow> labelID \<Rightarrow> labelMap \<Rightarrow> bool" where
  "is_label_type ts i labels = (case GetLabel i labels of None \<Rightarrow> False | Some v \<Rightarrow> l_Type v \<in> set ts)"

definition moveMessagesWithoutUnlabelCallOnFolders ::
  "'e conn_api \<Rightarrow> string list \<Rightarrow> labelID \<Rightarrow> labelID \<Rightarrow> conn_state \<Rightarrow> ('e conn_err + bool) \<times> conn_state" where
  "moveMessagesWithoutUnlabelCallOnFolders A messageIDs mboxFromID mboxToID s =
     (if move_forbidden mboxFromID mboxToID then (Inl ErrOperationNotAllowed, s)
      else
        let shouldExpungeOldLocation =
              (if is_label_type [LabelTypeLabel] mboxFromID (cn_labels s) then True
               else is_label_type [LabelTypeFolder, LabelTypeSystem] mboxToID (cn_labels s))
        in case do_call A (CallLabelMessages messageIDs mboxToID) s of
             (Some e, s1) \<Rightarrow> (Inl (LabelingErr e), s1)
           | (None, s1) \<Rightarrow>
               if isMailboxOfTypeLabel mboxFromID (cn_labels s1)
               then (case unlabelMessages A messageIDs mboxFromID s1 of
                       (Some e, s2) \<Rightarrow> (Inl (UnlabelingErr e), s2)
                     | (None, s2) \<Rightarrow> (Inr shouldExpungeOldLocation, s2))
               else (Inr shouldExpungeOldLocation, s1))"

definition moveMessagesWithUnlabelCallOnFolders ::
  "'e conn_api \<Rightarrow> string list \<Rightarrow> labelID \<Rightarrow> labelID \<Rightarrow> conn_state \<Rightarrow> ('e conn_err + bool) \<times> conn_state" where
  "moveMessagesWithUnlabelCallOnFolders A messageIDs mboxFromID mboxToID s =
     (if move_forbidden mboxFromID mboxToID then (Inl ErrOperationNotAllowed, s)
      else
        let result1 = (if is_label_type [LabelTypeLabel] mboxFromID (cn_labels s) then True else False);
            shouldExpungeOldLocation =
              (if is_label_type [LabelTypeFolder, LabelTypeSystem] mboxToID (cn_labels s) then True else result1)
        in case do_call A (CallLabelMessages messageIDs mboxToID) s of
             (Some e, s1) \<Rightarrow> (Inl (LabelingErr e), s1)
           | (None, s1) \<Rightarrow>
               if shouldExpungeOldLocation
               then (case unlabelMessages A messageIDs mboxFromID s1 of
                       (Some e, s2) \<Rightarrow> (Inl (UnlabelingErr e), s2)
                     | (None, s2) \<Rightarrow> (Inr shouldExpungeOldLocation, s2))
               else (Inr shouldExpungeOldLocation, s1))"

definition MoveMessages ::
  "bool \<Rightarrow> 'e conn_api \<Rightarrow> string list \<Rightarrow> labelID \<Rightarrow> labelID \<Rightarrow> conn_state \<Rightarrow> ('e conn_err + bool) \<times> conn_state" where
  "MoveMessages unlabelDisabled A messageIDs mboxFromID mboxToID s =
     (if unlabelDisabled then moveMessagesWithoutUnlabelCallOnFolders A messageIDs mboxFromID mboxToID s
      else moveMessagesWithUnlabelCallOnFolders A messageIDs mboxFromID mboxToID s)"

definition MarkMessagesSeen :: "'e conn_api \<Rightarrow> string list \<Rightarrow> bool \<Rightarrow> conn_state \<Rightarrow> 'e option \<times> conn_state" where
  "MarkMessagesSeen A messageIDs seen s =
     (if seen then do_call A (CallMarkMessagesRead messageIDs) s else do_call A (CallMarkMessagesUnread messageIDs) s)"

definition MarkMessagesFlagged :: "'e conn_api \<Rightarrow> string list \<Rightarrow> bool \<Rightarrow> conn_state \<Rightarrow> 'e option \<times> conn_state" where
  "MarkMessagesFlagged A messageIDs flagged s =
     (if flagged then do_call A (CallLabelMessages messageIDs StarredLabel) s else unlabelMessages A messageIDs StarredLabel s)"

definition MarkMessagesForwarded :: "'e conn_api \<Rightarrow> string list \<Rightarrow> bool \<Rightarrow> conn_state \<Rightarrow> 'e option \<times> conn_state" where
  "MarkMessagesForwarded A messageIDs flagged s =
     (if flagged then do_call A (CallMarkMessagesForwarded messageIDs) s
      else do_call A (CallMarkMessagesUnForwarded messageIDs) s)"

subsection \<open>Repairing mailbox names at startup\<close>

text \<open>
  \<open>patch i name\<close> is the IMAP library's answer to the renaming. The table of names is updated as it is renamed. The outer
  \<open>None\<close> is the index out of range on a mailbox with an empty name.
\<close>

definition fix_prefix :: "Label \<Rightarrow> string option" where
  "fix_prefix lbl = (case l_Type lbl of LabelTypeFolder \<Rightarrow> Some folderPrefix | LabelTypeLabel \<Rightarrow> Some labelPrefix | _ \<Rightarrow> None)"

fun fixGODT3003Labels ::
  "(labelID \<Rightarrow> string list \<Rightarrow> 'e option) \<Rightarrow> labelMap \<Rightarrow> name_table \<Rightarrow> (('e + bool) \<times> name_table) option" where
  "fixGODT3003Labels patch rd [] = Some (Inr False, [])"
| "fixGODT3003Labels patch rd ((i, name) # mboxes) =
     (let skip = map_option (\<lambda>(r, t). (r, (i, name) # t)) (fixGODT3003Labels patch rd mboxes)
      in case GetLabel i rd of
           None \<Rightarrow> skip
         | Some lbl \<Rightarrow>
             (case fix_prefix lbl of
                None \<Rightarrow> skip
              | Some prefix \<Rightarrow>
                  (case name of
                     [] \<Rightarrow> None
                   | n # _ \<Rightarrow>
                       if n = prefix then skip
                       else case patch i (prefix # name) of
                              Some e \<Rightarrow> Some (Inl e, (i, name) # mboxes)
                            | None \<Rightarrow>
                                map_option (\<lambda>(r, t). (map_sum id (\<lambda>_. True) r, (i, prefix # name) # t))
                                  (fixGODT3003Labels patch rd mboxes))))"

text \<open>
  \<open>Init\<close>: repair the names, reset the sync state when any was repaired, then let the mailboxes store the forward flags.
  The arguments are the answers of the IMAP library and of \<^verbatim>\<open>ClearSyncStatus\<close>.
\<close>

record 'e init_env =
  in_patch :: "labelID \<Rightarrow> string list \<Rightarrow> 'e option"
  in_mboxes :: "'e + name_table"
  in_ClearSyncStatus :: "'e option"
  in_AddFlags :: "'e option"
  in_AddPermFlags :: "'e option"

datatype init_effect = InitMailboxes name_table | InitSyncStatusCleared | InitFlagsAdded | InitPermFlagsAdded

definition init_flags :: "'e init_env \<Rightarrow> init_effect list \<Rightarrow> 'e option \<times> init_effect list" where
  "init_flags E effects =
     (case in_AddFlags E of
        Some e \<Rightarrow> (Some e, effects)
      | None \<Rightarrow>
          (case in_AddPermFlags E of
             Some e \<Rightarrow> (Some e, effects @ [InitFlagsAdded])
           | None \<Rightarrow> (None, effects @ [InitFlagsAdded, InitPermFlagsAdded])))"

definition Init :: "'e init_env \<Rightarrow> labelMap \<Rightarrow> ('e option \<times> init_effect list) option" where
  "Init E rd =
     (case in_mboxes E of
        Inl e \<Rightarrow> Some (Some e, [])
      | Inr mboxes \<Rightarrow>
          map_option (\<lambda>(r, t). case r of
             Inl e \<Rightarrow> (Some e, [InitMailboxes t])
           | Inr applied \<Rightarrow>
               if applied
               then (case in_ClearSyncStatus E of
                       Some e \<Rightarrow> (Some e, [InitMailboxes t])
                     | None \<Rightarrow> init_flags E [InitMailboxes t, InitSyncStatusCleared])
               else init_flags E [InitMailboxes t])
          (fixGODT3003Labels (in_patch E) rd mboxes))"

subsection \<open>What is deleted for good\<close>

text \<open>A label that does not keep a message: not wanted, the mailbox the message leaves, one of the collections of all messages, or unknown to the API.\<close>

definition label_of :: "'e conn_api \<Rightarrow> labelMap \<Rightarrow> labelID \<Rightarrow> label_err + Label" where
  "label_of A labels i =
     (case GetLabel i labels of
        Some l \<Rightarrow> Inr l
      | None \<Rightarrow> k_GetLabel A i [LabelTypeFolder, LabelTypeSystem, LabelTypeSystem])"

definition disposable :: "'e conn_api \<Rightarrow> labelMap \<Rightarrow> labelID option \<Rightarrow> labelID \<Rightarrow> bool" where
  "disposable A labels own i =
     (case label_of A labels i of
        Inl e \<Rightarrow> e = ErrNoSuchLabel
      | Inr l \<Rightarrow> \<not> WantLabel l \<or> own = Some i \<or> l_Type l = LabelTypeSystem \<and> all_label i)"

definition expunged :: "'e conn_api \<Rightarrow> labelMap \<Rightarrow> labelID option \<Rightarrow> string list list \<Rightarrow> string list" where
  "expunged A labels own chunks =
     concat (map (\<lambda>chunk. case k_GetMessageMetadataPage A chunk of
        Inl _ \<Rightarrow> []
      | Inr ms \<Rightarrow> map mm_ID (filter (\<lambda>m. list_all (disposable A labels own) (mm_LabelIDs m)) ms)) chunks)"

lemma map_sum_id_Inr: "map_sum id f r = Inr y \<longleftrightarrow> (\<exists>x. r = Inr x \<and> y = f x)"
  by (cases r) auto

lemma remainingLabels_cases:
  "remainingLabels A labels own m is = Inr rem \<Longrightarrow> rem = [] \<longleftrightarrow> list_all (disposable A labels own) is"
proof (induction "is" arbitrary: rem)
  case (Cons i "is")
  show ?case
  proof (cases "GetLabel i labels")
    case (Some l)
    then show ?thesis using Cons by (auto simp: disposable_def label_of_def Let_def map_sum_id_Inr split: if_splits)
  next
    case None
    then show ?thesis
    proof (cases "k_GetLabel A i [LabelTypeFolder, LabelTypeSystem, LabelTypeSystem]")
      case (Inl e)
      then show ?thesis using Cons None by (cases e) (auto simp: disposable_def label_of_def)
    next
      case (Inr l)
      then show ?thesis using Cons None by (auto simp: disposable_def label_of_def Let_def map_sum_id_Inr split: if_splits)
    qed
  qed
qed simp

lemma mark_messages_filter:
  "mark_messages A labels own ms = Inr ids \<Longrightarrow>
     ids = map mm_ID (filter (\<lambda>m. list_all (disposable A labels own) (mm_LabelIDs m)) ms)"
proof (induction ms arbitrary: ids)
  case (Cons m ms)
  then obtain rem where rem: "remainingLabels A labels own (mm_ID m) (mm_LabelIDs m) = Inr rem" by (auto split: sum.splits)
  with Cons show ?case using remainingLabels_cases[OF rem] by (auto simp: map_sum_id_Inr)
qed simp

lemma mark_chunks_expunged: "mark_chunks A labels own chunks = Inr ids \<Longrightarrow> ids = expunged A labels own chunks"
proof (induction chunks arbitrary: ids)
  case (Cons c chunks)
  obtain ms where ms: "k_GetMessageMetadataPage A c = Inr ms" using Cons.prems by (auto split: sum.splits)
  then obtain xs ys where "mark_messages A labels own ms = Inr xs" "mark_chunks A labels own chunks = Inr ys" "ids = xs @ ys"
    using Cons.prems by (auto simp: map_sum_id_Inr split: sum.splits)
  then show ?case using Cons.IH mark_messages_filter ms by (fastforce simp: expunged_def)
qed (simp add: expunged_def)

lemma permaDelete_calls:
  assumes "permaDelete A own ids mbox s = (r, s')"
  shows "cn_calls s' = cn_calls s \<or>
     ((mbox = TrashLabel \<or> mbox = DraftsLabel) \<and>
      cn_calls s' = cn_calls s @ [CallDeleteMessage (expunged A (cn_labels s) own (k_Chunk A 150 ids))])"
  using assms mark_chunks_expunged[of A "cn_labels s" own "k_Chunk A 150 ids"]
  by (auto simp: permaDelete_def lift_err_def do_call_def record_call_def split: if_splits sum.splits)

lemma record_call_simps [simp]:
  "cn_labels (record_call c s) = cn_labels s" "cn_calls (record_call c s) = cn_calls s @ [c]"
  by (simp_all add: record_call_def)

lemma RemoveMessages_steps:
  assumes "RemoveMessagesFromMailbox unlabelDisabled A ids mbox s = (r, s')"
  shows "\<exists>s1. (s1 = s \<or> s1 = record_call (CallUnlabelMessages ids mbox) s) \<and>
     (s' = s1 \<or> permaDelete A (if unlabelDisabled then Some mbox else None) ids mbox s1 = (r, s'))"
proof (cases "isAllMailOrScheduled mbox")
  case True
  then show ?thesis
    using assms by (intro exI[of _ s])
      (simp add: RemoveMessagesFromMailbox_def removeMessagesFromMailboxWithoutUnlabelOnFolders_def
        removeMessagesFromMailboxWithUnlabelCallOnFolders_def split: if_splits)
next
  case False
  define first where
    "first = (if unlabelDisabled \<and> \<not> isMailboxOfTypeLabel mbox (cn_labels s) then (None, s) else unlabelMessages A ids mbox s)"
  obtain e s1 where f: "first = (e, s1)" by fastforce
  have s1: "s1 = s \<or> s1 = record_call (CallUnlabelMessages ids mbox) s"
    using f by (auto simp: first_def unlabelMessages_def do_call_def split: if_splits)
  have "(r, s') = (case first of
          (Some e, s1) \<Rightarrow> (Some (ClientErr e), s1)
        | (None, s1) \<Rightarrow> permaDelete A (if unlabelDisabled then Some mbox else None) ids mbox s1)"
    using assms False
    by (cases unlabelDisabled; cases "isMailboxOfTypeLabel mbox (cn_labels s)")
      (simp_all add: RemoveMessagesFromMailbox_def removeMessagesFromMailboxWithoutUnlabelOnFolders_def
        removeMessagesFromMailboxWithUnlabelCallOnFolders_def first_def)
  then have "s' = s1 \<or> permaDelete A (if unlabelDisabled then Some mbox else None) ids mbox s1 = (r, s')"
    using f by (cases e) simp_all
  then show ?thesis using s1 by blast
qed


definition sample_label :: "labelID \<Rightarrow> string \<Rightarrow> LabelType \<Rightarrow> Label" where
  "sample_label i n t = \<lparr>l_ID = i, l_ParentID = noParent, l_Name = n, l_Path = [n], l_Type = t, l_Color = ''#f66''\<rparr>"

definition sample_meta :: "string \<Rightarrow> labelID list \<Rightarrow> MsgMeta" where
  "sample_meta i ls = \<lparr>mm_ID = i, mm_AddressID = ''A'', mm_LabelIDs = ls, mm_Seen = True, mm_Starred = False, mm_IsDraft = False,
     mm_IsReplied = False, mm_IsRepliedAll = False, mm_IsForwarded = False, mm_Time = 1\<rparr>"

text \<open>An account whose API knows the label \<open>New\<close>, which the bridge does not know yet: a lookup finds a label only among the types it names.\<close>

definition sample_api :: "MsgMeta list \<Rightarrow> string conn_api" where
  "sample_api ms =
     \<lparr>k_CreateLabel = (\<lambda>n t p. Inl ''''), k_UpdateLabel = (\<lambda>i n c p. Inl ''''),
      k_GetLabel = (\<lambda>i ts. if i = LabelID ''New'' \<and> LabelTypeLabel \<in> set ts then Inr (sample_label i ''New'' LabelTypeLabel)
                          else Inl ErrNoSuchLabel),
      k_do = (\<lambda>c. None), k_GetMessageMetadataPage = (\<lambda>ids. Inr ms), k_Chunk = (\<lambda>n xs. [xs])\<rparr>"

definition sample_conn :: conn_state where
  "sample_conn =
     \<lparr>cn_labels = [(TrashLabel, sample_label TrashLabel ''Trash'' LabelTypeSystem), (AllMailLabel, sample_label AllMailLabel ''All Mail'' LabelTypeSystem),
                   (LabelID ''L'', sample_label (LabelID ''L'') ''L'' LabelTypeLabel)],
      cn_calls = [], cn_showAllMail = True\<rparr>"

lemmas expunge_defs = RemoveMessagesFromMailbox_def removeMessagesFromMailboxWithoutUnlabelOnFolders_def
  removeMessagesFromMailboxWithUnlabelCallOnFolders_def permaDelete_def isAllMailOrScheduled_def unlabelMessages_def do_call_def
  record_call_def lift_err_def isMailboxOfTypeLabel_def sample_api_def sample_conn_def sample_meta_def sample_label_def GetLabel_def
  all_label_def WantLabel_def

lemma sample_expunge:
  "RemoveMessagesFromMailbox True (sample_api [sample_meta ''1'' [TrashLabel, AllMailLabel], sample_meta ''2'' [TrashLabel, LabelID ''L'']])
     [''1'', ''2''] TrashLabel sample_conn = (None, sample_conn\<lparr>cn_calls := [CallDeleteMessage [''1'']]\<rparr>)"
  by (simp add: expunge_defs)


text \<open>
  A message in the trash that also has a label which the bridge does not know yet: the lookup asks for folders and system labels only, so
  the label is taken for gone and the message is deleted for good.
\<close>

theorem expunge_ignores_new_label:
  "RemoveMessagesFromMailbox False (sample_api [sample_meta ''1'' [LabelID ''New'']]) [''1''] TrashLabel sample_conn =
     (None, sample_conn\<lparr>cn_calls := [CallUnlabelMessages [''1''] TrashLabel, CallDeleteMessage [''1'']]\<rparr>)"
  by (simp add: expunge_defs)

subsection \<open>Moving and copying\<close>

text \<open>
  The two ways of moving messages agree: they refuse the same moves, they take the same decision on
  whether the messages leave the old mailbox, and when that mailbox is a label, or the messages stay in it, they make the same
  requests with the same outcome. Otherwise the only difference is the additional request that removes the old label.
\<close>

theorem move_variants_agree:
  "(let (r1, s1) = moveMessagesWithoutUnlabelCallOnFolders A ids from to s;
        (r2, s2) = moveMessagesWithUnlabelCallOnFolders A ids from to s
    in (is_label_type [LabelTypeLabel] from (cn_labels s) \<or> \<not> is_label_type [LabelTypeFolder, LabelTypeSystem] to (cn_labels s) \<longrightarrow>
          r1 = r2 \<and> s1 = s2) \<and>
       (s1 \<noteq> s2 \<longrightarrow> s2 = record_call (CallUnlabelMessages ids from) s1) \<and>
       (r1 \<noteq> r2 \<longrightarrow> r1 = Inr True \<and> (\<exists>e. k_do A (CallUnlabelMessages ids from) = Some e \<and> r2 = Inl (UnlabelingErr e))))"
proof -
  have eq: "isMailboxOfTypeLabel from labels = is_label_type [LabelTypeLabel] from labels" for labels
    by (simp add: isMailboxOfTypeLabel_def is_label_type_def split: option.split)
  show ?thesis
    by (cases "move_forbidden from to"; cases "k_do A (CallLabelMessages ids to)"; cases "k_do A (CallUnlabelMessages ids from)";
        cases "is_label_type [LabelTypeLabel] from (cn_labels s)"; cases "is_label_type [LabelTypeFolder, LabelTypeSystem] to (cn_labels s)")
      (simp_all add: moveMessagesWithoutUnlabelCallOnFolders_def moveMessagesWithUnlabelCallOnFolders_def do_call_def unlabelMessages_def eq)
qed

theorem move_variants_agree_witness:
  "moveMessagesWithoutUnlabelCallOnFolders (sample_api []) [''1''] (LabelID ''L'') TrashLabel sample_conn =
     moveMessagesWithUnlabelCallOnFolders (sample_api []) [''1''] (LabelID ''L'') TrashLabel sample_conn"
  using move_variants_agree[of "sample_api []" "[''1'']" "LabelID ''L''" TrashLabel sample_conn]
  by (simp add: is_label_type_def sample_conn_def sample_label_def GetLabel_def split_beta prod_eq_iff)

text \<open>
  The collections of all and of all scheduled messages cannot be changed by a client: nothing can be
  copied into them, removed from them or moved in either direction, and such an attempt makes no request and changes nothing.
\<close>

theorem collections_untouched:
  assumes "isAllMailOrScheduled mbox"
  shows "AddMessagesToMailbox A ids mbox s = (Some ErrOperationNotAllowed, s) \<and>
     RemoveMessagesFromMailbox unlabelDisabled A ids mbox s = (Some ErrOperationNotAllowed, s) \<and>
     MoveMessages unlabelDisabled A ids mbox other s = (Inl ErrOperationNotAllowed, s) \<and>
     MoveMessages unlabelDisabled A ids other mbox s = (Inl ErrOperationNotAllowed, s)"
  using assms
  by (simp add: AddMessagesToMailbox_def RemoveMessagesFromMailbox_def removeMessagesFromMailboxWithoutUnlabelOnFolders_def
      removeMessagesFromMailboxWithUnlabelCallOnFolders_def MoveMessages_def moveMessagesWithoutUnlabelCallOnFolders_def
      moveMessagesWithUnlabelCallOnFolders_def move_forbidden_def)

theorem collections_untouched_witness:
  "MoveMessages False (sample_api []) [''1''] AllMailLabel TrashLabel sample_conn = (Inl ErrOperationNotAllowed, sample_conn)"
  using collections_untouched[of AllMailLabel "sample_api []" "[''1'']" sample_conn False TrashLabel]
  by (simp add: isAllMailOrScheduled_def)

subsection \<open>Creating mailboxes\<close>

text \<open>
  Creating a mailbox asks the API at most once and keeps the label map in step. A folder below others is requested
  under a parent that the map knows by that very path, with the last component as its name; without such a
  parent, and for a nested label or a name outside the two prefixes, the client gets an error and nothing is
  requested. What the API created is in the map under its ID afterwards.
\<close>

theorem CreateMailbox_outcome:
  assumes "CreateMailbox A name s = (res, s')"
  shows "case res of
       Inl ErrOperationNotAllowed \<Rightarrow> s' = s
     | Inl _ \<Rightarrow> (\<exists>c. s' = record_call c s)
     | Inr mb \<Rightarrow> (\<exists>n t p label. cn_calls s' = cn_calls s @ [CallCreateLabel n t p] \<and> k_CreateLabel A n t p = Inr label \<and>
         n = last name \<and> mb = connector_mailbox label \<and> cn_labels s' = SetLabel (l_ID label) label (cn_labels s) \<and>
         ((t = LabelTypeLabel \<and> p = noParent \<and> name = [labelPrefix, n]) \<or>
          (t = LabelTypeFolder \<and> p = noParent \<and> name = [folderPrefix, n]) \<or>
          (t = LabelTypeFolder \<and> length name > 2 \<and> hd name = folderPrefix \<and>
             (\<exists>parent \<in> set (GetLabels (cn_labels s)). l_ID parent = p \<and> l_Path parent = butlast (tl name)))))"
proof -
  consider (bad) "res = Inl ErrOperationNotAllowed" "s' = s"
    | (folder) rest where "name = folderPrefix # rest" "rest \<noteq> []" "createFolder A rest s = (res, s')"
    | (label) n where "name = [labelPrefix, n]" "createLabel A [n] s = (res, s')"
  proof (cases name)
    case (Cons x rest)
    then show ?thesis
      using assms bad folder[of rest] label
      by (cases rest; cases "tl rest") (auto simp: CreateMailbox_def createLabel_def split: if_splits)
  qed (use assms bad in \<open>auto simp: CreateMailbox_def\<close>)
  then show ?thesis
  proof cases
    case bad
    then show ?thesis by simp
  next
    case (label n)
    then show ?thesis by (cases "k_CreateLabel A n LabelTypeLabel noParent") (auto simp: createLabel_def)
  next
    case (folder rest)
    show ?thesis
    proof (cases "parent_of rest (cn_labels s)")
      case None
      then show ?thesis using folder by (auto simp: createFolder_def)
    next
      case (Some p)
      have p: "(p = noParent \<and> rest = [last rest]) \<or>
         (length rest > 1 \<and> (\<exists>parent \<in> set (GetLabels (cn_labels s)). l_ID parent = p \<and> l_Path parent = butlast rest))"
      proof (cases "length rest > 1")
        case True
        then obtain l where "find (\<lambda>l. l_Path l = butlast rest) (GetLabels (cn_labels s)) = Some l" "p = l_ID l"
          using Some by (auto simp: parent_of_def find_parent_def Let_def split: if_splits option.splits)
        then show ?thesis using True find_SomeD by fastforce
      next
        case False
        then show ?thesis using Some folder(2) by (cases rest) (auto simp: parent_of_def)
      qed
      show ?thesis
      proof (cases "k_CreateLabel A (last rest) LabelTypeFolder p")
        case (Inl e)
        then show ?thesis using folder Some by (auto simp: createFolder_def)
      next
        case (Inr label)
        then show ?thesis using folder Some p by (auto simp: createFolder_def)
      qed
    qed
  qed
qed

theorem CreateMailbox_outcome_witness:
  "cn_calls (snd (CreateMailbox
       (sample_api []\<lparr>k_CreateLabel := (\<lambda>n t p. Inr \<lparr>l_ID = LabelID ''new'', l_ParentID = p, l_Name = n, l_Path = [''a'', n], l_Type = t, l_Color = ''''\<rparr>)\<rparr>)
       [folderPrefix, ''a'', ''b'']
       (sample_conn\<lparr>cn_labels := [(LabelID ''1'', sample_label (LabelID ''1'') ''a'' LabelTypeFolder)]\<rparr>))) =
     [CallCreateLabel ''b'' LabelTypeFolder (LabelID ''1'')]"
proof -
  let ?A = "sample_api []\<lparr>k_CreateLabel := (\<lambda>n t p. Inr \<lparr>l_ID = LabelID ''new'', l_ParentID = p, l_Name = n, l_Path = [''a'', n], l_Type = t, l_Color = ''''\<rparr>)\<rparr>"
  let ?s = "sample_conn\<lparr>cn_labels := [(LabelID ''1'', sample_label (LabelID ''1'') ''a'' LabelTypeFolder)]\<rparr>"
  obtain res s' where r: "CreateMailbox ?A [folderPrefix, ''a'', ''b''] ?s = (res, s')" by fastforce
  have "\<exists>mb. res = Inr mb"
    using r by (auto simp: CreateMailbox_def createFolder_def parent_of_def find_parent_def GetLabels_def sample_label_def noParent_def Let_def)
  then obtain mb where mb: "res = Inr mb" by blast
  show ?thesis
    using CreateMailbox_outcome[OF r] r mb
    by (auto simp: sample_conn_def GetLabels_def sample_label_def folderPrefix_def labelPrefix_def)
qed

subsection \<open>The repair of mailbox names\<close>

text \<open>The names that the repair aims at.\<close>

definition prefixed :: "labelMap \<Rightarrow> labelID \<times> string list \<Rightarrow> bool" where
  "prefixed rd m =
     (case Option.bind (GetLabel (fst m) rd) fix_prefix of None \<Rightarrow> True | Some prefix \<Rightarrow> snd m \<noteq> [] \<and> hd (snd m) = prefix)"

lemma fix_id:
  "list_all (prefixed rd) mboxes \<Longrightarrow> fixGODT3003Labels patch rd mboxes = Some (Inr False, mboxes)"
proof (induction mboxes)
  case (Cons m mboxes)
  obtain i n where m: "m = (i, n)" by fastforce
  from Cons show ?case
    by (cases "GetLabel i rd"; cases n) (auto simp: m prefixed_def Let_def split: option.splits)
qed simp

text \<open>
  A successful repair leaves every folder's and every label's mailbox under its prefix, renames only mailboxes
  that were not and only by putting the prefix in front, and reports a change exactly if it made one; repairing
  again changes nothing.
\<close>

theorem fix_labels_idempotent:
  assumes "fixGODT3003Labels patch rd mboxes = Some (Inr applied, t)"
  shows "list_all (prefixed rd) t \<and>
     list_all2 (\<lambda>m m'. fst m' = fst m \<and>
       (if prefixed rd m then snd m' = snd m else Option.bind (GetLabel (fst m) rd) fix_prefix = Some (hd (snd m')) \<and> tl (snd m') = snd m)) mboxes t \<and>
     (applied \<longleftrightarrow> t \<noteq> mboxes) \<and> fixGODT3003Labels patch' rd t = Some (Inr False, t)"
proof -
  have "list_all (prefixed rd) t \<and>
     list_all2 (\<lambda>m m'. fst m' = fst m \<and>
       (if prefixed rd m then snd m' = snd m else Option.bind (GetLabel (fst m) rd) fix_prefix = Some (hd (snd m')) \<and> tl (snd m') = snd m)) mboxes t \<and>
     (applied \<longleftrightarrow> t \<noteq> mboxes)"
    using assms
  proof (induction mboxes arbitrary: applied t)
    case (Cons m mboxes)
    obtain i n where m: "m = (i, n)" by fastforce
    show ?case
    proof (cases "prefixed rd m")
      case True
      then have "fixGODT3003Labels patch rd (m # mboxes) = map_option (\<lambda>(r, t). (r, m # t)) (fixGODT3003Labels patch rd mboxes)"
        by (cases "GetLabel i rd"; cases n) (auto simp: m prefixed_def Let_def split: option.splits)
      then obtain t' where "fixGODT3003Labels patch rd mboxes = Some (Inr applied, t')" "t = m # t'"
        using Cons.prems by (cases "fixGODT3003Labels patch rd mboxes") auto
      then show ?thesis using Cons.IH True by simp
    next
      case False
      then obtain lbl prefix where l: "GetLabel i rd = Some lbl" "fix_prefix lbl = Some prefix" "n = [] \<or> hd n \<noteq> prefix"
        by (cases "GetLabel i rd") (auto simp: m prefixed_def split: option.splits)
      then obtain t' b where t': "fixGODT3003Labels patch rd mboxes = Some (Inr b, t')" "t = (i, prefix # n) # t'" "applied"
        using Cons.prems by (cases n) (auto simp: m Let_def map_sum_id_Inr split: option.splits if_splits)
      have "prefixed rd (i, prefix # n)" using l by (simp add: prefixed_def)
      then show ?thesis using Cons.IH[OF t'(1)] t'(2,3) l False by (simp add: m)
    qed
  qed simp
  then show ?thesis using fix_id[of rd t patch'] by blast
qed

theorem fix_labels_idempotent_witness:
  "fixGODT3003Labels (\<lambda>i n. Some ''unused'') [(LabelID ''1'', sample_label (LabelID ''1'') ''a'' LabelTypeFolder)] [(LabelID ''1'', [''Folders'', ''a''])] =
     Some (Inr False, [(LabelID ''1'', [''Folders'', ''a''])])"
proof -
  have "fixGODT3003Labels (\<lambda>i n. None) [(LabelID ''1'', sample_label (LabelID ''1'') ''a'' LabelTypeFolder)] [(LabelID ''1'', [''a''])] =
     Some (Inr True, [(LabelID ''1'', [''Folders'', ''a''])])"
    by (simp add: GetLabel_def fix_prefix_def sample_label_def folderPrefix_def)
  from fix_labels_idempotent[OF this] show ?thesis by blast
qed

subsection \<open>Creating and deleting\<close>

lemma created_label:
  assumes "CreateMailbox A name s = (Inr mb, s1)"
  shows "\<exists>label. mb_ID mb = l_ID label \<and> cn_labels s1 = SetLabel (l_ID label) label (cn_labels s)"
proof -
  have F: "createFolder A n s = (Inr mb, s1) \<Longrightarrow> \<exists>label. mb_ID mb = l_ID label \<and> cn_labels s1 = SetLabel (l_ID label) label (cn_labels s)" for n
    by (auto simp: createFolder_def connector_mailbox_def toIMAPMailbox_def Let_def split: option.splits sum.splits)
  have L: "createLabel A n s = (Inr mb, s1) \<Longrightarrow> \<exists>label. mb_ID mb = l_ID label \<and> cn_labels s1 = SetLabel (l_ID label) label (cn_labels s)" for n
    by (auto simp: createLabel_def connector_mailbox_def toIMAPMailbox_def Let_def split: list.splits sum.splits)
  show ?thesis using assms F L by (auto simp: CreateMailbox_def split: if_splits)
qed

text \<open>
  Deleting a mailbox undoes its creation: afterwards every label is looked up as it was before, provided the API had given
  the mailbox a new ID and accepts the deletion.
\<close>

theorem create_delete_roundtrip:
  assumes "CreateMailbox A name s = (Inr mb, s1)" and "GetLabel (mb_ID mb) (cn_labels s) = None"
    and "DeleteMailbox A' (mb_ID mb) s1 = (None, s2)"
  shows "GetLabel i (cn_labels s2) = GetLabel i (cn_labels s)"
proof -
  obtain label where l: "mb_ID mb = l_ID label" "cn_labels s1 = SetLabel (l_ID label) label (cn_labels s)"
    using created_label[OF assms(1)] by blast
  have "cn_labels s2 = Delete (l_ID label) (cn_labels s1)"
    using assms(3) l(1) by (auto simp: DeleteMailbox_def do_call_def split: option.splits)
  then show ?thesis using rwl.created_then_deleted[of "l_ID label" "cn_labels s" i label] assms(2) l by simp
qed

theorem create_delete_roundtrip_witness:
  "GetLabel (LabelID ''new'') (cn_labels (snd (DeleteMailbox (sample_api []) (LabelID ''new'') (snd (CreateMailbox
      (sample_api []\<lparr>k_CreateLabel := (\<lambda>n t p. Inr (sample_label (LabelID ''new'') n t))\<rparr>) [labelPrefix, ''n''] sample_conn))))) = None"
proof -
  let ?A = "sample_api []\<lparr>k_CreateLabel := (\<lambda>n t p. Inr (sample_label (LabelID ''new'') n t))\<rparr>"
  let ?l = "sample_label (LabelID ''new'') ''n'' LabelTypeLabel"
  obtain s1 where c: "CreateMailbox ?A [labelPrefix, ''n''] sample_conn = (Inr (connector_mailbox ?l), s1)"
    by (simp add: CreateMailbox_def createLabel_def folderPrefix_def labelPrefix_def Let_def)
  have i: "mb_ID (connector_mailbox ?l) = LabelID ''new''" by (simp add: connector_mailbox_def toIMAPMailbox_def sample_label_def)
  have n: "GetLabel (LabelID ''new'') (cn_labels sample_conn) = None" by (simp add: sample_conn_def GetLabel_def)
  obtain s2 where d: "DeleteMailbox (sample_api []) (LabelID ''new'') s1 = (None, s2)"
    by (simp add: DeleteMailbox_def do_call_def sample_api_def)
  have "GetLabel (LabelID ''new'') (cn_labels s2) = GetLabel (LabelID ''new'') (cn_labels sample_conn)"
    by (rule create_delete_roundtrip[OF c, unfolded i, OF n d])
  then show ?thesis using c d n by simp
qed

end
