(* ===== verification/Imap_Import.thy ===== *)
theory Imap_Import
  imports Imap_Connector Smtp_Send
begin

section \<open>The IMAP connector: storing messages\<close>

text \<open>
  Models how a message that a client appends to a mailbox is stored: \<^verbatim>\<open>CreateMessage\<close>, \<^verbatim>\<open>importMessage\<close>,
  \<^verbatim>\<open>createDraftWithParser\<close> and the choice of the address it is stored for (\<^verbatim>\<open>connector.go\<close>, \<^verbatim>\<open>utils.go\<close> and
  \<^verbatim>\<open>helpers.go\<close> of \<^verbatim>\<open>internal/services/imapservice\<close>). The message parser and builder, the key rings and the API are
  an environment; requests that change something are returned in order.
\<close>

subsection \<open>Flags and metadata\<close>

definition BuildFlagSetFromMessageMetadata :: "MsgMeta \<Rightarrow> flag list" where
  "BuildFlagSetFromMessageMetadata m =
     (if mm_Seen m then [FlagSeen] else []) @
     (if mm_Starred m then [FlagFlagged] else []) @
     (if mm_IsDraft m then [FlagDraft] else []) @
     (if mm_IsRepliedAll m \<or> mm_IsReplied m then [FlagAnswered] else []) @
     (if mm_IsForwarded m then [FlagsForward] else [])"

record IMAPMessage =
  im_ID :: string
  im_Flags :: "flag list"
  im_Date :: int

text \<open>\<open>now\<close> is the current time, in seconds like the message's own.\<close>

definition toIMAPMessage :: "int \<Rightarrow> MsgMeta \<Rightarrow> IMAPMessage" where
  "toIMAPMessage now m =
     \<lparr>im_ID = mm_ID m, im_Flags = BuildFlagSetFromMessageMetadata m, im_Date = (if mm_Time m > 0 then mm_Time m else now)\<rparr>"

subsection \<open>Environment\<close>

datatype msg_flag = MessageFlagReceived | MessageFlagSent | MessageFlagReplied

record ImportReq =
  ir_AddressID :: string
  ir_LabelIDs :: "labelID list"
  ir_Unread :: bool
  ir_Flags :: "msg_flag list"
  ir_Message :: string

datatype import_call = CallImport ImportReq | CallCreateDraft DraftTemplate | CallUpload CreateAttachmentReq

text \<open>
  \<open>i_RootHeader\<close> is the header of the root part, if the message has one with at least one field; an absent field reads as empty.
  \<open>i_AttachEmptyText\<close> is \<open>None\<close> if the message has a text part, otherwise the message with an empty text part, written out
  again. \<open>i_Import\<close> has two stages, the preparation and the collection of the results. \<open>i_SizeExceeded\<close> recognises
  \<^verbatim>\<open>ErrImportSizeExceeded\<close> in an error's chain.
\<close>

record ('p, 'kr, 'full, 'e) import_env =
  i_LiteralHeader :: "string \<Rightarrow> 'e + (string \<Rightarrow> string option)"
  i_ParseAddressList :: "string \<Rightarrow> 'e + string list"
  i_Hash :: "string \<Rightarrow> 'e + string"
  i_HasReceived :: "string \<Rightarrow> 'e + bool"
  i_Parse :: "string \<Rightarrow> 'e + 'p"
  i_RootHeader :: "'p \<Rightarrow> (string \<Rightarrow> string) option"
  i_AttachEmptyText :: "'p \<Rightarrow> ('e + string) option"
  i_ParseMessage :: "'p \<Rightarrow> 'e + Message"
  i_FirstKey :: "'kr \<Rightarrow> 'e + 'kr"
  i_Import :: "'kr \<Rightarrow> ImportReq \<Rightarrow> 'e + ('e + string list)"
  i_CreateDraft :: "'kr \<Rightarrow> DraftTemplate \<Rightarrow> 'e + string"
  i_UploadAttachment :: "'kr \<Rightarrow> CreateAttachmentReq \<Rightarrow> 'e option"
  i_GetFullMessage :: "string \<Rightarrow> 'e + 'full"
  i_Metadata :: "'full \<Rightarrow> MsgMeta"
  i_Build :: "'kr \<Rightarrow> 'full \<Rightarrow> 'e + string"
  i_SizeExceeded :: "'e \<Rightarrow> bool"

datatype addr_err = NoAccountAddress | NoPrimaryAddress

datatype 'e import_err =
    ImportNotAllowed
  | RetrieveAddressesErr 'e
  | MessageHashErr 'e
  | CheckSendHashErr ctx_error
  | FetchMessageErr 'e
  | BuildMessageErr 'e
  | ParseHeaderErr 'e
  | ParseLiteralErr 'e
  | ImportAddressErr addr_err
  | AddressKeyNotFound
  | UnlockErr 'e
  | PrimaryKeyErr 'e
  | DraftParseErr 'e
  | DraftCreateErr 'e
  | DraftAttachmentErr 'e
  | WriteBodyErr 'e
  | PrepareImportErr 'e
  | CollectImportErr 'e
  | ImportPanic
  | ErrMessageSizeExceedsLimits "'e import_err"

fun cause :: "'e import_err \<Rightarrow> 'e option" where
  "cause (RetrieveAddressesErr e) = Some e"
| "cause (MessageHashErr e) = Some e"
| "cause (FetchMessageErr e) = Some e"
| "cause (BuildMessageErr e) = Some e"
| "cause (ParseHeaderErr e) = Some e"
| "cause (ParseLiteralErr e) = Some e"
| "cause (UnlockErr e) = Some e"
| "cause (PrimaryKeyErr e) = Some e"
| "cause (DraftParseErr e) = Some e"
| "cause (DraftCreateErr e) = Some e"
| "cause (DraftAttachmentErr e) = Some e"
| "cause (WriteBodyErr e) = Some e"
| "cause (PrepareImportErr e) = Some e"
| "cause (CollectImportErr e) = Some e"
| "cause _ = None"

subsection \<open>Addresses\<close>

definition stripPlusAlias :: "string \<Rightarrow> string" where
  "stripPlusAlias a =
     (case (index_of (CHR ''+'') a, index_of (CHR ''@'') a) of
        (Some iPlus, Some iAt) \<Rightarrow> if iPlus = 0 \<or> iAt = 0 \<or> iPlus \<ge> iAt then a else take iPlus a @ drop iAt a
      | _ \<Rightarrow> a)"

definition equalAddresses :: "string \<Rightarrow> string \<Rightarrow> bool" where
  "equalAddresses a b \<longleftrightarrow> EqualFold (stripPlusAlias a) (stripPlusAlias b)"

datatype sender_err = InvalidMessage | NoSender | InvalidSender | ErrNoSenderAddressMatch

definition getSenderProtonAddress ::
  "('p, 'kr, 'full, 'e) import_env \<Rightarrow> 'k State \<Rightarrow> 'p \<Rightarrow> sender_err + 'k Address" where
  "getSenderProtonAddress E ident p =
     (case i_RootHeader E p of
        None \<Rightarrow> Inl InvalidMessage
      | Some get \<Rightarrow>
          let addrField = (if get ''From'' = [] then get ''Sender'' else get ''From'')
          in if addrField = [] then Inl NoSender
             else case i_ParseAddressList E addrField of
                    Inl _ \<Rightarrow> Inl InvalidSender
                  | Inr [] \<Rightarrow> Inl InvalidSender
                  | Inr (addrStr # _) \<Rightarrow>
                      (case find (\<lambda>a. equalAddresses (a_Email a) addrStr) (AddressesSorted ident) of
                         None \<Rightarrow> Inl ErrNoSenderAddressMatch
                       | Some a \<Rightarrow> Inr a))"

definition default_import_address :: "'k State \<Rightarrow> string \<Rightarrow> addr_err + 'k Address" where
  "default_import_address ident i =
     (case GetAddrByID i ident of
        None \<Rightarrow> Inl NoAccountAddress
      | Some address \<Rightarrow>
          if a_Type address = AddressTypeExternal \<and> \<not> a_Send address
          then (case GetPrimaryAddr ident of None \<Rightarrow> Inl NoPrimaryAddress | Some a \<Rightarrow> Inr a)
          else Inr address)"

definition getImportAddress ::
  "('p, 'kr, 'full, 'e) import_env \<Rightarrow> 'k State \<Rightarrow> AddressMode \<Rightarrow> 'p \<Rightarrow> bool \<Rightarrow> string \<Rightarrow> addr_err + 'k Address" where
  "getImportAddress E ident mode p isDraft i =
     (case default_import_address ident i of
        Inl e \<Rightarrow> Inl e
      | Inr address \<Rightarrow>
          if mode \<noteq> AddressModeCombined then Inr address
          else case getSenderProtonAddress E ident p of
                 Inl _ \<Rightarrow> Inr address
               | Inr senderAddr \<Rightarrow>
                   if a_ID senderAddr = a_ID address then Inr address
                   else
                     let isSenderAddressDisabled = (\<not> a_Send senderAddr \<or> a_Status senderAddr \<noteq> AddressStatusEnabled);
                         isSenderExternalNonBYOE = (a_Type senderAddr = AddressTypeExternal \<and> \<not> a_Send senderAddr)
                     in if isSenderExternalNonBYOE \<or> isDraft \<and> isSenderAddressDisabled then Inr address else Inr senderAddr)"

subsection \<open>Drafts\<close>

definition draft_attachment :: "string \<Rightarrow> Attachment \<Rightarrow> CreateAttachmentReq" where
  "draft_attachment draftID att =
     \<lparr>ca_Filename = at_Name att, ca_MessageID = draftID, ca_MIMEType = at_MIMEType att,
      ca_Disposition = (if at_Disposition att = ''inline'' \<and> at_ContentID att \<noteq> [] then ''inline'' else ''attachment''),
      ca_ContentID = at_ContentID att, ca_Body = at_Data att\<rparr>"

fun upload_draft_attachments ::
  "('p, 'kr, 'full, 'e) import_env \<Rightarrow> 'kr \<Rightarrow> string \<Rightarrow> Attachment list \<Rightarrow> 'e import_err option \<times> import_call list" where
  "upload_draft_attachments E kr draftID [] = (None, [])"
| "upload_draft_attachments E kr draftID (att # atts) =
     (let req = draft_attachment draftID att
      in case i_UploadAttachment E kr req of
           Some e \<Rightarrow> (Some (DraftAttachmentErr e), [CallUpload req])
         | None \<Rightarrow> (let (r, calls) = upload_draft_attachments E kr draftID atts in (r, CallUpload req # calls)))"

definition draft_template :: "'k Address \<Rightarrow> string \<Rightarrow> Message \<Rightarrow> DraftTemplate" where
  "draft_template sender displayName m =
     \<lparr>dt_Subject = m_Subject m, dt_Body = (if m_RichBody m \<noteq> [] then m_RichBody m else m_PlainBody m), dt_MIMEType = m_MIMEType m,
      dt_Sender = Some \<lparr>ma_Name = displayName, ma_Address = a_Email sender\<rparr>,
      dt_ToList = m_ToList m, dt_CCList = m_CCList m, dt_BCCList = m_BCCList m, dt_ExternalID = m_ExternalID m\<rparr>"

text \<open>\<open>displayName\<close> gives the display name of an address.\<close>

definition createDraftWithParser ::
  "('p, 'kr, 'full, 'e) import_env \<Rightarrow> ('k Address \<Rightarrow> string) \<Rightarrow> 'p \<Rightarrow> 'kr \<Rightarrow> 'k Address \<Rightarrow> ('e import_err + string) \<times> import_call list" where
  "createDraftWithParser E displayName p kr sender =
     (case i_ParseMessage E p of
        Inl e \<Rightarrow> (Inl (DraftParseErr e), [])
      | Inr m \<Rightarrow>
          let template = draft_template sender (displayName sender) m
          in (case i_CreateDraft E kr template of
                Inl e \<Rightarrow> (Inl (DraftCreateErr e), [CallCreateDraft template])
              | Inr draftID \<Rightarrow>
                  (let (r, calls) = upload_draft_attachments E kr draftID (m_Attachments m)
                   in (case r of Some e \<Rightarrow> Inl e | None \<Rightarrow> Inr draftID, CallCreateDraft template # calls))))"

subsection \<open>Importing\<close>

text \<open>What is done with the key of the chosen address. The results of an import have one entry per message; without any the access to the first panics.\<close>

definition import_with_key ::
  "('p, 'kr, 'full, 'e) import_env \<Rightarrow> ('k Address \<Rightarrow> string) \<Rightarrow> int \<Rightarrow> 'p \<Rightarrow> 'k Address \<Rightarrow> bool \<Rightarrow> string \<Rightarrow> labelID list \<Rightarrow> msg_flag list \<Rightarrow> bool \<Rightarrow> 'kr \<Rightarrow>
     ('e import_err + IMAPMessage \<times> string) \<times> import_call list" where
  "import_with_key E displayName now p addr isDraft literal labelIDs flags unread addrKR =
     (case i_FirstKey E addrKR of
        Inl e \<Rightarrow> (Inl (PrimaryKeyErr e), [])
      | Inr primaryKey \<Rightarrow>
          let (r, calls) =
            (if isDraft then createDraftWithParser E displayName p primaryKey addr
             else case (case i_AttachEmptyText E p of None \<Rightarrow> Inr literal | Some w \<Rightarrow> w) of
                    Inl e \<Rightarrow> (Inl (WriteBodyErr e), [])
                  | Inr lit \<Rightarrow>
                      let req = \<lparr>ir_AddressID = a_ID addr, ir_LabelIDs = labelIDs, ir_Unread = unread, ir_Flags = flags, ir_Message = lit\<rparr>
                      in (case i_Import E primaryKey req of
                            Inl e \<Rightarrow> (Inl (PrepareImportErr e), [CallImport req])
                          | Inr (Inl e) \<Rightarrow> (Inl (CollectImportErr e), [CallImport req])
                          | Inr (Inr []) \<Rightarrow> (Inl ImportPanic, [CallImport req])
                          | Inr (Inr (mid # _)) \<Rightarrow> (Inr mid, [CallImport req])))
          in case r of
               Inl e \<Rightarrow> (Inl e, calls)
             | Inr messageID \<Rightarrow>
                 (case i_GetFullMessage E messageID of
                    Inl e \<Rightarrow> (Inl (FetchMessageErr e), calls)
                  | Inr full \<Rightarrow>
                      (case i_Build E primaryKey full of
                         Inl e \<Rightarrow> (Inl (BuildMessageErr e), calls)
                       | Inr built \<Rightarrow> (Inr (toIMAPMessage now (i_Metadata E full), built), calls))))"

text \<open>The account: identity, how its keys are unlocked, the connector's address and the address mode.\<close>

record ('k, 'w, 'kr, 'e) import_account =
  ia_ident :: "'k State"
  ia_unlock :: "'k \<Rightarrow> 'w \<Rightarrow> 'kr option \<Rightarrow> 'e + 'kr"
  ia_keyPass :: 'w
  ia_displayName :: "'k Address \<Rightarrow> string"
  ia_addrID :: string
  ia_mode :: AddressMode

definition with_addr_key ::
  "('k, 'w, 'kr, 'e) import_account \<Rightarrow> string \<Rightarrow> ('kr \<Rightarrow> ('e import_err + 'r) \<times> 'c list) \<Rightarrow> ('e import_err + 'r) \<times> 'c list" where
  "with_addr_key acc addrID f =
     (case WithAddrKR (ia_unlock acc) addrID (ia_keyPass acc) (\<lambda>_ addrKR. Inr (f addrKR)) (ia_ident acc) of
        Inl None \<Rightarrow> (Inl AddressKeyNotFound, [])
      | Inl (Some e) \<Rightarrow> (Inl (UnlockErr e), [])
      | Inr res \<Rightarrow> res)"

definition importMessage ::
  "('p, 'kr, 'full, 'e) import_env \<Rightarrow> ('k, 'w, 'kr, 'e) import_account \<Rightarrow> int \<Rightarrow> string \<Rightarrow> labelID list \<Rightarrow> msg_flag list \<Rightarrow> bool \<Rightarrow>
     ('e import_err + IMAPMessage \<times> string) \<times> import_call list" where
  "importMessage E acc now literal labelIDs flags unread =
     (case i_Parse E literal of
        Inl e \<Rightarrow> (Inl (ParseLiteralErr e), [])
      | Inr p \<Rightarrow>
          let isDraft = DraftsLabel \<in> set labelIDs
          in (case getImportAddress E (ia_ident acc) (ia_mode acc) p isDraft (ia_addrID acc) of
                Inl e \<Rightarrow> (Inl (ImportAddressErr e), [])
              | Inr addr \<Rightarrow>
                  with_addr_key acc (a_ID addr)
                    (import_with_key E (ia_displayName acc) now p addr isDraft literal labelIDs flags unread)))"

fun header_addresses ::
  "('p, 'kr, 'full, 'e) import_env \<Rightarrow> (string \<Rightarrow> string option) \<Rightarrow> string list \<Rightarrow> 'e + string list" where
  "header_addresses E header [] = Inr []"
| "header_addresses E header (f # fs) =
     (case header f of
        None \<Rightarrow> header_addresses E header fs
      | Some fieldAddr \<Rightarrow>
          (case i_ParseAddressList E fieldAddr of
             Inl e \<Rightarrow> Inl e
           | Inr addrs \<Rightarrow> map_sum id (\<lambda>rest. addrs @ rest) (header_addresses E header fs)))"

definition getLiteralToList :: "('p, 'kr, 'full, 'e) import_env \<Rightarrow> string \<Rightarrow> 'e + string list" where
  "getLiteralToList E literal =
     (case i_LiteralHeader E literal of
        Inl e \<Rightarrow> Inl e
      | Inr header \<Rightarrow> header_addresses E header [''To'', ''Cc'', ''Bcc''])"

text \<open>The message as it is on the server, for a message that was sent already, and for a client that reads a message.\<close>

definition server_message ::
  "('p, 'kr, 'full, 'e) import_env \<Rightarrow> ('k, 'w, 'kr, 'e) import_account \<Rightarrow> string \<Rightarrow> 'e import_err + 'full \<times> string" where
  "server_message E acc messageID =
     (case i_GetFullMessage E messageID of
        Inl e \<Rightarrow> Inl (FetchMessageErr e)
      | Inr full \<Rightarrow>
          fst (with_addr_key acc (mm_AddressID (i_Metadata E full))
            (\<lambda>addrKR. (case i_Build E addrKR full of Inl e \<Rightarrow> Inl (BuildMessageErr e) | Inr l \<Rightarrow> Inr (full, l), [] :: unit list))))"

definition GetMessageLiteral ::
  "('p, 'kr, 'full, 'e) import_env \<Rightarrow> ('k, 'w, 'kr, 'e) import_account \<Rightarrow> string \<Rightarrow> 'e import_err + string" where
  "GetMessageLiteral E acc messageID = map_sum id snd (server_message E acc messageID)"

definition want_flags :: "labelID \<Rightarrow> bool \<Rightarrow> msg_flag list" where
  "want_flags mailboxID hasReceived =
     (if mailboxID = InboxLabel then [MessageFlagReceived]
      else if mailboxID = SentLabel then [MessageFlagSent]
      else if hasReceived then [MessageFlagReceived]
      else [MessageFlagSent])"

text \<open>The import library's error for an oversized message becomes the IMAP library's.\<close>

definition remap_size :: "('p, 'kr, 'full, 'e) import_env \<Rightarrow> 'e import_err \<Rightarrow> 'e import_err" where
  "remap_size E e =
     (case cause e of
        None \<Rightarrow> e
      | Some c \<Rightarrow> if i_SizeExceeded E c then ErrMessageSizeExceedsLimits e else e)"

text \<open>\<open>hasEntry\<close> is the answer of the send recorder's \<^verbatim>\<open>HasEntryWait\<close>: whether the message was sent recently, and its ID.\<close>

definition CreateMessage ::
  "('p, 'kr, 'full, 'e) import_env \<Rightarrow> ('k, 'w, 'kr, 'e) import_account \<Rightarrow> (string \<Rightarrow> string list \<Rightarrow> ctx_error + string option) \<Rightarrow> int \<Rightarrow>
     labelID \<Rightarrow> string \<Rightarrow> flag list \<Rightarrow> ('e import_err + IMAPMessage \<times> string) \<times> import_call list" where
  "CreateMessage E acc hasEntry now mailboxID literal flags =
     (if mailboxID = AllMailLabel then (Inl ImportNotAllowed, [])
      else case getLiteralToList E literal of
        Inl e \<Rightarrow> (Inl (RetrieveAddressesErr e), [])
      | Inr tos \<Rightarrow>
      (case i_Hash E literal of
        Inl e \<Rightarrow> (Inl (MessageHashErr e), [])
      | Inr hash \<Rightarrow>
      (case hasEntry hash tos of
        Inl e \<Rightarrow> (Inl (CheckSendHashErr e), [])
      | Inr (Some messageID) \<Rightarrow>
          (map_sum id (\<lambda>(full, l). (toIMAPMessage now (i_Metadata E full), l)) (server_message E acc messageID), [])
      | Inr None \<Rightarrow>
          let wantLabelIDs = mailboxID # (if FlagFlagged \<in> set flags then [StarredLabel] else []);
              replied = (if FlagAnswered \<in> set flags then [MessageFlagReplied] else [])
          in (case (if mailboxID \<noteq> DraftsLabel
                   then map_sum ParseHeaderErr (\<lambda>received. (want_flags mailboxID received, FlagSeen \<notin> set flags)) (i_HasReceived E literal)
                   else Inr ([], False)) of
               Inl e \<Rightarrow> (Inl e, [])
             | Inr (wantFlags, unread) \<Rightarrow>
                 let (res, calls) = importMessage E acc now literal wantLabelIDs (wantFlags @ replied) unread
                 in (map_sum (remap_size E) id res, calls)))))"

subsection \<open>A sent message is not stored again\<close>

lemma importMessage_cases:
  assumes "importMessage E acc now literal labelIDs flags unread = (res, calls)" "calls \<noteq> []"
  obtains p addr kr where "i_Parse E literal = Inr p"
    "getImportAddress E (ia_ident acc) (ia_mode acc) p (DraftsLabel \<in> set labelIDs) (ia_addrID acc) = Inr addr"
    "import_with_key E (ia_displayName acc) now p addr (DraftsLabel \<in> set labelIDs) literal labelIDs flags unread kr = (res, calls)"
proof -
  obtain p where p: "i_Parse E literal = Inr p" using assms by (auto simp: importMessage_def split: sum.splits)
  obtain addr where a: "getImportAddress E (ia_ident acc) (ia_mode acc) p (DraftsLabel \<in> set labelIDs) (ia_addrID acc) = Inr addr"
    using assms p by (auto simp: importMessage_def Let_def split: sum.splits)
  have w: "with_addr_key acc (a_ID addr)
     (import_with_key E (ia_displayName acc) now p addr (DraftsLabel \<in> set labelIDs) literal labelIDs flags unread) = (res, calls)"
    using assms(1) p a by (simp add: importMessage_def)
  have "\<exists>kr. import_with_key E (ia_displayName acc) now p addr (DraftsLabel \<in> set labelIDs) literal labelIDs flags unread kr = (res, calls)"
    using w assms(2) unfolding with_addr_key_def WithAddrKR_def
    by (auto split: option.splits sum.splits)
  then show ?thesis using that p a by blast
qed

lemma import_with_key_calls:
  assumes "import_with_key E dn now p addr isDraft literal labelIDs flags unread kr = (res, calls)" "CallImport req \<in> set calls"
  shows "\<not> isDraft \<and> calls = [CallImport req] \<and> ir_AddressID req = a_ID addr \<and> ir_LabelIDs req = labelIDs \<and>
     ir_Unread req = unread \<and> ir_Flags req = flags"
proof -
  have up: "CallImport req \<notin> set (snd (upload_draft_attachments E k d atts))" for k d atts
    by (induction atts) (auto simp: Let_def split_beta split: option.splits)
  have d: "CallImport req \<notin> set (snd (createDraftWithParser E dn p k addr))" for k
    using up by (auto simp: createDraftWithParser_def Let_def split_beta split: sum.splits)
  obtain k where k: "i_FirstKey E kr = Inr k" using assms by (auto simp: import_with_key_def split: sum.splits)
  have "\<not> isDraft"
    using assms d[of k] k by (auto simp: import_with_key_def Let_def split_beta split: sum.splits if_splits)
  moreover obtain lit where "(case i_AttachEmptyText E p of None \<Rightarrow> Inr literal | Some w \<Rightarrow> w) = Inr lit"
    using assms k calculation by (auto simp: import_with_key_def Let_def split: sum.splits)
  ultimately show ?thesis
    using assms k
    by (auto simp: import_with_key_def Let_def split_beta split: sum.splits list.splits if_splits)
qed

text \<open>
  Property C26. Appending a message changes something on the server only if it was not sent recently: the send recorder was asked with
  the hash and the recipients of the literal and knew nothing of it. What is then imported goes into the mailbox itself, starred if the
  client flagged it, unread unless the client has seen it, as sent or received by the mailbox or else by its
  \<^verbatim>\<open>Received\<close> header; the collection of all messages takes none, and drafts are never imported but created as drafts.
\<close>

theorem CreateMessage_request:
  assumes "CreateMessage E acc hasEntry now mbox literal flags = (res, calls)" "calls \<noteq> []"
  shows "mbox \<noteq> AllMailLabel \<and>
     (\<exists>tos hash. getLiteralToList E literal = Inr tos \<and> i_Hash E literal = Inr hash \<and> hasEntry hash tos = Inr None) \<and>
     (\<forall>req. CallImport req \<in> set calls \<longrightarrow>
        mbox \<noteq> DraftsLabel \<and> calls = [CallImport req] \<and>
        ir_LabelIDs req = mbox # (if FlagFlagged \<in> set flags then [StarredLabel] else []) \<and>
        ir_Unread req = (FlagSeen \<notin> set flags) \<and>
        (\<exists>received. i_HasReceived E literal = Inr received \<and>
           ir_Flags req = want_flags mbox received @ (if FlagAnswered \<in> set flags then [MessageFlagReplied] else [])))"
proof -
  define labels where "labels = mbox # (if FlagFlagged \<in> set flags then [StarredLabel] else [])"
  define replied where "replied = (if FlagAnswered \<in> set flags then [MessageFlagReplied] else [])"
  have mbox: "mbox \<noteq> AllMailLabel" using assms by (auto simp: CreateMessage_def)
  obtain tos where tos: "getLiteralToList E literal = Inr tos"
    using assms mbox by (auto simp: CreateMessage_def split: sum.splits)
  obtain hash where hash: "i_Hash E literal = Inr hash"
    using assms mbox tos by (auto simp: CreateMessage_def split: sum.splits)
  have none: "hasEntry hash tos = Inr None"
    using assms mbox tos hash by (auto simp: CreateMessage_def split: sum.splits option.splits)
  note unf = CreateMessage_def[of E acc hasEntry now mbox literal flags, unfolded labels_def[symmetric] replied_def[symmetric]]
  note eq = assms(1)[unfolded unf]
  have imp: "mbox \<noteq> DraftsLabel \<and> calls = [CallImport req] \<and> ir_LabelIDs req = labels \<and> ir_Unread req = (FlagSeen \<notin> set flags) \<and>
      (\<exists>received. i_HasReceived E literal = Inr received \<and> ir_Flags req = want_flags mbox received @ replied)"
    if req: "CallImport req \<in> set calls" for req
  proof (cases "mbox = DraftsLabel")
    case True
    obtain r where r: "importMessage E acc now literal labels replied False = (r, calls)"
      using eq mbox tos hash none True by (cases "importMessage E acc now literal labels replied False") auto
    have "DraftsLabel \<in> set labels" using True by (simp add: labels_def)
    with importMessage_cases[OF r assms(2)] import_with_key_calls req show ?thesis by metis
  next
    case False
    obtain rec where rec: "i_HasReceived E literal = Inr rec"
      using eq assms(2) mbox tos hash none False by (cases "i_HasReceived E literal") auto
    obtain r where r: "importMessage E acc now literal labels (want_flags mbox rec @ replied) (FlagSeen \<notin> set flags) = (r, calls)"
      using eq mbox tos hash none False rec
      by (cases "importMessage E acc now literal labels (want_flags mbox rec @ replied) (FlagSeen \<notin> set flags)") auto
    from importMessage_cases[OF r assms(2)] import_with_key_calls req show ?thesis using False rec by metis
  qed
  show ?thesis using mbox tos hash none imp unfolding labels_def replied_def by blast
qed

subsection \<open>The address a message is stored for\<close>

lemma stripPlusAlias_alias:
  assumes "CHR ''+'' \<notin> set u" "CHR ''@'' \<notin> set u" "u \<noteq> []" "CHR ''@'' \<notin> set alias"
  shows "stripPlusAlias (u @ CHR ''+'' # alias @ CHR ''@'' # d) = u @ CHR ''@'' # d"
proof -
  have idx: "index_of c (xs @ c # ys) = Some (length xs)" if "c \<notin> set xs" for c :: char and xs ys
    using that by (induction xs) auto
  have "index_of (CHR ''+'') (u @ CHR ''+'' # alias @ CHR ''@'' # d) = Some (length u)" by (rule idx[OF assms(1)])
  moreover have "index_of (CHR ''@'') ((u @ CHR ''+'' # alias) @ CHR ''@'' # d) = Some (length (u @ CHR ''+'' # alias))"
    using assms(2,4) by (intro idx) auto
  ultimately show ?thesis using assms(3) by (simp add: stripPlusAlias_def)
qed

text \<open>
  The address a message is stored for. In split mode it is the connector's own address, or the primary one if
  that address is external and cannot send. In combined mode it may instead be the account's own address that the message names as its sender, plus
  aliases and case aside, but never an external one that cannot send, and for a draft never one that cannot send or is
  disabled. It fails only if the account has lost the address.
\<close>

theorem import_address_choice:
  assumes "getImportAddress E ident mode p isDraft i = r"
  shows "case r of
      Inl e \<Rightarrow> GetAddrByID i ident = None \<or> GetPrimaryAddr ident = None
    | Inr a \<Rightarrow>
        default_import_address ident i = Inr a \<or>
        (mode = AddressModeCombined \<and> a \<in> set (AddressesSorted ident) \<and>
         \<not> (a_Type a = AddressTypeExternal \<and> \<not> a_Send a) \<and> (isDraft \<longrightarrow> a_Send a \<and> a_Status a = AddressStatusEnabled) \<and>
         (\<exists>get addrs. i_RootHeader E p = Some get \<and>
            i_ParseAddressList E (if get ''From'' = [] then get ''Sender'' else get ''From'') = Inr addrs \<and> addrs \<noteq> [] \<and>
            equalAddresses (a_Email a) (hd addrs)))"
proof (cases "default_import_address ident i")
  case (Inl e)
  then have "GetAddrByID i ident = None \<or> GetPrimaryAddr ident = None"
    by (auto simp: default_import_address_def split: option.splits if_splits)
  then show ?thesis using assms Inl by (auto simp: getImportAddress_def)
next
  case (Inr base)
  show ?thesis
  proof (cases "mode = AddressModeCombined")
    case False
    then show ?thesis using assms Inr by (auto simp: getImportAddress_def)
  next
    case comb: True
    show ?thesis
    proof (cases "getSenderProtonAddress E ident p")
      case (Inl e)
      then show ?thesis using assms Inr comb by (auto simp: getImportAddress_def)
    next
      case (Inr s)
      obtain get where get: "i_RootHeader E p = Some get"
        using Inr by (auto simp: getSenderProtonAddress_def split: option.splits)
      define fld where "fld = (if get ''From'' = [] then get ''Sender'' else get ''From'')"
      have f: "fld \<noteq> []" using Inr get by (auto simp: getSenderProtonAddress_def fld_def Let_def split: if_splits)
      then obtain addr rest where ads: "i_ParseAddressList E fld = Inr (addr # rest)"
        using Inr get by (auto simp: getSenderProtonAddress_def fld_def[symmetric] Let_def split: sum.splits list.splits)
      then have "find (\<lambda>a. equalAddresses (a_Email a) addr) (AddressesSorted ident) = Some s"
        using Inr get f by (auto simp: getSenderProtonAddress_def fld_def[symmetric] Let_def split: option.splits)
      from find_SomeD[OF this] have s: "equalAddresses (a_Email s) addr" "s \<in> set (AddressesSorted ident)" by simp_all
      have r: "r = Inr base \<or> (r = Inr s \<and> \<not> (a_Type s = AddressTypeExternal \<and> \<not> a_Send s) \<and>
         (isDraft \<longrightarrow> a_Send s \<and> a_Status s = AddressStatusEnabled))"
        using assms \<open>default_import_address ident i = Inr base\<close> comb Inr by (auto simp: getImportAddress_def Let_def split: if_splits)
      have "i_ParseAddressList E (if get ''From'' = [] then get ''Sender'' else get ''From'') = Inr (addr # rest)"
        using ads by (simp only: fld_def)
      then show ?thesis using r comb s get \<open>default_import_address ident i = Inr base\<close> by (elim disjE) (force+)
    qed
  qed
qed

definition sample_import :: "(unit, unit, unit, string) import_env" where
  "sample_import =
     \<lparr>i_LiteralHeader = (\<lambda>l. Inr (\<lambda>f. None)), i_ParseAddressList = (\<lambda>s. Inr [s]), i_Hash = (\<lambda>l. Inr ''h''), i_HasReceived = (\<lambda>l. Inr False),
      i_Parse = (\<lambda>l. Inr ()), i_RootHeader = (\<lambda>p. Some (\<lambda>f. if f = ''From'' then ''me+x@pm.me'' else '''')), i_AttachEmptyText = (\<lambda>p. None),
      i_ParseMessage = (\<lambda>p. Inl ''''), i_FirstKey = (\<lambda>k. Inr k), i_Import = (\<lambda>k r. Inr (Inr [''m''])), i_CreateDraft = (\<lambda>k t. Inl ''''),
      i_UploadAttachment = (\<lambda>k r. None), i_GetFullMessage = (\<lambda>i. Inr ()), i_Metadata = (\<lambda>f. sample_meta ''m'' [InboxLabel]),
      i_Build = (\<lambda>k f. Inr ''built''), i_SizeExceeded = (\<lambda>e. False)\<rparr>"

definition sample_account :: "(unit, unit, unit, string) import_account" where
  "sample_account =
     \<lparr>ia_ident = \<lparr>AddressesSorted = [ex_addr ''1'' ''me@pm.me'' AddressStatusEnabled 0, ex_addr ''2'' ''alt@pm.me'' AddressStatusEnabled 1],
                  Addresses = [''1'' \<mapsto> ex_addr ''1'' ''me@pm.me'' AddressStatusEnabled 0, ''2'' \<mapsto> ex_addr ''2'' ''alt@pm.me'' AddressStatusEnabled 1],
                  st_User = ex_user\<rparr>,
      ia_unlock = (\<lambda>k w u. Inr ()), ia_keyPass = (), ia_displayName = (\<lambda>a. ''''), ia_addrID = ''2'', ia_mode = AddressModeCombined\<rparr>"

lemma sample_address:
  "getImportAddress sample_import (ia_ident sample_account) AddressModeCombined () False ''2'' = Inr (ex_addr ''1'' ''me@pm.me'' AddressStatusEnabled 0)"
  by (simp add: getImportAddress_def default_import_address_def sample_account_def GetAddrByID_def ex_addr_def getSenderProtonAddress_def
      sample_import_def equalAddresses_def stripPlusAlias_def EqualFold_def to_lower_def Let_def)

theorem import_address_choice_witness:
  "ex_addr ''1'' ''me@pm.me'' AddressStatusEnabled 0 \<in> set (AddressesSorted (ia_ident sample_account)) \<and>
     equalAddresses ''me@pm.me'' ''me+x@pm.me''"
  using import_address_choice[OF sample_address]
  by (auto simp: default_import_address_def sample_account_def GetAddrByID_def ex_addr_def sample_import_def)

lemma sample_append:
  "CreateMessage sample_import sample_account (\<lambda>h t. Inr None) 5 ArchiveLabel ''lit'' [FlagFlagged] =
     (Inr (toIMAPMessage 5 (sample_meta ''m'' [InboxLabel]), ''built''),
      [CallImport \<lparr>ir_AddressID = ''1'', ir_LabelIDs = [ArchiveLabel, StarredLabel], ir_Unread = True, ir_Flags = [MessageFlagSent], ir_Message = ''lit''\<rparr>])"
proof -
  have a: "getImportAddress sample_import (ia_ident sample_account) (ia_mode sample_account) () False (ia_addrID sample_account) =
      Inr (ex_addr ''1'' ''me@pm.me'' AddressStatusEnabled 0)"
    using sample_address by (simp add: sample_account_def)
  have i: "importMessage sample_import sample_account 5 ''lit'' [ArchiveLabel, StarredLabel] [MessageFlagSent] True =
     (Inr (toIMAPMessage 5 (sample_meta ''m'' [InboxLabel]), ''built''),
      [CallImport \<lparr>ir_AddressID = ''1'', ir_LabelIDs = [ArchiveLabel, StarredLabel], ir_Unread = True, ir_Flags = [MessageFlagSent], ir_Message = ''lit''\<rparr>])"
    using a by (simp add: importMessage_def with_addr_key_def WithAddrKR_def sample_import_def sample_account_def ex_addr_def
        import_with_key_def)
  show ?thesis
    using i by (simp add: CreateMessage_def getLiteralToList_def sample_import_def want_flags_def Let_def)
qed

theorem CreateMessage_request_witness:
  "ir_Flags \<lparr>ir_AddressID = ''1'', ir_LabelIDs = [ArchiveLabel, StarredLabel], ir_Unread = True, ir_Flags = [MessageFlagSent], ir_Message = ''lit''\<rparr> =
     want_flags ArchiveLabel False"
  using CreateMessage_request[OF sample_append] by (auto simp: sample_import_def)

end
