(* ===== verification/Imap_Events.thy ===== *)
theory Imap_Events
  imports Imap_Import Sync_State
begin

section \<open>Message events\<close>

text \<open>
  Models how message events reach the mailboxes: \<^verbatim>\<open>service_message_events.go\<close> (after the sync),
  \<^verbatim>\<open>service_sync_events.go\<close> (while a sync is running) and \<^verbatim>\<open>sync_build.go\<close> of
  \<^verbatim>\<open>internal/services/imapservice\<close>. The IDs of messages that cannot be built go into the sync state of theory
  \<open>Sync_State\<close>. The API, the keys, the message builder and the IMAP library are an environment, one per event.
\<close>

subsection \<open>State and environment\<close>

record 'k imap_state =
  is_ident :: "'k State"
  is_labels :: labelMap
  is_connectors :: connectors
  is_mode :: AddressMode
  is_sync :: sync_world

text \<open>
  \<open>v_ParseLiteral\<close> is the error of the IMAP library's parser, if any; \<open>v_FailedLiteral\<close> is the literal that stands for a
  message that cannot be built, which is well-formed. \<open>v_IsNoSuchMessage\<close> recognises the library's error for an
  unknown message.
\<close>

record ('k, 'w, 'kr, 'full, 'e) event_env =
  v_GetFullMessage :: "string \<Rightarrow> client_err + 'full"
  v_Metadata :: "'full \<Rightarrow> MsgMeta"
  v_unlock :: "'k \<Rightarrow> 'w \<Rightarrow> 'kr option \<Rightarrow> 'e + 'kr"
  v_keyPass :: 'w
  v_Build :: "'kr \<Rightarrow> 'full \<Rightarrow> 'e + string"
  v_ParseLiteral :: "string \<Rightarrow> 'e option"
  v_FailedLiteral :: "MsgMeta \<Rightarrow> 'e \<Rightarrow> string"
  v_wait :: "string \<times> update \<Rightarrow> 'e option"
  v_IsNoSuchMessage :: "'e \<Rightarrow> bool"

record MessageEvent =
  me_ID :: string
  me_Action :: EventAction
  me_Message :: MsgMeta
  me_FlagSent :: bool

datatype 'e event_err =
    GetFullMessageErr client_err
  | AddrKRErr "'e option"
  | PrimaryAddressErr
  | PrimaryChannelErr
  | EventUpdateNotApplied 'e

subsection \<open>Building\<close>

definition newMessageCreatedUpdate ::
  "('k, 'w, 'kr, 'full, 'e) event_env \<Rightarrow> labelMap \<Rightarrow> MsgMeta \<Rightarrow> string \<Rightarrow> 'e + MessageCreated" where
  "newMessageCreatedUpdate V apiLabels message literal =
     (case v_ParseLiteral V literal of
        Some e \<Rightarrow> Inl e
      | None \<Rightarrow>
          Inr \<lparr>mc_MessageID = mm_ID message, mc_Flags = BuildFlagSetFromMessageMetadata message,
               mc_MailboxIDs = wantLabels apiLabels (mm_LabelIDs message), mc_Literal = literal\<rparr>)"

definition newMessageCreatedFailedUpdate ::
  "('k, 'w, 'kr, 'full, 'e) event_env \<Rightarrow> labelMap \<Rightarrow> MsgMeta \<Rightarrow> 'e \<Rightarrow> MessageCreated" where
  "newMessageCreatedFailedUpdate V apiLabels message err =
     \<lparr>mc_MessageID = mm_ID message, mc_Flags = BuildFlagSetFromMessageMetadata message,
      mc_MailboxIDs = wantLabels apiLabels (mm_LabelIDs message), mc_Literal = v_FailedLiteral V message err\<rparr>"

definition buildRFC822 ::
  "('k, 'w, 'kr, 'full, 'e) event_env \<Rightarrow> labelMap \<Rightarrow> 'full \<Rightarrow> 'kr \<Rightarrow> MessageCreated \<times> 'e option" where
  "buildRFC822 V apiLabels full addrKR =
     (let m = v_Metadata V full
      in case v_Build V addrKR full of
           Inl buildErr \<Rightarrow> (newMessageCreatedFailedUpdate V apiLabels m buildErr, Some buildErr)
         | Inr literal \<Rightarrow>
             (case newMessageCreatedUpdate V apiLabels m literal of
                Inl parseErr \<Rightarrow> (newMessageCreatedFailedUpdate V apiLabels m parseErr, Some parseErr)
              | Inr created \<Rightarrow> (created, None)))"

subsection \<open>Publishing\<close>

definition publish_to :: "string \<Rightarrow> update \<Rightarrow> connectors \<Rightarrow> connectors" where
  "publish_to a u cs = (case map_of cs a of None \<Rightarrow> cs | Some c \<Rightarrow> AList.update a (publishUpdate [u] c) cs)"

text \<open>Instead of whether it was published, the updates to wait for are returned: the update, or none.\<close>

definition safePublishMessageUpdate ::
  "string \<Rightarrow> update \<Rightarrow> 'k imap_state \<Rightarrow> ('e event_err + pending) \<times> 'k imap_state" where
  "safePublishMessageUpdate addressID u st =
     (let pub = (\<lambda>a. (Inr [(a, u)], st\<lparr>is_connectors := publish_to a u (is_connectors st)\<rparr>))
      in if map_of (is_connectors st) addressID \<noteq> None then pub addressID
         else if is_mode st = AddressModeCombined
         then (case GetPrimaryAddr (is_ident st) of
                 None \<Rightarrow> (Inl PrimaryAddressErr, st)
               | Some primAddr \<Rightarrow>
                   if map_of (is_connectors st) (a_ID primAddr) = None then (Inl PrimaryChannelErr, st) else pub (a_ID primAddr))
         else (Inr [], st))"

text \<open>The part that \<open>onMessageCreated\<close> and \<open>onMessageUpdateDraftOrSent\<close> share: build, keep the failed IDs, publish.\<close>

definition build_and_publish ::
  "('k, 'w, 'kr, 'full, 'e) event_env \<Rightarrow> string \<Rightarrow> string \<Rightarrow> (MessageCreated \<Rightarrow> update) \<Rightarrow> 'full \<Rightarrow> 'k imap_state \<Rightarrow>
     ('e event_err + pending) \<times> 'k imap_state" where
  "build_and_publish V keyAddrID failID mk full st =
     (case WithAddrKR (v_unlock V) keyAddrID (v_keyPass V) (\<lambda>_ addrKR. Inr addrKR) (is_ident st) of
        Inl e \<Rightarrow> (Inl (AddrKRErr e), st)
      | Inr addrKR \<Rightarrow>
          (case buildRFC822 V (is_labels st) full addrKR of
             (_, Some _) \<Rightarrow> (Inr [], st\<lparr>is_sync := snd (AddFailedMessageID [failID] (is_sync st))\<rparr>)
           | (created, None) \<Rightarrow>
               safePublishMessageUpdate (mm_AddressID (v_Metadata V full)) (mk created)
                 (st\<lparr>is_sync := snd (RemFailedMessageID [failID] (is_sync st))\<rparr>)))"

definition gone :: "client_err \<Rightarrow> bool" where
  "gone e = (case e of APIError st _ \<Rightarrow> st = 422 | OtherErr _ \<Rightarrow> False)"

definition onMessageCreated ::
  "('k, 'w, 'kr, 'full, 'e) event_env \<Rightarrow> MsgMeta \<Rightarrow> bool \<Rightarrow> 'k imap_state \<Rightarrow> ('e event_err + pending) \<times> 'k imap_state" where
  "onMessageCreated V message allowUnknownLabels st =
     (case v_GetFullMessage V (mm_ID message) of
        Inl e \<Rightarrow> if gone e then (Inr [], st) else (Inl (GetFullMessageErr e), st)
      | Inr full \<Rightarrow>
          build_and_publish V (mm_AddressID message) (mm_ID message) (\<lambda>created. NewMessagesCreated allowUnknownLabels [created]) full st)"

definition onMessageUpdateDraftOrSent ::
  "('k, 'w, 'kr, 'full, 'e) event_env \<Rightarrow> MessageEvent \<Rightarrow> bool \<Rightarrow> 'k imap_state \<Rightarrow> ('e event_err + pending) \<times> 'k imap_state" where
  "onMessageUpdateDraftOrSent V event duringSync st =
     (case v_GetFullMessage V (mm_ID (me_Message event)) of
        Inl e \<Rightarrow> if gone e then (Inr [], st) else (Inl (GetFullMessageErr e), st)
      | Inr full \<Rightarrow>
          build_and_publish V (mm_AddressID (me_Message event)) (me_ID event) (\<lambda>created. NewMessageUpdated created True duringSync) full st)"

definition onMessageUpdate :: "MsgMeta \<Rightarrow> 'k imap_state \<Rightarrow> ('e event_err + pending) \<times> 'k imap_state" where
  "onMessageUpdate message st =
     safePublishMessageUpdate (mm_AddressID message)
       (NewMessageMailboxesUpdated (mm_ID message) (wantLabels (is_labels st) (mm_LabelIDs message))
          (BuildFlagSetFromMessageMetadata message)) st"

definition onMessageDeleted :: "MessageEvent \<Rightarrow> 'k imap_state \<Rightarrow> pending \<times> 'k imap_state" where
  "onMessageDeleted event st =
     (let us = [NewMessagesDeleted (me_ID event)]
      in (pending_all us (is_connectors st), st\<lparr>is_connectors := publish_all us (is_connectors st)\<rparr>))"

subsection \<open>The handlers\<close>

definition wait_for :: "('k, 'w, 'kr, 'full, 'e) event_env \<Rightarrow> ('e event_err + pending) \<times> 'k imap_state \<Rightarrow> 'e event_err option \<times> 'k imap_state" where
  "wait_for V r =
     (case r of
        (Inl e, st) \<Rightarrow> (Some e, st)
      | (Inr updates, st) \<Rightarrow> (map_option EventUpdateNotApplied (waitOnIMAPUpdates (v_wait V) updates), st))"

definition update_or_create ::
  "('k, 'w, 'kr, 'full, 'e) event_env \<Rightarrow> bool \<Rightarrow> MsgMeta \<Rightarrow> 'k imap_state \<Rightarrow> 'e event_err option \<times> 'k imap_state" where
  "update_or_create V duringSync message st =
     (case onMessageUpdate message st of
        (Inl e, st1) \<Rightarrow> (Some e, st1)
      | (Inr updates, st1) \<Rightarrow>
          (case waitOnIMAPUpdates (v_wait V) updates of
             None \<Rightarrow> (None, st1)
           | Some e \<Rightarrow>
               if v_IsNoSuchMessage V e then wait_for V (onMessageCreated V message duringSync st1)
               else (Some (EventUpdateNotApplied e), st1)))"

text \<open>
  One event. During a sync, unknown labels are tolerated, and a change of flags of a draft or sent message is handled like a
  change of its contents.
\<close>

definition handle_message_event ::
  "bool \<Rightarrow> ('k, 'w, 'kr, 'full, 'e) event_env \<Rightarrow> MessageEvent \<Rightarrow> 'k imap_state \<Rightarrow> 'e event_err option \<times> 'k imap_state" where
  "handle_message_event duringSync V event st =
     (case me_Action event of
        EventCreate \<Rightarrow> wait_for V (onMessageCreated V (me_Message event) duringSync st)
      | EventDelete \<Rightarrow> (let (updates, st1) = onMessageDeleted event st in wait_for V (Inr updates, st1))
      | action \<Rightarrow>
          if (mm_IsDraft (me_Message event) \<or> me_FlagSent event) \<and> (duringSync \<or> action = EventUpdate)
          then wait_for V (onMessageUpdateDraftOrSent V event duringSync st)
          else update_or_create V duringSync (me_Message event) st)"

fun handle_message_events ::
  "bool \<Rightarrow> (('k, 'w, 'kr, 'full, 'e) event_env \<times> MessageEvent) list \<Rightarrow> 'k imap_state \<Rightarrow> 'e event_err option \<times> 'k imap_state" where
  "handle_message_events duringSync [] st = (None, st)"
| "handle_message_events duringSync ((V, event) # events) st =
     (case handle_message_event duringSync V event st of
        (Some e, st1) \<Rightarrow> (Some e, st1)
      | (None, st1) \<Rightarrow> handle_message_events duringSync events st1)"

definition HandleMessageEvents ::
  "(('k, 'w, 'kr, 'full, 'e) event_env \<times> MessageEvent) list \<Rightarrow> 'k imap_state \<Rightarrow> 'e event_err option \<times> 'k imap_state" where
  "HandleMessageEvents events st = handle_message_events False events st"

definition sync_HandleMessageEvents ::
  "(('k, 'w, 'kr, 'full, 'e) event_env \<times> MessageEvent) list \<Rightarrow> 'k imap_state \<Rightarrow> 'e event_err option \<times> 'k imap_state" where
  "sync_HandleMessageEvents events st = handle_message_events True events st"

subsection \<open>No message event is lost\<close>

definition failed_ids :: "'k imap_state \<Rightarrow> string fset" where
  "failed_ids st = FailedMessages (status (fst (is_sync st)))"

lemma storeUnsafe_fst [simp]: "fst (snd (storeUnsafe w)) = fst w"
  by (simp add: storeUnsafe_def Let_def split_beta del: storeUnsafe_status)

declare storeUnsafe_status [simp del]

lemma failed_ids_add: "failed_ids (st\<lparr>is_sync := snd (AddFailedMessageID [i] (is_sync st))\<rparr>) = finsert i (failed_ids st)"
  by (simp add: failed_ids_def AddFailedMessageID_def Let_def)

lemma failed_ids_rem: "failed_ids (st\<lparr>is_sync := snd (RemFailedMessageID [i] (is_sync st))\<rparr>) = failed_ids st |-| {|i|}"
  by (simp add: failed_ids_def RemFailedMessageID_def Let_def)

lemma safePublish_outcome:
  assumes "safePublishMessageUpdate addr u st = (Inr p, st')" "distinct (map fst (is_connectors st))"
  shows "failed_ids st' = failed_ids st \<and> delivers (is_connectors st) p (is_connectors st') \<and>
     ((p = [] \<and> st' = st \<and> is_mode st = AddressModeSplit \<and> map_of (is_connectors st) addr = None) \<or>
      (\<exists>a. p = [(a, u)] \<and> (a = addr \<or> (is_mode st = AddressModeCombined \<and> map_option a_ID (GetPrimaryAddr (is_ident st)) = Some a))))"
proof -
  have pub: "delivers (is_connectors st) [(a, u)] (publish_to a u (is_connectors st))" if "map_of (is_connectors st) a \<noteq> None" for a
    using that publish_one_delivers[OF _ assms(2)] by (auto simp: publish_to_def)
  show ?thesis
  proof (cases "map_of (is_connectors st) addr")
    case (Some c)
    then have "p = [(addr, u)]" "st' = st\<lparr>is_connectors := publish_to addr u (is_connectors st)\<rparr>"
      using assms(1) by (auto simp: safePublishMessageUpdate_def Let_def)
    then show ?thesis using pub[of addr] Some by (simp add: failed_ids_def)
  next
    case None
    show ?thesis
    proof (cases "is_mode st")
      case AddressModeSplit
      then show ?thesis using assms(1) None by (auto simp: safePublishMessageUpdate_def Let_def)
    next
      case AddressModeCombined
      then obtain q where q: "GetPrimaryAddr (is_ident st) = Some q" "map_of (is_connectors st) (a_ID q) \<noteq> None"
        using assms(1) None by (auto simp: safePublishMessageUpdate_def Let_def split: option.splits if_splits)
      then have "p = [(a_ID q, u)]" "st' = st\<lparr>is_connectors := publish_to (a_ID q) u (is_connectors st)\<rparr>"
        using assms(1) None AddressModeCombined by (auto simp: safePublishMessageUpdate_def Let_def)
      then show ?thesis using pub[OF q(2)] q(1) AddressModeCombined by (simp add: failed_ids_def)
    qed
  qed
qed

lemma buildRFC822_ok:
  "buildRFC822 V labels full kr = (created, None) \<Longrightarrow>
     v_Build V kr full = Inr (mc_Literal created) \<and> mc_MessageID created = mm_ID (v_Metadata V full) \<and>
     mc_MailboxIDs created = wantLabels labels (mm_LabelIDs (v_Metadata V full)) \<and>
     mc_Flags created = BuildFlagSetFromMessageMetadata (v_Metadata V full)"
  by (auto simp: buildRFC822_def newMessageCreatedUpdate_def Let_def split: sum.splits option.splits)

lemma build_and_publish_outcome:
  fixes V :: "('k, 'w, 'kr, 'full, 'e) event_env"
  assumes "build_and_publish V keyAddr i mk full st = (Inr p, st')" "distinct (map fst (is_connectors st))"
  shows "(p = [] \<and> is_connectors st' = is_connectors st \<and> failed_ids st' = finsert i (failed_ids st)) \<or>
     (failed_ids st' = failed_ids st |-| {|i|} \<and> delivers (is_connectors st) p (is_connectors st') \<and>
      (\<exists>kr created. buildRFC822 V (is_labels st) full kr = (created, None) \<and>
        ((p = [] \<and> is_mode st = AddressModeSplit \<and> map_of (is_connectors st) (mm_AddressID (v_Metadata V full)) = None) \<or>
         (\<exists>a. p = [(a, mk created)] \<and>
            (a = mm_AddressID (v_Metadata V full) \<or>
             (is_mode st = AddressModeCombined \<and> map_option a_ID (GetPrimaryAddr (is_ident st)) = Some a))))))"
proof -
  obtain kr where kr: "WithAddrKR (v_unlock V) keyAddr (v_keyPass V) (\<lambda>_ addrKR. Inr addrKR) (is_ident st) = Inr kr"
    using assms(1) by (auto simp: build_and_publish_def split: sum.splits)
  obtain created err where b: "buildRFC822 V (is_labels st) full kr = (created, err)" by fastforce
  show ?thesis
  proof (cases err)
    case (Some e)
    then have "p = []" "st' = st\<lparr>is_sync := snd (AddFailedMessageID [i] (is_sync st))\<rparr>"
      using assms(1) kr b by (simp_all add: build_and_publish_def)
    then show ?thesis by (simp add: failed_ids_add)
  next
    case None
    let ?st = "st\<lparr>is_sync := snd (RemFailedMessageID [i] (is_sync st))\<rparr>"
    have s: "safePublishMessageUpdate (mm_AddressID (v_Metadata V full)) (mk created) ?st = (Inr p :: 'e event_err + pending, st')"
      using assms(1) kr b None by (simp add: build_and_publish_def)
    have "distinct (map fst (is_connectors ?st))" using assms(2) by simp
    from safePublish_outcome[OF s this] show ?thesis using b None by (auto simp: failed_ids_rem)
  qed
qed


definition sample_events :: "(unit, unit, unit, unit, string) event_env" where
  "sample_events =
     \<lparr>v_GetFullMessage = (\<lambda>i. Inr ()), v_Metadata = (\<lambda>f. (sample_meta ''m'' [TrashLabel, LabelID ''x''])\<lparr>mm_AddressID := ''1''\<rparr>), v_unlock = (\<lambda>k w u. Inr ()),
      v_keyPass = (), v_Build = (\<lambda>k f. Inr ''literal''), v_ParseLiteral = (\<lambda>l. None), v_FailedLiteral = (\<lambda>m e. ''''), v_wait = (\<lambda>u. None),
      v_IsNoSuchMessage = (\<lambda>e. False)\<rparr>"

definition sample_event :: MessageEvent where
  "sample_event = \<lparr>me_ID = ''m'', me_Action = EventCreate, me_Message = (sample_meta ''m'' [TrashLabel, LabelID ''x''])\<lparr>mm_AddressID := ''1''\<rparr>, me_FlagSent = False\<rparr>"

definition sample_imap :: "unit imap_state" where
  "sample_imap = \<lparr>is_ident = ia_ident sample_account, is_labels = cn_labels sample_conn, is_connectors = [(''1'', sample_connector ''1'')],
     is_mode = AddressModeCombined, is_sync = ex_world []\<rparr>"

lemma sample_handled:
  "handle_message_event False sample_events sample_event sample_imap =
     (None, sample_imap\<lparr>is_sync := snd (RemFailedMessageID [''m''] (ex_world [])),
        is_connectors := publish_to ''1'' (NewMessagesCreated False
          [\<lparr>mc_MessageID = ''m'', mc_Flags = [FlagSeen], mc_MailboxIDs = [TrashLabel], mc_Literal = ''literal''\<rparr>]) [(''1'', sample_connector ''1'')]\<rparr>)"
  by (simp add: handle_message_event_def sample_event_def wait_for_def onMessageCreated_def sample_events_def build_and_publish_def WithAddrKR_def
      sample_imap_def sample_account_def ex_addr_def buildRFC822_def newMessageCreatedUpdate_def safePublishMessageUpdate_def Let_def
      sample_meta_def BuildFlagSetFromMessageMetadata_def wantLabels_def sample_conn_def sample_label_def WantLabel_def)


end
