(* ===== verification/Imap_Service.thy ===== *)
theory Imap_Service
  imports Imap_Events
begin

section \<open>The IMAP service\<close>

text \<open>
  Models \<^verbatim>\<open>service.go\<close> and \<^verbatim>\<open>service_address_events.go\<close> of \<^verbatim>\<open>internal/services/imapservice\<close>: which connectors
  exist, how they follow the address mode and the addresses of the account, when a sync is started, and the requests the
  service's goroutine handles. What the IMAP server is asked is recorded in order.
\<close>

subsection \<open>State\<close>

datatype server_call =
    AddIMAPUser string
  | RemoveIMAPUser bool "string list"
  | StateClose string
  | LogRemoteLabelIDs "string list"
  | ExecuteSync labelMap
  | RewindEventID string
  | PublishUserBadEvent

record 'k service =
  sv_imap :: "'k imap_state"
  sv_showAllMail :: bool
  sv_isSyncing :: bool
  sv_lastHandledEventID :: string
  sv_calls :: "server_call list"

text \<open>
  \<open>w_enum\<close> is the order in which the identity state ranges over its map. \<open>w_wait\<close> and \<open>w_labels\<close> are the IMAP
  library as it answers while labels are synced to a new connector.
\<close>

record ('k, 'e) service_env =
  w_enum :: "'k map_order"
  w_AddIMAPUser :: "string \<Rightarrow> 'e option"
  w_RemoveIMAPUser :: "bool \<Rightarrow> string list \<Rightarrow> 'e option"
  w_labels :: "string \<Rightarrow> label_env"
  w_wait :: "string \<times> update \<Rightarrow> 'e option"

datatype 'e service_err =
    NoPrimaryAddr
  | NoOldPrimaryConnector
  | AddToServerErr 'e
  | RemoveFromServerErr 'e
  | NewAddressLabelsErr conflict_err
  | NewAddressSyncErr 'e
  | ServiceApiErr 'e
  | SyncStateErr sync_err

definition log_call :: "server_call \<Rightarrow> 'k service \<Rightarrow> 'k service" where
  "log_call c s = s\<lparr>sv_calls := sv_calls s @ [c]\<rparr>"

definition set_imap :: "('k imap_state \<Rightarrow> 'k imap_state) \<Rightarrow> 'k service \<Rightarrow> 'k service" where
  "set_imap f s = s\<lparr>sv_imap := f (sv_imap s)\<rparr>"

abbreviation ident_of :: "'k service \<Rightarrow> 'k State" where "ident_of s \<equiv> is_ident (sv_imap s)"
abbreviation connectors_of :: "'k service \<Rightarrow> connectors" where "connectors_of s \<equiv> is_connectors (sv_imap s)"
abbreviation mode_of :: "'k service \<Rightarrow> AddressMode" where "mode_of s \<equiv> is_mode (sv_imap s)"

definition set_connectors :: "connectors \<Rightarrow> 'k service \<Rightarrow> 'k service" where
  "set_connectors cs = set_imap (\<lambda>i. i\<lparr>is_connectors := cs\<rparr>)"

definition set_ident :: "'k State \<Rightarrow> 'k service \<Rightarrow> 'k service" where
  "set_ident st = set_imap (\<lambda>i. i\<lparr>is_ident := st\<rparr>)"

subsection \<open>Connectors\<close>

definition NewConnector :: "string \<Rightarrow> connector" where
  "NewConnector addrID = \<lparr>c_addrID = addrID, c_updates = [], c_closed = False\<rparr>"

definition buildConnectors :: "'k service \<Rightarrow> 'e service_err + connectors" where
  "buildConnectors s =
     (case mode_of s of
        AddressModeCombined \<Rightarrow>
          (case GetPrimaryAddr (ident_of s) of
             None \<Rightarrow> Inl NoPrimaryAddr
           | Some addr \<Rightarrow> Inr [(a_ID addr, NewConnector (a_ID addr))])
      | AddressModeSplit \<Rightarrow>
          Inr (foldl (\<lambda>cs addr. AList.update (a_ID addr) (NewConnector (a_ID addr)) cs) [] (AddressesSorted (ident_of s))))"

definition rebuildConnectors :: "'k service \<Rightarrow> 'e service_err option \<times> 'k service" where
  "rebuildConnectors s =
     (case buildConnectors s of
        Inl e \<Rightarrow> (Some e, s)
      | Inr new \<Rightarrow>
          (None, set_connectors new (s\<lparr>sv_calls := sv_calls s @ map (\<lambda>(_, c). StateClose (c_addrID c)) (connectors_of s)\<rparr>)))"

text \<open>A connector that cannot be added is logged, the ones added before it are removed again, and the loop goes on.\<close>

fun add_connectors :: "('k, 'e) service_env \<Rightarrow> connectors \<Rightarrow> string list \<Rightarrow> 'k service \<Rightarrow> 'k service" where
  "add_connectors W [] added s = s"
| "add_connectors W ((_, c) # cs) added s =
     (let s1 = log_call (AddIMAPUser (c_addrID c)) s;
          s2 = (if w_AddIMAPUser W (c_addrID c) \<noteq> None then log_call (RemoveIMAPUser False added) s1 else s1)
      in add_connectors W cs (added @ [c_addrID c]) s2)"

definition addConnectorsToServer :: "('k, 'e) service_env \<Rightarrow> 'k service \<Rightarrow> 'e service_err option \<times> 'k service" where
  "addConnectorsToServer W s = (None, add_connectors W (connectors_of s) [] s)"

definition removeConnectorsFromServer :: "('k, 'e) service_env \<Rightarrow> bool \<Rightarrow> 'k service \<Rightarrow> 'e service_err option \<times> 'k service" where
  "removeConnectorsFromServer W deleteData s =
     (let addrIDs = map (\<lambda>(_, c). c_addrID c) (connectors_of s)
      in (map_option RemoveFromServerErr (w_RemoveIMAPUser W deleteData addrIDs), log_call (RemoveIMAPUser deleteData addrIDs) s))"

definition service_Close :: "'k service \<Rightarrow> 'k service" where
  "service_Close s = set_connectors [] (s\<lparr>sv_calls := sv_calls s @ map (\<lambda>(_, c). StateClose (c_addrID c)) (connectors_of s)\<rparr>)"

definition setShowAllMail :: "bool \<Rightarrow> 'k service \<Rightarrow> 'k service" where
  "setShowAllMail v s = (if sv_showAllMail s = v then s else s\<lparr>sv_showAllMail := v\<rparr>)"

subsection \<open>Starting and cancelling the sync\<close>

definition with_sync :: "(sync_world \<Rightarrow> sync_err option \<times> sync_world) \<Rightarrow> 'k service \<Rightarrow> 'e service_err option \<times> 'k service" where
  "with_sync f s =
     (case f (is_sync (sv_imap s)) of (err, w) \<Rightarrow> (map_option SyncStateErr err, set_imap (\<lambda>i. i\<lparr>is_sync := w\<rparr>) s))"

definition beforeStartSyncing :: "string \<Rightarrow> 'k service \<Rightarrow> 'e service_err option \<times> 'k service" where
  "beforeStartSyncing lastHandledEventID s =
     (case GetSyncStatus (is_sync (sv_imap s)) of
        Inl e \<Rightarrow> (Some (SyncStateErr e), s)
      | Inr st \<Rightarrow>
          if StartSyncEventID st \<noteq> [] then (None, s) else with_sync (SetStartSyncEventID lastHandledEventID) s)"

definition startSyncing :: "string \<Rightarrow> 'k service \<Rightarrow> 'e service_err option \<times> 'k service" where
  "startSyncing lastHandledEventID s =
     (case beforeStartSyncing lastHandledEventID s of
        (Some e, s1) \<Rightarrow> (Some e, s1)
      | (None, s1) \<Rightarrow> (None, log_call (ExecuteSync (is_labels (sv_imap s1))) (s1\<lparr>sv_isSyncing := True\<rparr>)))"

definition cancelSync :: "'k service \<Rightarrow> 'k service" where
  "cancelSync s = s\<lparr>sv_isSyncing := False\<rparr>"

text \<open>Sequences of steps that stop at the first error.\<close>

fun steps :: "('s \<Rightarrow> 'e option \<times> 's) list \<Rightarrow> 's \<Rightarrow> 'e option \<times> 's" where
  "steps [] s = (None, s)"
| "steps (f # fs) s = (case f s of (Some e, s1) \<Rightarrow> (Some e, s1) | (None, s1) \<Rightarrow> steps fs s1)"

definition setAddressMode ::
  "('k, 'e) service_env \<Rightarrow> AddressMode \<Rightarrow> string \<Rightarrow> 'k service \<Rightarrow> 'e service_err option \<times> 'k service" where
  "setAddressMode W mode lastEventID s =
     (if mode_of s = mode then (None, s)
      else steps [removeConnectorsFromServer W True, with_sync ClearSyncStatus, rebuildConnectors, addConnectorsToServer W,
                  startSyncing lastEventID]
             (cancelSync (set_imap (\<lambda>i. i\<lparr>is_mode := mode\<rparr>) s)))"

definition service_HandleRefreshEvent ::
  "('k, 'e) service_env \<Rightarrow> 'e + 'k User \<Rightarrow> 'e + 'k Address list \<Rightarrow> string \<Rightarrow> 'k service \<Rightarrow> 'e service_err option \<times> 'k service" where
  "service_HandleRefreshEvent W getUser getAddresses eventID s =
     (case OnRefreshEvent (w_enum W) getUser getAddresses (ident_of s) of
        (Some e, ident) \<Rightarrow> (Some (ServiceApiErr e), set_ident ident s)
      | (None, ident) \<Rightarrow>
          steps [removeConnectorsFromServer W True, rebuildConnectors, with_sync ClearSyncStatus, addConnectorsToServer W,
                 \<lambda>t. (None, t\<lparr>sv_lastHandledEventID := eventID\<rparr>), startSyncing eventID]
            (cancelSync (set_ident ident s)))"

definition service_HandleUserEvent :: "'k User \<Rightarrow> 'k service \<Rightarrow> 'e service_err option \<times> 'k service" where
  "service_HandleUserEvent user s = (None, set_ident (OnUserEvent user (ident_of s)) s)"

subsection \<open>Address events\<close>

text \<open>\<open>None\<close>: resolving a label conflict does not return.\<close>

definition addNewAddressSplitMode ::
  "('k, 'e) service_env \<Rightarrow> string \<Rightarrow> 'k service \<Rightarrow> ('e service_err option \<times> 'k service) option" where
  "addNewAddressSplitMode W addrID s =
     (let s1 = log_call (AddIMAPUser addrID) s
      in case w_AddIMAPUser W addrID of
           Some e \<Rightarrow> Some (Some (AddToServerErr e), s1)
         | None \<Rightarrow>
             let labels = is_labels (sv_imap s);
                 ls = \<lparr>ls_labels = labels, ls_connectors = [(addrID, NewConnector addrID)], ls_events = [], ls_round = 0\<rparr>
             in (case syncLabels (w_labels W addrID) labels ls of
                   None \<Rightarrow> None
                 | Some (res, ls') \<Rightarrow>
                     let conn = snd (hd (ls_connectors ls'));
                         s2 = set_connectors (AList.update addrID conn (connectors_of s1)) s1
                     in (case res of
                           Inl e \<Rightarrow> Some (Some (NewAddressLabelsErr e), s2)
                         | Inr updates \<Rightarrow> Some (map_option NewAddressSyncErr (waitOnIMAPUpdates (w_wait W) updates), s2))))"

definition removeAddressSplitMode :: "('k, 'e) service_env \<Rightarrow> string \<Rightarrow> 'k service \<Rightarrow> 'e service_err option \<times> 'k service" where
  "removeAddressSplitMode W addrID s =
     (case map_of (connectors_of s) addrID of
        None \<Rightarrow> (None, s)
      | Some c \<Rightarrow>
          let s1 = log_call (RemoveIMAPUser True [addrID]) s
          in (case w_RemoveIMAPUser W True [addrID] of
                Some e \<Rightarrow> (Some (RemoveFromServerErr e), s1)
              | None \<Rightarrow> (None, set_connectors (AList.delete addrID (connectors_of s1)) (log_call (StateClose (c_addrID c)) s1))))"

definition address_event_combined ::
  "('k, 'e) service_env \<Rightarrow> 'k AddressEvent list \<Rightarrow> 'k service \<Rightarrow> 'e service_err option \<times> 'k service" where
  "address_event_combined W events s =
     (case GetPrimaryAddr (ident_of s) of
        None \<Rightarrow> (Some NoPrimaryAddr, s)
      | Some oldPrimaryAddr \<Rightarrow>
          let s1 = set_ident (OnAddressEvents (w_enum W) events (ident_of s)) s
          in (case GetPrimaryAddr (ident_of s1) of
                None \<Rightarrow> (Some NoPrimaryAddr, s1)
              | Some newPrimaryAddr \<Rightarrow>
                  if a_ID oldPrimaryAddr = a_ID newPrimaryAddr then (None, s1)
                  else (case map_of (connectors_of s1) (a_ID oldPrimaryAddr) of
                          None \<Rightarrow> (Some NoOldPrimaryConnector, s1)
                        | Some c \<Rightarrow>
                            (None, set_connectors
                               (AList.delete (a_ID oldPrimaryAddr) (AList.update (a_ID newPrimaryAddr) c (connectors_of s1))) s1))))"

definition address_event_split ::
  "('k, 'e) service_env \<Rightarrow> 'k AddressEvent \<Rightarrow> 'k service \<Rightarrow> ('e service_err option \<times> 'k service) option" where
  "address_event_split W event s =
     (case ev_Action event of
        EventCreate \<Rightarrow>
          (case OnAddressCreated (w_enum W) event (ident_of s) of
             (st, ident) \<Rightarrow>
               let s1 = set_ident ident s
               in if st = AddressUpdateCreated then addNewAddressSplitMode W (a_ID (ev_Address event)) s1 else Some (None, s1))
      | EventDelete \<Rightarrow>
          (case OnAddressDeleted (w_enum W) event (ident_of s) of
             ((_, st), ident) \<Rightarrow>
               let s1 = set_ident ident s
               in if st = AddressUpdateDeleted then Some (removeAddressSplitMode W (ev_ID event) s1) else Some (None, s1))
      | _ \<Rightarrow>
          (case OnAddressUpdated (w_enum W) event (ident_of s) of
             ((addr, st), ident) \<Rightarrow>
               let s1 = set_ident ident s
               in if st = AddressUpdateCreated \<or> st = AddressUpdateEnabled then addNewAddressSplitMode W (a_ID addr) s1
                  else if st = AddressUpdateDisabled then Some (removeAddressSplitMode W (a_ID addr) s1)
                  else Some (None, s1)))"

fun address_events_split ::
  "('k, 'e) service_env \<Rightarrow> 'k AddressEvent list \<Rightarrow> 'k service \<Rightarrow> ('e service_err option \<times> 'k service) option" where
  "address_events_split W [] s = Some (None, s)"
| "address_events_split W (event # events) s =
     (case address_event_split W event s of
        None \<Rightarrow> None
      | Some (Some e, s1) \<Rightarrow> Some (Some e, s1)
      | Some (None, s1) \<Rightarrow> address_events_split W events s1)"

definition service_HandleAddressEvents ::
  "('k, 'e) service_env \<Rightarrow> 'k AddressEvent list \<Rightarrow> 'k service \<Rightarrow> ('e service_err option \<times> 'k service) option" where
  "service_HandleAddressEvents W events s =
     (case mode_of s of
        AddressModeCombined \<Rightarrow> Some (address_event_combined W events s)
      | AddressModeSplit \<Rightarrow> address_events_split W events s)"

subsection \<open>The goroutine\<close>

text \<open>
  What follows a finished sync, in a goroutine of its own: the event service goes back to the event at which the sync began, so that
  nothing that happened meanwhile is missed. \<open>done\<close> says that the service is being shut down.
\<close>

datatype rewind_result = RewindOK | RewindCancelled | RewindFailed

definition after_sync :: "bool \<Rightarrow> rewind_result \<Rightarrow> 'k service \<Rightarrow> 'k service" where
  "after_sync done res s =
     (if done then s
      else case GetSyncStatus (is_sync (sv_imap s)) of
        Inl _ \<Rightarrow> s\<lparr>sv_isSyncing := False\<rparr>
      | Inr st \<Rightarrow>
          let rewindTo = StartSyncEventID st;
              s1 = log_call (RewindEventID rewindTo) s;
              finish = (\<lambda>t. set_imap (\<lambda>i. i\<lparr>is_sync := snd (SetStartSyncEventID [] (is_sync i))\<rparr>) t\<lparr>sv_isSyncing := False\<rparr>)
          in if rewindTo = [] then s\<lparr>sv_isSyncing := False\<rparr>
             else (case res of
                     RewindCancelled \<Rightarrow> s1
                   | RewindFailed \<Rightarrow> finish (log_call PublishUserBadEvent s1)
                   | RewindOK \<Rightarrow> finish s1))"

datatype ('k, 'ev, 'e) service_input =
    SetAddressModeReq AddressMode
  | ResyncReq "'e + 'k User" "'e + 'k Address list"
  | GetLabelsReq
  | OnBadEventReq
  | OnBadEventResyncReq
  | OnLogoutReq
  | OnDeleteReq
  | ShowAllMailReq bool
  | GetSyncFailedMessagesReq
  | GetSyncStatusReq
  | OnSyncFinished "'e option" bool rewind_result
  | OnUserEventInput string 'ev
  | OnIMAPServerCreated
  | OnConnStatusUp
  | OnConnStatusDown

datatype 'e service_reply =
    NoServiceReply
  | ErrReply "'e service_err option"
  | LabelsReply labelMap
  | FailedReply "string fset"
  | StatusReply Status

definition err_reply :: "'e service_err option \<times> 'k service \<Rightarrow> 'e service_reply \<times> 'k service" where
  "err_reply r = (ErrReply (fst r), snd r)"

definition start_or_report :: "string \<Rightarrow> 'k service \<Rightarrow> 'k service" where
  "start_or_report eventID s =
     (case startSyncing eventID s :: unit service_err option \<times> 'k service of
        (Some _, s1) \<Rightarrow> log_call PublishUserBadEvent s1
      | (None, s1) \<Rightarrow> s1)"

text \<open>\<open>onEvent\<close> is the event handler that is active: with \<open>True\<close> the one used while a sync is running.\<close>

fun service_step ::
  "('k, 'e) service_env \<Rightarrow> (bool \<Rightarrow> 'ev \<Rightarrow> 'k service \<Rightarrow> 'e option \<times> 'k service) \<Rightarrow> ('k, 'ev, 'e) service_input \<Rightarrow> 'k service \<Rightarrow>
     'e service_reply \<times> 'k service" where
  "service_step W onEvent (SetAddressModeReq mode) s = err_reply (setAddressMode W mode (sv_lastHandledEventID s) s)"
| "service_step W onEvent (ResyncReq getUser getAddresses) s =
     err_reply (service_HandleRefreshEvent W getUser getAddresses (sv_lastHandledEventID s) s)"
| "service_step W onEvent GetLabelsReq s = (LabelsReply (is_labels (sv_imap s)), s)"
| "service_step W onEvent OnBadEventReq s =
     err_reply (removeConnectorsFromServer W False (log_call (LogRemoteLabelIDs (map (\<lambda>(_, c). c_addrID c) (connectors_of s))) s))"
| "service_step W onEvent OnBadEventResyncReq s = err_reply (addConnectorsToServer W s)"
| "service_step W onEvent OnLogoutReq s = err_reply (removeConnectorsFromServer W False s)"
| "service_step W onEvent OnDeleteReq s = err_reply (removeConnectorsFromServer W True s)"
| "service_step W onEvent (ShowAllMailReq v) s = (ErrReply None, setShowAllMail v s)"
| "service_step W onEvent GetSyncFailedMessagesReq s =
     (case GetSyncStatus (is_sync (sv_imap s)) of
        Inl e \<Rightarrow> (ErrReply (Some (SyncStateErr e)), s)
      | Inr st \<Rightarrow> (FailedReply (FailedMessages st), s))"
| "service_step W onEvent GetSyncStatusReq s =
     (case GetSyncStatus (is_sync (sv_imap s)) of
        Inl e \<Rightarrow> (ErrReply (Some (SyncStateErr e)), s)
      | Inr st \<Rightarrow> (StatusReply st, s))"
| "service_step W onEvent (OnSyncFinished err done res) s =
     (NoServiceReply, case err of Some _ \<Rightarrow> s | None \<Rightarrow> after_sync done res s)"
| "service_step W onEvent (OnUserEventInput eventID ev) s =
     (case onEvent (sv_isSyncing s) ev s of
        (Some _, s1) \<Rightarrow> (NoServiceReply, s1)
      | (None, s1) \<Rightarrow> (NoServiceReply, s1\<lparr>sv_lastHandledEventID := eventID\<rparr>))"
| "service_step W onEvent OnIMAPServerCreated s = (NoServiceReply, snd (addConnectorsToServer W s))"
| "service_step W onEvent OnConnStatusUp s =
     (NoServiceReply, start_or_report (sv_lastHandledEventID s) (cancelSync s))"
| "service_step W onEvent OnConnStatusDown s = (NoServiceReply, cancelSync s)"

text \<open>\<open>Start\<close>, up to the launch of the goroutine, and what that does first.\<close>

definition service_Start ::
  "('k, 'e) service_env \<Rightarrow> sync_err + SyncState \<Rightarrow> 'e + Label list \<Rightarrow> string \<Rightarrow> disk \<Rightarrow> 'k service \<Rightarrow> 'e service_err option \<times> 'k service" where
  "service_Start W newSyncState getLabels lastEventID d s =
     (case newSyncState of
        Inl e \<Rightarrow> (Some (SyncStateErr e), s\<lparr>sv_lastHandledEventID := lastEventID\<rparr>)
      | Inr sync \<Rightarrow>
          let s1 = set_imap (\<lambda>i. i\<lparr>is_sync := (sync, d)\<rparr>) s\<lparr>sv_lastHandledEventID := lastEventID\<rparr>
          in (case getLabels of
                Inl e \<Rightarrow> (Some (ServiceApiErr e), s1)
              | Inr apiLabels \<Rightarrow>
                  let s2 = set_imap (\<lambda>i. i\<lparr>is_labels := SetLabels apiLabels\<rparr>) s1
                  in (case buildConnectors s2 of
                        Inl e \<Rightarrow> (Some e, s2)
                      | Inr cs \<Rightarrow>
                          (case addConnectorsToServer W (set_connectors cs s2) of
                             (Some e, s3) \<Rightarrow> (Some e, s3)
                           | (None, s3) \<Rightarrow> (None, start_or_report lastEventID s3)))))"

subsection \<open>The connectors follow the addresses\<close>

text \<open>In combined mode there is one connector, for the primary address; in split mode every enabled address has one.\<close>

definition conn_inv :: "'k service \<Rightarrow> bool" where
  "conn_inv s \<longleftrightarrow>
     (case mode_of s of
        AddressModeCombined \<Rightarrow> (\<exists>p. GetPrimaryAddr (ident_of s) = Some p \<and> map fst (connectors_of s) = [a_ID p])
      | AddressModeSplit \<Rightarrow> enabled_ids (ident_of s) \<subseteq> set (map fst (connectors_of s)))"

lemmas service_upds = set_imap_def log_call_def set_ident_def set_connectors_def

lemma service_simps [simp]:
  "sv_imap (log_call c s) = sv_imap s" "sv_imap (s\<lparr>sv_calls := cs\<rparr>) = sv_imap s"
  "ident_of (set_ident i s) = i" "connectors_of (set_ident i s) = connectors_of s" "mode_of (set_ident i s) = mode_of s"
  "ident_of (set_connectors k s) = ident_of s" "connectors_of (set_connectors k s) = k" "mode_of (set_connectors k s) = mode_of s"
  "is_sync (sv_imap (set_connectors k s)) = is_sync (sv_imap s)" "sv_imap (cancelSync s) = sv_imap s"
  by (simp_all add: service_upds cancelSync_def)

lemma addNewAddress_ok:
  assumes "addNewAddressSplitMode W a s = Some (None, s')"
  shows "ident_of s' = ident_of s \<and> mode_of s' = mode_of s \<and> set (map fst (connectors_of s')) = insert a (set (map fst (connectors_of s)))"
proof -
  obtain conn where "s' = set_connectors (AList.update a conn (connectors_of s)) (log_call (AddIMAPUser a) s)"
    using assms by (auto simp: addNewAddressSplitMode_def Let_def split: option.splits sum.splits)
  then show ?thesis by (simp add: dom_update)
qed

lemma removeAddress_ok:
  assumes "removeAddressSplitMode W a s = (None, s')"
  shows "ident_of s' = ident_of s \<and> mode_of s' = mode_of s \<and> set (map fst (connectors_of s')) = set (map fst (connectors_of s)) - {a}"
proof (cases "map_of (connectors_of s) a")
  case None
  then have "a \<notin> fst ` set (connectors_of s)" by (simp add: map_of_eq_None_iff)
  then show ?thesis using assms None by (simp add: removeAddressSplitMode_def)
next
  case (Some c)
  then have "s' = set_connectors (AList.delete a (connectors_of s)) (log_call (StateClose (c_addrID c)) (log_call (RemoveIMAPUser True [a]) s))"
    using assms by (auto simp: removeAddressSplitMode_def Let_def split: option.splits)
  then show ?thesis by (auto simp: AList.delete_eq)
qed

lemma address_event_split_inv:
  assumes ok: "address_event_split W e s = Some (None, s')" and cov: "enabled_ids (ident_of s) \<subseteq> set (map fst (connectors_of s))"
  shows "mode_of s' = mode_of s \<and> enabled_ids (ident_of s') \<subseteq> set (map fst (connectors_of s'))"
proof (cases "ev_Action e = EventCreate")
  case True
  obtain st i where o: "OnAddressCreated (w_enum W) e (ident_of s) = (st, i)" by fastforce
  have en: "enabled_ids i = (if st = AddressUpdateCreated then insert (a_ID (ev_Address e)) (enabled_ids (ident_of s)) else enabled_ids (ident_of s))"
    using o by (auto simp: OnAddressCreated_def Let_def enabled_ids_def split: if_splits)
  show ?thesis
    using ok True o en cov addNewAddress_ok[of W "a_ID (ev_Address e)" "set_ident i s" s']
    by (cases "st = AddressUpdateCreated") (auto simp: address_event_split_def)
next
  case nc: False
  show ?thesis
  proof (cases "ev_Action e = EventDelete")
    case True
    obtain x st i where o: "OnAddressDeleted (w_enum W) e (ident_of s) = ((x, st), i)" by (metis prod.exhaust)
    have en: "enabled_ids i = (if st = AddressUpdateDeleted then enabled_ids (ident_of s) - {ev_ID e} else enabled_ids (ident_of s))"
      using o by (auto simp: OnAddressDeleted_def Let_def enabled_ids_def split: if_splits option.splits)
    show ?thesis
      using ok True o en cov removeAddress_ok[of W "ev_ID e" "set_ident i s" s']
      by (cases "st = AddressUpdateDeleted") (auto simp: address_event_split_def)
  next
    case False
    obtain a st i where o: "OnAddressUpdated (w_enum W) e (ident_of s) = ((a, st), i)" by (metis prod.exhaust)
    have en: "enabled_ids i =
        (if st = AddressUpdateCreated \<or> st = AddressUpdateEnabled then insert (a_ID a) (enabled_ids (ident_of s))
         else if st = AddressUpdateDisabled then enabled_ids (ident_of s) - {a_ID a} else enabled_ids (ident_of s))"
      using o by (auto simp: OnAddressUpdated_def OnAddressCreated_def Let_def enabled_ids_def split: if_splits option.splits)
    have ok': "(if st = AddressUpdateCreated \<or> st = AddressUpdateEnabled then addNewAddressSplitMode W (a_ID a) (set_ident i s)
         else if st = AddressUpdateDisabled then Some (removeAddressSplitMode W (a_ID a) (set_ident i s)) else Some (None, set_ident i s)) = Some (None, s')"
      using ok nc False o by (cases "ev_Action e") (simp_all add: address_event_split_def Let_def)
    show ?thesis
      using ok' en cov addNewAddress_ok[of W "a_ID a" "set_ident i s" s'] removeAddress_ok[of W "a_ID a" "set_ident i s" s']
      by (auto split: if_splits)
  qed
qed

lemma address_events_split_inv:
  "address_events_split W es s = Some (None, s') \<Longrightarrow> enabled_ids (ident_of s) \<subseteq> set (map fst (connectors_of s)) \<Longrightarrow>
     mode_of s' = mode_of s \<and> enabled_ids (ident_of s') \<subseteq> set (map fst (connectors_of s'))"
proof (induction es arbitrary: s)
  case (Cons e es)
  then obtain s1 where s1: "address_event_split W e s = Some (None, s1)" "address_events_split W es s1 = Some (None, s')"
    by (auto split: option.splits)
  from address_event_split_inv[OF s1(1) Cons.prems(2)] show ?case using Cons.IH[OF s1(2)] by simp
qed simp

lemma combined_inv:
  assumes "conn_inv s" "mode_of s = AddressModeCombined" "address_event_combined W es s = (None, s')"
  shows "conn_inv s'"
proof -
  obtain p c where p: "GetPrimaryAddr (ident_of s) = Some p" "connectors_of s = [(a_ID p, c)]"
    using assms(1,2) by (auto simp: conn_inv_def map_eq_Cons_conv)
  define s1 where "s1 = set_ident (OnAddressEvents (w_enum W) es (ident_of s)) s"
  obtain q where q: "GetPrimaryAddr (ident_of s1) = Some q"
    using assms(3) p by (auto simp: address_event_combined_def s1_def[symmetric] split: option.splits)
  have s1: "connectors_of s1 = connectors_of s" "mode_of s1 = mode_of s" by (simp_all add: s1_def)
  show ?thesis
  proof (cases "a_ID p = a_ID q")
    case True
    then have "s' = s1" using assms(3) p q by (simp add: address_event_combined_def s1_def[symmetric])
    then show ?thesis using True q s1 p assms(2) by (simp add: conn_inv_def)
  next
    case False
    then have "s' = set_connectors (AList.delete (a_ID p) (AList.update (a_ID q) c [(a_ID p, c)])) s1"
      using assms(3) p q s1 by (simp add: address_event_combined_def s1_def[symmetric])
    then show ?thesis using False q s1 assms(2) by (simp add: conn_inv_def)
  qed
qed

lemma steps_append_None:
  "steps (fs @ gs) s = (None, s') \<longleftrightarrow> (\<exists>s1. steps fs s = (None, s1) \<and> steps gs s1 = (None, s'))"
  by (induction fs arbitrary: s) (auto split: prod.splits option.splits)

text \<open>Steps that touch neither the addresses nor the connectors.\<close>

definition conn_frame :: "('k service \<Rightarrow> 'e option \<times> 'k service) \<Rightarrow> bool" where
  "conn_frame f \<longleftrightarrow> (\<forall>s. ident_of (snd (f s)) = ident_of s \<and> connectors_of (snd (f s)) = connectors_of s \<and> mode_of (snd (f s)) = mode_of s)"

lemma add_connectors_imap: "sv_imap (add_connectors W cs added s) = sv_imap s"
  by (induction W cs added s rule: add_connectors.induct) (simp_all add: Let_def)

lemma conn_frames:
  "conn_frame (removeConnectorsFromServer W b)" "conn_frame (addConnectorsToServer W)" "conn_frame (with_sync f)"
  "conn_frame (startSyncing e)" "conn_frame (\<lambda>t. (None, t\<lparr>sv_lastHandledEventID := e\<rparr>))"
  by (auto simp: conn_frame_def removeConnectorsFromServer_def addConnectorsToServer_def add_connectors_imap with_sync_def set_imap_def
      startSyncing_def beforeStartSyncing_def log_call_def Let_def split: prod.splits sum.splits option.splits)

lemma steps_frame:
  "list_all conn_frame fs \<Longrightarrow> steps fs s = (r, s') \<Longrightarrow>
     ident_of s' = ident_of s \<and> connectors_of s' = connectors_of s \<and> mode_of s' = mode_of s"
proof (induction fs arbitrary: s)
  case (Cons f fs)
  obtain e s1 where f: "f s = (e, s1)" by fastforce
  then have "ident_of s1 = ident_of s \<and> connectors_of s1 = connectors_of s \<and> mode_of s1 = mode_of s"
    using Cons.prems(1) by (auto simp: conn_frame_def) (metis snd_conv)+
  then show ?case using Cons f by (cases e) auto
qed simp

lemma keys_build: "set (map fst (foldl (\<lambda>cs addr. AList.update (a_ID addr) (NewConnector (a_ID addr)) cs) cs0 as)) =
    set (map fst cs0) \<union> a_ID ` set as"
  by (induction as arbitrary: cs0) (auto simp: dom_update)

lemma rebuild_inv:
  assumes en: "enum_ok enum" and inv: "identity_inv enum (ident_of s)" and r: "rebuildConnectors s = (None, s')"
  shows "conn_inv s' \<and> ident_of s' = ident_of s \<and> mode_of s' = mode_of s"
proof -
  obtain new where n: "(buildConnectors s :: 'e service_err + connectors) = Inr new" and
    s': "s' = set_connectors new (s\<lparr>sv_calls := sv_calls s @ map (\<lambda>(_, c). StateClose (c_addrID c)) (connectors_of s)\<rparr>)"
    using r by (cases "buildConnectors s :: 'e service_err + connectors") (auto simp: rebuildConnectors_def buildConnectors_def split: AddressMode.splits option.splits)
  show ?thesis
  proof (cases "mode_of s")
    case AddressModeCombined
    then show ?thesis using n s' by (auto simp: buildConnectors_def conn_inv_def split: option.splits)
  next
    case AddressModeSplit
    have "enabled_ids (ident_of s) \<subseteq> a_ID ` set (AddressesSorted (ident_of s))"
      using sorted_set(1)[OF en inv] inv by (force simp: enabled_ids_def identity_inv_def ran_def)
    then show ?thesis using n s' AddressModeSplit keys_build[of "[]" "AddressesSorted (ident_of s)"] by (simp add: buildConnectors_def conn_inv_def)
  qed
qed

lemma conn_inv_frame:
  "ident_of s' = ident_of s \<Longrightarrow> map fst (connectors_of s') = map fst (connectors_of s) \<Longrightarrow> mode_of s' = mode_of s \<Longrightarrow> conn_inv s \<Longrightarrow> conn_inv s'"
  unfolding conn_inv_def by (cases "mode_of s") simp_all

lemma steps_rebuild_inv:
  fixes fs gs :: "('k service \<Rightarrow> 'e service_err option \<times> 'k service) list"
  assumes en: "enum_ok enum" and inv: "identity_inv enum (ident_of s)"
    and fs: "list_all conn_frame fs" and gs: "list_all conn_frame gs"
    and r: "steps (fs @ rebuildConnectors # gs) s = (None, s')"
  shows "conn_inv s' \<and> mode_of s' = mode_of s"
proof -
  obtain s1 where s1: "steps fs s = (None, s1)" "steps (rebuildConnectors # gs) s1 = (None, s')"
    using r by (auto simp: steps_append_None)
  obtain s2 where s2: "rebuildConnectors s1 = (None :: 'e service_err option, s2)" "steps gs s2 = (None, s')"
    using s1(2) by (auto split: prod.splits option.splits)
  note f1 = steps_frame[OF fs s1(1)] and f2 = steps_frame[OF gs s2(2)]
  have "identity_inv enum (ident_of s1)" using inv f1 by simp
  from rebuild_inv[OF en this s2(1)] show ?thesis using conn_inv_frame[of s' s2] f1 f2 by simp
qed

text \<open>
  Property C8. The mailboxes a client can reach follow the addresses of the account: in combined mode there is exactly one
  connector, filed under the primary address, in split mode every enabled address has a connector. Whenever they handle their work without error, address events
  keep this, and a change of the mode and a refresh establish it, whatever it was before.
\<close>

theorem connectors_follow_addresses:
  fixes W :: "('k, 'e) service_env"
  assumes en: "enum_ok (w_enum W)" and inv: "identity_inv (w_enum W) (ident_of s)"
  shows "(conn_inv s \<and> service_HandleAddressEvents W events s = Some (None, s') \<longrightarrow> conn_inv s') \<and>
     (mode_of s \<noteq> mode \<and> setAddressMode W mode eventID s = (None, s') \<longrightarrow> conn_inv s' \<and> mode_of s' = mode) \<and>
     (service_HandleRefreshEvent W getUser getAddresses eventID s = (None, s') \<longrightarrow> conn_inv s')"
proof (intro conjI impI; (elim conjE)?)
  assume c: "conn_inv s" and h: "service_HandleAddressEvents W events s = Some (None, s')"
  show "conn_inv s'"
  proof (cases "mode_of s")
    case AddressModeCombined
    then show ?thesis using combined_inv[OF c] h by (simp add: service_HandleAddressEvents_def)
  next
    case AddressModeSplit
    then show ?thesis using address_events_split_inv[of W events s s'] c h by (simp add: service_HandleAddressEvents_def conn_inv_def)
  qed
next
  assume m: "mode_of s \<noteq> mode" and h: "setAddressMode W mode eventID s = (None, s')"
  let ?s = "cancelSync (set_imap (\<lambda>i. i\<lparr>is_mode := mode\<rparr>) s)"
  have i: "identity_inv (w_enum W) (ident_of ?s)" and m': "mode_of ?s = mode" using inv by (simp_all add: cancelSync_def set_imap_def)
  have "steps ([removeConnectorsFromServer W True, with_sync ClearSyncStatus] @ rebuildConnectors # [addConnectorsToServer W, startSyncing eventID]) ?s =
      (None :: 'e service_err option, s')"
    using h m by (simp add: setAddressMode_def)
  from steps_rebuild_inv[OF en i _ _ this] show "conn_inv s'" "mode_of s' = mode" unfolding m' by (simp_all add: conn_frames)
next
  assume h: "service_HandleRefreshEvent W getUser getAddresses eventID s = (None, s')"
  obtain ident where o: "OnRefreshEvent (w_enum W) getUser getAddresses (ident_of s) = (None, ident)"
    using h by (auto simp: service_HandleRefreshEvent_def split: prod.splits option.splits)
  have i: "identity_inv (w_enum W) (ident_of (cancelSync (set_ident ident s)))"
    using OnRefreshEvent_inv[OF inv, of getUser getAddresses] o by simp
  have "steps ([removeConnectorsFromServer W True] @ rebuildConnectors # [with_sync ClearSyncStatus, addConnectorsToServer W,
      \<lambda>t. (None, t\<lparr>sv_lastHandledEventID := eventID\<rparr>), startSyncing eventID]) (cancelSync (set_ident ident s)) = (None :: 'e service_err option, s')"
    using h o by (simp add: service_HandleRefreshEvent_def)
  from steps_rebuild_inv[OF en i _ _ this] show "conn_inv s'" by (simp add: conn_frames)
qed

definition sample_service :: "unit service" where
  "sample_service = \<lparr>sv_imap = sample_imap, sv_showAllMail = True, sv_isSyncing = False, sv_lastHandledEventID = ''e1'', sv_calls = []\<rparr>"

definition sample_senv :: "(unit, string) service_env" where
  "sample_senv = \<lparr>w_enum = key_order, w_AddIMAPUser = (\<lambda>a. None), w_RemoveIMAPUser = (\<lambda>b as. None),
     w_labels = (\<lambda>a. \<lparr>e_fetch = (\<lambda>k l. Inl FetchNotFound), e_GetLabel = (\<lambda>k i ts. Inl ErrNoSuchLabel)\<rparr>), w_wait = (\<lambda>u. None)\<rparr>"

definition sample_ident :: "unit State" where
  "sample_ident = NewState key_order ex_user [ex_addr ''1'' ''me@pm.me'' AddressStatusEnabled 0, ex_addr ''2'' ''alt@pm.me'' AddressStatusEnabled 1]"

theorem connectors_follow_addresses_witness:
  "\<exists>s'. setAddressMode sample_senv AddressModeSplit ''e1'' (set_ident sample_ident sample_service) = (None, s') \<and>
     conn_inv s' \<and> mode_of s' = AddressModeSplit"
proof -
  let ?s = "set_ident sample_ident sample_service"
  have en: "enum_ok (w_enum sample_senv)" by (simp add: sample_senv_def key_order_ok)
  have inv: "identity_inv (w_enum sample_senv) (ident_of ?s)" by (simp add: sample_senv_def sample_ident_def NewState_inv)
  have m: "mode_of ?s \<noteq> AddressModeSplit" by (simp add: sample_service_def sample_imap_def)
  have "fst (setAddressMode sample_senv AddressModeSplit ''e1'' ?s) = None"
    by (simp add: setAddressMode_def sample_service_def sample_imap_def sample_senv_def removeConnectorsFromServer_def rebuildConnectors_def buildConnectors_def
        addConnectorsToServer_def add_connectors_imap startSyncing_def beforeStartSyncing_def GetSyncStatus_def ex_world_def ex_disk_def with_sync_def
        ClearSyncStatus_def SetStartSyncEventID_def storeUnsafe_def storeImpl_def setStatus_def next_fault_def DefaultStatus_def service_upds cancelSync_def Let_def)
  then obtain s' where s': "setAddressMode sample_senv AddressModeSplit ''e1'' ?s = (None, s')" by (metis prod.collapse)
  then show ?thesis using connectors_follow_addresses[OF en inv] m by blast
qed

subsection \<open>No event between two syncs is missed\<close>

definition restart :: "string \<Rightarrow> 'k service \<Rightarrow> 'e service_err option \<times> 'k service" where
  "restart eventID s = startSyncing eventID (cancelSync s)"

abbreviation start_event :: "'k service \<Rightarrow> string" where
  "start_event s \<equiv> StartSyncEventID (status (fst (is_sync (sv_imap s))))"

lemma SetStartSyncEventID_status:
  "StartSyncEventID (status (fst (snd (SetStartSyncEventID i w)))) = i"
  by (simp add: SetStartSyncEventID_def)

lemma startSyncing_event:
  assumes "startSyncing e s = (None, s')"
  shows "start_event s' = (if start_event s = [] then e else start_event s) \<and> sv_isSyncing s'"
proof (cases "start_event s = []")
  case True
  obtain err w where w: "SetStartSyncEventID e (is_sync (sv_imap s)) = (err, w)"
    by (cases "SetStartSyncEventID e (is_sync (sv_imap s))")
  then have "StartSyncEventID (status (fst w)) = e" using SetStartSyncEventID_status[of e "is_sync (sv_imap s)"] by simp
  then show ?thesis
    using assms True w
    by (cases err) (auto simp: startSyncing_def beforeStartSyncing_def GetSyncStatus_def with_sync_def set_imap_def log_call_def)
next
  case False
  then show ?thesis using assms by (auto simp: startSyncing_def beforeStartSyncing_def GetSyncStatus_def log_call_def)
qed

lemma restarts_event:
  "start_event s \<noteq> [] \<Longrightarrow> steps (map restart ids) s = (None :: 'e service_err option, s') \<Longrightarrow> start_event s' = start_event s"
proof (induction ids arbitrary: s)
  case (Cons i ids)
  then obtain s1 where s1: "restart i s = (None :: 'e service_err option, s1)" "steps (map restart ids) s1 = (None :: 'e service_err option, s')"
    by (auto split: prod.splits option.splits)
  have "start_event s1 = start_event s" using startSyncing_event[OF s1(1)[unfolded restart_def]] Cons.prems(1) by simp
  then show ?case using Cons.IH[OF _ s1(2)] Cons.prems(1) by simp
qed simp

text \<open>
  Property C7. No event is missed over a sync, however often it is interrupted and resumed: when a sync that was first started at the event
  \<open>e\<close> and restarted any number of times at later events is finished, the event service goes back to \<open>e\<close>; after that no
  starting point is remembered and events are handled as usual again.
\<close>

theorem rewind_to_first_start:
  fixes s :: "'k service"
  assumes "start_event s = []" and "e \<noteq> []" and "startSyncing e s = (None :: 'e service_err option, s1)"
    and "steps (map restart ids) s1 = (None :: 'e service_err option, s2)" and "res \<noteq> RewindCancelled"
  shows "RewindEventID e \<in> set (drop (length (sv_calls s2)) (sv_calls (after_sync False res s2))) \<and>
     start_event (after_sync False res s2) = [] \<and> \<not> sv_isSyncing (after_sync False res s2)"
proof -
  have s1: "start_event s1 = e" using startSyncing_event[OF assms(3)] assms(1) by simp
  then have s2: "start_event s2 = e" using restarts_event[OF _ assms(4)] assms(2) by simp
  show ?thesis
    using s2 assms(2,5) SetStartSyncEventID_status[of "[]" "is_sync (sv_imap s2)"]
    by (cases res) (simp_all add: after_sync_def GetSyncStatus_def Let_def log_call_def set_imap_def)
qed

lemma sample_start:
  "\<exists>s1 s2. startSyncing ''e1'' sample_service = (None :: string service_err option, s1) \<and>
     steps (map restart [''e7'']) s1 = (None :: string service_err option, s2)"
  by (simp add: startSyncing_def beforeStartSyncing_def restart_def GetSyncStatus_def sample_service_def sample_imap_def ex_world_def ex_disk_def
      with_sync_def SetStartSyncEventID_def storeUnsafe_def storeImpl_def setStatus_def next_fault_def DefaultStatus_def set_imap_def log_call_def
      cancelSync_def Let_def)

theorem rewind_to_first_start_witness:
  "\<exists>s2. RewindEventID ''e1'' \<in> set (drop (length (sv_calls s2)) (sv_calls (after_sync False RewindOK (s2 :: unit service))))"
proof -
  obtain s1 s2 where s: "startSyncing ''e1'' sample_service = (None :: string service_err option, s1)"
    "steps (map restart [''e7'']) s1 = (None :: string service_err option, s2)" using sample_start by blast
  have "start_event sample_service = []" by (simp add: sample_service_def sample_imap_def ex_world_def DefaultStatus_def)
  from rewind_to_first_start[OF this _ s, of RewindOK] show ?thesis by auto
qed

subsection \<open>What goes wrong\<close>

text \<open>
  A change of the address mode that fails because the old users cannot be removed from the server is not undone and not repeated:
  the service is left in the new mode with the connectors of the old one and without a sync, and asking for the same mode again
  reports success without doing anything.
\<close>

theorem failed_mode_change_sticks:
  assumes "mode_of s \<noteq> mode" and "w_RemoveIMAPUser W True (map (\<lambda>(_, c). c_addrID c) (connectors_of s)) = Some e"
  shows "\<exists>s1. setAddressMode W mode eventID s = (Some (RemoveFromServerErr e), s1) \<and>
     mode_of s1 = mode \<and> connectors_of s1 = connectors_of s \<and> \<not> sv_isSyncing s1 \<and> setAddressMode W' mode eventID' s1 = (None, s1)"
  using assms by (simp add: setAddressMode_def removeConnectorsFromServer_def Let_def log_call_def cancelSync_def set_imap_def)

theorem failed_mode_change_sticks_witness:
  "\<exists>s1. setAddressMode (sample_senv\<lparr>w_RemoveIMAPUser := (\<lambda>b as. Some ''busy'')\<rparr>) AddressModeSplit ''e1'' sample_service = (Some (RemoveFromServerErr ''busy''), s1) \<and>
     mode_of s1 = AddressModeSplit \<and> connectors_of s1 = connectors_of sample_service \<and> \<not> sv_isSyncing s1 \<and>
     setAddressMode sample_senv AddressModeSplit ''e2'' s1 = (None, s1)"
  by (rule failed_mode_change_sticks) (simp_all add: sample_service_def sample_imap_def)

text \<open>
  In combined mode the connector keeps the address it was made for. When that address is deleted, the connector is filed under the new primary
  address, but messages are still stored for the old one, which fails.
\<close>

theorem connector_keeps_deleted_address:
  assumes "GetPrimaryAddr (ident_of s) = Some p" and "connectors_of s = [(a_ID p, NewConnector (a_ID p))]"
    and "ev_Action e = EventDelete" and "ev_ID e = a_ID p" and "address_event_combined W [e] s = (None, s')"
  shows "map (\<lambda>(_, c). c_addrID c) (connectors_of s') = [a_ID p] \<and> default_import_address (ident_of s') (a_ID p) = Inl NoAccountAddress"
proof -
  define es where "es = [e]"
  define s1 where "s1 = set_ident (OnAddressEvents (w_enum W) es (ident_of s)) s"
  note ok = assms(5)[folded es_def]
  have gone: "Addresses (ident_of s1) (a_ID p) = None"
    using assms(3,4) by (auto simp: s1_def es_def OnAddressDeleted_def Let_def split: option.splits)
  obtain q where q: "GetPrimaryAddr (ident_of s1) = Some q"
    using assms(1) ok by (auto simp: address_event_combined_def s1_def[symmetric] split: option.splits)
  have s1: "connectors_of s1 = [(a_ID p, NewConnector (a_ID p))]" using assms(2) by (simp add: s1_def)
  have "s' = (if a_ID p = a_ID q then s1 else set_connectors [(a_ID q, NewConnector (a_ID p))] s1)"
    using assms(1) ok q s1 by (auto simp: address_event_combined_def s1_def[symmetric] split: if_splits)
  then have i: "ident_of s' = ident_of s1" and c: "map (\<lambda>(_, c). c_addrID c) (connectors_of s') = [a_ID p]"
    using s1 by (simp_all add: NewConnector_def)
  show ?thesis using gone i c by (simp add: default_import_address_def GetAddrByID_def)
qed

text \<open>
  In split mode the connectors that are built at the start include those of disabled addresses, and deleting such an address does not
  remove its connector.
\<close>

theorem disabled_address_keeps_connector:
  assumes "Addresses (ident_of s) i = Some a" and "a_Status a \<noteq> AddressStatusEnabled" and "ev_Action e = EventDelete" and "ev_ID e = i"
  shows "\<exists>s'. address_event_split W e s = Some (None, s') \<and> Addresses (ident_of s') i = None \<and> connectors_of s' = connectors_of s"
  using assms by (simp add: address_event_split_def OnAddressDeleted_def Let_def)

end
