(* ===== verification/Vault_File.thy ===== *)
theory Vault_File
  imports Bridge_Prelude "HOL-Library.AList"
begin

section \<open>The vault: contents and file format\<close>

text \<open>
  Models the data of \<^verbatim>\<open>internal/vault\<close> (\<^verbatim>\<open>types_*.go\<close>, \<^verbatim>\<open>password_archive.go\<close>), its defaults with the choice of free
  ports (\<^verbatim>\<open>pkg/ports\<close>), the encrypted file (\<^verbatim>\<open>types_file.go\<close>) and the migrations from older versions
  (\<^verbatim>\<open>migrate*.go\<close>).

  The msgpack encoding and the cipher are the environment \<open>vault_env\<close>; what they promise is \<open>codec_ok\<close>. Random tokens, free
  ports and the outcome of file accesses during one operation are a \<open>vault_world\<close>. A slice of bytes is a string, a nil slice
  the empty one; a map that may be nil is an \<open>option\<close>. \<open>None\<close> as the result of an operation is a panic.
\<close>

type_synonym bytes = string
type_synonym float64 = "64 word"
type_synonym uuid = "128 word"

subsection \<open>Searching\<close>

text \<open>\<^verbatim>\<open>slices.IndexFunc\<close>, with \<open>None\<close> for -1.\<close>

fun IndexFunc :: "('a \<Rightarrow> bool) \<Rightarrow> 'a list \<Rightarrow> nat option" where
  "IndexFunc P [] = None"
| "IndexFunc P (x # xs) = (if P x then Some 0 else map_option Suc (IndexFunc P xs))"

lemma IndexFunc_None: "IndexFunc P xs = None \<longleftrightarrow> (\<forall>x \<in> set xs. \<not> P x)"
  by (induction xs) auto

lemma IndexFunc_Some: "IndexFunc P xs = Some i \<Longrightarrow> i < length xs \<and> P (xs ! i)"
  by (induction xs arbitrary: i) (auto split: if_splits)

lemma IndexFunc_update:
  "IndexFunc P xs = Some i \<Longrightarrow> xs[i := f (xs ! i)] = update_first P f xs"
  by (induction xs arbitrary: i) (auto split: if_splits)

lemma IndexFunc_find:
  "find P xs = (case IndexFunc P xs of None \<Rightarrow> None | Some i \<Rightarrow> Some (xs ! i))"
  by (induction xs) (auto split: option.splits)

lemma map_sum_Inr_iff [simp]: "map_sum f id x = Inr y \<longleftrightarrow> x = Inr y"
  by (cases x) auto

subsection \<open>Free ports\<close>

text \<open>\<open>occ (host, port)\<close>: listening on the address fails.\<close>

definition maxPortNumber :: int where "maxPortNumber = 65535"

definition Host :: string where "Host = ''127.0.0.1''"

definition IsPortFree :: "(string \<times> int \<Rightarrow> bool) \<Rightarrow> int \<Rightarrow> bool" where
  "IsPortFree isOccupied port =
     (if 0 \<ge> port \<or> port \<ge> maxPortNumber then False
      else if isOccupied (Host, port) then False
      else \<not> isOccupied ([], port))"

function find_port :: "(string \<times> int \<Rightarrow> bool) \<Rightarrow> int \<Rightarrow> int list \<Rightarrow> bool \<Rightarrow> int \<Rightarrow> int" where
  "find_port occ startPort exclude loopedOnce freePort =
     (if freePort \<in> set exclude \<or> \<not> IsPortFree occ freePort
      then (if freePort + 1 \<ge> maxPortNumber
            then (if loopedOnce then startPort else find_port occ startPort exclude True 1)
            else find_port occ startPort exclude loopedOnce (freePort + 1))
      else freePort)"
  by pat_completeness auto
termination
  by (relation "inv_image (less_than <*lex*> less_than)
        (\<lambda>(_, _, _, loopedOnce, freePort). (if loopedOnce then 0 else 1, nat (maxPortNumber - freePort)))")
    (auto simp: maxPortNumber_def)

declare find_port.simps [simp del]

definition FindFreePortFrom :: "(string \<times> int \<Rightarrow> bool) \<Rightarrow> int \<Rightarrow> int list \<Rightarrow> int" where
  "FindFreePortFrom occ startPort exclude = find_port occ startPort exclude False startPort"

subsection \<open>Contents\<close>

type_synonym Channel = string

definition StableChannel :: Channel where "StableChannel = ''stable''"
definition EarlyChannel :: Channel where "EarlyChannel = ''early''"
definition DefaultUpdateChannel :: Channel where "DefaultUpdateChannel = StableChannel"
definition DefaultMaxSyncMemory :: uint64 where "DefaultMaxSyncMemory = 2 * 1024 * (1024 * 1024)"

record PasswordArchive =
  pa_Archive :: "(string \<rightharpoonup> bytes) option"

record Settings =
  vs_GluonDir :: string
  vs_IMAPPort :: int
  vs_SMTPPort :: int
  vs_IMAPSSL :: bool
  vs_SMTPSSL :: bool
  vs_UpdateChannel :: Channel
  vs_UpdateRollout :: float64
  vs_ColorScheme :: string
  vs_ProxyAllowed :: bool
  vs_ShowAllMail :: bool
  vs_Autostart :: bool
  vs_AutoUpdate :: bool
  vs_TelemetryDisabled :: bool
  vs_LastVersion :: string
  vs_FirstStart :: bool
  vs_MaxSyncMemory :: uint64
  vs_LastUserAgent :: string
  vs_LastHeartbeatSent :: gotime
  vs_PasswordArchive :: PasswordArchive
  vs_SyncWorkers :: int
  vs_SyncAttPool :: int

datatype VaultAddressMode = CombinedMode | SplitMode

record SyncStatus =
  vss_HasLabels :: bool
  vss_HasMessages :: bool
  vss_LastMessageID :: string
  vss_FailedMessageIDs :: "string list"

definition emptySyncStatus :: SyncStatus where
  "emptySyncStatus = \<lparr>vss_HasLabels = False, vss_HasMessages = False, vss_LastMessageID = [], vss_FailedMessageIDs = []\<rparr>"

definition SyncStatus_IsComplete :: "SyncStatus \<Rightarrow> bool" where
  "SyncStatus_IsComplete st \<longleftrightarrow> vss_HasLabels st \<and> vss_HasMessages st"

record UserData =
  ud_UserID :: string
  ud_Username :: string
  ud_PrimaryEmail :: string
  ud_GluonKey :: bytes
  ud_GluonIDs :: "(string \<times> string) list option"
  ud_BridgePass :: bytes
  ud_AddressMode :: VaultAddressMode
  ud_AuthUID :: string
  ud_AuthRef :: string
  ud_KeyPass :: bytes
  ud_SyncStatus :: SyncStatus
  ud_EventID :: string
  ud_UIDValidity :: "(string \<rightharpoonup> 32 word) option"
  ud_ShouldResync :: bool

record Cert =
  ct_Cert :: bytes
  ct_Key :: bytes

record Certs =
  cs_Bridge :: Cert
  cs_CustomCertPath :: string
  cs_CustomKeyPath :: string

record Data =
  d_Settings :: Settings
  d_Users :: "UserData list"
  d_Cookies :: bytes
  d_Certs :: Certs
  d_Migrated :: bool
  d_FeatureFlagStickyKey :: uuid

subsection \<open>Environment and world\<close>

record File =
  f_Version :: int
  f_Data :: bytes

record Settings_2_3_x =
  s23_GluonDir :: string
  s23_IMAPPort :: string
  s23_SMTPPort :: string

record UserData_2_3_x =
  u23_ID :: string
  u23_Name :: string
  u23_GluonKey :: bytes
  u23_SplitMode :: bool

record Data_2_3_x =
  d23_Settings :: Settings_2_3_x
  d23_Users :: "UserData_2_3_x list"

record Settings_2_4_x =
  s24_GluonDir :: string
  s24_IMAPPort :: int
  s24_SMTPPort :: int

record UserData_2_4_x =
  u24_UserID :: string
  u24_Username :: string
  u24_GluonKey :: string
  u24_SplitMode :: bool

record Data_2_4_x =
  d24_Settings :: Settings_2_4_x
  d24_Users :: "UserData_2_4_x list"

text \<open>
  \<open>ve_Open\<close> and \<open>ve_Seal\<close> are the cipher under the vault's key, applied to a nonce; \<open>ve_emailHashString\<close> is the hexadecimal
  hash of an e-mail address.
\<close>

record 'e vault_env =
  ve_UnmarshalFile :: "bytes \<Rightarrow> 'e + File"
  ve_MarshalFile :: "File \<Rightarrow> 'e + bytes"
  ve_UnmarshalData :: "bytes \<Rightarrow> 'e + Data"
  ve_MarshalData :: "Data \<Rightarrow> 'e + bytes"
  ve_Unmarshal23 :: "bytes \<Rightarrow> 'e + Data_2_3_x"
  ve_Unmarshal24 :: "bytes \<Rightarrow> 'e + Data_2_4_x"
  ve_Marshal24 :: "Data_2_4_x \<Rightarrow> 'e + bytes"
  ve_NonceSize :: nat
  ve_Open :: "bytes \<Rightarrow> bytes \<Rightarrow> 'e + bytes"
  ve_Seal :: "bytes \<Rightarrow> bytes \<Rightarrow> bytes"
  ve_emailHashString :: "string \<Rightarrow> string"

text \<open>
  What an operation meets: a token of a given size, a new UUID, a new certificate (\<open>None\<close> if it cannot be generated), a
  random number, the occupied ports, the number of processors, the outcome of writing the vault, and whether reading it fails.
  A failed write leaves anything in the file it wrote to.
\<close>

datatype vault_io = IoOk | IoWriteErr "bytes option" | IoRenameErr

record 'e vault_world =
  vw_RandomToken :: "nat \<Rightarrow> 'e + bytes"
  vw_uuid :: uuid
  vw_cert :: "Cert option"
  vw_rollout :: float64
  vw_isOccupied :: "string \<times> int \<Rightarrow> bool"
  vw_NumCPU :: int
  vw_io :: vault_io
  vw_readErr :: bool

definition codec_ok :: "'e vault_env \<Rightarrow> bool" where
  "codec_ok E \<longleftrightarrow>
     (\<forall>f b. ve_MarshalFile E f = Inr b \<longrightarrow> ve_UnmarshalFile E b = Inr f) \<and>
     (\<forall>d b. ve_MarshalData E d = Inr b \<longrightarrow> ve_UnmarshalData E b = Inr d) \<and>
     (\<forall>d b. ve_Marshal24 E d = Inr b \<longrightarrow> ve_Unmarshal24 E b = Inr d) \<and>
     (\<forall>n m. ve_Open E n (ve_Seal E n m) = Inr m)"

definition tokens_ok :: "'e vault_world \<Rightarrow> bool" where
  "tokens_ok w \<longleftrightarrow> (\<forall>n t. vw_RandomToken w n = Inr t \<longrightarrow> length t = n)"

datatype 'e vault_err =
    VaultErr 'e
  | ErrUnmarshal 'e
  | ErrDecryptFailed 'e
  | AlreadyCurrentVersion
  | UnknownVersion int
  | WriteVaultErr
  | OverwriteVaultErr
  | ReadVaultErr
  | NoSuchUser
  | UserAlreadyExists
  | UserInUse string
  | UserNotAttached string
  | VaultInUse
  | GluonIDMismatch string string
  | InvalidCertificate

subsection \<open>Archived passwords and defaults\<close>

definition archive_set :: "(string \<Rightarrow> string) \<Rightarrow> string \<Rightarrow> bytes \<Rightarrow> PasswordArchive \<Rightarrow> PasswordArchive" where
  "archive_set emailHashString emailAddress password p =
     p\<lparr>pa_Archive := Some ((case pa_Archive p of None \<Rightarrow> Map.empty | Some m \<Rightarrow> m)(emailHashString emailAddress \<mapsto> password))\<rparr>"

definition archive_get :: "(string \<Rightarrow> string) \<Rightarrow> string \<Rightarrow> PasswordArchive \<Rightarrow> bytes" where
  "archive_get emailHashString emailAddress p =
     (case pa_Archive p of
        None \<Rightarrow> []
      | Some m \<Rightarrow> (case m (emailHashString emailAddress) of None \<Rightarrow> [] | Some password \<Rightarrow> password))"

lemma archive_get_set:
  "archive_get H a (archive_set H b pw p) = (if H a = H b then pw else archive_get H a p)"
  by (auto simp: archive_get_def archive_set_def split: option.splits)

definition GetDefaultSyncWorkerCount :: "int \<Rightarrow> int" where
  "GetDefaultSyncWorkerCount numCPU = max (numCPU * 4) 16"

definition newDefaultSettings :: "'e vault_world \<Rightarrow> string \<Rightarrow> Settings" where
  "newDefaultSettings w gluonDir =
     (let syncWorkers = GetDefaultSyncWorkerCount (vw_NumCPU w);
          imapPort = FindFreePortFrom (vw_isOccupied w) 1143 [];
          smtpPort = FindFreePortFrom (vw_isOccupied w) 1025 [imapPort]
      in \<lparr>vs_GluonDir = gluonDir, vs_IMAPPort = imapPort, vs_SMTPPort = smtpPort, vs_IMAPSSL = False, vs_SMTPSSL = False,
          vs_UpdateChannel = DefaultUpdateChannel, vs_UpdateRollout = vw_rollout w, vs_ColorScheme = [], vs_ProxyAllowed = False,
          vs_ShowAllMail = True, vs_Autostart = True, vs_AutoUpdate = True, vs_TelemetryDisabled = False,
          vs_LastVersion = ''0.0.0'', vs_FirstStart = True, vs_MaxSyncMemory = DefaultMaxSyncMemory,
          vs_LastUserAgent = DefaultUserAgent, vs_LastHeartbeatSent = 0, vs_PasswordArchive = \<lparr>pa_Archive = None\<rparr>,
          vs_SyncWorkers = syncWorkers, vs_SyncAttPool = syncWorkers\<rparr>)"

definition newDefaultCerts :: "'e vault_world \<Rightarrow> Certs option" where
  "newDefaultCerts w =
     map_option (\<lambda>c. \<lparr>cs_Bridge = c, cs_CustomCertPath = [], cs_CustomKeyPath = []\<rparr>) (vw_cert w)"

definition newDefaultData :: "'e vault_world \<Rightarrow> string \<Rightarrow> Data option" where
  "newDefaultData w gluonDir =
     map_option (\<lambda>certs. \<lparr>d_Settings = newDefaultSettings w gluonDir, d_Users = [], d_Cookies = [], d_Certs = certs,
                          d_Migrated = False, d_FeatureFlagStickyKey = vw_uuid w\<rparr>) (newDefaultCerts w)"

text \<open>\<open>None\<close> is the panic of \<^verbatim>\<open>newRandomToken\<close>.\<close>

definition newRandomToken :: "'e vault_world \<Rightarrow> nat \<Rightarrow> bytes option" where
  "newRandomToken w n = (case vw_RandomToken w n of Inl _ \<Rightarrow> None | Inr t \<Rightarrow> Some t)"

definition newDefaultUser ::
  "'e vault_world \<Rightarrow> string \<Rightarrow> string \<Rightarrow> string \<Rightarrow> string \<Rightarrow> string \<Rightarrow> bytes \<Rightarrow> bytes \<Rightarrow> UserData option" where
  "newDefaultUser w userID username primaryEmail authUID authRef keyPass bridgePass =
     map_option (\<lambda>gluonKey.
       \<lparr>ud_UserID = userID, ud_Username = username, ud_PrimaryEmail = primaryEmail, ud_GluonKey = gluonKey,
        ud_GluonIDs = Some [], ud_BridgePass = bridgePass, ud_AddressMode = CombinedMode, ud_AuthUID = authUID,
        ud_AuthRef = authRef, ud_KeyPass = keyPass, ud_SyncStatus = emptySyncStatus, ud_EventID = [],
        ud_UIDValidity = Some Map.empty, ud_ShouldResync = False\<rparr>) (newRandomToken w 32)"

subsection \<open>Migrations\<close>

text \<open>\<^verbatim>\<open>strconv.Atoi\<close> on a 64-bit platform: an optional sign, then digits, within the range of the type.\<close>

definition digit_value :: "char \<Rightarrow> int option" where
  "digit_value c = (let d = of_char c - 48 in if 0 \<le> d \<and> d \<le> 9 then Some d else None)"

fun digits_value :: "int \<Rightarrow> string \<Rightarrow> int option" where
  "digits_value acc [] = Some acc"
| "digits_value acc (c # cs) = Option.bind (digit_value c) (\<lambda>d. digits_value (10 * acc + d) cs)"

definition Atoi :: "string \<Rightarrow> int option" where
  "Atoi s =
     (let (sign, ds) = (if s \<noteq> [] \<and> hd s = CHR ''-'' then (-1, tl s) else if s \<noteq> [] \<and> hd s = CHR ''+'' then (1, tl s) else (1, s))
      in if ds = [] then None
         else case digits_value 0 ds of
                None \<Rightarrow> None
              | Some n \<Rightarrow> let v = sign * n in if - (2 ^ 63) \<le> v \<and> v < 2 ^ 63 then Some v else None)"

definition Settings_2_3_x_migrate :: "Settings_2_3_x \<Rightarrow> Settings_2_4_x option" where
  "Settings_2_3_x_migrate s =
     (case Atoi (s23_IMAPPort s) of
        None \<Rightarrow> None
      | Some imapPort \<Rightarrow>
          (case Atoi (s23_SMTPPort s) of
             None \<Rightarrow> None
           | Some smtpPort \<Rightarrow> Some \<lparr>s24_GluonDir = s23_GluonDir s, s24_IMAPPort = imapPort, s24_SMTPPort = smtpPort\<rparr>))"

definition UserData_2_3_x_migrate :: "UserData_2_3_x \<Rightarrow> UserData_2_4_x" where
  "UserData_2_3_x_migrate u =
     \<lparr>u24_UserID = u23_ID u, u24_Username = u23_Name u, u24_GluonKey = u23_GluonKey u, u24_SplitMode = u23_SplitMode u\<rparr>"

definition Data_2_3_x_migrate :: "Data_2_3_x \<Rightarrow> Data_2_4_x option" where
  "Data_2_3_x_migrate d =
     map_option (\<lambda>s. \<lparr>d24_Settings = s, d24_Users = map UserData_2_3_x_migrate (d23_Users d)\<rparr>)
       (Settings_2_3_x_migrate (d23_Settings d))"

definition Settings_2_4_x_migrate :: "'e vault_world \<Rightarrow> Settings_2_4_x \<Rightarrow> Settings" where
  "Settings_2_4_x_migrate w s =
     (newDefaultSettings w (s24_GluonDir s))\<lparr>vs_IMAPPort := s24_IMAPPort s, vs_SMTPPort := s24_SMTPPort s\<rparr>"

definition UserData_2_4_x_migrate :: "UserData_2_4_x \<Rightarrow> UserData" where
  "UserData_2_4_x_migrate u =
     \<lparr>ud_UserID = u24_UserID u, ud_Username = u24_Username u, ud_PrimaryEmail = [], ud_GluonKey = u24_GluonKey u,
      ud_GluonIDs = None, ud_BridgePass = [], ud_AddressMode = (if u24_SplitMode u then SplitMode else CombinedMode),
      ud_AuthUID = [], ud_AuthRef = [], ud_KeyPass = [], ud_SyncStatus = emptySyncStatus, ud_EventID = [],
      ud_UIDValidity = None, ud_ShouldResync = False\<rparr>"

definition emptyCerts :: Certs where
  "emptyCerts = \<lparr>cs_Bridge = \<lparr>ct_Cert = [], ct_Key = []\<rparr>, cs_CustomCertPath = [], cs_CustomKeyPath = []\<rparr>"

definition Data_2_4_x_migrate :: "'e vault_world \<Rightarrow> Data_2_4_x \<Rightarrow> Data" where
  "Data_2_4_x_migrate w d =
     \<lparr>d_Settings = Settings_2_4_x_migrate w (d24_Settings d), d_Users = map UserData_2_4_x_migrate (d24_Users d),
      d_Cookies = [], d_Certs = emptyCerts, d_Migrated = False, d_FeatureFlagStickyKey = 0\<rparr>"

definition upgrade_2_3_x :: "'e vault_env \<Rightarrow> bytes \<Rightarrow> ('e vault_err + bytes) option" where
  "upgrade_2_3_x E b =
     (case ve_Unmarshal23 E b of
        Inl e \<Rightarrow> Some (Inl (VaultErr e))
      | Inr old \<Rightarrow> map_option (\<lambda>d. map_sum VaultErr id (ve_Marshal24 E d)) (Data_2_3_x_migrate old))"

definition upgrade_2_4_x :: "'e vault_env \<Rightarrow> 'e vault_world \<Rightarrow> bytes \<Rightarrow> 'e vault_err + bytes" where
  "upgrade_2_4_x E w b =
     (case ve_Unmarshal24 E b of
        Inl e \<Rightarrow> Inl (VaultErr e)
      | Inr old \<Rightarrow> map_sum VaultErr id (ve_MarshalData E (Data_2_4_x_migrate w old)))"

definition Current :: int where "Current = 2"

definition upgrade :: "'e vault_env \<Rightarrow> 'e vault_world \<Rightarrow> int \<Rightarrow> bytes \<Rightarrow> ('e vault_err + bytes) option" where
  "upgrade E w v b =
     (if v = 0 then upgrade_2_3_x E b
      else if v = 1 then Some (upgrade_2_4_x E w b)
      else if v = Current then Some (Inl AlreadyCurrentVersion)
      else Some (Inl (UnknownVersion v)))"

subsection \<open>The encrypted file\<close>

function upgrade_all :: "'e vault_env \<Rightarrow> 'e vault_world \<Rightarrow> int \<Rightarrow> bytes \<Rightarrow> ('e vault_err + bytes) option" where
  "upgrade_all E w v dec =
     (if v < Current
      then (case upgrade E w v dec of
              Some (Inr dec') \<Rightarrow> upgrade_all E w (v + 1) dec'
            | r \<Rightarrow> r)
      else Some (Inr dec))"
  by pat_completeness auto
termination
  by (relation "measure (\<lambda>(_, _, v, _). nat (Current - v))") (auto simp: Current_def)

declare upgrade_all.simps [simp del]

definition unmarshalFile :: "'e vault_env \<Rightarrow> 'e vault_world \<Rightarrow> bytes \<Rightarrow> ('e vault_err + Data) option" where
  "unmarshalFile E w b =
     (case ve_UnmarshalFile E b of
        Inl e \<Rightarrow> Some (Inl (ErrUnmarshal e))
      | Inr f \<Rightarrow>
          if length (f_Data f) < ve_NonceSize E then None
          else (case ve_Open E (take (ve_NonceSize E) (f_Data f)) (drop (ve_NonceSize E) (f_Data f)) of
                  Inl e \<Rightarrow> Some (Inl (ErrDecryptFailed e))
                | Inr dec \<Rightarrow>
                    (case upgrade_all E w (f_Version f) dec of
                       None \<Rightarrow> None
                     | Some (Inl e) \<Rightarrow> Some (Inl e)
                     | Some (Inr dec') \<Rightarrow> Some (map_sum ErrUnmarshal id (ve_UnmarshalData E dec')))))"

definition marshalFile :: "'e vault_env \<Rightarrow> 'e vault_world \<Rightarrow> Data \<Rightarrow> 'e vault_err + bytes" where
  "marshalFile E w t =
     (case ve_MarshalData E t of
        Inl e \<Rightarrow> Inl (VaultErr e)
      | Inr dec \<Rightarrow>
          (case vw_RandomToken w (ve_NonceSize E) of
             Inl e \<Rightarrow> Inl (VaultErr e)
           | Inr nonce \<Rightarrow>
               map_sum VaultErr id
                 (ve_MarshalFile E \<lparr>f_Version = Current, f_Data = nonce @ ve_Seal E nonce dec\<rparr>)))"

lemma unmarshal_marshal:
  assumes "codec_ok E" "tokens_ok w" "marshalFile E w data = Inr b"
  shows "unmarshalFile E w' b = Some (Inr data)"
proof -
  obtain dec where dec: "ve_MarshalData E data = Inr dec"
    using assms(3) by (auto simp: marshalFile_def split: sum.splits)
  obtain nonce where nonce: "vw_RandomToken w (ve_NonceSize E) = Inr nonce"
    using assms(3) dec by (auto simp: marshalFile_def split: sum.splits)
  let ?f = "\<lparr>f_Version = Current, f_Data = nonce @ ve_Seal E nonce dec\<rparr>"
  have "ve_MarshalFile E ?f = Inr b"
    using assms(3) dec nonce by (cases "ve_MarshalFile E ?f") (auto simp: marshalFile_def)
  then have "ve_UnmarshalFile E b = Inr ?f" "ve_UnmarshalData E dec = Inr data" "length nonce = ve_NonceSize E"
    using assms(1,2) dec nonce by (auto simp: codec_ok_def tokens_ok_def)
  moreover have "ve_Open E nonce (ve_Seal E nonce dec) = Inr dec" using assms(1) by (simp add: codec_ok_def)
  ultimately show ?thesis by (simp add: unmarshalFile_def upgrade_all.simps)
qed

subsection \<open>Properties of the port search and the file\<close>

lemma IsPortFree_range: "IsPortFree occ p \<Longrightarrow> 1 \<le> p \<and> p < maxPortNumber"
  by (auto simp: IsPortFree_def split: if_splits)

lemma find_port_result:
  "find_port occ s exclude looped p = r \<Longrightarrow>
     r \<notin> set exclude \<and> IsPortFree occ r \<or>
     r = s \<and> (\<forall>q. (if looped then p else 1) \<le> q \<longrightarrow> q \<in> set exclude \<or> \<not> IsPortFree occ q)"
proof (induction occ s exclude looped p rule: find_port.induct)
  case (1 occ s exclude looped p)
  note eq = "1.prems"[unfolded find_port.simps[of occ s exclude looped p]]
  show ?case
  proof (cases "p \<in> set exclude \<or> \<not> IsPortFree occ p")
    case False
    then show ?thesis using eq by simp
  next
    case busy: True
    consider (last) "p + 1 \<ge> maxPortNumber" looped | (wrap) "p + 1 \<ge> maxPortNumber" "\<not> looped" | (step) "p + 1 < maxPortNumber"
      by linarith
    then show ?thesis
    proof cases
      case last
      then have "r = s" using eq busy by simp
      moreover have "q \<in> set exclude \<or> \<not> IsPortFree occ q" if "p \<le> q" for q
        using that last(1) busy IsPortFree_range[of occ q] by (cases "q = p") auto
      ultimately show ?thesis using last by simp
    next
      case wrap
      then have "find_port occ s exclude True 1 = r" using eq busy by simp
      then show ?thesis using "1.IH"(1) busy wrap by simp
    next
      case step
      then have "find_port occ s exclude looped (p + 1) = r"
        using eq busy by simp
      then have ih: "r \<notin> set exclude \<and> IsPortFree occ r \<or>
         r = s \<and> (\<forall>q. (if looped then p + 1 else 1) \<le> q \<longrightarrow> q \<in> set exclude \<or> \<not> IsPortFree occ q)"
        using "1.IH"(2) busy step by simp
      have "q \<in> set exclude \<or> \<not> IsPortFree occ q"
        if "\<forall>q. (if looped then p + 1 else 1) \<le> q \<longrightarrow> q \<in> set exclude \<or> \<not> IsPortFree occ q" "(if looped then p else 1) \<le> q" for q
        using that busy by (cases "q = p") (auto split: if_splits)
      with ih show ?thesis by blast
    qed
  qed
qed

text \<open>
  The search for a port ends, whatever is occupied and wherever it starts; its result is a free port that is not
  excluded, unless no port at all is free and allowed, when it is the port the search started from.
\<close>

theorem FindFreePortFrom_free:
  "let p = FindFreePortFrom occ startPort exclude; usable = (\<lambda>q. q \<notin> set exclude \<and> IsPortFree occ q)
   in if \<exists>q. usable q then usable p \<and> 1 \<le> p \<and> p < maxPortNumber else p = startPort"
proof -
  let ?p = "FindFreePortFrom occ startPort exclude"
  have "?p \<notin> set exclude \<and> IsPortFree occ ?p \<or> ?p = startPort \<and> (\<forall>q. 1 \<le> q \<longrightarrow> q \<in> set exclude \<or> \<not> IsPortFree occ q)"
    using find_port_result[of occ startPort exclude False startPort ?p] by (simp add: FindFreePortFrom_def)
  then show ?thesis using IsPortFree_range[of occ] by (auto simp: Let_def)
qed

end
