(* ===== verification/Vault_Users.thy ===== *)
theory Vault_Users
  imports Vault_File
begin

section \<open>The vault: operations\<close>

text \<open>
  Models \<^verbatim>\<open>vault.go\<close>, \<^verbatim>\<open>user.go\<close>, \<^verbatim>\<open>settings.go\<close>, \<^verbatim>\<open>certs.go\<close> and \<^verbatim>\<open>cookies.go\<close> of \<^verbatim>\<open>internal/vault\<close>: the encrypted contents
  in memory and on disk, the users with their reference counts, and the settings. An operation holds the vault's lock from
  start to end, so that it is one step. Its result is \<open>None\<close> for a panic.
\<close>

record vault =
  v_path :: string
  v_gcm :: bool
  v_enc :: bytes
  v_ref :: "(string \<times> int) list"
  v_files :: "string \<rightharpoonup> bytes"

type_synonym ('e, 'r) vault_result = "(('e vault_err + 'r) \<times> vault) option"

subsection \<open>Reading and modifying\<close>

text \<open>After \<open>Close\<close> there is no cipher; every use of it is a nil dereference.\<close>

definition getUnsafe :: "'e vault_env \<Rightarrow> 'e vault_world \<Rightarrow> vault \<Rightarrow> Data option" where
  "getUnsafe E w v =
     (if \<not> v_gcm v then None
      else case unmarshalFile E w (v_enc v) of
             Some (Inr data) \<Rightarrow> Some data
           | _ \<Rightarrow> None)"

text \<open>The function may panic and may hand a value to the caller (a captured variable of the closure).\<close>

definition modUnsafe ::
  "'e vault_env \<Rightarrow> 'e vault_world \<Rightarrow> (Data \<Rightarrow> ('r \<times> Data) option) \<Rightarrow> vault \<Rightarrow> ('e, 'r) vault_result" where
  "modUnsafe E w fn v =
     (if \<not> v_gcm v then None
      else case unmarshalFile E w (v_enc v) of
             None \<Rightarrow> None
           | Some (Inl e) \<Rightarrow> Some (Inl e, v)
           | Some (Inr data) \<Rightarrow>
               (case fn data of
                  None \<Rightarrow> None
                | Some (r, data') \<Rightarrow>
                    (case marshalFile E w data' of
                       Inl e \<Rightarrow> Some (Inl e, v)
                     | Inr enc \<Rightarrow>
                         (let v1 = v\<lparr>v_enc := enc\<rparr>; tmpFile = v_path v @ ''.tmp'' in
                          case vw_io w of
                            IoWriteErr left \<Rightarrow> Some (Inl WriteVaultErr, v1\<lparr>v_files := (v_files v1)(tmpFile := left)\<rparr>)
                          | IoRenameErr \<Rightarrow> Some (Inl OverwriteVaultErr, v1\<lparr>v_files := (v_files v1)(tmpFile \<mapsto> enc)\<rparr>)
                          | IoOk \<Rightarrow> Some (Inr r, v1\<lparr>v_files := (v_files v1)(tmpFile := None, v_path v \<mapsto> enc)\<rparr>)))))"

definition initVault ::
  "'e vault_env \<Rightarrow> 'e vault_world \<Rightarrow> string \<Rightarrow> string \<Rightarrow> (string \<rightharpoonup> bytes) \<Rightarrow> (('e vault_err + bytes) \<times> (string \<rightharpoonup> bytes)) option" where
  "initVault E w path gluonDir fs =
     (case newDefaultData w gluonDir of
        None \<Rightarrow> None
      | Some data \<Rightarrow>
          (case marshalFile E w data of
             Inl e \<Rightarrow> Some (Inl e, fs)
           | Inr enc \<Rightarrow>
               (case vw_io w of
                  IoWriteErr left \<Rightarrow> Some (Inl WriteVaultErr, fs(path := left))
                | _ \<Rightarrow> Some (Inr enc, fs(path \<mapsto> enc)))))"

text \<open>
  \<open>newVault\<close> returns the vault, the corruption it found, or an error; the last component is the file system. \<open>w0\<close> is met when
  a missing file is created, \<open>w\<close> when the file is read and replaced.
\<close>

definition newVault ::
  "'e vault_env \<Rightarrow> 'e vault_world \<Rightarrow> 'e vault_world \<Rightarrow> string \<Rightarrow> string \<Rightarrow> (string \<rightharpoonup> bytes) \<Rightarrow>
     (('e vault_err + vault \<times> 'e vault_err option) \<times> (string \<rightharpoonup> bytes)) option" where
  "newVault E w0 w path gluonDir fs0 =
     (case (if fs0 path = None then initVault E w0 path gluonDir fs0 else Some (Inr [], fs0)) of
        None \<Rightarrow> None
      | Some (Inl e, fs) \<Rightarrow> Some (Inl e, fs)
      | Some (Inr _, fs) \<Rightarrow>
          (case (if vw_readErr w then None else fs path) of
             None \<Rightarrow> Some (Inl ReadVaultErr, fs)
           | Some enc \<Rightarrow>
               (let mk = (\<lambda>enc fs. \<lparr>v_path = path, v_gcm = True, v_enc = enc, v_ref = [], v_files = fs\<rparr>) in
                case unmarshalFile E w enc of
                  None \<Rightarrow> None
                | Some (Inr _) \<Rightarrow> Some (Inr (mk enc fs, None), fs)
                | Some (Inl corrupt) \<Rightarrow>
                    (case initVault E w path gluonDir fs of
                       None \<Rightarrow> None
                     | Some (Inl e, fs1) \<Rightarrow> Some (Inl e, fs1)
                     | Some (Inr newEnc, fs1) \<Rightarrow> Some (Inr (mk newEnc fs1, Some corrupt), fs1)))))"

definition setFeatureFlagStickyKeyIfEmpty :: "'e vault_env \<Rightarrow> 'e vault_world \<Rightarrow> vault \<Rightarrow> ('e, unit) vault_result" where
  "setFeatureFlagStickyKeyIfEmpty E w v =
     (case getUnsafe E w v of
        None \<Rightarrow> None
      | Some data \<Rightarrow>
          if d_FeatureFlagStickyKey data \<noteq> 0 then Some (Inr (), v)
          else modUnsafe E w (\<lambda>data. Some ((), data\<lparr>d_FeatureFlagStickyKey := vw_uuid w\<rparr>)) v)"

subsection \<open>Users and their reference counts\<close>

definition find_user :: "string \<Rightarrow> Data \<Rightarrow> nat option" where
  "find_user userID data = IndexFunc (\<lambda>u. ud_UserID u = userID) (d_Users data)"

definition GetUserIDs :: "'e vault_env \<Rightarrow> 'e vault_world \<Rightarrow> vault \<Rightarrow> string list option" where
  "GetUserIDs E w v = map_option (\<lambda>data. map ud_UserID (d_Users data)) (getUnsafe E w v)"

definition HasUser :: "'e vault_env \<Rightarrow> 'e vault_world \<Rightarrow> string \<Rightarrow> vault \<Rightarrow> bool option" where
  "HasUser E w userID v = map_option (\<lambda>data. find_user userID data \<noteq> None) (getUnsafe E w v)"

definition attachUserUnsafe :: "string \<Rightarrow> vault \<Rightarrow> vault" where
  "attachUserUnsafe userID v =
     v\<lparr>v_ref := AList.update userID ((case map_of (v_ref v) userID of None \<Rightarrow> 0 | Some n \<Rightarrow> n) + 1) (v_ref v)\<rparr>"

definition detachUser :: "string \<Rightarrow> vault \<Rightarrow> 'e vault_err option \<times> vault" where
  "detachUser userID v =
     (case map_of (v_ref v) userID of
        None \<Rightarrow> (Some (UserNotAttached userID), v)
      | Some n \<Rightarrow>
          (None, v\<lparr>v_ref := (if n - 1 = 0 then AList.delete userID (v_ref v) else AList.update userID (n - 1) (v_ref v))\<rparr>))"

text \<open>A vault user is its ID; the handle counts as one reference.\<close>

definition newUserUnsafe :: "'e vault_env \<Rightarrow> 'e vault_world \<Rightarrow> string \<Rightarrow> vault \<Rightarrow> ('e, string) vault_result" where
  "newUserUnsafe E w userID v =
     (case getUnsafe E w v of
        None \<Rightarrow> None
      | Some data \<Rightarrow>
          (case find_user userID data of
             None \<Rightarrow> Some (Inl NoSuchUser, v)
           | Some _ \<Rightarrow> Some (Inr userID, attachUserUnsafe userID v)))"

definition NewUser :: "'e vault_env \<Rightarrow> 'e vault_world \<Rightarrow> string \<Rightarrow> vault \<Rightarrow> ('e, string) vault_result" where
  "NewUser E w userID v = newUserUnsafe E w userID v"

text \<open>
  On an error \<^verbatim>\<open>getUsers\<close> closes the users it has, which takes the lock that it holds already: the call never returns
  (\<open>None\<close>).
\<close>

fun getUsers_loop :: "'e vault_env \<Rightarrow> 'e vault_world \<Rightarrow> string list \<Rightarrow> string list \<Rightarrow> vault \<Rightarrow> ('e, string list) vault_result" where
  "getUsers_loop E w [] result v = Some (Inr result, v)"
| "getUsers_loop E w (userID # ids) result v =
     (case newUserUnsafe E w userID v of
        None \<Rightarrow> None
      | Some (Inl err, v1) \<Rightarrow> if result \<noteq> [] then None else Some (Inl err, v1)
      | Some (Inr u, v1) \<Rightarrow> getUsers_loop E w ids (result @ [u]) v1)"

definition getUsers :: "'e vault_env \<Rightarrow> 'e vault_world \<Rightarrow> vault \<Rightarrow> ('e, string list) vault_result" where
  "getUsers E w v =
     (case getUnsafe E w v of
        None \<Rightarrow> None
      | Some data \<Rightarrow> getUsers_loop E w (map ud_UserID (d_Users data)) [] v)"

definition GetUser ::
  "'e vault_env \<Rightarrow> 'e vault_world \<Rightarrow> string \<Rightarrow> (string \<Rightarrow> vault \<Rightarrow> vault) \<Rightarrow> vault \<Rightarrow> ('e, unit) vault_result" where
  "GetUser E w userID fn v =
     (case NewUser E w userID v of
        None \<Rightarrow> None
      | Some (Inl err, v1) \<Rightarrow> Some (Inl err, v1)
      | Some (Inr user, v1) \<Rightarrow> Some (Inr (), snd (detachUser user (fn user v1) :: 'e vault_err option \<times> vault)))"

text \<open>\<open>run\<close> is the parallel execution of the callback on the users.\<close>

definition ForUser ::
  "'e vault_env \<Rightarrow> 'e vault_world \<Rightarrow> (string list \<Rightarrow> vault \<Rightarrow> ('e vault_err + unit) \<times> vault) \<Rightarrow> vault \<Rightarrow> ('e, unit) vault_result" where
  "ForUser E w run v =
     (case getUsers E w v of
        None \<Rightarrow> None
      | Some (Inl err, v1) \<Rightarrow> Some (Inl err, v1)
      | Some (Inr users, v1) \<Rightarrow>
          (case run users v1 of
             (r, v2) \<Rightarrow> Some (r, foldl (\<lambda>v u. snd (detachUser u v :: 'e vault_err option \<times> vault)) v2 users)))"

definition addUserUnsafe ::
  "'e vault_env \<Rightarrow> 'e vault_world \<Rightarrow> string \<Rightarrow> string \<Rightarrow> string \<Rightarrow> string \<Rightarrow> string \<Rightarrow> bytes \<Rightarrow> vault \<Rightarrow> ('e, string) vault_result" where
  "addUserUnsafe E w userID username primaryEmail authUID authRef keyPass v =
     (case modUnsafe E w (\<lambda>data.
             case find_user userID data of
               Some _ \<Rightarrow> Some (True, data)
             | None \<Rightarrow>
                 (let archived = archive_get (ve_emailHashString E) primaryEmail (vs_PasswordArchive (d_Settings data)) in
                  case (if archived = [] then newRandomToken w 16 else Some archived) of
                    None \<Rightarrow> None
                  | Some bridgePass \<Rightarrow>
                      map_option (\<lambda>u. (False, data\<lparr>d_Users := d_Users data @ [u]\<rparr>))
                        (newDefaultUser w userID username primaryEmail authUID authRef keyPass bridgePass))) v of
        None \<Rightarrow> None
      | Some (Inl e, v1) \<Rightarrow> Some (Inl e, v1)
      | Some (Inr exist, v1) \<Rightarrow>
          if exist then Some (Inl UserAlreadyExists, v1) else Some (Inr userID, attachUserUnsafe userID v1))"

definition AddUser ::
  "'e vault_env \<Rightarrow> 'e vault_world \<Rightarrow> string \<Rightarrow> string \<Rightarrow> string \<Rightarrow> string \<Rightarrow> string \<Rightarrow> bytes \<Rightarrow> vault \<Rightarrow> ('e, string) vault_result" where
  "AddUser E w userID username primaryEmail authUID authRef keyPass v =
     addUserUnsafe E w userID username primaryEmail authUID authRef keyPass v"

text \<open>Changing a user that is not there is an index out of range.\<close>

definition modUserUnsafe ::
  "'e vault_env \<Rightarrow> 'e vault_world \<Rightarrow> string \<Rightarrow> (UserData \<Rightarrow> ('r \<times> UserData) option) \<Rightarrow> vault \<Rightarrow> ('e, 'r) vault_result" where
  "modUserUnsafe E w userID fn v =
     modUnsafe E w (\<lambda>data.
       case find_user userID data of
         None \<Rightarrow> None
       | Some i \<Rightarrow> map_option (\<lambda>(r, u). (r, data\<lparr>d_Users := (d_Users data)[i := u]\<rparr>)) (fn (d_Users data ! i))) v"

definition getUser :: "'e vault_env \<Rightarrow> 'e vault_world \<Rightarrow> string \<Rightarrow> vault \<Rightarrow> UserData option" where
  "getUser E w userID v =
     (case getUnsafe E w v of
        None \<Rightarrow> None
      | Some data \<Rightarrow> map_option (\<lambda>i. d_Users data ! i) (find_user userID data))"

definition setAuthAndKeyPassUnsafe ::
  "'e vault_env \<Rightarrow> 'e vault_world \<Rightarrow> string \<Rightarrow> string \<Rightarrow> string \<Rightarrow> bytes \<Rightarrow> vault \<Rightarrow> ('e, unit) vault_result" where
  "setAuthAndKeyPassUnsafe E w userID authUID authRef keyPass v =
     modUserUnsafe E w userID (\<lambda>u. Some ((), u\<lparr>ud_AuthRef := authRef, ud_AuthUID := authUID, ud_KeyPass := keyPass\<rparr>)) v"

text \<open>\<^verbatim>\<open>strings.TrimSpace\<close> leaves nothing of a username of white space (ASCII).\<close>

definition blank :: "string \<Rightarrow> bool" where
  "blank s \<longleftrightarrow> list_all (\<lambda>c. c \<in> set [CHR '' '', CHR 0x09, CHR 0x0A, CHR 0x0B, CHR 0x0C, CHR 0x0D]) s"

definition updateUsernameUnsafe :: "'e vault_env \<Rightarrow> 'e vault_world \<Rightarrow> string \<Rightarrow> string \<Rightarrow> vault \<Rightarrow> ('e, unit) vault_result" where
  "updateUsernameUnsafe E w userID username v =
     (if blank username then Some (Inr (), v)
      else case getUser E w userID v of
             None \<Rightarrow> None
           | Some u \<Rightarrow>
               if ud_Username u = username then Some (Inr (), v)
               else modUserUnsafe E w userID (\<lambda>u. Some ((), u\<lparr>ud_Username := username\<rparr>)) v)"

text \<open>The two writes for a user that exists meet the worlds \<open>w\<close> and \<open>w2\<close>.\<close>

definition GetOrAddUser ::
  "'e vault_env \<Rightarrow> 'e vault_world \<Rightarrow> 'e vault_world \<Rightarrow> string \<Rightarrow> string \<Rightarrow> string \<Rightarrow> string \<Rightarrow> string \<Rightarrow> bytes \<Rightarrow> vault \<Rightarrow>
     ('e, string \<times> bool) vault_result" where
  "GetOrAddUser E w w2 userID username primaryEmail authUID authRef keyPass v =
     (case getUnsafe E w v of
        None \<Rightarrow> None
      | Some data \<Rightarrow>
          (case find_user userID data of
             Some _ \<Rightarrow>
               (case setAuthAndKeyPassUnsafe E w userID authUID authRef keyPass (attachUserUnsafe userID v) of
                  None \<Rightarrow> None
                | Some (Inl e, v1) \<Rightarrow> Some (Inl e, v1)
                | Some (Inr _, v1) \<Rightarrow>
                    (case updateUsernameUnsafe E w2 userID username v1 of
                       None \<Rightarrow> None
                     | Some (Inl e, v2) \<Rightarrow> Some (Inl e, v2)
                     | Some (Inr _, v2) \<Rightarrow> Some (Inr (userID, False), v2)))
           | None \<Rightarrow>
               map_option (\<lambda>(r, v1). (map_sum id (\<lambda>u. (u, True)) r, v1))
                 (addUserUnsafe E w userID username primaryEmail authUID authRef keyPass v)))"

definition DeleteUser :: "'e vault_env \<Rightarrow> 'e vault_world \<Rightarrow> string \<Rightarrow> vault \<Rightarrow> ('e, unit) vault_result" where
  "DeleteUser E w userID v =
     (case map_of (v_ref v) userID of
        Some _ \<Rightarrow> Some (Inl (UserInUse userID), v)
      | None \<Rightarrow>
          modUnsafe E w (\<lambda>data.
            case find_user userID data of
              None \<Rightarrow> Some ((), data)
            | Some idx \<Rightarrow>
                (let u = d_Users data ! idx; s = d_Settings data in
                 Some ((), data\<lparr>d_Settings := s\<lparr>vs_PasswordArchive :=
                              archive_set (ve_emailHashString E) (ud_PrimaryEmail u) (ud_BridgePass u) (vs_PasswordArchive s)\<rparr>,
                            d_Users := take idx (d_Users data) @ drop (Suc idx) (d_Users data)\<rparr>))) v)"

definition vault_Reset :: "'e vault_env \<Rightarrow> 'e vault_world \<Rightarrow> string \<Rightarrow> vault \<Rightarrow> ('e, unit) vault_result" where
  "vault_Reset E w gluonDir v = modUnsafe E w (\<lambda>_. map_option (Pair ()) (newDefaultData w gluonDir)) v"

definition vault_Close :: "vault \<Rightarrow> 'e vault_err option \<times> vault" where
  "vault_Close v = (if v_ref v \<noteq> [] then (Some VaultInUse, v) else (None, v\<lparr>v_gcm := False\<rparr>))"

subsection \<open>Settings\<close>

definition getSetting :: "'e vault_env \<Rightarrow> 'e vault_world \<Rightarrow> (Settings \<Rightarrow> 'a) \<Rightarrow> vault \<Rightarrow> 'a option" where
  "getSetting E w f v = map_option (\<lambda>data. f (d_Settings data)) (getUnsafe E w v)"

definition modSetting :: "'e vault_env \<Rightarrow> 'e vault_world \<Rightarrow> (Settings \<Rightarrow> Settings) \<Rightarrow> vault \<Rightarrow> ('e, unit) vault_result" where
  "modSetting E w f v = modUnsafe E w (\<lambda>data. Some ((), data\<lparr>d_Settings := f (d_Settings data)\<rparr>)) v"

definition GetIMAPPort :: "'e vault_env \<Rightarrow> 'e vault_world \<Rightarrow> vault \<Rightarrow> int option" where
  "GetIMAPPort E w v = getSetting E w vs_IMAPPort v"

definition SetIMAPPort :: "'e vault_env \<Rightarrow> 'e vault_world \<Rightarrow> int \<Rightarrow> vault \<Rightarrow> ('e, unit) vault_result" where
  "SetIMAPPort E w x v = modSetting E w (\<lambda>s. s\<lparr>vs_IMAPPort := x\<rparr>) v"

definition GetSMTPPort :: "'e vault_env \<Rightarrow> 'e vault_world \<Rightarrow> vault \<Rightarrow> int option" where
  "GetSMTPPort E w v = getSetting E w vs_SMTPPort v"

definition SetSMTPPort :: "'e vault_env \<Rightarrow> 'e vault_world \<Rightarrow> int \<Rightarrow> vault \<Rightarrow> ('e, unit) vault_result" where
  "SetSMTPPort E w x v = modSetting E w (\<lambda>s. s\<lparr>vs_SMTPPort := x\<rparr>) v"

definition GetIMAPSSL :: "'e vault_env \<Rightarrow> 'e vault_world \<Rightarrow> vault \<Rightarrow> bool option" where
  "GetIMAPSSL E w v = getSetting E w vs_IMAPSSL v"

definition SetIMAPSSL :: "'e vault_env \<Rightarrow> 'e vault_world \<Rightarrow> bool \<Rightarrow> vault \<Rightarrow> ('e, unit) vault_result" where
  "SetIMAPSSL E w x v = modSetting E w (\<lambda>s. s\<lparr>vs_IMAPSSL := x\<rparr>) v"

definition GetSMTPSSL :: "'e vault_env \<Rightarrow> 'e vault_world \<Rightarrow> vault \<Rightarrow> bool option" where
  "GetSMTPSSL E w v = getSetting E w vs_SMTPSSL v"

definition SetSMTPSSL :: "'e vault_env \<Rightarrow> 'e vault_world \<Rightarrow> bool \<Rightarrow> vault \<Rightarrow> ('e, unit) vault_result" where
  "SetSMTPSSL E w x v = modSetting E w (\<lambda>s. s\<lparr>vs_SMTPSSL := x\<rparr>) v"

definition GetGluonCacheDir :: "'e vault_env \<Rightarrow> 'e vault_world \<Rightarrow> vault \<Rightarrow> string option" where
  "GetGluonCacheDir E w v = getSetting E w vs_GluonDir v"

definition SetGluonDir :: "'e vault_env \<Rightarrow> 'e vault_world \<Rightarrow> string \<Rightarrow> vault \<Rightarrow> ('e, unit) vault_result" where
  "SetGluonDir E w x v = modSetting E w (\<lambda>s. s\<lparr>vs_GluonDir := x\<rparr>) v"

definition GetUpdateChannel :: "'e vault_env \<Rightarrow> 'e vault_world \<Rightarrow> vault \<Rightarrow> Channel option" where
  "GetUpdateChannel E w v = getSetting E w vs_UpdateChannel v"

definition SetUpdateChannel :: "'e vault_env \<Rightarrow> 'e vault_world \<Rightarrow> Channel \<Rightarrow> vault \<Rightarrow> ('e, unit) vault_result" where
  "SetUpdateChannel E w x v = modSetting E w (\<lambda>s. s\<lparr>vs_UpdateChannel := x\<rparr>) v"

definition GetColorScheme :: "'e vault_env \<Rightarrow> 'e vault_world \<Rightarrow> vault \<Rightarrow> string option" where
  "GetColorScheme E w v = getSetting E w vs_ColorScheme v"

definition SetColorScheme :: "'e vault_env \<Rightarrow> 'e vault_world \<Rightarrow> string \<Rightarrow> vault \<Rightarrow> ('e, unit) vault_result" where
  "SetColorScheme E w x v = modSetting E w (\<lambda>s. s\<lparr>vs_ColorScheme := x\<rparr>) v"

definition GetProxyAllowed :: "'e vault_env \<Rightarrow> 'e vault_world \<Rightarrow> vault \<Rightarrow> bool option" where
  "GetProxyAllowed E w v = getSetting E w vs_ProxyAllowed v"

definition SetProxyAllowed :: "'e vault_env \<Rightarrow> 'e vault_world \<Rightarrow> bool \<Rightarrow> vault \<Rightarrow> ('e, unit) vault_result" where
  "SetProxyAllowed E w x v = modSetting E w (\<lambda>s. s\<lparr>vs_ProxyAllowed := x\<rparr>) v"

definition GetShowAllMail :: "'e vault_env \<Rightarrow> 'e vault_world \<Rightarrow> vault \<Rightarrow> bool option" where
  "GetShowAllMail E w v = getSetting E w vs_ShowAllMail v"

definition SetShowAllMail :: "'e vault_env \<Rightarrow> 'e vault_world \<Rightarrow> bool \<Rightarrow> vault \<Rightarrow> ('e, unit) vault_result" where
  "SetShowAllMail E w x v = modSetting E w (\<lambda>s. s\<lparr>vs_ShowAllMail := x\<rparr>) v"

definition GetAutostart :: "'e vault_env \<Rightarrow> 'e vault_world \<Rightarrow> vault \<Rightarrow> bool option" where
  "GetAutostart E w v = getSetting E w vs_Autostart v"

definition SetAutostart :: "'e vault_env \<Rightarrow> 'e vault_world \<Rightarrow> bool \<Rightarrow> vault \<Rightarrow> ('e, unit) vault_result" where
  "SetAutostart E w x v = modSetting E w (\<lambda>s. s\<lparr>vs_Autostart := x\<rparr>) v"

definition GetAutoUpdate :: "'e vault_env \<Rightarrow> 'e vault_world \<Rightarrow> vault \<Rightarrow> bool option" where
  "GetAutoUpdate E w v = getSetting E w vs_AutoUpdate v"

definition SetAutoUpdate :: "'e vault_env \<Rightarrow> 'e vault_world \<Rightarrow> bool \<Rightarrow> vault \<Rightarrow> ('e, unit) vault_result" where
  "SetAutoUpdate E w x v = modSetting E w (\<lambda>s. s\<lparr>vs_AutoUpdate := x\<rparr>) v"

definition GetTelemetryDisabled :: "'e vault_env \<Rightarrow> 'e vault_world \<Rightarrow> vault \<Rightarrow> bool option" where
  "GetTelemetryDisabled E w v = getSetting E w vs_TelemetryDisabled v"

definition SetTelemetryDisabled :: "'e vault_env \<Rightarrow> 'e vault_world \<Rightarrow> bool \<Rightarrow> vault \<Rightarrow> ('e, unit) vault_result" where
  "SetTelemetryDisabled E w x v = modSetting E w (\<lambda>s. s\<lparr>vs_TelemetryDisabled := x\<rparr>) v"

definition GetFirstStart :: "'e vault_env \<Rightarrow> 'e vault_world \<Rightarrow> vault \<Rightarrow> bool option" where
  "GetFirstStart E w v = getSetting E w vs_FirstStart v"

definition SetFirstStart :: "'e vault_env \<Rightarrow> 'e vault_world \<Rightarrow> bool \<Rightarrow> vault \<Rightarrow> ('e, unit) vault_result" where
  "SetFirstStart E w x v = modSetting E w (\<lambda>s. s\<lparr>vs_FirstStart := x\<rparr>) v"

definition GetLastHeartbeatSent :: "'e vault_env \<Rightarrow> 'e vault_world \<Rightarrow> vault \<Rightarrow> gotime option" where
  "GetLastHeartbeatSent E w v = getSetting E w vs_LastHeartbeatSent v"

definition SetLastHeartbeatSent :: "'e vault_env \<Rightarrow> 'e vault_world \<Rightarrow> gotime \<Rightarrow> vault \<Rightarrow> ('e, unit) vault_result" where
  "SetLastHeartbeatSent E w x v = modSetting E w (\<lambda>s. s\<lparr>vs_LastHeartbeatSent := x\<rparr>) v"

text \<open>Two settings have a default in place of the value that was never written.\<close>

definition GetMaxSyncMemory :: "'e vault_env \<Rightarrow> 'e vault_world \<Rightarrow> vault \<Rightarrow> uint64 option" where
  "GetMaxSyncMemory E w v =
     getSetting E w (\<lambda>s. if vs_MaxSyncMemory s = 0 then DefaultMaxSyncMemory else vs_MaxSyncMemory s) v"

definition SetMaxSyncMemory :: "'e vault_env \<Rightarrow> 'e vault_world \<Rightarrow> uint64 \<Rightarrow> vault \<Rightarrow> ('e, unit) vault_result" where
  "SetMaxSyncMemory E w x v = modSetting E w (\<lambda>s. s\<lparr>vs_MaxSyncMemory := x\<rparr>) v"

definition GetLastUserAgent :: "'e vault_env \<Rightarrow> 'e vault_world \<Rightarrow> vault \<Rightarrow> string option" where
  "GetLastUserAgent E w v =
     getSetting E w (\<lambda>s. if vs_LastUserAgent s = [] then DefaultUserAgent else vs_LastUserAgent s) v"

definition SetLastUserAgent :: "'e vault_env \<Rightarrow> 'e vault_world \<Rightarrow> string \<Rightarrow> vault \<Rightarrow> ('e, unit) vault_result" where
  "SetLastUserAgent E w x v = modSetting E w (\<lambda>s. s\<lparr>vs_LastUserAgent := x\<rparr>) v"

text \<open>
  The rollout: \<open>forbidden\<close> is the comparison of floating-point numbers with the value that is not allowed; then a new value is drawn and
  stored, and returned even if it could not be stored.
\<close>

definition SetUpdateRollout :: "'e vault_env \<Rightarrow> 'e vault_world \<Rightarrow> float64 \<Rightarrow> vault \<Rightarrow> ('e, unit) vault_result" where
  "SetUpdateRollout E w x v = modSetting E w (\<lambda>s. s\<lparr>vs_UpdateRollout := x\<rparr>) v"

definition GetUpdateRollout ::
  "(float64 \<Rightarrow> bool) \<Rightarrow> 'e vault_env \<Rightarrow> 'e vault_world \<Rightarrow> vault \<Rightarrow> (float64 \<times> vault) option" where
  "GetUpdateRollout forbidden E w v =
     (case getSetting E w vs_UpdateRollout v of
        None \<Rightarrow> None
      | Some rollout \<Rightarrow>
          if \<not> forbidden rollout then Some (rollout, v)
          else map_option (\<lambda>(_, v1). (vw_rollout w, v1)) (SetUpdateRollout E w (vw_rollout w) v))"

text \<open>Versions are kept as strings; \<open>parse\<close> and \<open>print\<close> are those of the version library, \<open>this\<close> the running version.\<close>

definition GetLastVersion ::
  "(string \<Rightarrow> 'ver option) \<Rightarrow> 'ver \<Rightarrow> 'e vault_env \<Rightarrow> 'e vault_world \<Rightarrow> vault \<Rightarrow> 'ver option" where
  "GetLastVersion parse this E w v =
     getSetting E w (\<lambda>s. case parse (vs_LastVersion s) of None \<Rightarrow> this | Some ver \<Rightarrow> ver) v"

definition SetLastVersion ::
  "('ver \<Rightarrow> string) \<Rightarrow> 'e vault_env \<Rightarrow> 'e vault_world \<Rightarrow> 'ver \<Rightarrow> vault \<Rightarrow> ('e, unit) vault_result" where
  "SetLastVersion print E w ver v = modSetting E w (\<lambda>s. s\<lparr>vs_LastVersion := print ver\<rparr>) v"

subsection \<open>Cookies, certificates and the other contents\<close>

definition GetCookies :: "'e vault_env \<Rightarrow> 'e vault_world \<Rightarrow> vault \<Rightarrow> bytes option" where
  "GetCookies E w v = map_option d_Cookies (getUnsafe E w v)"

definition SetCookies :: "'e vault_env \<Rightarrow> 'e vault_world \<Rightarrow> bytes \<Rightarrow> vault \<Rightarrow> ('e, unit) vault_result" where
  "SetCookies E w cookies v = modUnsafe E w (\<lambda>data. Some ((), data\<lparr>d_Cookies := cookies\<rparr>)) v"

definition Migrated :: "'e vault_env \<Rightarrow> 'e vault_world \<Rightarrow> vault \<Rightarrow> bool option" where
  "Migrated E w v = map_option d_Migrated (getUnsafe E w v)"

definition SetMigrated :: "'e vault_env \<Rightarrow> 'e vault_world \<Rightarrow> vault \<Rightarrow> ('e, unit) vault_result" where
  "SetMigrated E w v = modUnsafe E w (\<lambda>data. Some ((), data\<lparr>d_Migrated := True\<rparr>)) v"

text \<open>\<open>readPEMCert\<close> reads a certificate and its key and checks that they belong together.\<close>

definition GetBridgeTLSCert ::
  "(string \<Rightarrow> string \<Rightarrow> (bytes \<times> bytes) option) \<Rightarrow> 'e vault_env \<Rightarrow> 'e vault_world \<Rightarrow> vault \<Rightarrow> (bytes \<times> bytes) option" where
  "GetBridgeTLSCert readPEMCert E w v =
     map_option (\<lambda>data.
       let certs = d_Certs data; own = (ct_Cert (cs_Bridge certs), ct_Key (cs_Bridge certs)) in
       if cs_CustomCertPath certs \<noteq> [] \<and> cs_CustomKeyPath certs \<noteq> []
       then (case readPEMCert (cs_CustomCertPath certs) (cs_CustomKeyPath certs) of Some c \<Rightarrow> c | None \<Rightarrow> own)
       else own) (getUnsafe E w v)"

definition SetBridgeTLSCertPath ::
  "(string \<Rightarrow> string \<Rightarrow> (bytes \<times> bytes) option) \<Rightarrow> 'e vault_env \<Rightarrow> 'e vault_world \<Rightarrow> string \<Rightarrow> string \<Rightarrow> vault \<Rightarrow>
     ('e, unit) vault_result" where
  "SetBridgeTLSCertPath readPEMCert E w certPath keyPath v =
     (if readPEMCert certPath keyPath = None then Some (Inl InvalidCertificate, v)
      else modUnsafe E w (\<lambda>data. Some ((), data\<lparr>d_Certs := (d_Certs data)\<lparr>cs_CustomCertPath := certPath, cs_CustomKeyPath := keyPath\<rparr>\<rparr>)) v)"

definition SetBridgeTLSCertKey :: "'e vault_env \<Rightarrow> 'e vault_world \<Rightarrow> bytes \<Rightarrow> bytes \<Rightarrow> vault \<Rightarrow> ('e, unit) vault_result" where
  "SetBridgeTLSCertKey E w cert key v =
     modUnsafe E w (\<lambda>data. Some ((), data\<lparr>d_Certs := (d_Certs data)\<lparr>cs_Bridge := \<lparr>ct_Cert = cert, ct_Key = key\<rparr>\<rparr>\<rparr>)) v"

subsection \<open>What a user of the vault reads and writes\<close>

text \<open>
  The setters of a vault user; \<open>modUser\<close> is \<open>modUserUnsafe\<close> under the lock. Each getter is a field of \<open>getUser\<close>.
\<close>

definition user_UserID :: "'e vault_env \<Rightarrow> 'e vault_world \<Rightarrow> string \<Rightarrow> vault \<Rightarrow> string option" where
  "user_UserID E w userID v = map_option ud_UserID (getUser E w userID v)"

definition user_Username :: "'e vault_env \<Rightarrow> 'e vault_world \<Rightarrow> string \<Rightarrow> vault \<Rightarrow> string option" where
  "user_Username E w userID v = map_option ud_Username (getUser E w userID v)"

definition user_PrimaryEmail :: "'e vault_env \<Rightarrow> 'e vault_world \<Rightarrow> string \<Rightarrow> vault \<Rightarrow> string option" where
  "user_PrimaryEmail E w userID v = map_option ud_PrimaryEmail (getUser E w userID v)"

definition user_GluonKey :: "'e vault_env \<Rightarrow> 'e vault_world \<Rightarrow> string \<Rightarrow> vault \<Rightarrow> bytes option" where
  "user_GluonKey E w userID v = map_option ud_GluonKey (getUser E w userID v)"

definition user_GetGluonIDs :: "'e vault_env \<Rightarrow> 'e vault_world \<Rightarrow> string \<Rightarrow> vault \<Rightarrow> (string \<times> string) list option option" where
  "user_GetGluonIDs E w userID v = map_option ud_GluonIDs (getUser E w userID v)"

definition user_AddressMode :: "'e vault_env \<Rightarrow> 'e vault_world \<Rightarrow> string \<Rightarrow> vault \<Rightarrow> VaultAddressMode option" where
  "user_AddressMode E w userID v = map_option ud_AddressMode (getUser E w userID v)"

definition user_BridgePass :: "'e vault_env \<Rightarrow> 'e vault_world \<Rightarrow> string \<Rightarrow> vault \<Rightarrow> bytes option" where
  "user_BridgePass E w userID v = map_option ud_BridgePass (getUser E w userID v)"

definition user_AuthUID :: "'e vault_env \<Rightarrow> 'e vault_world \<Rightarrow> string \<Rightarrow> vault \<Rightarrow> string option" where
  "user_AuthUID E w userID v = map_option ud_AuthUID (getUser E w userID v)"

definition user_AuthRef :: "'e vault_env \<Rightarrow> 'e vault_world \<Rightarrow> string \<Rightarrow> vault \<Rightarrow> string option" where
  "user_AuthRef E w userID v = map_option ud_AuthRef (getUser E w userID v)"

definition user_KeyPass :: "'e vault_env \<Rightarrow> 'e vault_world \<Rightarrow> string \<Rightarrow> vault \<Rightarrow> bytes option" where
  "user_KeyPass E w userID v = map_option ud_KeyPass (getUser E w userID v)"

definition user_SyncStatus :: "'e vault_env \<Rightarrow> 'e vault_world \<Rightarrow> string \<Rightarrow> vault \<Rightarrow> SyncStatus option" where
  "user_SyncStatus E w userID v = map_option ud_SyncStatus (getUser E w userID v)"

definition user_EventID :: "'e vault_env \<Rightarrow> 'e vault_world \<Rightarrow> string \<Rightarrow> vault \<Rightarrow> string option" where
  "user_EventID E w userID v = map_option ud_EventID (getUser E w userID v)"

definition user_GetShouldResync :: "'e vault_env \<Rightarrow> 'e vault_world \<Rightarrow> string \<Rightarrow> vault \<Rightarrow> bool option" where
  "user_GetShouldResync E w userID v = map_option ud_ShouldResync (getUser E w userID v)"

definition user_SetPrimaryEmail :: "'e vault_env \<Rightarrow> 'e vault_world \<Rightarrow> string \<Rightarrow> string \<Rightarrow> vault \<Rightarrow> ('e, unit) vault_result" where
  "user_SetPrimaryEmail E w userID email v = modUserUnsafe E w userID (\<lambda>u. Some ((), u\<lparr>ud_PrimaryEmail := email\<rparr>)) v"

definition user_SetAddressMode :: "'e vault_env \<Rightarrow> 'e vault_world \<Rightarrow> string \<Rightarrow> VaultAddressMode \<Rightarrow> vault \<Rightarrow> ('e, unit) vault_result" where
  "user_SetAddressMode E w userID mode v = modUserUnsafe E w userID (\<lambda>u. Some ((), u\<lparr>ud_AddressMode := mode\<rparr>)) v"

definition user_SetBridgePass :: "'e vault_env \<Rightarrow> 'e vault_world \<Rightarrow> string \<Rightarrow> bytes \<Rightarrow> vault \<Rightarrow> ('e, unit) vault_result" where
  "user_SetBridgePass E w userID newPass v = modUserUnsafe E w userID (\<lambda>u. Some ((), u\<lparr>ud_BridgePass := newPass\<rparr>)) v"

definition user_SetAuth :: "'e vault_env \<Rightarrow> 'e vault_world \<Rightarrow> string \<Rightarrow> string \<Rightarrow> string \<Rightarrow> vault \<Rightarrow> ('e, unit) vault_result" where
  "user_SetAuth E w userID authUID authRef v = modUserUnsafe E w userID (\<lambda>u. Some ((), u\<lparr>ud_AuthUID := authUID, ud_AuthRef := authRef\<rparr>)) v"

definition user_SetKeyPass :: "'e vault_env \<Rightarrow> 'e vault_world \<Rightarrow> string \<Rightarrow> bytes \<Rightarrow> vault \<Rightarrow> ('e, unit) vault_result" where
  "user_SetKeyPass E w userID keyPass v = modUserUnsafe E w userID (\<lambda>u. Some ((), u\<lparr>ud_KeyPass := keyPass\<rparr>)) v"

definition user_SetHasLabels :: "'e vault_env \<Rightarrow> 'e vault_world \<Rightarrow> string \<Rightarrow> bool \<Rightarrow> vault \<Rightarrow> ('e, unit) vault_result" where
  "user_SetHasLabels E w userID b v = modUserUnsafe E w userID (\<lambda>u. Some ((), u\<lparr>ud_SyncStatus := (ud_SyncStatus u)\<lparr>vss_HasLabels := b\<rparr>\<rparr>)) v"

definition user_SetHasMessages :: "'e vault_env \<Rightarrow> 'e vault_world \<Rightarrow> string \<Rightarrow> bool \<Rightarrow> vault \<Rightarrow> ('e, unit) vault_result" where
  "user_SetHasMessages E w userID b v = modUserUnsafe E w userID (\<lambda>u. Some ((), u\<lparr>ud_SyncStatus := (ud_SyncStatus u)\<lparr>vss_HasMessages := b\<rparr>\<rparr>)) v"

definition user_SetLastMessageID :: "'e vault_env \<Rightarrow> 'e vault_world \<Rightarrow> string \<Rightarrow> string \<Rightarrow> vault \<Rightarrow> ('e, unit) vault_result" where
  "user_SetLastMessageID E w userID messageID v = modUserUnsafe E w userID (\<lambda>u. Some ((), u\<lparr>ud_SyncStatus := (ud_SyncStatus u)\<lparr>vss_LastMessageID := messageID\<rparr>\<rparr>)) v"

definition user_AddFailedMessageID :: "'e vault_env \<Rightarrow> 'e vault_world \<Rightarrow> string \<Rightarrow> string \<Rightarrow> vault \<Rightarrow> ('e, unit) vault_result" where
  "user_AddFailedMessageID E w userID messageID v = modUserUnsafe E w userID (\<lambda>u. Some ((), if messageID \<in> set (vss_FailedMessageIDs (ud_SyncStatus u)) then u
       else u\<lparr>ud_SyncStatus := (ud_SyncStatus u)\<lparr>vss_FailedMessageIDs := vss_FailedMessageIDs (ud_SyncStatus u) @ [messageID]\<rparr>\<rparr>)) v"

definition user_RemFailedMessageID :: "'e vault_env \<Rightarrow> 'e vault_world \<Rightarrow> string \<Rightarrow> string \<Rightarrow> vault \<Rightarrow> ('e, unit) vault_result" where
  "user_RemFailedMessageID E w userID messageID v = modUserUnsafe E w userID (\<lambda>u. Some ((), u\<lparr>ud_SyncStatus := (ud_SyncStatus u)\<lparr>vss_FailedMessageIDs :=
       filter (\<lambda>otherID. otherID \<noteq> messageID) (vss_FailedMessageIDs (ud_SyncStatus u))\<rparr>\<rparr>)) v"

definition user_ClearSyncStatusDeprecated :: "'e vault_env \<Rightarrow> 'e vault_world \<Rightarrow> string \<Rightarrow> vault \<Rightarrow> ('e, unit) vault_result" where
  "user_ClearSyncStatusDeprecated E w userID v = modUserUnsafe E w userID (\<lambda>u. Some ((), u\<lparr>ud_SyncStatus := emptySyncStatus, ud_EventID := []\<rparr>)) v"

definition user_ClearSyncStatusWithoutEventID :: "'e vault_env \<Rightarrow> 'e vault_world \<Rightarrow> string \<Rightarrow> vault \<Rightarrow> ('e, unit) vault_result" where
  "user_ClearSyncStatusWithoutEventID E w userID v = modUserUnsafe E w userID (\<lambda>u. Some ((), u\<lparr>ud_SyncStatus := emptySyncStatus\<rparr>)) v"

definition user_SetEventID :: "'e vault_env \<Rightarrow> 'e vault_world \<Rightarrow> string \<Rightarrow> string \<Rightarrow> vault \<Rightarrow> ('e, unit) vault_result" where
  "user_SetEventID E w userID eventID v = modUserUnsafe E w userID (\<lambda>u. Some ((), u\<lparr>ud_EventID := eventID\<rparr>)) v"

definition user_Clear :: "'e vault_env \<Rightarrow> 'e vault_world \<Rightarrow> string \<Rightarrow> vault \<Rightarrow> ('e, unit) vault_result" where
  "user_Clear E w userID v = modUserUnsafe E w userID (\<lambda>u. Some ((), u\<lparr>ud_AuthUID := [], ud_AuthRef := [], ud_KeyPass := []\<rparr>)) v"

definition user_SetShouldSync :: "'e vault_env \<Rightarrow> 'e vault_world \<Rightarrow> string \<Rightarrow> bool \<Rightarrow> vault \<Rightarrow> ('e, unit) vault_result" where
  "user_SetShouldSync E w userID shouldResync v = modUserUnsafe E w userID (\<lambda>u. Some ((), u\<lparr>ud_ShouldResync := shouldResync\<rparr>)) v"

text \<open>Assigning to a nil map panics; reading and deleting do not.\<close>

definition user_SetGluonID :: "'e vault_env \<Rightarrow> 'e vault_world \<Rightarrow> string \<Rightarrow> string \<Rightarrow> string \<Rightarrow> vault \<Rightarrow> ('e, unit) vault_result" where
  "user_SetGluonID E w userID addrID gluonID v =
     modUserUnsafe E w userID (\<lambda>u.
       case ud_GluonIDs u of
         None \<Rightarrow> None
       | Some ids \<Rightarrow> Some ((), u\<lparr>ud_GluonIDs := Some (AList.update addrID gluonID ids)\<rparr>)) v"

definition gluon_id :: "UserData \<Rightarrow> string \<Rightarrow> string" where
  "gluon_id u addrID = (case ud_GluonIDs u of None \<Rightarrow> [] | Some ids \<Rightarrow> (case map_of ids addrID of None \<Rightarrow> [] | Some g \<Rightarrow> g))"

definition user_RemoveGluonID :: "'e vault_env \<Rightarrow> 'e vault_world \<Rightarrow> string \<Rightarrow> string \<Rightarrow> string \<Rightarrow> vault \<Rightarrow> ('e, unit) vault_result" where
  "user_RemoveGluonID E w userID addrID gluonID v =
     (case modUserUnsafe E w userID (\<lambda>u.
             if gluon_id u addrID \<noteq> gluonID then Some (Some (GluonIDMismatch (gluon_id u addrID) gluonID), u)
             else Some (None, u\<lparr>ud_GluonIDs := map_option (AList.delete addrID) (ud_GluonIDs u)\<rparr>)) v of
        None \<Rightarrow> None
      | Some (Inl modErr, v1) \<Rightarrow> Some (Inl modErr, v1)
      | Some (Inr (Some err), v1) \<Rightarrow> Some (Inl err, v1)
      | Some (Inr None, v1) \<Rightarrow> Some (Inr (), v1))"

definition user_Close :: "string \<Rightarrow> vault \<Rightarrow> 'e vault_err option \<times> vault" where
  "user_Close userID v = detachUser userID v"

subsection \<open>Contents of the vault\<close>

definition contents :: "'e vault_env \<Rightarrow> vault \<Rightarrow> Data \<Rightarrow> bool" where
  "contents E v data \<longleftrightarrow> v_gcm v \<and> (\<forall>w. unmarshalFile E w (v_enc v) = Some (Inr data))"

lemma contents_get: "contents E v data \<Longrightarrow> getUnsafe E w v = Some data"
  by (simp add: contents_def getUnsafe_def)

lemma contents_unique: "contents E v d1 \<Longrightarrow> contents E v d2 \<Longrightarrow> d1 = d2"
  by (simp add: contents_def)

lemma contents_cong: "v_enc v' = v_enc v \<Longrightarrow> v_gcm v' = v_gcm v \<Longrightarrow> contents E v' = contents E v"
  by (simp add: contents_def fun_eq_iff)

text \<open>What a change does: nothing, or the new contents in memory, and then on disk as well if no error is reported.\<close>

lemma modUnsafe_cases:
  assumes codec: "codec_ok E" and tok: "tokens_ok w" and c: "contents E v data"
  obtains (panic) "fn data = None" "modUnsafe E w fn v = None"
  | (kept) e r data' where "fn data = Some (r, data')" "modUnsafe E w fn v = Some (Inl e, v)"
  | (unstored) e r data' v' where "fn data = Some (r, data')" "modUnsafe E w fn v = Some (Inl e, v')" "contents E v' data'"
      "v_ref v' = v_ref v" "v_path v' = v_path v" "v_files v' (v_path v) = v_files v (v_path v)"
  | (stored) r data' v' where "fn data = Some (r, data')" "modUnsafe E w fn v = Some (Inr r, v')" "contents E v' data'"
      "v_ref v' = v_ref v" "v_path v' = v_path v" "v_files v' (v_path v) = Some (v_enc v')"
proof (cases "fn data")
  case None
  then show thesis using panic c by (simp add: modUnsafe_def contents_def)
next
  case (Some p)
  obtain r data' where fn: "fn data = Some (r, data')" using Some by (cases p) auto
  note eq = modUnsafe_def[of E w fn v]
  show thesis
  proof (cases "marshalFile E w data'")
    case (Inl e)
    then show thesis using kept[OF fn] c fn by (simp add: eq contents_def)
  next
    case (Inr enc)
    have new: "contents E (v\<lparr>v_enc := enc, v_files := fs\<rparr>) data'" for fs
      using unmarshal_marshal[OF codec tok Inr] c by (simp add: contents_def)
    show thesis
    proof (cases "vw_io w")
      case IoOk
      then show thesis using stored[OF fn] c fn Inr new by (simp add: eq contents_def)
    next
      case (IoWriteErr left)
      then show thesis using unstored[OF fn] c fn Inr new by (simp add: eq contents_def)
    next
      case IoRenameErr
      then show thesis using unstored[OF fn] c fn Inr new by (simp add: eq contents_def)
    qed
  qed
qed

lemma modUnsafe_stored:
  assumes "codec_ok E" "tokens_ok w" "contents E v data" "modUnsafe E w fn v = Some (Inr r, v')"
  shows "\<exists>data'. fn data = Some (r, data') \<and> contents E v' data' \<and> v_ref v' = v_ref v \<and> v_path v' = v_path v \<and>
    v_files v' (v_path v) = Some (v_enc v')"
  by (rule modUnsafe_cases[OF assms(1-3), of fn]) (use assms(4) in auto)

text \<open>Opening the file that a vault with these contents was stored in.\<close>

lemma newVault_stored:
  assumes "contents E v data" "v_files v (v_path v) = Some (v_enc v)" "\<not> vw_readErr w"
  shows "\<exists>v2. newVault E w0 w (v_path v) dir (v_files v) = Some (Inr (v2, None), v_files v) \<and> contents E v2 data \<and>
    v_ref v2 = [] \<and> v_path v2 = v_path v \<and> v_files v2 = v_files v"
  using assms by (simp add: newVault_def contents_def Let_def)

subsection \<open>Looking up users\<close>

definition user_ids :: "Data \<Rightarrow> string list" where
  "user_ids data = map ud_UserID (d_Users data)"

definition lookup_user :: "string \<Rightarrow> Data \<Rightarrow> UserData option" where
  "lookup_user userID data = find (\<lambda>u. ud_UserID u = userID) (d_Users data)"

lemma find_user_None: "find_user userID data = None \<longleftrightarrow> userID \<notin> set (user_ids data)"
  by (auto simp: find_user_def user_ids_def IndexFunc_None)

lemma find_user_Some: "find_user userID data = Some i \<Longrightarrow> i < length (d_Users data) \<and> ud_UserID (d_Users data ! i) = userID"
  using IndexFunc_Some by (fastforce simp: find_user_def)

lemma lookup_user_find:
  "lookup_user userID data = (case find_user userID data of None \<Rightarrow> None | Some i \<Rightarrow> Some (d_Users data ! i))"
  by (simp add: lookup_user_def find_user_def IndexFunc_find)

lemma lookup_user_None: "lookup_user userID data = None \<longleftrightarrow> userID \<notin> set (user_ids data)"
  by (auto simp: lookup_user_def user_ids_def find_None_iff_all)

lemma lookup_user_ID: "lookup_user userID data = Some u \<Longrightarrow> ud_UserID u = userID"
  using find_SomeD by (fastforce simp: lookup_user_def)

lemma getUser_contents: "contents E v data \<Longrightarrow> getUser E w userID v = lookup_user userID data"
  by (auto simp: getUser_def contents_get lookup_user_find split: option.splits)

definition put_user :: "string \<Rightarrow> UserData \<Rightarrow> Data \<Rightarrow> Data" where
  "put_user userID u data = data\<lparr>d_Users := update_first (\<lambda>x. ud_UserID x = userID) (\<lambda>_. u) (d_Users data)\<rparr>"

lemma put_user_at:
  "find_user userID data = Some i \<Longrightarrow> data\<lparr>d_Users := (d_Users data)[i := u]\<rparr> = put_user userID u data"
  using IndexFunc_update[of _ "d_Users data" i "\<lambda>_. u"] by (simp add: put_user_def find_user_def)

lemma map_put_first: "(\<And>x. P x \<Longrightarrow> g x = g y) \<Longrightarrow> map g (update_first P (\<lambda>_. y) xs) = map g xs"
  by (induction xs) auto

lemma find_put_first:
  "find (\<lambda>x. k x = b) (update_first (\<lambda>x. k x = a) (\<lambda>_. y) xs) =
     (if b = a \<and> find (\<lambda>x. k x = a) xs \<noteq> None then Some y else find (\<lambda>x. k x = b) xs)" if "k y = a"
  using that by (induction xs) auto

lemma user_ids_put [simp]: "ud_UserID u = userID \<Longrightarrow> user_ids (put_user userID u data) = user_ids data"
  by (simp add: user_ids_def put_user_def map_put_first)

lemma lookup_put_user:
  assumes "ud_UserID u = userID" "userID \<in> set (user_ids data)"
  shows "lookup_user i (put_user userID u data) = (if i = userID then Some u else lookup_user i data)"
  using find_put_first[of ud_UserID u userID i "d_Users data"] assms lookup_user_None[of userID data]
  by (simp add: lookup_user_def put_user_def)

subsection \<open>Users that are in use stay in the vault\<close>

definition vault_ok :: "'e vault_env \<Rightarrow> vault \<Rightarrow> Data \<Rightarrow> bool" where
  "vault_ok E v data \<longleftrightarrow> contents E v data \<and> distinct (user_ids data) \<and>
     (\<forall>u n. map_of (v_ref v) u = Some n \<longrightarrow> 0 < n \<and> u \<in> set (user_ids data))"

lemma vault_okD:
  assumes "vault_ok E v data"
  shows "contents E v data" "distinct (user_ids data)" "map_of (v_ref v) u = Some n \<Longrightarrow> 0 < n \<and> u \<in> set (user_ids data)"
  using assms by (auto simp: vault_ok_def)

lemma vault_ok_change:
  assumes "vault_ok E v data" "contents E v' data'" "v_ref v' = v_ref v" "distinct (user_ids data')"
    "set (user_ids data) \<subseteq> set (user_ids data')"
  shows "vault_ok E v' data'"
  using assms by (auto simp: vault_ok_def)

lemma modUser_cases:
  assumes codec: "codec_ok E" and tok: "tokens_ok w" and c: "contents E v data"
    and u: "lookup_user userID data = Some u"
  obtains (panic) "fn u = None" "modUserUnsafe E w userID fn v = None"
  | (kept) e where "fn u \<noteq> None" "modUserUnsafe E w userID fn v = Some (Inl e, v)"
  | (unstored) e r u' v' where "fn u = Some (r, u')" "modUserUnsafe E w userID fn v = Some (Inl e, v')"
      "contents E v' (put_user userID u' data)" "v_ref v' = v_ref v"
  | (stored) r u' v' where "fn u = Some (r, u')" "modUserUnsafe E w userID fn v = Some (Inr r, v')"
      "contents E v' (put_user userID u' data)" "v_ref v' = v_ref v"
proof -
  obtain i where i: "find_user userID data = Some i" "d_Users data ! i = u"
    using u by (auto simp: lookup_user_find split: option.splits)
  let ?g = "\<lambda>data. case find_user userID data of
         None \<Rightarrow> None
       | Some i \<Rightarrow> map_option (\<lambda>(r, u). (r, data\<lparr>d_Users := (d_Users data)[i := u]\<rparr>)) (fn (d_Users data ! i))"
  have g: "?g data = map_option (\<lambda>(r, u'). (r, put_user userID u' data)) (fn u)"
    using i put_user_at[OF i(1)] by (simp add: case_prod_unfold)
  have m: "modUserUnsafe E w userID fn v = modUnsafe E w ?g v" by (simp add: modUserUnsafe_def)
  show thesis
    by (rule modUnsafe_cases[OF codec tok c, of ?g]) (use g m panic kept unstored stored in auto)
qed

text \<open>
  The contract of the setters of a vault user: one change of the user's own record. On a handle that is open they do not panic, they
  keep the invariant, and without an error the user reads what was written while the other users are as before.
\<close>

locale user_setter =
  fixes op :: "'e vault_env \<Rightarrow> 'e vault_world \<Rightarrow> string \<Rightarrow> vault \<Rightarrow> ('e, unit) vault_result"
    and f :: "UserData \<Rightarrow> UserData"
  assumes op_eq: "op E w userID v = modUserUnsafe E w userID (\<lambda>u. Some ((), f u)) v"
    and keeps_id: "ud_UserID (f u) = ud_UserID u"
begin

lemma op_total:
  assumes "codec_ok E" "tokens_ok w" "vault_ok E v data" "map_of (v_ref v) userID = Some n"
  shows "\<exists>r v'. op E w userID v = Some (r, v') \<and> (\<exists>data'. vault_ok E v' data')"
proof -
  note ok = vault_okD[OF assms(3)]
  obtain u where u: "lookup_user userID data = Some u"
    using ok(3)[OF assms(4)] lookup_user_None[of userID data] by (cases "lookup_user userID data") auto
  have id: "ud_UserID (f u) = userID" using keeps_id lookup_user_ID[OF u] by simp
  have keep: "\<exists>data'. vault_ok E v' data'" if "contents E v' (put_user userID (f u) data)" "v_ref v' = v_ref v" for v'
    using vault_ok_change[OF assms(3) that] id ok(2) by auto
  show ?thesis
    unfolding op_eq
    by (rule modUser_cases[OF assms(1,2) ok(1) u, of "\<lambda>u. Some ((), f u)"]) (use keep assms(3) in auto)
qed

lemma op_effect:
  assumes "codec_ok E" "tokens_ok w" "contents E v data" "op E w userID v = Some (Inr (), v')"
  shows "getUser E w' i v' = (if i = userID then map_option f (getUser E w' i v) else getUser E w' i v)"
proof (cases "lookup_user userID data")
  case None
  then have "find_user userID data = None" by (simp add: lookup_user_find split: option.splits)
  then have False using assms(3,4) by (auto simp: op_eq modUserUnsafe_def modUnsafe_def contents_def)
  then show ?thesis ..
next
  case (Some u)
  have "userID \<in> set (user_ids data)" using Some lookup_user_None[of userID data] by auto
  moreover have "ud_UserID (f u) = userID" using keeps_id lookup_user_ID[OF Some] by simp
  moreover have "contents E v' (put_user userID (f u) data)"
    using assms(4)[unfolded op_eq] by (cases rule: modUser_cases[OF assms(1-3) Some, of "\<lambda>u. Some ((), f u)"]) auto
  ultimately show ?thesis
    using Some by (simp add: getUser_contents[OF assms(3)] getUser_contents[of E v'] lookup_put_user)
qed

end

interpretation SetPrimaryEmail: user_setter "\<lambda>E w userID. user_SetPrimaryEmail E w userID email" "\<lambda>u. u\<lparr>ud_PrimaryEmail := email\<rparr>" for email
  by unfold_locales (simp_all add: user_SetPrimaryEmail_def)

interpretation SetAddressMode: user_setter "\<lambda>E w userID. user_SetAddressMode E w userID mode" "\<lambda>u. u\<lparr>ud_AddressMode := mode\<rparr>" for mode
  by unfold_locales (simp_all add: user_SetAddressMode_def)

interpretation SetBridgePass: user_setter "\<lambda>E w userID. user_SetBridgePass E w userID newPass" "\<lambda>u. u\<lparr>ud_BridgePass := newPass\<rparr>" for newPass
  by unfold_locales (simp_all add: user_SetBridgePass_def)

interpretation SetAuth: user_setter "\<lambda>E w userID. user_SetAuth E w userID authUID authRef" "\<lambda>u. u\<lparr>ud_AuthUID := authUID, ud_AuthRef := authRef\<rparr>" for authUID authRef
  by unfold_locales (simp_all add: user_SetAuth_def)

interpretation SetKeyPass: user_setter "\<lambda>E w userID. user_SetKeyPass E w userID keyPass" "\<lambda>u. u\<lparr>ud_KeyPass := keyPass\<rparr>" for keyPass
  by unfold_locales (simp_all add: user_SetKeyPass_def)

interpretation SetHasLabels: user_setter "\<lambda>E w userID. user_SetHasLabels E w userID b" "\<lambda>u. u\<lparr>ud_SyncStatus := (ud_SyncStatus u)\<lparr>vss_HasLabels := b\<rparr>\<rparr>" for b
  by unfold_locales (simp_all add: user_SetHasLabels_def)

interpretation SetHasMessages: user_setter "\<lambda>E w userID. user_SetHasMessages E w userID b" "\<lambda>u. u\<lparr>ud_SyncStatus := (ud_SyncStatus u)\<lparr>vss_HasMessages := b\<rparr>\<rparr>" for b
  by unfold_locales (simp_all add: user_SetHasMessages_def)

interpretation SetLastMessageID: user_setter "\<lambda>E w userID. user_SetLastMessageID E w userID messageID" "\<lambda>u. u\<lparr>ud_SyncStatus := (ud_SyncStatus u)\<lparr>vss_LastMessageID := messageID\<rparr>\<rparr>" for messageID
  by unfold_locales (simp_all add: user_SetLastMessageID_def)

interpretation AddFailedMessageID: user_setter "\<lambda>E w userID. user_AddFailedMessageID E w userID messageID" "\<lambda>u. if messageID \<in> set (vss_FailedMessageIDs (ud_SyncStatus u)) then u else u\<lparr>ud_SyncStatus := (ud_SyncStatus u)\<lparr>vss_FailedMessageIDs := vss_FailedMessageIDs (ud_SyncStatus u) @ [messageID]\<rparr>\<rparr>" for messageID
  by unfold_locales (simp_all add: user_AddFailedMessageID_def)

interpretation RemFailedMessageID: user_setter "\<lambda>E w userID. user_RemFailedMessageID E w userID messageID" "\<lambda>u. u\<lparr>ud_SyncStatus := (ud_SyncStatus u)\<lparr>vss_FailedMessageIDs := filter (\<lambda>otherID. otherID \<noteq> messageID) (vss_FailedMessageIDs (ud_SyncStatus u))\<rparr>\<rparr>" for messageID
  by unfold_locales (simp_all add: user_RemFailedMessageID_def)

interpretation ClearSyncStatusDeprecated: user_setter "\<lambda>E w userID. user_ClearSyncStatusDeprecated E w userID" "\<lambda>u. u\<lparr>ud_SyncStatus := emptySyncStatus, ud_EventID := []\<rparr>"
  by unfold_locales (simp_all add: user_ClearSyncStatusDeprecated_def)

interpretation ClearSyncStatusWithoutEventID: user_setter "\<lambda>E w userID. user_ClearSyncStatusWithoutEventID E w userID" "\<lambda>u. u\<lparr>ud_SyncStatus := emptySyncStatus\<rparr>"
  by unfold_locales (simp_all add: user_ClearSyncStatusWithoutEventID_def)

interpretation SetEventID: user_setter "\<lambda>E w userID. user_SetEventID E w userID eventID" "\<lambda>u. u\<lparr>ud_EventID := eventID\<rparr>" for eventID
  by unfold_locales (simp_all add: user_SetEventID_def)

interpretation Clear: user_setter "\<lambda>E w userID. user_Clear E w userID" "\<lambda>u. u\<lparr>ud_AuthUID := [], ud_AuthRef := [], ud_KeyPass := []\<rparr>"
  by unfold_locales (simp_all add: user_Clear_def)

interpretation SetShouldSync: user_setter "\<lambda>E w userID. user_SetShouldSync E w userID shouldResync" "\<lambda>u. u\<lparr>ud_ShouldResync := shouldResync\<rparr>" for shouldResync
  by unfold_locales (simp_all add: user_SetShouldSync_def)

text \<open>
  The contract of a setting: the setter is one change of the contents that leaves the users alone, and after it the getter returns the value,
  or the default that stands for it.
\<close>

locale vault_setting =
  fixes get :: "'e vault_env \<Rightarrow> 'e vault_world \<Rightarrow> vault \<Rightarrow> 'a option"
    and set_op :: "'e vault_env \<Rightarrow> 'e vault_world \<Rightarrow> 'a \<Rightarrow> vault \<Rightarrow> ('e, unit) vault_result"
    and rd :: "Settings \<Rightarrow> 'a" and wr :: "'a \<Rightarrow> Settings \<Rightarrow> Settings" and shown :: "'a \<Rightarrow> 'a"
  assumes get_eq: "get E w v = getSetting E w rd v"
    and set_eq: "set_op E w x v = modSetting E w (wr x) v"
    and rd_wr: "rd (wr x s) = shown x"
begin

lemma get_after_set:
  assumes "codec_ok E" "tokens_ok w" "contents E v data" "set_op E w x v = Some (Inr (), v')"
  shows "get E w' v' = Some (shown x)"
  using modUnsafe_stored[OF assms(1-3) assms(4)[unfolded set_eq modSetting_def]]
  by (auto simp: get_eq getSetting_def contents_get rd_wr)

lemma set_total:
  assumes "codec_ok E" "tokens_ok w" "vault_ok E v data"
  shows "\<exists>r v' data'. set_op E w x v = Some (r, v') \<and> vault_ok E v' data' \<and> d_Users data' = d_Users data"
proof -
  let ?fn = "\<lambda>data. Some ((), data\<lparr>d_Settings := wr x (d_Settings data)\<rparr>)"
  have ok: "vault_ok E v' (data\<lparr>d_Settings := wr x (d_Settings data)\<rparr>)"
    if "contents E v' (data\<lparr>d_Settings := wr x (d_Settings data)\<rparr>)" "v_ref v' = v_ref v" for v'
    using assms(3) that by (auto simp: vault_ok_def user_ids_def)
  show ?thesis
    unfolding set_eq modSetting_def
    by (rule modUnsafe_cases[OF assms(1,2) vault_okD(1)[OF assms(3)], of ?fn]) (use ok assms(3) in fastforce)+
qed

end

interpretation IMAPPort: vault_setting GetIMAPPort SetIMAPPort vs_IMAPPort "\<lambda>x s. s\<lparr>vs_IMAPPort := x\<rparr>" id
  by unfold_locales (simp_all add: GetIMAPPort_def SetIMAPPort_def)

interpretation SMTPPort: vault_setting GetSMTPPort SetSMTPPort vs_SMTPPort "\<lambda>x s. s\<lparr>vs_SMTPPort := x\<rparr>" id
  by unfold_locales (simp_all add: GetSMTPPort_def SetSMTPPort_def)

interpretation IMAPSSL: vault_setting GetIMAPSSL SetIMAPSSL vs_IMAPSSL "\<lambda>x s. s\<lparr>vs_IMAPSSL := x\<rparr>" id
  by unfold_locales (simp_all add: GetIMAPSSL_def SetIMAPSSL_def)

interpretation SMTPSSL: vault_setting GetSMTPSSL SetSMTPSSL vs_SMTPSSL "\<lambda>x s. s\<lparr>vs_SMTPSSL := x\<rparr>" id
  by unfold_locales (simp_all add: GetSMTPSSL_def SetSMTPSSL_def)

interpretation GluonCacheDir: vault_setting GetGluonCacheDir SetGluonDir vs_GluonDir "\<lambda>x s. s\<lparr>vs_GluonDir := x\<rparr>" id
  by unfold_locales (simp_all add: GetGluonCacheDir_def SetGluonDir_def)

interpretation UpdateChannel: vault_setting GetUpdateChannel SetUpdateChannel vs_UpdateChannel "\<lambda>x s. s\<lparr>vs_UpdateChannel := x\<rparr>" id
  by unfold_locales (simp_all add: GetUpdateChannel_def SetUpdateChannel_def)

interpretation ColorScheme: vault_setting GetColorScheme SetColorScheme vs_ColorScheme "\<lambda>x s. s\<lparr>vs_ColorScheme := x\<rparr>" id
  by unfold_locales (simp_all add: GetColorScheme_def SetColorScheme_def)

interpretation ProxyAllowed: vault_setting GetProxyAllowed SetProxyAllowed vs_ProxyAllowed "\<lambda>x s. s\<lparr>vs_ProxyAllowed := x\<rparr>" id
  by unfold_locales (simp_all add: GetProxyAllowed_def SetProxyAllowed_def)

interpretation ShowAllMail: vault_setting GetShowAllMail SetShowAllMail vs_ShowAllMail "\<lambda>x s. s\<lparr>vs_ShowAllMail := x\<rparr>" id
  by unfold_locales (simp_all add: GetShowAllMail_def SetShowAllMail_def)

interpretation Autostart: vault_setting GetAutostart SetAutostart vs_Autostart "\<lambda>x s. s\<lparr>vs_Autostart := x\<rparr>" id
  by unfold_locales (simp_all add: GetAutostart_def SetAutostart_def)

interpretation AutoUpdate: vault_setting GetAutoUpdate SetAutoUpdate vs_AutoUpdate "\<lambda>x s. s\<lparr>vs_AutoUpdate := x\<rparr>" id
  by unfold_locales (simp_all add: GetAutoUpdate_def SetAutoUpdate_def)

interpretation TelemetryDisabled: vault_setting GetTelemetryDisabled SetTelemetryDisabled vs_TelemetryDisabled "\<lambda>x s. s\<lparr>vs_TelemetryDisabled := x\<rparr>" id
  by unfold_locales (simp_all add: GetTelemetryDisabled_def SetTelemetryDisabled_def)

interpretation FirstStart: vault_setting GetFirstStart SetFirstStart vs_FirstStart "\<lambda>x s. s\<lparr>vs_FirstStart := x\<rparr>" id
  by unfold_locales (simp_all add: GetFirstStart_def SetFirstStart_def)

interpretation LastHeartbeatSent: vault_setting GetLastHeartbeatSent SetLastHeartbeatSent vs_LastHeartbeatSent "\<lambda>x s. s\<lparr>vs_LastHeartbeatSent := x\<rparr>" id
  by unfold_locales (simp_all add: GetLastHeartbeatSent_def SetLastHeartbeatSent_def)

interpretation MaxSyncMemory: vault_setting GetMaxSyncMemory SetMaxSyncMemory
  "\<lambda>s. if vs_MaxSyncMemory s = 0 then DefaultMaxSyncMemory else vs_MaxSyncMemory s" "\<lambda>x s. s\<lparr>vs_MaxSyncMemory := x\<rparr>"
  "\<lambda>x. if x = 0 then DefaultMaxSyncMemory else x"
  by unfold_locales (simp_all add: GetMaxSyncMemory_def SetMaxSyncMemory_def)

interpretation LastUserAgent: vault_setting GetLastUserAgent SetLastUserAgent
  "\<lambda>s. if vs_LastUserAgent s = [] then DefaultUserAgent else vs_LastUserAgent s" "\<lambda>x s. s\<lparr>vs_LastUserAgent := x\<rparr>"
  "\<lambda>x. if x = [] then DefaultUserAgent else x"
  by unfold_locales (simp_all add: GetLastUserAgent_def SetLastUserAgent_def)

subsection \<open>Opening the vault\<close>

text \<open>
  \<open>New\<close> without the creation of the directory and the set-up of the cipher, which the environment stands for. The first
  error is the corruption that was found, the second one any other error; on the latter the caller has a vault only if it came
  from storing the key for feature flags.
\<close>

definition vault_New ::
  "'e vault_env \<Rightarrow> 'e vault_world \<Rightarrow> 'e vault_world \<Rightarrow> 'e vault_world \<Rightarrow> string \<Rightarrow> string \<Rightarrow> (string \<rightharpoonup> bytes) \<Rightarrow>
     (vault option \<times> 'e vault_err option \<times> 'e vault_err option) option" where
  "vault_New E w0 w w1 path gluonDir fs =
     (case newVault E w0 w path gluonDir fs of
        None \<Rightarrow> None
      | Some (Inl e, fs1) \<Rightarrow> Some (None, None, Some e)
      | Some (Inr (v, corrupt), fs1) \<Rightarrow>
          (case setFeatureFlagStickyKeyIfEmpty E w1 v of
             None \<Rightarrow> None
           | Some (Inl e, v1) \<Rightarrow> Some (Some v1, corrupt, Some e)
           | Some (Inr _, v1) \<Rightarrow> Some (Some v1, corrupt, None)))"

lemma unmarshal_current:
  assumes "unmarshalFile E w b = Some (Inr data)" "ve_UnmarshalFile E b = Inr f" "f_Version f \<ge> Current"
  shows "unmarshalFile E w' b = Some (Inr data)"
  using assms by (auto simp: unmarshalFile_def upgrade_all.simps split: if_splits sum.splits option.splits)

text \<open>Contents that were migrated have no key for feature flags.\<close>

lemma upgrade_all_last:
  assumes "v < Current" "upgrade_all E w v dec = Some (Inr dec')"
  shows "\<exists>old. ve_MarshalData E (Data_2_4_x_migrate w old) = Inr dec'"
proof -
  have two: "\<exists>old. ve_MarshalData E (Data_2_4_x_migrate w old) = Inr dec'" if "upgrade_all E w 1 d = Some (Inr dec')" for d
    using that
    by (auto simp: upgrade_all.simps[of E w 1] upgrade_all.simps[of E w 2] upgrade_def upgrade_2_4_x_def Current_def
        split: sum.splits)
  have one: "upgrade_all E w 0 d = Some (Inr dec') \<Longrightarrow> \<exists>d1. upgrade_all E w 1 d1 = Some (Inr dec')" for d
    by (auto simp: upgrade_all.simps[of E w 0] Current_def split: option.splits sum.splits)
  consider "v = 0" | "v = 1" | "v < 0" using assms(1) unfolding Current_def by linarith
  then show ?thesis
  proof cases
    case 3
    then have "upgrade_all E w v dec = Some (Inl (UnknownVersion v))"
      by (simp add: upgrade_all.simps[of E w v] upgrade_def Current_def)
    then show ?thesis using assms(2) by simp
  qed (use assms(2) one two in blast)+
qed

lemma unmarshal_migrated_key:
  assumes "codec_ok E" "unmarshalFile E w b = Some (Inr data)" "ve_UnmarshalFile E b = Inr f" "f_Version f < Current"
  shows "d_FeatureFlagStickyKey data = 0"
proof -
  obtain dec dec' where "upgrade_all E w (f_Version f) dec = Some (Inr dec')" and d: "ve_UnmarshalData E dec' = Inr data"
    using assms(2,3) by (auto simp: unmarshalFile_def split: if_splits sum.splits option.splits)
  then obtain old where "ve_MarshalData E (Data_2_4_x_migrate w old) = Inr dec'" using upgrade_all_last[OF assms(4)] by blast
  then have "data = Data_2_4_x_migrate w old" using d assms(1) by (auto simp: codec_ok_def)
  then show ?thesis by (simp add: Data_2_4_x_migrate_def)
qed

text \<open>
  A vault that was opened without an error has contents that every read agrees on, also when the file was of an older version: the key for
  feature flags is missing then, and storing it stores the migrated contents.
\<close>

lemma setKey_contents:
  assumes codec: "codec_ok E" and tok: "tokens_ok w1" and gcm: "v_gcm v"
    and um: "unmarshalFile E w (v_enc v) = Some (Inr d0)"
    and set: "setFeatureFlagStickyKeyIfEmpty E w1 v = Some (Inr (), v')"
  shows "\<exists>data. contents E v' data \<and> v_ref v' = v_ref v \<and> v_path v' = v_path v"
proof -
  obtain f where f: "ve_UnmarshalFile E (v_enc v) = Inr f"
    using um by (auto simp: unmarshalFile_def split: sum.splits)
  show ?thesis
  proof (cases "f_Version f \<ge> Current")
    case True
    have c: "contents E v d0" using unmarshal_current[OF um f True] gcm by (simp add: contents_def)
    then have g: "getUnsafe E w1 v = Some d0" by (rule contents_get)
    show ?thesis
    proof (cases "d_FeatureFlagStickyKey d0 = 0")
      case False
      then show ?thesis using set c g by (auto simp: setFeatureFlagStickyKeyIfEmpty_def)
    next
      case True
      then have "modUnsafe E w1 (\<lambda>data. Some ((), data\<lparr>d_FeatureFlagStickyKey := vw_uuid w1\<rparr>)) v = Some (Inr (), v')"
        using set g by (simp add: setFeatureFlagStickyKeyIfEmpty_def)
      from modUnsafe_stored[OF codec tok c this] show ?thesis by blast
    qed
  next
    case False
    obtain d1 where d1: "unmarshalFile E w1 (v_enc v) = Some (Inr d1)"
      using set gcm by (auto simp: setFeatureFlagStickyKeyIfEmpty_def getUnsafe_def split: option.splits sum.splits)
    have "d_FeatureFlagStickyKey d1 = 0" using unmarshal_migrated_key[OF codec d1 f] False by simp
    then have m: "modUnsafe E w1 (\<lambda>data. Some ((), data\<lparr>d_FeatureFlagStickyKey := vw_uuid w1\<rparr>)) v = Some (Inr (), v')"
      using set d1 gcm by (simp add: setFeatureFlagStickyKeyIfEmpty_def getUnsafe_def)
    then obtain enc where enc: "marshalFile E w1 (d1\<lparr>d_FeatureFlagStickyKey := vw_uuid w1\<rparr>) = Inr enc"
      using d1 gcm by (auto simp: modUnsafe_def split: sum.splits)
    have "contents E (v\<lparr>v_enc := enc, v_files := fs\<rparr>) (d1\<lparr>d_FeatureFlagStickyKey := vw_uuid w1\<rparr>)" for fs
      using unmarshal_marshal[OF codec tok enc] gcm by (simp add: contents_def)
    then show ?thesis using m d1 gcm enc by (auto simp: modUnsafe_def Let_def split: vault_io.splits)
  qed
qed

lemma newVault_readable:
  assumes "codec_ok E" "tokens_ok w" "newVault E w0 w path gluonDir fs = Some (Inr (v, corrupt), fs1)"
  shows "v_gcm v \<and> v_ref v = [] \<and> v_path v = path \<and> (\<exists>data. unmarshalFile E w (v_enc v) = Some (Inr data))"
proof -
  have init: "\<exists>data. unmarshalFile E w enc = Some (Inr data)"
    if "initVault E w path gluonDir fs2 = Some (Inr enc, fs3)" for enc fs2 fs3
    using that unmarshal_marshal[OF assms(1,2)]
    by (fastforce simp: initVault_def split: option.splits sum.splits vault_io.splits)
  show ?thesis
    using assms(3) init
    by (auto simp: newVault_def Let_def split: option.splits sum.splits if_splits prod.splits)
qed

lemma New_contents:
  assumes "codec_ok E" "tokens_ok w" "tokens_ok w1" "vault_New E w0 w w1 path gluonDir fs = Some (Some v, corrupt, None)"
  shows "\<exists>data. contents E v data \<and> v_ref v = [] \<and> v_path v = path"
proof -
  obtain v0 fs1 where n: "newVault E w0 w path gluonDir fs = Some (Inr (v0, corrupt), fs1)"
    and s: "setFeatureFlagStickyKeyIfEmpty E w1 v0 = Some (Inr (), v)"
    using assms(4) by (auto simp: vault_New_def split: option.splits sum.splits prod.splits)
  show ?thesis
    using newVault_readable[OF assms(1,2) n] setKey_contents[OF assms(1,3) _ _ s] by fastforce
qed

subsection \<open>Every reachable state\<close>

text \<open>
  One operation of the vault, with any outcome but a panic. Changes of the settings, cookies and certificates leave the users alone; changes of
  a user go through an open handle and keep its ID. \<open>Reset\<close> is only called after the users were removed.
\<close>

inductive vault_step :: "'e vault_env \<Rightarrow> vault \<Rightarrow> vault \<Rightarrow> bool" for E where
  change: "tokens_ok w \<Longrightarrow> (\<And>d r d'. fn d = Some (r :: unit, d') \<Longrightarrow> d_Users d' = d_Users d) \<Longrightarrow>
    modUnsafe E w fn v = Some (res, v') \<Longrightarrow> vault_step E v v'"
| change_user: "tokens_ok w \<Longrightarrow> map_of (v_ref v) userID = Some n \<Longrightarrow>
    (\<And>u r u'. fn u = Some (r :: unit, u') \<Longrightarrow> ud_UserID u' = ud_UserID u) \<Longrightarrow>
    modUserUnsafe E w userID fn v = Some (res', v') \<Longrightarrow> vault_step E v v'"
| remove_gluon_id: "tokens_ok w \<Longrightarrow> map_of (v_ref v) userID = Some n \<Longrightarrow>
    user_RemoveGluonID E w userID addrID gluonID v = Some (res', v') \<Longrightarrow> vault_step E v v'"
| open_user: "NewUser E w userID v = Some (res2, v') \<Longrightarrow> vault_step E v v'"
| add_user: "tokens_ok w \<Longrightarrow> AddUser E w userID name email authUID authRef keyPass v = Some (res2, v') \<Longrightarrow> vault_step E v v'"
| get_or_add_user: "tokens_ok w \<Longrightarrow> tokens_ok w2 \<Longrightarrow>
    GetOrAddUser E w w2 userID name email authUID authRef keyPass v = Some (res3, v') \<Longrightarrow> vault_step E v v'"
| delete_user: "tokens_ok w \<Longrightarrow> DeleteUser E w userID v = Some (res4, v') \<Longrightarrow> vault_step E v v'"
| close_user: "user_Close userID v = (err :: 'e vault_err option, v') \<Longrightarrow> vault_step E v v'"
| reset: "tokens_ok w \<Longrightarrow> v_ref v = [] \<Longrightarrow> vault_Reset E w gluonDir v = Some (res4, v') \<Longrightarrow> vault_step E v v'"
| close: "vault_Close v = (err :: 'e vault_err option, v') \<Longrightarrow> vault_step E v v'"

definition vault_inv :: "'e vault_env \<Rightarrow> vault \<Rightarrow> bool" where
  "vault_inv E v \<longleftrightarrow> (if v_gcm v then \<exists>data. vault_ok E v data else v_ref v = [])"

lemma vault_inv_intro: "vault_ok E v data \<Longrightarrow> vault_inv E v"
  using vault_okD(1)[of E v data] by (auto simp: vault_inv_def contents_def)

lemma vault_inv_ok:
  assumes "vault_inv E v" "v_gcm v"
  obtains data where "vault_ok E v data"
  using assms by (auto simp: vault_inv_def)

lemma attach_ok:
  assumes "vault_ok E v data" "userID \<in> set (user_ids data)"
  shows "vault_ok E (attachUserUnsafe userID v) data"
  using assms
  by (auto simp: vault_ok_def attachUserUnsafe_def contents_def update_conv' split: option.splits if_splits)
    (metis add_nonneg_pos less_imp_le zero_less_one)+

lemma detach_ok:
  assumes "vault_ok E v data" "detachUser userID v = (err :: 'e vault_err option, v')"
  shows "vault_ok E v' data"
  using assms
  by (auto simp: vault_ok_def detachUser_def contents_def update_conv' delete_conv' split: option.splits if_splits) force+

lemma modUnsafe_ok:
  assumes "codec_ok E" "tokens_ok w" "vault_ok E v data" "modUnsafe E w fn v = Some (res, v')"
    and "\<And>r data'. fn data = Some (r, data') \<Longrightarrow> distinct (user_ids data') \<and> dom (map_of (v_ref v)) \<subseteq> set (user_ids data')"
  shows "\<exists>data'. vault_ok E v' data' \<and> v_ref v' = v_ref v \<and> (data' = data \<or> (\<exists>r. fn data = Some (r, data')))"
proof -
  have ok: "vault_ok E v1 data'" if "contents E v1 data'" "v_ref v1 = v_ref v" "fn data = Some (r, data')" for v1 r data'
    using that assms(3) assms(5)[OF that(3)] unfolding vault_ok_def by (auto simp: dom_def)
  show ?thesis
    using assms(4)
    by (cases rule: modUnsafe_cases[OF assms(1,2) vault_okD(1)[OF assms(3)], of fn]) (use ok assms(3) in auto)
qed

lemma vault_ok_refs: "vault_ok E v data \<Longrightarrow> dom (map_of (v_ref v)) \<subseteq> set (user_ids data)"
  by (auto simp: vault_ok_def)

lemma change_inv:
  assumes "codec_ok E" "tokens_ok w" "vault_ok E v data" "modUnsafe E w fn v = Some (res, v')"
    and "\<And>d r d'. fn d = Some (r, d') \<Longrightarrow> d_Users d' = d_Users d"
  shows "\<exists>data'. vault_ok E v' data'"
  using modUnsafe_ok[OF assms(1-4)] assms(5) vault_okD(2)[OF assms(3)] vault_ok_refs[OF assms(3)]
  by (auto simp: user_ids_def)

lemma change_user_inv:
  assumes "codec_ok E" "tokens_ok w" "vault_ok E v data" "userID \<in> set (user_ids data)"
    and "modUserUnsafe E w userID fn v = Some (res, v')"
    and fn: "\<And>u r u'. fn u = Some (r, u') \<Longrightarrow> ud_UserID u' = ud_UserID u"
  shows "\<exists>data'. vault_ok E v' data' \<and> user_ids data' = user_ids data \<and> v_ref v' = v_ref v"
proof -
  obtain u where u: "lookup_user userID data = Some u"
    using assms(4) lookup_user_None[of userID data] by (cases "lookup_user userID data") auto
  have ok: "vault_ok E v1 (put_user userID u' data) \<and> user_ids (put_user userID u' data) = user_ids data"
    if "contents E v1 (put_user userID u' data)" "v_ref v1 = v_ref v" "fn u = Some (r, u')" for v1 r u'
    using vault_ok_change[OF assms(3) that(1,2)] fn[OF that(3)] lookup_user_ID[OF u] vault_okD(2)[OF assms(3)] by simp
  show ?thesis
    using assms(5) by (cases rule: modUser_cases[OF assms(1,2) vault_okD(1)[OF assms(3)] u, of fn]) (use ok assms(3) in fastforce)+
qed

lemma newUser_inv:
  assumes "vault_ok E v data" "newUserUnsafe E w userID v = Some (res, v')"
  shows "vault_ok E v' data"
  using assms attach_ok[OF assms(1), of userID] find_user_None[of userID data]
  by (auto simp: newUserUnsafe_def contents_get[OF vault_okD(1)] split: option.splits)

lemma newDefaultUser_ID: "newDefaultUser w userID name email authUID authRef keyPass pass = Some u \<Longrightarrow> ud_UserID u = userID"
  by (auto simp: newDefaultUser_def)

text \<open>The contents after a user was added, if it was.\<close>

definition add_default :: "'e vault_env \<Rightarrow> 'e vault_world \<Rightarrow> string \<Rightarrow> string \<Rightarrow> string \<Rightarrow> string \<Rightarrow> string \<Rightarrow> bytes \<Rightarrow> Data \<Rightarrow> (bool \<times> Data) option" where
  "add_default E w userID username primaryEmail authUID authRef keyPass data =
     (case find_user userID data of
        Some _ \<Rightarrow> Some (True, data)
      | None \<Rightarrow>
          (let archived = archive_get (ve_emailHashString E) primaryEmail (vs_PasswordArchive (d_Settings data)) in
           case (if archived = [] then newRandomToken w 16 else Some archived) of
             None \<Rightarrow> None
           | Some bridgePass \<Rightarrow>
               map_option (\<lambda>u. (False, data\<lparr>d_Users := d_Users data @ [u]\<rparr>))
                 (newDefaultUser w userID username primaryEmail authUID authRef keyPass bridgePass)))"

lemma addUser_eq:
  "addUserUnsafe E w userID username primaryEmail authUID authRef keyPass v =
     (case modUnsafe E w (add_default E w userID username primaryEmail authUID authRef keyPass) v of
        None \<Rightarrow> None
      | Some (Inl e, v1) \<Rightarrow> Some (Inl e, v1)
      | Some (Inr exist, v1) \<Rightarrow>
          if exist then Some (Inl UserAlreadyExists, v1) else Some (Inr userID, attachUserUnsafe userID v1))"
  by (simp add: addUserUnsafe_def add_default_def[abs_def])

lemma add_default_ids:
  assumes "add_default E w userID name email authUID authRef keyPass data = Some (exist, data')"
  shows "if exist then data' = data \<and> userID \<in> set (user_ids data)
         else userID \<notin> set (user_ids data) \<and> user_ids data' = user_ids data @ [userID]"
  using assms newDefaultUser_ID find_user_None[of userID data]
  by (auto simp: add_default_def user_ids_def Let_def split: option.splits if_splits)

lemma addUser_inv:
  assumes "codec_ok E" "tokens_ok w" "vault_ok E v data"
    and "addUserUnsafe E w userID name email authUID authRef keyPass v = Some (res, v')"
  shows "\<exists>data'. vault_ok E v' data'"
proof -
  let ?fn = "add_default E w userID name email authUID authRef keyPass"
  have ids: "distinct (user_ids data') \<and> dom (map_of (v_ref v)) \<subseteq> set (user_ids data')" if "?fn data = Some (r, data')" for r data'
    using add_default_ids[OF that] vault_okD(2)[OF assms(3)] vault_ok_refs[OF assms(3)] by (auto split: if_splits)
  obtain res1 v1 where m: "modUnsafe E w ?fn v = Some (res1, v1)"
    using assms(4) by (auto simp: addUser_eq split: option.splits)
  obtain data1 where ok: "vault_ok E v1 data1" and d1: "data1 = data \<or> (\<exists>r. ?fn data = Some (r, data1))"
    using modUnsafe_ok[OF assms(1-3) m] ids by blast
  have "vault_ok E v' data1"
  proof (cases "res1 = Inr False")
    case True
    then obtain data2 where "?fn data = Some (False, data2)" "contents E v1 data2"
      using modUnsafe_stored[OF assms(1,2) vault_okD(1)[OF assms(3)] m[unfolded True]] by blast
    then have "userID \<in> set (user_ids data1)"
      using add_default_ids[of E w userID name email authUID authRef keyPass data False data2]
        contents_unique[OF vault_okD(1)[OF ok], of data2] by simp
    then show ?thesis using attach_ok[OF ok] assms(4) m True by (auto simp: addUser_eq)
  next
    case False
    then have "v' = v1" using assms(4) m by (auto simp: addUser_eq split: sum.splits bool.splits)
    then show ?thesis using ok by simp
  qed
  then show ?thesis by blast
qed

lemma updateUsername_inv:
  assumes "codec_ok E" "tokens_ok w" "vault_ok E v data" "userID \<in> set (user_ids data)"
    and "updateUsernameUnsafe E w userID name v = Some (res, v')"
  shows "\<exists>data'. vault_ok E v' data'"
  using assms(3,5) change_user_inv[OF assms(1-4), of "\<lambda>u. Some ((), u\<lparr>ud_Username := name\<rparr>)" res v']
  by (auto simp: updateUsernameUnsafe_def split: if_splits option.splits)

lemma GetOrAddUser_inv:
  assumes "codec_ok E" "tokens_ok w" "tokens_ok w2" "vault_ok E v data"
    and "GetOrAddUser E w w2 userID name email authUID authRef keyPass v = Some (res, v')"
  shows "\<exists>data'. vault_ok E v' data'"
proof (cases "userID \<in> set (user_ids data)")
  case True
  let ?set = "\<lambda>u. Some ((), u\<lparr>ud_AuthRef := authRef, ud_AuthUID := authUID, ud_KeyPass := keyPass\<rparr>)"
  obtain i where i: "find_user userID data = Some i" using True find_user_None[of userID data] by (cases "find_user userID data") auto
  note att = attach_ok[OF assms(4) True]
  obtain r1 v1 where s: "modUserUnsafe E w userID ?set (attachUserUnsafe userID v) = Some (r1, v1)"
    using assms(5) i by (auto simp: GetOrAddUser_def contents_get[OF vault_okD(1)[OF assms(4)]] setAuthAndKeyPassUnsafe_def split: option.splits)
  obtain data1 where ok: "vault_ok E v1 data1" "user_ids data1 = user_ids data"
    using change_user_inv[OF assms(1,2) att True s] by auto
  show ?thesis
    using assms(5) i s ok updateUsername_inv[OF assms(1,3) ok(1), of userID name] True
    by (auto simp: GetOrAddUser_def contents_get[OF vault_okD(1)[OF assms(4)]] setAuthAndKeyPassUnsafe_def split: option.splits sum.splits)
next
  case False
  then have "find_user userID data = None" by (simp add: find_user_None)
  then obtain r1 where "addUserUnsafe E w userID name email authUID authRef keyPass v = Some (r1, v')"
    using assms(5) by (auto simp: GetOrAddUser_def contents_get[OF vault_okD(1)[OF assms(4)]])
  from addUser_inv[OF assms(1,2,4) this] show ?thesis .
qed

lemma removed_ids:
  assumes "i < length us" "distinct (map ud_UserID us)"
  shows "distinct (map ud_UserID (take i us @ drop (Suc i) us)) \<and>
    set (map ud_UserID (take i us @ drop (Suc i) us)) = set (map ud_UserID us) - {ud_UserID (us ! i)}"
proof -
  define xs ys where "xs = map ud_UserID (take i us)" and "ys = map ud_UserID (drop (Suc i) us)"
  have "map ud_UserID us = xs @ ud_UserID (us ! i) # ys"
    using id_take_nth_drop[OF assms(1)] unfolding xs_def ys_def by (metis list.simps(9) map_append)
  then show ?thesis using assms(2) xs_def ys_def by auto
qed

lemma DeleteUser_inv:
  assumes "codec_ok E" "tokens_ok w" "vault_ok E v data" "DeleteUser E w userID v = Some (res, v')"
  shows "\<exists>data'. vault_ok E v' data'"
proof (cases "map_of (v_ref v) userID")
  case (Some n)
  then show ?thesis using assms(3,4) by (auto simp: DeleteUser_def)
next
  case None
  note ids = vault_okD(2)[OF assms(3)] vault_ok_refs[OF assms(3)]
  let ?fn = "\<lambda>data. case find_user userID data of
              None \<Rightarrow> Some ((), data)
            | Some idx \<Rightarrow>
                (let u = d_Users data ! idx; s = d_Settings data in
                 Some ((), data\<lparr>d_Settings := s\<lparr>vs_PasswordArchive :=
                              archive_set (ve_emailHashString E) (ud_PrimaryEmail u) (ud_BridgePass u) (vs_PasswordArchive s)\<rparr>,
                            d_Users := take idx (d_Users data) @ drop (Suc idx) (d_Users data)\<rparr>))"
  have "distinct (user_ids data') \<and> dom (map_of (v_ref v)) \<subseteq> set (user_ids data')" if fn: "?fn data = Some (r, data')" for r data'
  proof (cases "find_user userID data")
    case None
    then show ?thesis using fn ids by simp
  next
    case (Some i)
    note f = find_user_Some[OF Some]
    have "user_ids data' = map ud_UserID (take i (d_Users data) @ drop (Suc i) (d_Users data))"
      using fn Some by (auto simp: Let_def user_ids_def)
    then show ?thesis
      using removed_ids[OF conjunct1[OF f]] ids f \<open>map_of (v_ref v) userID = None\<close> unfolding user_ids_def by (auto simp: dom_def)
  qed
  then show ?thesis
    using modUnsafe_ok[OF assms(1-3), of ?fn res v'] assms(4) None by (auto simp: DeleteUser_def)
qed

lemma step_closed: "vault_step E v v' \<Longrightarrow> \<not> v_gcm v \<Longrightarrow> v_ref v = [] \<Longrightarrow> v' = v"
  by (induction rule: vault_step.induct)
    (auto simp: modUnsafe_def modUserUnsafe_def user_RemoveGluonID_def NewUser_def newUserUnsafe_def getUnsafe_def AddUser_def
      addUserUnsafe_def GetOrAddUser_def DeleteUser_def user_Close_def detachUser_def vault_Reset_def vault_Close_def split: option.splits)

lemma step_open:
  fixes E :: "'e vault_env"
  assumes "codec_ok E" "vault_ok E v data" "vault_step E v v'"
  shows "vault_inv E v'"
  using assms(3)
proof cases
  case (change w fn res)
  then show ?thesis using change_inv[OF assms(1) _ assms(2)] vault_inv_intro by blast
next
  case (change_user w userID n fn res)
  then show ?thesis
    using change_user_inv[OF assms(1) _ assms(2)] vault_okD(3)[OF assms(2)] vault_inv_intro by metis
next
  case (remove_gluon_id w userID n addrID gluonID res)
  let ?fn = "\<lambda>u. if gluon_id u addrID \<noteq> gluonID then Some (Some (GluonIDMismatch (gluon_id u addrID) gluonID :: 'e vault_err), u)
             else Some (None, u\<lparr>ud_GluonIDs := map_option (AList.delete addrID) (ud_GluonIDs u)\<rparr>)"
  obtain r1 where "modUserUnsafe E w userID ?fn v = Some (r1, v')"
    using remove_gluon_id(3) by (auto simp: user_RemoveGluonID_def split: option.splits sum.splits)
  then show ?thesis
    using change_user_inv[OF assms(1) remove_gluon_id(1) assms(2), of userID ?fn r1 v'] vault_okD(3)[OF assms(2) remove_gluon_id(2)]
      vault_inv_intro by (fastforce split: if_splits)
next
  case (open_user w userID res)
  then show ?thesis using newUser_inv[OF assms(2)] vault_inv_intro unfolding NewUser_def by blast
next
  case (add_user w userID name email authUID authRef keyPass res)
  then show ?thesis using addUser_inv[OF assms(1) _ assms(2)] vault_inv_intro unfolding AddUser_def by blast
next
  case (get_or_add_user w w2 userID name email authUID authRef keyPass res)
  then show ?thesis using GetOrAddUser_inv[OF assms(1) _ _ assms(2)] vault_inv_intro by blast
next
  case (delete_user w userID res)
  then show ?thesis using DeleteUser_inv[OF assms(1) _ assms(2)] vault_inv_intro by blast
next
  case (close_user userID err)
  then show ?thesis using detach_ok[OF assms(2)] vault_inv_intro unfolding user_Close_def by blast
next
  case (reset w gluonDir res)
  let ?fn = "\<lambda>_ :: Data. map_option (Pair ()) (newDefaultData w gluonDir)"
  have "distinct (user_ids data') \<and> dom (map_of (v_ref v)) \<subseteq> set (user_ids data')" if "?fn data = Some (r, data')" for r data'
    using that reset(2) by (auto simp: newDefaultData_def user_ids_def)
  then show ?thesis
    using modUnsafe_ok[OF assms(1) reset(1) assms(2), of ?fn res v'] reset(3) vault_inv_intro unfolding vault_Reset_def by blast
next
  case (close err)
  then consider "v' = v" | "v' = v\<lparr>v_gcm := False\<rparr>" "v_ref v = []" by (auto simp: vault_Close_def split: if_splits)
  then show ?thesis using vault_inv_intro[OF assms(2)] by cases (simp_all add: vault_inv_def)
qed

lemma step_inv: "codec_ok E \<Longrightarrow> vault_inv E v \<Longrightarrow> vault_step E v v' \<Longrightarrow> vault_inv E v'"
  using step_open step_closed vault_inv_ok by (metis vault_inv_def)

lemma steps_inv: "(vault_step E)\<^sup>*\<^sup>* v v' \<Longrightarrow> codec_ok E \<Longrightarrow> vault_inv E v \<Longrightarrow> vault_inv E v'"
  by (induction rule: rtranclp_induct) (auto intro: step_inv)

subsection \<open>What the vault promises\<close>

text \<open>
  Property C13. A change of the vault that reports no error is durable: opening the vault from the file system again finds no
  corruption and gives exactly the changed contents, whatever the change was.
\<close>

theorem stored_change_reopens:
  assumes "codec_ok E" "tokens_ok w" "contents E v data" "modUnsafe E w fn v = Some (Inr r, v')" "\<not> vw_readErr w1"
  shows "\<exists>data' v2. fn data = Some (r, data') \<and> contents E v' data' \<and>
    newVault E w0 w1 (v_path v') dir (v_files v') = Some (Inr (v2, None), v_files v') \<and> contents E v2 data'"
  using modUnsafe_stored[OF assms(1-4)] newVault_stored[of E v' _ w1 w0 dir] assms(5) by metis

text \<open>
  A change that fails to write is reported as an error but stays in memory: reads see it, the file keeps
  the old contents, and the next change that succeeds stores both.
\<close>

theorem unstored_change_visible:
  assumes "codec_ok E" "tokens_ok w" "tokens_ok w2" "contents E v data" "v_files v (v_path v) = Some (v_enc v)"
    and "fn data = Some (r, data')" "marshalFile E w data' = Inr enc" "vw_io w \<noteq> IoOk" "\<not> vw_readErr w1"
    and "fn2 data' = Some (r2, data2)" "marshalFile E w2 data2 = Inr enc2" "vw_io w2 = IoOk"
  shows "\<exists>err v1 v2 v3. modUnsafe E w fn v = Some (Inl err, v1) \<and> getUnsafe E w1 v1 = Some data' \<and>
    newVault E w0 w1 (v_path v1) dir (v_files v1) = Some (Inr (v2, None), v_files v1) \<and> contents E v2 data \<and>
    modUnsafe E w2 fn2 v1 = Some (Inr r2, v3) \<and> contents E v3 data2"
proof -
  have g: "v_gcm v" "unmarshalFile E w (v_enc v) = Some (Inr data)" for w using assms(4) by (auto simp: contents_def)
  obtain err left where m: "modUnsafe E w fn v =
      Some (Inl err, v\<lparr>v_enc := enc, v_files := (v_files v)(v_path v @ ''.tmp'' := left)\<rparr>)"
    using assms(6-8) g by (cases "vw_io w") (auto simp: modUnsafe_def Let_def)
  define v1 where "v1 = v\<lparr>v_enc := enc, v_files := (v_files v)(v_path v @ ''.tmp'' := left)\<rparr>"
  have c1: "contents E v1 data'"
    using unmarshal_marshal[OF assms(1,2,7)] g by (simp add: v1_def contents_def)
  have "\<exists>v2. newVault E w0 w1 (v_path v1) dir (v_files v1) = Some (Inr (v2, None), v_files v1) \<and> contents E v2 data"
    using assms(4,5,9) by (simp add: newVault_def contents_def v1_def Let_def)
  moreover have "\<exists>v3. modUnsafe E w2 fn2 v1 = Some (Inr r2, v3) \<and> contents E v3 data2"
    using c1 assms(10-12) unmarshal_marshal[OF assms(1,3,11)] by (simp add: modUnsafe_def contents_def Let_def)
  ultimately show ?thesis using m c1 contents_get unfolding v1_def by blast
qed


text \<open>
  The bridge password survives the removal of an account: when a user is deleted and an account with the same
  primary address is added later, the mail clients' password is the old one.
\<close>

theorem bridge_password_survives:
  assumes "codec_ok E" "tokens_ok w1" "tokens_ok w2" "contents E v data" "lookup_user userID data = Some u" "ud_BridgePass u \<noteq> []"
    and "DeleteUser E w1 userID v = Some (Inr (), v1)"
    and "AddUser E w2 newID name (ud_PrimaryEmail u) authUID authRef keyPass v1 = Some (Inr i, v2)"
  shows "\<exists>u2. getUser E w newID v2 = Some u2 \<and> ud_BridgePass u2 = ud_BridgePass u \<and> ud_PrimaryEmail u2 = ud_PrimaryEmail u \<and>
    ud_AuthUID u2 = authUID \<and> map_of (v_ref v2) newID \<noteq> None"
proof -
  let ?H = "ve_emailHashString E"
  let ?add = "add_default E w2 newID name (ud_PrimaryEmail u) authUID authRef keyPass"
  obtain idx where idx: "find_user userID data = Some idx" "d_Users data ! idx = u"
    using assms(5) by (auto simp: lookup_user_find split: option.splits)
  have free: "map_of (v_ref v) userID = None" using assms(7) by (auto simp: DeleteUser_def split: option.splits)
  from assms(7) free obtain d1 where d1: "contents E v1 d1"
    and arch: "archive_get ?H (ud_PrimaryEmail u) (vs_PasswordArchive (d_Settings d1)) = ud_BridgePass u"
    using modUnsafe_stored[OF assms(1,2,4), of _ "()" v1] idx
    by (fastforce simp: DeleteUser_def Let_def archive_get_set)
  obtain v3 where v3: "modUnsafe E w2 ?add v1 = Some (Inr False, v3)" "v2 = attachUserUnsafe newID v3"
    using assms(8) by (auto simp: AddUser_def addUser_eq split: option.splits sum.splits if_splits)
  obtain d2 where d2: "?add d1 = Some (False, d2)" "contents E v3 d2" using modUnsafe_stored[OF assms(1,3) d1 v3(1)] by blast
  obtain key where "find_user newID d1 = None"
    "d2 = d1\<lparr>d_Users := d_Users d1 @ [the (newDefaultUser w2 newID name (ud_PrimaryEmail u) authUID authRef keyPass (ud_BridgePass u))]\<rparr>"
    "newRandomToken w2 32 = Some key"
    using d2(1) arch assms(6) by (auto simp: add_default_def Let_def newDefaultUser_def split: option.splits if_splits)
  then have "lookup_user newID d2 = newDefaultUser w2 newID name (ud_PrimaryEmail u) authUID authRef keyPass (ud_BridgePass u)"
    "newDefaultUser w2 newID name (ud_PrimaryEmail u) authUID authRef keyPass (ud_BridgePass u) \<noteq> None"
    using find_user_None[of newID d1] lookup_user_None[of newID d1]
    by (auto simp: lookup_user_def newDefaultUser_def find_append_none)
  moreover have "contents E v2 d2" using d2(2) v3(2) by (simp add: contents_def attachUserUnsafe_def)
  ultimately show ?thesis
    using getUser_contents[of E v2 d2] v3(2) by (auto simp: newDefaultUser_def attachUserUnsafe_def update_conv')
qed

text \<open>
  When a login of a known user fails to write the vault, the reference that was taken is never given back: the caller
  gets an error and no handle, and from then on the user cannot be removed and the vault cannot be closed.
\<close>

theorem failed_login_keeps_reference:
  assumes "codec_ok E" "tokens_ok w" "tokens_ok w2" "contents E v data" "userID \<in> set (user_ids data)" "map_of (v_ref v) userID = None"
    and "GetOrAddUser E w w2 userID name email authUID authRef keyPass v = Some (Inl e, v')"
  shows "map_of (v_ref v') userID = Some 1 \<and> DeleteUser E w' userID v' = Some (Inl (UserInUse userID), v') \<and>
    vault_Close v' = (Some VaultInUse :: 'e vault_err option, v')"
proof -
  let ?v = "attachUserUnsafe userID v"
  obtain u where u: "lookup_user userID data = Some u"
    using assms(5) lookup_user_None[of userID data] by (cases "lookup_user userID data") auto
  obtain i where i: "find_user userID data = Some i" using u by (auto simp: lookup_user_find split: option.splits)
  have c: "contents E ?v data" using assms(4) by (simp add: contents_def attachUserUnsafe_def)
  have ref: "v_ref v1 = v_ref ?v" if "modUserUnsafe E ww userID fn vv = Some (r, v1)" "v_ref vv = v_ref ?v" for ww vv v1 r and fn :: "UserData \<Rightarrow> (unit \<times> UserData) option"
    using that by (auto simp: modUserUnsafe_def modUnsafe_def Let_def split: option.splits sum.splits vault_io.splits if_splits)
  have "v_ref v' = v_ref ?v"
    using assms(7) i ref
    by (auto simp: GetOrAddUser_def contents_get[OF assms(4)] setAuthAndKeyPassUnsafe_def updateUsernameUnsafe_def
        split: option.splits sum.splits if_splits)
  then have "map_of (v_ref v') userID = Some 1" using assms(6) by (simp add: attachUserUnsafe_def update_conv')
  then show ?thesis by (auto simp: DeleteUser_def vault_Close_def)
qed

text \<open>
  A file that cannot be read as a vault is replaced by a new vault with the default contents, and the corruption is reported; a file that
  can be read is left alone.
\<close>

theorem corrupt_vault_replaced:
  assumes "codec_ok E" "tokens_ok w" "fs path = Some enc" "newVault E w0 w path dir fs = Some (Inr (v, corrupt), fs')"
  shows "case unmarshalFile E w enc of
      Some (Inr data) \<Rightarrow> corrupt = None \<and> v_enc v = enc \<and> fs' = fs
    | Some (Inl e) \<Rightarrow> corrupt = Some e \<and> fs' path = Some (v_enc v) \<and> (\<exists>data. newDefaultData w dir = Some data \<and> contents E v data)
    | None \<Rightarrow> False"
proof -
  have init: "fs1 path = Some e \<and> (\<exists>data. newDefaultData w dir = Some data \<and> (\<forall>w. unmarshalFile E w e = Some (Inr data)))"
    if "initVault E w path dir fs = Some (Inr e, fs1)" for e fs1
    using that unmarshal_marshal[OF assms(1,2)]
    by (auto simp: initVault_def split: option.splits sum.splits vault_io.splits)
  show ?thesis
    using assms(3,4) init
    by (auto simp: newVault_def Let_def contents_def split: option.splits sum.splits if_splits)
qed

text \<open>
  A file that decodes but whose data is shorter than the nonce is not treated as corrupt: opening the vault panics.
\<close>

theorem short_vault_panics:
  assumes "fs path = Some enc" "\<not> vw_readErr w" "ve_UnmarshalFile E enc = Inr f" "length (f_Data f) < ve_NonceSize E"
  shows "newVault E w0 w path dir fs = None"
  using assms by (simp add: newVault_def unmarshalFile_def)

text \<open>
  A user that comes from the migration of an older vault has no map of Gluon IDs; the first attempt to record one panics.
\<close>

lemma migrated_users:
  assumes "codec_ok E" "unmarshalFile E w b = Some (Inr data)" "ve_UnmarshalFile E b = Inr f" "f_Version f < Current" "u \<in> set (d_Users data)"
  shows "ud_GluonIDs u = None"
proof -
  obtain dec dec' where "upgrade_all E w (f_Version f) dec = Some (Inr dec')" and d: "ve_UnmarshalData E dec' = Inr data"
    using assms(2,3) by (auto simp: unmarshalFile_def split: if_splits sum.splits option.splits)
  then obtain old where "ve_MarshalData E (Data_2_4_x_migrate w old) = Inr dec'" using upgrade_all_last[OF assms(4)] by blast
  then have "data = Data_2_4_x_migrate w old" using d assms(1) by (auto simp: codec_ok_def)
  then show ?thesis using assms(5) by (auto simp: Data_2_4_x_migrate_def UserData_2_4_x_migrate_def)
qed

theorem migrated_user_no_gluon_id:
  assumes "codec_ok E" "ve_UnmarshalFile E (v_enc v) = Inr f" "f_Version f < Current"
    and "unmarshalFile E w (v_enc v) = Some (Inr data)"
  shows "user_SetGluonID E w userID addrID gluonID v = None"
proof (cases "find_user userID data")
  case None
  then show ?thesis using assms(4) by (simp add: user_SetGluonID_def modUserUnsafe_def modUnsafe_def)
next
  case (Some i)
  then have "ud_GluonIDs (d_Users data ! i) = None"
    using migrated_users[OF assms(1,4,2,3)] find_user_Some[OF Some] by simp
  then show ?thesis using assms(4) Some by (simp add: user_SetGluonID_def modUserUnsafe_def modUnsafe_def)
qed

subsection \<open>Witnesses\<close>

text \<open>A codec for the contents that occur: each is encoded by its position in a list.\<close>

definition demo_env :: "Data list \<Rightarrow> string vault_env" where
  "demo_env ds =
     \<lparr>ve_UnmarshalFile = (\<lambda>b. Inr \<lparr>f_Version = Current, f_Data = b\<rparr>),
      ve_MarshalFile = (\<lambda>f. if f_Version f = Current then Inr (f_Data f) else Inl ''version''),
      ve_UnmarshalData = (\<lambda>b. if length b < length ds then Inr (ds ! length b) else Inl ''data''),
      ve_MarshalData = (\<lambda>d. case index_of d ds of None \<Rightarrow> Inl ''data'' | Some i \<Rightarrow> Inr (replicate i CHR ''d'')),
      ve_Unmarshal23 = (\<lambda>_. Inl ''old''), ve_Unmarshal24 = (\<lambda>_. Inl ''old''), ve_Marshal24 = (\<lambda>_. Inl ''old''),
      ve_NonceSize = 1, ve_Open = (\<lambda>_ m. Inr m), ve_Seal = (\<lambda>_ m. m), ve_emailHashString = id\<rparr>"

definition demo_world :: "vault_io \<Rightarrow> string vault_world" where
  "demo_world io =
     \<lparr>vw_RandomToken = (\<lambda>n. Inr (replicate n CHR ''r'')), vw_uuid = 7, vw_cert = None, vw_rollout = 0, vw_isOccupied = (\<lambda>_. False),
      vw_NumCPU = 4, vw_io = io, vw_readErr = False\<rparr>"

lemma demo_codec: "codec_ok (demo_env ds)"
  by (auto simp: codec_ok_def demo_env_def dest: index_of_Some split: option.splits if_splits)

lemma demo_tokens: "tokens_ok (demo_world io)"
  by (simp add: tokens_ok_def demo_world_def)

definition demo_user :: "string \<Rightarrow> UserData" where
  "demo_user auth = the (newDefaultUser (demo_world IoOk) ''id'' ''name'' ''me@pm.me'' auth ''ref'' ''kp'' ''pass'')"

definition demo_data :: "UserData list \<Rightarrow> (string \<rightharpoonup> bytes) option \<Rightarrow> Data" where
  "demo_data us arch =
     \<lparr>d_Settings = (newDefaultSettings (demo_world IoOk) ''dir'')\<lparr>vs_PasswordArchive := \<lparr>pa_Archive = arch\<rparr>\<rparr>, d_Users = us,
      d_Cookies = [], d_Certs = emptyCerts, d_Migrated = False, d_FeatureFlagStickyKey = 7\<rparr>"

definition demo_list :: "Data list" where
  "demo_list = [demo_data [demo_user ''auth''] None, demo_data [] (Some [''me@pm.me'' \<mapsto> ''pass'']),
     demo_data [demo_user ''auth''] (Some [''me@pm.me'' \<mapsto> ''pass'']), demo_data [demo_user ''new''] None]"

definition demo_vault :: "nat \<Rightarrow> vault" where
  "demo_vault i = \<lparr>v_path = ''vault'', v_gcm = True, v_enc = CHR ''r'' # replicate i CHR ''d'', v_ref = [],
     v_files = [''vault'' \<mapsto> CHR ''r'' # replicate i CHR ''d'']\<rparr>"

lemma demo_contents: "i < length demo_list \<Longrightarrow> contents (demo_env demo_list) (demo_vault i) (demo_list ! i)"
  by (simp add: contents_def demo_vault_def unmarshalFile_def demo_env_def upgrade_all.simps)

lemma demo_users: "demo_user ''auth'' \<noteq> demo_user ''new''"
  by (simp add: demo_user_def newDefaultUser_def newRandomToken_def demo_world_def)

lemma demo_data_eq: "demo_data us a = demo_data us' b \<longleftrightarrow> us = us' \<and> a = b"
proof
  assume eq: "demo_data us a = demo_data us' b"
  show "us = us' \<and> a = b"
    using arg_cong[OF eq, of d_Users] arg_cong[OF eq, of "\<lambda>d. vs_PasswordArchive (d_Settings d)"] by (simp add: demo_data_def)
qed simp

lemma demo_index:
  "index_of (demo_data [demo_user ''auth''] None) demo_list = Some 0"
  "index_of (demo_data [] (Some [''me@pm.me'' \<mapsto> ''pass''])) demo_list = Some 1"
  "index_of (demo_data [demo_user ''auth''] (Some [''me@pm.me'' \<mapsto> ''pass''])) demo_list = Some 2"
  "index_of (demo_data [demo_user ''new''] None) demo_list = Some 3"
  using demo_users by (simp_all add: demo_list_def demo_data_eq)

lemma demo_at: "demo_list ! 0 = demo_data [demo_user ''auth''] None" "demo_list ! 1 = demo_data [] (Some [''me@pm.me'' \<mapsto> ''pass''])"
  "demo_list ! 3 = demo_data [demo_user ''new''] None" "length demo_list = 4"
  by (simp_all add: demo_list_def)

lemma demo_marshal:
  "marshalFile (demo_env demo_list) (demo_world io) d =
     (case index_of d demo_list of None \<Rightarrow> Inl (VaultErr ''data'') | Some i \<Rightarrow> Inr (CHR ''r'' # replicate i CHR ''d''))"
  by (cases "index_of d demo_list") (simp_all add: marshalFile_def demo_env_def demo_world_def del: index_of_None)

lemma demo_stored: "marshalFile (demo_env demo_list) (demo_world io) (demo_list ! 3) = Inr ''rddd''"
  "marshalFile (demo_env demo_list) (demo_world io) (demo_list ! 1) = Inr ''rd''"
  by (simp_all add: demo_marshal demo_at(2,3) demo_index del: One_nat_def) (simp_all add: numeral_3_eq_3)

lemma demo_get: "i < 4 \<Longrightarrow> unmarshalFile (demo_env demo_list) w (CHR ''r'' # replicate i CHR ''d'') = Some (Inr (demo_list ! i))"
  using demo_contents[of i] by (simp add: contents_def demo_vault_def demo_at)

lemma demo_fields [simp]:
  "ud_UserID (demo_user a) = ''id''" "ud_PrimaryEmail (demo_user a) = ''me@pm.me''" "ud_BridgePass (demo_user a) = ''pass''"
  "(demo_user a)\<lparr>ud_AuthRef := ''ref'', ud_AuthUID := b, ud_KeyPass := ''kp''\<rparr> = demo_user b"
  by (simp_all add: demo_user_def newDefaultUser_def newRandomToken_def demo_world_def)

theorem stored_change_reopens_witness:
  "\<exists>v' v2. modUnsafe (demo_env demo_list) (demo_world IoOk) (\<lambda>_. Some ((), demo_list ! 3)) (demo_vault 0) = Some (Inr (), v') \<and>
     newVault (demo_env demo_list) (demo_world IoOk) (demo_world IoOk) (v_path v') ''dir'' (v_files v') = Some (Inr (v2, None), v_files v') \<and>
     contents (demo_env demo_list) v2 (demo_list ! 3)"
proof -
  obtain v' where v': "modUnsafe (demo_env demo_list) (demo_world IoOk) (\<lambda>_. Some ((), demo_list ! 3)) (demo_vault 0) = Some (Inr (), v')"
    using demo_get[of 0 "demo_world IoOk"]
    by (simp add: modUnsafe_def demo_vault_def demo_marshal demo_at demo_index Let_def) (simp add: demo_world_def)
  show ?thesis
    using stored_change_reopens[OF demo_codec demo_tokens demo_contents[of 0] v', of "demo_world IoOk" "demo_world IoOk" "''dir''"] v'
    by (auto simp: demo_world_def demo_at)
qed

theorem unstored_change_visible_witness:
  "\<exists>err v1. modUnsafe (demo_env demo_list) (demo_world IoRenameErr) (\<lambda>_. Some ((), demo_list ! 3)) (demo_vault 0) = Some (Inl err, v1) \<and>
     getUnsafe (demo_env demo_list) (demo_world IoOk) v1 = Some (demo_list ! 3)"
proof -
  have c: "contents (demo_env demo_list) (demo_vault 0) (demo_list ! 0)"
    "v_files (demo_vault 0) (v_path (demo_vault 0)) = Some (v_enc (demo_vault 0))"
    using demo_contents[of 0] by (simp_all add: demo_at demo_vault_def)
  have w: "vw_io (demo_world IoRenameErr) \<noteq> IoOk" "\<not> vw_readErr (demo_world IoOk)" "vw_io (demo_world IoOk) = IoOk"
    by (simp_all add: demo_world_def)
  show ?thesis
    using unstored_change_visible[where fn = "\<lambda>_. Some ((), demo_list ! 3)" and ?fn2.0 = "\<lambda>_. Some ((), demo_list ! 1)",
        OF demo_codec demo_tokens demo_tokens c refl demo_stored(1) w(1,2) refl demo_stored(2) w(3)] by blast
qed

theorem bridge_password_survives_witness:
  "\<exists>v1 v2 u2. DeleteUser (demo_env demo_list) (demo_world IoOk) ''id'' (demo_vault 0) = Some (Inr (), v1) \<and>
     AddUser (demo_env demo_list) (demo_world IoOk) ''id'' ''name'' ''me@pm.me'' ''auth'' ''ref'' ''kp'' v1 = Some (Inr ''id'', v2) \<and>
     getUser (demo_env demo_list) (demo_world IoOk) ''id'' v2 = Some u2 \<and> ud_BridgePass u2 = ''pass''"
proof -
  let ?E = "demo_env demo_list" and ?w = "demo_world IoOk"
  have w: "vw_io ?w = IoOk" "ve_emailHashString ?E = id" by (simp_all add: demo_world_def demo_env_def)
  have u: "lookup_user ''id'' (demo_list ! 0) = Some (demo_user ''auth'')" by (simp add: demo_at lookup_user_def demo_data_def)
  obtain v1 where v1: "DeleteUser ?E ?w ''id'' (demo_vault 0) = Some (Inr (), v1)" "v_gcm v1" "v_enc v1 = ''rd''"
    using demo_get[of 0 ?w] demo_index(2)
    by (simp add: DeleteUser_def modUnsafe_def demo_vault_def demo_at find_user_def demo_data_def archive_set_def w demo_marshal Let_def
        numeral_2_eq_2)
  have new: "newDefaultUser ?w ''id'' ''name'' ''me@pm.me'' ''auth'' ''ref'' ''kp'' ''pass'' = Some (demo_user ''auth'')"
    by (simp add: demo_user_def newDefaultUser_def newRandomToken_def demo_world_def)
  have add: "add_default ?E ?w ''id'' ''name'' ''me@pm.me'' ''auth'' ''ref'' ''kp'' (demo_list ! 1) =
      Some (False, demo_data [demo_user ''auth''] (Some [''me@pm.me'' \<mapsto> ''pass'']))"
    unfolding demo_at(2) by (simp add: add_default_def find_user_def demo_data_def archive_get_def w new Let_def)
  obtain v2 where v2: "AddUser ?E ?w ''id'' ''name'' ''me@pm.me'' ''auth'' ''ref'' ''kp'' v1 = Some (Inr ''id'', v2)"
    using demo_get[of 1 ?w] v1(2,3) add by (simp add: AddUser_def addUser_eq modUnsafe_def demo_marshal demo_index w Let_def del: index_of_None)
  show ?thesis
    using bridge_password_survives[OF demo_codec demo_tokens demo_tokens demo_contents[of 0] u _ v1(1), of IoOk "''id''" "''name''" "''auth''" "''ref''" "''kp''" "''id''" v2 ?w]
      v1(1) v2 by (auto simp: demo_at)
qed

theorem failed_login_keeps_reference_witness:
  "\<exists>e v'. GetOrAddUser (demo_env demo_list) (demo_world IoRenameErr) (demo_world IoOk) ''id'' ''name'' ''me@pm.me'' ''new'' ''ref'' ''kp''
       (demo_vault 0) = Some (Inl e, v') \<and>
     DeleteUser (demo_env demo_list) (demo_world IoOk) ''id'' v' = Some (Inl (UserInUse ''id''), v')"
proof -
  let ?E = "demo_env demo_list" and ?w = "demo_world IoRenameErr"
  have c: "contents ?E (demo_vault 0) (demo_list ! 0)" using demo_contents[of 0] by (simp add: demo_at)
  have id: "''id'' \<in> set (user_ids (demo_list ! 0))" "map_of (v_ref (demo_vault 0)) ''id'' = None"
    by (simp_all add: demo_at user_ids_def demo_data_def demo_vault_def)
  have set: "(demo_list ! 0)\<lparr>d_Users := [demo_user ''new'']\<rparr> = demo_data [demo_user ''new''] None"
    by (simp add: demo_at demo_data_def)
  have io: "vw_io ?w = IoRenameErr" by (simp add: demo_world_def)
  have get: "unmarshalFile ?E ?w ''r'' = Some (Inr (demo_list ! 0))" using demo_get[of 0 ?w] by simp
  have find: "find_user ''id'' (demo_list ! 0) = Some 0" "d_Users (demo_list ! 0) = [demo_user ''auth'']"
    by (simp_all add: find_user_def demo_at demo_data_def)
  obtain e v' where s: "setAuthAndKeyPassUnsafe ?E ?w ''id'' ''new'' ''ref'' ''kp'' (attachUserUnsafe ''id'' (demo_vault 0)) = Some (Inl e, v')"
    by (simp add: setAuthAndKeyPassUnsafe_def modUserUnsafe_def modUnsafe_def attachUserUnsafe_def demo_vault_def get find set
        demo_marshal demo_index(4) io Let_def del: index_of_None)
  have g: "GetOrAddUser ?E ?w (demo_world IoOk) ''id'' ''name'' ''me@pm.me'' ''new'' ''ref'' ''kp'' (demo_vault 0) = Some (Inl e, v')"
    by (simp add: GetOrAddUser_def contents_get[OF c] find s)
  show ?thesis using g failed_login_keeps_reference[OF demo_codec demo_tokens demo_tokens c id g] by blast
qed


end
