(* ===== verification/Server_Manager.thy ===== *)
theory Server_Manager
  imports Smtp_Server Sync_State Vault_Users
begin

section \<open>The server manager\<close>

text \<open>
  Models \<^verbatim>\<open>internal/services/imapsmtpserver\<close> (\<^verbatim>\<open>service.go\<close>, the directories of \<^verbatim>\<open>imap.go\<close>) and the Gluon IDs of a user
  (\<^verbatim>\<open>GetGluonID\<close> and its neighbours in \<^verbatim>\<open>internal/user/user.go\<close>, over the vault): the IMAP and the SMTP server of the bridge, their listeners, and
  which accounts are loaded into them.

  The Gluon library is the environment \<open>gluon\<close> over a state \<open>'g\<close> that holds the databases; what it promises is \<open>gluon_ok\<close>. The
  outcome of listening, closing and of storing a setting during one request is a \<open>server_world\<close>. A listener is a number; the
  open ones are kept with their ports. Tasks that were started for the SMTP server but have not run yet are kept in order, because
  they read the field of the server when they run. Paths are in the normal form that \<^verbatim>\<open>filepath.Join\<close> gives, so that joining is
  concatenation.
\<close>

subsection \<open>Gluon IDs of a user\<close>

record ('i, 'e) GluonIDProvider =
  ip_GetGluonID :: "string \<Rightarrow> 'i \<Rightarrow> (string option \<times> 'i) option"
  ip_SetGluonID :: "string \<Rightarrow> string \<Rightarrow> 'i \<Rightarrow> ('e option \<times> 'i) option"
  ip_RemoveGluonID :: "string \<Rightarrow> string \<Rightarrow> 'i \<Rightarrow> ('e option \<times> 'i) option"
  ip_GluonKey :: "'i \<Rightarrow> bytes option"

text \<open>
  \<open>GetGluonID\<close> in combined mode: if the address has no ID and there is one in all, it is taken over for the address.
  A nil map reads as empty.
\<close>

definition gluon_ids_of :: "UserData \<Rightarrow> (string \<times> string) list" where
  "gluon_ids_of u = (case ud_GluonIDs u of None \<Rightarrow> [] | Some ids \<Rightarrow> ids)"

definition User_GetGluonID ::
  "'e vault_env \<Rightarrow> 'e vault_world \<Rightarrow> string \<Rightarrow> string \<Rightarrow> vault \<Rightarrow> (string option \<times> vault) option" where
  "User_GetGluonID E w userID addrID v =
     (case getUser E w userID v of
        None \<Rightarrow> None
      | Some u \<Rightarrow>
          (case map_of (gluon_ids_of u) addrID of
             Some gluonID \<Rightarrow> Some (Some gluonID, v)
           | None \<Rightarrow>
               if ud_AddressMode u \<noteq> CombinedMode then Some (None, v)
               else (case map snd (gluon_ids_of u) of
                       [gluonID] \<Rightarrow>
                         map_option (\<lambda>(_, v1). (Some gluonID, v1)) (user_SetGluonID E w userID addrID gluonID v)
                     | _ \<Rightarrow> Some (None, v))))"

text \<open>The provider that the user hands to the services: every call meets the next of the coming worlds.\<close>

type_synonym 'e vault_state = "vault \<times> (nat \<Rightarrow> 'e vault_world)"

definition next_worlds :: "(nat \<Rightarrow> 'e vault_world) \<Rightarrow> nat \<Rightarrow> 'e vault_world" where
  "next_worlds ws n = ws (Suc n)"

definition user_provider :: "'e vault_env \<Rightarrow> string \<Rightarrow> ('e vault_state, 'e vault_err) GluonIDProvider" where
  "user_provider E userID =
     \<lparr>ip_GetGluonID = (\<lambda>addrID (v, ws). map_option (\<lambda>(r, v1). (r, v1, next_worlds ws)) (User_GetGluonID E (ws 0) userID addrID v)),
      ip_SetGluonID = (\<lambda>addrID gluonID (v, ws).
        map_option (\<lambda>(r, v1). (case r of Inl e \<Rightarrow> Some e | Inr _ \<Rightarrow> None, v1, next_worlds ws)) (user_SetGluonID E (ws 0) userID addrID gluonID v)),
      ip_RemoveGluonID = (\<lambda>addrID gluonID (v, ws).
        map_option (\<lambda>(r, v1). (case r of Inl e \<Rightarrow> Some e | Inr _ \<Rightarrow> None, v1, next_worlds ws)) (user_RemoveGluonID E (ws 0) userID addrID gluonID v)),
      ip_GluonKey = (\<lambda>(v, ws). user_GluonKey E (ws 0) userID v)\<rparr>"

subsection \<open>Environment and state\<close>

record ('g, 'c, 'e) gluon =
  gl_New :: "string \<Rightarrow> string \<Rightarrow> 'g \<Rightarrow> 'e option \<times> 'g"
  gl_LoadUser :: "'c \<Rightarrow> string \<Rightarrow> bytes \<Rightarrow> 'g \<Rightarrow> ('e + bool) \<times> 'g"
  gl_AddUser :: "'c \<Rightarrow> bytes \<Rightarrow> 'g \<Rightarrow> ('e + string) \<times> 'g"
  gl_RemoveUser :: "string \<Rightarrow> bool \<Rightarrow> 'g \<Rightarrow> 'e option \<times> 'g"
  gl_Serve :: "nat \<Rightarrow> 'g \<Rightarrow> 'e option \<times> 'g"
  gl_Close :: "'g \<Rightarrow> 'e option \<times> 'g"

text \<open>\<open>sw_listen\<close> gives the port of a new listener; a setter gives the error, if any, and the value that is in effect afterwards.\<close>

record 'e server_world =
  sw_listen :: "int \<Rightarrow> 'e + int"
  sw_closeIMAP :: "'e option"
  sw_closeSMTP :: "'e option"
  sw_setIMAPPort :: "int \<Rightarrow> 'e option \<times> int"
  sw_setSMTPPort :: "int \<Rightarrow> 'e option \<times> int"
  sw_DataDirectory :: "'e + string"
  sw_CopyDir :: "string \<Rightarrow> string \<Rightarrow> 'e option"
  sw_setCacheDir :: "string \<Rightarrow> 'e option \<times> string"

datatype server_event =
    IMAPServerCreated
  | IMAPServerReady int
  | IMAPServerStopped
  | IMAPServerClosed
  | IMAPServerError
  | SMTPServerReady int
  | SMTPServerStopped
  | SMTPServerError

record ('g, 'svc) server_manager =
  sm_imapServer :: bool
  sm_imapListener :: "nat option"
  sm_smtpServer :: bool
  sm_smtpListener :: "nat option"
  sm_smtpAccounts :: "'svc accounts"
  sm_gluon :: 'g
  sm_open :: "(nat \<times> int) list"
  sm_nextListener :: nat
  sm_tasks :: "nat list"
  sm_imapPort :: int
  sm_smtpPort :: int
  sm_cacheDir :: string
  sm_published :: "server_event list"

datatype 'e server_err =
    NoIMAPServer
  | CloseListenerErr 'e
  | CloseIMAPErr 'e
  | CreateListenerErr 'e
  | AddressInUse int
  | ServeIMAPErr 'e
  | StorePortErr 'e
  | LoadUserErr 'e
  | RemoveUserErr 'e
  | AddUserErr 'e
  | DataDirErr 'e
  | NewServerErr 'e
  | SameGluonDir
  | CopyGluonDirErr 'e
  | SetGluonDirErr 'e
  | RevertGluonDirErr 'e

text \<open>The errors of the two providers.\<close>

datatype ('e, 'ie, 'se) user_err = ServerErr "'e server_err" | IDErr 'ie | SyncErr 'se

definition PublishEvent :: "server_event \<Rightarrow> ('g, 'svc) server_manager \<Rightarrow> ('g, 'svc) server_manager" where
  "PublishEvent ev s = s\<lparr>sm_published := sm_published s @ [ev]\<rparr>"

definition drop_listener :: "nat \<Rightarrow> ('g, 'svc) server_manager \<Rightarrow> ('g, 'svc) server_manager" where
  "drop_listener l s = s\<lparr>sm_open := AList.delete l (sm_open s)\<rparr>"

definition newListener ::
  "'e server_world \<Rightarrow> int \<Rightarrow> ('g, 'svc) server_manager \<Rightarrow> ('e server_err + nat \<times> int) \<times> ('g, 'svc) server_manager" where
  "newListener W port s =
     (if port \<noteq> 0 \<and> port \<in> set (map snd (sm_open s)) then (Inl (AddressInUse port), s)
      else case sw_listen W port of
             Inl e \<Rightarrow> (Inl (CreateListenerErr e), s)
           | Inr p \<Rightarrow> (Inr (sm_nextListener s, p),
                       s\<lparr>sm_open := (sm_nextListener s, p) # sm_open s, sm_nextListener := Suc (sm_nextListener s)\<rparr>))"

subsection \<open>Starting and stopping\<close>

definition createIMAPServer ::
  "('g, 'c, 'e) gluon \<Rightarrow> 'e server_world \<Rightarrow> ('g, 'svc) server_manager \<Rightarrow> 'e server_err option \<times> ('g, 'svc) server_manager" where
  "createIMAPServer G W s =
     (case sw_DataDirectory W of
        Inl e \<Rightarrow> (Some (DataDirErr e), s)
      | Inr dataDir \<Rightarrow>
          (case gl_New G (sm_cacheDir s @ ''/backend/store'') (dataDir @ ''/backend/db'') (sm_gluon s) of
             (Some e, g) \<Rightarrow> (Some (NewServerErr e), s\<lparr>sm_gluon := g\<rparr>)
           | (None, g) \<Rightarrow> (None, PublishEvent IMAPServerCreated (s\<lparr>sm_gluon := g\<rparr>))))"

definition closeSMTPServer ::
  "'e server_world \<Rightarrow> ('g, 'svc) server_manager \<Rightarrow> 'e server_err option \<times> ('g, 'svc) server_manager" where
  "closeSMTPServer W s =
     (case (case sm_smtpListener s of
              None \<Rightarrow> (None, s)
            | Some l \<Rightarrow>
                (case sw_closeSMTP W of
                   Some e \<Rightarrow> (Some (CloseListenerErr e), s)
                 | None \<Rightarrow> (None, (drop_listener l s)\<lparr>sm_smtpListener := None\<rparr>))) of
        (Some e, s1) \<Rightarrow> (Some e, s1)
      | (None, s1) \<Rightarrow>
          if sm_smtpServer s1 then (None, PublishEvent SMTPServerStopped (s1\<lparr>sm_smtpServer := False\<rparr>))
          else (None, s1))"

definition stopIMAPListener ::
  "'e server_world \<Rightarrow> ('g, 'svc) server_manager \<Rightarrow> 'e server_err option \<times> ('g, 'svc) server_manager" where
  "stopIMAPListener W s =
     (case sm_imapListener s of
        None \<Rightarrow> (None, s)
      | Some l \<Rightarrow>
          (case sw_closeIMAP W of
             Some e \<Rightarrow> (Some (CloseListenerErr e), s)
           | None \<Rightarrow> (None, PublishEvent IMAPServerStopped ((drop_listener l s)\<lparr>sm_imapListener := None\<rparr>))))"

definition closeIMAPServer ::
  "('g, 'c, 'e) gluon \<Rightarrow> 'e server_world \<Rightarrow> ('g, 'svc) server_manager \<Rightarrow> 'e server_err option \<times> ('g, 'svc) server_manager" where
  "closeIMAPServer G W s =
     (case stopIMAPListener W s of
        (Some e, s1) \<Rightarrow> (Some e, s1)
      | (None, s1) \<Rightarrow>
          if \<not> sm_imapServer s1 then (None, s1)
          else (case gl_Close G (sm_gluon s1) of
                  (Some e, g) \<Rightarrow> (Some (CloseIMAPErr e), s1\<lparr>sm_gluon := g\<rparr>)
                | (None, g) \<Rightarrow> (None, PublishEvent IMAPServerClosed (s1\<lparr>sm_gluon := g, sm_imapServer := False\<rparr>))))"

text \<open>The task that serves the listener reads the field of the server only when it runs (\<open>run_task\<close> below).\<close>

definition serveSMTP ::
  "'e server_world \<Rightarrow> ('g, 'svc) server_manager \<Rightarrow> 'e server_err option \<times> ('g, 'svc) server_manager" where
  "serveSMTP W s =
     (case newListener W (sm_smtpPort s) s of
        (Inl e, s1) \<Rightarrow> (Some e, PublishEvent SMTPServerError s1)
      | (Inr (l, port), s1) \<Rightarrow>
          (let s2 = s1\<lparr>sm_smtpListener := Some l, sm_tasks := sm_tasks s1 @ [l]\<rparr> in
           case sw_setSMTPPort W port of
             (Some e, p) \<Rightarrow> (Some (StorePortErr e), PublishEvent SMTPServerError (s2\<lparr>sm_smtpPort := p\<rparr>))
           | (None, p) \<Rightarrow> (None, PublishEvent (SMTPServerReady port) (s2\<lparr>sm_smtpPort := p\<rparr>))))"

definition serveIMAP ::
  "('g, 'c, 'e) gluon \<Rightarrow> 'e server_world \<Rightarrow> ('g, 'svc) server_manager \<Rightarrow> 'e server_err option \<times> ('g, 'svc) server_manager" where
  "serveIMAP G W s =
     (if \<not> sm_imapServer s then (Some NoIMAPServer, PublishEvent IMAPServerError s)
      else case newListener W (sm_imapPort s) s of
             (Inl e, s1) \<Rightarrow> (Some e, PublishEvent IMAPServerError s1)
           | (Inr (l, port), s1) \<Rightarrow>
               (let s2 = s1\<lparr>sm_imapListener := Some l\<rparr> in
                case gl_Serve G l (sm_gluon s2) of
                  (Some e, g) \<Rightarrow> (Some (ServeIMAPErr e), PublishEvent IMAPServerError (s2\<lparr>sm_gluon := g\<rparr>))
                | (None, g) \<Rightarrow>
                    (let s3 = s2\<lparr>sm_gluon := g\<rparr> in
                     case sw_setIMAPPort W port of
                       (Some e, p) \<Rightarrow> (Some (StorePortErr e), PublishEvent IMAPServerError (s3\<lparr>sm_imapPort := p\<rparr>))
                     | (None, p) \<Rightarrow> (None, PublishEvent (IMAPServerReady port) (s3\<lparr>sm_imapPort := p\<rparr>)))))"

definition restartIMAP ::
  "('g, 'c, 'e) gluon \<Rightarrow> 'e server_world \<Rightarrow> ('g, 'svc) server_manager \<Rightarrow> 'e server_err option \<times> ('g, 'svc) server_manager" where
  "restartIMAP G W s =
     (case stopIMAPListener W s of (Some e, s1) \<Rightarrow> (Some e, s1) | (None, s1) \<Rightarrow> serveIMAP G W s1)"

definition restartSMTP ::
  "'e server_world \<Rightarrow> ('g, 'svc) server_manager \<Rightarrow> 'e server_err option \<times> ('g, 'svc) server_manager" where
  "restartSMTP W s =
     (case closeSMTPServer W s of
        (Some e, s1) \<Rightarrow> (Some e, s1)
      | (None, s1) \<Rightarrow> serveSMTP W ((PublishEvent SMTPServerStopped s1)\<lparr>sm_smtpServer := True\<rparr>))"

definition handleLoadedUserCountChange ::
  "('g, 'c, 'e) gluon \<Rightarrow> 'e server_world \<Rightarrow> ('g, 'svc) server_manager \<Rightarrow> ('g, 'svc) server_manager" where
  "handleLoadedUserCountChange G W s =
     (let s1 = (if sm_imapListener s = None then snd (serveIMAP G W s) else s)
      in if sm_smtpListener s1 = None then snd (restartSMTP W s1) else s1)"

text \<open>Closing ends with waiting for the tasks, which lets those that are left run (\<open>run_task\<close> below).\<close>

definition handleClose ::
  "('g, 'c, 'e) gluon \<Rightarrow> 'e server_world \<Rightarrow> ('g, 'svc) server_manager \<Rightarrow> ('g, 'svc) server_manager" where
  "handleClose G W s = snd (closeSMTPServer W (snd (closeIMAPServer G W s)))"

text \<open>\<^verbatim>\<open>NewService\<close> and \<^verbatim>\<open>Init\<close>: on a failed start the field of the listener is reset.\<close>

definition sm_New :: "'g \<Rightarrow> int \<Rightarrow> int \<Rightarrow> string \<Rightarrow> ('g, 'svc) server_manager" where
  "sm_New g imapPort smtpPort cacheDir =
     \<lparr>sm_imapServer = False, sm_imapListener = None, sm_smtpServer = False, sm_smtpListener = None, sm_smtpAccounts = [], sm_gluon = g,
      sm_open = [], sm_nextListener = 0, sm_tasks = [], sm_imapPort = imapPort, sm_smtpPort = smtpPort, sm_cacheDir = cacheDir,
      sm_published = []\<rparr>"

definition sm_Init ::
  "('g, 'c, 'e) gluon \<Rightarrow> 'e server_world \<Rightarrow> ('g, 'svc) server_manager \<Rightarrow> 'e server_err option \<times> ('g, 'svc) server_manager" where
  "sm_Init G W s =
     (case createIMAPServer G W s of
        (Some e, s1) \<Rightarrow> (Some e, s1)
      | (None, s1) \<Rightarrow>
          (let s2 = s1\<lparr>sm_imapServer := True, sm_smtpServer := True\<rparr>;
               s3 = (case serveIMAP G W s2 of (Some _, s') \<Rightarrow> s'\<lparr>sm_imapListener := None\<rparr> | (None, s') \<Rightarrow> s');
               s4 = (case serveSMTP W s3 of (Some _, s') \<Rightarrow> s'\<lparr>sm_smtpListener := None\<rparr> | (None, s') \<Rightarrow> s')
           in (None, s4)))"

definition moveGluonCacheDir ::
  "'e server_world \<Rightarrow> string \<Rightarrow> string \<Rightarrow> ('g, 'svc) server_manager \<Rightarrow> 'e server_err option \<times> ('g, 'svc) server_manager" where
  "moveGluonCacheDir W oldGluonDir newGluonDir s =
     (case sw_CopyDir W (oldGluonDir @ ''/backend/store'') (newGluonDir @ ''/backend/store'') of
        Some e \<Rightarrow> (Some (CopyGluonDirErr e), s)
      | None \<Rightarrow>
          (case sw_setCacheDir W newGluonDir of
             (Some e, d) \<Rightarrow> (Some (SetGluonDirErr e), s\<lparr>sm_cacheDir := d\<rparr>)
           | (None, d) \<Rightarrow> (None, s\<lparr>sm_cacheDir := d\<rparr>)))"

definition handleSetGluonDir ::
  "('g, 'c, 'e) gluon \<Rightarrow> 'e server_world \<Rightarrow> string \<Rightarrow> ('g, 'svc) server_manager \<Rightarrow> 'e server_err option \<times> ('g, 'svc) server_manager" where
  "handleSetGluonDir G W dir s =
     (let currentGluonDir = sm_cacheDir s; newGluonDir = dir @ ''/gluon'' in
      if newGluonDir = currentGluonDir then (Some SameGluonDir, s)
      else case closeIMAPServer G W s of
        (Some e, s1) \<Rightarrow> (Some e, s1)
      | (None, s1) \<Rightarrow>
          (case moveGluonCacheDir W currentGluonDir newGluonDir s1 of
             (Some e, s2) \<Rightarrow>
               (case sw_setCacheDir W currentGluonDir of
                  (Some e', d) \<Rightarrow> (Some (RevertGluonDirErr e'), s2\<lparr>sm_cacheDir := d\<rparr>)
                | (None, d) \<Rightarrow> (Some e, s2\<lparr>sm_cacheDir := d\<rparr>))
           | (None, s2) \<Rightarrow>
               (case createIMAPServer G W s2 of
                  (Some e, s3) \<Rightarrow> (Some e, s3)
                | (None, s3) \<Rightarrow> serveIMAP G W (s3\<lparr>sm_imapServer := True\<rparr>))))"

subsection \<open>Accounts\<close>

text \<open>\<open>None\<close> is a panic. \<open>P\<close> and \<open>Q\<close> are the providers of the Gluon IDs and of the sync status, with their states \<open>i\<close> and \<open>q\<close>.\<close>

definition add_new_user ::
  "('g, 'c, 'e) gluon \<Rightarrow> ('i, 'ie) GluonIDProvider \<Rightarrow> 'c \<Rightarrow> string \<Rightarrow> 'g \<Rightarrow> 'i \<Rightarrow> (('e, 'ie, 'se) user_err option \<times> 'g \<times> 'i) option" where
  "add_new_user G P connector addrID g i =
     (case ip_GluonKey P i of
        None \<Rightarrow> None
      | Some key \<Rightarrow>
          (case gl_AddUser G connector key g of
             (Inl e, g1) \<Rightarrow> Some (Some (ServerErr (AddUserErr e)), g1, i)
           | (Inr gluonID, g1) \<Rightarrow>
               map_option (\<lambda>(err, i1). (map_option IDErr err, g1, i1)) (ip_SetGluonID P addrID gluonID i)))"

definition handleAddIMAPUserImpl ::
  "('g, 'c, 'e) gluon \<Rightarrow> ('i, 'ie) GluonIDProvider \<Rightarrow> ('q, 'se) StateProvider \<Rightarrow> bool \<Rightarrow> 'c \<Rightarrow> string \<Rightarrow> 'g \<Rightarrow> 'i \<Rightarrow> 'q \<Rightarrow>
     (('e, 'ie, 'se) user_err option \<times> 'g \<times> 'i \<times> 'q) option" where
  "handleAddIMAPUserImpl G P Q server connector addrID g i q =
     (if \<not> server then Some (Some (ServerErr NoIMAPServer), g, i, q)
      else case ip_GetGluonID P addrID i of
        None \<Rightarrow> None
      | Some (Some gluonID, i1) \<Rightarrow>
          (case ip_GluonKey P i1 of
             None \<Rightarrow> None
           | Some key \<Rightarrow>
          (case gl_LoadUser G connector gluonID key g of
             (Inl e, g1) \<Rightarrow> Some (Some (ServerErr (LoadUserErr e)), g1, i1, q)
           | (Inr True, g1) \<Rightarrow>
               (case gl_RemoveUser G gluonID False g1 of
                  (Some e, g2) \<Rightarrow> Some (Some (ServerErr (RemoveUserErr e)), g2, i1, q)
                | (None, g2) \<Rightarrow>
                    (case p_ClearSyncStatus Q q of
                       (Some e, q1) \<Rightarrow> Some (Some (SyncErr e), g2, i1, q1)
                     | (None, q1) \<Rightarrow>
                         (case gl_LoadUser G connector gluonID key g2 of
                            (Inl e, g3) \<Rightarrow> Some (Some (ServerErr (AddUserErr e)), g3, i1, q1)
                          | (Inr True, g3) \<Rightarrow> None
                          | (Inr False, g3) \<Rightarrow> Some (None, g3, i1, q1))))
           | (Inr False, g1) \<Rightarrow>
               (case p_GetSyncStatus Q q of
                  Inl e \<Rightarrow> Some (Some (SyncErr e), g1, i1, q)
                | Inr st \<Rightarrow>
                    if HasLabels st then Some (None, g1, i1, q)
                    else (case gl_RemoveUser G gluonID True g1 of
                            (Some e, g2) \<Rightarrow> Some (Some (ServerErr (RemoveUserErr e)), g2, i1, q)
                          | (None, g2) \<Rightarrow>
                              (case ip_RemoveGluonID P addrID gluonID i1 of
                                 None \<Rightarrow> None
                               | Some (Some e, i2) \<Rightarrow> Some (Some (IDErr e), g2, i2, q)
                               | Some (None, i2) \<Rightarrow>
                                   map_option (\<lambda>(err, g3, i3). (err, g3, i3, q)) (add_new_user G P connector addrID g2 i2))))))
      | Some (None, i1) \<Rightarrow>
          (case p_ClearSyncStatus Q q of
             (Some e, q1) \<Rightarrow> Some (Some (SyncErr e), g, i1, q1)
           | (None, q1) \<Rightarrow>
               map_option (\<lambda>(err, g1, i2). (err, g1, i2, q1)) (add_new_user G P connector addrID g i1)))"

fun remove_users ::
  "('g, 'c, 'e) gluon \<Rightarrow> ('i, 'ie) GluonIDProvider \<Rightarrow> bool \<Rightarrow> string list \<Rightarrow> 'g \<Rightarrow> 'i \<Rightarrow> (('e, 'ie, 'se) user_err option \<times> 'g \<times> 'i) option" where
  "remove_users G P withData [] g i = Some (None, g, i)"
| "remove_users G P withData (addrID # addrIDs) g i =
     (case ip_GetGluonID P addrID i of
        None \<Rightarrow> None
      | Some (None, i1) \<Rightarrow> remove_users G P withData addrIDs g i1
      | Some (Some gluonID, i1) \<Rightarrow>
          (case gl_RemoveUser G gluonID withData g of
             (Some e, g1) \<Rightarrow> Some (Some (ServerErr (RemoveUserErr e)), g1, i1)
           | (None, g1) \<Rightarrow>
               if \<not> withData then remove_users G P withData addrIDs g1 i1
               else (case ip_RemoveGluonID P addrID gluonID i1 of
                       None \<Rightarrow> None
                     | Some (Some e, i2) \<Rightarrow> Some (Some (IDErr e), g1, i2)
                     | Some (None, i2) \<Rightarrow> remove_users G P withData addrIDs g1 i2)))"

definition handleRemoveIMAPUser ::
  "('g, 'c, 'e) gluon \<Rightarrow> ('i, 'ie) GluonIDProvider \<Rightarrow> bool \<Rightarrow> bool \<Rightarrow> string list \<Rightarrow> 'g \<Rightarrow> 'i \<Rightarrow> (('e, 'ie, 'se) user_err option \<times> 'g \<times> 'i) option" where
  "handleRemoveIMAPUser G P server withData addrIDs g i =
     (if \<not> server then Some (Some (ServerErr NoIMAPServer), g, i) else remove_users G P withData addrIDs g i)"

text \<open>What \<^verbatim>\<open>logRemoteLabelIDsFromServer\<close> asks Gluon for is only logged; looking up an ID may store it.\<close>

fun log_ids :: "('i, 'ie) GluonIDProvider \<Rightarrow> string list \<Rightarrow> 'i \<Rightarrow> 'i option" where
  "log_ids P [] i = Some i"
| "log_ids P (addrID # addrIDs) i =
     (case ip_GetGluonID P addrID i of None \<Rightarrow> None | Some (_, i1) \<Rightarrow> log_ids P addrIDs i1)"

definition logRemoteLabelIDsFromServer ::
  "('i, 'ie) GluonIDProvider \<Rightarrow> bool \<Rightarrow> string list \<Rightarrow> 'i \<Rightarrow> (('e, 'ie, 'se) user_err option \<times> 'i) option" where
  "logRemoteLabelIDsFromServer P server addrIDs i =
     (if \<not> server then Some (Some (ServerErr NoIMAPServer), i) else map_option (Pair None) (log_ids P addrIDs i))"

subsection \<open>The loop\<close>

datatype ('c, 'i, 'q, 'svc) server_input =
    CtxClosed
  | ConnStatusDown
  | ConnStatusUp
  | smRequestClose
  | smRequestRestartSMTP
  | smRequestRestartIMAP
  | smRequestAddIMAPUser 'c string 'i 'q
  | smRequestLogRemoteMailboxIDs "string list" 'i
  | smRequestRemoveIMAPUser bool "string list" 'i
  | smRequestSetGluonDir string
  | smRequestAddSMTPAccount string 'svc
  | smRequestRemoveSMTPAccount string

text \<open>The reply to a request; \<open>Stopped\<close> ends the loop. The providers of a request come back with their new states.\<close>

datatype ('e, 'ie, 'se, 'i, 'q) server_output =
    Stopped
  | Reply "('e, 'ie, 'se) user_err option"
  | ReplyUser "('e, 'ie, 'se) user_err option" 'i "'q option"

definition server_step ::
  "('g, 'c, 'e) gluon \<Rightarrow> ('i, 'ie) GluonIDProvider \<Rightarrow> ('q, 'se) StateProvider \<Rightarrow> 'e server_world \<Rightarrow> ('c, 'i, 'q, 'svc) server_input \<Rightarrow>
     ('g, 'svc) server_manager \<Rightarrow> (('e, 'ie, 'se, 'i, 'q) server_output \<times> ('g, 'svc) server_manager) option" where
  "server_step G P Q W inp s =
     (case inp of
        CtxClosed \<Rightarrow> Some (Stopped, handleClose G W s)
      | ConnStatusDown \<Rightarrow> Some (Reply None, snd (stopIMAPListener W (snd (closeSMTPServer W s))))
      | ConnStatusUp \<Rightarrow> Some (Reply None, handleLoadedUserCountChange G W s)
      | smRequestClose \<Rightarrow> Some (Stopped, handleClose G W s)
      | smRequestRestartSMTP \<Rightarrow> (case restartSMTP W s of (e, s1) \<Rightarrow> Some (Reply (map_option ServerErr e), s1))
      | smRequestRestartIMAP \<Rightarrow> (case restartIMAP G W s of (e, s1) \<Rightarrow> Some (Reply (map_option ServerErr e), s1))
      | smRequestAddIMAPUser connector addrID i q \<Rightarrow>
          map_option (\<lambda>(err, g, i1, q1).
            (ReplyUser err i1 (Some q1),
             if err = None then handleLoadedUserCountChange G W (s\<lparr>sm_gluon := g\<rparr>) else s\<lparr>sm_gluon := g\<rparr>))
            (handleAddIMAPUserImpl G P Q (sm_imapServer s) connector addrID (sm_gluon s) i q)
      | smRequestLogRemoteMailboxIDs addrIDs i \<Rightarrow>
          map_option (\<lambda>(err, i1). (ReplyUser err i1 None, s)) (logRemoteLabelIDsFromServer P (sm_imapServer s) addrIDs i)
      | smRequestRemoveIMAPUser withData addrIDs i \<Rightarrow>
          map_option (\<lambda>(err, g, i1).
            (ReplyUser err i1 None,
             if err = None then handleLoadedUserCountChange G W (s\<lparr>sm_gluon := g\<rparr>) else s\<lparr>sm_gluon := g\<rparr>))
            (handleRemoveIMAPUser G P (sm_imapServer s) withData addrIDs (sm_gluon s) i)
      | smRequestSetGluonDir dir \<Rightarrow> (case handleSetGluonDir G W dir s of (e, s1) \<Rightarrow> Some (Reply (map_option ServerErr e), s1))
      | smRequestAddSMTPAccount userID svc \<Rightarrow> Some (Reply None, s\<lparr>sm_smtpAccounts := AddAccount userID svc (sm_smtpAccounts s)\<rparr>)
      | smRequestRemoveSMTPAccount userID \<Rightarrow> Some (Reply None, s\<lparr>sm_smtpAccounts := RemoveAccount userID (sm_smtpAccounts s)\<rparr>))"

text \<open>A task that was started to serve an SMTP listener runs: with no server it dereferences nil (\<open>None\<close>).\<close>

definition run_task :: "('g, 'svc) server_manager \<Rightarrow> ('g, 'svc) server_manager option" where
  "run_task s =
     (case sm_tasks s of
        [] \<Rightarrow> Some s
      | l # ls \<Rightarrow> if sm_smtpServer s then Some (s\<lparr>sm_tasks := ls\<rparr>) else None)"

subsection \<open>What the published events say\<close>

text \<open>The port the last events announce, if any: what a frontend shows.\<close>

definition smtp_announced :: "server_event list \<Rightarrow> int option" where
  "smtp_announced = foldl (\<lambda>st ev. case ev of SMTPServerReady p \<Rightarrow> Some p | SMTPServerStopped \<Rightarrow> None | SMTPServerError \<Rightarrow> None | _ \<Rightarrow> st) None"

definition imap_announced :: "server_event list \<Rightarrow> int option" where
  "imap_announced = foldl (\<lambda>st ev. case ev of IMAPServerReady p \<Rightarrow> Some p | IMAPServerStopped \<Rightarrow> None | IMAPServerError \<Rightarrow> None
     | IMAPServerClosed \<Rightarrow> None | _ \<Rightarrow> st) None"

lemma announced_snoc [simp]:
  "smtp_announced (evs @ [ev]) = (case ev of SMTPServerReady p \<Rightarrow> Some p | SMTPServerStopped \<Rightarrow> None | SMTPServerError \<Rightarrow> None
     | _ \<Rightarrow> smtp_announced evs)"
  "imap_announced (evs @ [ev]) = (case ev of IMAPServerReady p \<Rightarrow> Some p | IMAPServerStopped \<Rightarrow> None | IMAPServerError \<Rightarrow> None
     | IMAPServerClosed \<Rightarrow> None | _ \<Rightarrow> imap_announced evs)"
  "smtp_announced [] = None" "imap_announced [] = None"
  by (cases ev; simp add: smtp_announced_def imap_announced_def)+

text \<open>
  The invariant: the listeners in use are open, different and known by their numbers, an SMTP listener has a server, and what was announced
  last is open on the announced port.
\<close>

definition server_inv :: "('g, 'svc) server_manager \<Rightarrow> bool" where
  "server_inv s \<longleftrightarrow>
     (\<forall>l p. map_of (sm_open s) l = Some p \<longrightarrow> l < sm_nextListener s) \<and>
     (\<forall>l. sm_imapListener s = Some l \<longrightarrow> map_of (sm_open s) l \<noteq> None) \<and>
     (\<forall>l. sm_smtpListener s = Some l \<longrightarrow> map_of (sm_open s) l \<noteq> None \<and> sm_smtpServer s \<and> sm_imapListener s \<noteq> Some l) \<and>
     (\<forall>p. smtp_announced (sm_published s) = Some p \<longrightarrow> (\<exists>l. sm_smtpListener s = Some l \<and> map_of (sm_open s) l = Some p)) \<and>
     (\<forall>p. imap_announced (sm_published s) = Some p \<longrightarrow> (\<exists>l. sm_imapListener s = Some l \<and> map_of (sm_open s) l = Some p))"

lemma closeSMTP_inv:
  assumes "server_inv s" "closeSMTPServer W s = (e, s')"
  shows "server_inv s' \<and> sm_imapServer s' = sm_imapServer s \<and> sm_imapListener s' = sm_imapListener s \<and>
    (e = None \<longrightarrow> sm_smtpListener s' = None)"
  using assms
  by (cases "sm_smtpListener s"; cases "sw_closeSMTP W"; cases "sm_smtpServer s")
    (auto simp: closeSMTPServer_def server_inv_def drop_listener_def PublishEvent_def delete_conv' split: if_splits)

lemma stopIMAP_inv:
  assumes "server_inv s" "stopIMAPListener W s = (e, s')"
  shows "server_inv s' \<and> sm_imapServer s' = sm_imapServer s \<and> sm_smtpServer s' = sm_smtpServer s \<and>
    sm_smtpListener s' = sm_smtpListener s \<and> (e = None \<longrightarrow> sm_imapListener s' = None)"
  using assms
  by (cases "sm_imapListener s"; cases "sw_closeIMAP W")
    (auto simp: stopIMAPListener_def server_inv_def drop_listener_def PublishEvent_def delete_conv' split: if_splits)

lemma closeIMAP_inv:
  assumes "server_inv s" "closeIMAPServer G W s = (e, s')"
  shows "server_inv s' \<and> (e = None \<longrightarrow> sm_imapListener s' = None \<and> \<not> sm_imapServer s')"
proof -
  obtain e1 s1 where st: "stopIMAPListener W s = (e1, s1)" by fastforce
  note i = stopIMAP_inv[OF assms(1) st]
  show ?thesis
    using assms(2) st i
    by (cases e1; cases "sm_imapServer s1"; cases "gl_Close G (sm_gluon s1)"; cases "fst (gl_Close G (sm_gluon s1))")
      (auto simp: closeIMAPServer_def server_inv_def PublishEvent_def)
qed

lemma fresh_listener:
  assumes "server_inv s"
  shows "map_of (sm_open s) (sm_nextListener s) = None" "sm_imapListener s \<noteq> Some (sm_nextListener s)"
    "sm_smtpListener s \<noteq> Some (sm_nextListener s)"
proof -
  have "l < sm_nextListener s" if "map_of (sm_open s) l = Some p" for l p using assms that unfolding server_inv_def by blast
  from this[of "sm_nextListener s"] show n: "map_of (sm_open s) (sm_nextListener s) = None"
    by (cases "map_of (sm_open s) (sm_nextListener s)") auto
  show "sm_imapListener s \<noteq> Some (sm_nextListener s)" "sm_smtpListener s \<noteq> Some (sm_nextListener s)"
    using assms n unfolding server_inv_def by force+
qed

lemma newListener_cases:
  assumes "newListener W port s = (r, s')"
  obtains (failed) e where "r = Inl e" "s' = s"
  | (opened) p where "r = Inr (sm_nextListener s, p)" "sw_listen W port = Inr p"
      "s' = s\<lparr>sm_open := (sm_nextListener s, p) # sm_open s, sm_nextListener := Suc (sm_nextListener s)\<rparr>"
proof (cases "port \<noteq> 0 \<and> port \<in> set (map snd (sm_open s))")
  case True
  then show thesis using assms failed[of "AddressInUse port"] by (simp add: newListener_def)
next
  case False
  show thesis
  proof (cases "sw_listen W port")
    case (Inl e)
    then show thesis using assms failed[of "CreateListenerErr e"] False by (auto simp: newListener_def)
  next
    case (Inr p)
    then show thesis using opened[OF _ Inr] assms False by (auto simp: newListener_def)
  qed
qed

lemma serveSMTP_inv:
  assumes "server_inv s" "serveSMTP W s = (e, s')" "sm_smtpListener s = None" "sm_smtpServer s"
  shows "server_inv s' \<and> server_inv (s'\<lparr>sm_smtpListener := if e = None then sm_smtpListener s' else None\<rparr>)"
proof -
  obtain r s1 where n: "newListener W (sm_smtpPort s) s = (r, s1)" by fastforce
  from n show ?thesis
  proof (cases rule: newListener_cases)
    case (failed err)
    then show ?thesis using assms n by (auto simp: serveSMTP_def server_inv_def PublishEvent_def)
  next
    case (opened p)
    note i = fresh_listener[OF assms(1)]
    obtain e2 p2 where p2: "sw_setSMTPPort W p = (e2, p2)" by fastforce
    show ?thesis
      using assms n opened p2 i by (cases e2) (auto simp: serveSMTP_def server_inv_def PublishEvent_def less_Suc_eq)
  qed
qed

lemma serveIMAP_inv:
  assumes "server_inv s" "serveIMAP G W s = (e, s')" "sm_imapListener s = None"
  shows "server_inv s' \<and> server_inv (s'\<lparr>sm_imapListener := if e = None then sm_imapListener s' else None\<rparr>) \<and>
    sm_smtpListener s' = sm_smtpListener s \<and> sm_smtpServer s' = sm_smtpServer s"
proof (cases "sm_imapServer s")
  case False
  then show ?thesis using assms by (auto simp: serveIMAP_def server_inv_def PublishEvent_def)
next
  case True
  obtain r s1 where n: "newListener W (sm_imapPort s) s = (r, s1)" by fastforce
  from n show ?thesis
  proof (cases rule: newListener_cases)
    case (failed err)
    then show ?thesis using assms n True by (auto simp: serveIMAP_def server_inv_def PublishEvent_def)
  next
    case (opened p)
    note i = fresh_listener[OF assms(1)]
    obtain e1 g where g: "gl_Serve G (sm_nextListener s) (sm_gluon s) = (e1, g)" by fastforce
    obtain e2 p2 where p2: "sw_setIMAPPort W p = (e2, p2)" by fastforce
    show ?thesis
      using assms n opened p2 g i True
      by (cases e1; cases e2) (auto simp: serveIMAP_def server_inv_def PublishEvent_def less_Suc_eq)
  qed
qed

lemma restartSMTP_inv:
  assumes "server_inv s" "restartSMTP W s = (e, s')"
  shows "server_inv s'"
proof -
  obtain e1 s1 where c: "closeSMTPServer W s = (e1, s1)" by fastforce
  note i = closeSMTP_inv[OF assms(1) c]
  show ?thesis
  proof (cases e1)
    case None
    let ?s = "(PublishEvent SMTPServerStopped s1)\<lparr>sm_smtpServer := True\<rparr>"
    have "server_inv ?s" "sm_smtpListener ?s = None" "sm_smtpServer ?s"
      using i None by (auto simp: server_inv_def PublishEvent_def)
    then show ?thesis using serveSMTP_inv[of ?s W e s'] assms(2) c None by (simp add: restartSMTP_def)
  next
    case (Some err)
    then show ?thesis using assms(2) c i by (simp add: restartSMTP_def)
  qed
qed

lemma restartIMAP_inv:
  assumes "server_inv s" "restartIMAP G W s = (e, s')"
  shows "server_inv s'"
proof -
  obtain e1 s1 where c: "stopIMAPListener W s = (e1, s1)" by fastforce
  note i = stopIMAP_inv[OF assms(1) c]
  show ?thesis
    using i assms(2) c serveIMAP_inv[of s1 G W e s'] by (cases e1) (auto simp: restartIMAP_def)
qed

lemma handleLoaded_inv: "server_inv s \<Longrightarrow> server_inv (handleLoadedUserCountChange G W s)"
proof -
  assume inv: "server_inv s"
  define s1 where "s1 = (if sm_imapListener s = None then snd (serveIMAP G W s) else s)"
  have "server_inv s1"
    using inv serveIMAP_inv[OF inv, of G W "fst (serveIMAP G W s)" "snd (serveIMAP G W s)"] by (simp add: s1_def)
  then show ?thesis
    using restartSMTP_inv[of s1 W "fst (restartSMTP W s1)" "snd (restartSMTP W s1)"]
    by (simp add: handleLoadedUserCountChange_def s1_def[symmetric])
qed

lemma server_inv_gluon [simp]: "server_inv (s\<lparr>sm_gluon := g\<rparr>) = server_inv s"
  by (simp add: server_inv_def)

lemma server_inv_cache [simp]: "server_inv (s\<lparr>sm_cacheDir := d\<rparr>) = server_inv s"
  by (simp add: server_inv_def)

lemma server_inv_server [simp]: "server_inv (s\<lparr>sm_imapServer := b\<rparr>) = server_inv s"
  by (simp add: server_inv_def)

lemma server_inv_accounts [simp]: "server_inv (s\<lparr>sm_smtpAccounts := a\<rparr>) = server_inv s"
  by (simp add: server_inv_def)

lemma createIMAP_inv:
  assumes "server_inv s" "createIMAPServer G W s = (e, s')"
  shows "server_inv s' \<and> sm_imapListener s' = sm_imapListener s \<and> sm_smtpListener s' = sm_smtpListener s"
proof (cases "sw_DataDirectory W")
  case (Inl err)
  then show ?thesis using assms by (simp add: createIMAPServer_def)
next
  case (Inr dir)
  obtain e1 g where g: "gl_New G (sm_cacheDir s @ ''/backend/store'') (dir @ ''/backend/db'') (sm_gluon s) = (e1, g)" by fastforce
  show ?thesis using assms Inr g by (cases e1) (auto simp: createIMAPServer_def server_inv_def PublishEvent_def)
qed

lemma moveGluon_eq: "\<exists>d. snd (moveGluonCacheDir W old new s) = s\<lparr>sm_cacheDir := d\<rparr>"
  by (auto simp: moveGluonCacheDir_def split: option.splits prod.splits intro: exI[of _ "sm_cacheDir s"])

lemma setGluonDir_inv:
  assumes "server_inv s" "handleSetGluonDir G W dir s = (e, s')"
  shows "server_inv s'"
proof (cases "dir @ ''/gluon'' = sm_cacheDir s")
  case True
  then show ?thesis using assms by (simp add: handleSetGluonDir_def)
next
  case False
  note eq = assms(2)[unfolded handleSetGluonDir_def Let_def if_not_P[OF False]]
  obtain e1 s1 where c: "closeIMAPServer G W s = (e1, s1)" by fastforce
  note i1 = closeIMAP_inv[OF assms(1) c]
  show ?thesis
  proof (cases e1)
    case (Some err)
    then show ?thesis using eq c i1 by simp
  next
    case None
    obtain e2 s2 where m: "moveGluonCacheDir W (sm_cacheDir s) (dir @ ''/gluon'') s1 = (e2, s2)" by fastforce
    have i2: "server_inv s2" "sm_imapListener s2 = None"
      using moveGluon_eq[of W "sm_cacheDir s" "dir @ ''/gluon''" s1] m i1 None by auto
    show ?thesis
    proof (cases e2)
      case (Some err)
      then show ?thesis using eq c None m i2 by (auto split: prod.splits option.splits)
    next
      case none2: None
      obtain e3 s3 where cr: "createIMAPServer G W s2 = (e3, s3)" by fastforce
      note i3 = createIMAP_inv[OF i2(1) cr]
      show ?thesis
        using eq c None m none2 cr i3 i2(2) serveIMAP_inv[of "s3\<lparr>sm_imapServer := True\<rparr>" G W e s'] by (cases e3) auto
    qed
  qed
qed

lemma Init_inv:
  assumes "server_inv s" "sm_imapListener s = None" "sm_smtpListener s = None" "sm_Init G W s = (e, s')"
  shows "server_inv s'"
proof -
  obtain e1 s1 where c: "createIMAPServer G W s = (e1, s1)" by fastforce
  note i1 = createIMAP_inv[OF assms(1) c]
  show ?thesis
  proof (cases e1)
    case (Some err)
    then show ?thesis using assms(4) c i1 by (simp add: sm_Init_def)
  next
    case None
    define s2 where "s2 = s1\<lparr>sm_imapServer := True, sm_smtpServer := True\<rparr>"
    have i2: "server_inv s2" "sm_imapListener s2 = None" "sm_smtpListener s2 = None" "sm_smtpServer s2"
      using i1 assms(2,3) by (auto simp: s2_def server_inv_def)
    obtain e3 t3 where s3: "serveIMAP G W s2 = (e3, t3)" by fastforce
    define u3 where "u3 = (case e3 of Some _ \<Rightarrow> t3\<lparr>sm_imapListener := None\<rparr> | None \<Rightarrow> t3)"
    have i3: "server_inv u3" "sm_smtpListener u3 = None" "sm_smtpServer u3"
      using serveIMAP_inv[OF i2(1) s3 i2(2)] i2(3,4) by (auto simp: u3_def split: option.splits)
    obtain e4 t4 where s4: "serveSMTP W u3 = (e4, t4)" by fastforce
    have "s' = (case e4 of Some _ \<Rightarrow> t4\<lparr>sm_smtpListener := None\<rparr> | None \<Rightarrow> t4)"
      using assms(4) c None s3 s4 unfolding sm_Init_def s2_def u3_def by (auto simp: Let_def split: option.splits)
    then show ?thesis using serveSMTP_inv[OF i3(1) s4 i3(2,3)] by (auto split: option.splits)
  qed
qed

subsection \<open>Every reachable state of the manager\<close>

inductive server_run ::
  "('g, 'c, 'e) gluon \<Rightarrow> ('i, 'ie) GluonIDProvider \<Rightarrow> ('q, 'se) StateProvider \<Rightarrow> ('g, 'svc) server_manager \<Rightarrow> bool" for G P Q where
  start: "sm_Init G W (sm_New g imapPort smtpPort cacheDir) = (None, s) \<Longrightarrow> server_run G P Q s"
| step: "server_run G P Q s \<Longrightarrow> server_step G P Q W inp s = Some (out, s') \<Longrightarrow> server_run G P Q s'"
| task: "server_run G P Q s \<Longrightarrow> run_task s = Some s' \<Longrightarrow> server_run G P Q s'"

lemma server_step_inv:
  assumes inv: "server_inv s" and st: "server_step G P Q W inp s = Some (out, s')"
  shows "server_inv s'"
proof -
  have down: "server_inv (snd (stopIMAPListener W (snd (closeSMTPServer W s))))"
    by (metis closeSMTP_inv inv prod.collapse stopIMAP_inv)
  have close: "server_inv (handleClose G W s)"
    unfolding handleClose_def by (metis closeIMAP_inv closeSMTP_inv inv prod.collapse)
  have loaded: "server_inv (handleLoadedUserCountChange G W (s\<lparr>sm_gluon := g\<rparr>))" for g
    using handleLoaded_inv[of "s\<lparr>sm_gluon := g\<rparr>"] inv by simp
  have loaded0: "server_inv (handleLoadedUserCountChange G W s)" by (rule handleLoaded_inv[OF inv])
  show ?thesis
    using st down close loaded loaded0 inv restartSMTP_inv[OF inv] restartIMAP_inv[OF inv] setGluonDir_inv[OF inv]
    by (cases inp) (auto simp: server_step_def split: prod.splits if_splits)
qed

lemma server_run_inv: "server_run G P Q s \<Longrightarrow> server_inv s"
proof (induction rule: server_run.induct)
  case (start W g imapPort smtpPort cacheDir s)
  show ?case by (rule Init_inv[OF _ _ _ start]) (simp_all add: server_inv_def sm_New_def)
next
  case (step s W inp out s')
  then show ?case using server_step_inv by blast
next
  case (task s s')
  then show ?case by (auto simp: run_task_def server_inv_def split: list.splits if_splits)
qed

text \<open>
  Property C14. What the manager announced last is true: after any events, requests and failures, if the last events say that the SMTP or the
  IMAP server is ready on a port, then its listener is open on that port and belongs to the manager, and the SMTP server exists.
\<close>

theorem ready_means_listening:
  assumes "server_run G P Q s"
  shows "(case smtp_announced (sm_published s) of
            None \<Rightarrow> True
          | Some p \<Rightarrow> sm_smtpServer s \<and> (\<exists>l. sm_smtpListener s = Some l \<and> map_of (sm_open s) l = Some p)) \<and>
         (case imap_announced (sm_published s) of
            None \<Rightarrow> True
          | Some p \<Rightarrow> \<exists>l. sm_imapListener s = Some l \<and> map_of (sm_open s) l = Some p)"
  using server_run_inv[OF assms] by (auto simp: server_inv_def split: option.splits)

text \<open>
  Property C40. When the network goes down and comes back, both servers are reachable again: if closing worked, no listener was lost and the
  ports can be opened and stored, both listeners are announced on their new ports.
\<close>

theorem network_restores_listeners:
  assumes run: "server_run G P Q s" and srv: "sm_imapServer s"
    and own: "\<And>l p. (l, p) \<in> set (sm_open s) \<Longrightarrow> sm_imapListener s = Some l \<or> sm_smtpListener s = Some l"
    and close: "sw_closeSMTP W1 = None" "sw_closeIMAP W1 = None"
    and listen: "sw_listen W2 (sm_imapPort s) = Inr p1" "sw_listen W2 (sm_smtpPort s) = Inr p2" "p1 \<noteq> sm_smtpPort s"
    and store: "fst (sw_setIMAPPort W2 p1) = None" "fst (sw_setSMTPPort W2 p2) = None"
    and serve: "\<And>l g. fst (gl_Serve G l g) = None"
  shows "\<exists>s1 s2. server_step G P Q W1 ConnStatusDown s = Some (Reply None, s1) \<and> sm_open s1 = [] \<and>
    server_step G P Q W2 ConnStatusUp s1 = Some (Reply None, s2) \<and>
    imap_announced (sm_published s2) = Some p1 \<and> smtp_announced (sm_published s2) = Some p2"
proof -
  note inv = server_run_inv[OF run]
  define t where "t = snd (closeSMTPServer W1 s)"
  define s1 where "s1 = snd (stopIMAPListener W1 t)"
  have t: "sm_smtpListener t = None" "sm_smtpServer t = False" "sm_imapListener t = sm_imapListener s" "sm_imapServer t"
    "sm_imapPort t = sm_imapPort s" "sm_smtpPort t = sm_smtpPort s"
    "sm_open t = (case sm_smtpListener s of None \<Rightarrow> sm_open s | Some l \<Rightarrow> AList.delete l (sm_open s))"
    using close(1) srv by (auto simp: t_def closeSMTPServer_def drop_listener_def PublishEvent_def split: option.splits)
  have s1: "sm_smtpListener s1 = None" "sm_smtpServer s1 = False" "sm_imapListener s1 = None" "sm_imapServer s1"
    "sm_imapPort s1 = sm_imapPort s" "sm_smtpPort s1 = sm_smtpPort s"
    "sm_open s1 = (case sm_imapListener s of None \<Rightarrow> sm_open t | Some l \<Rightarrow> AList.delete l (sm_open t))"
    using close(2) t by (auto simp: s1_def stopIMAPListener_def drop_listener_def PublishEvent_def split: option.splits)
  have "x \<notin> set (sm_open s1)" for x
    using own[of "fst x" "snd x"] unfolding s1(7) t(7) by (auto simp: AList.delete_eq split: option.splits)
  then have empty: "sm_open s1 = []" by (cases "sm_open s1") auto
  obtain g where g: "gl_Serve G (sm_nextListener s1) (sm_gluon s1) = (None, g)" using serve by (metis prod.collapse)
  obtain q1 where q1: "sw_setIMAPPort W2 p1 = (None, q1)" using store(1) by (metis prod.collapse)
  obtain q2 where q2: "sw_setSMTPPort W2 p2 = (None, q2)" using store(2) by (metis prod.collapse)
  define u where "u = snd (serveIMAP G W2 s1)"
  have u: "u = PublishEvent (IMAPServerReady p1) (s1\<lparr>sm_open := [(sm_nextListener s1, p1)], sm_nextListener := Suc (sm_nextListener s1),
      sm_imapListener := Some (sm_nextListener s1), sm_gluon := g, sm_imapPort := q1\<rparr>)"
    using s1 listen(1) g q1 empty by (simp add: u_def serveIMAP_def newListener_def)
  define s2 where "s2 = snd (restartSMTP W2 u)"
  have "smtp_announced (sm_published s2) = Some p2" "imap_announced (sm_published s2) = Some p1"
    using s1 listen(2,3) q2 unfolding s2_def u
    by (simp_all add: restartSMTP_def closeSMTPServer_def serveSMTP_def newListener_def PublishEvent_def Let_def smtp_announced_def imap_announced_def)
  moreover have "handleLoadedUserCountChange G W2 s1 = s2"
    using s1 u by (simp add: handleLoadedUserCountChange_def s2_def u_def[symmetric] PublishEvent_def)
  ultimately show ?thesis using empty by (auto simp: server_step_def s1_def t_def)
qed

fun server_steps ::
  "('g, 'c, 'e) gluon \<Rightarrow> ('i, 'ie) GluonIDProvider \<Rightarrow> ('q, 'se) StateProvider \<Rightarrow> ('e server_world \<times> ('c, 'i, 'q, 'svc) server_input) list \<Rightarrow>
     ('g, 'svc) server_manager \<Rightarrow> ('g, 'svc) server_manager option" where
  "server_steps G P Q [] s = Some s"
| "server_steps G P Q ((W, inp) # rest) s =
     (case server_step G P Q W inp s of None \<Rightarrow> None | Some (_, s') \<Rightarrow> server_steps G P Q rest s')"

fun moves_cache :: "('c, 'i, 'q, 'svc) server_input \<Rightarrow> bool" where
  "moves_cache (smRequestSetGluonDir _) = True"
| "moves_cache _ = False"

lemma stays_closed:
  "\<not> sm_imapServer s \<Longrightarrow> \<not> sm_imapServer (snd (closeSMTPServer W s))"
  "\<not> sm_imapServer s \<Longrightarrow> \<not> sm_imapServer (snd (stopIMAPListener W s))"
  "\<not> sm_imapServer s \<Longrightarrow> \<not> sm_imapServer (snd (serveIMAP G W s))"
  "\<not> sm_imapServer s \<Longrightarrow> \<not> sm_imapServer (snd (serveSMTP W s))"
  by (auto simp: closeSMTPServer_def stopIMAPListener_def serveIMAP_def serveSMTP_def newListener_def PublishEvent_def drop_listener_def Let_def
      split: option.splits sum.splits prod.splits if_splits)

lemma restartSMTP_closed: "\<not> sm_imapServer s \<Longrightarrow> \<not> sm_imapServer (snd (restartSMTP W s))"
  using stays_closed(1)[of s W]
    stays_closed(4)[of "(PublishEvent SMTPServerStopped (snd (closeSMTPServer W s)))\<lparr>sm_smtpServer := True\<rparr>" W]
  by (auto simp: restartSMTP_def PublishEvent_def split: option.splits prod.splits)

lemma restartIMAP_closed: "\<not> sm_imapServer s \<Longrightarrow> \<not> sm_imapServer (snd (restartIMAP G W s))"
  using stays_closed(2)[of s W] stays_closed(3)[of "snd (stopIMAPListener W s)" G W]
  by (auto simp: restartIMAP_def split: option.splits prod.splits)

lemma closeIMAP_closed: "\<not> sm_imapServer s \<Longrightarrow> \<not> sm_imapServer (snd (closeIMAPServer G W s))"
  using stays_closed(2)[of s W] by (auto simp: closeIMAPServer_def split: option.splits prod.splits)

lemma loaded_closed: "\<not> sm_imapServer s \<Longrightarrow> \<not> sm_imapServer (handleLoadedUserCountChange G W s)"
  using stays_closed(3)[of s G W] restartSMTP_closed[of s W] restartSMTP_closed[of "snd (serveIMAP G W s)" W]
  by (auto simp: handleLoadedUserCountChange_def Let_def)

lemma step_stays_closed:
  assumes "\<not> sm_imapServer s" "server_step G P Q W inp s = Some (out, s')" "\<not> moves_cache inp"
  shows "\<not> sm_imapServer s'"
proof -
  have "\<not> sm_imapServer (handleClose G W s)" "\<not> sm_imapServer (snd (stopIMAPListener W (snd (closeSMTPServer W s))))"
    using assms(1) by (simp_all add: handleClose_def stays_closed closeIMAP_closed)
  then show ?thesis
    using assms restartSMTP_closed[OF assms(1), of W] restartIMAP_closed[OF assms(1), of G W] loaded_closed[OF assms(1), of G W]
    by (cases inp)
      (auto simp: server_step_def handleAddIMAPUserImpl_def handleRemoveIMAPUser_def split: prod.splits)
qed

lemma steps_stay_closed:
  "server_steps G P Q inps s = Some s' \<Longrightarrow> \<not> sm_imapServer s \<Longrightarrow> \<forall>(W, inp) \<in> set inps. \<not> moves_cache inp \<Longrightarrow> \<not> sm_imapServer s'"
proof (induction inps arbitrary: s)
  case (Cons x inps)
  obtain W inp where x: "x = (W, inp)" by (cases x)
  then obtain out s1 where s1: "server_step G P Q W inp s = Some (out, s1)" "server_steps G P Q inps s1 = Some s'"
    using Cons.prems(1) by (auto split: option.splits)
  then show ?case using Cons.IH[OF s1(2)] step_stays_closed[OF _ s1(1)] Cons.prems(2,3) x by auto
qed simp

text \<open>
  When moving the message cache fails, the IMAP server that was closed for it is not created again: until the cache is moved
  successfully no event and no request brings it back, and every account that is added is refused.
\<close>

theorem failed_move_stops_imap:
  assumes "dir @ ''/gluon'' \<noteq> sm_cacheDir s" "fst (closeIMAPServer G W s) = None" "server_inv s"
    and "sw_CopyDir W (sm_cacheDir s @ ''/backend/store'') (dir @ ''/gluon/backend/store'') = Some e"
    and "server_step G P Q W (smRequestSetGluonDir dir) s = Some (out, s')"
    and "server_steps G P Q inps s' = Some s2" "\<forall>(W, inp) \<in> set inps. \<not> moves_cache inp"
  shows "(\<exists>err. out = Reply (Some err)) \<and> \<not> sm_imapServer s2 \<and>
    server_step G P Q W2 (smRequestAddIMAPUser connector addrID i q) s2 = Some (ReplyUser (Some (ServerErr NoIMAPServer)) i (Some q), s2)"
proof -
  obtain s1 where c: "closeIMAPServer G W s = (None, s1)" using assms(2) by (metis prod.collapse)
  have closed: "\<not> sm_imapServer s1" using closeIMAP_inv[OF assms(3) c] by simp
  have m: "moveGluonCacheDir W (sm_cacheDir s) (dir @ ''/gluon'') s1 = (Some (CopyGluonDirErr e), s1)"
    using assms(4) by (simp add: moveGluonCacheDir_def)
  have "(\<exists>err. out = Reply (Some err)) \<and> \<not> sm_imapServer s'"
    using assms(1,5) c m closed by (auto simp: server_step_def handleSetGluonDir_def Let_def split: prod.splits option.splits)
  then have "\<exists>err. out = Reply (Some err)" "\<not> sm_imapServer s2" using steps_stay_closed[OF assms(6) _ assms(7)] by auto
  then show ?thesis by (simp add: server_step_def handleAddIMAPUserImpl_def)
qed

text \<open>
  A start whose port cannot be stored forgets the listener without closing it: it stays open, and the next attempt to start on the
  same port finds the address in use.
\<close>

theorem failed_start_leaks_listener:
  fixes s s0 :: "('g, 'svc) server_manager"
  assumes "createIMAPServer G W (sm_New g port smtpPort dir) = (None, s0)" "sw_listen W port = Inr port" "port \<noteq> 0"
    and "fst (gl_Serve G 0 (sm_gluon s0)) = None" "sw_setIMAPPort W port = (Some e, port)"
    and "sm_Init G W (sm_New g port smtpPort dir) = (None, s)"
  shows "sm_imapListener s = None \<and> map_of (sm_open s) 0 = Some port \<and>
    fst (restartIMAP G W2 s) = Some (AddressInUse port)"
proof -
  have s0: "sm_open s0 = []" "sm_nextListener s0 = 0" "sm_imapPort s0 = port" "sm_imapListener s0 = None"
    using assms(1) by (auto simp: createIMAPServer_def sm_New_def PublishEvent_def split: sum.splits option.splits prod.splits)
  obtain g1 where g1: "gl_Serve G 0 (sm_gluon s0) = (None, g1)" using assms(4) by (metis prod.collapse)
  define u where "u = PublishEvent IMAPServerError
      (s0\<lparr>sm_imapServer := True, sm_smtpServer := True, sm_open := [(0, port)], sm_nextListener := Suc 0, sm_imapListener := Some 0,
          sm_gluon := g1, sm_imapPort := port\<rparr>)"
  have serve: "serveIMAP G W (s0\<lparr>sm_imapServer := True, sm_smtpServer := True\<rparr>) = (Some (StorePortErr e), u)"
    using s0 assms(2,5) g1 by (simp add: serveIMAP_def newListener_def u_def)
  have s: "s = (case serveSMTP W (u\<lparr>sm_imapListener := None\<rparr>) of (Some _, s') \<Rightarrow> s'\<lparr>sm_smtpListener := None\<rparr> | (None, s') \<Rightarrow> s')"
    using assms(6) assms(1) serve by (simp add: sm_Init_def)
  have fields: "sm_imapListener s = None \<and> sm_imapPort s = port \<and> sm_imapServer s \<and> map_of (sm_open s) 0 = Some port"
    unfolding s u_def
    by (auto simp: serveSMTP_def newListener_def PublishEvent_def Let_def split: sum.splits option.splits prod.splits if_splits)
  then have "port \<in> set (map snd (sm_open s))" by (auto dest!: map_of_SomeD intro: rev_image_eqI)
  then show ?thesis
    using fields assms(3) by (simp add: restartIMAP_def stopIMAPListener_def serveIMAP_def newListener_def)
qed

text \<open>
  The task that serves a listener reads the field of the SMTP server when it runs. If the server was closed in between, it dereferences nil.
\<close>

theorem late_task_panics:
  assumes "sm_tasks s = l # ls" "sm_smtpListener s = Some l'" "sw_closeSMTP W = None" "sm_smtpServer s"
    and "server_step G P Q W ConnStatusDown s = Some (out, s')"
  shows "run_task s' = None"
proof -
  define t where "t = snd (closeSMTPServer W s)"
  have t: "sm_tasks t = l # ls" "\<not> sm_smtpServer t"
    using assms(1-4) by (auto simp: t_def closeSMTPServer_def drop_listener_def PublishEvent_def)
  have "s' = snd (stopIMAPListener W t)" using assms(5) by (simp add: server_step_def t_def)
  moreover have "sm_tasks (snd (stopIMAPListener W t)) = l # ls \<and> \<not> sm_smtpServer (snd (stopIMAPListener W t))"
    using t by (auto simp: stopIMAPListener_def drop_listener_def PublishEvent_def split: option.splits)
  ultimately show ?thesis by (simp add: run_task_def)
qed

subsection \<open>Loading an account\<close>

text \<open>
  What the manager relies on: the provider of Gluon IDs does not panic while it is valid, gives an ID that is recorded for the
  user, and a change without an error is that change.
\<close>

locale gluon_ids =
  fixes I :: "('i, 'ie) GluonIDProvider"
    and ids :: "'i \<Rightarrow> string \<rightharpoonup> string"
    and valid :: "'i \<Rightarrow> bool"
  assumes get_valid: "valid i \<Longrightarrow> \<exists>r i'. ip_GetGluonID I a i = Some (r, i') \<and> valid i'"
    and get_recorded: "valid i \<Longrightarrow> ip_GetGluonID I a i = Some (Some g, i') \<Longrightarrow> g \<in> ran (ids i')"
    and set_valid: "valid i \<Longrightarrow> \<exists>err i'. ip_SetGluonID I a g i = Some (err, i') \<and> valid i'"
    and set_ids: "valid i \<Longrightarrow> ip_SetGluonID I a g i = Some (None, i') \<Longrightarrow> ids i' = (ids i)(a \<mapsto> g)"
    and remove_valid: "valid i \<Longrightarrow> \<exists>err i'. ip_RemoveGluonID I a g i = Some (err, i') \<and> valid i'"
    and remove_ids: "valid i \<Longrightarrow> ip_RemoveGluonID I a g i = Some (None, i') \<Longrightarrow> ids i' = (ids i)(a := None)"
    and key_valid: "valid i \<Longrightarrow> \<exists>key. ip_GluonKey I i = Some key"

text \<open>
  What Gluon promises: \<open>content\<close> gives the mailboxes in the database of an ID, if it exists. Loading a user creates a missing database
  and says so, adding a user creates a database under an unused ID, and removing a user deletes it only if asked to.
\<close>

definition gluon_ok :: "('g, 'c, 'e) gluon \<Rightarrow> ('g \<Rightarrow> string \<rightharpoonup> 'm list) \<Rightarrow> bool" where
  "gluon_ok G content \<longleftrightarrow>
     (\<forall>c i k g g' isNew. gl_LoadUser G c i k g = (Inr isNew, g') \<longrightarrow>
        isNew = (content g i = None) \<and> content g' = (if isNew then (content g)(i \<mapsto> []) else content g)) \<and>
     (\<forall>i del g g'. gl_RemoveUser G i del g = (None, g') \<longrightarrow> content g' = (if del then (content g)(i := None) else content g)) \<and>
     (\<forall>c k g i g'. gl_AddUser G c k g = (Inr i, g') \<longrightarrow> content g i = None \<and> content g' = (content g)(i \<mapsto> []))"

lemma gluon_okD:
  assumes "gluon_ok G content"
  shows "gl_LoadUser G c i k g = (Inr isNew, g') \<Longrightarrow>
      isNew = (content g i = None) \<and> content g' = (if isNew then (content g)(i \<mapsto> []) else content g)"
    "gl_RemoveUser G i del g = (None, g') \<Longrightarrow> content g' = (if del then (content g)(i := None) else content g)"
    "gl_AddUser G c k g = (Inr i, g') \<Longrightarrow> content g i = None \<and> content g' = (content g)(i \<mapsto> [])"
  using assms unfolding gluon_ok_def by blast+

definition synced_or_empty ::
  "('g \<Rightarrow> string \<rightharpoonup> 'm list) \<Rightarrow> string \<Rightarrow> 'g \<Rightarrow> Status \<Rightarrow> 'g \<Rightarrow> Status \<Rightarrow> bool" where
  "synced_or_empty content gluonID g st g' st' \<longleftrightarrow>
     (content g gluonID \<noteq> None \<and> content g' gluonID = content g gluonID \<and> st' = st \<and> HasLabels st) \<or>
     (content g' gluonID = Some [] \<and> \<not> HasLabels st')"

locale imap_accounts = gluon_ids I ids valid + state_provider Q status_of
  for I :: "('i, 'ie) GluonIDProvider" and ids and valid and Q :: "('q, 'se) StateProvider" and status_of
begin

lemma add_new_user_ok:
  fixes G :: "('g, 'c, 'e) gluon"
  assumes "gluon_ok G content" "valid i"
  shows "\<exists>(err :: ('e, 'ie, 'se) user_err option) g' i'. add_new_user G I c a g i = Some (err, g', i') \<and> valid i' \<and>
    (err = None \<longrightarrow> (\<exists>gid. ids i' a = Some gid \<and> content g' gid = Some []))"
proof -
  obtain key where key: "ip_GluonKey I i = Some key" using key_valid[OF assms(2)] by blast
  obtain r g1 where r: "gl_AddUser G c key g = (r, g1)" by fastforce
  show ?thesis
  proof (cases r)
    case (Inl e)
    then show ?thesis using key r assms(2) by (simp add: add_new_user_def)
  next
    case (Inr gid)
    obtain err i' where s: "ip_SetGluonID I a gid i = Some (err, i')" "valid i'" using set_valid[OF assms(2)] by blast
    have "content g1 gid = Some []" using gluon_okD(3)[OF assms(1) r[unfolded Inr]] by simp
    moreover have "err = None \<Longrightarrow> ids i' a = Some gid" using set_ids[OF assms(2)] s(1) by simp
    ultimately show ?thesis using key r Inr s by (simp add: add_new_user_def)
  qed
qed

lemma cleared: "p_ClearSyncStatus Q q = (None, q') \<Longrightarrow> \<not> HasLabels (status_of q')"
  using clear by (simp add: DefaultStatus_def)

text \<open>The branch of a database that exists but whose labels were never synced, and the one of an unknown account.\<close>

lemma add_user_ok:
  fixes G :: "('g, 'c, 'e) gluon"
  assumes G: "gluon_ok G content" and i: "valid i"
  shows "\<exists>(err :: ('e, 'ie, 'se) user_err option) g' i' q'. handleAddIMAPUserImpl G I Q True c a g i q = Some (err, g', i', q') \<and> valid i' \<and>
    (err = None \<longrightarrow> (\<exists>gid \<in> ran (ids i'). synced_or_empty content gid g (status_of q) g' (status_of q')))"
proof -
  obtain r i1 where get: "ip_GetGluonID I a i = Some (r, i1)" "valid i1" using get_valid[OF i] by blast
  obtain e1 q1 where cl: "p_ClearSyncStatus Q q = (e1, q1)" by fastforce
  obtain key where key: "ip_GluonKey I i1 = Some key" using key_valid[OF get(2)] by blast
  note unf = handleAddIMAPUserImpl_def
  show ?thesis
  proof (cases r)
    case None
    show ?thesis
    proof (cases e1)
      case (Some e)
      then show ?thesis using None get cl by (simp add: unf)
    next
      case ok: None
      obtain err :: "('e, 'ie, 'se) user_err option" and g' i' where "add_new_user G I c a g i1 = Some (err, g', i')" "valid i'"
        "err = None \<longrightarrow> (\<exists>gid. ids i' a = Some gid \<and> content g' gid = Some [])"
        using add_new_user_ok[OF G get(2)] by blast
      then show ?thesis
        using None get cl ok cleared[of q q1] by (auto simp: unf synced_or_empty_def intro!: bexI ranI)
    qed
  next
    case (Some gid)
    have rec: "gid \<in> ran (ids i1)" using get_recorded[OF i] get(1) Some by simp
    obtain l g1 where load: "gl_LoadUser G c gid key g = (l, g1)" by fastforce
    consider (err) e where "l = Inl e" | (new) "l = Inr True" | (old) "l = Inr False" by (cases l) auto
    then show ?thesis
    proof cases
      case err
      then show ?thesis using Some get key load by (simp add: unf)
    next
      case new
      have c1: "content g1 gid = Some []" using gluon_okD(1)[OF G load[unfolded new]] by simp
      obtain e2 g2 where rm: "gl_RemoveUser G gid False g1 = (e2, g2)" by fastforce
      have c2: "e2 = None \<Longrightarrow> content g2 gid = Some []" using gluon_okD(2)[OF G, of gid False g1 g2] rm c1 by simp
      obtain l3 g3 where load3: "gl_LoadUser G c gid key g2 = (l3, g3)" by fastforce
      have l3: "e2 = None \<Longrightarrow> l3 \<noteq> Inr True \<and> (l3 = Inr False \<longrightarrow> content g3 gid = Some [])"
        using gluon_okD(1)[OF G, of c gid key g2 True g3] gluon_okD(1)[OF G, of c gid key g2 False g3] load3 c2 by auto
      have "synced_or_empty content gid g (status_of q) g3 (status_of q1)" if "e1 = None" "e2 = None" "l3 = Inr False"
        using cleared[of q q1] cl that l3 by (simp add: synced_or_empty_def)
      then show ?thesis
        using Some get key load new rm cl load3 l3 rec
        by (cases e2; cases e1; cases l3) (auto simp: unf split: bool.splits)
    next
      case old
      have c1: "content g1 = content g" "content g gid \<noteq> None" using gluon_okD(1)[OF G load[unfolded old]] by simp_all
      show ?thesis
      proof (cases "p_GetSyncStatus Q q")
        case (Inl e)
        then show ?thesis using Some get key load old by (simp add: unf)
      next
        case (Inr st)
        have st: "st = status_of q" by (rule get_status[OF Inr])
        obtain e2 g2 where rm: "gl_RemoveUser G gid True g1 = (e2, g2)" by fastforce
        obtain e3 i2 where rem: "ip_RemoveGluonID I a gid i1 = Some (e3, i2)" "valid i2" using remove_valid[OF get(2)] by blast
        obtain err :: "('e, 'ie, 'se) user_err option" and g' i' where add: "add_new_user G I c a g2 i2 = Some (err, g', i')" "valid i'"
          "err = None \<longrightarrow> (\<exists>gid. ids i' a = Some gid \<and> content g' gid = Some [])"
          using add_new_user_ok[OF G rem(2)] by blast
        show ?thesis
        proof (cases "HasLabels st")
          case True
          then show ?thesis using Some get key load old Inr st c1 rec by (auto simp: unf synced_or_empty_def)
        next
          case False
          then show ?thesis
            using Some get key load old Inr st rm rem add
            by (cases e2; cases e3) (auto simp: unf synced_or_empty_def intro!: bexI ranI)
        qed
      qed
    qed
  qed
qed

end

text \<open>The Gluon IDs that the vault has for a user, and when its handle can be used.\<close>

definition vault_ids :: "'e vault_env \<Rightarrow> string \<Rightarrow> 'e vault_state \<Rightarrow> string \<rightharpoonup> string" where
  "vault_ids E userID i =
     (case getUser E (snd i 0) userID (fst i) of None \<Rightarrow> Map.empty | Some u \<Rightarrow> map_of (gluon_ids_of u))"

definition vault_valid :: "'e vault_env \<Rightarrow> string \<Rightarrow> 'e vault_state \<Rightarrow> bool" where
  "vault_valid E userID i \<longleftrightarrow> codec_ok E \<and> (\<forall>n. tokens_ok (snd i n)) \<and>
     (\<exists>data u. contents E (fst i) data \<and> lookup_user userID data = Some u \<and> ud_GluonIDs u \<noteq> None)"

lemma vault_validD:
  assumes "vault_valid E userID (v, ws)"
  obtains data u m where "codec_ok E" "\<And>n. tokens_ok (ws n)" "contents E v data" "lookup_user userID data = Some u"
    "ud_GluonIDs u = Some m" "vault_ids E userID (v, ws) = map_of m" "getUser E (ws 0) userID v = Some u"
  using assms by (auto simp: vault_valid_def vault_ids_def getUser_contents gluon_ids_of_def)

lemma next_valid: "vault_valid E userID (v, ws) \<Longrightarrow> vault_valid E userID (v, next_worlds ws)"
  by (auto simp: vault_valid_def next_worlds_def)

lemma vault_ids_next: "vault_valid E userID (v, ws) \<Longrightarrow> vault_ids E userID (v, next_worlds ws) = vault_ids E userID (v, ws)"
  by (auto simp: vault_valid_def vault_ids_def next_worlds_def getUser_contents)

text \<open>A change of the user's Gluon IDs through a valid handle.\<close>

lemma change_ids:
  assumes val: "vault_valid E userID (v, ws)" and u: "getUser E (ws 0) userID v = Some u"
    and fn: "fn u = Some (r, u')" "ud_UserID u' = ud_UserID u" "ud_GluonIDs u' = Some m'"
  obtains res v' where "modUserUnsafe E (ws 0) userID fn v = Some (res, v')" "vault_valid E userID (v', next_worlds ws)"
    "\<And>r'. res = Inr r' \<Longrightarrow> r' = r \<and> vault_ids E userID (v', next_worlds ws) = map_of m'"
    "vault_ids E userID (v', next_worlds ws) = map_of m' \<or> vault_ids E userID (v', next_worlds ws) = vault_ids E userID (v, ws)"
proof -
  obtain data u0 m where d: "codec_ok E" "\<And>n. tokens_ok (ws n)" "contents E v data" "lookup_user userID data = Some u0" "getUser E (ws 0) userID v = Some u0"
    using vault_validD[OF val] by metis
  have id: "ud_UserID u' = userID" "lookup_user userID data = Some u" "userID \<in> set (user_ids data)"
    using d(4,5) u fn(2) lookup_user_ID[OF d(4)] lookup_user_None[of userID data] by auto
  have new: "vault_valid E userID (v', next_worlds ws) \<and> vault_ids E userID (v', next_worlds ws) = map_of m'"
    if "contents E v' (put_user userID u' data)" for v'
    using that d(1,2) fn(3) lookup_put_user[OF id(1,3), of userID]
    by (auto simp: vault_valid_def vault_ids_def next_worlds_def getUser_contents[OF that] gluon_ids_of_def)
  show thesis
    by (rule modUser_cases[OF d(1,2,3) id(2), of fn 0]) (use fn that new next_valid[OF val] vault_ids_next[OF val] in auto)
qed

lemma SetGluonID_valid:
  assumes "vault_valid E userID (v, ws)"
  obtains res v' where "user_SetGluonID E (ws 0) userID a g v = Some (res, v')" "vault_valid E userID (v', next_worlds ws)"
    "res = Inr () \<Longrightarrow> vault_ids E userID (v', next_worlds ws) = (vault_ids E userID (v, ws))(a \<mapsto> g)"
    "vault_ids E userID (v', next_worlds ws) = (vault_ids E userID (v, ws))(a \<mapsto> g) \<or>
     vault_ids E userID (v', next_worlds ws) = vault_ids E userID (v, ws)"
proof -
  obtain data u m where d: "ud_GluonIDs u = Some m" "vault_ids E userID (v, ws) = map_of m" "getUser E (ws 0) userID v = Some u"
    using vault_validD[OF assms] by metis
  let ?fn = "\<lambda>u. case ud_GluonIDs u of None \<Rightarrow> None | Some ids \<Rightarrow> Some ((), u\<lparr>ud_GluonIDs := Some (AList.update a g ids)\<rparr>)"
  show thesis
    by (rule change_ids[OF assms d(3), of ?fn "()" "u\<lparr>ud_GluonIDs := Some (AList.update a g m)\<rparr>" "AList.update a g m"])
      (use that d in \<open>auto simp: user_SetGluonID_def update_conv'\<close>)
qed

lemma RemoveGluonID_valid:
  fixes E :: "'e vault_env"
  assumes "vault_valid E userID (v, ws)"
  obtains res v' where "user_RemoveGluonID E (ws 0) userID a g v = Some (res, v')" "vault_valid E userID (v', next_worlds ws)"
    "res = Inr () \<Longrightarrow> vault_ids E userID (v', next_worlds ws) = (vault_ids E userID (v, ws))(a := None)"
proof -
  obtain data u m where d: "ud_GluonIDs u = Some m" "vault_ids E userID (v, ws) = map_of m" "getUser E (ws 0) userID v = Some u"
    using vault_validD[OF assms] by metis
  let ?fn = "\<lambda>u. if gluon_id u a \<noteq> g then Some (Some (GluonIDMismatch (gluon_id u a) g :: 'e vault_err), u)
             else Some (None, u\<lparr>ud_GluonIDs := map_option (AList.delete a) (ud_GluonIDs u)\<rparr>)"
  obtain res1 v1 where m: "modUserUnsafe E (ws 0) userID ?fn v = Some (res1, v1)" "vault_valid E userID (v1, next_worlds ws)"
    "res1 = Inr None \<Longrightarrow> vault_ids E userID (v1, next_worlds ws) = (map_of m)(a := None)"
  proof (cases "gluon_id u a = g")
    case True
    show thesis
      by (rule change_ids[OF assms d(3), of ?fn None "u\<lparr>ud_GluonIDs := Some (AList.delete a m)\<rparr>" "AList.delete a m"])
        (use that d True in \<open>auto simp: delete_conv'\<close>)
  next
    case False
    show thesis
      by (rule change_ids[OF assms d(3), of ?fn "Some (GluonIDMismatch (gluon_id u a) g)" u m]) (use that d False in auto)
  qed
  show thesis
  proof (cases res1)
    case (Inl e)
    then show thesis using that[of "Inl e" v1] m by (simp add: user_RemoveGluonID_def)
  next
    case (Inr r)
    then show thesis
      using that[of "case r of None \<Rightarrow> Inr () | Some e \<Rightarrow> Inl e" v1] m d(2) by (cases r) (auto simp: user_RemoveGluonID_def)
  qed
qed

lemma GetGluonID_valid:
  assumes "vault_valid E userID (v, ws)"
  obtains r v' where "User_GetGluonID E (ws 0) userID a v = Some (r, v')" "vault_valid E userID (v', next_worlds ws)"
    "\<And>g. r = Some g \<Longrightarrow> g \<in> ran (vault_ids E userID (v', next_worlds ws))"
proof -
  obtain data u m where d: "ud_GluonIDs u = Some m" "vault_ids E userID (v, ws) = map_of m" "getUser E (ws 0) userID v = Some u"
    using vault_validD[OF assms] by metis
  have m: "gluon_ids_of u = m" using d(1) by (simp add: gluon_ids_of_def)
  note keep = next_valid[OF assms] vault_ids_next[OF assms]
  show thesis
  proof (cases "map_of m a")
    case (Some g)
    then show thesis using that[of "Some g" v] d m keep by (auto simp: User_GetGluonID_def intro: ranI)
  next
    case None
    show thesis
    proof (cases "ud_AddressMode u = CombinedMode \<and> length m = 1")
      case False
      have "(case map snd m of [g] \<Rightarrow> F g | _ \<Rightarrow> Some (None, v)) = Some (None, v)" if "length m \<noteq> 1" for F
        using that by (cases m; cases "tl m") auto
      then have "User_GetGluonID E (ws 0) userID a v = Some (None, v)"
        using False d(3) m None by (auto simp: User_GetGluonID_def)
      then show thesis using that[of None v] keep by simp
    next
      case True
      then obtain b g where bg: "m = [(b, g)]" by (auto simp: length_Suc_conv)
      obtain res v' where s: "user_SetGluonID E (ws 0) userID a g v = Some (res, v')" "vault_valid E userID (v', next_worlds ws)"
        "vault_ids E userID (v', next_worlds ws) = (vault_ids E userID (v, ws))(a \<mapsto> g) \<or>
         vault_ids E userID (v', next_worlds ws) = vault_ids E userID (v, ws)"
        using SetGluonID_valid[OF assms, of a g] by metis
      have "g \<in> ran (vault_ids E userID (v', next_worlds ws))" using s(3) d(2) bg by (auto simp: ran_def)
      then show thesis using that[of "Some g" v'] d m None True bg s by (simp add: User_GetGluonID_def)
    qed
  qed
qed

interpretation uid: gluon_ids "user_provider E userID" "vault_ids E userID" "vault_valid E userID" for E userID
proof
  fix i a assume "vault_valid E userID i"
  moreover obtain v ws where i: "i = (v, ws)" by (cases i)
  ultimately have val: "vault_valid E userID (v, ws)" by simp
  show "\<exists>r i'. ip_GetGluonID (user_provider E userID) a i = Some (r, i') \<and> vault_valid E userID i'"
    by (rule GetGluonID_valid[OF val, of a]) (auto simp: user_provider_def i)
  show "g \<in> ran (vault_ids E userID i')" if "ip_GetGluonID (user_provider E userID) a i = Some (Some g, i')" for g i'
    by (rule GetGluonID_valid[OF val, of a]) (use that in \<open>auto simp: user_provider_def i\<close>)
  show "\<exists>err i'. ip_SetGluonID (user_provider E userID) a g i = Some (err, i') \<and> vault_valid E userID i'" for g
    by (rule SetGluonID_valid[OF val, of a g]) (auto simp: user_provider_def i)
  show "vault_ids E userID i' = (vault_ids E userID i)(a \<mapsto> g)" if "ip_SetGluonID (user_provider E userID) a g i = Some (None, i')" for g i'
    by (rule SetGluonID_valid[OF val, of a g]) (use that in \<open>auto simp: user_provider_def i split: sum.splits\<close>)
  show "\<exists>err i'. ip_RemoveGluonID (user_provider E userID) a g i = Some (err, i') \<and> vault_valid E userID i'" for g
    by (rule RemoveGluonID_valid[OF val, of a g]) (auto simp: user_provider_def i)
  show "vault_ids E userID i' = (vault_ids E userID i)(a := None)" if "ip_RemoveGluonID (user_provider E userID) a g i = Some (None, i')" for g i'
    by (rule RemoveGluonID_valid[OF val, of a g]) (use that in \<open>auto simp: user_provider_def i split: sum.splits\<close>)
  show "\<exists>key. ip_GluonKey (user_provider E userID) i = Some key"
    using vault_validD[OF val] by (metis (no_types, lifting) GluonIDProvider.select_convs(4) case_prod_conv i option.simps(9) user_GluonKey_def user_provider_def)
qed

interpretation acc: imap_accounts "user_provider E userID" "vault_ids E userID" "vault_valid E userID" SyncState_provider "\<lambda>w. status (fst w)"
  for E userID
  by unfold_locales

text \<open>
  Property C9. Loading an account into the IMAP server keeps the mailboxes and the sync status together. With the Gluon IDs in the vault and the
  status in its file, the request does not panic, and when it reports no error the account has a database under an ID of the user that either existed
  before, is unchanged and belongs to a sync that had its labels, or is empty while the status says that the labels are still to be synced: never
  an empty database that counts as synced.
\<close>

theorem loaded_account_synced_or_empty:
  fixes G :: "('g, 'c, 'e) gluon"
  assumes "gluon_ok G content" "vault_valid E userID i"
  shows "\<exists>(err :: ('e, 'v vault_err, sync_err) user_err option) g' i' q'.
    handleAddIMAPUserImpl G (user_provider E userID) SyncState_provider True c addrID g i q = Some (err, g', i', q') \<and>
    vault_valid E userID i' \<and>
    (err = None \<longrightarrow> (\<exists>gid \<in> ran (vault_ids E userID i').
       (content g gid \<noteq> None \<and> content g' gid = content g gid \<and> status (fst q') = status (fst q) \<and> HasLabels (status (fst q))) \<or>
       (content g' gid = Some [] \<and> \<not> HasLabels (status (fst q')))))"
  using acc.add_user_ok[OF assms, of c addrID g q] unfolding synced_or_empty_def .

text \<open>
  In combined mode the ID of the old primary address is taken over for a new one only once: after the second change of the primary
  address two addresses have the ID, it is not found for a third one, and the account is loaded into a new, empty database.
\<close>

theorem second_primary_change_forgets_id:
  assumes "contents E v data" "lookup_user userID data = Some u" "ud_AddressMode u = CombinedMode"
    and "ud_GluonIDs u = Some [(a1, g), (a2, g)]" "a3 \<noteq> a1" "a3 \<noteq> a2"
  shows "User_GetGluonID E w userID a3 v = Some (None, v)"
  using assms by (simp add: User_GetGluonID_def getUser_contents gluon_ids_of_def)

subsection \<open>Witnesses\<close>

definition demo_gluon :: "(string \<rightharpoonup> unit list, unit, unit) gluon" where
  "demo_gluon =
     \<lparr>gl_New = (\<lambda>_ _ g. (None, g)),
      gl_LoadUser = (\<lambda>_ i _ g. (Inr (g i = None), if g i = None then g(i \<mapsto> []) else g)),
      gl_AddUser = (\<lambda>_ _ g. if g ''new'' = None then (Inr ''new'', g(''new'' \<mapsto> [])) else (Inl (), g)),
      gl_RemoveUser = (\<lambda>i del g. (None, if del then g(i := None) else g)),
      gl_Serve = (\<lambda>_ g. (None, g)), gl_Close = (\<lambda>g. (None, g))\<rparr>"

lemma demo_gluon_ok: "gluon_ok demo_gluon (\<lambda>g. g)"
  by (auto simp: gluon_ok_def demo_gluon_def split: if_splits)

definition demo_server :: "unit server_world" where
  "demo_server =
     \<lparr>sw_listen = Inr, sw_closeIMAP = None, sw_closeSMTP = None, sw_setIMAPPort = (\<lambda>p. (None, p)), sw_setSMTPPort = (\<lambda>p. (None, p)),
      sw_DataDirectory = Inr ''data'', sw_CopyDir = (\<lambda>_ _. Some ()), sw_setCacheDir = (\<lambda>d. (None, d))\<rparr>"

definition demo_manager :: "(string \<rightharpoonup> unit list, unit) server_manager" where
  "demo_manager =
     \<lparr>sm_imapServer = True, sm_imapListener = Some 0, sm_smtpServer = True, sm_smtpListener = Some 1, sm_smtpAccounts = [],
      sm_gluon = Map.empty, sm_open = [(1, 1025), (0, 1143)], sm_nextListener = 2, sm_tasks = [1], sm_imapPort = 1143, sm_smtpPort = 1025,
      sm_cacheDir = ''cache'', sm_published = [IMAPServerCreated, IMAPServerReady 1143, SMTPServerReady 1025]\<rparr>"

lemma demo_init: "sm_Init demo_gluon demo_server (sm_New Map.empty 1143 1025 ''cache'') = (None, demo_manager)"
  by (simp add: sm_Init_def createIMAPServer_def serveIMAP_def serveSMTP_def newListener_def sm_New_def PublishEvent_def demo_gluon_def
      demo_server_def demo_manager_def numeral_2_eq_2)

lemma demo_run: "server_run demo_gluon P Q demo_manager"
  by (rule start[OF demo_init])

theorem ready_means_listening_witness:
  "server_run demo_gluon (user_provider (demo_env demo_list) ''id'') SyncState_provider demo_manager \<and>
   sm_smtpServer demo_manager \<and> sm_smtpListener demo_manager = Some 1 \<and> map_of (sm_open demo_manager) 1 = Some 1025"
  using ready_means_listening[OF demo_run[of "user_provider (demo_env demo_list) ''id''" SyncState_provider]]
    demo_run[of "user_provider (demo_env demo_list) ''id''" SyncState_provider]
  by (simp add: demo_manager_def smtp_announced_def)

theorem network_restores_listeners_witness:
  "\<exists>s1 s2. server_step demo_gluon (user_provider (demo_env demo_list) ''id'') SyncState_provider demo_server ConnStatusDown demo_manager =
       Some (Reply None, s1) \<and> sm_open s1 = [] \<and>
     server_step demo_gluon (user_provider (demo_env demo_list) ''id'') SyncState_provider demo_server ConnStatusUp s1 = Some (Reply None, s2) \<and>
     imap_announced (sm_published s2) = Some 1143 \<and> smtp_announced (sm_published s2) = Some 1025"
  by (rule network_restores_listeners[OF demo_run]) (auto simp: demo_manager_def demo_server_def demo_gluon_def)

theorem failed_move_stops_imap_witness:
  "\<exists>out s'. server_step demo_gluon (user_provider (demo_env demo_list) ''id'') SyncState_provider demo_server (smRequestSetGluonDir ''other'')
       demo_manager = Some (out, s') \<and> (\<exists>err. out = Reply (Some err)) \<and> \<not> sm_imapServer s'"
proof -
  let ?P = "user_provider (demo_env demo_list) ''id''"
  obtain out s' where st: "server_step demo_gluon ?P SyncState_provider demo_server (smRequestSetGluonDir ''other'') demo_manager = Some (out, s')"
    by (cases "handleSetGluonDir demo_gluon demo_server ''other'' demo_manager") (auto simp: server_step_def)
  have "fst (closeIMAPServer demo_gluon demo_server demo_manager) = None"
    by (simp add: closeIMAPServer_def stopIMAPListener_def demo_manager_def demo_server_def demo_gluon_def drop_listener_def PublishEvent_def)
  then show ?thesis
    using failed_move_stops_imap[OF _ _ server_run_inv[OF demo_run] _ st, of "()" "[]" s'] st
    by (simp add: demo_manager_def demo_server_def)
qed

lemma demo_contents_at: "i < length ds \<Longrightarrow> contents (demo_env ds) (demo_vault i) (ds ! i)"
  by (simp add: contents_def demo_vault_def unmarshalFile_def demo_env_def upgrade_all.simps)

definition demo_gluon_user :: UserData where
  "demo_gluon_user = (demo_user ''auth'')\<lparr>ud_GluonIDs := Some [(''a1'', ''g1'')]\<rparr>"

definition demo_account :: "string vault_env" where
  "demo_account = demo_env [demo_data [demo_gluon_user] None]"

definition demo_sync :: sync_world where
  "demo_sync = (\<lparr>filePath = ''sync'', status = DefaultStatus\<lparr>HasLabels := True\<rparr>\<rparr>, \<lparr>files = Map.empty, faults = []\<rparr>)"

lemma demo_account_user:
  "contents demo_account (demo_vault 0) (demo_data [demo_gluon_user] None)"
  "getUser demo_account w ''id'' (demo_vault 0) = Some demo_gluon_user"
proof -
  show c: "contents demo_account (demo_vault 0) (demo_data [demo_gluon_user] None)"
    using demo_contents_at[of 0 "[demo_data [demo_gluon_user] None]"] by (simp add: demo_account_def)
  show "getUser demo_account w ''id'' (demo_vault 0) = Some demo_gluon_user"
    by (simp add: getUser_contents[OF c] lookup_user_def demo_data_def demo_gluon_user_def)
qed

theorem loaded_account_synced_or_empty_witness:
  "\<exists>i'. handleAddIMAPUserImpl demo_gluon (user_provider demo_account ''id'') SyncState_provider True () ''a1'' [''g1'' \<mapsto> [()]]
       (demo_vault 0, \<lambda>_. demo_world IoOk) demo_sync = Some (None, [''g1'' \<mapsto> [()]], i', demo_sync) \<and> ''g1'' \<in> ran (vault_ids demo_account ''id'' i')"
proof -
  let ?i = "(demo_vault 0, \<lambda>_. demo_world IoOk)" and ?w = "demo_world IoOk"
  have val: "vault_valid demo_account ''id'' ?i"
    using demo_codec[of "[demo_data [demo_gluon_user] None]"] demo_tokens[of IoOk] demo_account_user
    by (auto simp: vault_valid_def demo_account_def lookup_user_def demo_data_def demo_gluon_user_def)
  have key: "user_GluonKey demo_account w ''id'' (demo_vault 0) = Some (ud_GluonKey demo_gluon_user)" for w
    by (simp add: user_GluonKey_def demo_account_user)
  have get: "User_GetGluonID demo_account w ''id'' ''a1'' (demo_vault 0) = Some (Some ''g1'', demo_vault 0)" for w
    by (simp add: User_GetGluonID_def demo_account_user) (simp add: gluon_ids_of_def demo_gluon_user_def)
  have run: "handleAddIMAPUserImpl demo_gluon (user_provider demo_account ''id'') SyncState_provider True () ''a1'' [''g1'' \<mapsto> [()]] ?i demo_sync =
      Some (None, [''g1'' \<mapsto> [()]], (demo_vault 0, next_worlds (\<lambda>_. ?w)), demo_sync)"
    by (simp add: handleAddIMAPUserImpl_def user_provider_def get key demo_gluon_def SyncState_provider_def GetSyncStatus_def demo_sync_def)
  then show ?thesis
    using loaded_account_synced_or_empty[OF demo_gluon_ok val, of "()" "''a1''" "[''g1'' \<mapsto> [()]]" demo_sync] run
    by (auto split: if_splits)
qed

end
