(* ===== verification/Media_Type.thy ===== *)
theory Media_Type
  imports Go_Strings "HOL-Library.AList" "HOL-Library.Multiset"
begin

section \<open>Media types\<close>

text \<open>
  Models \<^verbatim>\<open>pkg/mime/mediaType.go\<close> and the media types of \<^verbatim>\<open>encoding.go\<close>: a header value with repeated parameters or with parameters in another
  character set than the standard library understands is rewritten before that library parses it.

  Strings are lists of bytes, white space and letters are those of ASCII. Decoding a header word, decoding a text from its
  character set and the library's own parser are arguments. A Go map is an association list; the order in which
  \<^verbatim>\<open>range\<close> visits the parameters is an argument.
\<close>

subsection \<open>Tokens\<close>

abbreviation byte :: "char \<Rightarrow> nat" where "byte c \<equiv> of_char c"

definition IsSpace :: "char \<Rightarrow> bool" where
  "IsSpace c \<longleftrightarrow> byte c \<in> {9, 10, 11, 12, 13, 32}"

definition TrimLeftSpace :: "string \<Rightarrow> string" where
  "TrimLeftSpace = dropWhile IsSpace"

definition TrimSpace :: "string \<Rightarrow> string" where
  "TrimSpace s = rev (dropWhile IsSpace (rev (dropWhile IsSpace s)))"

definition ToLower :: "string \<Rightarrow> string" where
  "ToLower = map to_lower"

definition quote_char :: char where "quote_char = CHR 0x22"
definition backslash :: char where "backslash = CHR 0x5C"

definition isTSpecial :: "char \<Rightarrow> bool" where
  "isTSpecial c \<longleftrightarrow> c \<in> set (''()<>@,;:'' @ [backslash, quote_char] @ ''/[]?='')"

definition isTokenChar :: "char \<Rightarrow> bool" where
  "isTokenChar c \<longleftrightarrow> 0x20 < byte c \<and> byte c < 0x7f \<and> \<not> isTSpecial c"

definition isNotTokenChar :: "char \<Rightarrow> bool" where
  "isNotTokenChar c \<longleftrightarrow> \<not> isTokenChar c"

definition consumeToken :: "string \<Rightarrow> string \<times> string" where
  "consumeToken v = (takeWhile (\<lambda>c. \<not> isNotTokenChar c) v, dropWhile (\<lambda>c. \<not> isNotTokenChar c) v)"

text \<open>The loop over a quoted string, after its first quote; \<open>None\<close> when there is no end quote.\<close>

fun consume_quoted :: "string \<Rightarrow> string \<Rightarrow> (string \<times> string) option" where
  "consume_quoted buffer [] = None"
| "consume_quoted buffer (r # v) =
     (if r = quote_char then Some (buffer, v)
      else if r = backslash \<and> v \<noteq> [] \<and> \<not> isTokenChar (hd v) then consume_quoted (buffer @ [hd v]) (tl v)
      else if r = CHR 0x0D \<or> r = CHR 0x0A then None
      else consume_quoted (buffer @ [r]) v)"

definition consumeValue :: "string \<Rightarrow> string \<times> string" where
  "consumeValue v =
     (case v of
        [] \<Rightarrow> ([], [])
      | c # cs \<Rightarrow>
          if c \<noteq> quote_char then consumeToken v
          else case consume_quoted [] cs of None \<Rightarrow> ([], v) | Some (val, rest) \<Rightarrow> (val, rest))"

definition consumeMediaParam :: "string \<Rightarrow> string \<times> string \<times> string" where
  "consumeMediaParam v =
     (let rest = TrimLeftSpace v in
      if take 1 rest \<noteq> '';'' then ([], [], v)
      else let (param, rest) = consumeToken (TrimLeftSpace (drop 1 rest)); param = ToLower param in
           if param = [] then ([], [], v)
           else let rest = TrimLeftSpace rest in
                if take 1 rest \<noteq> ''='' then ([], [], v)
                else let rest = TrimLeftSpace (drop 1 rest); (val, rest2) = consumeValue rest in
                     if val = [] \<and> rest2 = rest then ([], [], v) else (param, val, rest2))"

subsection \<open>Hexadecimal escapes\<close>

definition hex_digit :: "nat \<Rightarrow> char" where
  "hex_digit n = ''0123456789abcdef'' ! n"

text \<open>\<^verbatim>\<open>fmt.Sprintf("%x", v)\<close> of a byte: no leading zero.\<close>

definition hex_byte :: "char \<Rightarrow> string" where
  "hex_byte c = (if byte c < 16 then [hex_digit (byte c)] else [hex_digit (byte c div 16), hex_digit (byte c mod 16)])"

definition percentHexEscape :: "string \<Rightarrow> string" where
  "percentHexEscape raw = concat (map (\<lambda>c. CHR ''%'' # hex_byte c) raw)"

definition ishex :: "char \<Rightarrow> bool" where
  "ishex c \<longleftrightarrow> byte c \<in> {48..57} \<or> byte c \<in> {97..102} \<or> byte c \<in> {65..70}"

definition unhex :: "char \<Rightarrow> nat" where
  "unhex c =
     (if byte c \<in> {48..57} then byte c - 48
      else if byte c \<in> {97..102} then byte c - 97 + 10
      else if byte c \<in> {65..70} then byte c - 65 + 10
      else 0)"

text \<open>The first pass counts the escapes and checks them; its error holds the characters after the percent sign.\<close>

fun count_percents :: "string \<Rightarrow> string + nat" where
  "count_percents [] = Inr 0"
| "count_percents (c # s) =
     (if c \<noteq> CHR ''%'' then count_percents s
      else case s of
             a # b # s' \<Rightarrow> if ishex a \<and> ishex b then map_sum id Suc (count_percents s') else Inl (take 3 (c # s))
           | _ \<Rightarrow> Inl (take 3 (c # s)))"

fun unescape :: "string \<Rightarrow> string" where
  "unescape [] = []"
| "unescape (c # s) =
     (if c \<noteq> CHR ''%'' then c # unescape s
      else case s of a # b # s' \<Rightarrow> char_of (16 * unhex a + unhex b) # unescape s' | _ \<Rightarrow> [])"

definition percentHexUnescape :: "string \<Rightarrow> string + string" where
  "percentHexUnescape s =
     (case count_percents s of Inl e \<Rightarrow> Inl e | Inr percents \<Rightarrow> Inr (if percents = 0 then s else unescape s))"

subsection \<open>Continuations\<close>

datatype 'e media_err =
    EmptyContentTypeErr
  | BadCharsetFormat
  | BadContinuation
  | BogusPercent string
  | DecodeErr 'e

text \<open>\<^verbatim>\<open>fmt.Sprintf("%d", n)\<close>\<close>

fun Itoa :: "nat \<Rightarrow> string" where
  "Itoa n = (if n < 10 then [''0123456789'' ! n] else Itoa (n div 10) @ [''0123456789'' ! (n mod 10)])"

declare Itoa.simps [simp del]

definition isFirstContinuation :: "string \<Rightarrow> bool" where
  "isFirstContinuation key \<longleftrightarrow> dropWhile (\<lambda>c. c \<noteq> CHR ''*'') key \<in> {''*'', ''*0*''}"

text \<open>\<^verbatim>\<open>strings.SplitN(v, "'", 3)\<close> has three parts if there are two quotes.\<close>

definition get2231Charset :: "string \<Rightarrow> 'e media_err + string \<times> string" where
  "get2231Charset v =
     (let q = CHR 0x27; rest = dropWhile (\<lambda>c. c \<noteq> q) v; rest2 = dropWhile (\<lambda>c. c \<noteq> q) (drop 1 rest) in
      if rest = [] \<or> rest2 = [] then Inl BadCharsetFormat
      else Inr (ToLower (takeWhile (\<lambda>c. c \<noteq> q) v), drop 1 rest2))"

definition convertHexToUTF ::
  "(string \<Rightarrow> string \<Rightarrow> 'e + string) \<Rightarrow> string \<Rightarrow> string \<Rightarrow> 'e media_err + string" where
  "convertHexToUTF decodeCharset charset val =
     (case percentHexUnescape val of
        Inl e \<Rightarrow> Inl (BogusPercent e)
      | Inr raw \<Rightarrow>
          (case decodeCharset raw (''text/plain; charset='' @ charset) of
             Inl e \<Rightarrow> Inl (DecodeErr e)
           | Inr utf8 \<Rightarrow> Inr (''utf-8'' @ [CHR 0x27, CHR 0x27] @ percentHexEscape utf8)))"

text \<open>
  The numbered continuations, from \<open>n\<close> on: a key without a star is taken as the last one. The result is the character set and
  the text, or \<open>None\<close> inside the sum for the early return without an error when the character set is empty.
\<close>

partial_function (option) merge_loop ::
  "string \<Rightarrow> (string \<times> string) list \<Rightarrow> nat \<Rightarrow> string \<Rightarrow> string \<Rightarrow> ('e media_err + (string \<times> string) option) option" where
  [code]: "merge_loop paramKey contMap n charset val =
     (let contKey = paramKey @ ''*'' @ Itoa n;
          isLast = map_of contMap contKey \<noteq> None in
      case (case map_of contMap contKey of Some v \<Rightarrow> Some v | None \<Rightarrow> map_of contMap (contKey @ ''*'')) of
        None \<Rightarrow> Some (Inl BadContinuation)
      | Some contValue \<Rightarrow>
          if n = 0
          then (case get2231Charset contValue of
                  Inl e \<Rightarrow> Some (Inl e)
                | Inr (charset1, val1) \<Rightarrow>
                    if charset1 = [] then Some (Inr None)
                    else if isLast then Some (Inr (Some (charset1, val1)))
                    else merge_loop paramKey contMap (Suc n) charset1 val1)
          else if isLast then Some (Inr (Some (charset, val @ contValue)))
          else merge_loop paramKey contMap (Suc n) charset (val @ contValue))"

definition mergeContinuations ::
  "(string \<Rightarrow> string \<Rightarrow> 'e + string) \<Rightarrow> string \<Rightarrow> (string \<times> string) list \<Rightarrow> ('e media_err + string) option" where
  "mergeContinuations decodeCharset paramKey contMap =
     (case map_of contMap (paramKey @ ''*'') of
        Some contValue \<Rightarrow>
          Some (case get2231Charset contValue of
                  Inl e \<Rightarrow> Inl e
                | Inr (charset, val) \<Rightarrow> convertHexToUTF decodeCharset charset val)
      | None \<Rightarrow>
          map_option (\<lambda>r. case r of
              Inl e \<Rightarrow> Inl e
            | Inr None \<Rightarrow> Inr []
            | Inr (Some (charset, val)) \<Rightarrow> convertHexToUTF decodeCharset charset val)
            (merge_loop paramKey contMap 0 [] []))"

subsection \<open>Rewriting a header value\<close>

type_synonym params = "(string \<times> string) list"

definition CutStar :: "string \<Rightarrow> string option" where
  "CutStar key = (if CHR ''*'' \<in> set key then Some (takeWhile (\<lambda>c. c \<noteq> CHR ''*'') key) else None)"

lemma consumeToken_length: "consumeToken v = (t, rest) \<Longrightarrow> length v = length t + length rest"
  by (auto simp: consumeToken_def simp flip: length_append)

lemma consume_quoted_length: "consume_quoted buf v = Some (val, rest) \<Longrightarrow> length rest < length v"
proof (induction buf v rule: consume_quoted.induct)
  case (2 buf r v)
  have tl: "v \<noteq> [] \<Longrightarrow> length (tl v) < length v" by (cases v) auto
  from 2 show ?case by (auto split: if_splits dest!: tl intro: less_trans less_SucI)
qed simp

lemma consumeValue_length: "consumeValue v = (val, rest) \<Longrightarrow> length rest \<le> length v"
  by (auto simp: consumeValue_def split: list.splits if_splits option.splits dest!: consumeToken_length consume_quoted_length)

lemma consumeMediaParam_shorter:
  assumes "consumeMediaParam v = (key, val, rest)" "key \<noteq> []"
  shows "length rest < length v"
proof -
  have trim: "length (TrimLeftSpace s) \<le> length s" for s by (simp add: TrimLeftSpace_def length_dropWhile_le)
  let ?r1 = "TrimLeftSpace v"
  have semi: "take 1 ?r1 = '';''" using assms by (auto simp: consumeMediaParam_def Let_def split: prod.splits if_splits)
  obtain tok r2 where tok: "consumeToken (TrimLeftSpace (drop 1 ?r1)) = (tok, r2)" by fastforce
  obtain val2 r3 where val2: "consumeValue (TrimLeftSpace (drop 1 (TrimLeftSpace r2))) = (val2, r3)" by fastforce
  have "rest = r3" using assms tok val2 by (auto simp: consumeMediaParam_def Let_def split: if_splits)
  moreover have "length r3 \<le> length r2"
    using consumeValue_length[OF val2] trim[of "drop 1 (TrimLeftSpace r2)"] trim[of r2] by simp
  moreover have "length r2 < length ?r1"
    using consumeToken_length[OF tok] trim[of "drop 1 ?r1"] semi by (cases ?r1) auto
  ultimately show ?thesis using trim[of v] by simp
qed

text \<open>
  The loop over the parameters: those with a star in their key go to the continuations of the part before the star. The last
  component says whether the value may stay as it is.
\<close>

function param_loop ::
  "string \<Rightarrow> params \<Rightarrow> (string \<times> params) list \<Rightarrow> bool \<Rightarrow> params \<times> (string \<times> params) list \<times> bool" where
  "param_loop v params continuation keepOrig =
     (let v1 = TrimLeftSpace v in
      if v1 = [] then (params, continuation, keepOrig)
      else let (key, val, rest) = consumeMediaParam v1 in
        if key = [] then (params, continuation, keepOrig)
        else case CutStar key of
               None \<Rightarrow> param_loop rest (AList.update key val params) continuation (keepOrig \<and> map_of params key = None)
             | Some baseName \<Rightarrow>
                 let continuation1 = (if map_of continuation baseName = None then AList.update baseName [] continuation else continuation);
                     pmap = the (map_of continuation1 baseName);
                     known = (if \<not> isFirstContinuation key then Inr True
                              else map_sum id (\<lambda>(charset, _). charset = ''utf-8'' \<or> charset = ''us-ascii'')
                                     (get2231Charset val :: unit media_err + string \<times> string))
                 in case known of
                      Inl _ \<Rightarrow> param_loop rest params continuation1 keepOrig
                    | Inr ok \<Rightarrow> param_loop rest params (AList.update baseName (AList.update key val pmap) continuation1)
                                  (keepOrig \<and> ok \<and> map_of pmap key = None))"
  by pat_completeness auto
termination
proof (relation "measure (\<lambda>(v, _). length v)", goal_cases)
  case 1 then show ?case by simp
next
  case (2 v params continuation keepOrig v1 x key y val rest)
  then show ?case using consumeMediaParam_shorter[of v1 key val rest] length_dropWhile_le[of IsSpace v] by (simp add: TrimLeftSpace_def)
next
  case (3 v params continuation keepOrig v1 x key y val rest)
  then show ?case using consumeMediaParam_shorter[of v1 key val rest] length_dropWhile_le[of IsSpace v] by (simp add: TrimLeftSpace_def)
next
  case (4 v params continuation keepOrig v1 x key y val rest)
  then show ?case using consumeMediaParam_shorter[of v1 key val rest] length_dropWhile_le[of IsSpace v] by (simp add: TrimLeftSpace_def)
qed

declare param_loop.simps [simp del]

text \<open>A continuation that cannot be merged is copied as it is. \<open>None\<close>: the merge does not end.\<close>

fun add_continuations ::
  "(string \<Rightarrow> string \<Rightarrow> 'e + string) \<Rightarrow> (string \<times> params) list \<Rightarrow> params \<Rightarrow> params option" where
  "add_continuations decodeCharset [] params = Some params"
| "add_continuations decodeCharset ((paramKey, contMap) # rest) params =
     (case mergeContinuations decodeCharset paramKey contMap of
        None \<Rightarrow> None
      | Some (Inr val) \<Rightarrow> add_continuations decodeCharset rest (AList.update (paramKey @ ''*'') val params)
      | Some (Inl _) \<Rightarrow> add_continuations decodeCharset rest (fold (\<lambda>(k, v). AList.update k v) contMap params))"

definition show_params :: "params \<Rightarrow> string" where
  "show_params params = concat (map (\<lambda>(k, v). '';'' @ k @ ''='' @ v) params)"

definition changeEncodingAndKeepLastParamDefinition ::
  "(string \<Rightarrow> string \<Rightarrow> 'e + string) \<Rightarrow> (params \<Rightarrow> params) \<Rightarrow> string \<Rightarrow> string option" where
  "changeEncodingAndKeepLastParamDefinition decodeCharset visit v =
     (let i = takeWhile (\<lambda>c. c \<noteq> CHR '';'') v;
          (params, continuation, keepOrig) = param_loop (drop (length i) v) [] [] True
      in if keepOrig then Some v
         else map_option (\<lambda>ps. TrimSpace (ToLower i) @ show_params (visit ps)) (add_continuations decodeCharset continuation params))"

subsection \<open>Parsing and decoding\<close>

text \<open>The library: RFC 2047 words, UTF-8, the parser of media types and the decoders of character sets.\<close>

record 'e mime_lib =
  ml_DecodeWords :: "string \<Rightarrow> 'e + string"
  ml_Utf8Valid :: "string \<Rightarrow> bool"
  ml_ParseMediaType :: "string \<Rightarrow> 'e + string \<times> params"
  ml_SelectDecoder :: "string \<Rightarrow> 'e + (string \<Rightarrow> 'e + string)"
  ml_DetermineEncoding :: "string \<Rightarrow> string \<Rightarrow> string \<Rightarrow> 'e + string"
  ml_DecodeCharset :: "string \<Rightarrow> string \<Rightarrow> 'e + string"
  ml_range :: "params \<Rightarrow> params"

datatype 'e mime_err = MediaEmpty | NotUtf8 | LibErr 'e | NoResult

definition DecodeHeader :: "'e mime_lib \<Rightarrow> string \<Rightarrow> 'e mime_err + string" where
  "DecodeHeader L raw =
     (case ml_DecodeWords L raw of
        Inl e \<Rightarrow> if ml_Utf8Valid L raw then Inl (LibErr e) else Inl NotUtf8
      | Inr decoded \<Rightarrow> if ml_Utf8Valid L decoded then Inr decoded else Inl NotUtf8)"

definition ParseMediaType :: "'e mime_lib \<Rightarrow> string \<Rightarrow> 'e mime_err + string \<times> params" where
  "ParseMediaType L v =
     (if v = [] then Inl MediaEmpty
      else case DecodeHeader L v of
        Inl e \<Rightarrow> Inl e
      | Inr decoded \<Rightarrow>
          (case changeEncodingAndKeepLastParamDefinition (ml_DecodeCharset L) (ml_range L) decoded of
             None \<Rightarrow> Inl NoResult
           | Some v1 \<Rightarrow> map_sum LibErr id (ml_ParseMediaType L v1)))"

text \<open>The text comes back undecoded beside most errors; only the media type's own error drops it.\<close>

definition DecodeCharset :: "'e mime_lib \<Rightarrow> string \<Rightarrow> string \<Rightarrow> 'e mime_err option \<times> string" where
  "DecodeCharset L original contentType =
     (let guess =
        (if ml_Utf8Valid L original then (None, original)
         else case ml_DetermineEncoding L original contentType original of
                Inl e \<Rightarrow> (Some (LibErr e), original)
              | Inr decoded \<Rightarrow> if \<not> ml_Utf8Valid L decoded then (None, original) else (None, decoded))
      in if contentType = [] then guess
         else case ParseMediaType L contentType of
           Inl e \<Rightarrow> (Some e, [])
         | Inr (_, params) \<Rightarrow>
             (case map_of params ''charset'' of
                None \<Rightarrow> guess
              | Some charset \<Rightarrow>
                  (case ml_SelectDecoder L charset of
                     Inl e \<Rightarrow> (Some (LibErr e), original)
                   | Inr decoder \<Rightarrow> (case decoder original of Inl e \<Rightarrow> (Some (LibErr e), []) | Inr d \<Rightarrow> (None, d)))))"

subsection \<open>Escapes and their inverse\<close>

lemma less_16_cases: "n < 16 \<Longrightarrow> n \<in> {0, 1, 2, 3, 4, 5, 6, 7, 8, 9, 10, 11, 12, 13, 14, 15 :: nat}"
  by (simp only: insert_iff empty_iff) arith

lemma hex_digit_facts:
  assumes "n < 16"
  shows "ishex (hex_digit n)" "unhex (hex_digit n) = n" "hex_digit n \<noteq> CHR ''%''"
  using less_16_cases[OF assms] by (auto simp: hex_digit_def ishex_def unhex_def)

lemma percent_not_hex: "\<not> ishex (CHR ''%'')"
  by (simp add: ishex_def)

lemma of_char_less_256: "byte c < 256"
  by (metis mod_less_divisor of_char_mod_256 zero_less_numeral)

lemma byte_bound: "byte c < 256" "byte c div 16 < 16"
  using of_char_less_256[of c] by (simp_all add: less_mult_imp_div_less)

text \<open>An escape with one digit is refused, whatever follows in an escaped text.\<close>

lemma count_short_escape:
  assumes "byte c < 16"
  shows "\<exists>e. count_percents (percentHexEscape (c # raw)) = Inl e"
  using assms percent_not_hex by (cases raw) (auto simp: percentHexEscape_def hex_byte_def split: list.splits)

lemma percentHexEscape_Cons_long:
  assumes "16 \<le> byte c"
  shows "count_percents (percentHexEscape (c # raw)) = map_sum id Suc (count_percents (percentHexEscape raw))"
    and "unescape (percentHexEscape (c # raw)) = c # unescape (percentHexEscape raw)"
  using assms hex_digit_facts[OF byte_bound(2), of c] hex_digit_facts[of "byte c mod 16"]
  by (simp_all add: percentHexEscape_def hex_byte_def)

text \<open>
  Property C39. What \<open>percentHexEscape\<close> writes is read back by \<open>percentHexUnescape\<close> exactly when no byte is below 16: such a byte is
  written with one digit, which is refused.
\<close>

theorem percent_roundtrip: "percentHexUnescape (percentHexEscape raw) = Inr raw \<longleftrightarrow> (\<forall>c \<in> set raw. 16 \<le> byte c)"
proof -
  have count: "if \<forall>c \<in> set raw. 16 \<le> byte c then count_percents (percentHexEscape raw) = Inr (length raw)
     else \<exists>e. count_percents (percentHexEscape raw) = Inl e" for raw
  proof (induction raw)
    case (Cons c raw)
    then show ?case using count_short_escape[of c raw] percentHexEscape_Cons_long(1)[of c raw]
      by (cases "16 \<le> byte c") (auto split: if_splits)
  qed (simp add: percentHexEscape_def)
  have un: "\<forall>c \<in> set raw. 16 \<le> byte c \<Longrightarrow> unescape (percentHexEscape raw) = raw" for raw
    by (induction raw) (simp_all add: percentHexEscape_Cons_long(2), simp add: percentHexEscape_def)
  show ?thesis using count[of raw] un[of raw] by (auto simp: percentHexUnescape_def percentHexEscape_def split: if_splits)
qed

theorem percent_roundtrip_witness: "percentHexUnescape (percentHexEscape ''ab'') = Inr ''ab'' \<and> (\<forall>c \<in> set ''ab''. 16 \<le> byte c)"
  using percent_roundtrip[of "''ab''"] by simp

subsection \<open>Merging continuations ends\<close>

definition dec_value :: "string \<Rightarrow> nat" where
  "dec_value = foldl (\<lambda>a c. 10 * a + (byte c - 48)) 0"

lemma less_10_cases: "n < 10 \<Longrightarrow> n \<in> {0, 1, 2, 3, 4, 5, 6, 7, 8, 9 :: nat}"
  by (simp only: insert_iff empty_iff) arith

lemma digit_value: "n < 10 \<Longrightarrow> byte (''0123456789'' ! n) - 48 = n"
  using less_10_cases[of n] by auto

lemma dec_value_Itoa: "dec_value (Itoa n) = n"
proof (induction n rule: Itoa.induct)
  case (1 n)
  show ?case
  proof (cases "n < 10")
    case True
    then show ?thesis by (simp add: Itoa.simps[of n] dec_value_def digit_value)
  next
    case False
    then have "dec_value (Itoa n) = 10 * dec_value (Itoa (n div 10)) + n mod 10"
      by (simp add: Itoa.simps[of n] dec_value_def digit_value)
    then show ?thesis using 1 False by simp
  qed
qed

lemma inj_Itoa: "inj Itoa"
  by (rule inj_on_inverseI[of _ dec_value]) (simp add: dec_value_Itoa)

lemma merge_loop_ends: "\<exists>r :: 'e media_err + (string \<times> string) option. merge_loop paramKey contMap n charset val = Some r"
proof -
  let ?key = "\<lambda>n. paramKey @ ''*'' @ Itoa n"
  define S where "S = {n. ?key n \<in> dom (map_of contMap) \<or> ?key n @ ''*'' \<in> dom (map_of contMap)}"
  have "finite (?key -` dom (map_of contMap))" "finite ((\<lambda>n. ?key n @ ''*'') -` dom (map_of contMap))"
    using inj_Itoa by (auto intro!: finite_vimageI simp: inj_on_def finite_dom_map_of)
  then have "finite S" by (simp add: S_def vimage_def Collect_disj_eq)
  then obtain N where N: "\<And>m. m \<in> S \<Longrightarrow> m < N" using finite_nat_set_iff_bounded[of S] by blast
  have stop: "\<exists>r :: 'e media_err + (string \<times> string) option. merge_loop paramKey contMap m charset val = Some r" if "N \<le> m" for m charset val
  proof -
    have "m \<notin> S" using N that not_less by blast
    then have "map_of contMap (?key m) = None" "map_of contMap (?key m @ ''*'') = None" by (auto simp: S_def)
    then show ?thesis by (simp add: merge_loop.simps[of paramKey contMap m] Let_def)
  qed
  show ?thesis
  proof (cases "N \<le> n")
    case False
    then have "n \<le> N" by simp
    then show ?thesis
    proof (induction arbitrary: charset val rule: inc_induct)
      case base
      show ?case using stop by simp
    next
      case (step m)
      have IH: "\<exists>r :: 'e media_err + (string \<times> string) option. merge_loop paramKey contMap (Suc m) charset' val' = Some r" for charset' val' by (rule step.IH)
      show ?case
        by (cases "m = 0"; subst merge_loop.simps)
          (use IH in \<open>simp_all add: Let_def split: option.split sum.split prod.split\<close>)
    qed
  qed (use stop in simp)
qed

lemma mergeContinuations_ends: "\<exists>r. mergeContinuations decodeCharset paramKey contMap = Some r"
  using merge_loop_ends[of paramKey contMap 0 "[]" "[]"] by (auto simp: mergeContinuations_def split: option.splits)

lemma add_continuations_ends: "\<exists>ps. add_continuations decodeCharset cs params = Some ps"
proof (induction cs arbitrary: params)
  case (Cons c cs)
  obtain k m where "c = (k, m)" by (cases c)
  then show ?case using mergeContinuations_ends[of decodeCharset k m] Cons.IH by (auto split: sum.splits)
qed simp

subsection \<open>Repeated parameters\<close>

definition token :: "string \<Rightarrow> bool" where
  "token t \<longleftrightarrow> t \<noteq> [] \<and> (\<forall>c \<in> set t. isTokenChar c)"

text \<open>A parameter as clients write it: a lower-case key without a star and a token as its value.\<close>

definition plain_param :: "string \<times> string \<Rightarrow> bool" where
  "plain_param p \<longleftrightarrow> token (fst p) \<and> ToLower (fst p) = fst p \<and> CHR ''*'' \<notin> set (fst p) \<and> token (snd p)"

lemma not_token_chars: "\<not> isTokenChar (CHR '';'')" "\<not> isTokenChar (CHR ''='')" "\<not> isTokenChar quote_char"
  by (simp_all add: isTokenChar_def isTSpecial_def quote_char_def)

lemma token_not_space: "isTokenChar c \<Longrightarrow> \<not> IsSpace c"
  by (auto simp: isTokenChar_def IsSpace_def)

lemma trim_token: "token t \<Longrightarrow> TrimLeftSpace (t @ s) = t @ s"
  using token_not_space by (cases t) (auto simp: token_def TrimLeftSpace_def)

lemma consumeToken_token:
  assumes "token t" "s = [] \<or> \<not> isTokenChar (hd s)"
  shows "consumeToken (t @ s) = (t, s)"
  using assms by (cases s) (auto simp: consumeToken_def isNotTokenChar_def token_def takeWhile_append dropWhile_append)

lemma trim_special [simp]:
  "TrimLeftSpace (CHR '';'' # s) = CHR '';'' # s" "TrimLeftSpace (CHR ''='' # s) = CHR ''='' # s" "TrimLeftSpace [] = []"
  by (simp_all add: TrimLeftSpace_def IsSpace_def)

lemma consumeMediaParam_plain:
  assumes "plain_param (k, v)" "s = [] \<or> hd s = CHR '';''"
  shows "consumeMediaParam (CHR '';'' # k @ CHR ''='' # v @ s) = (k, v, s)"
proof -
  have s: "s = [] \<or> \<not> isTokenChar (hd s)" using assms(2) not_token_chars(1) by auto
  have kt: "consumeToken (k @ CHR ''='' # v @ s) = (k, CHR ''='' # v @ s)" and tk: "TrimLeftSpace (k @ CHR ''='' # v @ s) = k @ CHR ''='' # v @ s"
    using assms(1) not_token_chars(2) by (auto simp: plain_param_def intro!: consumeToken_token trim_token)
  have tv: "TrimLeftSpace (v @ s) = v @ s" and vt: "consumeToken (v @ s) = (v, s)" and v: "v \<noteq> []" "hd v \<noteq> quote_char"
    using assms(1) s not_token_chars(3) by (auto simp: plain_param_def token_def intro!: consumeToken_token trim_token dest: hd_in_set)
  have "consumeValue (v @ s) = (v, s)" using v vt by (cases v) (auto simp: consumeValue_def)
  then show ?thesis using assms(1) kt tk tv v(1) by (simp add: consumeMediaParam_def Let_def plain_param_def token_def)
qed

lemma param_loop_plain:
  assumes "\<forall>p \<in> set ps. plain_param p"
  shows "param_loop (show_params ps) params cont keep =
    (fold (\<lambda>(k, v). AList.update k v) ps params, cont, keep \<and> distinct (map fst ps) \<and> (\<forall>p \<in> set ps. map_of params (fst p) = None))"
  using assms
proof (induction ps arbitrary: params keep)
  case Nil
  then show ?case by (simp add: param_loop.simps[of "[]"] show_params_def)
next
  case (Cons p ps)
  obtain k v where p: "p = (k, v)" by (cases p)
  have k: "k \<noteq> []" "CutStar k = None" using Cons.prems p by (auto simp: plain_param_def token_def CutStar_def)
  have "consumeMediaParam (show_params (p # ps)) = (k, v, show_params ps)"
    using consumeMediaParam_plain[of k v "show_params ps"] Cons.prems p by (cases ps) (auto simp: show_params_def split: prod.splits)
  moreover have "TrimLeftSpace (show_params (p # ps)) = show_params (p # ps)" "show_params (p # ps) \<noteq> []"
    using p by (simp_all add: show_params_def)
  ultimately have "param_loop (show_params (p # ps)) params cont keep =
      param_loop (show_params ps) (AList.update k v params) cont (keep \<and> map_of params k = None)"
    using k by (simp add: param_loop.simps[of "show_params (p # ps)"] Let_def)
  also have "\<dots> = (fold (\<lambda>(k, v). AList.update k v) ps (AList.update k v params), cont,
      (keep \<and> map_of params k = None) \<and> distinct (map fst ps) \<and> (\<forall>q \<in> set ps. map_of (AList.update k v params) (fst q) = None))"
    using Cons by simp
  also have "(\<forall>q \<in> set ps. map_of (AList.update k v params) (fst q) = None) \<longleftrightarrow>
      k \<notin> fst ` set ps \<and> (\<forall>q \<in> set ps. map_of params (fst q) = None)"
    by (auto simp: update_conv' split: if_splits)
  finally show ?case using p by auto
qed

lemma fold_update_last: "map_of (fold (\<lambda>(k, v). AList.update k v) ps params) k = (map_of params ++ map_of (rev ps)) k"
proof (induction ps arbitrary: params)
  case (Cons p ps)
  then show ?case by (cases p) (auto simp: update_conv' map_add_def split: option.splits)
qed simp

text \<open>
  A header value with plain parameters is left alone when no key is repeated. Otherwise it is written anew with every key
  once, and the value of a key is that of its last definition.
\<close>

theorem repeated_params_last:
  assumes "\<forall>p \<in> set ps. plain_param p" "CHR '';'' \<notin> set mediatype" "\<And>qs. mset (visit qs) = mset qs"
  shows "if distinct (map fst ps) then changeEncodingAndKeepLastParamDefinition decode visit (mediatype @ show_params ps) = Some (mediatype @ show_params ps)
    else \<exists>qs. changeEncodingAndKeepLastParamDefinition decode visit (mediatype @ show_params ps) = Some (TrimSpace (ToLower mediatype) @ show_params qs) \<and>
      distinct (map fst qs) \<and> map_of qs = map_of (rev ps)"
proof -
  have i: "takeWhile (\<lambda>c. c \<noteq> CHR '';'') (mediatype @ show_params ps) = mediatype"
  proof -
    have "takeWhile (\<lambda>c. c \<noteq> CHR '';'') (show_params ps) = []" by (cases ps) (auto simp: show_params_def split: prod.splits)
    then show ?thesis using assms(2) takeWhile_append2[of mediatype "\<lambda>c. c \<noteq> CHR '';''" "show_params ps"] by fastforce
  qed
  let ?final = "fold (\<lambda>(k, v). AList.update k v) ps []"
  have dist: "distinct (map fst (fold (\<lambda>(k, v). AList.update k v) ps qs))" if "distinct (map fst qs)" for qs
    using that by (induction ps arbitrary: qs) (auto intro: distinct_update)
  have "mset (map fst (visit ?final)) = mset (map fst ?final)" using assms(3)[of ?final] by simp
  then have "distinct (map fst (visit ?final))"
    using dist[of "[]"] mset_eq_imp_distinct_iff[of "map fst (visit ?final)" "map fst ?final"] by simp
  moreover from this have "map_of (visit ?final) = map_of ?final"
    using map_of_inject_set[of "visit ?final" ?final] dist[of "[]"] mset_eq_setD[OF assms(3)[of ?final]] by simp
  moreover have "map_of ?final = map_of (rev ps)" by (rule ext) (simp add: fold_update_last)
  moreover have "changeEncodingAndKeepLastParamDefinition decode visit (mediatype @ show_params ps) =
      (if distinct (map fst ps) then Some (mediatype @ show_params ps) else Some (TrimSpace (ToLower mediatype) @ show_params (visit ?final)))"
    using i param_loop_plain[OF assms(1), of "[]" "[]" True] by (simp add: changeEncodingAndKeepLastParamDefinition_def)
  ultimately show ?thesis by (cases "distinct (map fst ps)") (simp, metis)
qed

theorem repeated_params_last_witness:
  "\<exists>qs. changeEncodingAndKeepLastParamDefinition (\<lambda>_ _. Inl ()) id ''text/plain;charset=a;charset=b'' = Some (''text/plain'' @ show_params qs) \<and>
     distinct (map fst qs) \<and> map_of qs ''charset'' = Some ''b''"
proof -
  let ?ps = "[(''charset'', ''a''), (''charset'', ''b'')]"
  have "\<forall>p \<in> set ?ps. plain_param p"
    by (simp add: plain_param_def token_def isTokenChar_def isTSpecial_def ToLower_def to_lower_def backslash_def quote_char_def)
  moreover have "''text/plain;charset=a;charset=b'' = ''text/plain'' @ show_params ?ps" by (simp add: show_params_def)
  moreover have "TrimSpace (ToLower ''text/plain'') = ''text/plain''"
    by (simp add: TrimSpace_def ToLower_def to_lower_def IsSpace_def)
  ultimately show ?thesis
    using repeated_params_last[of ?ps "''text/plain''" id "\<lambda>_ _. Inl ()"] by (auto intro: exI)
qed

lemma merge_loop_starred:
  assumes "merge_loop paramKey contMap n charset val = Some r" "\<And>n. map_of contMap (paramKey @ ''*'' @ Itoa n) = None"
  shows "(\<exists>e. r = Inl e) \<or> r = Inr None"
proof -
  let ?P = "\<lambda>k m n (c :: string) (v :: string) r. (\<forall>n. map_of m (k @ ''*'' @ Itoa n) = None) \<longrightarrow> (\<exists>e. r = Inl e) \<or> r = Inr None"
  have "?P paramKey contMap n charset val r"
  proof (rule merge_loop.raw_induct[where P = ?P, OF _ assms(1)])
    fix loop k m n c v r
    assume IH: "\<And>k m n c v r. loop k m n c v = Some r \<Longrightarrow> ?P k m n c v r"
      and step: "(let contKey = k @ ''*'' @ Itoa n; isLast = map_of m contKey \<noteq> None
         in case case map_of m contKey of None \<Rightarrow> map_of m (contKey @ ''*'') | Some v \<Rightarrow> Some v of
              None \<Rightarrow> Some (Inl BadContinuation)
            | Some contValue \<Rightarrow>
                if n = 0 then case get2231Charset contValue of Inl e \<Rightarrow> Some (Inl e)
                     | Inr (charset1, val1) \<Rightarrow>
                         if charset1 = [] then Some (Inr None)
                         else if isLast then Some (Inr (Some (charset1, val1))) else loop k m (Suc n) charset1 val1
                else if isLast then Some (Inr (Some (c, v @ contValue))) else loop k m (Suc n) c (v @ contValue)) = Some r"
    show "?P k m n c v r"
    proof
      assume none: "\<forall>n. map_of m (k @ ''*'' @ Itoa n) = None"
      have IH': "loop k m n' c' v' = Some r' \<Longrightarrow> (\<exists>e. r' = Inl e) \<or> r' = Inr None" for n' c' v' r'
        using IH none by blast
      show "(\<exists>e. r = Inl e) \<or> r = Inr None"
        using step none[rule_format, of n] by (auto simp: Let_def dest: IH' split: option.splits sum.splits if_splits prod.splits)
    qed
  qed
  then show ?thesis using assms(2) by blast
qed

text \<open>
  Continuations that all end in a star, as several clients write them, are never merged: the result is an error, or empty when no character set is named.
  Only a key without a star ends the sequence.
\<close>

theorem starred_continuations_not_merged:
  fixes decode :: "string \<Rightarrow> string \<Rightarrow> 'e + string"
  assumes "map_of contMap (paramKey @ ''*'') = None" "\<And>n. map_of contMap (paramKey @ ''*'' @ Itoa n) = None"
  shows "(\<exists>e. mergeContinuations decode paramKey contMap = Some (Inl e)) \<or> mergeContinuations decode paramKey contMap = Some (Inr [])"
proof -
  obtain r :: "'e media_err + (string \<times> string) option" where r: "merge_loop paramKey contMap 0 [] [] = Some r" using merge_loop_ends by blast
  show ?thesis using merge_loop_starred[OF r assms(2)] assms(1) r by (auto simp: mergeContinuations_def)
qed

end
