(* ===== verification/Mime_Parser.thy ===== *)
theory Mime_Parser
  imports Media_Type
begin

section \<open>Message parts\<close>

text \<open>
  Models \<^verbatim>\<open>pkg/message/parser\<close>: the tree of the parts of a message, how the parser builds it, and the walkers, visitors and the writer that go
  over it.

  The header type \<open>'h\<close> and its operations belong to the MIME library and are part of the environment \<open>mail_lib\<close>, as are the
  HTML parser and the decoders. A part is a tree whose nodes carry the address \<open>p_id\<close> of the Go object, because later code changes
  parts through pointers it has kept; handlers of a walker change the header and the body of a part but not its children.
\<close>

subsection \<open>Parts\<close>

datatype 'h part = Part (p_id: nat) (p_Header: 'h) (p_Body: string) (p_children: "'h part list")

text \<open>
  \<open>lb_metas\<close> lists the attributes \<open>content\<close> and \<open>charset\<close> of the meta tags of a parsed document, \<open>lb_setMetas\<close> writes them back.
\<close>

record ('h, 'd, 'e) mail_lib =
  lb_mime :: "'e mime_lib"
  lb_empty :: 'h
  lb_Get :: "string \<Rightarrow> 'h \<Rightarrow> string"
  lb_Has :: "string \<Rightarrow> 'h \<Rightarrow> bool"
  lb_Set :: "string \<Rightarrow> string \<Rightarrow> 'h \<Rightarrow> 'h"
  lb_Del :: "string \<Rightarrow> 'h \<Rightarrow> 'h"
  lb_ContentType :: "'h \<Rightarrow> 'e + string \<times> params"
  lb_SetContentType :: "string \<Rightarrow> params \<Rightarrow> 'h \<Rightarrow> 'h"
  lb_FormatMediaType :: "string \<Rightarrow> params \<Rightarrow> string"
  lb_QEncode :: "string \<Rightarrow> string"
  lb_parseHTML :: "string \<Rightarrow> 'e + 'd"
  lb_metas :: "'d \<Rightarrow> (string option \<times> string option) list"
  lb_setMetas :: "(string option \<times> string option) list \<Rightarrow> 'd \<Rightarrow> 'd"
  lb_renderHTML :: "'d \<Rightarrow> 'e + string"

definition utf8Charset :: string where "utf8Charset = ''UTF-8''"

definition ContentType :: "('h, 'd, 'e) mail_lib \<Rightarrow> 'h part \<Rightarrow> 'e mime_err + string \<times> params" where
  "ContentType L p =
     (case lb_ContentType L (p_Header p) of
        Inr r \<Rightarrow> Inr r
      | Inl _ \<Rightarrow> ParseMediaType (lb_mime L) (lb_Get L ''Content-Type'' (p_Header p)))"

definition ContentDisposition :: "('h, 'd, 'e) mail_lib \<Rightarrow> 'h part \<Rightarrow> 'e mime_err + string \<times> params" where
  "ContentDisposition L p = ParseMediaType (lb_mime L) (lb_Get L ''Content-Disposition'' (p_Header p))"

definition HasContentID :: "('h, 'd, 'e) mail_lib \<Rightarrow> 'h part \<Rightarrow> bool" where
  "HasContentID L p \<longleftrightarrow> lb_Get L ''content-id'' (p_Header p) \<noteq> []"

text \<open>Children are numbered from one; \<open>None\<close> is the panic of an index below zero.\<close>

definition Child :: "int \<Rightarrow> 'h part \<Rightarrow> (string + 'h part) option" where
  "Child n p =
     (if int (length (p_children p)) < n then Some (Inl ''no such part'')
      else if n < 1 then None
      else Some (Inr (p_children p ! nat (n - 1))))"

definition isMultipartMixed :: "('h, 'd, 'e) mail_lib \<Rightarrow> 'h part \<Rightarrow> bool" where
  "isMultipartMixed L p = (case ContentType L p of Inl _ \<Rightarrow> False | Inr (t, _) \<Rightarrow> t = ''multipart/mixed'')"

definition isMultipartMixedOrRelated :: "('h, 'd, 'e) mail_lib \<Rightarrow> 'h part \<Rightarrow> bool" where
  "isMultipartMixedOrRelated L p =
     (case ContentType L p of Inl _ \<Rightarrow> False | Inr (t, _) \<Rightarrow> t = ''multipart/mixed'' \<or> t = ''multipart/related'')"

definition IsAttachment :: "('h, 'd, 'e) mail_lib \<Rightarrow> 'h part \<Rightarrow> bool" where
  "IsAttachment L p =
     (let disp = (case ContentDisposition L p of Inl _ \<Rightarrow> [] | Inr (d, _) \<Rightarrow> d) in disp = ''attachment'')"

definition copy_header :: "('h, 'd, 'e) mail_lib \<Rightarrow> 'h \<Rightarrow> string \<Rightarrow> 'h \<Rightarrow> 'h" where
  "copy_header L h key res = (if lb_Get L key h \<noteq> [] then lb_Set L key (lb_Get L key h) res else res)"

definition getContentHeaders :: "('h, 'd, 'e) mail_lib \<Rightarrow> 'h \<Rightarrow> 'h" where
  "getContentHeaders L h =
     copy_header L h ''Content-Transfer-Encoding'' (copy_header L h ''Content-Disposition'' (copy_header L h ''Content-Type'' (lb_empty L)))"

definition stripContentHeaders :: "('h, 'd, 'e) mail_lib \<Rightarrow> 'h \<Rightarrow> 'h" where
  "stripContentHeaders L h = lb_Del L ''Content-Transfer-Encoding'' (lb_Del L ''Content-Disposition'' (lb_Del L ''Content-Type'' h))"

text \<open>The addresses in a tree, and one that is not in use.\<close>

fun ids :: "'h part \<Rightarrow> nat list" where
  "ids (Part i h b cs) = i # concat (map ids cs)"

definition fresh_id :: "'h part list \<Rightarrow> nat" where
  "fresh_id ps = Suc (fold max (concat (map ids ps)) 0)"

definition AddChild :: "('h, 'd, 'e) mail_lib \<Rightarrow> 'h part \<Rightarrow> 'h part \<Rightarrow> 'h part" where
  "AddChild L child p =
     (if isMultipartMixed L p then Part (p_id p) (p_Header p) (p_Body p) (p_children p @ [child])
      else Part (p_id p) (lb_Set L ''Content-Type'' ''multipart/mixed'' (stripContentHeaders L (p_Header p))) []
             [Part (fresh_id [p, child]) (getContentHeaders L (p_Header p)) (p_Body p) (p_children p), child])"

text \<open>\<^verbatim>\<open>slices.Insert\<close> panics (\<open>None\<close>) when the index is beyond the end.\<close>

definition InsertChild :: "('h, 'd, 'e) mail_lib \<Rightarrow> nat \<Rightarrow> 'h part \<Rightarrow> 'h part \<Rightarrow> 'h part option" where
  "InsertChild L index child p =
     (if isMultipartMixedOrRelated L p
      then if length (p_children p) < index then None
           else Some (Part (p_id p) (p_Header p) (p_Body p) (take index (p_children p) @ child # drop index (p_children p)))
      else Some (AddChild L child p))"

subsection \<open>Character sets\<close>

definition selectSuitableDecoder :: "('h, 'd, 'e) mail_lib \<Rightarrow> 'h part \<Rightarrow> string \<Rightarrow> params \<Rightarrow> string \<Rightarrow> 'e + string" where
  "selectSuitableDecoder L p t params =
     (let by_body = (if ml_Utf8Valid (lb_mime L) (p_Body p) then Inr else ml_DetermineEncoding (lb_mime L) (p_Body p) t)
      in case map_of params ''charset'' of
           None \<Rightarrow> by_body
         | Some charset \<Rightarrow> (case ml_SelectDecoder (lb_mime L) charset of Inr decoder \<Rightarrow> decoder | Inl _ \<Rightarrow> by_body))"

text \<open>The header and the body of a part afterwards, with the error if there is one.\<close>

type_synonym ('h, 'e) changed = "'e mime_err option \<times> 'h \<times> string"

definition unchanged :: "'e mime_err option \<Rightarrow> 'h part \<Rightarrow> ('h, 'e) changed" where
  "unchanged e p = (e, p_Header p, p_Body p)"

text \<open>When decoding fails the body is what the decoder returned beside the error: nothing.\<close>

definition ConvertToUTF8 :: "('h, 'd, 'e) mail_lib \<Rightarrow> 'h part \<Rightarrow> ('h, 'e) changed" where
  "ConvertToUTF8 L p =
     (case ContentType L p of
        Inl e \<Rightarrow> unchanged (Some e) p
      | Inr (t, params) \<Rightarrow>
          (case selectSuitableDecoder L p t params (p_Body p) of
             Inl e \<Rightarrow> (Some (LibErr e), p_Header p, [])
           | Inr b \<Rightarrow> (None, lb_SetContentType L t (AList.update ''charset'' utf8Charset params) (p_Header p), b)))"

text \<open>One meta tag: its attributes afterwards, and whether they changed. A \<open>content\<close> that does not parse ends the handling of the tag.\<close>

definition convert_meta ::
  "('h, 'd, 'e) mail_lib \<Rightarrow> string option \<times> string option \<Rightarrow> (string option \<times> string option) \<times> bool" where
  "convert_meta L m =
     (let by_charset = (\<lambda>content modified. case snd m of
              Some charset \<Rightarrow> if charset \<noteq> utf8Charset then ((content, Some utf8Charset), True) else ((content, snd m), modified)
            | None \<Rightarrow> ((content, None), modified))
      in case fst m of
           None \<Rightarrow> by_charset None False
         | Some val \<Rightarrow>
             (case ParseMediaType (lb_mime L) val of
                Inl _ \<Rightarrow> (m, False)
              | Inr (t, params) \<Rightarrow>
                  (case map_of params ''charset'' of
                     Some charset \<Rightarrow>
                       if charset \<noteq> utf8Charset
                       then by_charset (Some (lb_FormatMediaType L t (AList.update ''charset'' utf8Charset params))) True
                       else by_charset (Some val) False
                   | None \<Rightarrow> by_charset (Some val) False)))"

definition ConvertMetaCharset :: "('h, 'd, 'e) mail_lib \<Rightarrow> string \<Rightarrow> 'e mime_err + string" where
  "ConvertMetaCharset L body =
     (case lb_parseHTML L body of
        Inl e \<Rightarrow> Inl (LibErr e)
      | Inr doc \<Rightarrow>
          (let ms = map (convert_meta L) (lb_metas L doc) in
           if \<exists>m \<in> set ms. snd m then map_sum LibErr id (lb_renderHTML L (lb_setMetas L (map fst ms) doc))
           else Inr body))"

definition is7BitClean :: "'h part \<Rightarrow> bool" where
  "is7BitClean p \<longleftrightarrow> (\<forall>b \<in> set (p_Body p). \<not> byte b > 2 ^ 7)"

subsection \<open>Building the tree\<close>

text \<open>
  What the library reads: an entity with a body, or with parts and the error, if any, that ended them. Unknown character sets and
  encodings are reported beside an entity that is used all the same.
\<close>

datatype ('h, 'e) entity = Single 'h "'e + string" | Multi 'h "('h, 'e) entity list" "'e option"

fun e_Header :: "('h, 'e) entity \<Rightarrow> 'h" where
  "e_Header (Single h _) = h"
| "e_Header (Multi h _ _) = h"

text \<open>The stack of the parser, innermost part first, and the next free address.\<close>

record 'h Parser =
  ps_stack :: "'h part list"
  ps_root :: "'h part option"
  ps_next :: nat

definition beginPart :: "'h \<Rightarrow> 'h Parser \<Rightarrow> 'h Parser" where
  "beginPart h0 P = P\<lparr>ps_stack := Part (ps_next P) h0 [] [] # ps_stack P, ps_next := Suc (ps_next P)\<rparr>"

definition add_to_top :: "'h part \<Rightarrow> 'h part list \<Rightarrow> 'h part list" where
  "add_to_top c st = (case st of [] \<Rightarrow> [] | Part i h b cs # rest \<Rightarrow> Part i h b (cs @ [c]) # rest)"

definition endPart :: "'h Parser \<Rightarrow> 'h Parser" where
  "endPart P =
     (case ps_stack P of
        [] \<Rightarrow> P
      | part # stack \<Rightarrow>
          if stack \<noteq> [] then P\<lparr>ps_stack := add_to_top part stack\<rparr> else P\<lparr>ps_stack := [], ps_root := Some part\<rparr>)"

definition withHeader :: "'h \<Rightarrow> 'h Parser \<Rightarrow> 'h Parser" where
  "withHeader h P =
     (case ps_stack P of [] \<Rightarrow> P | Part i _ b cs # rest \<Rightarrow> P\<lparr>ps_stack := Part i h b cs # rest\<rparr>)"

definition withBody :: "string \<Rightarrow> 'h Parser \<Rightarrow> 'h Parser" where
  "withBody b P =
     (case ps_stack P of [] \<Rightarrow> P | Part i h _ cs # rest \<Rightarrow> P\<lparr>ps_stack := Part i h b cs # rest\<rparr>)"

definition parsePart :: "'e + string \<Rightarrow> 'h Parser \<Rightarrow> 'e option \<times> 'h Parser" where
  "parsePart body P = (case body of Inl e \<Rightarrow> (Some e, P) | Inr b \<Rightarrow> (None, withBody b P))"

fun parseEntity :: "'h \<Rightarrow> ('h, 'e) entity \<Rightarrow> 'h Parser \<Rightarrow> 'e option \<times> 'h Parser"
  and parseMultipart :: "'h \<Rightarrow> ('h, 'e) entity list \<Rightarrow> 'e option \<Rightarrow> 'h Parser \<Rightarrow> 'e option \<times> 'h Parser" where
  "parseEntity h0 e P =
     (case (case e of
              Multi h parts end_err \<Rightarrow> parseMultipart h0 parts end_err (withHeader h (beginPart h0 P))
            | Single h body \<Rightarrow> parsePart body (withHeader h (beginPart h0 P))) of
        (err, P1) \<Rightarrow> (err, endPart P1))"
| "parseMultipart h0 [] end_err P = (end_err, P)"
| "parseMultipart h0 (c # parts) end_err P =
     (case parseEntity h0 c P of
        (Some err, P1) \<Rightarrow> (Some err, P1)
      | (None, P1) \<Rightarrow> parseMultipart h0 parts end_err P1)"

definition parser_New :: "'h \<Rightarrow> 'e + ('h, 'e) entity \<Rightarrow> 'e + 'h Parser" where
  "parser_New h0 entity_read =
     (case entity_read of
        Inl e \<Rightarrow> Inl e
      | Inr entity \<Rightarrow>
          (case parseEntity h0 entity \<lparr>ps_stack = [], ps_root = None, ps_next = 0\<rparr> of
             (Some e, _) \<Rightarrow> Inl e
           | (None, P) \<Rightarrow> Inr P))"

subsection \<open>Operations on the whole message\<close>

definition AttachPublicKey :: "('h, 'd, 'e) mail_lib \<Rightarrow> string \<Rightarrow> string \<Rightarrow> 'h part \<Rightarrow> 'h part" where
  "AttachPublicKey L key keyName root =
     (let encName = lb_QEncode L (keyName @ ''.asc'');
          params = [(''name'', encName), (''filename'', encName)];
          h = lb_Set L ''Content-Transfer-Encoding'' ''base64''
                (lb_Set L ''Content-Disposition'' (lb_FormatMediaType L ''attachment'' params)
                  (lb_Set L ''Content-Type'' (lb_FormatMediaType L ''application/pgp-keys'' params) (lb_empty L)))
      in AddChild L (Part (fresh_id [root]) h key []) root)"

definition is_text :: "'e + string \<times> params \<Rightarrow> bool" where
  "is_text ct = (case ct of Inl _ \<Rightarrow> False | Inr (t, _) \<Rightarrow> take 5 t = ''text/'')"

definition AttachEmptyTextPartIfNoneExists :: "('h, 'd, 'e) mail_lib \<Rightarrow> 'h part \<Rightarrow> bool \<times> 'h part" where
  "AttachEmptyTextPartIfNoneExists L root =
     (let found = (if isMultipartMixed L root
                   then \<exists>v \<in> set (p_children root). \<not> lb_Has L ''Content-Disposition'' (p_Header v) \<and> is_text (lb_ContentType L (p_Header v))
                   else is_text (lb_ContentType L (p_Header root)))
      in if found then (False, root)
         else let h = lb_Set L ''Content-Transfer-Encoding'' ''quoted-printable'' (lb_Set L ''Content-Type'' ''text/plain;charset=utf8'' (lb_empty L))
              in (True, AddChild L (Part (fresh_id [root]) h [] []) root))"

fun Section :: "int list \<Rightarrow> 'h part \<Rightarrow> (string + 'h part) option" where
  "Section [] part = Some (Inr part)"
| "Section (n # section) part =
     (case Child n part of
        None \<Rightarrow> None
      | Some (Inl e) \<Rightarrow> Some (Inl e)
      | Some (Inr c) \<Rightarrow> Section section c)"

subsection \<open>Walkers\<close>

text \<open>
  A handler is chosen by a pattern for the type or for the disposition; the patterns in use are literals, so that matching is
  containment. A handler changes the header and the body of its part and the variables \<open>'s\<close> it captured.
\<close>

type_synonym ('h, 's, 'e) HandlerFunc = "'h part \<Rightarrow> 's \<Rightarrow> 'e mime_err option \<times> 'h \<times> string \<times> 's"

record ('h, 's, 'e) handler =
  hd_type :: "string option"
  hd_disp :: "string option"
  hd_fn :: "('h, 's, 'e) HandlerFunc"

record ('h, 's, 'e) Walker =
  wk_handlers :: "('h, 's, 'e) handler list"
  wk_default :: "('h, 's, 'e) HandlerFunc"

definition matchType :: "('h, 'd, 'e) mail_lib \<Rightarrow> ('h, 's, 'e) handler \<Rightarrow> 'h part \<Rightarrow> bool" where
  "matchType L hr p =
     (case hd_type hr of
        None \<Rightarrow> False
      | Some re \<Rightarrow> Contains (case ContentType L p of Inl _ \<Rightarrow> [] | Inr (t, _) \<Rightarrow> t) re)"

definition matchDisp :: "('h, 'd, 'e) mail_lib \<Rightarrow> ('h, 's, 'e) handler \<Rightarrow> 'h part \<Rightarrow> bool" where
  "matchDisp L hr p =
     (case hd_disp hr of
        None \<Rightarrow> False
      | Some re \<Rightarrow> Contains (case ContentDisposition L p of Inl _ \<Rightarrow> [] | Inr (d, _) \<Rightarrow> d) re)"

definition matchPart :: "('h, 'd, 'e) mail_lib \<Rightarrow> ('h, 's, 'e) handler \<Rightarrow> 'h part \<Rightarrow> bool" where
  "matchPart L hr p \<longleftrightarrow> matchType L hr p \<or> matchDisp L hr p"

definition matchPartSkipAttachment :: "('h, 'd, 'e) mail_lib \<Rightarrow> ('h, 's, 'e) handler \<Rightarrow> 'h part \<Rightarrow> bool" where
  "matchPartSkipAttachment L hr p \<longleftrightarrow> \<not> IsAttachment L p \<and> matchPart L hr p"

definition getHandlerFunc :: "('h, 'd, 'e) mail_lib \<Rightarrow> ('h, 's, 'e) Walker \<Rightarrow> 'h part \<Rightarrow> ('h, 's, 'e) HandlerFunc" where
  "getHandlerFunc L w p =
     (case find (\<lambda>hr. matchPart L hr p) (wk_handlers w) of Some hr \<Rightarrow> hd_fn hr | None \<Rightarrow> wk_default w)"

definition getHandlerFuncSkipAttachment :: "('h, 'd, 'e) mail_lib \<Rightarrow> ('h, 's, 'e) Walker \<Rightarrow> 'h part \<Rightarrow> ('h, 's, 'e) HandlerFunc" where
  "getHandlerFuncSkipAttachment L w p =
     (case find (\<lambda>hr. matchPartSkipAttachment L hr p) (wk_handlers w) of Some hr \<Rightarrow> hd_fn hr | None \<Rightarrow> wk_default w)"

definition newWalker :: "('h, 's, 'e) Walker" where
  "newWalker = \<lparr>wk_handlers = [], wk_default = (\<lambda>p s. (None, p_Header p, p_Body p, s))\<rparr>"

definition RegisterDefaultHandler :: "('h, 's, 'e) HandlerFunc \<Rightarrow> ('h, 's, 'e) Walker \<Rightarrow> ('h, 's, 'e) Walker" where
  "RegisterDefaultHandler fn w = w\<lparr>wk_default := fn\<rparr>"

definition RegisterContentTypeHandler :: "string \<Rightarrow> ('h, 's, 'e) HandlerFunc \<Rightarrow> ('h, 's, 'e) Walker \<Rightarrow> ('h, 's, 'e) Walker" where
  "RegisterContentTypeHandler re fn w = w\<lparr>wk_handlers := wk_handlers w @ [\<lparr>hd_type = Some re, hd_disp = None, hd_fn = fn\<rparr>]\<rparr>"

definition RegisterContentDispositionHandler :: "string \<Rightarrow> ('h, 's, 'e) HandlerFunc \<Rightarrow> ('h, 's, 'e) Walker \<Rightarrow> ('h, 's, 'e) Walker" where
  "RegisterContentDispositionHandler re fn w = w\<lparr>wk_handlers := wk_handlers w @ [\<lparr>hd_type = None, hd_disp = Some re, hd_fn = fn\<rparr>]\<rparr>"

text \<open>Both walks differ only in how the handler is chosen.\<close>

fun walk :: "('h part \<Rightarrow> ('h, 's, 'e) HandlerFunc) \<Rightarrow> 'h part \<Rightarrow> 's \<Rightarrow> 'e mime_err option \<times> 'h part \<times> 's"
  and walk_parts :: "('h part \<Rightarrow> ('h, 's, 'e) HandlerFunc) \<Rightarrow> 'h part list \<Rightarrow> 's \<Rightarrow> 'e mime_err option \<times> 'h part list \<times> 's" where
  "walk pick (Part i h b cs) s =
     (case pick (Part i h b cs) (Part i h b cs) s of
        (Some e, h1, b1, s1) \<Rightarrow> (Some e, Part i h1 b1 cs, s1)
      | (None, h1, b1, s1) \<Rightarrow> (case walk_parts pick cs s1 of (e, cs1, s2) \<Rightarrow> (e, Part i h1 b1 cs1, s2)))"
| "walk_parts pick [] s = (None, [], s)"
| "walk_parts pick (c # cs) s =
     (case walk pick c s of
        (Some e, c1, s1) \<Rightarrow> (Some e, c1 # cs, s1)
      | (None, c1, s1) \<Rightarrow> (case walk_parts pick cs s1 of (e, cs1, s2) \<Rightarrow> (e, c1 # cs1, s2)))"

definition walkOverPart :: "('h, 'd, 'e) mail_lib \<Rightarrow> ('h, 's, 'e) Walker \<Rightarrow> 'h part \<Rightarrow> 's \<Rightarrow> 'e mime_err option \<times> 'h part \<times> 's" where
  "walkOverPart L w = walk (getHandlerFunc L w)"

definition walkOverPartSkipAttachment ::
  "('h, 'd, 'e) mail_lib \<Rightarrow> ('h, 's, 'e) Walker \<Rightarrow> 'h part \<Rightarrow> 's \<Rightarrow> 'e mime_err option \<times> 'h part \<times> 's" where
  "walkOverPartSkipAttachment L w = walk (getHandlerFuncSkipAttachment L w)"

subsection \<open>Visitors\<close>

text \<open>A rule gets the results for the children, which it may ignore.\<close>

type_synonym ('h, 'r, 'e) VisitorRule = "'h part \<Rightarrow> ('e mime_err + 'r) list \<Rightarrow> 'e mime_err + 'r"

record ('h, 'r, 'e) Visitor =
  vs_rules :: "(string \<times> ('h, 'r, 'e) VisitorRule) list"
  vs_default :: "('h, 'r, 'e) VisitorRule"

definition RegisterRule :: "string \<Rightarrow> ('h, 'r, 'e) VisitorRule \<Rightarrow> ('h, 'r, 'e) Visitor \<Rightarrow> ('h, 'r, 'e) Visitor" where
  "RegisterRule re fn V = V\<lparr>vs_rules := vs_rules V @ [(re, fn)]\<rparr>"

definition getRuleForContentType :: "('h, 'r, 'e) Visitor \<Rightarrow> string \<Rightarrow> ('h, 'r, 'e) VisitorRule option" where
  "getRuleForContentType V contentType = map_option snd (find (\<lambda>(re, _). Contains contentType re) (vs_rules V))"

fun visit :: "('h, 'd, 'e) mail_lib \<Rightarrow> ('h, 'r, 'e) Visitor \<Rightarrow> 'h part \<Rightarrow> 'e mime_err + 'r" where
  "visit L V (Part i h b cs) =
     (case ContentType L (Part i h b cs) of
        Inl e \<Rightarrow> Inl e
      | Inr (t, _) \<Rightarrow>
          (case getRuleForContentType V t of
             Some fn \<Rightarrow> fn (Part i h b cs) (map (visit L V) cs)
           | None \<Rightarrow> vs_default V (Part i h b cs) (map (visit L V) cs)))"

subsection \<open>The writer\<close>

datatype 'h writer_call = CreateWriter 'h | CreatePart 'h | WriteBody string | CloseWriter

definition transfer_header :: "('h, 'd, 'e) mail_lib \<Rightarrow> 'h part \<Rightarrow> 'h" where
  "transfer_header L p = (if \<not> is7BitClean p then lb_Set L ''Content-Transfer-Encoding'' ''base64'' (p_Header p) else p_Header p)"

text \<open>\<open>call\<close> is what the library's writer does with a call. The header of a part stays changed.\<close>

fun write_part :: "('h, 'd, 'e) mail_lib \<Rightarrow> ('h writer_call \<Rightarrow> 'w \<Rightarrow> 'e option \<times> 'w) \<Rightarrow> 'h part \<Rightarrow> 'w \<Rightarrow> 'e option \<times> 'h part \<times> 'w"
  and writeAsChild :: "('h, 'd, 'e) mail_lib \<Rightarrow> ('h writer_call \<Rightarrow> 'w \<Rightarrow> 'e option \<times> 'w) \<Rightarrow> 'h part \<Rightarrow> 'w \<Rightarrow> 'e option \<times> 'h part \<times> 'w"
  and write_children :: "('h, 'd, 'e) mail_lib \<Rightarrow> ('h writer_call \<Rightarrow> 'w \<Rightarrow> 'e option \<times> 'w) \<Rightarrow> 'h part list \<Rightarrow> 'w \<Rightarrow> 'e option \<times> 'h part list \<times> 'w" where
  "write_part L call (Part i h b cs) w =
     (case write_children L call cs w of
        (Some e, cs1, w1) \<Rightarrow> (Some e, Part i h b cs1, w1)
      | (None, cs1, w1) \<Rightarrow> (case call (WriteBody b) w1 of (e, w2) \<Rightarrow> (e, Part i h b cs1, w2)))"
| "writeAsChild L call (Part i h b cs) w =
     (let h1 = transfer_header L (Part i h b cs) in
      case call (CreatePart h1) w of
        (Some e, w1) \<Rightarrow> (Some e, Part i h1 b cs, w1)
      | (None, w1) \<Rightarrow>
          (case write_children L call cs w1 of
             (Some e, cs1, w2) \<Rightarrow> (Some e, Part i h1 b cs1, w2)
           | (None, cs1, w2) \<Rightarrow>
               (case call (WriteBody b) w2 of
                  (Some e, w3) \<Rightarrow> (Some e, Part i h1 b cs1, w3)
                | (None, w3) \<Rightarrow> (case call CloseWriter w3 of (e, w4) \<Rightarrow> (e, Part i h1 b cs1, w4)))))"
| "write_children L call [] w = (None, [], w)"
| "write_children L call (c # cs) w =
     (case writeAsChild L call c w of
        (Some e, c1, w1) \<Rightarrow> (Some e, c1 # cs, w1)
      | (None, c1, w1) \<Rightarrow> (case write_children L call cs w1 of (e, cs1, w2) \<Rightarrow> (e, c1 # cs1, w2)))"

definition Writer_Write ::
  "('h, 'd, 'e) mail_lib \<Rightarrow> ('h writer_call \<Rightarrow> 'w \<Rightarrow> 'e option \<times> 'w) \<Rightarrow> 'h part \<Rightarrow> 'w \<Rightarrow> 'e option \<times> 'h part \<times> 'w" where
  "Writer_Write L call root w =
     (let root1 = Part (p_id root) (transfer_header L root) (p_Body root) (p_children root) in
      case call (CreateWriter (p_Header root1)) w of
        (Some e, w1) \<Rightarrow> (Some e, root1, w1)
      | (None, w1) \<Rightarrow>
          (case write_part L call root1 w1 of
             (Some e, root2, w2) \<Rightarrow> (Some e, root2, w2)
           | (None, root2, w2) \<Rightarrow> (case call CloseWriter w2 of (e, w3) \<Rightarrow> (e, root2, w3))))"

subsection \<open>The end of a mail\<close>

definition endOfMail :: string where
  "endOfMail = [CHR 0x0D, CHR 0x0A, CHR ''.'', CHR 0x0D, CHR 0x0A]"

text \<open>The trimming reader: its buffer, and what its source still has, which ends regularly or with an error.\<close>

record 'e endOfMailTrimmer =
  tr_buf :: string
  tr_src :: string
  tr_fail :: "'e option"

datatype 'e read_result = Data string | EOF | ReadErr 'e

text \<open>\<open>len\<close> is the size of the caller's slice. \<^verbatim>\<open>io.CopyN\<close> of a number that is not positive copies nothing and reports no error.\<close>

definition Read :: "nat \<Rightarrow> 'e endOfMailTrimmer \<Rightarrow> 'e read_result \<times> 'e endOfMailTrimmer" where
  "Read len r =
     (let n = int len + int (length endOfMail) - int (length (tr_buf r));
          enough = n \<le> int (length (tr_src r));
          buf = tr_buf r @ take (nat n) (tr_src r);
          src = drop (nat n) (tr_src r)
      in if \<not> enough \<and> tr_fail r \<noteq> None then (ReadErr (the (tr_fail r)), r\<lparr>tr_buf := buf, tr_src := src\<rparr>)
         else let buf1 = (if \<not> enough then TrimSuffix buf endOfMail else buf) in
              if buf1 = [] then (if len = 0 then Data [] else EOF, r\<lparr>tr_buf := [], tr_src := src\<rparr>)
              else (Data (take len buf1), r\<lparr>tr_buf := drop len buf1, tr_src := src\<rparr>))"

text \<open>Reading with slices of the given sizes until the end; whether it was reached.\<close>

fun read_all :: "nat list \<Rightarrow> 'e endOfMailTrimmer \<Rightarrow> string \<times> bool" where
  "read_all [] r = ([], False)"
| "read_all (len # lens) r =
     (case Read len r of
        (Data d, r1) \<Rightarrow> (case read_all lens r1 of (out, fin) \<Rightarrow> (d @ out, fin))
      | (EOF, _) \<Rightarrow> ([], True)
      | (ReadErr _, _) \<Rightarrow> ([], False))"

subsection \<open>The tree the parser builds\<close>

text \<open>The reference: the tree of an entity, its nodes numbered in the order of their headers, or the first error.\<close>

fun tree_of :: "nat \<Rightarrow> ('h, 'e) entity \<Rightarrow> 'e + 'h part \<times> nat"
  and trees_of :: "nat \<Rightarrow> ('h, 'e) entity list \<Rightarrow> 'e + 'h part list \<times> nat" where
  "tree_of n (Single h body) = map_sum id (\<lambda>b. (Part n h b [], Suc n)) body"
| "tree_of n (Multi h es end_err) =
     (case trees_of (Suc n) es of
        Inl e \<Rightarrow> Inl e
      | Inr (cs, n1) \<Rightarrow> (case end_err of Some e \<Rightarrow> Inl e | None \<Rightarrow> Inr (Part n h [] cs, n1)))"
| "trees_of n [] = Inr ([], n)"
| "trees_of n (e # es) =
     (case tree_of n e of
        Inl x \<Rightarrow> Inl x
      | Inr (p, n1) \<Rightarrow> (case trees_of n1 es of Inl x \<Rightarrow> Inl x | Inr (ps, n2) \<Rightarrow> Inr (p # ps, n2)))"

definition push :: "'h part \<Rightarrow> 'h Parser \<Rightarrow> 'h Parser" where
  "push p P = (if ps_stack P = [] then P\<lparr>ps_root := Some p\<rparr> else P\<lparr>ps_stack := add_to_top p (ps_stack P)\<rparr>)"

definition push_all :: "'h part list \<Rightarrow> 'h Parser \<Rightarrow> 'h Parser" where
  "push_all ps P =
     (case ps_stack P of [] \<Rightarrow> P | Part i h b cs # rest \<Rightarrow> P\<lparr>ps_stack := Part i h b (cs @ ps) # rest\<rparr>)"

lemma open_part:
  "withHeader h (beginPart h0 P) = P\<lparr>ps_stack := Part (ps_next P) h [] [] # ps_stack P, ps_next := Suc (ps_next P)\<rparr>"
  by (simp add: withHeader_def beginPart_def)

lemma close_part:
  "ps_stack P = Part i h b cs # ps_stack Q \<Longrightarrow> endPart P = push (Part i h b cs) (P\<lparr>ps_stack := ps_stack Q\<rparr>)"
  by (auto simp: endPart_def push_def)

lemma parser_follows_tree:
  fixes e :: "('h, 'e) entity" and es :: "('h, 'e) entity list" and P :: "'h Parser"
  shows "ps_next P = n \<Longrightarrow> case tree_of n e of
     Inl x \<Rightarrow> \<exists>P'. parseEntity h0 e P = (Some x, P')
   | Inr (p, n') \<Rightarrow> parseEntity h0 e P = (None, push p (P\<lparr>ps_next := n'\<rparr>))"
  and "ps_next P = n \<Longrightarrow> ps_stack P \<noteq> [] \<Longrightarrow> case trees_of n es of
     Inl x \<Rightarrow> \<exists>P'. parseMultipart h0 es end_err P = (Some x, P')
   | Inr (ps, n') \<Rightarrow> parseMultipart h0 es end_err P = (end_err, push_all ps (P\<lparr>ps_next := n'\<rparr>))"
proof (induction n e and n es arbitrary: P and P end_err rule: tree_of_trees_of.induct)
  case (1 n h body P)
  then show ?case
    by (cases body) (simp_all add: open_part parsePart_def withBody_def endPart_def push_def)
next
  case (2 n h es end_err P)
  let ?P = "withHeader h (beginPart h0 P)"
  have st: "ps_next ?P = Suc n" "ps_stack ?P \<noteq> []" using 2(2) by (simp_all add: open_part)
  show ?case using 2(1)[OF st, of end_err] 2(2)
    by (cases "trees_of (Suc n) es"; cases end_err)
      (auto simp: open_part push_all_def endPart_def push_def split: if_splits)
next
  case (3 n P)
  then obtain i h b cs rest where "ps_stack P = Part i h b cs # rest" by (metis part.exhaust neq_Nil_conv)
  then show ?case using 3 by (simp add: push_all_def)
next
  case (4 n e es P)
  show ?case
  proof (cases "tree_of n e")
    case (Inl x)
    then show ?thesis using 4(1)[OF 4(3)] by auto
  next
    case (Inr r)
    then obtain p n1 where r: "r = (p, n1)" by (cases r)
    let ?P = "push p (P\<lparr>ps_next := n1\<rparr>)"
    have run: "parseEntity h0 e P = (None, ?P)" using 4(1)[OF 4(3)] Inr r by simp
    obtain i h b cs rest where st: "ps_stack P = Part i h b cs # rest" using 4(4) by (metis part.exhaust neq_Nil_conv)
    have P: "ps_next ?P = n1" "ps_stack ?P \<noteq> []" "ps_stack ?P = Part i h b (cs @ [p]) # rest" using st by (simp_all add: push_def add_to_top_def)
    show ?thesis using 4(2)[OF Inr r[symmetric] P(1,2), of end_err] P(3) run st Inr r
      by (auto simp: push_all_def push_def add_to_top_def split: sum.splits prod.splits)
  qed
qed


lemma tree_ids:
  fixes e :: "('h, 'e) entity" and es :: "('h, 'e) entity list"
  shows "tree_of n e = Inr (p, m) \<Longrightarrow> ids p = [n..<m] \<and> n < m"
    and "trees_of n es = Inr (ps, m) \<Longrightarrow> concat (map ids ps) = [n..<m] \<and> n \<le> m"
proof (induction n e and n es arbitrary: p m and ps m rule: tree_of_trees_of.induct)
  case (1 n h body)
  then show ?case by (cases body) auto
next
  case (2 n h es end_err)
  then show ?case by (cases "trees_of (Suc n) es"; cases end_err) (auto simp: upt_conv_Cons)
next
  case (3 n)
  then show ?case by simp
next
  case (4 n e es)
  then obtain q n1 qs where q: "tree_of n e = Inr (q, n1)" "trees_of n1 es = Inr (qs, m)" "ps = q # qs"
    by (auto split: sum.splits)
  then show ?case using 4(1)[OF q(1)] 4(2)[OF q(1) refl q(2)] upt_add_eq_append[of n n1 "m - n1"] by simp
qed

subsection \<open>Trimming does not depend on the sizes\<close>

lemma trim_short: "length t < length suf \<Longrightarrow> TrimSuffix t suf = t"
  by (simp add: TrimSuffix_def)

lemma trim_drop:
  assumes "k + length suf \<le> length t"
  shows "take k t @ TrimSuffix (drop k t) suf = TrimSuffix t suf"
proof -
  have "length t - k - length suf + k = length t - length suf" using assms by simp
  moreover have "take k t @ take (length t - k - length suf) (drop k t) = take (k + (length t - k - length suf)) t" by (rule take_add[symmetric])
  ultimately show ?thesis using assms by (auto simp: TrimSuffix_def add.commute)
qed

text \<open>What is still to come out, and what one read makes of it.\<close>

lemma Read_step:
  assumes "tr_fail r = None" "0 < len" "Read len r = (res, r')"
  shows "case res of
     Data d \<Rightarrow> d \<noteq> [] \<and> d @ TrimSuffix (tr_buf r' @ tr_src r') endOfMail = TrimSuffix (tr_buf r @ tr_src r) endOfMail
   | EOF \<Rightarrow> TrimSuffix (tr_buf r @ tr_src r) endOfMail = []
   | ReadErr _ \<Rightarrow> False"
    and "tr_fail r' = None"
proof -
  let ?t = "tr_buf r @ tr_src r" and ?m = "length endOfMail"
  let ?n = "int len + int ?m - int (length (tr_buf r))"
  have five: "?m = 5" by (simp add: endOfMail_def)
  show "tr_fail r' = None" using assms by (auto simp: Read_def Let_def split: if_splits)
  show "case res of
     Data d \<Rightarrow> d \<noteq> [] \<and> d @ TrimSuffix (tr_buf r' @ tr_src r') endOfMail = TrimSuffix ?t endOfMail
   | EOF \<Rightarrow> TrimSuffix ?t endOfMail = []
   | ReadErr _ \<Rightarrow> False"
  proof (cases "?n \<le> int (length (tr_src r))")
    case True
    define buf src where "buf = tr_buf r @ take (nat ?n) (tr_src r)" and "src = drop (nat ?n) (tr_src r)"
    have len: "len + ?m \<le> length buf" using True five by (auto simp: buf_def nat_diff_distrib)
    then have "buf \<noteq> []" using five by auto
    then have r: "res = Data (take len buf)" "tr_buf r' = drop len buf" "tr_src r' = src"
      using assms(3) True by (auto simp: Read_def Let_def buf_def src_def split: if_splits)
    have t: "?t = buf @ src" by (simp add: buf_def src_def)
    have "drop len buf @ src = drop len ?t" "take len buf = take len ?t" using len unfolding t by simp_all
    moreover have "len + ?m \<le> length ?t" using len unfolding t by simp
    moreover from this have "take len ?t \<noteq> []" using assms(2) five by (auto simp: take_eq_Nil)
    ultimately show ?thesis using r trim_drop[of len endOfMail ?t] by simp
  next
    case False
    then have short: "length ?t < len + ?m" "take (nat ?n) (tr_src r) = tr_src r" "drop (nat ?n) (tr_src r) = []" by auto
    let ?b = "TrimSuffix ?t endOfMail"
    have r: "?b = [] \<Longrightarrow> res = EOF" "?b \<noteq> [] \<Longrightarrow> res = Data (take len ?b) \<and> tr_buf r' = drop len ?b \<and> tr_src r' = []"
      using assms False short by (auto simp: Read_def Let_def split: if_splits)
    have "length (drop len ?b) < ?m" using short(1) five by (auto simp: TrimSuffix_def)
    then have "take len ?b @ TrimSuffix (drop len ?b) endOfMail = ?b" by (simp add: trim_short)
    then show ?thesis using r assms(2) by (cases "?b = []") auto
  qed
qed

text \<open>
  Whatever the sizes of the slices a client reads with, it gets the message without the end-of-mail mark: once reading ends, all of it was read,
  and with more reads than the message has bytes it does end.
\<close>

theorem trimmer_exact:
  assumes "\<forall>len \<in> set lens. 0 < len" "length mail < length lens"
  shows "read_all lens \<lparr>tr_buf = [], tr_src = mail, tr_fail = None\<rparr> = (TrimSuffix mail endOfMail, True)"
proof -
  have "read_all lens r = (TrimSuffix (tr_buf r @ tr_src r) endOfMail, True)"
    if "\<forall>len \<in> set lens. 0 < len" "length (TrimSuffix (tr_buf r @ tr_src r) endOfMail) < length lens" "tr_fail r = None" for r :: "'a endOfMailTrimmer" and lens
    using that
  proof (induction lens arbitrary: r)
    case (Cons len lens)
    obtain res r' where read: "Read len r = (res, r')" by (cases "Read len r")
    have step: "case res of
        Data d \<Rightarrow> d \<noteq> [] \<and> d @ TrimSuffix (tr_buf r' @ tr_src r') endOfMail = TrimSuffix (tr_buf r @ tr_src r) endOfMail
      | EOF \<Rightarrow> TrimSuffix (tr_buf r @ tr_src r) endOfMail = []
      | ReadErr _ \<Rightarrow> False" "tr_fail r' = None"
      using Read_step[OF Cons.prems(3) _ read] Cons.prems(1) by auto
    show ?case
    proof (cases res)
      case (Data d)
      then have d: "d \<noteq> []" "TrimSuffix (tr_buf r @ tr_src r) endOfMail = d @ TrimSuffix (tr_buf r' @ tr_src r') endOfMail" using step(1) by auto
      then have "length (TrimSuffix (tr_buf r' @ tr_src r') endOfMail) < length lens" using Cons.prems(2) by (cases d) auto
      then show ?thesis using Cons.IH[of r'] Cons.prems(1) step(2) read Data d by simp
    qed (use step(1) read in auto)
  qed simp
  moreover have "length (TrimSuffix mail endOfMail) \<le> length mail" by (simp add: TrimSuffix_def)
  ultimately show ?thesis using assms by simp
qed

theorem trimmer_exact_witness:
  "read_all [1, 3, 2, 1, 1, 5, 1, 1] \<lparr>tr_buf = [], tr_src = ''ab'' @ endOfMail, tr_fail = None :: unit option\<rparr> = (''ab'', True)"
proof -
  have "TrimSuffix (''ab'' @ endOfMail) endOfMail = ''ab''" by (simp add: TrimSuffix_def endOfMail_def)
  then show ?thesis using trimmer_exact[of "[1, 3, 2, 1, 1, 5, 1, 1]" "''ab'' @ endOfMail"] by (simp add: endOfMail_def)
qed

subsection \<open>Walks\<close>

text \<open>All parts of a tree, a part before its children.\<close>

fun parts :: "'h part \<Rightarrow> 'h part list" where
  "parts (Part i h b cs) = Part i h b cs # concat (map parts cs)"

text \<open>What a handler does to the captured variables.\<close>

definition look :: "('h part \<Rightarrow> ('h, 's, 'e) HandlerFunc) \<Rightarrow> 'h part \<Rightarrow> 's \<Rightarrow> 'e mime_err option \<times> 's" where
  "look pick p s = (case pick p p s of (e, _, _, s') \<Rightarrow> (e, s'))"

text \<open>A walker whose handlers change nothing is a loop over the parts that stops at the first error.\<close>

locale reading_walker =
  fixes pick :: "'h part \<Rightarrow> ('h, 's, 'e) HandlerFunc"
  assumes keeps: "pick p p s = (e, h, b, s') \<Longrightarrow> h = p_Header p \<and> b = p_Body p"
begin

lemma walk_parts_loop:
  assumes "\<And>p s. p \<in> set ps \<Longrightarrow> walk pick p s = (case iter_err (look pick) (parts p) s of (e, s') \<Rightarrow> (e, p, s'))"
  shows "walk_parts pick ps s = (case iter_err (look pick) (concat (map parts ps)) s of (e, s') \<Rightarrow> (e, ps, s'))"
  using assms
proof (induction ps arbitrary: s)
  case (Cons p ps)
  obtain e1 s1 where "iter_err (look pick) (parts p) s = (e1, s1)" by fastforce
  then show ?case using Cons by (cases e1) (auto simp: iter_err_append split: prod.splits)
qed simp

lemma walk_is_loop: "walk pick p s = (case iter_err (look pick) (parts p) s of (e, s') \<Rightarrow> (e, p, s'))"
proof (induction p arbitrary: s)
  case (Part i h b cs)
  obtain e h1 b1 s1 where pick: "pick (Part i h b cs) (Part i h b cs) s = (e, h1, b1, s1)" by (metis prod_cases4)
  then have "h1 = h" "b1 = b" using keeps[OF pick] by simp_all
  moreover have "look pick (Part i h b cs) s = (e, s1)" using pick by (simp add: look_def)
  moreover have "walk_parts pick cs s1 = (case iter_err (look pick) (concat (map parts cs)) s1 of (e, s') \<Rightarrow> (e, cs, s'))"
    by (rule walk_parts_loop) (rule Part.IH)
  ultimately show ?case using pick by (cases e) (simp_all split: prod.split)
qed

end

subsection \<open>What is written\<close>

text \<open>The calls that describe a tree: each part is opened with its header, holds its parts and then its body, and is closed.\<close>

fun part_calls :: "('h, 'd, 'e) mail_lib \<Rightarrow> 'h part \<Rightarrow> 'h writer_call list" where
  "part_calls L (Part i h b cs) =
     CreatePart (transfer_header L (Part i h b cs)) # concat (map (part_calls L) cs) @ [WriteBody b, CloseWriter]"

definition message_calls :: "('h, 'd, 'e) mail_lib \<Rightarrow> 'h part \<Rightarrow> 'h writer_call list" where
  "message_calls L root =
     CreateWriter (transfer_header L root) # concat (map (part_calls L) (p_children root)) @ [WriteBody (p_Body root), CloseWriter]"


lemma children_calls:
  assumes "\<And>c w e c' w'. c \<in> set cs \<Longrightarrow> writeAsChild L call c w = (e, c', w') \<Longrightarrow> iter_err call (part_calls L c) w = (e, w')"
    and "write_children L call cs w = (e, cs', w')"
  shows "iter_err call (concat (map (part_calls L) cs)) w = (e, w')"
  using assms
proof (induction cs arbitrary: w cs')
  case (Cons c cs)
  obtain e1 c1 w1 where c: "writeAsChild L call c w = (e1, c1, w1)" by (metis prod_cases3)
  then have "iter_err call (part_calls L c) w = (e1, w1)" using Cons.prems(1) by simp
  then show ?case using Cons c by (cases e1) (auto simp: iter_err_append split: prod.splits)
qed simp

lemma writer_calls: "writeAsChild L call p w = (e, p', w') \<Longrightarrow> iter_err call (part_calls L p) w = (e, w')"
proof (induction p arbitrary: w e p' w')
  case (Part i h b cs)
  have children: "write_children L call cs w = (e, cs', w') \<Longrightarrow> iter_err call (concat (map (part_calls L) cs)) w = (e, w')" for w e cs' w'
    by (rule children_calls) (rule Part.IH)
  show ?case using Part.prems
    by (auto simp: Let_def iter_err_append split: prod.splits option.splits dest!: children)
qed

text \<open>
  Writing a message makes exactly the calls that describe its tree, in order and up to the first one that fails, with base64 for every part whose body the check
  finds not to be 7-bit.
\<close>

theorem writer_describes_tree:
  "(case Writer_Write L call root w of (e, _, w') \<Rightarrow> (e, w')) = iter_err call (message_calls L root) w"
proof -
  have children: "write_children L call cs w = (e, cs', w') \<Longrightarrow> iter_err call (concat (map (part_calls L) cs)) w = (e, w')" for cs w e cs' w'
    by (rule children_calls) (rule writer_calls)
  show ?thesis
    by (cases root) (auto simp: Writer_Write_def message_calls_def Let_def iter_err_append split: prod.splits option.splits dest!: children)
qed

text \<open>The check lets the byte 128 pass as 7-bit.\<close>

theorem byte_128_counts_as_clean: "is7BitClean (Part i h [CHR 0x80] [])" "\<not> is7BitClean (Part i h [CHR 0x81] [])"
  by (simp_all add: is7BitClean_def)

end
