(* ===== verification/Mime_Message.thy ===== *)
theory Mime_Message
  imports Mime_Parser Smtp_Send
begin

section \<open>From parts to a message\<close>

text \<open>
  Models \<^verbatim>\<open>pkg/message/parser.go\<close>: the conversion of encodings, the repair of inline images, the header, the attachments, the two bodies and
  the type of a message that a client hands over.

  The address parser, the HTML-to-text converter and the table of file extensions are part of the environment \<open>msg_lib\<close>. The identifiers that
  \<^verbatim>\<open>uuid.NewString\<close> returns are an argument. A panic is recovered by \<^verbatim>\<open>ParseWithParser\<close> and reported as the error \<open>PanicWhileParsing\<close>.
\<close>

subsection \<open>Environment\<close>

datatype 'e text_err = UnknownCharset | TextErr 'e

text \<open>A header field: its key, its value and the library's decoding of the value.\<close>

record 'e mime_field =
  mfd_Key :: string
  mfd_Value :: string
  mfd_Text :: "'e text_err + string"

record ('h, 'd, 'e) msg_lib =
  mg_lib :: "('h, 'd, 'e) mail_lib"
  mg_Fields :: "'h \<Rightarrow> 'e mime_field list"
  mg_ParseAddressList :: "string \<Rightarrow> mail_address list \<times> 'e option"
  mg_html2text :: "string \<Rightarrow> 'e + string"
  mg_ExtensionsByType :: "string \<Rightarrow> 'e + string list"

datatype 'e parse_err =
    ConvertTransferErr "'e mime_err"
  | ConvertForeignErr "'e mime_err"
  | PatchInlineErr "'e mime_err"
  | SubjectErr "'e mime_err"
  | AddressListErr string 'e
  | CollectAttachmentsErr "'e mime_err"
  | BuildBodiesErr "'e mime_err"
  | BuildMIMEErr 'e
  | MIMETypeErr "'e mime_err"
  | PanicWhileParsing

subsection \<open>Conversions\<close>

definition transfer_handler :: "('h, 'd, 'e) mail_lib \<Rightarrow> ('h, unit, 'e) HandlerFunc" where
  "transfer_handler L p s =
     (let encoding = lb_Get L ''Content-Transfer-Encoding'' (p_Header p) in
      if encoding = [] then (None, p_Header p, p_Body p, s)
      else case ml_DecodeWords (lb_mime L) encoding of
             Inl e \<Rightarrow> (Some (LibErr e), p_Header p, p_Body p, s)
           | Inr dec \<Rightarrow> (None, lb_Set L ''Content-Transfer-Encoding'' dec (p_Header p), p_Body p, s))"

definition convertEncodedTransferEncoding :: "('h, 'd, 'e) mail_lib \<Rightarrow> 'h part \<Rightarrow> 'e mime_err option \<times> 'h part" where
  "convertEncodedTransferEncoding L root =
     (case walkOverPart L (RegisterDefaultHandler (transfer_handler L) newWalker) root () of (e, root1, _) \<Rightarrow> (e, root1))"

definition html_handler :: "('h, 'd, 'e) mail_lib \<Rightarrow> ('h, unit, 'e) HandlerFunc" where
  "html_handler L p s =
     (case ConvertToUTF8 L p of
        (Some e, h, b) \<Rightarrow> (Some e, h, b, s)
      | (None, h, b) \<Rightarrow> (case ConvertMetaCharset L b of Inl e \<Rightarrow> (Some e, h, b, s) | Inr b1 \<Rightarrow> (None, h, b1, s)))"

definition text_handler :: "('h, 'd, 'e) mail_lib \<Rightarrow> ('h, unit, 'e) HandlerFunc" where
  "text_handler L p s =
     (if IsAttachment L p then (None, p_Header p, p_Body p, s)
      else case ConvertToUTF8 L p of (e, h, b) \<Rightarrow> (e, h, b, s))"

definition convertForeignEncodings :: "('h, 'd, 'e) mail_lib \<Rightarrow> 'h part \<Rightarrow> 'e mime_err option \<times> 'h part" where
  "convertForeignEncodings L root =
     (case walkOverPart L
             (RegisterContentTypeHandler ''text/'' (text_handler L) (RegisterContentTypeHandler ''text/html'' (html_handler L) newWalker)) root ()
      of (e, root1, _) \<Rightarrow> (e, root1))"

subsection \<open>Attachments\<close>

definition trim_chars :: "string \<Rightarrow> string \<Rightarrow> string" where
  "trim_chars cutset s = rev (dropWhile (\<lambda>c. c \<in> set cutset) (rev (dropWhile (\<lambda>c. c \<in> set cutset) s)))"

fun forEachDecodedHeaderField :: "'e mime_lib \<Rightarrow> 'e mime_field list \<Rightarrow> 'e mime_err + (string \<times> string) list" where
  "forEachDecodedHeaderField L [] = Inr []"
| "forEachDecodedHeaderField L (f # fs) =
     (let text = (case mfd_Text f of
                    Inr t \<Rightarrow> Inr t
                  | Inl (TextErr e) \<Rightarrow> Inl (LibErr e)
                  | Inl UnknownCharset \<Rightarrow> DecodeHeader L (mfd_Value f))
      in case text of
           Inl e \<Rightarrow> Inl e
         | Inr t \<Rightarrow> map_sum id (Cons (mfd_Key f, t)) (forEachDecodedHeaderField L fs))"

definition toMailHeader :: "('h, 'd, 'e) msg_lib \<Rightarrow> 'h \<Rightarrow> 'e mime_err + (string \<rightharpoonup> string list)" where
  "toMailHeader M h =
     map_sum id (\<lambda>kvs. map_of (map (\<lambda>(k, v). (k, [v])) (rev kvs))) (forEachDecodedHeaderField (lb_mime (mg_lib M)) (mg_Fields M h))"

definition attachment_name :: "('h, 'd, 'e) msg_lib \<Rightarrow> string \<Rightarrow> params \<Rightarrow> 'e mime_err + string \<times> params \<Rightarrow> string" where
  "attachment_name M mimeType mimeTypeParams disp =
     (let name = (case disp of Inl _ \<Rightarrow> [] | Inr (_, dispParams) \<Rightarrow> (case map_of dispParams ''filename'' of Some f \<Rightarrow> f | None \<Rightarrow> [])) in
      if name \<noteq> [] then name
      else case map_of mimeTypeParams ''name'' of
        Some filename \<Rightarrow> filename
      | None \<Rightarrow>
          if mimeType = ''message/rfc822'' then ''message.eml''
          else case mg_ExtensionsByType M mimeType of
                 Inr (ext # _) \<Rightarrow> ''attachment'' @ ext
               | _ \<Rightarrow> ''attachment.bin'')"

definition parseAttachment :: "('h, 'd, 'e) msg_lib \<Rightarrow> 'h \<Rightarrow> string \<Rightarrow> 'e mime_err + Attachment" where
  "parseAttachment M h body =
     (let L = mg_lib M in
      case toMailHeader M h of
        Inl e \<Rightarrow> Inl e
      | Inr mimeHeader \<Rightarrow>
          (case (case ParseMediaType (lb_mime L) (lb_Get L ''Content-Type'' h) of
                   Inl MediaEmpty \<Rightarrow> Inr (''text/plain'', [])
                 | r \<Rightarrow> r) of
             Inl e \<Rightarrow> Inl e
           | Inr (mimeType, mimeTypeParams) \<Rightarrow>
               (let disp = ParseMediaType (lb_mime L) (lb_Get L ''Content-Disposition'' h);
                    att = (\<lambda>contentID. \<lparr>at_Header = mimeHeader, at_Name = attachment_name M mimeType mimeTypeParams disp, at_ContentID = contentID,
                             at_MIMEType = mimeType, at_MIMEParams = map_of mimeTypeParams,
                             at_Disposition = (case disp of Inl _ \<Rightarrow> [] | Inr (d, _) \<Rightarrow> d), at_Data = body\<rparr>);
                    cid = trim_chars '' <>'' (lb_Get L ''Content-Id'' h)
                in if lb_Has L ''Content-Disposition'' h
                   then (case disp of
                           Inl e \<Rightarrow> Inl e
                         | Inr (d, _) \<Rightarrow> Inr (att (if d = ''inline'' then cid else [])))
                   else Inr (att (if lb_Has L ''Content-Id'' h then cid else [])))))"

definition attach_handler :: "('h, 'd, 'e) msg_lib \<Rightarrow> ('h, Attachment list, 'e) HandlerFunc" where
  "attach_handler M p atts =
     (case parseAttachment M (p_Header p) (p_Body p) of
        Inl e \<Rightarrow> (Some e, p_Header p, p_Body p, atts)
      | Inr att \<Rightarrow> (None, p_Header p, p_Body p, atts @ [att]))"

definition skip_handler :: "('h, 's, 'e) HandlerFunc" where
  "skip_handler p s = (None, p_Header p, p_Body p, s)"

definition other_handler :: "('h, 'd, 'e) msg_lib \<Rightarrow> ('h, Attachment list, 'e) HandlerFunc" where
  "other_handler M p atts = (if p_children p \<noteq> [] then skip_handler p atts else attach_handler M p atts)"

definition attachment_walker :: "('h, 'd, 'e) msg_lib \<Rightarrow> ('h, Attachment list, 'e) Walker" where
  "attachment_walker M =
     RegisterDefaultHandler (other_handler M)
       (RegisterContentTypeHandler ''text/'' skip_handler
         (RegisterContentTypeHandler ''text/calendar'' (attach_handler M)
           (RegisterContentDispositionHandler ''attachment'' (attach_handler M) newWalker)))"

definition collectAttachments :: "('h, 'd, 'e) msg_lib \<Rightarrow> 'h part \<Rightarrow> 'e mime_err + Attachment list" where
  "collectAttachments M root =
     (case walkOverPart (mg_lib M) (attachment_walker M) root [] of (Some e, _, _) \<Rightarrow> Inl e | (None, _, atts) \<Rightarrow> Inr atts)"

subsection \<open>Bodies\<close>

fun collectChildParts :: "('e mime_err + 'h part list) list \<Rightarrow> 'e mime_err + 'h part list list" where
  "collectChildParts [] = Inr []"
| "collectChildParts (res # rest) =
     (case res of Inl e \<Rightarrow> Inl e | Inr ps \<Rightarrow> map_sum id (Cons ps) (collectChildParts rest))"

definition joinChildParts :: "'h part list list \<Rightarrow> 'h part list" where
  "joinChildParts childParts = concat childParts"

definition allPartsHaveContentType :: "('h, 'd, 'e) mail_lib \<Rightarrow> 'h part list \<Rightarrow> string \<Rightarrow> bool" where
  "allPartsHaveContentType L ps contentType \<longleftrightarrow>
     ps \<noteq> [] \<and> (\<forall>p \<in> set ps. case ContentType L p of Inl _ \<Rightarrow> False | Inr (t, _) \<Rightarrow> t = contentType)"

definition bestChoice :: "('h, 'd, 'e) mail_lib \<Rightarrow> 'h part list list \<Rightarrow> string \<Rightarrow> 'h part list" where
  "bestChoice L childParts preferredContentType =
     (case find (\<lambda>ps. allPartsHaveContentType L ps preferredContentType) (rev childParts) of
        Some ps \<Rightarrow> ps
      | None \<Rightarrow> if childParts \<noteq> [] then last childParts else [])"

definition body_rule :: "('h, 'd, 'e) mail_lib \<Rightarrow> ('h, 'h part list, 'e) VisitorRule" where
  "body_rule L p _ = Inr (if IsAttachment L p then [] else [p])"

definition body_visitor :: "('h, 'd, 'e) mail_lib \<Rightarrow> string \<Rightarrow> ('h, 'h part list, 'e) Visitor" where
  "body_visitor L preferredContentType =
     RegisterRule ''text/html'' (body_rule L)
       (RegisterRule ''text/plain'' (body_rule L)
         (RegisterRule ''multipart/alternative'' (\<lambda>p rs. map_sum id (\<lambda>cps. bestChoice L cps preferredContentType) (collectChildParts rs))
           \<lparr>vs_rules = [], vs_default = (\<lambda>p rs. map_sum id joinChildParts (collectChildParts rs))\<rparr>))"

definition collectBodyParts :: "('h, 'd, 'e) mail_lib \<Rightarrow> 'h part \<Rightarrow> string \<Rightarrow> 'e mime_err + 'h part list" where
  "collectBodyParts L root preferredContentType = visit L (body_visitor L preferredContentType) root"

definition getPlainBody :: "('h, 'd, 'e) msg_lib \<Rightarrow> 'h part \<Rightarrow> string" where
  "getPlainBody M part =
     (case ContentType (mg_lib M) part of
        Inl _ \<Rightarrow> p_Body part
      | Inr (t, _) \<Rightarrow>
          if t = ''text/html'' then (case mg_html2text M (p_Body part) of Inl _ \<Rightarrow> p_Body part | Inr text \<Rightarrow> text)
          else p_Body part)"

definition buildBodies :: "('h, 'd, 'e) msg_lib \<Rightarrow> 'h part \<Rightarrow> 'e mime_err + string \<times> string" where
  "buildBodies M root =
     (case collectBodyParts (mg_lib M) root ''text/html'' of
        Inl e \<Rightarrow> Inl e
      | Inr richParts \<Rightarrow>
          (case collectBodyParts (mg_lib M) root ''text/plain'' of
             Inl e \<Rightarrow> Inl e
           | Inr plainParts \<Rightarrow> Inr (concat (map p_Body richParts), concat (map (getPlainBody M) plainParts))))"

definition html_seen :: "('h, bool, 'e) HandlerFunc" where
  "html_seen p s = (None, p_Header p, p_Body p, True)"

definition determineBodyMIMEType :: "('h, 'd, 'e) mail_lib \<Rightarrow> 'h part \<Rightarrow> 'e mime_err + string" where
  "determineBodyMIMEType L root =
     (case walkOverPartSkipAttachment L (RegisterContentTypeHandler ''text/html'' html_seen newWalker) root False of
        (Some e, _, _) \<Rightarrow> Inl e
      | (None, _, isHTML) \<Rightarrow> Inr (if isHTML then ''text/html'' else ''text/plain''))"

subsection \<open>The header\<close>

text \<open>
  \<^verbatim>\<open>ReplaceAllString\<close> of the pattern \<^verbatim>\<open><(.*)>\<close> by its group: on every line, the brackets around the longest match are removed.
\<close>

definition strip_line :: "string \<Rightarrow> string" where
  "strip_line l =
     (case dropWhile (\<lambda>c. c \<noteq> CHR ''<'') l of
        [] \<Rightarrow> l
      | _ # inner \<Rightarrow>
          (case dropWhile (\<lambda>c. c \<noteq> CHR ''>'') (rev inner) of
             [] \<Rightarrow> l
           | _ # mid \<Rightarrow> takeWhile (\<lambda>c. c \<noteq> CHR ''<'') l @ rev mid @ rev (takeWhile (\<lambda>c. c \<noteq> CHR ''>'') (rev inner))))"

definition strip_angle :: "string \<Rightarrow> string" where
  "strip_angle s = (case map strip_line (Split s (CHR 0x0A)) of [] \<Rightarrow> [] | l # ls \<Rightarrow> l @ concat (map (\<lambda>x. CHR 0x0A # x) ls))"

definition Fields :: "string \<Rightarrow> string list" where
  "Fields s = filter (\<lambda>w. w \<noteq> []) (Split (map (\<lambda>c. if IsSpace c then CHR '' '' else c) s) (CHR '' ''))"

definition references_of :: "string \<Rightarrow> string list" where
  "references_of v = map (trim_chars ''<>'') (concat (map (\<lambda>ref. Split ref (CHR '','')) (Fields v)))"

definition address_field ::
  "('h, 'd, 'e) msg_lib \<Rightarrow> bool \<Rightarrow> 'e mime_field \<Rightarrow> (mail_address list \<Rightarrow> Message \<Rightarrow> Message) \<Rightarrow> Message \<Rightarrow> 'e parse_err + Message" where
  "address_field M allowInvalid f upd m =
     (case mg_ParseAddressList M (mfd_Value f) of
        (_, Some e) \<Rightarrow> if \<not> allowInvalid then Inl (AddressListErr (ToLower (mfd_Key f)) e) else Inr (upd (fst (mg_ParseAddressList M (mfd_Value f))) m)
      | (l, None) \<Rightarrow> Inr (upd l m))"

definition header_field :: "('h, 'd, 'e) msg_lib \<Rightarrow> bool \<Rightarrow> 'e mime_field \<Rightarrow> Message \<Rightarrow> 'e parse_err + Message" where
  "header_field M allowInvalid f m =
     (let key = ToLower (mfd_Key f) in
      if key = ''subject'' then
        (case mfd_Text f of
           Inr s \<Rightarrow> Inr (m\<lparr>m_Subject := s\<rparr>)
         | Inl _ \<Rightarrow> (case DecodeHeader (lb_mime (mg_lib M)) (mfd_Value f) of Inl e \<Rightarrow> Inl (SubjectErr e) | Inr s \<Rightarrow> Inr (m\<lparr>m_Subject := s\<rparr>)))
      else if key = ''from'' then
        address_field M allowInvalid f (\<lambda>sender m. case sender of [] \<Rightarrow> m | s # _ \<Rightarrow> m\<lparr>m_Sender := Some s\<rparr>) m
      else if key = ''to'' then address_field M allowInvalid f (\<lambda>l m. m\<lparr>m_ToList := l\<rparr>) m
      else if key = ''reply-to'' then address_field M allowInvalid f (\<lambda>l m. m\<lparr>m_ReplyTos := l\<rparr>) m
      else if key = ''cc'' then address_field M allowInvalid f (\<lambda>l m. m\<lparr>m_CCList := l\<rparr>) m
      else if key = ''bcc'' then address_field M allowInvalid f (\<lambda>l m. m\<lparr>m_BCCList := l\<rparr>) m
      else if key = ''message-id'' then Inr (m\<lparr>m_ExternalID := strip_angle (mfd_Value f)\<rparr>)
      else if key = ''in-reply-to'' then Inr (m\<lparr>m_InReplyTo := strip_angle (mfd_Value f)\<rparr>)
      else if key = ''x-forwarded-message-id'' then Inr (m\<lparr>m_XForward := strip_angle (mfd_Value f)\<rparr>)
      else if key = ''references'' then Inr (m\<lparr>m_References := m_References m @ references_of (mfd_Value f)\<rparr>)
      else Inr m)"

definition empty_message :: Message where
  "empty_message =
     \<lparr>m_MIMEBody = [], m_RichBody = [], m_PlainBody = [], m_Attachments = [], m_MIMEType = [], m_Subject = [], m_Sender = None, m_ToList = [],
      m_CCList = [], m_BCCList = [], m_ReplyTos = [], m_References = [], m_ExternalID = [], m_InReplyTo = [], m_XForward = []\<rparr>"

fun header_fields :: "('h, 'd, 'e) msg_lib \<Rightarrow> bool \<Rightarrow> 'e mime_field list \<Rightarrow> Message \<Rightarrow> 'e parse_err + Message" where
  "header_fields M allowInvalid [] m = Inr m"
| "header_fields M allowInvalid (f # fs) m =
     (case header_field M allowInvalid f m of Inl e \<Rightarrow> Inl e | Inr m1 \<Rightarrow> header_fields M allowInvalid fs m1)"

definition parseMessageHeader :: "('h, 'd, 'e) msg_lib \<Rightarrow> bool \<Rightarrow> 'h \<Rightarrow> 'e parse_err + Message" where
  "parseMessageHeader M allowInvalid h = header_fields M allowInvalid (mg_Fields M h) empty_message"

subsection \<open>Inline images\<close>

text \<open>The jobs hold the addresses of the parts they change.\<close>

datatype inlinePatchJob =
    inlinePatchBodyOnly nat params
  | inlinePatchBodyWithInlineImage nat params nat
  | inlinePatchInlineImageOnly nat nat

definition getImageContentDisposition :: "('h, 'd, 'e) mail_lib \<Rightarrow> 'h part \<Rightarrow> 'e mime_err + string" where
  "getImageContentDisposition L p =
     (case ContentDisposition L p of
        Inr (disposition, _) \<Rightarrow> Inr disposition
      | Inl e \<Rightarrow>
          if lb_Get L ''Content-Disposition'' (p_Header p) \<noteq> [] then Inl e
          else if HasContentID L p then Inr ''inline''
          else Inr ''attachment'')"

fun scan_children ::
  "('h, 'd, 'e) mail_lib \<Rightarrow> nat \<Rightarrow> 'h part list \<Rightarrow> nat \<times> string \<times> params \<Rightarrow> inlinePatchJob option list \<Rightarrow> bool \<Rightarrow>
     'e mime_err + inlinePatchJob option list \<times> bool" where
  "scan_children L i [] prev result transformationNeeded = Inr (result, transformationNeeded)"
| "scan_children L i (c # cs) prev result transformationNeeded =
     (case ContentType L c of
        Inl e \<Rightarrow> Inl e
      | Inr (contentType, contentTypeMap) \<Rightarrow>
          (let next = (p_id c, contentType, contentTypeMap) in
           if contentType = ''text/plain''
           then scan_children L (Suc i) cs next (result[i := Some (inlinePatchBodyOnly (p_id c) contentTypeMap)]) transformationNeeded
           else if take 6 contentType = ''image/''
           then (case getImageContentDisposition L c of
                   Inl e \<Rightarrow> Inl e
                 | Inr disposition \<Rightarrow>
                     if disposition = ''inline'' \<and> \<not> HasContentID L c
                     then (case prev of (prevPart, prevContentType, prevContentTypeMap) \<Rightarrow>
                             scan_children L (Suc i) cs next
                               (if prevContentType = ''text/plain''
                                then result[i - 1 := Some (inlinePatchBodyWithInlineImage prevPart prevContentTypeMap (p_id c))]
                                else result[i := Some (inlinePatchInlineImageOnly (p_id c) i)]) True)
                     else scan_children L (Suc i) cs next result transformationNeeded)
           else scan_children L (Suc i) cs next result transformationNeeded))"

text \<open>Changing the part at an address.\<close>

fun modify :: "nat \<Rightarrow> ('h \<Rightarrow> string \<Rightarrow> 'h \<times> string) \<Rightarrow> 'h part \<Rightarrow> 'h part" where
  "modify i f (Part j h b cs) =
     Part j (if i = j then fst (f h b) else h) (if i = j then snd (f h b) else b) (map (modify i f) cs)"

function patchNewLineWithHTMLBreaks :: "string \<Rightarrow> string" where
  "patchNewLineWithHTMLBreaks input =
     (case index_of (CHR 0x0A) input of
        None \<Rightarrow> input
      | Some newLineIndex \<Rightarrow>
          (let injectIndex = (if newLineIndex > 0 \<and> input ! (newLineIndex - 1) = CHR 0x0D then newLineIndex - 1 else newLineIndex)
           in take injectIndex input @ ''<br/>'' @ take (newLineIndex + 1 - injectIndex) (drop injectIndex input) @
              patchNewLineWithHTMLBreaks (drop (newLineIndex + 1) input)))"
  by pat_completeness auto
termination
  by (relation "measure length") (auto dest!: index_of_Some)

declare patchNewLineWithHTMLBreaks.simps [simp del]

definition img_tag :: "string \<Rightarrow> string" where
  "img_tag contentID = ''<img src='' @ [quote_char] @ ''cid:'' @ contentID @ [quote_char] @ ''/>''"

text \<open>Running a job, with the identifier it would draw. \<open>None\<close> is a panic.\<close>

definition Patch :: "('h, 'd, 'e) mail_lib \<Rightarrow> string \<Rightarrow> inlinePatchJob \<Rightarrow> 'h part \<Rightarrow> 'h part option" where
  "Patch L contentID job root =
     (case job of
        inlinePatchBodyOnly i m \<Rightarrow>
          Some (modify i (\<lambda>h b. (lb_SetContentType L ''text/html'' m h,
                    ''<html><body><p>'' @ patchNewLineWithHTMLBreaks b @ ''</p></body></html>'')) root)
      | inlinePatchBodyWithInlineImage i m imagePart \<Rightarrow>
          Some (modify imagePart (\<lambda>h b. (lb_Set L ''content-id'' contentID h, b))
            (modify i (\<lambda>h b. (lb_SetContentType L ''text/html'' m h,
                    ''<html><body><p>'' @ patchNewLineWithHTMLBreaks b @ ''</p>'' @ img_tag contentID @ ''</body></html>'')) root))
      | inlinePatchInlineImageOnly imagePart index \<Rightarrow>
          (let root1 = modify imagePart (\<lambda>h b. (lb_Set L ''content-id'' contentID h, b)) root;
               textPart = Part (fresh_id [root1]) (lb_SetContentType L ''text/html'' [(''charset'', ''UTF-8'')] (lb_empty L))
                            (''<html><body>'' @ img_tag contentID @ ''</body></html>'') []
           in InsertChild L index textPart root1))"

fun run_jobs :: "('h, 'd, 'e) mail_lib \<Rightarrow> (nat \<Rightarrow> string) \<Rightarrow> nat \<Rightarrow> inlinePatchJob option list \<Rightarrow> 'h part \<Rightarrow> 'h part option" where
  "run_jobs L uuid k [] root = Some root"
| "run_jobs L uuid k (None # js) root = run_jobs L uuid k js root"
| "run_jobs L uuid k (Some j # js) root =
     (case Patch L (uuid k) j root of None \<Rightarrow> None | Some root1 \<Rightarrow> run_jobs L uuid (Suc k) js root1)"

definition patchInlineImages :: "('h, 'd, 'e) mail_lib \<Rightarrow> (nat \<Rightarrow> string) \<Rightarrow> 'h part \<Rightarrow> 'e parse_err + 'h part" where
  "patchInlineImages L uuid root =
     (let children = p_children root in
      if length children < 2 then Inr root
      else case scan_children L 0 children (0, [], []) (replicate (length children) None) False of
        Inl e \<Rightarrow> Inl (PatchInlineErr e)
      | Inr (result, transformationNeeded) \<Rightarrow>
          if \<not> transformationNeeded then Inr root
          else (case run_jobs L uuid 0 result root of None \<Rightarrow> Inl PanicWhileParsing | Some root1 \<Rightarrow> Inr root1))"

subsection \<open>Parsing a message\<close>

text \<open>\<open>call\<close> is the library's writer with the text it has written; the MIME body is what it holds in the end.\<close>

definition buildMIMEBody ::
  "('h, 'd, 'e) mail_lib \<Rightarrow> ('h writer_call \<Rightarrow> 'w \<Rightarrow> 'e option \<times> 'w) \<Rightarrow> 'w \<Rightarrow> ('w \<Rightarrow> string) \<Rightarrow> 'h part \<Rightarrow> ('e + string) \<times> 'h part" where
  "buildMIMEBody L call w0 text root =
     (case Writer_Write L call root w0 of
        (Some e, root1, _) \<Rightarrow> (Inl e, root1)
      | (None, root1, w) \<Rightarrow> (Inr (text w), root1))"

definition ParseWithParser ::
  "('h, 'd, 'e) msg_lib \<Rightarrow> ('h writer_call \<Rightarrow> 'w \<Rightarrow> 'e option \<times> 'w) \<Rightarrow> 'w \<Rightarrow> ('w \<Rightarrow> string) \<Rightarrow> (nat \<Rightarrow> string) \<Rightarrow> bool \<Rightarrow> 'h part \<Rightarrow>
     'e parse_err + Message" where
  "ParseWithParser M call w0 text uuid allowInvalid root =
     (let L = mg_lib M in
      case convertEncodedTransferEncoding L root of
        (Some e, _) \<Rightarrow> Inl (ConvertTransferErr e)
      | (None, root1) \<Rightarrow>
      (case convertForeignEncodings L root1 of
        (Some e, _) \<Rightarrow> Inl (ConvertForeignErr e)
      | (None, root2) \<Rightarrow>
      (case patchInlineImages L uuid root2 of
        Inl e \<Rightarrow> Inl e
      | Inr root3 \<Rightarrow>
      (case parseMessageHeader M allowInvalid (p_Header root3) of
        Inl e \<Rightarrow> Inl e
      | Inr m \<Rightarrow>
      (case collectAttachments M root3 of
        Inl e \<Rightarrow> Inl (CollectAttachmentsErr e)
      | Inr atts \<Rightarrow>
      (case buildBodies M root3 of
        Inl e \<Rightarrow> Inl (BuildBodiesErr e)
      | Inr (richBody, plainBody) \<Rightarrow>
      (case buildMIMEBody L call w0 text root3 of
        (Inl e, _) \<Rightarrow> Inl (BuildMIMEErr e)
      | (Inr mimeBody, root4) \<Rightarrow>
      (case determineBodyMIMEType L root4 of
        Inl e \<Rightarrow> Inl (MIMETypeErr e)
      | Inr mimeType \<Rightarrow>
          Inr (m\<lparr>m_Attachments := atts, m_RichBody := richBody, m_PlainBody := plainBody, m_MIMEBody := mimeBody, m_MIMEType := mimeType\<rparr>)))))))))"

subsection \<open>Line breaks\<close>

text \<open>The reference: a tag before every line end, which is a line feed with a carriage return before it or without.\<close>

fun breaks :: "string \<Rightarrow> string" where
  "breaks [] = []"
| "breaks [c] = (if c = CHR 0x0A then ''<br/>'' @ [c] else [c])"
| "breaks (c # d # s) =
     (if c = CHR 0x0A then ''<br/>'' @ c # breaks (d # s)
      else if c = CHR 0x0D \<and> d = CHR 0x0A then ''<br/>'' @ c # d # breaks s
      else c # breaks (d # s))"

lemma breaks_no_line_end: "CHR 0x0A \<notin> set s \<Longrightarrow> breaks s = s"
  by (induction s rule: breaks.induct) auto

lemma breaks_line_end: "breaks (CHR 0x0A # s) = ''<br/>'' @ CHR 0x0A # breaks s"
  by (cases s) simp_all

lemma breaks_crlf: "breaks (CHR 0x0D # CHR 0x0A # s) = ''<br/>'' @ CHR 0x0D # CHR 0x0A # breaks s"
  by simp

lemma breaks_prefix:
  assumes "CHR 0x0A \<notin> set xs" "xs = [] \<or> last xs \<noteq> CHR 0x0D \<or> ys = [] \<or> hd ys \<noteq> CHR 0x0A"
  shows "breaks (xs @ ys) = xs @ breaks ys"
  using assms
proof (induction xs)
  case (Cons x xs)
  then have x: "x \<noteq> CHR 0x0A" and IH: "breaks (xs @ ys) = xs @ breaks ys" by (auto split: if_splits)
  show ?case
  proof (cases "xs @ ys")
    case Nil
    then show ?thesis using x by simp
  next
    case (Cons d rest)
    have "\<not> (x = CHR 0x0D \<and> d = CHR 0x0A)" using Cons.prems local.Cons by (cases xs) auto
    then show ?thesis using x IH Cons by simp
  qed
qed simp

text \<open>
  The loop that cuts the text at its line ends puts a tag before every one of them and keeps everything else.
\<close>

theorem line_breaks_marked: "patchNewLineWithHTMLBreaks s = breaks s"
proof (induction s rule: patchNewLineWithHTMLBreaks.induct)
  case (1 s)
  show ?case
  proof (cases "index_of (CHR 0x0A) s")
    case None
    then have "CHR 0x0A \<notin> set s" by simp
    then show ?thesis using None breaks_no_line_end[of s] by (simp add: patchNewLineWithHTMLBreaks.simps[of s] del: index_of_None)
  next
    case (Some n)
    have n: "n < length s" "s ! n = CHR 0x0A" using index_of_Some[OF Some] by auto
    have pre: "CHR 0x0A \<notin> set (take n s)" using Some
    proof (induction s arbitrary: n)
      case (Cons c s)
      then show ?case by (cases n) (auto split: if_splits)
    qed simp
    have s: "s = take n s @ CHR 0x0A # drop (Suc n) s" using n id_take_nth_drop[of n s] by simp
    have IH: "patchNewLineWithHTMLBreaks (drop (Suc n) s) = breaks (drop (Suc n) s)" using 1[OF Some refl] by simp
    show ?thesis
    proof (cases "n > 0 \<and> s ! (n - 1) = CHR 0x0D")
      case True
      define k where "k = n - 1"
      then have k: "n = Suc k" "s ! k = CHR 0x0D" using True by simp_all
      have cut: "s = take k s @ CHR 0x0D # CHR 0x0A # drop (Suc n) s"
        using s k n(1) by (metis Suc_lessD append.assoc append_Cons append_Nil take_Suc_conv_app_nth)
      have "take 2 (drop k s) = [CHR 0x0D, CHR 0x0A]" using k n Cons_nth_drop_Suc[of k s] Cons_nth_drop_Suc[of n s] by (metis One_nat_def Suc_1 Suc_lessD take_0 take_Suc_Cons)
      then have "patchNewLineWithHTMLBreaks s = take k s @ ''<br/>'' @ [CHR 0x0D, CHR 0x0A] @ breaks (drop (Suc n) s)"
        using Some True k IH by (simp add: patchNewLineWithHTMLBreaks.simps[of s] numeral_2_eq_2)
      also have "\<dots> = take k s @ breaks (CHR 0x0D # CHR 0x0A # drop (Suc n) s)" by simp
      also have "\<dots> = breaks s"
      proof -
        have "CHR 0x0A \<notin> set (take k s)" using pre set_take_subset_set_take[of k n s] k by auto
        then show ?thesis using breaks_prefix[of "take k s" "CHR 0x0D # CHR 0x0A # drop (Suc n) s"] cut by auto
      qed
      finally show ?thesis .
    next
      case False
      then have last: "take n s = [] \<or> last (take n s) \<noteq> CHR 0x0D" using n(1) by (cases "n = 0") (auto simp: last_conv_nth min_def)
      have "take 1 (drop n s) = [CHR 0x0A]" using n Cons_nth_drop_Suc[of n s] by (metis One_nat_def take_0 take_Suc_Cons)
      then have "patchNewLineWithHTMLBreaks s = take n s @ ''<br/>'' @ [CHR 0x0A] @ breaks (drop (Suc n) s)"
        using Some IH by (subst patchNewLineWithHTMLBreaks.simps) (simp only: if_not_P[OF False] Let_def option.case, simp)
      also have "\<dots> = take n s @ breaks (CHR 0x0A # drop (Suc n) s)" by (simp add: breaks_line_end)
      also have "\<dots> = breaks s" using breaks_prefix[of "take n s" "CHR 0x0A # drop (Suc n) s"] pre last s by auto
      finally show ?thesis .
    qed
  qed
qed

subsection \<open>Attachments are the remaining parts\<close>

definition type_of :: "('h, 'd, 'e) mail_lib \<Rightarrow> 'h part \<Rightarrow> string" where
  "type_of L p = (case ContentType L p of Inl _ \<Rightarrow> [] | Inr (t, _) \<Rightarrow> t)"

definition disp_of :: "('h, 'd, 'e) mail_lib \<Rightarrow> 'h part \<Rightarrow> string" where
  "disp_of L p = (case ContentDisposition L p of Inl _ \<Rightarrow> [] | Inr (d, _) \<Rightarrow> d)"

text \<open>Which parts become attachments: those said to be, calendars, and leaves that are not text.\<close>

definition attached :: "('h, 'd, 'e) mail_lib \<Rightarrow> 'h part \<Rightarrow> bool" where
  "attached L p \<longleftrightarrow>
     Contains (disp_of L p) ''attachment'' \<or> Contains (type_of L p) ''text/calendar'' \<or>
     (\<not> Contains (type_of L p) ''text/'' \<and> p_children p = [])"

fun all_or_first :: "('e + 'a) list \<Rightarrow> 'e + 'a list" where
  "all_or_first [] = Inr []"
| "all_or_first (r # rs) = (case r of Inl e \<Rightarrow> Inl e | Inr x \<Rightarrow> map_sum id (Cons x) (all_or_first rs))"

lemmas walker_defs = RegisterDefaultHandler_def RegisterContentTypeHandler_def RegisterContentDispositionHandler_def newWalker_def
  getHandlerFunc_def getHandlerFuncSkipAttachment_def matchPart_def matchPartSkipAttachment_def matchType_def matchDisp_def

lemma attachment_pick:
  "getHandlerFunc (mg_lib M) (attachment_walker M) p =
     (if Contains (disp_of (mg_lib M) p) ''attachment'' \<or> Contains (type_of (mg_lib M) p) ''text/calendar'' then attach_handler M
      else if Contains (type_of (mg_lib M) p) ''text/'' then skip_handler else other_handler M)"
  by (simp add: attachment_walker_def walker_defs type_of_def disp_of_def)

interpretation att: reading_walker "getHandlerFunc (mg_lib M) (attachment_walker M)" for M
  by unfold_locales
    (auto simp: attachment_pick attach_handler_def skip_handler_def other_handler_def split: if_splits sum.splits)

lemma att_look:
  "look (getHandlerFunc (mg_lib M) (attachment_walker M)) p atts =
     (if attached (mg_lib M) p
      then (case parseAttachment M (p_Header p) (p_Body p) of Inl e \<Rightarrow> (Some e, atts) | Inr a \<Rightarrow> (None, atts @ [a]))
      else (None, atts))"
  by (simp add: look_def attachment_pick attached_def attach_handler_def skip_handler_def other_handler_def split: sum.splits)

lemma att_loop:
  "case all_or_first (map (\<lambda>p. parseAttachment M (p_Header p) (p_Body p)) (filter (attached (mg_lib M)) ps)) of
     Inr new \<Rightarrow> iter_err (look (getHandlerFunc (mg_lib M) (attachment_walker M))) ps atts = (None, atts @ new)
   | Inl e \<Rightarrow> fst (iter_err (look (getHandlerFunc (mg_lib M) (attachment_walker M))) ps atts) = Some e"
proof (induction ps arbitrary: atts)
  case (Cons p ps)
  show ?case
  proof (cases "attached (mg_lib M) p")
    case True
    show ?thesis
    proof (cases "parseAttachment M (p_Header p) (p_Body p)")
      case (Inr a)
      then show ?thesis using True Cons.IH[of "atts @ [a]"] by (auto simp: att_look[of M p] split: sum.splits)
    qed (use True in \<open>simp add: att_look[of M p]\<close>)
  qed (use Cons.IH[of atts] in \<open>auto simp: att_look[of M p] split: sum.splits\<close>)
qed simp

text \<open>
  Property C38. The attachments of a message are, in the order of its parts, exactly the parts that say so, the calendars, and the leaves that are not
  text; the first that cannot be read is reported.
\<close>

theorem attachments_exact:
  "collectAttachments M root =
     all_or_first (map (\<lambda>p. parseAttachment M (p_Header p) (p_Body p)) (filter (attached (mg_lib M)) (parts root)))"
  using att_loop[of M "parts root" "[]"]
  by (auto simp: collectAttachments_def walkOverPart_def att.walk_is_loop split: sum.splits prod.splits)

subsection \<open>Bodies\<close>

lemma body_rules:
  "getRuleForContentType (body_visitor L ct) t =
     (if Contains t ''multipart/alternative'' then Some (\<lambda>p rs. map_sum id (\<lambda>cps. bestChoice L cps ct) (collectChildParts rs))
      else if Contains t ''text/plain'' \<or> Contains t ''text/html'' then Some (body_rule L) else None)"
  by (simp add: getRuleForContentType_def body_visitor_def RegisterRule_def)

lemma visit_body:
  "visit L (body_visitor L ct) (Part i h b cs) =
     (case ContentType L (Part i h b cs) of
        Inl e \<Rightarrow> Inl e
      | Inr (t, _) \<Rightarrow>
          if Contains t ''multipart/alternative''
          then map_sum id (\<lambda>cps. bestChoice L cps ct) (collectChildParts (map (visit L (body_visitor L ct)) cs))
          else if Contains t ''text/plain'' \<or> Contains t ''text/html'' then body_rule L (Part i h b cs) []
          else map_sum id concat (collectChildParts (map (visit L (body_visitor L ct)) cs)))"
  by (auto simp: body_rules body_rule_def body_visitor_def[THEN arg_cong[where f = vs_default]] RegisterRule_def joinChildParts_def
      split: sum.splits intro!: arg_cong[where f = "\<lambda>f. map_sum id f x" for x])

lemma collectChildParts_Inr:
  "collectChildParts rs = Inr pss \<longleftrightarrow> rs = map Inr pss"
proof (induction rs arbitrary: pss)
  case (Cons r rs)
  show ?case
  proof (cases "collectChildParts rs")
    case (Inl e)
    then have "rs \<noteq> map Inr qs" for qs using Cons.IH[of qs] by auto
    then show ?thesis using Inl by (cases r; cases pss) auto
  next
    case (Inr qs)
    then show ?thesis using Cons.IH[of qs] by (cases r; cases pss) (auto simp: inj_map_eq_map)
  qed
qed auto

lemma bestChoice_in: "set (bestChoice L pss ct) \<subseteq> set (concat pss)"
  by (auto simp: bestChoice_def dest!: find_SomeD split: option.splits if_splits)
    (use last_in_set in blast)

text \<open>A body part is a text part of the message that is not an attachment.\<close>

lemma body_parts_are_texts:
  "visit L (body_visitor L ct) root = Inr bs \<Longrightarrow> p \<in> set bs \<Longrightarrow>
     p \<in> set (parts root) \<and> \<not> IsAttachment L p \<and> (Contains (type_of L p) ''text/plain'' \<or> Contains (type_of L p) ''text/html'')"
proof (induction root arbitrary: bs p)
  case (Part i h b cs)
  let ?root = "Part i h b cs"
  obtain t ps where t: "ContentType L ?root = Inr (t, ps)" using Part.prems(1) by (auto split: sum.splits)
  have deeper: "p \<in> set (parts ?root) \<and> \<not> IsAttachment L p \<and> (Contains (type_of L p) ''text/plain'' \<or> Contains (type_of L p) ''text/html'')"
    if cps: "collectChildParts (map (visit L (body_visitor L ct)) cs) = Inr pss" and p: "p \<in> set (concat pss)" for pss
  proof -
    have "map (visit L (body_visitor L ct)) cs = map Inr pss" using cps by (simp add: collectChildParts_Inr)
    moreover obtain qs where "qs \<in> set pss" "p \<in> set qs" using p by auto
    ultimately have "Inr qs \<in> visit L (body_visitor L ct) ` set cs" by (metis imageI list.set_map)
    then obtain c where "c \<in> set cs" "visit L (body_visitor L ct) c = Inr qs" "p \<in> set qs" using \<open>p \<in> set qs\<close> by auto
    then show ?thesis using Part.IH[of c qs p] by auto
  qed
  consider pss where "collectChildParts (map (visit L (body_visitor L ct)) cs) = Inr pss" "set bs \<subseteq> set (concat pss)"
    | "Contains t ''text/plain'' \<or> Contains t ''text/html''" "body_rule L ?root [] = Inr bs"
  proof (cases "Contains t ''multipart/alternative''")
    case True
    then obtain pss where "collectChildParts (map (visit L (body_visitor L ct)) cs) = Inr pss" "bs = bestChoice L pss ct"
      using Part.prems(1) t by (cases "collectChildParts (map (visit L (body_visitor L ct)) cs)") (auto simp: visit_body simp del: visit.simps)
    then show ?thesis using that(1)[of pss] bestChoice_in[of L pss ct] by simp
  next
    case False
    then show ?thesis using Part.prems(1) t that
      by (cases "collectChildParts (map (visit L (body_visitor L ct)) cs)") (auto simp: visit_body simp del: visit.simps split: if_splits)
  qed
  then show ?case
  proof cases
    case 1
    then show ?thesis using deeper[OF 1(1)] Part.prems(2) by blast
  next
    case 2
    then show ?thesis using Part.prems(2) t by (auto simp: body_rule_def type_of_def split: if_splits)
  qed
qed

lemma html_pick:
  "getHandlerFuncSkipAttachment L (RegisterContentTypeHandler ''text/html'' html_seen newWalker) p =
     (if \<not> IsAttachment L p \<and> Contains (type_of L p) ''text/html'' then html_seen else (\<lambda>p s. (None, p_Header p, p_Body p, s)))"
  by (simp add: walker_defs type_of_def)

interpretation html: reading_walker "getHandlerFuncSkipAttachment L (RegisterContentTypeHandler ''text/html'' html_seen newWalker)" for L
  by unfold_locales (auto simp: html_pick html_seen_def split: if_splits)

lemma html_loop:
  "iter_err (look (getHandlerFuncSkipAttachment L (RegisterContentTypeHandler ''text/html'' html_seen newWalker))) ps s =
     (None, s \<or> (\<exists>p \<in> set ps. \<not> IsAttachment L p \<and> Contains (type_of L p) ''text/html''))"
proof (induction ps arbitrary: s)
  case (Cons p ps)
  have "look (getHandlerFuncSkipAttachment L (RegisterContentTypeHandler ''text/html'' html_seen newWalker)) p s =
      (None, s \<or> (\<not> IsAttachment L p \<and> Contains (type_of L p) ''text/html''))"
    by (simp add: look_def html_pick html_seen_def)
  then show ?case using Cons.IH by auto
qed simp

lemma determineBodyMIMEType_exact:
  "determineBodyMIMEType L root =
     Inr (if \<exists>p \<in> set (parts root). \<not> IsAttachment L p \<and> Contains (type_of L p) ''text/html'' then ''text/html'' else ''text/plain'')"
  by (simp add: determineBodyMIMEType_def walkOverPartSkipAttachment_def html.walk_is_loop html_loop)

text \<open>
  The type of a message agrees with its bodies: a message is never without a type, and when it is plain text, no part of either body is HTML, so
  that its plain body is made of the texts as they are.
\<close>

theorem plain_message_has_no_html:
  assumes "determineBodyMIMEType (mg_lib M) root = Inr t" "buildBodies M root = Inr (rich, plain)" "t \<noteq> ''text/html''"
  shows "t = ''text/plain'' \<and>
    (\<exists>bs. collectBodyParts (mg_lib M) root ''text/plain'' = Inr bs \<and> plain = concat (map p_Body bs) \<and>
      (\<forall>p \<in> set bs. p \<in> set (parts root) \<and> \<not> IsAttachment (mg_lib M) p \<and> \<not> Contains (type_of (mg_lib M) p) ''text/html''))"
proof -
  let ?L = "mg_lib M"
  have no: "\<not> (\<exists>p \<in> set (parts root). \<not> IsAttachment ?L p \<and> Contains (type_of ?L p) ''text/html'')" and t: "t = ''text/plain''"
    using assms(1,3) by (auto simp: determineBodyMIMEType_exact split: if_splits)
  obtain bs where bs: "collectBodyParts ?L root ''text/plain'' = Inr bs" "plain = concat (map (getPlainBody M) bs)"
    using assms(2) by (auto simp: buildBodies_def split: sum.splits)
  have parts: "p \<in> set (parts root) \<and> \<not> IsAttachment ?L p \<and> \<not> Contains (type_of ?L p) ''text/html''" if "p \<in> set bs" for p
    using body_parts_are_texts[of ?L "''text/plain''" root bs p] bs(1) that no by (auto simp: collectBodyParts_def)
  have "getPlainBody M p = p_Body p" if "p \<in> set bs" for p
  proof (cases "ContentType ?L p")
    case (Inr r)
    have "Contains ''text/html'' ''text/html''" by simp
    then show ?thesis using Inr parts[OF that] by (auto simp: getPlainBody_def type_of_def split: prod.splits)
  qed (simp add: getPlainBody_def)
  then have "plain = concat (map p_Body bs)" using bs(2) by (simp cong: map_cong)
  then show ?thesis using bs(1) parts t by blast
qed

text \<open>A message whose text parts are plain, HTML or calendars, and which offers no alternatives.\<close>

definition simple_part :: "('h, 'd, 'e) mail_lib \<Rightarrow> 'h part \<Rightarrow> bool" where
  "simple_part L p \<longleftrightarrow>
     (case ContentType L p of
        Inl _ \<Rightarrow> False
      | Inr (t, _) \<Rightarrow>
          \<not> Contains t ''multipart/alternative'' \<and>
          (Contains t ''text/'' \<longrightarrow> Contains t ''text/plain'' \<or> Contains t ''text/html'' \<or> Contains t ''text/calendar'') \<and>
          (Contains t ''text/plain'' \<or> Contains t ''text/html'' \<longrightarrow> p_children p = []))"

lemma simple_bodies:
  assumes "\<forall>p \<in> set (parts root). simple_part L p"
  shows "visit L (body_visitor L ct) root =
    Inr (filter (\<lambda>p. (Contains (type_of L p) ''text/plain'' \<or> Contains (type_of L p) ''text/html'') \<and> \<not> IsAttachment L p) (parts root))"
  using assms
proof (induction root)
  case (Part i h b cs)
  let ?root = "Part i h b cs" and ?body = "\<lambda>p. (Contains (type_of L p) ''text/plain'' \<or> Contains (type_of L p) ''text/html'') \<and> \<not> IsAttachment L p"
  have root: "simple_part L ?root" using Part.prems by simp
  then obtain t ps where t: "ContentType L ?root = Inr (t, ps)" by (auto simp: simple_part_def split: sum.splits)
  have "visit L (body_visitor L ct) c = Inr (filter ?body (parts c))" if "c \<in> set cs" for c
    using Part.IH[OF that] Part.prems that by auto
  then have "map (visit L (body_visitor L ct)) cs = map Inr (map (\<lambda>c. filter ?body (parts c)) cs)" by simp
  then have cs: "collectChildParts (map (visit L (body_visitor L ct)) cs) = Inr (map (\<lambda>c. filter ?body (parts c)) cs)"
    by (simp only: collectChildParts_Inr)
  show ?case using root t cs
    by (auto simp: visit_body body_rule_def simple_part_def type_of_def filter_concat comp_def simp del: visit.simps)
qed

lemma Contains_refl: "Contains s s"
  by (cases s) simp_all

text \<open>
  Property C36. No content is lost: if the texts of a message are plain, HTML or calendars and it offers no alternatives, then every part without parts of
  its own is in the attachments or in both bodies.
\<close>

theorem every_part_kept:
  assumes "\<forall>p \<in> set (parts root). simple_part (mg_lib M) p" "collectAttachments M root = Inr atts"
    and "p \<in> set (parts root)" "p_children p = []"
  shows "(\<exists>att \<in> set atts. parseAttachment M (p_Header p) (p_Body p) = Inr att) \<or>
    (\<exists>bs. collectBodyParts (mg_lib M) root ''text/html'' = Inr bs \<and> collectBodyParts (mg_lib M) root ''text/plain'' = Inr bs \<and> p \<in> set bs)"
proof (cases "attached (mg_lib M) p")
  case True
  have "all_or_first rs = Inr xs \<Longrightarrow> r \<in> set rs \<Longrightarrow> \<exists>x \<in> set xs. r = Inr x" for rs :: "('c mime_err + Attachment) list" and r xs
  proof (induction rs arbitrary: xs)
    case (Cons q rs)
    then show ?case by (cases "all_or_first rs") (auto split: sum.splits)
  qed simp
  then show ?thesis using assms(2,3) True unfolding attachments_exact by force
next
  case False
  have "simple_part (mg_lib M) p" using assms(1,3) by blast
  then have "Contains (type_of (mg_lib M) p) ''text/plain'' \<or> Contains (type_of (mg_lib M) p) ''text/html''" "\<not> IsAttachment (mg_lib M) p"
    using False assms(4) Contains_refl[of "''attachment''"]
    by (auto simp: attached_def simple_part_def type_of_def disp_of_def IsAttachment_def Let_def split: sum.splits)
  then show ?thesis using simple_bodies[OF assms(1)] assms(3) by (simp add: collectBodyParts_def)
qed

text \<open>Any other text that is not marked as an attachment is in neither, even if it is the whole message.\<close>

theorem other_text_dropped:
  assumes "ContentType (mg_lib M) p = Inr (t, ps)" "Contains t ''text/''" "p_children p = []" "disp_of (mg_lib M) p = []"
    and "\<not> Contains t ''text/plain''" "\<not> Contains t ''text/html''" "\<not> Contains t ''text/calendar''" "\<not> Contains t ''multipart/alternative''"
  shows "collectAttachments M p = Inr [] \<and> buildBodies M p = Inr ([], [])"
  using assms by (cases p) (simp add: attachments_exact attached_def type_of_def buildBodies_def collectBodyParts_def visit_body del: visit.simps)

text \<open>
  A message with the alternatives HTML and calendar has no plain body: the last alternative is taken although it adds nothing, so that recipients who get
  plain text get an empty message.
\<close>

theorem calendar_alternative_empties_plain_body:
  assumes "ContentType L (Part i h b [c1, c2]) = Inr (''multipart/alternative'', ps)"
    and "ContentType L c1 = Inr (''text/html'', ps1)" "ContentType L c2 = Inr (''text/calendar'', ps2)" "p_children c1 = []" "p_children c2 = []" "\<not> IsAttachment L c1"
  shows "collectBodyParts L (Part i h b [c1, c2]) ''text/plain'' = Inr [] \<and> collectBodyParts L (Part i h b [c1, c2]) ''text/html'' = Inr [c1]"
proof -
  have "visit L (body_visitor L ct) c1 = Inr [c1]" "visit L (body_visitor L ct) c2 = Inr []" for ct
    using assms by (cases c1; cases c2; simp add: visit_body body_rule_def del: visit.simps)+
  then show ?thesis using assms
    by (simp add: collectBodyParts_def visit_body bestChoice_def allPartsHaveContentType_def del: visit.simps)
qed

subsection \<open>Inline images are shown\<close>

text \<open>What is used of the library's header: a field that was set is found, and so is a content type.\<close>

definition header_ok :: "('h, 'd, 'e) mail_lib \<Rightarrow> bool" where
  "header_ok L \<longleftrightarrow>
     (\<forall>k v h. lb_Get L k (lb_Set L k v h) = v) \<and>
     (\<forall>m h. \<exists>m'. lb_ContentType L (lb_SetContentType L ''text/html'' m h) = Inr (''text/html'', m'))"

definition plain_text :: "('h, 'd, 'e) mail_lib \<Rightarrow> 'h part \<Rightarrow> bool" where
  "plain_text L c = (case ContentType L c of Inl _ \<Rightarrow> False | Inr (t, _) \<Rightarrow> t = ''text/plain'')"

definition bare_image :: "('h, 'd, 'e) mail_lib \<Rightarrow> 'h part \<Rightarrow> bool" where
  "bare_image L c \<longleftrightarrow>
     (case ContentType L c of Inl _ \<Rightarrow> False | Inr (t, _) \<Rightarrow> take 6 t = ''image/'') \<and>
     getImageContentDisposition L c = Inr ''inline'' \<and> \<not> HasContentID L c"

definition type_params :: "('h, 'd, 'e) mail_lib \<Rightarrow> 'h part \<Rightarrow> params" where
  "type_params L c = (case ContentType L c of Inl _ \<Rightarrow> [] | Inr (_, m) \<Rightarrow> m)"

text \<open>The jobs, given by looking one part ahead.\<close>

fun jobs_of :: "('h, 'd, 'e) mail_lib \<Rightarrow> nat \<Rightarrow> bool \<Rightarrow> 'h part list \<Rightarrow> inlinePatchJob option list" where
  "jobs_of L i after_text [] = []"
| "jobs_of L i after_text (c # cs) =
     (if plain_text L c
      then Some (if cs \<noteq> [] \<and> bare_image L (hd cs) then inlinePatchBodyWithInlineImage (p_id c) (type_params L c) (p_id (hd cs))
                 else inlinePatchBodyOnly (p_id c) (type_params L c))
      else if bare_image L c \<and> \<not> after_text then Some (inlinePatchInlineImageOnly (p_id c) i)
      else None) # jobs_of L (Suc i) (plain_text L c) cs"

lemma plain_not_image: "plain_text L c \<Longrightarrow> \<not> bare_image L c"
  by (auto simp: plain_text_def bare_image_def split: sum.splits)

lemma scan_gives_jobs:
  assumes "scan_children L i cs (pid, pt, pm) (pre @ replicate (length cs) None) needed = Inr (result, needed')"
    and "length pre = i" "pt = ''text/plain'' \<Longrightarrow> pre \<noteq> [] \<and> last pre = Some (inlinePatchBodyOnly pid pm)"
  shows "result = (if pt = ''text/plain'' \<and> cs \<noteq> [] \<and> bare_image L (hd cs)
             then butlast pre @ [Some (inlinePatchBodyWithInlineImage pid pm (p_id (hd cs)))] else pre) @ jobs_of L i (pt = ''text/plain'') cs"
  using assms
proof (induction cs arbitrary: i pid pt pm pre needed)
  case (Cons c cs)
  obtain t m where t: "ContentType L c = Inr (t, m)" using Cons.prems(1) by (auto split: sum.splits)
  let ?list = "pre @ None # replicate (length cs) None"
  have upd: "?list[i := x] = (pre @ [x]) @ replicate (length cs) None" for x using Cons.prems(2) by (simp add: list_update_append)
  show ?case
  proof (cases "t = ''text/plain''")
    case True
    then have c: "plain_text L c" "type_params L c = m" using t by (simp_all add: plain_text_def type_params_def)
    have "scan_children L (Suc i) cs (p_id c, t, m) ((pre @ [Some (inlinePatchBodyOnly (p_id c) m)]) @ replicate (length cs) None) needed = Inr (result, needed')"
      using Cons.prems(1) t True upd by simp
    from Cons.IH[OF this] show ?thesis using True c plain_not_image[of L c] Cons.prems(2) by (auto simp: butlast_append)
  next
    case False
    then have c: "\<not> plain_text L c" using t by (simp add: plain_text_def)
    show ?thesis
    proof (cases "bare_image L c")
      case True
      then have img: "take 6 t = ''image/''" "getImageContentDisposition L c = Inr ''inline''" "\<not> HasContentID L c"
        using t by (auto simp: bare_image_def)
      show ?thesis
      proof (cases "pt = ''text/plain''")
        case pt: True
        then have pre: "pre \<noteq> []" using Cons.prems(3) by simp
        let ?job = "Some (inlinePatchBodyWithInlineImage pid pm (p_id c))"
        have "?list[i - 1 := ?job] = ((butlast pre @ [?job]) @ [None]) @ replicate (length cs) None"
          using pre Cons.prems(2) by (cases pre rule: rev_cases) (auto simp: list_update_append)
        then have "scan_children L (Suc i) cs (p_id c, t, m) (((butlast pre @ [?job]) @ [None]) @ replicate (length cs) None) True = Inr (result, needed')"
          using Cons.prems(1) t False img pt by simp
        moreover have "length ((butlast pre @ [?job]) @ [None]) = Suc i" using pre Cons.prems(2) by (cases pre rule: rev_cases) auto
        moreover have "Suc (i - Suc 0) = i" using pre Cons.prems(2) by (cases pre) auto
        ultimately show ?thesis using Cons.IH[of "Suc i" "p_id c" t m "(butlast pre @ [?job]) @ [None]" True] True c False pt pre by simp
      next
        case pt: False
        have "scan_children L (Suc i) cs (p_id c, t, m) ((pre @ [Some (inlinePatchInlineImageOnly (p_id c) i)]) @ replicate (length cs) None) True = Inr (result, needed')"
          using Cons.prems(1) t False img pt upd by simp
        from Cons.IH[OF this] show ?thesis using True c False pt Cons.prems(2) by simp
      qed
    next
      case noimg: False
      have "scan_children L (Suc i) cs (p_id c, t, m) ((pre @ [None]) @ replicate (length cs) None) needed = Inr (result, needed')"
        using Cons.prems(1) t False noimg by (auto simp: bare_image_def Let_def split: if_splits sum.splits)
      from Cons.IH[OF this] show ?thesis using noimg c False Cons.prems(2) by simp
    qed
  qed
qed simp

fun targets :: "inlinePatchJob option \<Rightarrow> nat list" where
  "targets None = []"
| "targets (Some (inlinePatchBodyOnly i m)) = [i]"
| "targets (Some (inlinePatchBodyWithInlineImage i m j)) = [i, j]"
| "targets (Some (inlinePatchInlineImageOnly j n)) = [j]"

lemma jobs_targets:
  assumes "distinct (map p_id cs)"
  shows "distinct (concat (map targets (jobs_of L i b cs)))" (is ?D)
    and "set (concat (map targets (jobs_of L i b cs))) \<subseteq>
       p_id ` set (if b \<and> cs \<noteq> [] \<and> bare_image L (hd cs) then tl cs else cs)" (is ?S)
proof -
  have "?D \<and> ?S" using assms
  proof (induction cs arbitrary: i b)
    case (Cons c cs)
    define J where "J = concat (map targets (jobs_of L (Suc i) (plain_text L c) cs))"
    have IH: "distinct J" "set J \<subseteq> p_id ` set (if plain_text L c \<and> cs \<noteq> [] \<and> bare_image L (hd cs) then tl cs else cs)"
      using Cons.IH[of "Suc i" "plain_text L c"] Cons.prems unfolding J_def by auto
    have all: "set J \<subseteq> p_id ` set cs" using IH(2) by (cases cs) (auto split: if_splits)
    then have c: "p_id c \<notin> set J" using Cons.prems by auto
    have J: "concat (map targets (jobs_of L i b (c # cs))) = targets (hd (jobs_of L i b (c # cs))) @ J" by (simp add: J_def)
    show ?case
    proof (cases "plain_text L c \<and> cs \<noteq> [] \<and> bare_image L (hd cs)")
      case True
      then obtain d ds where cs: "cs = d # ds" by (cases cs) auto
      have "set J \<subseteq> p_id ` set (tl cs)" using IH(2) True by simp
      moreover have "p_id d \<notin> p_id ` set (tl cs)" "p_id c \<noteq> p_id d" using Cons.prems cs by auto
      ultimately have "p_id d \<notin> set J" by blast
      then show ?thesis unfolding J using True IH(1) all c cs \<open>p_id c \<noteq> p_id d\<close> plain_not_image[of L c] by auto
    next
      case False
      then show ?thesis unfolding J using IH(1) all c plain_not_image[of L c] by auto
    qed
  qed simp
  then show ?D ?S by blast+
qed

lemma jobs_cover_images:
  assumes "c \<in> set cs" "bare_image L c" "\<not> (b \<and> cs \<noteq> [] \<and> hd cs = c)"
  shows "\<exists>j \<in> set (jobs_of L i b cs). (\<exists>t m. j = Some (inlinePatchBodyWithInlineImage t m (p_id c))) \<or> (\<exists>n. j = Some (inlinePatchInlineImageOnly (p_id c) n))"
  using assms
proof (induction cs arbitrary: i b)
  case (Cons d ds)
  show ?case
  proof (cases "c = d")
    case True
    then show ?thesis using Cons.prems plain_not_image[of L c] by auto
  next
    case False
    then have c: "c \<in> set ds" using Cons.prems by simp
    show ?thesis
    proof (cases "plain_text L d \<and> hd ds = c")
      case True
      then show ?thesis using c Cons.prems(2) by (cases ds) auto
    next
      case False
      then show ?thesis using Cons.IH[OF c Cons.prems(2), of "plain_text L d" "Suc i"] by auto
    qed
  qed
qed simp

lemma jobs_index: "Some (inlinePatchInlineImageOnly j n) \<in> set (jobs_of L i b cs) \<Longrightarrow> n < i + length cs"
proof (induction cs arbitrary: i b)
  case (Cons c cs)
  then show ?case using Cons.IH[of "Suc i" "plain_text L c"] by (auto split: if_splits)
qed simp

text \<open>The image at an address has a content ID, and an HTML part beside it shows the image with that ID. Addresses in \<open>S\<close> are still to be changed.\<close>

definition shown :: "('h, 'd, 'e) mail_lib \<Rightarrow> 'h part \<Rightarrow> nat \<Rightarrow> nat set \<Rightarrow> bool" where
  "shown L root img S \<longleftrightarrow>
     (\<exists>c \<in> set (p_children root). \<exists>tp \<in> set (p_children root). \<exists>m pre post.
        p_id c = img \<and> img \<notin> S \<and> p_id tp \<notin> S \<and> ContentType L tp = Inr (''text/html'', m) \<and>
        p_Body tp = pre @ img_tag (lb_Get L ''content-id'' (p_Header c)) @ post)"

lemma modify_fields:
  "p_id (modify i f c) = p_id c"
  "p_id c \<noteq> i \<Longrightarrow> p_Header (modify i f c) = p_Header c \<and> p_Body (modify i f c) = p_Body c"
  "p_id c = i \<Longrightarrow> p_Header (modify i f c) = fst (f (p_Header c) (p_Body c)) \<and> p_Body (modify i f c) = snd (f (p_Header c) (p_Body c))"
  "p_children (modify i f c) = map (modify i f) (p_children c)"
  by (cases c, simp)+

lemma ContentType_cong: "p_Header p = p_Header q \<Longrightarrow> ContentType L p = ContentType L q"
  by (simp only: ContentType_def)

lemma shown_modify:
  assumes "shown L root img S" "i \<in> S"
  shows "shown L (modify i f root) img S"
proof -
  obtain c tp m pre post where *: "c \<in> set (p_children root)" "tp \<in> set (p_children root)" "p_id c = img" "img \<notin> S" "p_id tp \<notin> S"
    "ContentType L tp = Inr (''text/html'', m)" "p_Body tp = pre @ img_tag (lb_Get L ''content-id'' (p_Header c)) @ post"
    using assms(1) by (auto simp: shown_def)
  have "p_id c \<noteq> i" "p_id tp \<noteq> i" using * assms(2) by auto
  then have "p_Header (modify i f c) = p_Header c" "p_Header (modify i f tp) = p_Header tp" "p_Body (modify i f tp) = p_Body tp"
    using modify_fields(2) by metis+
  then show ?thesis using * ContentType_cong[of "modify i f tp" tp L] unfolding shown_def modify_fields(4)
    by (intro bexI[of _ "modify i f c"] bexI[of _ "modify i f tp"]) (auto simp: modify_fields(1))
qed

lemma shown_mono: "shown L root img S \<Longrightarrow> T \<subseteq> S \<Longrightarrow> set (p_children root) \<subseteq> set (p_children root') \<Longrightarrow> shown L root' img T"
  unfolding shown_def by blast

lemma set_insert_at: "set (take n xs @ x # drop n xs) = insert x (set xs)"
proof -
  have "set xs = set (take n xs) \<union> set (drop n xs)" by (metis append_take_drop_id set_append)
  then show ?thesis by simp
qed

lemma fold_max_start: "a \<le> fold max xs (a :: nat)"
proof (induction xs arbitrary: a)
  case (Cons x xs)
  have "a \<le> max x a" by simp
  also have "\<dots> \<le> fold max xs (max x a)" by (rule Cons.IH)
  finally show ?case by simp
qed simp

lemma fold_max_elem: "i \<in> set xs \<Longrightarrow> i \<le> fold max xs (a :: nat)"
proof (induction xs arbitrary: a)
  case (Cons x xs)
  then show ?case using fold_max_start[of "max x a" xs] by auto
qed simp

lemma fresh_id_new: "i \<in> set (ids p) \<Longrightarrow> i < fresh_id [p]"
  using fold_max_elem[of i "ids p" 0] by (simp add: fresh_id_def)

lemma html_type:
  assumes "header_ok L" "p_Header p = lb_SetContentType L ''text/html'' m h"
  shows "\<exists>m'. ContentType L p = Inr (''text/html'', m')"
proof -
  obtain m' where "lb_ContentType L (lb_SetContentType L ''text/html'' m h) = Inr (''text/html'', m')" using assms(1) unfolding header_ok_def by blast
  then show ?thesis using assms(2) by (simp add: ContentType_def)
qed

lemma child_id_in: "c \<in> set (p_children p) \<Longrightarrow> p_id c \<in> set (ids p)"
  by (cases p; cases c) force

text \<open>One job: it does not panic, keeps what is there, and shows its image.\<close>

lemma Patch_step:
  assumes L: "header_ok L" and root: "isMultipartMixedOrRelated L root"
    and tg: "set (targets (Some j)) \<subseteq> p_id ` set (p_children root)" "distinct (targets (Some j))" "p_id root \<notin> set (targets (Some j))"
    and idx: "\<And>i n. j = inlinePatchInlineImageOnly i n \<Longrightarrow> n \<le> length (p_children root)"
    and S: "S \<subseteq> p_id ` set (p_children root)" "S \<inter> set (targets (Some j)) = {}"
  shows "\<exists>root'. Patch L u j root = Some root' \<and> isMultipartMixedOrRelated L root' \<and> p_id root' = p_id root \<and>
     length (p_children root) \<le> length (p_children root') \<and> p_id ` set (p_children root) \<subseteq> p_id ` set (p_children root') \<and>
     (\<forall>img. shown L root img (S \<union> set (targets (Some j))) \<longrightarrow> shown L root' img S) \<and>
     (\<forall>img. (\<exists>t m. j = inlinePatchBodyWithInlineImage t m img) \<or> (\<exists>n. j = inlinePatchInlineImageOnly img n) \<longrightarrow> shown L root' img S)"
proof -
  have kids: "p_id ` set (p_children (modify i f r)) = p_id ` set (p_children r)" "length (p_children (modify i f r)) = length (p_children r)" for i f r
    by (auto simp: modify_fields image_image)
  have mixed: "isMultipartMixedOrRelated L (modify i f r) = isMultipartMixedOrRelated L r" if "p_id r \<noteq> i" for i f r
    using ContentType_cong[of "modify i f r" r L] modify_fields(2)[OF that, of f] by (simp add: isMultipartMixedOrRelated_def)
  show ?thesis
  proof (cases j)
    case (inlinePatchBodyOnly i m)
    let ?r = "modify i (\<lambda>h b. (lb_SetContentType L ''text/html'' m h, ''<html><body><p>'' @ patchNewLineWithHTMLBreaks b @ ''</p></body></html>'')) root"
    have "shown L ?r img S" if "shown L root img (insert i S)" for img
      using shown_mono[OF shown_modify[OF that, of i] _ order_refl] by auto
    then show ?thesis using inlinePatchBodyOnly root tg(3) mixed[of root i] by (auto simp: Patch_def kids modify_fields(1))
  next
    case (inlinePatchBodyWithInlineImage i m img)
    let ?f = "\<lambda>h b. (lb_SetContentType L ''text/html'' m h, ''<html><body><p>'' @ patchNewLineWithHTMLBreaks b @ ''</p>'' @ img_tag u @ ''</body></html>'')"
    let ?g = "\<lambda>h b. (lb_Set L ''content-id'' u h, b)"
    let ?r = "modify img ?g (modify i ?f root)"
    have ids: "i \<noteq> img" "i \<notin> S" "img \<notin> S" using tg(2) S(2) inlinePatchBodyWithInlineImage by auto
    obtain c t where c: "c \<in> set (p_children root)" "p_id c = img" "t \<in> set (p_children root)" "p_id t = i"
      using tg(1) inlinePatchBodyWithInlineImage by auto
    let ?c = "modify img ?g (modify i ?f c)" and ?t = "modify img ?g (modify i ?f t)"
    have in': "?c \<in> set (p_children ?r)" "?t \<in> set (p_children ?r)" using c by (auto simp: modify_fields(4))
    have hc: "lb_Get L ''content-id'' (p_Header ?c) = u"
      using L c(2) modify_fields(3)[of "modify i ?f c" img ?g] by (simp add: modify_fields(1) header_ok_def)
    have ht: "p_Header ?t = lb_SetContentType L ''text/html'' m (p_Header t)"
      "p_Body ?t = ''<html><body><p>'' @ patchNewLineWithHTMLBreaks (p_Body t) @ ''</p>'' @ img_tag u @ ''</body></html>''"
      using ids(1) c(4) modify_fields(2)[of "modify i ?f t" img ?g] modify_fields(3)[of t i ?f] by (simp_all add: modify_fields(1))
    then obtain m' where "ContentType L ?t = Inr (''text/html'', m')" using html_type[OF L ht(1)] by blast
    moreover have "\<exists>pre post. p_Body ?t = pre @ img_tag u @ post"
      unfolding ht(2) by (rule exI[of _ "''<html><body><p>'' @ patchNewLineWithHTMLBreaks (p_Body t) @ ''</p>''"]) auto
    ultimately have new: "shown L ?r img S" using in' hc c ids unfolding shown_def
      by (intro bexI[of _ ?c] bexI[of _ ?t]) (auto simp: modify_fields(1))
    have "shown L ?r img' S" if "shown L root img' (S \<union> {i, img})" for img'
      using shown_mono[OF shown_modify[OF shown_modify[OF that, of i ?f], of img ?g] _ order_refl, of S] by auto
    then show ?thesis using inlinePatchBodyWithInlineImage new root tg(3) mixed[of root i] mixed[of "modify i ?f root" img]
      by (auto simp: Patch_def kids modify_fields(1))
  next
    case (inlinePatchInlineImageOnly img n)
    let ?g = "\<lambda>h b. (lb_Set L ''content-id'' u h, b)"
    let ?r1 = "modify img ?g root"
    let ?t = "Part (fresh_id [?r1]) (lb_SetContentType L ''text/html'' [(''charset'', ''UTF-8'')] (lb_empty L)) (''<html><body>'' @ img_tag u @ ''</body></html>'') []"
    have m1: "isMultipartMixedOrRelated L ?r1" using root tg(3) mixed[of root img] inlinePatchInlineImageOnly by simp
    have n: "n \<le> length (p_children ?r1)" using idx inlinePatchInlineImageOnly by (simp add: kids)
    let ?r = "Part (p_id ?r1) (p_Header ?r1) (p_Body ?r1) (take n (p_children ?r1) @ ?t # drop n (p_children ?r1))"
    have P: "Patch L u j root = Some ?r" using inlinePatchInlineImageOnly m1 n by (simp add: Patch_def InsertChild_def Let_def)
    have set: "set (p_children ?r) = insert ?t (set (p_children ?r1))" by (simp only: part.sel set_insert_at)
    have fresh: "fresh_id [?r1] \<notin> S"
    proof
      assume "fresh_id [?r1] \<in> S"
      then have "fresh_id [?r1] \<in> p_id ` set (p_children ?r1)" using S(1) by (auto simp: kids)
      then show False using child_id_in[of _ ?r1] fresh_id_new[of _ ?r1] by fastforce
    qed
    have img: "img \<notin> S" using S(2) inlinePatchInlineImageOnly by auto
    obtain c where c: "c \<in> set (p_children root)" "p_id c = img" using tg(1) inlinePatchInlineImageOnly by auto
    let ?c = "modify img ?g c"
    have in': "?c \<in> set (p_children ?r)" "?t \<in> set (p_children ?r)" unfolding set using c by (auto simp: modify_fields(4))
    have hc: "lb_Get L ''content-id'' (p_Header ?c) = u" using L c(2) modify_fields(3)[of c img ?g] by (simp add: header_ok_def)
    obtain m' where "ContentType L ?t = Inr (''text/html'', m')"
      using html_type[OF L, of ?t "[(''charset'', ''UTF-8'')]" "lb_empty L"] by auto
    moreover have "\<exists>pre post. p_Body ?t = pre @ img_tag u @ post" by (rule exI[of _ "''<html><body>''"]) simp
    ultimately have new: "shown L ?r img S" using in' hc c img fresh unfolding shown_def
      by (intro bexI[of _ ?c] bexI[of _ ?t]) (auto simp: modify_fields(1))
    have old: "shown L ?r img' S" if "shown L root img' (insert img S)" for img'
      using shown_mono[OF shown_modify[OF that, of img ?g], of S ?r] set by auto
    have "isMultipartMixedOrRelated L ?r" using m1 ContentType_cong[of ?r ?r1 L] by (simp add: isMultipartMixedOrRelated_def)
    moreover have "length (p_children root) \<le> length (p_children ?r)" by (simp add: modify_fields(4))
    moreover have "p_id ` set (p_children root) \<subseteq> p_id ` set (p_children ?r)" unfolding set using kids(1)[of img ?g root] by auto
    ultimately show ?thesis using P new old inlinePatchInlineImageOnly by (auto simp: modify_fields(1))
  qed
qed

lemma run_jobs_shows:
  assumes L: "header_ok L" and root: "isMultipartMixedOrRelated L root"
    and tg: "set (concat (map targets js)) \<subseteq> p_id ` set (p_children root)" "distinct (concat (map targets js))" "p_id root \<notin> set (concat (map targets js))"
    and idx: "\<And>i n. Some (inlinePatchInlineImageOnly i n) \<in> set js \<Longrightarrow> n \<le> length (p_children root)"
  shows "\<exists>root'. run_jobs L uuid k js root = Some root' \<and>
     (\<forall>img. shown L root img (set (concat (map targets js))) \<longrightarrow> shown L root' img {}) \<and>
     (\<forall>img. (\<exists>t m. Some (inlinePatchBodyWithInlineImage t m img) \<in> set js) \<or> (\<exists>n. Some (inlinePatchInlineImageOnly img n) \<in> set js) \<longrightarrow>
        shown L root' img {})"
  using root tg idx
proof (induction js arbitrary: root k)
  case (Cons jo js)
  show ?case
  proof (cases jo)
    case None
    then show ?thesis using Cons.IH[of root k] Cons.prems by simp
  next
    case (Some j)
    let ?S = "set (concat (map targets js))"
    have tj: "set (targets (Some j)) \<subseteq> p_id ` set (p_children root)" "distinct (targets (Some j))" "p_id root \<notin> set (targets (Some j))"
      "?S \<subseteq> p_id ` set (p_children root)" "?S \<inter> set (targets (Some j)) = {}"
      using Cons.prems(2,3,4) Some by auto
    have jdx: "\<And>i n. j = inlinePatchInlineImageOnly i n \<Longrightarrow> n \<le> length (p_children root)"
      using Cons.prems(5)[unfolded Some] by auto
    obtain r where r: "Patch L (uuid k) j root = Some r" "isMultipartMixedOrRelated L r" "p_id r = p_id root"
      "length (p_children root) \<le> length (p_children r)" "p_id ` set (p_children root) \<subseteq> p_id ` set (p_children r)"
      "\<forall>img. shown L root img (?S \<union> set (targets (Some j))) \<longrightarrow> shown L r img ?S"
      "\<forall>img. (\<exists>t m. j = inlinePatchBodyWithInlineImage t m img) \<or> (\<exists>n. j = inlinePatchInlineImageOnly img n) \<longrightarrow> shown L r img ?S"
      using Patch_step[OF L Cons.prems(1) tj(1,2,3) _ tj(4,5), where u = "uuid k"] jdx by blast
    have "?S \<subseteq> p_id ` set (p_children r)" using tj(4) r(5) by (rule order_trans)
    moreover have "distinct (concat (map targets js))" "p_id r \<notin> ?S" using Cons.prems(3,4) r(3) by auto
    moreover have "n \<le> length (p_children r)" if "Some (inlinePatchInlineImageOnly i n) \<in> set js" for i n
      using Cons.prems(5)[of i n] that r(4) by simp
    ultimately obtain root' where root': "run_jobs L uuid (Suc k) js r = Some root'"
      "\<And>img. shown L r img ?S \<Longrightarrow> shown L root' img {}"
      "\<And>img. (\<exists>t m. Some (inlinePatchBodyWithInlineImage t m img) \<in> set js) \<or> (\<exists>n. Some (inlinePatchInlineImageOnly img n) \<in> set js) \<Longrightarrow> shown L root' img {}"
      using Cons.IH[OF r(2), of "Suc k"] by blast
    have S: "set (concat (map targets (jo # js))) = ?S \<union> set (targets (Some j))" using Some by auto
    show ?thesis
    proof (intro exI[of _ root'] conjI allI impI)
      show "run_jobs L uuid k (jo # js) root = Some root'" using Some r(1) root'(1) by simp
      show "shown L root' img {}" if "shown L root img (set (concat (map targets (jo # js))))" for img
        using that r(6) root'(2) unfolding S by blast
      show "shown L root' img {}"
        if "(\<exists>t m. Some (inlinePatchBodyWithInlineImage t m img) \<in> set (jo # js)) \<or> (\<exists>n. Some (inlinePatchInlineImageOnly img n) \<in> set (jo # js))" for img
      proof -
        have "((\<exists>t m. j = inlinePatchBodyWithInlineImage t m img) \<or> (\<exists>n. j = inlinePatchInlineImageOnly img n)) \<or>
          ((\<exists>t m. Some (inlinePatchBodyWithInlineImage t m img) \<in> set js) \<or> (\<exists>n. Some (inlinePatchInlineImageOnly img n) \<in> set js))"
          using that Some by auto
        then show ?thesis using r(7) root'(2,3)[of img] by blast
      qed
    qed
  qed
qed simp

lemma needed_if_image:
  assumes "scan_children L i cs prev result needed = Inr (result', needed')" "c \<in> set cs" "bare_image L c"
  shows "needed'"
proof -
  have mono: "scan_children L i cs prev result True = Inr (result', needed') \<Longrightarrow> needed'" for i cs prev result
    by (induction cs arbitrary: i prev result) (auto simp: Let_def split: sum.splits if_splits prod.splits)
  show ?thesis using assms
  proof (induction cs arbitrary: i prev result needed)
    case (Cons d ds)
    obtain t m where t: "ContentType L d = Inr (t, m)" using Cons.prems(1) by (auto split: sum.splits)
    show ?case
    proof (cases "c = d")
      case True
      then have "take 6 t = ''image/''" "t \<noteq> ''text/plain''" "getImageContentDisposition L d = Inr ''inline''" "\<not> HasContentID L d"
        using Cons.prems(3) t by (auto simp: bare_image_def)
      then show ?thesis using Cons.prems(1) t mono by (cases prev) (simp, meson)
    next
      case False
      then have "c \<in> set ds" using Cons.prems(2) by simp
      then show ?thesis using Cons.IH Cons.prems t by (auto simp: Let_def split: sum.splits if_splits prod.splits)
    qed
  qed simp
qed


subsection \<open>Examples\<close>

definition demo_mime :: "unit mime_lib" where
  "demo_mime = \<lparr>ml_DecodeWords = Inr, ml_Utf8Valid = (\<lambda>_. True), ml_ParseMediaType = (\<lambda>v. Inr (v, [])), ml_SelectDecoder = (\<lambda>_. Inr Inr),
     ml_DetermineEncoding = (\<lambda>_ _. Inr), ml_DecodeCharset = (\<lambda>s _. Inr s), ml_range = id\<rparr>"

definition demo_lib :: "(params, unit, unit) mail_lib" where
  "demo_lib = \<lparr>lb_mime = demo_mime, lb_empty = [], lb_Get = (\<lambda>k h. case map_of h k of None \<Rightarrow> [] | Some v \<Rightarrow> v), lb_Has = (\<lambda>k h. map_of h k \<noteq> None),
     lb_Set = AList.update, lb_Del = AList.delete, lb_ContentType = (\<lambda>h. case map_of h ''Content-Type'' of None \<Rightarrow> Inr (''text/plain'', []) | Some t \<Rightarrow> Inr (t, [])),
     lb_SetContentType = (\<lambda>t _. AList.update ''Content-Type'' t), lb_FormatMediaType = (\<lambda>t _. t), lb_QEncode = id, lb_parseHTML = (\<lambda>_. Inr ()),
     lb_metas = (\<lambda>_. []), lb_setMetas = (\<lambda>_ d. d), lb_renderHTML = (\<lambda>_. Inr [])\<rparr>"

definition demo_msg :: "(params, unit, unit) msg_lib" where
  "demo_msg = \<lparr>mg_lib = demo_lib, mg_Fields = (\<lambda>_. []), mg_ParseAddressList = (\<lambda>_. ([], None)), mg_html2text = Inr, mg_ExtensionsByType = (\<lambda>_. Inr [])\<rparr>"

lemma demo_header_ok: "header_ok demo_lib"
  by (simp add: header_ok_def demo_lib_def update_conv')

lemma no_params_kept:
  assumes "CHR '';'' \<notin> set v"
  shows "changeEncodingAndKeepLastParamDefinition decode order v = Some v"
proof -
  have tw: "takeWhile (\<lambda>c. c \<noteq> CHR '';'') v = v" using assms by (auto simp: takeWhile_eq_all_conv)
  show ?thesis unfolding changeEncodingAndKeepLastParamDefinition_def Let_def tw by (simp add: param_loop.simps[of "[]"])
qed

lemma demo_media_type: "v \<noteq> [] \<Longrightarrow> CHR '';'' \<notin> set v \<Longrightarrow> ParseMediaType demo_mime v = Inr (v, [])"
  by (simp add: ParseMediaType_def DecodeHeader_def no_params_kept) (simp add: demo_mime_def no_params_kept)

definition demo_part :: "nat \<Rightarrow> string \<Rightarrow> string \<Rightarrow> string \<Rightarrow> params part" where
  "demo_part i t d b = Part i [(''Content-Type'', t), (''Content-Disposition'', d)] b []"

definition demo_mail :: "string \<Rightarrow> params part list \<Rightarrow> params part" where
  "demo_mail t cs = Part 0 [(''Content-Type'', t)] [] cs"

lemma demo_part_fields:
  "ContentType demo_lib (demo_part i t d b) = Inr (t, [])" "ContentType demo_lib (demo_mail t cs) = Inr (t, [])"
  "d \<noteq> [] \<Longrightarrow> CHR '';'' \<notin> set d \<Longrightarrow> ContentDisposition demo_lib (demo_part i t d b) = Inr (d, [])"
  "\<not> HasContentID demo_lib (demo_part i t d b)" "p_id (demo_part i t d b) = i" "p_children (demo_part i t d b) = []" "p_children (demo_mail t cs) = cs"
  using demo_media_type[of d]
  by (simp_all add: ContentType_def ContentDisposition_def HasContentID_def demo_part_def demo_mail_def demo_lib_def)


lemma demo_simple: "simple_part demo_lib (demo_part i ''text/plain'' d b)" "simple_part demo_lib (demo_part i ''image/png'' d b)"
  "simple_part demo_lib (demo_mail ''multipart/mixed'' cs)"
  by (simp_all add: simple_part_def demo_part_fields)

lemma demo_parts: "parts (demo_mail t [demo_part i t1 d1 b1, demo_part j t2 d2 b2]) = [demo_mail t [demo_part i t1 d1 b1, demo_part j t2 d2 b2], demo_part i t1 d1 b1, demo_part j t2 d2 b2]"
  by (simp add: demo_mail_def demo_part_def)

lemma demo_attachment:
  "t \<noteq> [] \<Longrightarrow> CHR '';'' \<notin> set t \<Longrightarrow> d \<noteq> [] \<Longrightarrow> CHR '';'' \<notin> set d \<Longrightarrow>
     \<exists>a. parseAttachment demo_msg [(''Content-Type'', t), (''Content-Disposition'', d)] b = Inr a \<and> at_MIMEType a = t \<and> at_Data a = b"
  using demo_media_type[of t] demo_media_type[of d]
  by (simp add: parseAttachment_def toMailHeader_def demo_msg_def demo_lib_def Let_def)

theorem every_part_kept_witness:
  "\<exists>atts. collectAttachments demo_msg (demo_mail ''multipart/mixed'' [demo_part 2 ''text/plain'' ''inline'' ''hello'', demo_part 3 ''image/png'' ''attachment'' ''png'']) = Inr atts \<and>
     (\<exists>att \<in> set atts. parseAttachment demo_msg [(''Content-Type'', ''image/png''), (''Content-Disposition'', ''attachment'')] ''png'' = Inr att)"
proof -
  let ?p = "demo_part 3 ''image/png'' ''attachment'' ''png''" and ?q = "demo_part 2 ''text/plain'' ''inline'' ''hello''"
  let ?root = "demo_mail ''multipart/mixed'' [?q, ?p]"
  have L: "mg_lib demo_msg = demo_lib" by (simp add: demo_msg_def)
  obtain a where a: "parseAttachment demo_msg (p_Header ?p) (p_Body ?p) = Inr a"
    using demo_attachment[of "''image/png''" "''attachment''" "''png''"] by (auto simp: demo_part_def)
  have disp: "disp_of demo_lib ?p = ''attachment''" "disp_of demo_lib ?q = ''inline''" "disp_of demo_lib ?root = []"
    by (simp_all add: disp_of_def demo_part_fields) (simp add: ContentDisposition_def demo_mail_def demo_lib_def ParseMediaType_def)
  have atts: "collectAttachments demo_msg ?root = Inr [a]"
    unfolding attachments_exact L demo_parts by (simp add: attached_def disp type_of_def demo_part_fields a)
  have body: "p \<in> set bs \<Longrightarrow> collectBodyParts demo_lib ?root ct = Inr bs \<Longrightarrow> \<not> IsAttachment demo_lib p" for p bs ct
    using body_parts_are_texts[of demo_lib ct ?root bs p] by (simp add: collectBodyParts_def)
  have att: "IsAttachment demo_lib ?p" by (simp add: IsAttachment_def demo_part_fields)
  have simple: "\<forall>p \<in> set (parts ?root). simple_part demo_lib p" "?p \<in> set (parts ?root)"
    unfolding demo_parts by (simp_all add: demo_simple)
  have "\<exists>att \<in> set [a]. parseAttachment demo_msg (p_Header ?p) (p_Body ?p) = Inr att"
    using every_part_kept[of ?root demo_msg "[a]" ?p, unfolded L, OF simple(1) atts simple(2) demo_part_fields(6)] body[of ?p] att by blast
  then show ?thesis using atts by (intro exI[of _ "[a]"]) (simp add: demo_part_def)
qed

theorem plain_message_has_no_html_witness:
  "determineBodyMIMEType demo_lib (demo_part 2 ''text/plain'' ''inline'' ''hello'') = Inr ''text/plain'' \<and>
   (\<exists>bs. collectBodyParts demo_lib (demo_part 2 ''text/plain'' ''inline'' ''hello'') ''text/plain'' = Inr bs \<and> ''hello'' = concat (map p_Body bs))"
proof -
  let ?p = "demo_part 2 ''text/plain'' ''inline'' ''hello''"
  have L: "mg_lib demo_msg = demo_lib" by (simp add: demo_msg_def)
  have parts: "parts ?p = [?p]" by (simp add: demo_part_def)
  have att: "\<not> IsAttachment demo_lib ?p" by (simp add: IsAttachment_def demo_part_fields)
  have t: "determineBodyMIMEType demo_lib ?p = Inr ''text/plain''"
    by (simp add: determineBodyMIMEType_exact parts type_of_def demo_part_fields)
  have b: "collectBodyParts demo_lib ?p ct = Inr [?p]" for ct
    unfolding collectBodyParts_def by (subst simple_bodies) (simp_all add: parts demo_simple type_of_def demo_part_fields att)
  have "buildBodies demo_msg ?p = Inr (''hello'', ''hello'')"
    by (simp add: buildBodies_def L b getPlainBody_def demo_part_fields) (simp add: demo_part_def)
  then show ?thesis using plain_message_has_no_html[of demo_msg ?p "''text/plain''" "''hello''" "''hello''"] t unfolding L by auto
qed

text \<open>
  The repair does not ask whether a text is an attachment: beside an inline image, an attached text file is turned into HTML.
\<close>

theorem text_attachment_becomes_html:
  "\<exists>c. patchInlineImages demo_lib (\<lambda>_. ''u'')
       (demo_mail ''multipart/mixed'' [demo_part 2 ''text/plain'' ''attachment'' b, demo_part 3 ''image/png'' ''inline'' ''png'']) =
     Inr (demo_mail ''multipart/mixed''
       [demo_part 2 ''text/html'' ''attachment'' (''<html><body><p>'' @ patchNewLineWithHTMLBreaks b @ ''</p>'' @ img_tag ''u'' @ ''</body></html>''), c])"
proof -
  have "scan_children demo_lib 0 [demo_part 2 ''text/plain'' ''attachment'' b, demo_part 3 ''image/png'' ''inline'' ''png''] (0, [], []) [None, None] False =
      Inr ([Some (inlinePatchBodyWithInlineImage 2 [] 3), None], True)"
    by (simp add: demo_part_fields getImageContentDisposition_def)
  then show ?thesis
    by (simp add: patchInlineImages_def demo_part_fields Patch_def numeral_2_eq_2 demo_mail_def demo_part_def demo_lib_def)
qed

text \<open>
  For a message that is neither mixed nor related, the first inserted part wraps the message in a mixed one, and the position of the next is beyond its parts: parsing
  panics, and the message is refused.
\<close>

theorem wrapped_message_panics:
  "patchInlineImages demo_lib (\<lambda>_. ''u'')
     (demo_mail ''multipart/report'' [demo_part 2 ''text/html'' ''inline'' ''h'', demo_part 3 ''text/html'' ''inline'' ''h'', demo_part 4 ''text/html'' ''inline'' ''h'',
        demo_part 5 ''image/png'' ''inline'' ''png'', demo_part 6 ''image/png'' ''inline'' ''png'']) = Inl PanicWhileParsing"
proof -
  let ?cs = "[demo_part 2 ''text/html'' ''inline'' ''h'', demo_part 3 ''text/html'' ''inline'' ''h'', demo_part 4 ''text/html'' ''inline'' ''h'',
        demo_part 5 ''image/png'' ''inline'' ''png'', demo_part 6 ''image/png'' ''inline'' ''png'']"
  have scan: "scan_children demo_lib 0 ?cs (0, [], []) [None, None, None, None, None] False =
      Inr ([None, None, None, Some (inlinePatchInlineImageOnly 5 3), Some (inlinePatchInlineImageOnly 6 4)], True)"
    by (simp add: demo_part_fields getImageContentDisposition_def)
  let ?r1 = "modify 5 (\<lambda>h b. (lb_Set demo_lib ''content-id'' ''u'' h, b)) (demo_mail ''multipart/report'' ?cs)"
  have r1: "p_Header ?r1 = [(''Content-Type'', ''multipart/report'')]" "p_id ?r1 = 0" by (simp_all add: demo_mail_def)
  then have no: "\<not> isMultipartMixedOrRelated demo_lib ?r1" "\<not> isMultipartMixed demo_lib ?r1"
    by (simp_all add: isMultipartMixedOrRelated_def isMultipartMixed_def ContentType_def demo_lib_def)
  obtain r2 where r2: "Patch demo_lib ''u'' (inlinePatchInlineImageOnly 5 3) (demo_mail ''multipart/report'' ?cs) = Some r2"
    "length (p_children r2) = 2" "p_id r2 = 0" "p_Header r2 = [(''Content-Type'', ''multipart/mixed'')]"
    using no r1 by (simp add: Patch_def InsertChild_def AddChild_def Let_def stripContentHeaders_def demo_lib_def)
  then have "Patch demo_lib ''u'' (inlinePatchInlineImageOnly 6 4) r2 = None"
    using modify_fields(2)[of r2 6 "\<lambda>h b. (lb_Set demo_lib ''content-id'' ''u'' h, b)"] modify_fields(4)[of 6 "\<lambda>h b. (lb_Set demo_lib ''content-id'' ''u'' h, b)" r2]
    by (simp add: Patch_def InsertChild_def Let_def isMultipartMixedOrRelated_def ContentType_def demo_lib_def)
  then show ?thesis using scan r2(1) by (simp add: patchInlineImages_def demo_part_fields numeral_eq_Suc)
qed

end
