(* ===== verification/Bridge_Users.thy ===== *)
theory Bridge_Users
  imports Server_Manager Identity_State
begin

section \<open>Accounts: login, loading and logout\<close>

text \<open>
  Models \<^verbatim>\<open>internal/bridge/user.go\<close>, \<^verbatim>\<open>internal/bridge/user_events.go\<close> and \<^verbatim>\<open>internal/user/{user,user_check,migration}.go\<close>: how an account gets into the
  bridge's table of connected users and out of it, and what that does to the vault, to the sync state on disk and to the API session. The
  services of a user have theories of their own; here a call to a service is the outcome it has, given by a world. An operation that runs
  under the lock of the users is one step.
\<close>

subsection \<open>Errors\<close>

text \<open>
  \<open>Wrapped\<close> is \<^verbatim>\<open>fmt.Errorf\<close> with \<^verbatim>\<open>%w\<close>, \<open>WrappedBoth\<close> with two of them. \<^verbatim>\<open>errors.Is\<close> and \<^verbatim>\<open>errors.As\<close> look through the wrapping,
  a type assertion does not.
\<close>

datatype api_code = AuthRefreshTokenInvalid | OtherCode nat

datatype 'e go_err =
    ErrNoSuchUser
  | ErrUserAlreadyLoggedIn
  | ErrFailedToUnlock
  | ApiErr api_code
  | RestyResponseError
  | HvRequest
  | VaultE "'e vault_err"
  | SyncE sync_err
  | PanicErr
  | Plain string
  | Wrapped string "'e go_err"
  | WrappedBoth "'e go_err" "'e go_err"

fun err_tree :: "'e go_err \<Rightarrow> 'e go_err list" where
  "err_tree (Wrapped s e) = Wrapped s e # err_tree e"
| "err_tree (WrappedBoth a b) = WrappedBoth a b # err_tree a @ err_tree b"
| "err_tree e = [e]"

definition errors_Is :: "'e go_err \<Rightarrow> 'e go_err \<Rightarrow> bool" where
  "errors_Is e target \<longleftrightarrow> target \<in> set (err_tree e)"

fun code_of :: "'e go_err \<Rightarrow> api_code option" where
  "code_of (ApiErr n) = Some n"
| "code_of _ = None"

definition errors_As_code :: "'e go_err \<Rightarrow> api_code option" where
  "errors_As_code e = (case filter (\<lambda>x. code_of x \<noteq> None) (err_tree e) of [] \<Rightarrow> None | x # _ \<Rightarrow> code_of x)"

definition is_ResponseError :: "'e go_err \<Rightarrow> bool" where
  "is_ResponseError e \<longleftrightarrow> (case e of RestyResponseError \<Rightarrow> True | _ \<Rightarrow> False)"

subsection \<open>State\<close>

datatype user_event = UserDeauth string | UserBadEventEmptyID string | UserLoadedCheckResync string

datatype user_service = EventService | TelemetryService | IdentityService | NotificationService | SMTPService | IMAPService

text \<open>
  A connected user: the session of its client, the services that run (in the order of their start), the event channel (\<open>None\<close> when it
  is closed). Its vault handle is the ID.
\<close>

record buser =
  bu_id :: string
  bu_userPlan :: string
  bu_session :: string
  bu_client :: bool
  bu_services :: "user_service list"
  bu_eventsPaused :: bool
  bu_eventCh :: "user_event list option"

datatype bridge_event =
    BUserLoggedIn string
  | BUserLoggedOut string
  | BUserDeleted string
  | BUserLoading string
  | BUserLoadFail string string
  | BUserLoadSuccess string
  | BAddressModeChanged string VaultAddressMode
  | BUserEvent user_event

text \<open>
  \<open>br_worlds\<close> are the worlds that the coming operations on the vault meet; \<open>br_deleted\<close> are the sessions that were ended at the API,
  \<open>br_accounts\<close> and \<open>br_split\<close> what the heartbeat was told.
\<close>

record 'e bridge =
  br_vault :: vault
  br_worlds :: "nat \<Rightarrow> 'e vault_world"
  br_disk :: disk
  br_users :: "(string \<times> buser) list"
  br_published :: "bridge_event list"
  br_deleted :: "string list"
  br_observed :: "string list"
  br_accounts :: int
  br_split :: bool
  br_plans :: "string list"

text \<open>
  An operation returns a value or an error; \<open>None\<close> is a panic. A panicking vault operation leaves the vault as it was.
\<close>

type_synonym ('e, 'r) action = "'e bridge \<Rightarrow> ('e go_err + 'r) option \<times> 'e bridge"

definition ret :: "'r \<Rightarrow> ('e, 'r) action" where "ret x b = (Some (Inr x), b)"

definition throw :: "'e go_err \<Rightarrow> ('e, 'r) action" where "throw e b = (Some (Inl e), b)"

definition bnd :: "('e, 'a) action \<Rightarrow> ('a \<Rightarrow> ('e, 'r) action) \<Rightarrow> ('e, 'r) action" where
  "bnd m f b =
     (case m b of
        (None, b1) \<Rightarrow> (None, b1)
      | (Some (Inl e), b1) \<Rightarrow> (Some (Inl e), b1)
      | (Some (Inr x), b1) \<Rightarrow> f x b1)"

definition wrapping :: "string \<Rightarrow> ('e, 'r) action \<Rightarrow> ('e, 'r) action" where
  "wrapping s m b =
     (case m b of
        (Some (Inl e), b1) \<Rightarrow> (Some (Inl (Wrapped s e)), b1)
      | r \<Rightarrow> r)"

text \<open>An error that is only logged, and the error as a value.\<close>

definition logged :: "('e, 'r) action \<Rightarrow> ('e, unit) action" where
  "logged m b =
     (case m b of
        (None, b1) \<Rightarrow> (None, b1)
      | (Some _, b1) \<Rightarrow> (Some (Inr ()), b1))"

definition attempt :: "('e, 'r) action \<Rightarrow> ('e, 'e go_err + 'r) action" where
  "attempt m b =
     (case m b of
        (None, b1) \<Rightarrow> (None, b1)
      | (Some r, b1) \<Rightarrow> (Some (Inr r), b1))"

text \<open>\<^verbatim>\<open>try.CatchVal\<close> without handlers turns a panic into an error.\<close>

definition CatchVal :: "('e, 'r) action \<Rightarrow> ('e, 'r) action" where
  "CatchVal m b = (case m b of (None, b1) \<Rightarrow> (Some (Inl PanicErr), b1) | r \<Rightarrow> r)"

definition vop :: "('e vault_world \<Rightarrow> vault \<Rightarrow> ('e, 'r) vault_result) \<Rightarrow> ('e, 'r) action" where
  "vop f b =
     (let b1 = b\<lparr>br_worlds := next_worlds (br_worlds b)\<rparr> in
      case f (br_worlds b 0) (br_vault b) of
        None \<Rightarrow> (None, b1)
      | Some (Inl e, v) \<Rightarrow> (Some (Inl (VaultE e)), b1\<lparr>br_vault := v\<rparr>)
      | Some (Inr x, v) \<Rightarrow> (Some (Inr x), b1\<lparr>br_vault := v\<rparr>))"

definition vread :: "('e vault_world \<Rightarrow> vault \<Rightarrow> 'r option) \<Rightarrow> ('e, 'r) action" where
  "vread f b =
     (case f (br_worlds b 0) (br_vault b) of
        None \<Rightarrow> (None, b\<lparr>br_worlds := next_worlds (br_worlds b)\<rparr>)
      | Some x \<Rightarrow> (Some (Inr x), b\<lparr>br_worlds := next_worlds (br_worlds b)\<rparr>))"

definition bridge_publish :: "bridge_event \<Rightarrow> ('e, unit) action" where
  "bridge_publish ev b = (Some (Inr ()), b\<lparr>br_published := br_published b @ [ev]\<rparr>)"

definition AuthDelete :: "bool \<Rightarrow> string \<Rightarrow> ('e, unit) action" where
  "AuthDelete ok session b =
     (if ok then (Some (Inr ()), b\<lparr>br_deleted := br_deleted b @ [session]\<rparr>) else (Some (Inl (Plain ''auth'')), b))"

definition closeVaultUser :: "string \<Rightarrow> ('e, unit) action" where
  "closeVaultUser userID b =
     (case user_Close userID (br_vault b) of
        (Some e, v) \<Rightarrow> (Some (Inl (VaultE e)), b\<lparr>br_vault := v\<rparr>)
      | (None, v) \<Rightarrow> (Some (Inr ()), b\<lparr>br_vault := v\<rparr>))"

subsection \<open>The user object\<close>

text \<open>
  What the services of a user answer. The addresses are in the order in which the map of the identity service is ranged over.
\<close>

record 'k UserAddress = "'k Address" +
  a_DisplayName :: string
  a_BYOE :: bool

record 'e user_world =
  uw_readErr :: bool
  uw_readErr2 :: bool
  uw_GetAddresses :: "'e go_err option"
  uw_GetOrganizationData :: "'e go_err + string"
  uw_GetLabels :: "'e go_err option"
  uw_GetLatestEventID :: "'e go_err + string"
  uw_smtpStart :: "'e go_err option"
  uw_imapStart :: "'e go_err option"
  uw_smtpLogout :: "'e go_err option"
  uw_imapLogout :: "'e go_err option"
  uw_imapDelete :: "'e go_err option"
  uw_smtpMode :: "'e go_err option"
  uw_imapMode :: "'e go_err option"
  uw_onBadEvent :: "'e go_err option"
  uw_badEventResync :: "'e go_err option"
  uw_identityResync :: "'e go_err option"
  uw_smtpResync :: "'e go_err option"
  uw_imapResync :: "'e go_err option"
  uw_authDelete :: bool

definition outcome :: "'e go_err option \<Rightarrow> ('e, unit) action" where
  "outcome r = (case r of None \<Rightarrow> ret () | Some e \<Rightarrow> throw e)"

definition outcome_val :: "'e go_err + 'r \<Rightarrow> ('e, 'r) action" where
  "outcome_val r = (case r of Inl e \<Rightarrow> throw e | Inr x \<Rightarrow> ret x)"

definition PublishEventTo :: "user_event \<Rightarrow> buser \<Rightarrow> buser" where
  "PublishEventTo ev u = u\<lparr>bu_eventCh := map_option (\<lambda>q. q @ [ev]) (bu_eventCh u)\<rparr>"

definition GetSyncConfigPath :: "string \<Rightarrow> string \<Rightarrow> string" where
  "GetSyncConfigPath path userID = path @ ''/sync-'' @ userID"

definition migrateSyncStatusFromVault :: "'e vault_env \<Rightarrow> 'e user_world \<Rightarrow> string \<Rightarrow> string \<Rightarrow> ('e, unit) action" where
  "migrateSyncStatusFromVault E W syncConfigDir userID =
     bnd (vread (\<lambda>w. user_SyncStatus E w userID)) (\<lambda>st b.
       case MigrateVaultSettings (uw_readErr W) (GetSyncConfigPath syncConfigDir userID)
              (vss_HasLabels st) (vss_HasMessages st) (vss_FailedMessageIDs st) (br_disk b) of
         ((migrated, Some e), d) \<Rightarrow> (Some (Inl (Wrapped ''failed to migrate user sync settings'' (SyncE e))), b\<lparr>br_disk := d\<rparr>)
       | ((migrated, None), d) \<Rightarrow>
           (if migrated
            then wrapping ''failed to clear sync settings from vault'' (vop (\<lambda>w. user_ClearSyncStatusWithoutEventID E w userID))
            else ret ()) (b\<lparr>br_disk := d\<rparr>))"

definition checkIrrecoverableEventID :: "'e user_world \<Rightarrow> string \<Rightarrow> string \<Rightarrow> string \<Rightarrow> buser \<Rightarrow> ('e, buser) action" where
  "checkIrrecoverableEventID W lastEventID userID syncConfigDir publisher b =
     (if lastEventID \<noteq> [] then ret publisher b
      else case NewSyncState (uw_readErr2 W) (GetSyncConfigPath syncConfigDir userID) (br_disk b) of
             Inl e \<Rightarrow> throw (Wrapped ''failed to read imap sync state'' (SyncE e)) b
           | Inr syncState \<Rightarrow>
               (case GetSyncStatus (syncState, br_disk b) of
                  Inl e \<Rightarrow> throw (Wrapped ''failed to imap sync status'' (SyncE e)) b
                | Inr syncStatus \<Rightarrow>
                    ret (if IsComplete syncStatus \<or> InProgress syncStatus
                         then PublishEventTo (UserBadEventEmptyID userID) publisher else publisher) b))"

text \<open>The start of the event service: an event ID is fetched and stored if there is none.\<close>

definition eventService_Start :: "'e vault_env \<Rightarrow> 'e user_world \<Rightarrow> string \<Rightarrow> ('e, string) action" where
  "eventService_Start E W userID =
     bnd (vread (\<lambda>w. user_EventID E w userID)) (\<lambda>lastEventID.
       if lastEventID \<noteq> [] then ret lastEventID
       else bnd (outcome_val (uw_GetLatestEventID W)) (\<lambda>eventID.
         bnd (vop (\<lambda>w. user_SetEventID E w userID eventID)) (\<lambda>_. ret eventID)))"

definition RegisterUserClient :: "string \<Rightarrow> ('e, unit) action" where
  "RegisterUserClient userID b =
     (Some (Inr ()), b\<lparr>br_observed := List.insert userID (br_observed b)\<rparr>)"

definition DeregisterUserClient :: "string \<Rightarrow> ('e, unit) action" where
  "DeregisterUserClient userID b =
     (Some (Inr ()), b\<lparr>br_observed := removeAll userID (br_observed b)\<rparr>)"

text \<open>
  \<open>newImpl\<close> returns an error together with the user object that has to be cleaned up, if there is one already. The paused flag of
  the event service is cleared at the very end.
\<close>

definition newImpl ::
  "'e vault_env \<Rightarrow> 'e user_world \<Rightarrow> string \<Rightarrow> string \<Rightarrow> string \<Rightarrow> bool \<Rightarrow> ('e, ('e go_err \<times> buser option) + buser) action" where
  "newImpl E W userID session syncConfigDir isNew =
     (let user = (\<lambda>plan. \<lparr>bu_id = userID, bu_userPlan = plan, bu_session = session, bu_client = True, bu_services = [],
                    bu_eventsPaused = True, bu_eventCh = Some []\<rparr>) in
      bnd (attempt (
        bnd (migrateSyncStatusFromVault E W syncConfigDir userID) (\<lambda>_.
        bnd (wrapping ''failed to get addresses'' (outcome (uw_GetAddresses W))) (\<lambda>_.
        bnd (wrapping ''failed to get labels'' (outcome (uw_GetLabels W))) (\<lambda>_.
        bnd (vread (\<lambda>w. user_AuthUID E w userID)) (\<lambda>_.
        bnd (vread (\<lambda>w. user_AddressMode E w userID)) (\<lambda>_.
          let u = user (case uw_GetOrganizationData W of Inl _ \<Rightarrow> [] | Inr plan \<Rightarrow> plan) in
          if isNew then ret u
          else bnd (vread (\<lambda>w. user_EventID E w userID)) (\<lambda>eventID.
                 checkIrrecoverableEventID W eventID userID syncConfigDir u)))))))) (\<lambda>r.
      case r of
        Inl e \<Rightarrow> ret (Inl (e, None))
      | Inr u \<Rightarrow>
          bnd (attempt (wrapping ''failed to start event service'' (eventService_Start E W userID))) (\<lambda>r1.
          case r1 of
            Inl e \<Rightarrow> ret (Inl (e, Some u))
          | Inr lastEventID \<Rightarrow>
              let u1 = u\<lparr>bu_services := [EventService, TelemetryService, IdentityService, NotificationService]\<rparr> in
              bnd (RegisterUserClient userID) (\<lambda>_.
              bnd (attempt (wrapping ''failed to start smtp service'' (outcome (uw_smtpStart W)))) (\<lambda>r2.
              case r2 of
                Inl e \<Rightarrow> ret (Inl (e, Some u1))
              | Inr _ \<Rightarrow>
                  let u2 = u1\<lparr>bu_services := bu_services u1 @ [SMTPService]\<rparr> in
                  bnd (attempt (wrapping ''failed to start imap service'' (outcome (uw_imapStart W)))) (\<lambda>r3.
                  case r3 of
                    Inl e \<Rightarrow> ret (Inl (e, Some u2))
                  | Inr _ \<Rightarrow> ret (Inr (u2\<lparr>bu_services := bu_services u2 @ [IMAPService], bu_eventsPaused := False\<rparr>))))))))"

text \<open>\<open>CancelAndWait\<close> stops the services in the reverse order of their start.\<close>

definition User_Close :: "buser \<Rightarrow> ('e, buser) action" where
  "User_Close u =
     bnd (DeregisterUserClient (bu_id u)) (\<lambda>_.
     bnd (logged (closeVaultUser (bu_id u))) (\<lambda>_.
       ret (u\<lparr>bu_services := [], bu_client := False, bu_eventCh := None\<rparr>)))"

definition User_New ::
  "'e vault_env \<Rightarrow> 'e user_world \<Rightarrow> string \<Rightarrow> string \<Rightarrow> string \<Rightarrow> bool \<Rightarrow> ('e, buser) action" where
  "User_New E W userID session syncConfigDir isNew =
     bnd (newImpl E W userID session syncConfigDir isNew) (\<lambda>r.
       case r of
         Inl (e, None) \<Rightarrow> throw e
       | Inl (e, Some u) \<Rightarrow> bnd (User_Close u) (\<lambda>_. throw e)
       | Inr u \<Rightarrow> ret u)"

text \<open>
  \<open>Logout\<close> returns as soon as a service reports an error. \<open>withData\<close> asks the IMAP service to delete the mailboxes.
\<close>

definition User_Logout :: "'e vault_env \<Rightarrow> 'e user_world \<Rightarrow> bool \<Rightarrow> bool \<Rightarrow> buser \<Rightarrow> ('e, buser) action" where
  "User_Logout E W withAPI withData u =
     bnd (wrapping ''failed to remove user from smtp server'' (outcome (uw_smtpLogout W))) (\<lambda>_.
     bnd (if withData then wrapping ''failed to delete user from imap server'' (outcome (uw_imapDelete W))
          else wrapping ''failed to remove user from imap server'' (outcome (uw_imapLogout W))) (\<lambda>_.
     bnd (DeregisterUserClient (bu_id u)) (\<lambda>_.
     bnd (if withAPI then logged (AuthDelete (uw_authDelete W) (bu_session u)) else ret ()) (\<lambda>_.
     bnd (wrapping ''failed to clear vault'' (vop (\<lambda>w. user_Clear E w (bu_id u)))) (\<lambda>_.
       ret (u\<lparr>bu_services := []\<rparr>))))))"

definition VaultToAddressMode :: "VaultAddressMode \<Rightarrow> AddressMode" where
  "VaultToAddressMode mode = (if mode = SplitMode then AddressModeSplit else AddressModeCombined)"

definition AddressModeToVault :: "AddressMode \<Rightarrow> VaultAddressMode" where
  "AddressModeToVault mode = (if mode = AddressModeCombined then CombinedMode else SplitMode)"

definition User_SetAddressMode :: "'e vault_env \<Rightarrow> 'e user_world \<Rightarrow> VaultAddressMode \<Rightarrow> buser \<Rightarrow> ('e, unit) action" where
  "User_SetAddressMode E W mode u =
     bnd (wrapping ''failed to set address mode'' (vop (\<lambda>w. user_SetAddressMode E w (bu_id u) mode))) (\<lambda>_.
     bnd (wrapping ''failed to set smtp address mode'' (outcome (uw_smtpMode W))) (\<lambda>_.
       wrapping ''failed to imap address mode'' (outcome (uw_imapMode W))))"

definition put_buser :: "buser \<Rightarrow> ('e, unit) action" where
  "put_buser u b =
     (Some (Inr ()), if map_of (br_users b) (bu_id u) = None then b else b\<lparr>br_users := AList.update (bu_id u) u (br_users b)\<rparr>)"

definition BadEventFeedbackResync :: "'e user_world \<Rightarrow> buser \<Rightarrow> ('e, unit) action" where
  "BadEventFeedbackResync W u =
     bnd (wrapping ''failed to execute bad event request on imap service'' (outcome (uw_badEventResync W))) (\<lambda>_.
     bnd (wrapping ''failed to resync identity service'' (outcome (uw_identityResync W))) (\<lambda>_.
     bnd (wrapping ''failed to resync smtp service'' (outcome (uw_smtpResync W))) (\<lambda>_.
     bnd (wrapping ''failed to resync imap service'' (outcome (uw_imapResync W))) (\<lambda>_.
       put_buser (u\<lparr>bu_eventsPaused := False\<rparr>)))))"

definition VerifyResyncAndExecute :: "'e vault_env \<Rightarrow> 'e user_world \<Rightarrow> buser \<Rightarrow> ('e, unit) action" where
  "VerifyResyncAndExecute E W u =
     bnd (vread (\<lambda>w. user_GetShouldResync E w (bu_id u))) (\<lambda>should.
       if should
       then bnd (logged (vop (\<lambda>w. user_SetShouldSync E w (bu_id u) False))) (\<lambda>_. logged (outcome (uw_imapResync W)))
       else ret ())"

text \<open>The handlers of the API client: a refreshed session is stored, a lost one is announced.\<close>

definition onAuth :: "'e vault_env \<Rightarrow> string \<Rightarrow> string \<Rightarrow> buser \<Rightarrow> ('e, unit) action" where
  "onAuth E authUID authRef u = logged (vop (\<lambda>w. user_SetAuth E w (bu_id u) authUID authRef))"

definition onDeauth :: "buser \<Rightarrow> ('e, unit) action" where
  "onDeauth u = put_buser (PublishEventTo (UserDeauth (bu_id u)) u)"

subsubsection \<open>Names and addresses\<close>

record 'k identity_answers =
  ia_GetAPIUser :: "'k User option"
  ia_MaxSpace :: uint64
  ia_GetAddresses :: "'k UserAddress list option"

definition User_Name :: "'k identity_answers \<Rightarrow> string" where
  "User_Name I = (case ia_GetAPIUser I of None \<Rightarrow> [] | Some u \<Rightarrow> u_Name u)"

definition Match :: "'k identity_answers \<Rightarrow> string \<Rightarrow> bool" where
  "Match I query =
     (case ia_GetAPIUser I of
        None \<Rightarrow> False
      | Some u \<Rightarrow> query = u_Name u \<or>
          (case ia_GetAddresses I of None \<Rightarrow> False | Some addrs \<Rightarrow> list_ex (\<lambda>a. query = a_Email a) addrs))"

definition protonAddresses :: "'k identity_answers \<Rightarrow> 'k UserAddress list" where
  "protonAddresses I =
     (case ia_GetAddresses I of
        None \<Rightarrow> []
      | Some addrs \<Rightarrow>
          sort_key a_Order (filter (\<lambda>a. a_Status a = AddressStatusEnabled \<and> (a_BYOE a \<or> a_Type a \<noteq> AddressTypeExternal)) addrs))"

definition Emails :: "'k identity_answers \<Rightarrow> string list" where
  "Emails I = map a_Email (protonAddresses I)"

definition DisplayNames :: "'k identity_answers \<Rightarrow> string \<rightharpoonup> string" where
  "DisplayNames I = fold (\<lambda>a m. m(a_Email a \<mapsto> a_DisplayName a)) (protonAddresses I) Map.empty"

definition UsedSpace :: "'k identity_answers \<Rightarrow> uint64" where
  "UsedSpace I = (case ia_GetAPIUser I of None \<Rightarrow> 0 | Some u \<Rightarrow> u_UsedSpace u)"

definition MaxSpace :: "'k identity_answers \<Rightarrow> uint64" where
  "MaxSpace I = (if ia_GetAPIUser I = None then 0 else ia_MaxSpace I)"

subsection \<open>The bridge\<close>

record api_user =
  au_ID :: string
  au_Name :: string
  au_Email :: string

record auth =
  at_UID :: string
  at_RefreshToken :: string
  at_UserID :: string
  at_HasTOTP :: bool
  at_TwoPasswordMode :: bool

text \<open>
  What a login or the loading of a user meets: the answers of the API, the user's input, and the salting and unlocking of keys (the number
  of keys that could be unlocked).
\<close>

record 'e login_world =
  lw_login :: "'e go_err + auth"
  lw_authDelete :: bool
  lw_authDelete2 :: bool
  lw_getTOTP :: "'e go_err + string"
  lw_Auth2FA :: "string \<Rightarrow> 'e go_err option"
  lw_getKeyPass :: "'e go_err + bytes"
  lw_GetUser :: "'e go_err + api_user"
  lw_GetSalts :: "'e go_err option"
  lw_SaltForKey :: "bytes \<Rightarrow> 'e go_err + bytes"
  lw_Unlock :: "bytes \<Rightarrow> 'e go_err + nat"
  lw_refresh :: "'e go_err + auth"
  lw_syncPath :: "'e go_err + string"
  lw_user :: "'e user_world"

definition Bridge_GetUserIDs :: "'e vault_env \<Rightarrow> ('e, string list) action" where
  "Bridge_GetUserIDs E = vread (\<lambda>w. GetUserIDs E w)"

definition Bridge_HasUser :: "'e vault_env \<Rightarrow> string \<Rightarrow> ('e, bool) action" where
  "Bridge_HasUser E userID = vread (\<lambda>w. HasUser E w userID)"

datatype UserState = SignedOut | Locked | Connected

record UserInfo =
  ui_State :: UserState
  ui_UserID :: string
  ui_Username :: string
  ui_Addresses :: "string list"
  ui_AddressMode :: VaultAddressMode
  ui_BridgePass :: bytes
  ui_UsedSpace :: uint64
  ui_MaxSpace :: uint64

definition getUserInfo :: "string \<Rightarrow> string \<Rightarrow> string \<Rightarrow> UserState \<Rightarrow> VaultAddressMode \<Rightarrow> UserInfo" where
  "getUserInfo userID username primaryEmail state addressMode =
     \<lparr>ui_State = state, ui_UserID = userID, ui_Username = username,
      ui_Addresses = (if primaryEmail \<noteq> [] then [primaryEmail] else []), ui_AddressMode = addressMode,
      ui_BridgePass = [], ui_UsedSpace = 0, ui_MaxSpace = 0\<rparr>"

text \<open>\<open>enc\<close> is the raw base64 encoding of the bridge password.\<close>

definition getConnUserInfo ::
  "'e vault_env \<Rightarrow> (bytes \<Rightarrow> bytes) \<Rightarrow> 'k identity_answers \<Rightarrow> buser \<Rightarrow> ('e, UserInfo) action" where
  "getConnUserInfo E enc I u =
     bnd (vread (\<lambda>w. user_AddressMode E w (bu_id u))) (\<lambda>mode.
     bnd (vread (\<lambda>w. user_BridgePass E w (bu_id u))) (\<lambda>pass.
       ret \<lparr>ui_State = Connected, ui_UserID = bu_id u, ui_Username = User_Name I, ui_Addresses = Emails I,
            ui_AddressMode = mode, ui_BridgePass = enc pass, ui_UsedSpace = UsedSpace I, ui_MaxSpace = MaxSpace I\<rparr>))"

definition GetUserInfo ::
  "'e vault_env \<Rightarrow> (bytes \<Rightarrow> bytes) \<Rightarrow> (string \<Rightarrow> 'k identity_answers) \<Rightarrow> string \<Rightarrow> ('e, UserInfo) action" where
  "GetUserInfo E enc I userID b =
     (case map_of (br_users b) userID of
        Some u \<Rightarrow> getConnUserInfo E enc (I userID) u b
      | None \<Rightarrow>
          bnd (wrapping ''failed to get user info'' (vop (\<lambda>w. NewUser E w userID))) (\<lambda>user.
          bnd (vread (\<lambda>w. user_AuthUID E w user)) (\<lambda>authUID.
          bnd (vread (\<lambda>w. user_UserID E w user)) (\<lambda>i.
          bnd (vread (\<lambda>w. user_Username E w user)) (\<lambda>name.
          bnd (vread (\<lambda>w. user_PrimaryEmail E w user)) (\<lambda>email.
          bnd (vread (\<lambda>w. user_AddressMode E w user)) (\<lambda>mode.
          bnd (logged (closeVaultUser user)) (\<lambda>_.
            ret (getUserInfo i name email (if authUID = [] then SignedOut else Locked) mode)))))))) b)"

text \<open>A range over the map of users visits them in any order; the result is the first that matches.\<close>

definition QueryUserInfo ::
  "'e vault_env \<Rightarrow> (bytes \<Rightarrow> bytes) \<Rightarrow> (string \<Rightarrow> 'k identity_answers) \<Rightarrow> string \<Rightarrow> ('e, UserInfo) action" where
  "QueryUserInfo E enc I query b =
     (case find (\<lambda>(i, u). Match (I i) query) (br_users b) of
        None \<Rightarrow> throw ErrNoSuchUser b
      | Some (i, u) \<Rightarrow> getConnUserInfo E enc (I i) u b)"

definition logoutUser :: "'e vault_env \<Rightarrow> 'e user_world \<Rightarrow> buser \<Rightarrow> bool \<Rightarrow> bool \<Rightarrow> ('e, unit) action" where
  "logoutUser E W u withAPI withData b =
     (case bnd (logged (User_Logout E W withAPI withData u)) (\<lambda>_ b1.
             bnd (User_Close u) (\<lambda>_. ret ()) (b1\<lparr>br_accounts := int (length (br_users b1)) - 1\<rparr>)) b of
        (r, b2) \<Rightarrow> (r, b2\<lparr>br_users := AList.delete (bu_id u) (br_users b2)\<rparr>))"

definition newVaultUser ::
  "'e vault_env \<Rightarrow> api_user \<Rightarrow> string \<Rightarrow> string \<Rightarrow> bytes \<Rightarrow> ('e, string \<times> bool) action" where
  "newVaultUser E apiUser authUID authRef saltedKeyPass b =
     vop (\<lambda>w. GetOrAddUser E w (br_worlds b 1) (au_ID apiUser) (au_Name apiUser) (au_Email apiUser) authUID authRef saltedKeyPass)
       (b\<lparr>br_worlds := (\<lambda>n. br_worlds b (if n = 0 then 0 else Suc n))\<rparr>)"

definition addUserWithVault ::
  "'e vault_env \<Rightarrow> 'e login_world \<Rightarrow> api_user \<Rightarrow> string \<Rightarrow> bool \<Rightarrow> ('e, unit) action" where
  "addUserWithVault E L apiUser session isNew =
     bnd (wrapping ''failed to get IMAP sync config path'' (outcome_val (lw_syncPath L))) (\<lambda>syncSettingsPath.
     bnd (wrapping ''failed to create user'' (User_New E (lw_user L) (au_ID apiUser) session syncSettingsPath isNew)) (\<lambda>u b.
       let users = AList.update (au_ID apiUser) (PublishEventTo (UserLoadedCheckResync (au_ID apiUser)) u) (br_users b) in
       (Some (Inr ()), b\<lparr>br_users := users, br_accounts := int (length users), br_plans := br_plans b @ [bu_userPlan u]\<rparr>)))"

text \<open>The end of \<open>addUser\<close>: after an error the vault user is cleaned up.\<close>

definition addUser_finish :: "'e vault_env \<Rightarrow> api_user \<Rightarrow> bool \<Rightarrow> string \<Rightarrow> bool \<Rightarrow> 'e go_err + unit \<Rightarrow> ('e, unit) action" where
  "addUser_finish E apiUser isLogin vaultUser isNew r =
     (case r of
        Inr _ \<Rightarrow> ret ()
      | Inl err \<Rightarrow>
          bnd (if is_ResponseError err \<or> isLogin then logged (vop (\<lambda>w. user_Clear E w vaultUser)) else ret ()) (\<lambda>_.
          bnd (logged (closeVaultUser vaultUser)) (\<lambda>_.
          bnd (if isNew then logged (vop (\<lambda>w. DeleteUser E w (au_ID apiUser))) else ret ()) (\<lambda>_.
            throw (Wrapped ''failed to add user with vault'' err)))))"

definition addUser ::
  "'e vault_env \<Rightarrow> 'e login_world \<Rightarrow> api_user \<Rightarrow> string \<Rightarrow> string \<Rightarrow> bytes \<Rightarrow> bool \<Rightarrow> ('e, unit) action" where
  "addUser E L apiUser authUID authRef saltedKeyPass isLogin =
     bnd (wrapping ''failed to add vault user'' (newVaultUser E apiUser authUID authRef saltedKeyPass)) (\<lambda>(vaultUser, isNew).
     bnd (attempt (addUserWithVault E L apiUser authUID isNew)) (addUser_finish E apiUser isLogin vaultUser isNew))"

text \<open>\<open>LoginAuth\<close> returns the authorized session. A user that is logged in already loses the new session again.\<close>

definition LoginAuth :: "'e login_world \<Rightarrow> string \<Rightarrow> ('e, auth) action" where
  "LoginAuth L username b =
     (if username = ''crash@bandicoot'' then (None, b)
      else case lw_login L of
             Inl HvRequest \<Rightarrow> throw HvRequest b
           | Inl e \<Rightarrow> throw (Wrapped ''failed to create new API client'' e) b
           | Inr auth \<Rightarrow>
               if map_of (br_users b) (at_UserID auth) \<noteq> None
               then bnd (logged (AuthDelete (lw_authDelete L) (at_UID auth))) (\<lambda>_. throw ErrUserAlreadyLoggedIn) b
               else ret auth b)"

definition loginUser :: "'e vault_env \<Rightarrow> 'e login_world \<Rightarrow> string \<Rightarrow> string \<Rightarrow> bytes \<Rightarrow> ('e, string) action" where
  "loginUser E L authUID authRef keyPass =
     bnd (wrapping ''failed to get API user'' (outcome_val (lw_GetUser L))) (\<lambda>apiUser.
     bnd (wrapping ''failed to get key salts'' (outcome (lw_GetSalts L))) (\<lambda>_.
     bnd (wrapping ''failed to salt key password'' (outcome_val (lw_SaltForKey L keyPass))) (\<lambda>saltedKeyPass.
     bnd (case lw_Unlock L saltedKeyPass of
            Inl e \<Rightarrow> throw (WrappedBoth ErrFailedToUnlock e)
          | Inr n \<Rightarrow> if n = 0 then throw ErrFailedToUnlock else ret ()) (\<lambda>_.
     bnd (wrapping ''failed to add bridge user'' (addUser E L apiUser authUID authRef saltedKeyPass True)) (\<lambda>_.
       ret (au_ID apiUser))))))"

definition LoginUser :: "'e vault_env \<Rightarrow> 'e login_world \<Rightarrow> auth \<Rightarrow> bytes \<Rightarrow> ('e, string) action" where
  "LoginUser E L auth keyPass =
     bnd (attempt (CatchVal (loginUser E L (at_UID auth) (at_RefreshToken auth) keyPass))) (\<lambda>r.
     case r of
       Inl err \<Rightarrow>
         bnd (if errors_Is err ErrFailedToUnlock then ret () else logged (AuthDelete (lw_authDelete L) (at_UID auth))) (\<lambda>_.
           throw (Wrapped ''failed to login user'' err))
     | Inr userID \<Rightarrow> bnd (bridge_publish (BUserLoggedIn userID)) (\<lambda>_. ret userID))"

definition LoginFull :: "'e vault_env \<Rightarrow> 'e login_world \<Rightarrow> string \<Rightarrow> bytes \<Rightarrow> ('e, string) action" where
  "LoginFull E L username password =
     bnd (wrapping ''failed to begin login process'' (LoginAuth L username)) (\<lambda>auth.
     bnd (if at_HasTOTP auth
          then bnd (wrapping ''failed to get TOTP'' (outcome_val (lw_getTOTP L))) (\<lambda>totp.
                 wrapping ''failed to authorize 2FA'' (outcome (lw_Auth2FA L totp)))
          else ret ()) (\<lambda>_.
     bnd (if at_TwoPasswordMode auth then wrapping ''failed to get key password'' (outcome_val (lw_getKeyPass L))
          else ret password) (\<lambda>keyPass.
     bnd (attempt (LoginUser E L auth keyPass)) (\<lambda>r.
     case r of
       Inl err \<Rightarrow> bnd (logged (AuthDelete (lw_authDelete2 L) (at_UID auth))) (\<lambda>_. throw err)
     | Inr userID \<Rightarrow> ret userID))))"

definition LogoutUser :: "'e vault_env \<Rightarrow> 'e user_world \<Rightarrow> string \<Rightarrow> ('e, unit) action" where
  "LogoutUser E W userID b =
     (case map_of (br_users b) userID of
        None \<Rightarrow> throw ErrNoSuchUser b
      | Some u \<Rightarrow> bnd (logoutUser E W u True False) (\<lambda>_. bridge_publish (BUserLoggedOut userID)) b)"

definition removeSyncState :: "bool \<Rightarrow> string \<Rightarrow> ('e, unit) action" where
  "removeSyncState rmErr path b =
     (case DeleteSyncState rmErr path (br_disk b) of
        (Some e, d) \<Rightarrow> (Some (Inl (Plain ''failed to delete use sync config'')), b\<lparr>br_disk := d\<rparr>)
      | (None, d) \<Rightarrow> (Some (Inr ()), b\<lparr>br_disk := d\<rparr>))"

definition Bridge_DeleteUser ::
  "'e vault_env \<Rightarrow> 'e user_world \<Rightarrow> 'e go_err + string \<Rightarrow> bool \<Rightarrow> string \<Rightarrow> ('e, unit) action" where
  "Bridge_DeleteUser E W syncDir rmErr userID =
     (case syncDir of
        Inl _ \<Rightarrow> throw (Plain ''failed to get sync config path'')
      | Inr dir \<Rightarrow>
          bnd (vread (\<lambda>w. HasUser E w userID)) (\<lambda>has.
          if \<not> has then throw ErrNoSuchUser
          else bnd (\<lambda>b. case map_of (br_users b) userID of
                           None \<Rightarrow> ret () b
                         | Some u \<Rightarrow> logoutUser E W u True True b) (\<lambda>_.
               bnd (removeSyncState rmErr (GetSyncConfigPath dir userID)) (\<lambda>_.
               bnd (logged (vop (\<lambda>w. DeleteUser E w userID))) (\<lambda>_.
                 bridge_publish (BUserDeleted userID))))))"

definition any_split :: "'e vault_env \<Rightarrow> (string \<times> buser) list \<Rightarrow> ('e, bool) action" where
  "any_split E us =
     fold (\<lambda>(i, u) m. bnd m (\<lambda>found. if found then ret True
                                     else bnd (vread (\<lambda>w. user_AddressMode E w (bu_id u))) (\<lambda>mode. ret (mode = SplitMode)))) us (ret False)"

definition Bridge_SetAddressMode ::
  "'e vault_env \<Rightarrow> 'e user_world \<Rightarrow> string \<Rightarrow> VaultAddressMode \<Rightarrow> ('e, unit) action" where
  "Bridge_SetAddressMode E W userID mode b =
     (case map_of (br_users b) userID of
        None \<Rightarrow> throw ErrNoSuchUser b
      | Some u \<Rightarrow>
          bnd (vread (\<lambda>w. user_AddressMode E w (bu_id u))) (\<lambda>current.
          if current = mode then throw (Plain ''address mode is already set'')
          else bnd (wrapping ''failed to set address mode'' (User_SetAddressMode E W mode u)) (\<lambda>_.
               bnd (bridge_publish (BAddressModeChanged userID mode)) (\<lambda>_.
               bnd (any_split E (br_users b)) (\<lambda>split b2.
                 (Some (Inr ()), b2\<lparr>br_split := split\<rparr>))))) b)"

definition SendBadEventUserFeedback :: "'e vault_env \<Rightarrow> 'e user_world \<Rightarrow> string \<Rightarrow> bool \<Rightarrow> ('e, unit) action" where
  "SendBadEventUserFeedback E W userID doResync b =
     (case map_of (br_users b) userID of
        None \<Rightarrow> throw ErrNoSuchUser b
      | Some u \<Rightarrow>
          if doResync then BadEventFeedbackResync W u b
          else bnd (logoutUser E W u True False) (\<lambda>_. bridge_publish (BUserLoggedOut userID)) b)"

subsubsection \<open>Loading\<close>

definition loadUser :: "'e vault_env \<Rightarrow> 'e login_world \<Rightarrow> string \<Rightarrow> ('e, unit) action" where
  "loadUser E L user =
     bnd (vread (\<lambda>w. user_AuthUID E w user)) (\<lambda>authUID.
     bnd (vread (\<lambda>w. user_AuthRef E w user)) (\<lambda>authRef.
     case lw_refresh L of
       Inl err \<Rightarrow>
         bnd (if errors_As_code err = Some AuthRefreshTokenInvalid then logged (vop (\<lambda>w. user_Clear E w user)) else ret ()) (\<lambda>_.
           throw (Wrapped ''failed to create API client'' err))
     | Inr auth \<Rightarrow>
         bnd (wrapping ''failed to set auth'' (vop (\<lambda>w. user_SetAuth E w user (at_UID auth) (at_RefreshToken auth)))) (\<lambda>_.
         bnd (wrapping ''failed to get user'' (outcome_val (lw_GetUser L))) (\<lambda>apiUser.
         bnd (vread (\<lambda>w. user_KeyPass E w user)) (\<lambda>keyPass.
         bnd (wrapping ''failed to add user'' (addUser E L apiUser (at_UID auth) (at_RefreshToken auth) keyPass False)) (\<lambda>_.
         bnd (vread (\<lambda>w. user_PrimaryEmail E w user)) (\<lambda>email.
           if email \<noteq> au_Email apiUser
           then wrapping ''failed to modify user primary email'' (vop (\<lambda>w. user_SetPrimaryEmail E w user (au_Email apiUser)))
           else ret ())))))))"

definition report_load :: "'e vault_env \<Rightarrow> string \<Rightarrow> string \<Rightarrow> 'e go_err + unit \<Rightarrow> ('e, unit) action" where
  "report_load E user i r =
     (case r of
        Inl _ \<Rightarrow> bnd (vread (\<lambda>w. user_AuthUID E w user)) (\<lambda>authUID. bridge_publish (BUserLoadFail i authUID))
      | Inr _ \<Rightarrow> bridge_publish (BUserLoadSuccess i))"

definition load_unless_loaded :: "'e vault_env \<Rightarrow> 'e login_world \<Rightarrow> string \<Rightarrow> string \<Rightarrow> ('e, unit) action" where
  "load_unless_loaded E L user i b =
     (if map_of (br_users b) i \<noteq> None then ret () b
      else bnd (bridge_publish (BUserLoading i)) (\<lambda>_. bnd (attempt (loadUser E L user)) (report_load E user i)) b)"

text \<open>The function that \<open>loadUsers\<close> runs for a user of the vault.\<close>

definition loadVaultUser :: "'e vault_env \<Rightarrow> 'e login_world \<Rightarrow> string \<Rightarrow> ('e, unit) action" where
  "loadVaultUser E L user =
     bnd (vread (\<lambda>w. user_AuthUID E w user)) (\<lambda>authUID.
     if authUID = [] then ret ()
     else bnd (vread (\<lambda>w. user_UserID E w user)) (load_unless_loaded E L user))"

text \<open>
  \<open>loadUsers\<close> runs on all users of the vault with \<^verbatim>\<open>ForUser\<close>, which opens a handle for each of them, works on them in parallel (here in
  the order of the vault, each with its own answers of the API) and closes the handles.
\<close>

fun load_each :: "'e vault_env \<Rightarrow> (string \<Rightarrow> 'e login_world) \<Rightarrow> string list \<Rightarrow> ('e, unit) action" where
  "load_each E L [] = ret ()"
| "load_each E L (u # us) = bnd (loadVaultUser E (L u) u) (\<lambda>_. load_each E L us)"

fun close_each :: "string list \<Rightarrow> ('e, unit) action" where
  "close_each [] = ret ()"
| "close_each (u # us) = bnd (logged (closeVaultUser u)) (\<lambda>_. close_each us)"

definition loadUsers :: "'e vault_env \<Rightarrow> (string \<Rightarrow> 'e login_world) \<Rightarrow> ('e, unit) action" where
  "loadUsers E L =
     bnd (vop (\<lambda>w. getUsers E w)) (\<lambda>users.
     bnd (load_each E L users) (\<lambda>_. close_each users))"

subsubsection \<open>Events of a user\<close>

definition handleUserDeauth :: "'e vault_env \<Rightarrow> 'e user_world \<Rightarrow> buser \<Rightarrow> ('e, unit) action" where
  "handleUserDeauth E W u = logoutUser E W u False False"

definition User_OnBadEvent :: "'e user_world \<Rightarrow> ('e, unit) action" where
  "User_OnBadEvent W = logged (outcome (uw_onBadEvent W))"

definition handleUserBadEvent :: "'e user_world \<Rightarrow> ('e, unit) action" where
  "handleUserBadEvent W = User_OnBadEvent W"

definition handleUserEvent :: "'e vault_env \<Rightarrow> 'e user_world \<Rightarrow> buser \<Rightarrow> user_event \<Rightarrow> ('e, unit) action" where
  "handleUserEvent E W u ev =
     (case ev of
        UserDeauth _ \<Rightarrow> handleUserDeauth E W u
      | UserBadEventEmptyID _ \<Rightarrow> handleUserBadEvent W
      | UserLoadedCheckResync _ \<Rightarrow> VerifyResyncAndExecute E W u)"

text \<open>The task that ranges over the channel of a user: one event is taken from the queue, handled and forwarded.\<close>

definition user_event_step :: "'e vault_env \<Rightarrow> 'e user_world \<Rightarrow> string \<Rightarrow> ('e, unit) action" where
  "user_event_step E W userID b =
     (case map_of (br_users b) userID of
        None \<Rightarrow> ret () b
      | Some u \<Rightarrow>
          (case bu_eventCh u of
             Some (ev # evs) \<Rightarrow>
               (let u1 = u\<lparr>bu_eventCh := Some evs\<rparr> in
                bnd (put_buser u1) (\<lambda>_. bnd (handleUserEvent E W u1 ev) (\<lambda>_. bridge_publish (BUserEvent ev))) b)
           | _ \<Rightarrow> ret () b))"

end
