(* ===== verification/Bridge_Accounts.thy ===== *)
theory Bridge_Accounts
  imports Bridge_Users
begin

section \<open>Accounts: reasoning and results\<close>

text \<open>
  A small Hoare logic for the actions of \<open>Bridge_Users\<close>, triples for every operation on accounts, and the invariant of the table of
  connected users over all of them (\<open>bridge_step\<close>).
\<close>

subsection \<open>Reasoning about actions\<close>

text \<open>
  \<open>hoare P m Q\<close>: from a state with \<open>P\<close> the action ends with a result and a state that satisfy \<open>Q\<close>. The result is \<open>None\<close> for a panic, so that a
  postcondition can exclude it.
\<close>

definition hoare :: "('e bridge \<Rightarrow> bool) \<Rightarrow> ('e, 'r) action \<Rightarrow> (('e go_err + 'r) option \<Rightarrow> 'e bridge \<Rightarrow> bool) \<Rightarrow> bool" where
  "hoare P m Q \<longleftrightarrow> (\<forall>b. P b \<longrightarrow> (case m b of (r, b') \<Rightarrow> Q r b'))"

lemma hoareD: "hoare P m Q \<Longrightarrow> P b \<Longrightarrow> m b = (r, b') \<Longrightarrow> Q r b'"
  by (fastforce simp: hoare_def)

lemma hoare_post: "hoare P m Q \<Longrightarrow> (\<And>r b. Q r b \<Longrightarrow> Q' r b) \<Longrightarrow> hoare P m Q'"
  by (fastforce simp: hoare_def split: prod.splits)

lemma hoare_pre: "hoare P m Q \<Longrightarrow> (\<And>b. P' b \<Longrightarrow> P b) \<Longrightarrow> hoare P' m Q"
  by (simp add: hoare_def)

lemma hoare_disj: "hoare P m Q \<Longrightarrow> hoare P' m Q \<Longrightarrow> hoare (\<lambda>b. P b \<or> P' b) m Q"
  by (auto simp: hoare_def)

lemma hoare_fact: "(c \<Longrightarrow> hoare P m Q) \<Longrightarrow> hoare (\<lambda>b. c \<and> P b) m Q"
  by (auto simp: hoare_def)

lemma hoare_ex: "(\<And>x. hoare (P x) m Q) \<Longrightarrow> hoare (\<lambda>b. \<exists>x. P x b) m Q"
  by (fastforce simp: hoare_def)

lemma hoare_after: "hoare P m Q \<Longrightarrow> (\<And>b. P' b \<Longrightarrow> P (f b)) \<Longrightarrow> hoare P' (\<lambda>b. m (f b)) Q"
  by (simp add: hoare_def)

lemma hoare_ret: "(\<And>b. P b \<Longrightarrow> Q (Some (Inr x)) b) \<Longrightarrow> hoare P (ret x) Q"
  by (simp add: hoare_def ret_def)

lemma hoare_throw: "(\<And>b. P b \<Longrightarrow> Q (Some (Inl e)) b) \<Longrightarrow> hoare P (throw e) Q"
  by (simp add: hoare_def throw_def)

lemma hoare_bnd:
  assumes "hoare P m (\<lambda>r b. case r of Some (Inr x) \<Rightarrow> R x b | Some (Inl e) \<Rightarrow> Q (Some (Inl e)) b | None \<Rightarrow> Q None b)"
    and "\<And>x. hoare (R x) (f x) Q"
  shows "hoare P (bnd m f) Q"
  using assms by (fastforce simp: hoare_def bnd_def split: prod.splits option.splits sum.splits)

lemma hoare_wrapping:
  "hoare P m (\<lambda>r. case r of Some (Inl e) \<Rightarrow> Q (Some (Inl (Wrapped s e))) | _ \<Rightarrow> Q r) \<Longrightarrow> hoare P (wrapping s m) Q"
  by (fastforce simp: hoare_def wrapping_def split: prod.splits option.splits sum.splits)

lemma hoare_logged:
  "hoare P m (\<lambda>r. case r of None \<Rightarrow> Q None | Some _ \<Rightarrow> Q (Some (Inr ()))) \<Longrightarrow> hoare P (logged m) Q"
  by (fastforce simp: hoare_def logged_def split: prod.splits option.splits)

lemma hoare_attempt:
  "hoare P m (\<lambda>r. case r of None \<Rightarrow> Q None | Some x \<Rightarrow> Q (Some (Inr x))) \<Longrightarrow> hoare P (attempt m) Q"
  by (fastforce simp: hoare_def attempt_def split: prod.splits option.splits)

lemma hoare_CatchVal:
  "hoare P m (\<lambda>r. case r of None \<Rightarrow> Q (Some (Inl PanicErr)) | Some x \<Rightarrow> Q (Some x)) \<Longrightarrow> hoare P (CatchVal m) Q"
  by (fastforce simp: hoare_def CatchVal_def split: prod.splits option.splits)

lemma hoare_outcome:
  "(\<And>b. P b \<Longrightarrow> r = None \<Longrightarrow> Q (Some (Inr ())) b) \<Longrightarrow> (\<And>b e. P b \<Longrightarrow> r = Some e \<Longrightarrow> Q (Some (Inl e)) b) \<Longrightarrow> hoare P (outcome r) Q"
  by (cases r) (auto simp: outcome_def intro: hoare_ret hoare_throw)

lemma hoare_outcome_val:
  "(\<And>b x. P b \<Longrightarrow> r = Inr x \<Longrightarrow> Q (Some (Inr x)) b) \<Longrightarrow> (\<And>b e. P b \<Longrightarrow> r = Inl e \<Longrightarrow> Q (Some (Inl e)) b) \<Longrightarrow> hoare P (outcome_val r) Q"
  by (cases r) (auto simp: outcome_val_def intro: hoare_ret hoare_throw)

text \<open>
  The assertion about a state: the vault's contents satisfy \<open>\<Phi>\<close>, user \<open>i\<close> has \<open>rf i\<close> open handles, the connected users are \<open>us\<close>, and the coming
  operations on the vault meet worlds with \<open>G\<close>.
\<close>

definition refmap :: "(string \<Rightarrow> nat) \<Rightarrow> string \<rightharpoonup> int" where
  "refmap rf i = (if rf i = 0 then None else Some (int (rf i)))"

definition holds ::
  "'e vault_env \<Rightarrow> ('e vault_world \<Rightarrow> bool) \<Rightarrow> (Data \<Rightarrow> bool) \<Rightarrow> (string \<Rightarrow> nat) \<Rightarrow> (string \<times> buser) list \<Rightarrow> 'e bridge \<Rightarrow> bool" where
  "holds E G \<Phi> rf us b \<longleftrightarrow>
     (\<exists>data. vault_ok E (br_vault b) data \<and> \<Phi> data) \<and>
     map_of (v_ref (br_vault b)) = refmap rf \<and>
     (\<forall>n. G (br_worlds b n)) \<and> br_users b = us"

text \<open>Contents that stay within \<open>\<Phi>\<close> when the record of user \<open>i\<close> changes.\<close>

definition about :: "string \<Rightarrow> (Data \<Rightarrow> bool) \<Rightarrow> bool" where
  "about i \<Phi> \<longleftrightarrow> (\<forall>d. \<Phi> d \<longrightarrow> i \<in> set (user_ids d)) \<and>
     (\<forall>d u u'. \<Phi> d \<and> lookup_user i d = Some u \<and> ud_UserID u' = i \<longrightarrow> \<Phi> (put_user i u' d))"

definition upd :: "string \<Rightarrow> (UserData \<Rightarrow> UserData) \<Rightarrow> (Data \<Rightarrow> bool) \<Rightarrow> Data \<Rightarrow> bool" where
  "upd i f \<Phi> d \<longleftrightarrow> (\<exists>d0 u. \<Phi> d0 \<and> lookup_user i d0 = Some u \<and> d = put_user i (f u) d0)"

text \<open>The contents of the vault are those after a write, from a vault with \<open>ok\<close>, that reported an error.\<close>

definition write_failed ::
  "('e vault_world \<Rightarrow> bool) \<Rightarrow> (vault \<Rightarrow> bool) \<Rightarrow> ('e vault_world \<Rightarrow> vault \<Rightarrow> ('e, 'r) vault_result) \<Rightarrow> 'e bridge \<Rightarrow> bool" where
  "write_failed G ok op b \<longleftrightarrow> (\<exists>w v e v'. G w \<and> ok v \<and> op w v = Some (Inl e, v') \<and> v_enc v' = v_enc (br_vault b))"

definition clear_failed :: "'e vault_env \<Rightarrow> ('e vault_world \<Rightarrow> bool) \<Rightarrow> string \<Rightarrow> 'e bridge \<Rightarrow> bool" where
  "clear_failed E G i b \<longleftrightarrow> write_failed G (\<lambda>_. True) (\<lambda>w. user_Clear E w i) b"

definition delete_failed :: "'e vault_env \<Rightarrow> ('e vault_world \<Rightarrow> bool) \<Rightarrow> string \<Rightarrow> 'e bridge \<Rightarrow> bool" where
  "delete_failed E G i b \<longleftrightarrow> write_failed G (\<lambda>v. map_of (v_ref v) i = None) (\<lambda>w. DeleteUser E w i) b"

definition add_failed :: "'e vault_env \<Rightarrow> ('e vault_world \<Rightarrow> bool) \<Rightarrow> string \<Rightarrow> 'e bridge \<Rightarrow> bool" where
  "add_failed E G i b \<longleftrightarrow>
     (\<exists>w2 name email uid ref key. G w2 \<and> write_failed G (\<lambda>_. True) (\<lambda>w. GetOrAddUser E w w2 i name email uid ref key) b)"

definition secrets_gone :: "'e vault_env \<Rightarrow> ('e vault_world \<Rightarrow> bool) \<Rightarrow> string \<Rightarrow> 'e bridge \<Rightarrow> bool" where
  "secrets_gone E G i b \<longleftrightarrow>
     (\<exists>d. contents E (br_vault b) d \<and>
        (\<forall>u. lookup_user i d = Some u \<longrightarrow> ud_AuthUID u = [] \<and> ud_AuthRef u = [] \<and> ud_KeyPass u = [])) \<or>
     clear_failed E G i b \<or> add_failed E G i b"

lemma next_worlds_all: "(\<forall>n. G (ws n)) \<Longrightarrow> G (next_worlds ws n)"
  by (simp add: next_worlds_def)

lemma hoare_vread:
  assumes "\<And>b d w. holds E G \<Phi> rf us b \<Longrightarrow> vault_ok E (br_vault b) d \<Longrightarrow> \<Phi> d \<Longrightarrow> \<exists>x. f w (br_vault b) = Some x \<and> R x"
  shows "hoare (holds E G \<Phi> rf us) (vread f) (\<lambda>r b. (\<exists>x. r = Some (Inr x) \<and> R x) \<and> holds E G \<Phi> rf us b)"
  unfolding hoare_def
proof (intro allI impI)
  fix b assume b: "holds E G \<Phi> rf us b"
  then obtain d where d: "vault_ok E (br_vault b) d" "\<Phi> d" by (auto simp: holds_def)
  obtain x where "f (br_worlds b 0) (br_vault b) = Some x" "R x" using assms[OF b d] by blast
  then show "case vread f b of (r, b') \<Rightarrow> (\<exists>x. r = Some (Inr x) \<and> R x) \<and> holds E G \<Phi> rf us b'"
    using b by (auto simp: vread_def holds_def next_worlds_all)
qed

lemma read_user:
  assumes "vault_ok E v d" "i \<in> set (user_ids d)"
  shows "\<exists>u. getUser E w i v = Some u \<and> lookup_user i d = Some u"
  using assms(2) lookup_user_None[of i d] getUser_contents[OF vault_okD(1)[OF assms(1)], of w i] by (cases "lookup_user i d") auto

lemma user_get_hoare:
  assumes "\<And>d. \<Phi> d \<Longrightarrow> i \<in> set (user_ids d)" "\<And>E w v. get E w v = map_option g (getUser E w i v)"
  shows "hoare (holds E G \<Phi> rf us) (vread (get E)) (\<lambda>r b. (\<exists>x. r = Some (Inr x) \<and> (\<exists>d u. \<Phi> d \<and> lookup_user i d = Some u \<and> x = g u)) \<and>
    holds E G \<Phi> rf us b)"
  by (rule hoare_vread) (use read_user assms in fastforce)

lemma user_set_hoare:
  assumes "codec_ok E" "\<And>w. G w \<Longrightarrow> tokens_ok w" "\<And>d. \<Phi> d \<Longrightarrow> i \<in> set (user_ids d)"
    and op: "\<And>w v. op w v = modUserUnsafe E w i (\<lambda>u. Some ((), f u)) v" "\<And>u. ud_UserID (f u) = ud_UserID u"
  shows "hoare (holds E G \<Phi> rf us) (vop op) (\<lambda>r b.
    (r = Some (Inr ()) \<and> holds E G (upd i f \<Phi>) rf us b) \<or>
    (\<exists>e. r = Some (Inl e) \<and> write_failed G (\<lambda>_. True) op b \<and> holds E G (\<lambda>d. \<Phi> d \<or> upd i f \<Phi> d) rf us b))"
  unfolding hoare_def
proof (intro allI impI)
  fix b assume b: "holds E G \<Phi> rf us b"
  then obtain d where d: "vault_ok E (br_vault b) d" "\<Phi> d" by (auto simp: holds_def)
  obtain u where u: "lookup_user i d = Some u" using read_user[OF d(1) assms(3)[OF d(2)]] by blast
  let ?w = "br_worlds b 0" and ?v = "br_vault b"
  have G: "G ?w" using b by (simp add: holds_def)
  have ok: "vault_ok E v' (put_user i (f u) d)" "upd i f \<Phi> (put_user i (f u) d)"
    if "contents E v' (put_user i (f u) d)" "v_ref v' = v_ref ?v" for v'
    using vault_ok_change[OF d(1) that] vault_okD(2)[OF d(1)] op(2) lookup_user_ID[OF u] d(2) u by (auto simp: upd_def)
  show "case vop op b of (r, b') \<Rightarrow>
    (r = Some (Inr ()) \<and> holds E G (upd i f \<Phi>) rf us b') \<or>
    (\<exists>e. r = Some (Inl e) \<and> write_failed G (\<lambda>_. True) op b' \<and> holds E G (\<lambda>d. \<Phi> d \<or> upd i f \<Phi> d) rf us b')"
  proof (cases rule: modUser_cases[OF assms(1) assms(2)[OF G] vault_okD(1)[OF d(1)] u, of "\<lambda>u. Some ((), f u)"])
    case 1
    then show ?thesis by simp
  next
    case (2 e)
    have "write_failed G (\<lambda>_. True) op (b\<lparr>br_worlds := next_worlds (br_worlds b), br_vault := ?v\<rparr>)"
      unfolding write_failed_def using 2 G op(1) by auto
    with 2 b d G show ?thesis by (auto simp: vop_def op(1) holds_def next_worlds_all)
  next
    case (3 e r u' v')
    have "write_failed G (\<lambda>_. True) op (b\<lparr>br_worlds := next_worlds (br_worlds b), br_vault := v'\<rparr>)"
      unfolding write_failed_def using 3 G op(1) by auto
    moreover have "holds E G (\<lambda>d. \<Phi> d \<or> upd i f \<Phi> d) rf us (b\<lparr>br_worlds := next_worlds (br_worlds b), br_vault := v'\<rparr>)"
      using 3 ok[of v'] b by (auto simp: holds_def next_worlds_all)
    ultimately show ?thesis using 3 G by (auto simp: vop_def op(1) Let_def)
  next
    case (4 r u' v')
    have "holds E G (upd i f \<Phi>) rf us (b\<lparr>br_worlds := next_worlds (br_worlds b), br_vault := v'\<rparr>)"
      using 4 ok[of v'] b by (auto simp: holds_def next_worlds_all)
    then show ?thesis using 4 by (auto simp: vop_def op(1) Let_def)
  qed
qed

lemma upd_about: "about i \<Phi> \<Longrightarrow> (\<And>u. ud_UserID (f u) = ud_UserID u) \<Longrightarrow> upd i f \<Phi> d \<Longrightarrow> \<Phi> d"
  using lookup_user_ID by (fastforce simp: about_def upd_def)

lemma holds_mono: "holds E G \<Phi> rf us b \<Longrightarrow> (\<And>d. \<Phi> d \<Longrightarrow> \<Psi> d) \<Longrightarrow> holds E G \<Psi> rf us b"
  by (auto simp: holds_def)

definition stays :: "'e vault_env \<Rightarrow> ('e vault_world \<Rightarrow> bool) \<Rightarrow> (Data \<Rightarrow> bool) \<Rightarrow> (string \<Rightarrow> nat) \<Rightarrow> (string \<times> buser) list \<Rightarrow>
  ('e go_err + 'r) option \<Rightarrow> 'e bridge \<Rightarrow> bool" where
  "stays E G \<Phi> rf us r b \<longleftrightarrow> r \<noteq> None \<and> holds E G \<Phi> rf us b"

lemma user_set_about:
  assumes "codec_ok E" "\<And>w. G w \<Longrightarrow> tokens_ok w" "about i \<Phi>"
    and op: "\<And>w v. op w v = modUserUnsafe E w i (\<lambda>u. Some ((), f u)) v" "\<And>u. ud_UserID (f u) = ud_UserID u"
  shows "hoare (holds E G \<Phi> rf us) (vop op) (stays E G \<Phi> rf us)"
proof -
  have "\<Phi> d \<Longrightarrow> i \<in> set (user_ids d)" for d using assms(3) by (auto simp: about_def)
  from user_set_hoare[OF assms(1,2) this op] show ?thesis
    by (rule hoare_post) (auto simp: stays_def intro: holds_mono upd_about[OF assms(3) op(2)])
qed

lemma user_get_about:
  assumes "about i \<Phi>" "\<And>w v. get w v = map_option g (getUser E w i v)"
  shows "hoare (holds E G \<Phi> rf us) (vread get) (\<lambda>r b. (\<exists>x. r = Some (Inr x)) \<and> holds E G \<Phi> rf us b)"
proof -
  have i: "\<Phi> d \<Longrightarrow> i \<in> set (user_ids d)" for d using assms(1) by (auto simp: about_def)
  show ?thesis
    by (rule hoare_post[OF hoare_vread[where R = "\<lambda>_. True"]]) (use read_user[OF _ i] assms(2) in fastforce)+
qed

lemmas user_defs =
  user_SyncStatus_def user_EventID_def user_AuthUID_def user_AuthRef_def user_KeyPass_def user_AddressMode_def user_PrimaryEmail_def
  user_UserID_def user_Username_def user_BridgePass_def user_GetShouldResync_def
  user_ClearSyncStatusWithoutEventID_def user_SetEventID_def user_Clear_def user_SetAuth_def user_SetAddressMode_def
  user_SetPrimaryEmail_def user_SetShouldSync_def

lemma closeVaultUser_hoare:
  fixes E :: "'e vault_env"
  shows "hoare (holds E G \<Phi> rf us) (closeVaultUser i) (stays E G \<Phi> (rf(i := rf i - 1)) us)"
  unfolding hoare_def
proof (intro allI impI)
  fix b assume b: "holds E G \<Phi> rf us b"
  obtain err :: "'e vault_err option" and v where c: "detachUser i (br_vault b) = (err, v)" by fastforce
  obtain d where d: "vault_ok E (br_vault b) d" "\<Phi> d" using b by (auto simp: holds_def)
  have m: "map_of (v_ref (br_vault b)) = refmap rf" using b by (simp add: holds_def)
  have "map_of (v_ref v) = refmap (rf(i := rf i - 1))"
    using c by (auto simp: m detachUser_def update_conv' delete_conv' refmap_def fun_eq_iff split: if_splits)
  then show "case closeVaultUser i b of (r, b') \<Rightarrow> stays E G \<Phi> (rf(i := rf i - 1)) us r b'"
    using b c d detach_ok[OF d(1) c] by (auto simp: closeVaultUser_def user_Close_def holds_def stays_def split: option.splits)
qed

subsubsection \<open>Adding and deleting a vault user\<close>

definition added :: "string \<Rightarrow> (Data \<Rightarrow> bool) \<Rightarrow> Data \<Rightarrow> bool" where
  "added i \<Phi> d \<longleftrightarrow> (\<exists>d0 u. \<Phi> d0 \<and> i \<notin> set (user_ids d0) \<and> ud_UserID u = i \<and> d = d0\<lparr>d_Users := d_Users d0 @ [u]\<rparr>)"

definition removed :: "string \<Rightarrow> (Data \<Rightarrow> bool) \<Rightarrow> Data \<Rightarrow> bool" where
  "removed i \<Phi> d \<longleftrightarrow> (\<exists>d0. \<Phi> d0 \<and> d_Users d = filter (\<lambda>u. ud_UserID u \<noteq> i) (d_Users d0))"

lemma update_first_append: "(\<forall>x\<in>set xs. \<not> P x) \<Longrightarrow> update_first P f (xs @ ys) = xs @ update_first P f ys"
  by (induction xs) auto

lemma about_added: "about i (added i \<Phi>)"
proof -
  have "put_user i u' (d0\<lparr>d_Users := d_Users d0 @ [u]\<rparr>) = d0\<lparr>d_Users := d_Users d0 @ [u']\<rparr>"
    if "i \<notin> set (user_ids d0)" "ud_UserID u = i" for d0 u u'
  proof -
    have "\<forall>x\<in>set (d_Users d0). ud_UserID x \<noteq> i" using that(1) by (auto simp: user_ids_def)
    then have "update_first (\<lambda>x. ud_UserID x = i) (\<lambda>_. u') (d_Users d0 @ [u]) = d_Users d0 @ [u']"
      using that(2) update_first_append[of "d_Users d0" "\<lambda>x. ud_UserID x = i" "\<lambda>_. u'" "[u]"] by simp
    then show ?thesis by (simp add: put_user_def)
  qed
  then show ?thesis unfolding about_def added_def by (auto simp: user_ids_def) metis
qed

lemma attach_refs:
  assumes "map_of (v_ref v) = refmap rf"
  shows "map_of (v_ref (attachUserUnsafe i v)) = refmap (rf(i := Suc (rf i)))"
  by (auto simp: assms attachUserUnsafe_def update_conv' refmap_def fun_eq_iff)

lemma holds_attach:
  assumes "holds E G \<Phi> rf us b" "\<And>d. \<Phi> d \<Longrightarrow> i \<in> set (user_ids d)"
  shows "holds E G \<Phi> (rf(i := Suc (rf i))) us (b\<lparr>br_vault := attachUserUnsafe i (br_vault b)\<rparr>)"
  using assms attach_refs[of "br_vault b" rf i] attach_ok[of E "br_vault b" _ i] by (fastforce simp: holds_def)

text \<open>One change of a user, for the operations that are not single setters.\<close>

definition evolved :: "string \<Rightarrow> Data \<Rightarrow> Data \<Rightarrow> bool" where
  "evolved i d d' \<longleftrightarrow> (\<forall>\<Phi>. about i \<Phi> \<longrightarrow> \<Phi> d \<longrightarrow> \<Phi> d')"

lemma evolved_refl [simp]: "evolved i d d" by (simp add: evolved_def)

lemma evolved_trans: "evolved i d1 d2 \<Longrightarrow> evolved i d2 d3 \<Longrightarrow> evolved i d1 d3" unfolding evolved_def by blast

lemma evolvedD: "evolved i d d' \<Longrightarrow> about i \<Phi> \<Longrightarrow> \<Phi> d \<Longrightarrow> \<Phi> d'" unfolding evolved_def by blast

lemma modUser_total:
  assumes "codec_ok E" "tokens_ok w" "vault_ok E v d" "i \<in> set (user_ids d)" "\<And>u. ud_UserID (f u) = ud_UserID u"
  obtains res v' d' where "modUserUnsafe E w i (\<lambda>u. Some ((), f u)) v = Some (res, v')" "vault_ok E v' d'" "v_ref v' = v_ref v"
    "evolved i d d'" "user_ids d' = user_ids d"
proof -
  obtain u where u: "lookup_user i d = Some u" using read_user[OF assms(3,4)] by blast
  have id: "ud_UserID (f u) = i" using assms(5) lookup_user_ID[OF u] by simp
  have put: "vault_ok E v' (put_user i (f u) d)" if "contents E v' (put_user i (f u) d)" "v_ref v' = v_ref v" for v'
    using vault_ok_change[OF assms(3) that] vault_okD(2)[OF assms(3)] id by simp
  have ab: "evolved i d (put_user i (f u) d)" using u id by (auto simp: evolved_def about_def)
  show thesis
  proof (cases rule: modUser_cases[OF assms(1,2) vault_okD(1)[OF assms(3)] u, of "\<lambda>u. Some ((), f u)"])
    case 1
    then show thesis by simp
  next
    case (2 e)
    then show thesis using 2 that[of "Inl e" v d] assms(3) by auto
  next
    case (3 e r u' v')
    then show thesis using 3 that[of "Inl e" v' "put_user i (f u) d"] put[of v'] ab id by auto
  next
    case (4 r u' v')
    then show thesis using that[of "Inr ()" v' "put_user i (f u) d"] put[of v'] ab id by auto
  qed
qed

lemma updateUsername_total:
  assumes "codec_ok E" "tokens_ok w" "vault_ok E v d" "i \<in> set (user_ids d)"
  obtains res v' d' where "updateUsernameUnsafe E w i name v = Some (res, v')" "vault_ok E v' d'" "v_ref v' = v_ref v"
    "evolved i d d'" "user_ids d' = user_ids d"
proof -
  obtain u where u: "getUser E w i v = Some u" using read_user[OF assms(3,4)] by blast
  show thesis
  proof (cases "blank name \<or> ud_Username u = name")
    case True
    then show thesis using that[of "Inr ()" v d] assms(3) u by (auto simp: updateUsernameUnsafe_def)
  next
    case False
    show thesis
      by (rule modUser_total[OF assms, of "\<lambda>u. u\<lparr>ud_Username := name\<rparr>"]) (use that False u in \<open>auto simp: updateUsernameUnsafe_def\<close>)
  qed
qed

lemma GetOrAdd_known:
  assumes "codec_ok E" "tokens_ok w" "tokens_ok w2" "vault_ok E v d" "i \<in> set (user_ids d)"
  obtains res v' d' where "GetOrAddUser E w w2 i name email authUID authRef keyPass v = Some (res, v')" "vault_ok E v' d'"
    "v_ref v' = v_ref (attachUserUnsafe i v)" "evolved i d d'" "\<forall>x. res = Inr x \<longrightarrow> x = (i, False)"
proof -
  let ?f = "\<lambda>u. u\<lparr>ud_AuthRef := authRef, ud_AuthUID := authUID, ud_KeyPass := keyPass\<rparr>"
  obtain k where k: "find_user i d = Some k" using assms(5) find_user_None[of i d] by (cases "find_user i d") auto
  note eq = GetOrAddUser_def contents_get[OF vault_okD(1)[OF assms(4)]] k setAuthAndKeyPassUnsafe_def
  obtain r1 v1 d1 where 1: "modUserUnsafe E w i (\<lambda>u. Some ((), ?f u)) (attachUserUnsafe i v) = Some (r1, v1)" "vault_ok E v1 d1"
    "v_ref v1 = v_ref (attachUserUnsafe i v)" "evolved i d d1" "user_ids d1 = user_ids d"
    by (rule modUser_total[OF assms(1,2) attach_ok[OF assms(4,5)] assms(5), of ?f]) auto
  show thesis
  proof (cases r1)
    case (Inl e)
    then show thesis using 1 that[of "Inl e" v1 d1] by (auto simp: eq)
  next
    case (Inr x)
    have i: "i \<in> set (user_ids d1)" using 1(5) assms(5) by simp
    obtain r2 v2 d2 where 2: "updateUsernameUnsafe E w2 i name v1 = Some (r2, v2)" "vault_ok E v2 d2"
      "v_ref v2 = v_ref v1" "evolved i d1 d2"
      by (rule updateUsername_total[OF assms(1,3) 1(2) i, of name]) auto
    show thesis
      using 1 2 Inr evolved_trans[OF 1(4) 2(4)] that[of "case r2 of Inl e \<Rightarrow> Inl e | Inr _ \<Rightarrow> Inr (i, False)" v2 d2]
      by (cases r2) (auto simp: eq)
  qed
qed

lemma GetOrAdd_new:
  assumes "codec_ok E" "tokens_ok w" "vault_ok E v d" "i \<notin> set (user_ids d)"
    and "GetOrAddUser E w w2 i name email authUID authRef keyPass v = Some (res, v')"
  obtains (added) d' u where "res = Inr (i, True)" "vault_ok E v' d'" "d' = d\<lparr>d_Users := d_Users d @ [u]\<rparr>" "ud_UserID u = i"
    "v_ref v' = v_ref (attachUserUnsafe i v)"
  | (failed) d' e u where "res = Inl e" "vault_ok E v' d'" "d' = d \<or> d' = d\<lparr>d_Users := d_Users d @ [u]\<rparr>" "ud_UserID u = i"
    "v_ref v' = v_ref v"
proof -
  let ?fn = "add_default E w i name email authUID authRef keyPass"
  have "find_user i d = None" using assms(4) by (simp add: find_user_None)
  note eq = GetOrAddUser_def contents_get[OF vault_okD(1)[OF assms(3)]] this addUser_eq
  have new: "\<not> r \<and> (\<exists>u. d' = d\<lparr>d_Users := d_Users d @ [u]\<rparr> \<and> ud_UserID u = i)" if "?fn d = Some (r, d')" for r d'
    using that assms(4) find_user_None[of i d] newDefaultUser_ID by (fastforce simp: add_default_def Let_def split: option.splits if_splits)
  have ok: "vault_ok E v1 d'" if "contents E v1 d'" "v_ref v1 = v_ref v" and fn: "?fn d = Some (r, d')" for v1 r d'
  proof -
    obtain u where "d' = d\<lparr>d_Users := d_Users d @ [u]\<rparr>" "ud_UserID u = i" using new[OF fn] by blast
    then show ?thesis using vault_ok_change[OF assms(3) that(1,2)] vault_okD(2)[OF assms(3)] assms(4) by (auto simp: user_ids_def)
  qed
  show thesis
  proof (cases rule: modUnsafe_cases[OF assms(1,2) vault_okD(1)[OF assms(3)], of ?fn])
    case 1
    then show thesis using assms(5) by (simp add: eq)
  next
    case (2 e r d')
    obtain u :: UserData where "ud_UserID u = i" using new[OF 2(1)] by blast
    then show thesis using 2 assms(3,5) failed[of e d u] by (auto simp: eq)
  next
    case (3 e r d' v1)
    obtain u where "d' = d\<lparr>d_Users := d_Users d @ [u]\<rparr>" "ud_UserID u = i" using new[OF 3(1)] by blast
    then show thesis using 3 ok[OF 3(3,4,1)] assms(5) failed[of e d' u] by (auto simp: eq)
  next
    case (4 r d' v1)
    obtain u where u: "d' = d\<lparr>d_Users := d_Users d @ [u]\<rparr>" "ud_UserID u = i" "\<not> r" using new[OF 4(1)] by blast
    have "vault_ok E (attachUserUnsafe i v1) d'" using attach_ok[OF ok[OF 4(3,4,1)]] u by (auto simp: user_ids_def)
    moreover have "v_ref (attachUserUnsafe i v1) = v_ref (attachUserUnsafe i v)" using 4(4) by (simp add: attachUserUnsafe_def)
    ultimately show thesis using 4 u assms(5) added[of d' u] by (auto simp: eq)
  qed
qed

lemma newVaultUser_known:
  assumes "codec_ok E" "\<And>w. G w \<Longrightarrow> tokens_ok w" "about i \<Phi>" "au_ID a = i"
  shows "hoare (holds E G \<Phi> rf us) (newVaultUser E a authUID authRef keyPass) (\<lambda>r b. holds E G \<Phi> (rf(i := Suc (rf i))) us b \<and>
    (r = Some (Inr (i, False)) \<or> (\<exists>e. r = Some (Inl e) \<and> add_failed E G i b)))"
  unfolding hoare_def
proof (intro allI impI)
  fix b assume b: "holds E G \<Phi> rf us b"
  then obtain d where d: "vault_ok E (br_vault b) d" "\<Phi> d" by (auto simp: holds_def)
  have G: "G (br_worlds b n)" for n using b by (simp add: holds_def)
  have i: "i \<in> set (user_ids d)" using assms(3) d(2) by (auto simp: about_def)
  obtain res v' d' where r: "GetOrAddUser E (br_worlds b 0) (br_worlds b 1) i (au_Name a) (au_Email a) authUID authRef keyPass (br_vault b) = Some (res, v')"
    "vault_ok E v' d'" "v_ref v' = v_ref (attachUserUnsafe i (br_vault b))" "evolved i d d'" "\<forall>x. res = Inr x \<longrightarrow> x = (i, False)"
    by (rule GetOrAdd_known[OF assms(1) assms(2)[OF G] assms(2)[OF G] d(1) i]) blast
  have "holds E G \<Phi> (rf(i := Suc (rf i))) us (b\<lparr>br_worlds := ws, br_vault := v'\<rparr>)" if "\<And>n. G (ws n)" for ws
    using r(2,3) evolvedD[OF r(4) assms(3) d(2)] b attach_refs[of "br_vault b" rf i] that by (auto simp: holds_def)
  then have holds: "holds E G \<Phi> (rf(i := Suc (rf i))) us (snd (newVaultUser E a authUID authRef keyPass b))"
    using r(1) G assms(4) by (auto simp: newVaultUser_def vop_def Let_def next_worlds_def split: sum.splits)
  show "case newVaultUser E a authUID authRef keyPass b of (r, b') \<Rightarrow> holds E G \<Phi> (rf(i := Suc (rf i))) us b' \<and>
    (r = Some (Inr (i, False)) \<or> (\<exists>e. r = Some (Inl e) \<and> add_failed E G i b'))"
  proof (cases res)
    case (Inl e)
    have "add_failed E G i (b\<lparr>br_worlds := ws, br_vault := v'\<rparr>)" for ws
      unfolding add_failed_def write_failed_def using G r(1)[unfolded Inl] by fastforce
    then show ?thesis using holds r(1) Inl assms(4) by (simp add: newVaultUser_def vop_def Let_def)
  next
    case (Inr x)
    then show ?thesis using holds r(1,5) assms(4) by (simp add: newVaultUser_def vop_def Let_def)
  qed
qed

lemma newVaultUser_new:
  assumes "codec_ok E" "\<And>w. G w \<Longrightarrow> tokens_ok w" "\<And>d. \<Phi> d \<Longrightarrow> i \<notin> set (user_ids d)" "au_ID a = i"
  shows "hoare (holds E G \<Phi> rf us) (newVaultUser E a authUID authRef keyPass) (\<lambda>r b.
    (r = None \<and> holds E G \<Phi> rf us b) \<or>
    (r = Some (Inr (i, True)) \<and> holds E G (added i \<Phi>) (rf(i := Suc (rf i))) us b) \<or>
    (\<exists>e. r = Some (Inl e) \<and> add_failed E G i b \<and> holds E G (\<lambda>d. \<Phi> d \<or> added i \<Phi> d) rf us b))"
  unfolding hoare_def
proof (intro allI impI)
  fix b assume b: "holds E G \<Phi> rf us b"
  then obtain d where d: "vault_ok E (br_vault b) d" "\<Phi> d" by (auto simp: holds_def)
  have G: "G (br_worlds b n)" for n using b by (simp add: holds_def)
  let ?ws = "next_worlds (\<lambda>n. br_worlds b (if n = 0 then 0 else Suc n))"
  have ws: "G (?ws n)" for n using G by (simp add: next_worlds_def)
  let ?r = "GetOrAddUser E (br_worlds b 0) (br_worlds b 1) i (au_Name a) (au_Email a) authUID authRef keyPass (br_vault b)"
  show "case newVaultUser E a authUID authRef keyPass b of (r, b) \<Rightarrow>
    (r = None \<and> holds E G \<Phi> rf us b) \<or>
    (r = Some (Inr (i, True)) \<and> holds E G (added i \<Phi>) (rf(i := Suc (rf i))) us b) \<or>
    (\<exists>e. r = Some (Inl e) \<and> add_failed E G i b \<and> holds E G (\<lambda>d. \<Phi> d \<or> added i \<Phi> d) rf us b)"
  proof (cases ?r)
    case None
    then show ?thesis using b ws assms(4) by (simp add: newVaultUser_def vop_def Let_def holds_def)
  next
    case (Some p)
    obtain res v' where p: "p = (res, v')" by fastforce
    have new: "i \<notin> set (user_ids d)" using assms(3) d(2) by blast
    show ?thesis
    proof (cases rule: GetOrAdd_new[OF assms(1) assms(2)[OF G] d(1) new Some[unfolded p]])
      case (1 d' u)
      then have "added i \<Phi> d'" using d(2) new by (auto simp: added_def)
      then have "holds E G (added i \<Phi>) (rf(i := Suc (rf i))) us (b\<lparr>br_worlds := ?ws, br_vault := v'\<rparr>)"
        using 1 b attach_refs[of "br_vault b" rf i] ws by (auto simp: holds_def)
      then show ?thesis using 1 Some p assms(4) by (simp add: newVaultUser_def vop_def Let_def)
    next
      case (2 d' e u)
      then have "\<Phi> d' \<or> added i \<Phi> d'" using d(2) new by (auto simp: added_def)
      then have "holds E G (\<lambda>d. \<Phi> d \<or> added i \<Phi> d) rf us (b\<lparr>br_worlds := ?ws, br_vault := v'\<rparr>)"
        using 2 b ws by (auto simp: holds_def)
      moreover have "add_failed E G i (b\<lparr>br_worlds := ?ws, br_vault := v'\<rparr>)"
        unfolding add_failed_def write_failed_def using 2 G Some p by fastforce
      ultimately show ?thesis using 2 G Some p assms(4) by (auto simp: newVaultUser_def vop_def Let_def)
    qed
  qed
qed

lemma filter_take_drop:
  assumes "k < length us" "distinct (map ud_UserID us)"
  shows "take k us @ drop (Suc k) us = filter (\<lambda>u. ud_UserID u \<noteq> ud_UserID (us ! k)) us"
proof -
  define xs ys where "xs = take k us" and "ys = drop (Suc k) us"
  have us: "us = xs @ us ! k # ys" using id_take_nth_drop[OF assms(1)] unfolding xs_def ys_def .
  then have "\<forall>u\<in>set xs \<union> set ys. ud_UserID u \<noteq> ud_UserID (us ! k)" using assms(2) by (metis (no_types, lifting) UnE distinct.simps(2) distinct_append image_eqI insert_iff list.set(2) list.set_map list.simps(9) map_append not_distinct_conv_prefix disjoint_insert(1))
  then have "filter (\<lambda>u. ud_UserID u \<noteq> ud_UserID (us ! k)) (xs @ us ! k # ys) = xs @ ys" by (simp add: filter_id_conv)
  then have "filter (\<lambda>u. ud_UserID u \<noteq> ud_UserID (us ! k)) us = xs @ ys" using us by argo
  then show ?thesis unfolding xs_def ys_def ..
qed

lemma DeleteUser_hoare:
  assumes "codec_ok E" "\<And>w. G w \<Longrightarrow> tokens_ok w" "rf i = 0"
  shows "hoare (holds E G \<Phi> rf us) (vop (\<lambda>w. DeleteUser E w i)) (\<lambda>r b.
    (r = Some (Inr ()) \<and> holds E G (removed i \<Phi>) rf us b) \<or>
    (\<exists>e. r = Some (Inl e) \<and> delete_failed E G i b \<and> holds E G (\<lambda>d. \<Phi> d \<or> removed i \<Phi> d) rf us b))"
  unfolding hoare_def
proof (intro allI impI)
  fix b assume b: "holds E G \<Phi> rf us b"
  then obtain d where d: "vault_ok E (br_vault b) d" "\<Phi> d" by (auto simp: holds_def)
  let ?w = "br_worlds b 0" and ?v = "br_vault b" and ?ws = "next_worlds (br_worlds b)"
  have G: "G (br_worlds b n)" for n using b by (simp add: holds_def)
  have free: "map_of (v_ref ?v) i = None" using b assms(3) by (simp add: holds_def refmap_def)
  obtain fn where fn: "DeleteUser E ?w i ?v = modUnsafe E ?w fn ?v"
    and eff: "\<And>d. \<exists>d'. fn d = Some ((), d') \<and> d_Users d' = (case find_user i d of None \<Rightarrow> d_Users d | Some k \<Rightarrow> take k (d_Users d) @ drop (Suc k) (d_Users d))"
    by (atomize_elim, rule exI, rule conjI, simp add: DeleteUser_def free) (auto simp: Let_def split: option.splits)
  obtain d' where d': "fn d = Some ((), d')" "d_Users d' = filter (\<lambda>u. ud_UserID u \<noteq> i) (d_Users d)"
  proof -
    obtain d' where e: "fn d = Some ((), d')" "d_Users d' = (case find_user i d of None \<Rightarrow> d_Users d | Some k \<Rightarrow> take k (d_Users d) @ drop (Suc k) (d_Users d))"
      using eff[of d] by blast
    have "d_Users d' = filter (\<lambda>u. ud_UserID u \<noteq> i) (d_Users d)"
    proof (cases "find_user i d")
      case None
      then have "\<forall>u\<in>set (d_Users d). ud_UserID u \<noteq> i" using find_user_None[of i d] by (auto simp: user_ids_def)
      then show ?thesis using e(2) None by (simp add: filter_id_conv)
    next
      case (Some k)
      then show ?thesis
        using e(2) filter_take_drop[of k "d_Users d"] find_user_Some[OF Some] vault_okD(2)[OF d(1)] by (simp add: user_ids_def)
    qed
    then show thesis using that e(1) by blast
  qed
  have rem: "removed i \<Phi> d'" using d(2) d'(2) by (auto simp: removed_def)
  have "user_ids d' = filter (\<lambda>x. x \<noteq> i) (user_ids d)" using d'(2) by (simp add: user_ids_def filter_map o_def)
  then have ids: "distinct (user_ids d')" "dom (map_of (v_ref ?v)) \<subseteq> set (user_ids d')"
    using vault_okD(2)[OF d(1)] vault_ok_refs[OF d(1)] free by (auto simp: dom_def)
  have H: "holds E G \<Psi> rf us (b\<lparr>br_worlds := ?ws, br_vault := v'\<rparr>)"
    if "vault_ok E v' d1" "\<Psi> d1" "v_ref v' = v_ref ?v" for v' \<Psi> d1
    using that b by (auto simp: holds_def next_worlds_all)
  obtain res v' where m: "modUnsafe E ?w fn ?v = Some (res, v')"
    by (rule modUnsafe_cases[OF assms(1) assms(2)[OF G[of 0]] vault_okD(1)[OF d(1)], of fn]) (use d'(1) in auto)
  obtain d1 where d1: "vault_ok E v' d1" "v_ref v' = v_ref ?v" "d1 = d \<or> d1 = d'"
    using modUnsafe_ok[OF assms(1) assms(2)[OF G] d(1) m] ids d'(1) by auto
  show "case vop (\<lambda>w. DeleteUser E w i) b of (r, b) \<Rightarrow>
    (r = Some (Inr ()) \<and> holds E G (removed i \<Phi>) rf us b) \<or>
    (\<exists>e. r = Some (Inl e) \<and> delete_failed E G i b \<and> holds E G (\<lambda>d. \<Phi> d \<or> removed i \<Phi> d) rf us b)"
  proof (cases res)
    case (Inl e)
    have "delete_failed E G i (b\<lparr>br_worlds := ?ws, br_vault := v'\<rparr>)"
      unfolding delete_failed_def write_failed_def using m Inl fn free G by fastforce
    moreover have "holds E G (\<lambda>d. \<Phi> d \<or> removed i \<Phi> d) rf us (b\<lparr>br_worlds := ?ws, br_vault := v'\<rparr>)"
      using H[OF d1(1), of "\<lambda>d. \<Phi> d \<or> removed i \<Phi> d"] d1 d(2) rem by auto
    ultimately show ?thesis using m fn Inl G by (auto simp: vop_def Let_def)
  next
    case (Inr x)
    have "d1 = d'"
      using modUnsafe_stored[OF assms(1) assms(2)[OF G] vault_okD(1)[OF d(1)] m[unfolded Inr]] d'(1)
        contents_unique[OF vault_okD(1)[OF d1(1)]] by auto
    then show ?thesis using m fn Inr H[OF d1(1) _ d1(2), of "removed i \<Phi>"] rem by (auto simp: vop_def Let_def)
  qed
qed

subsubsection \<open>Actions that only change the record of one user\<close>

text \<open>Such an action does not panic, keeps handles and connected users, and its value satisfies \<open>V\<close>.\<close>

definition safe ::
  "'e vault_env \<Rightarrow> ('e vault_world \<Rightarrow> bool) \<Rightarrow> (Data \<Rightarrow> bool) \<Rightarrow> (string \<Rightarrow> nat) \<Rightarrow> (string \<times> buser) list \<Rightarrow> ('r \<Rightarrow> bool) \<Rightarrow> ('e, 'r) action \<Rightarrow> bool" where
  "safe E G \<Phi> rf us V m \<longleftrightarrow>
     hoare (holds E G \<Phi> rf us) m (\<lambda>r b. holds E G \<Phi> rf us b \<and> (\<exists>x. r = Some x \<and> (\<forall>y. x = Inr y \<longrightarrow> V y)))"

named_theorems safe_rules

lemma holds_other [simp]:
  "holds E G \<Phi> rf us (b\<lparr>br_disk := x1\<rparr>) = holds E G \<Phi> rf us b"
  "holds E G \<Phi> rf us (b\<lparr>br_published := x2\<rparr>) = holds E G \<Phi> rf us b"
  "holds E G \<Phi> rf us (b\<lparr>br_deleted := x3\<rparr>) = holds E G \<Phi> rf us b"
  "holds E G \<Phi> rf us (b\<lparr>br_observed := x4\<rparr>) = holds E G \<Phi> rf us b"
  "holds E G \<Phi> rf us (b\<lparr>br_accounts := x5\<rparr>) = holds E G \<Phi> rf us b"
  "holds E G \<Phi> rf us (b\<lparr>br_split := x6\<rparr>) = holds E G \<Phi> rf us b"
  "holds E G \<Phi> rf us (b\<lparr>br_plans := x7\<rparr>) = holds E G \<Phi> rf us b"
  by (simp_all add: holds_def)

lemma safe_bnd:
  "safe E G \<Phi> rf us V m \<Longrightarrow> (\<And>x. V x \<Longrightarrow> safe E G \<Phi> rf us W (f x)) \<Longrightarrow> safe E G \<Phi> rf us W (bnd m f)"
  unfolding safe_def
  by (rule hoare_bnd[where R = "\<lambda>x b. V x \<and> holds E G \<Phi> rf us b"]) (fastforce elim!: hoare_post hoare_pre split: sum.splits option.splits simp: hoare_def)+

lemmas safe_then [safe_rules] = safe_bnd[where V = "\<lambda>_. True"]

lemma safe_weaken: "safe E G \<Phi> rf us V m \<Longrightarrow> (\<And>x. V x \<Longrightarrow> W x) \<Longrightarrow> safe E G \<Phi> rf us W m"
  unfolding safe_def by (erule hoare_post) auto

lemma safe_simple [safe_rules]:
  "V x \<Longrightarrow> safe E G \<Phi> rf us V (ret x)"
  "safe E G \<Phi> rf us V (throw e)"
  "safe E G \<Phi> rf us (\<lambda>_. True) (outcome r1)"
  "safe E G \<Phi> rf us (\<lambda>_. True) (outcome_val r2)"
  "safe E G \<Phi> rf us (\<lambda>_. True) (bridge_publish ev)"
  "safe E G \<Phi> rf us (\<lambda>_. True) (AuthDelete ok session)"
  "safe E G \<Phi> rf us (\<lambda>_. True) (RegisterUserClient i)"
  "safe E G \<Phi> rf us (\<lambda>_. True) (DeregisterUserClient i)"
  by (auto simp: safe_def hoare_def ret_def throw_def outcome_def outcome_val_def bridge_publish_def AuthDelete_def RegisterUserClient_def
      DeregisterUserClient_def split: option.splits sum.splits)

lemma safe_wrapping [safe_rules]: "safe E G \<Phi> rf us V m \<Longrightarrow> safe E G \<Phi> rf us V (wrapping s m)"
  unfolding safe_def by (rule hoare_wrapping, erule hoare_post) (auto split: sum.splits)

lemma safe_logged [safe_rules]: "safe E G \<Phi> rf us (\<lambda>_. True) m \<Longrightarrow> safe E G \<Phi> rf us (\<lambda>_. True) (logged m)"
  unfolding safe_def by (rule hoare_logged, erule hoare_post) auto

lemma safe_attempt:
  "safe E G \<Phi> rf us V m \<Longrightarrow> safe E G \<Phi> rf us (\<lambda>r. \<forall>x. r = Inr x \<longrightarrow> V x) (attempt m)"
  unfolding safe_def by (rule hoare_attempt, erule hoare_post) auto

lemma safe_attempt_any [safe_rules]: "safe E G \<Phi> rf us (\<lambda>_. True) m \<Longrightarrow> safe E G \<Phi> rf us (\<lambda>_. True) (attempt m)"
  by (rule safe_weaken[OF safe_attempt]) auto

lemma safe_if [safe_rules]:
  "(c \<Longrightarrow> safe E G \<Phi> rf us V m) \<Longrightarrow> (\<not> c \<Longrightarrow> safe E G \<Phi> rf us V m') \<Longrightarrow> safe E G \<Phi> rf us V (if c then m else m')"
  by simp

lemma safe_sum [safe_rules]:
  "(\<And>e. r = Inl e \<Longrightarrow> safe E G \<Phi> rf us V (f e)) \<Longrightarrow> (\<And>x. r = Inr x \<Longrightarrow> safe E G \<Phi> rf us V (g x)) \<Longrightarrow>
   safe E G \<Phi> rf us V (case r of Inl e \<Rightarrow> f e | Inr x \<Rightarrow> g x)"
  by (cases r) auto

lemma safe_let [safe_rules]: "safe E G \<Phi> rf us V (f x) \<Longrightarrow> safe E G \<Phi> rf us V (let y = x in f y)"
  by simp

lemma safe_set:
  assumes "codec_ok E" "\<And>w. G w \<Longrightarrow> tokens_ok w" "about i \<Phi>"
    and "\<And>w v. op w v = modUserUnsafe E w i (\<lambda>u. Some ((), f u)) v" "\<And>u. ud_UserID (f u) = ud_UserID u"
  shows "safe E G \<Phi> rf us (\<lambda>_. True) (vop op)"
  unfolding safe_def by (rule hoare_post[OF user_set_about[OF assms]]) (auto simp: stays_def)

lemma safe_get:
  assumes "about i \<Phi>" "\<And>w v. get w v = map_option g (getUser E w i v)"
  shows "safe E G \<Phi> rf us (\<lambda>_. True) (vread get)"
  unfolding safe_def by (rule hoare_post[OF user_get_about[OF assms]]) auto

lemma safe_closeVaultUser: "rf i = 0 \<Longrightarrow> safe E G \<Phi> rf us (\<lambda>_. True) (closeVaultUser i)"
  unfolding safe_def by (rule hoare_post[OF closeVaultUser_hoare]) (auto simp: stays_def fun_upd_idem)

lemma safe_gets [safe_rules]:
  assumes "about i \<Phi>"
  shows "safe E G \<Phi> rf us (\<lambda>_. True) (vread (\<lambda>w. user_UserID E w i))"
    "safe E G \<Phi> rf us (\<lambda>_. True) (vread (\<lambda>w. user_AuthUID E w i))"
    "safe E G \<Phi> rf us (\<lambda>_. True) (vread (\<lambda>w. user_AuthRef E w i))"
    "safe E G \<Phi> rf us (\<lambda>_. True) (vread (\<lambda>w. user_KeyPass E w i))"
    "safe E G \<Phi> rf us (\<lambda>_. True) (vread (\<lambda>w. user_AddressMode E w i))"
    "safe E G \<Phi> rf us (\<lambda>_. True) (vread (\<lambda>w. user_PrimaryEmail E w i))"
    "safe E G \<Phi> rf us (\<lambda>_. True) (vread (\<lambda>w. user_SyncStatus E w i))"
    "safe E G \<Phi> rf us (\<lambda>_. True) (vread (\<lambda>w. user_EventID E w i))"
    "safe E G \<Phi> rf us (\<lambda>_. True) (vread (\<lambda>w. user_GetShouldResync E w i))"
  by (rule safe_get[OF assms], simp add: user_defs)+

context user_setter
begin

lemma safe_op:
  assumes "codec_ok E" "\<And>w. G w \<Longrightarrow> tokens_ok w" "about i \<Phi>"
  shows "safe E G \<Phi> rf us (\<lambda>_. True) (vop (\<lambda>w. op E w i))"
  by (rule safe_set[OF assms op_eq keeps_id])

end

lemmas safe_sets =
  SetPrimaryEmail.safe_op SetAddressMode.safe_op SetAuth.safe_op SetEventID.safe_op Clear.safe_op SetShouldSync.safe_op
  ClearSyncStatusWithoutEventID.safe_op

lemma migrate_safe:
  assumes "codec_ok E" "\<And>w. G w \<Longrightarrow> tokens_ok w" "about i \<Phi>"
  shows "safe E G \<Phi> rf us (\<lambda>_. True) (migrateSyncStatusFromVault E W dir i)"
  unfolding migrateSyncStatusFromVault_def
proof (rule safe_bnd[OF safe_gets(7)[OF assms(3)]])
  fix st
  let ?m = "\<lambda>b. MigrateVaultSettings (uw_readErr W) (GetSyncConfigPath dir i) (vss_HasLabels st) (vss_HasMessages st) (vss_FailedMessageIDs st) (br_disk b)"
  let ?clear = "\<lambda>migrated. if migrated then wrapping ''failed to clear sync settings from vault''
    (vop (\<lambda>w. user_ClearSyncStatusWithoutEventID E w i)) else ret ()"
  have "safe E G \<Phi> rf us (\<lambda>_. True) (?clear migrated)" for migrated
    by (intro safe_rules ClearSyncStatusWithoutEventID.safe_op assms) auto
  then have c: "case ?clear migrated b of (r, b') \<Rightarrow> holds E G \<Phi> rf us b' \<and> r \<noteq> None" if "holds E G \<Phi> rf us b" for migrated b
    using that unfolding safe_def hoare_def by (auto split: prod.splits)
  show "safe E G \<Phi> rf us (\<lambda>_. True) (\<lambda>b. case ?m b of
         ((migrated, Some e), d) \<Rightarrow> (Some (Inl (Wrapped ''failed to migrate user sync settings'' (SyncE e))), b\<lparr>br_disk := d\<rparr>)
       | ((migrated, None), d) \<Rightarrow> ?clear migrated (b\<lparr>br_disk := d\<rparr>))"
    unfolding safe_def hoare_def
  proof (intro allI impI)
    fix b assume b: "holds E G \<Phi> rf us b"
    obtain migrated err d where m: "?m b = ((migrated, err), d)" by (metis surj_pair)
    have "holds E G \<Phi> rf us (b\<lparr>br_disk := d\<rparr>)" using b by simp
    from c[OF this, of migrated]
    show "case (case ?m b of
         ((migrated, Some e), d) \<Rightarrow> (Some (Inl (Wrapped ''failed to migrate user sync settings'' (SyncE e))), b\<lparr>br_disk := d\<rparr>)
       | ((migrated, None), d) \<Rightarrow> ?clear migrated (b\<lparr>br_disk := d\<rparr>)) of (r, b) \<Rightarrow> holds E G \<Phi> rf us b \<and> (\<exists>x. r = Some x \<and> (\<forall>y. x = Inr y \<longrightarrow> True))"
      using b by (cases err) (auto simp: m split: prod.splits)
  qed
qed

lemma checkEventID_safe: "safe E G \<Phi> rf us (\<lambda>u. bu_id u = bu_id p) (checkIrrecoverableEventID W ev i dir p)"
  by (auto simp: safe_def hoare_def checkIrrecoverableEventID_def ret_def throw_def PublishEventTo_def split: sum.splits)

lemma eventService_Start_safe:
  assumes "codec_ok E" "\<And>w. G w \<Longrightarrow> tokens_ok w" "about i \<Phi>"
  shows "safe E G \<Phi> rf us (\<lambda>_. True) (eventService_Start E W i)"
  unfolding eventService_Start_def by (intro safe_rules SetEventID.safe_op assms) auto

text \<open>\<open>newImpl\<close> never panics; the user object it returns, if any, is the one of the account.\<close>

definition new_value :: "string \<Rightarrow> ('e go_err \<times> buser option) + buser \<Rightarrow> bool" where
  "new_value i x = (case x of Inr u \<Rightarrow> bu_id u = i | Inl (e, Some u) \<Rightarrow> bu_id u = i | Inl (e, None) \<Rightarrow> True)"

lemma newImpl_safe:
  assumes "codec_ok E" "\<And>w. G w \<Longrightarrow> tokens_ok w" "about i \<Phi>"
  shows "safe E G \<Phi> rf us (new_value i) (newImpl E W i session dir isNew)"
proof -
  note rules = safe_rules migrate_safe[OF assms] eventService_Start_safe[OF assms] assms(3)
  let ?u = "\<lambda>plan. \<lparr>bu_id = i, bu_userPlan = plan, bu_session = session, bu_client = True, bu_services = [],
                    bu_eventsPaused = True, bu_eventCh = Some []\<rparr>"
  have check: "safe E G \<Phi> rf us (\<lambda>u. bu_id u = i) (checkIrrecoverableEventID W ev i dir (?u plan))" for ev plan
    by (rule safe_weaken[OF checkEventID_safe]) simp
  show ?thesis
    unfolding newImpl_def Let_def
    by (rule safe_bnd[OF safe_attempt[where V = "\<lambda>u. bu_id u = i"]]; intro rules check) (auto simp: new_value_def)
qed

subsubsection \<open>Adding a user to the bridge\<close>

lemma safe_hoare: "safe E G \<Phi> rf us V m \<Longrightarrow>
  hoare (holds E G \<Phi> rf us) m (\<lambda>r b. holds E G \<Phi> rf us b \<and> (\<exists>x. r = Some x \<and> (\<forall>y. x = Inr y \<longrightarrow> V y)))"
  by (simp add: safe_def)

lemma User_Close_hoare:
  assumes "bu_id u = i"
  shows "hoare (holds E G \<Phi> rf us) (User_Close u) (\<lambda>r b. (\<exists>x. r = Some (Inr x)) \<and> holds E G \<Phi> (rf(i := rf i - 1)) us b)"
  unfolding User_Close_def assms
  by (rule hoare_bnd[where R = "\<lambda>_. holds E G \<Phi> rf us"], simp add: hoare_def DeregisterUserClient_def,
      rule hoare_bnd[where R = "\<lambda>_. holds E G \<Phi> (rf(i := rf i - 1)) us"], rule hoare_logged,
      rule hoare_post[OF closeVaultUser_hoare], auto simp: stays_def intro: hoare_ret)

text \<open>When creating the user object fails, its vault handle may be closed already.\<close>

lemma User_New_hoare:
  assumes "codec_ok E" "\<And>w. G w \<Longrightarrow> tokens_ok w" "about i \<Phi>"
  shows "hoare (holds E G \<Phi> rf us) (User_New E W i session dir isNew) (\<lambda>r b.
    (\<exists>u. r = Some (Inr u) \<and> bu_id u = i \<and> holds E G \<Phi> rf us b) \<or>
    (\<exists>e. r = Some (Inl e) \<and> (holds E G \<Phi> rf us b \<or> holds E G \<Phi> (rf(i := rf i - 1)) us b)))"
  (is "hoare _ _ ?Q")
  unfolding User_New_def
proof (rule hoare_bnd[where R = "\<lambda>x b. new_value i x \<and> holds E G \<Phi> rf us b"])
  show "hoare (holds E G \<Phi> rf us) (newImpl E W i session dir isNew) (\<lambda>r b. case r of Some (Inr x) \<Rightarrow> new_value i x \<and> holds E G \<Phi> rf us b
    | Some (Inl e) \<Rightarrow> ?Q (Some (Inl e)) b | None \<Rightarrow> ?Q None b)"
    by (rule hoare_post[OF safe_hoare[OF newImpl_safe[OF assms]]]) (auto split: sum.splits)
  show "hoare (\<lambda>b. new_value i x \<and> holds E G \<Phi> rf us b)
    (case x of Inl (e, None) \<Rightarrow> throw e | Inl (e, Some u) \<Rightarrow> bnd (User_Close u) (\<lambda>_. throw e) | Inr u \<Rightarrow> ret u) ?Q" for x
  proof (cases x)
    case (Inr u)
    then show ?thesis by (auto simp: new_value_def intro!: hoare_ret)
  next
    case (Inl p)
    obtain e left where p: "p = (e, left)" by fastforce
    show ?thesis
    proof (cases left)
      case None
      then show ?thesis using Inl p by (auto intro!: hoare_throw)
    next
      case (Some u)
      have "hoare (holds E G \<Phi> rf us) (bnd (User_Close u) (\<lambda>_. throw e)) ?Q" if "bu_id u = i"
        by (rule hoare_bnd[where R = "\<lambda>_. holds E G \<Phi> (rf(i := rf i - 1)) us"], rule hoare_post[OF User_Close_hoare[OF that]])
          (auto intro: hoare_throw)
      then show ?thesis using Inl p Some by (auto simp: new_value_def hoare_def)
    qed
  qed
qed

lemma addUserWithVault_hoare:
  assumes "codec_ok E" "\<And>w. G w \<Longrightarrow> tokens_ok w" "about i \<Phi>" "au_ID a = i"
  shows "hoare (holds E G \<Phi> rf us) (addUserWithVault E L a session isNew) (\<lambda>r b.
    (\<exists>u. r = Some (Inr ()) \<and> bu_id u = i \<and> holds E G \<Phi> rf (AList.update i u us) b) \<or>
    (\<exists>e. r = Some (Inl e) \<and> \<not> is_ResponseError e \<and> (holds E G \<Phi> rf us b \<or> holds E G \<Phi> (rf(i := rf i - 1)) us b)))"
  (is "hoare _ _ ?Q")
  unfolding addUserWithVault_def
proof (rule hoare_bnd[where R = "\<lambda>_. holds E G \<Phi> rf us"])
  show "hoare (holds E G \<Phi> rf us) (wrapping ''failed to get IMAP sync config path'' (outcome_val (lw_syncPath L)))
    (\<lambda>r b. case r of Some (Inr x) \<Rightarrow> holds E G \<Phi> rf us b | Some (Inl e) \<Rightarrow> ?Q (Some (Inl e)) b | None \<Rightarrow> ?Q None b)"
    by (rule hoare_wrapping, rule hoare_outcome_val) (auto simp: is_ResponseError_def)
  let ?save = "\<lambda>u b. let users = AList.update (au_ID a) (PublishEventTo (UserLoadedCheckResync (au_ID a)) u) (br_users b) in
       (Some (Inr ()), b\<lparr>br_users := users, br_accounts := int (length users), br_plans := br_plans b @ [bu_userPlan u]\<rparr>)"
  have save: "hoare (\<lambda>b. bu_id u = i \<and> holds E G \<Phi> rf us b) (?save u) ?Q" for u
    using assms(4) by (auto simp: hoare_def Let_def holds_def PublishEventTo_def intro!: exI[of _ "PublishEventTo (UserLoadedCheckResync (au_ID a)) u"])
  show "hoare (holds E G \<Phi> rf us) (bnd (wrapping ''failed to create user'' (User_New E (lw_user L) (au_ID a) session dir isNew)) ?save) ?Q" for dir
    unfolding assms(4)
    by (rule hoare_bnd[OF _ save[unfolded assms(4)]], rule hoare_wrapping, rule hoare_post[OF User_New_hoare[OF assms(1-3)]])
      (auto simp: is_ResponseError_def)
qed

abbreviation clear_fn :: "UserData \<Rightarrow> UserData" where
  "clear_fn u \<equiv> u\<lparr>ud_AuthUID := [], ud_AuthRef := [], ud_KeyPass := []\<rparr>"

lemma upd_cleared:
  assumes "upd i clear_fn \<Phi> d" "lookup_user i d = Some u"
  shows "ud_AuthUID u = [] \<and> ud_AuthRef u = [] \<and> ud_KeyPass u = []"
proof -
  obtain d0 u0 where d: "lookup_user i d0 = Some u0" "d = put_user i (clear_fn u0) d0" using assms(1) by (auto simp: upd_def)
  have "ud_UserID (clear_fn u0) = i" "i \<in> set (user_ids d0)" using lookup_user_ID[OF d(1)] d(1) lookup_user_None[of i d0] by auto
  then show ?thesis using lookup_put_user[of "clear_fn u0" i d0 i] d(2) assms(2) by auto
qed

lemma holds_cleared: "holds E G (upd i clear_fn \<Phi>) rf us b \<Longrightarrow> secrets_gone E G i b"
  using upd_cleared vault_okD(1) unfolding holds_def secrets_gone_def by blast

lemma Clear_hoare:
  assumes "codec_ok E" "\<And>w. G w \<Longrightarrow> tokens_ok w" "about i \<Phi>"
  shows "hoare (holds E G \<Phi> rf us) (vop (\<lambda>w. user_Clear E w i)) (\<lambda>r b. r \<noteq> None \<and> holds E G \<Phi> rf us b \<and> secrets_gone E G i b)"
proof -
  have i: "\<Phi> d \<Longrightarrow> i \<in> set (user_ids d)" for d using assms(3) by (auto simp: about_def)
  have op: "user_Clear E w i v = modUserUnsafe E w i (\<lambda>u. Some ((), clear_fn u)) v" for w v by (simp add: user_Clear_def)
  show ?thesis
  proof (rule hoare_post[OF user_set_hoare[OF assms(1,2) i op]], goal_cases)
    case (4 r b)
    note up = upd_about[OF assms(3), of clear_fn]
    have "holds E G (upd i clear_fn \<Phi>) rf us b \<Longrightarrow> holds E G \<Phi> rf us b \<and> secrets_gone E G i b"
      using holds_mono[of E G "upd i clear_fn \<Phi>" rf us b \<Phi>] up holds_cleared by auto
    moreover have "holds E G (\<lambda>d. \<Phi> d \<or> upd i clear_fn \<Phi> d) rf us b \<Longrightarrow> holds E G \<Phi> rf us b"
      by (erule holds_mono) (use up in auto)
    ultimately show ?case using 4 unfolding secrets_gone_def clear_failed_def by blast
  qed auto
qed

lemma secrets_gone_enc:
  "v_enc (br_vault b') = v_enc (br_vault b) \<Longrightarrow> v_gcm (br_vault b') = v_gcm (br_vault b) \<Longrightarrow> secrets_gone E G i b' = secrets_gone E G i b"
  using contents_cong[of "br_vault b'" "br_vault b" E]
  by (simp add: secrets_gone_def clear_failed_def add_failed_def write_failed_def)

lemma close_secrets:
  "hoare (holds E G \<Phi> rf us) (logged (closeVaultUser i)) (\<lambda>r b. r = Some (Inr ()) \<and> holds E G \<Phi> (rf(i := rf i - 1)) us b)"
  "closeVaultUser i b = (r, b') \<Longrightarrow> secrets_gone E G j b' = secrets_gone E G j b"
  subgoal by (rule hoare_logged, rule hoare_post[OF closeVaultUser_hoare]) (auto simp: stays_def)
  subgoal by (rule secrets_gone_enc) (auto simp: closeVaultUser_def user_Close_def detachUser_def split: option.splits)
  done

lemma hoare_close:
  "hoare (\<lambda>b. holds E G \<Phi> rf us b \<and> (c \<longrightarrow> secrets_gone E G i b)) (logged (closeVaultUser i))
    (\<lambda>r b. r = Some (Inr ()) \<and> holds E G \<Phi> (rf(i := rf i - 1)) us b \<and> (c \<longrightarrow> secrets_gone E G i b))"
  unfolding hoare_def
proof (intro allI impI)
  fix b assume b: "holds E G \<Phi> rf us b \<and> (c \<longrightarrow> secrets_gone E G i b)"
  obtain r1 b1 where 1: "closeVaultUser i b = (r1, b1)" by fastforce
  obtain r b2 where 2: "logged (closeVaultUser i) b = (r, b2)" by fastforce
  then have "b2 = b1" using 1 by (auto simp: logged_def split: option.splits)
  then show "case logged (closeVaultUser i) b of (r, b) \<Rightarrow> r = Some (Inr ()) \<and> holds E G \<Phi> (rf(i := rf i - 1)) us b \<and> (c \<longrightarrow> secrets_gone E G i b)"
    using hoareD[OF close_secrets(1) conjunct1[OF b] 2] close_secrets(2)[OF 1, of E G i] b 2 by auto
qed

lemma addUser_failed:
  assumes "codec_ok E" "\<And>w. G w \<Longrightarrow> tokens_ok w" "about i \<Phi>" "\<not> is_ResponseError err"
    and rest: "hoare (\<lambda>b. holds E G \<Phi> (rf(i := rf i - 1)) us b \<and> (isLogin \<longrightarrow> secrets_gone E G i b)) m Q"
  shows "hoare (holds E G \<Phi> rf us)
    (bnd (if is_ResponseError err \<or> isLogin then logged (vop (\<lambda>w. user_Clear E w i)) else ret ()) (\<lambda>_.
     bnd (logged (closeVaultUser i)) (\<lambda>_. m)))
    Q"
proof (rule hoare_bnd[where R = "\<lambda>_ b. holds E G \<Phi> rf us b \<and> (isLogin \<longrightarrow> secrets_gone E G i b)"])
  let ?P = "\<lambda>b. holds E G \<Phi> rf us b \<and> (isLogin \<longrightarrow> secrets_gone E G i b)"
  have "hoare (holds E G \<Phi> rf us) (if is_ResponseError err \<or> isLogin then logged (vop (\<lambda>w. user_Clear E w i)) else ret ())
    (\<lambda>r b. r = Some (Inr ()) \<and> ?P b)"
    using assms(4) by (auto intro!: hoare_logged hoare_ret hoare_post[OF Clear_hoare[OF assms(1-3)]])
  then show "hoare (holds E G \<Phi> rf us) (if is_ResponseError err \<or> isLogin then logged (vop (\<lambda>w. user_Clear E w i)) else ret ())
    (\<lambda>r b. case r of Some (Inr x) \<Rightarrow> ?P b | Some (Inl e) \<Rightarrow> Q (Some (Inl e)) b | None \<Rightarrow> Q None b)"
    by (rule hoare_post) auto
  show "hoare ?P (bnd (logged (closeVaultUser i)) (\<lambda>_. m)) Q"
    by (rule hoare_bnd[OF hoare_post[OF hoare_close] rest]) auto
qed

text \<open>An account that is in the vault already.\<close>

lemma addUser_known:
  fixes E :: "'e vault_env"
  assumes "codec_ok E" "\<And>w. G w \<Longrightarrow> tokens_ok w" "about i \<Phi>" "au_ID a = i"
  shows "hoare (holds E G \<Phi> rf us) (addUser E L a authUID authRef keyPass isLogin) (\<lambda>r b.
    (\<exists>u. r = Some (Inr ()) \<and> bu_id u = i \<and> holds E G \<Phi> (rf(i := Suc (rf i))) (AList.update i u us) b) \<or>
    (\<exists>e k. r = Some (Inl e) \<and> rf i - 1 \<le> k \<and> holds E G \<Phi> (rf(i := k)) us b \<and> (isLogin \<longrightarrow> secrets_gone E G i b)))"
  (is "hoare _ _ ?Q")
  unfolding addUser_def
proof (rule hoare_bnd[where R = "\<lambda>x b. x = (i, False) \<and> holds E G \<Phi> (rf(i := Suc (rf i))) us b"])
  let ?rf = "rf(i := Suc (rf i))" and ?P = "\<lambda>k b. holds E G \<Phi> (rf(i := k)) us b \<and> (isLogin \<longrightarrow> secrets_gone E G i b)"
  show "hoare (holds E G \<Phi> rf us) (wrapping ''failed to add vault user'' (newVaultUser E a authUID authRef keyPass)) (\<lambda>r b. case r of
      Some (Inr x) \<Rightarrow> x = (i, False) \<and> holds E G \<Phi> ?rf us b | Some (Inl e) \<Rightarrow> ?Q (Some (Inl e)) b | None \<Rightarrow> ?Q None b)"
    by (rule hoare_wrapping, rule hoare_post[OF newVaultUser_known[OF assms]])
      (auto simp: secrets_gone_def intro!: exI[of _ "Suc (rf i)"])
  define R where "R = (\<lambda>(r :: 'e go_err + unit) b. case r of
      Inr _ \<Rightarrow> (\<exists>u. bu_id u = i \<and> holds E G \<Phi> ?rf (AList.update i u us) b)
    | Inl e \<Rightarrow> \<not> is_ResponseError e \<and> (holds E G \<Phi> ?rf us b \<or> holds E G \<Phi> rf us b))"
  have fail: "hoare (?P k) (bnd (if False then logged (vop (\<lambda>w. DeleteUser E w (au_ID a))) else ret ()) (\<lambda>_.
        throw (Wrapped ''failed to add user with vault'' err))) ?Q" if "rf i - 1 \<le> k" for k err
    using that by (auto simp: bnd_def ret_def throw_def hoare_def)
  have rest: "hoare (R r) (addUser_finish E a isLogin i False r) ?Q" for r
  proof (cases r)
    case (Inr x)
    then show ?thesis by (auto simp: R_def addUser_finish_def intro!: hoare_ret)
  next
    case (Inl e)
    have "hoare (holds E G \<Phi> rf' us) (addUser_finish E a isLogin i False r) ?Q" if "rf' = ?rf \<or> rf' = rf" "\<not> is_ResponseError e" for rf'
      unfolding addUser_finish_def Inl sum.case
    proof (rule addUser_failed[OF assms(1-3) that(2)])
      have e: "rf'(i := rf' i - 1) = rf(i := rf' i - 1)" using that(1) by auto
      show "hoare (\<lambda>b. holds E G \<Phi> (rf'(i := rf' i - 1)) us b \<and> (isLogin \<longrightarrow> secrets_gone E G i b)) (bnd (if False then logged (vop (\<lambda>w. DeleteUser E w (au_ID a))) else ret ()) (\<lambda>_.
        throw (Wrapped ''failed to add user with vault'' e))) ?Q"
        unfolding e using that(1) by (intro fail) auto
    qed
    then show ?thesis unfolding R_def Inl sum.case by (intro hoare_fact hoare_disj) auto
  qed
  have "hoare (holds E G \<Phi> ?rf us) (bnd (attempt (addUserWithVault E L a authUID False)) (addUser_finish E a isLogin i False)) ?Q"
    by (rule hoare_bnd[OF _ rest], rule hoare_attempt, rule hoare_post[OF addUserWithVault_hoare[OF assms]])
      (auto simp: R_def)
  then show "hoare (\<lambda>b. x = (i, False) \<and> holds E G \<Phi> ?rf us b) (case x of (vaultUser, isNew) \<Rightarrow>
     bnd (attempt (addUserWithVault E L a authUID isNew)) (addUser_finish E a isLogin vaultUser isNew)) ?Q" for x
    by (intro hoare_fact) simp
qed

text \<open>An account that is new to the vault. If everything can be written, a failure leaves the users of the vault as they were.\<close>

definition same_users :: "(Data \<Rightarrow> bool) \<Rightarrow> Data \<Rightarrow> bool" where
  "same_users \<Phi> d \<longleftrightarrow> (\<exists>d0. \<Phi> d0 \<and> d_Users d = d_Users d0)"

lemma removed_added:
  assumes "removed i (added i \<Phi>) d"
  shows "same_users \<Phi> d"
proof -
  obtain d0 u where d0: "\<Phi> d0" "i \<notin> set (user_ids d0)" "ud_UserID u = i" "d_Users d = filter (\<lambda>u. ud_UserID u \<noteq> i) (d_Users d0 @ [u])"
    using assms by (auto simp: removed_def added_def)
  have "filter (\<lambda>u. ud_UserID u \<noteq> i) (d_Users d0) = d_Users d0" using d0(2) by (auto simp: filter_id_conv user_ids_def)
  then show ?thesis using d0 by (auto simp: same_users_def)
qed

lemma addUser_new:
  fixes E :: "'e vault_env"
  assumes "codec_ok E" "\<And>w. G w \<Longrightarrow> tokens_ok w" "\<And>d. \<Phi> d \<Longrightarrow> i \<notin> set (user_ids d)" "au_ID a = i" "rf i = 0"
  shows "hoare (holds E G \<Phi> rf us) (addUser E L a authUID authRef keyPass isLogin) (\<lambda>r b.
    (r = None \<and> holds E G \<Phi> rf us b) \<or>
    (\<exists>u. r = Some (Inr ()) \<and> bu_id u = i \<and> holds E G (added i \<Phi>) (rf(i := 1)) (AList.update i u us) b) \<or>
    (\<exists>e. r = Some (Inl e) \<and> holds E G (\<lambda>d. same_users \<Phi> d \<or> added i \<Phi> d) rf us b \<and>
       (holds E G (same_users \<Phi>) rf us b \<or> delete_failed E G i b \<or> add_failed E G i b)))"
  (is "hoare _ _ ?Q")
  unfolding addUser_def
proof (rule hoare_bnd[where R = "\<lambda>x b. x = (i, True) \<and> holds E G (added i \<Phi>) (rf(i := 1)) us b"])
  let ?T = "\<lambda>b. holds E G (\<lambda>d. same_users \<Phi> d \<or> added i \<Phi> d) rf us b \<and>
    (holds E G (same_users \<Phi>) rf us b \<or> delete_failed E G i b \<or> add_failed E G i b)"
  have same: "holds E G (\<lambda>d. \<Phi> d \<or> added i \<Phi> d) rf us b \<Longrightarrow> holds E G (\<lambda>d. same_users \<Phi> d \<or> added i \<Phi> d) rf us b" for b
    by (erule holds_mono) (auto simp: same_users_def)
  show "hoare (holds E G \<Phi> rf us) (wrapping ''failed to add vault user'' (newVaultUser E a authUID authRef keyPass)) (\<lambda>r b. case r of
      Some (Inr x) \<Rightarrow> x = (i, True) \<and> holds E G (added i \<Phi>) (rf(i := 1)) us b | Some (Inl e) \<Rightarrow> ?Q (Some (Inl e)) b | None \<Rightarrow> ?Q None b)"
    by (rule hoare_wrapping, rule hoare_post[OF newVaultUser_new[OF assms(1-4)]])
      (use assms(5) in \<open>auto intro!: same\<close>)
  define R where "R = (\<lambda>(r :: 'e go_err + unit) b. case r of
      Inr _ \<Rightarrow> (\<exists>u. bu_id u = i \<and> holds E G (added i \<Phi>) (rf(i := 1)) (AList.update i u us) b)
    | Inl e \<Rightarrow> \<not> is_ResponseError e \<and> (holds E G (added i \<Phi>) (rf(i := 1)) us b \<or> holds E G (added i \<Phi>) rf us b))"
  have del: "hoare (\<lambda>b. holds E G (added i \<Phi>) rf us b \<and> X b) (bnd (if True then logged (vop (\<lambda>w. DeleteUser E w (au_ID a))) else ret ()) (\<lambda>_.
        throw (Wrapped ''failed to add user with vault'' err))) ?Q" for X err
  proof (rule hoare_bnd[where R = "\<lambda>_. ?T"])
    have "hoare (holds E G (added i \<Phi>) rf us) (logged (vop (\<lambda>w. DeleteUser E w i))) (\<lambda>r b. r = Some (Inr ()) \<and> ?T b)"
    proof (rule hoare_logged, rule hoare_post[OF DeleteUser_hoare[where i = i and rf = rf, OF assms(1,2,5)]], goal_cases)
      case (2 r b)
      have "holds E G (removed i (added i \<Phi>)) rf us b \<Longrightarrow> holds E G (same_users \<Phi>) rf us b" by (erule holds_mono) (rule removed_added)
      moreover have "holds E G (same_users \<Phi>) rf us b \<Longrightarrow> holds E G (\<lambda>d. same_users \<Phi> d \<or> added i \<Phi> d) rf us b" by (erule holds_mono) simp
      moreover have "holds E G (\<lambda>d. added i \<Phi> d \<or> removed i (added i \<Phi>) d) rf us b \<Longrightarrow> holds E G (\<lambda>d. same_users \<Phi> d \<or> added i \<Phi> d) rf us b"
        by (erule holds_mono) (use removed_added in auto)
      ultimately show ?case using 2 by (elim disjE exE conjE) simp_all
    qed
    then have "hoare (\<lambda>b. holds E G (added i \<Phi>) rf us b \<and> X b) (logged (vop (\<lambda>w. DeleteUser E w i))) (\<lambda>r b. r = Some (Inr ()) \<and> ?T b)"
      by (rule hoare_pre) simp
    then show "hoare (\<lambda>b. holds E G (added i \<Phi>) rf us b \<and> X b) (if True then logged (vop (\<lambda>w. DeleteUser E w (au_ID a))) else ret ()) (\<lambda>r b. case r of
        Some (Inr x) \<Rightarrow> ?T b | Some (Inl e) \<Rightarrow> ?Q (Some (Inl e)) b | None \<Rightarrow> ?Q None b)"
      using assms(4) by (auto elim!: hoare_post)
    show "hoare ?T (throw (Wrapped ''failed to add user with vault'' err)) ?Q" by (rule hoare_throw) auto
  qed
  have rest: "hoare (R r) (addUser_finish E a isLogin i True r) ?Q" for r
  proof (cases r)
    case (Inr x)
    then show ?thesis by (auto simp: R_def addUser_finish_def intro!: hoare_ret)
  next
    case (Inl e)
    have fin: "hoare (holds E G (added i \<Phi>) rf' us) (addUser_finish E a isLogin i True r) ?Q"
      if "rf'(i := rf' i - 1) = rf" "\<not> is_ResponseError e" for rf'
      unfolding addUser_finish_def Inl sum.case
      by (rule addUser_failed[OF assms(1,2) about_added that(2)], assumption) (simp only: that(1), rule del)
    have "(rf(i := 1))(i := (rf(i := 1)) i - 1) = rf" "rf(i := rf i - 1) = rf" using assms(5) by (auto simp: fun_upd_idem)
    then show ?thesis unfolding R_def Inl sum.case
      by (intro hoare_fact hoare_disj fin[unfolded Inl]) assumption+
  qed
  have "hoare (holds E G (added i \<Phi>) (rf(i := 1)) us) (bnd (attempt (addUserWithVault E L a authUID True)) (addUser_finish E a isLogin i True)) ?Q"
    by (rule hoare_bnd[OF _ rest], rule hoare_attempt, rule hoare_post[OF addUserWithVault_hoare[OF assms(1,2) about_added assms(4)]])
      (use assms(5) in \<open>auto simp: R_def fun_upd_idem\<close>)
  then show "hoare (\<lambda>b. x = (i, True) \<and> holds E G (added i \<Phi>) (rf(i := 1)) us b) (case x of (vaultUser, isNew) \<Rightarrow>
     bnd (attempt (addUserWithVault E L a authUID isNew)) (addUser_finish E a isLogin vaultUser isNew)) ?Q" for x
    by (intro hoare_fact) simp
qed

subsection \<open>Logging out and the invariant of connected users\<close>

lemma User_Logout_safe:
  assumes "codec_ok E" "\<And>w. G w \<Longrightarrow> tokens_ok w" "about i \<Phi>" "bu_id u = i"
  shows "safe E G \<Phi> rf us (\<lambda>_. True) (User_Logout E W withAPI withData u)"
  unfolding User_Logout_def assms(4) by (intro safe_rules Clear.safe_op assms(1-3)) auto

lemma logoutUser_hoare:
  assumes "codec_ok E" "\<And>w. G w \<Longrightarrow> tokens_ok w" "about i \<Phi>" "bu_id u = i"
  shows "hoare (holds E G \<Phi> rf us) (logoutUser E W u withAPI withData) (\<lambda>r b. r = Some (Inr ()) \<and>
    holds E G \<Phi> (rf(i := rf i - 1)) (AList.delete i us) b)"
proof -
  let ?m = "bnd (logged (User_Logout E W withAPI withData u)) (\<lambda>_ b1. bnd (User_Close u) (\<lambda>_. ret ()) (b1\<lparr>br_accounts := int (length (br_users b1)) - 1\<rparr>))"
  have "hoare (holds E G \<Phi> rf us) (bnd (User_Close u) (\<lambda>_. ret ())) (\<lambda>r b. r = Some (Inr ()) \<and> holds E G \<Phi> (rf(i := rf i - 1)) us b)"
    by (rule hoare_bnd[where R = "\<lambda>_. holds E G \<Phi> (rf(i := rf i - 1)) us"], rule hoare_post[OF User_Close_hoare[OF assms(4)]])
      (auto intro: hoare_ret)
  then have close: "hoare (holds E G \<Phi> rf us) (\<lambda>b1. bnd (User_Close u) (\<lambda>_. ret ()) (b1\<lparr>br_accounts := int (length (br_users b1)) - 1\<rparr>))
    (\<lambda>r b. r = Some (Inr ()) \<and> holds E G \<Phi> (rf(i := rf i - 1)) us b)"
    by (rule hoare_after) simp
  have "hoare (holds E G \<Phi> rf us) ?m (\<lambda>r b. r = Some (Inr ()) \<and> holds E G \<Phi> (rf(i := rf i - 1)) us b)"
    by (rule hoare_bnd[OF _ close], rule hoare_logged, rule hoare_post[OF safe_hoare[OF User_Logout_safe[OF assms]]]) auto
  then show ?thesis
    unfolding hoare_def logoutUser_def assms(4) by (fastforce simp: holds_def split: prod.splits)
qed

text \<open>Every connected user is stored under its own ID and has an open handle.\<close>

definition conn :: "(string \<Rightarrow> nat) \<Rightarrow> (string \<times> buser) list \<Rightarrow> bool" where
  "conn rf us \<longleftrightarrow> distinct (map fst us) \<and> (\<forall>i u. map_of us i = Some u \<longrightarrow> bu_id u = i \<and> 0 < rf i)"

definition bridge_inv :: "'e vault_env \<Rightarrow> 'e bridge \<Rightarrow> bool" where
  "bridge_inv E b \<longleftrightarrow> (\<exists>rf. holds E tokens_ok (\<lambda>_. True) rf (br_users b) b \<and> conn rf (br_users b))"

lemma conn_delete: "conn rf us \<Longrightarrow> conn (rf(i := k)) (AList.delete i us)"
  by (auto simp: conn_def delete_conv' distinct_delete)

lemma conn_update: "conn rf us \<Longrightarrow> bu_id u = i \<Longrightarrow> 0 < k \<Longrightarrow> conn (rf(i := k)) (AList.update i u us)"
  by (auto simp: conn_def update_conv' distinct_update)

lemma conn_other: "conn rf us \<Longrightarrow> map_of us i = None \<Longrightarrow> conn (rf(i := k)) us"
  by (auto simp: conn_def)

lemma holds_users: "holds E G \<Phi> rf us b \<Longrightarrow> br_users b = us"
  by (simp add: holds_def)

lemma inv_holds:
  assumes "bridge_inv E b"
  obtains rf where "holds E tokens_ok (\<lambda>_. True) rf (br_users b) b" "conn rf (br_users b)"
  using assms by (auto simp: bridge_inv_def)

lemma holds_inv: "holds E tokens_ok \<Phi> rf us b \<Longrightarrow> conn rf us \<Longrightarrow> bridge_inv E b"
  unfolding bridge_inv_def using holds_users by (metis (mono_tags, lifting) holds_mono)

lemma in_use:
  assumes "holds E G \<Phi> rf us b" "0 < rf i"
  shows "holds E G (\<lambda>d. i \<in> set (user_ids d)) rf us b"
  using assms by (auto simp: holds_def refmap_def vault_ok_def split: if_splits)

lemma about_in: "about i (\<lambda>d. i \<in> set (user_ids d))"
  by (auto simp: about_def)

lemma connected:
  assumes "bridge_inv E b" "map_of (br_users b) i = Some u"
  obtains rf where "holds E tokens_ok (\<lambda>d. i \<in> set (user_ids d)) rf (br_users b) b" "conn rf (br_users b)" "bu_id u = i" "0 < rf i"
proof -
  obtain rf where rf: "holds E tokens_ok (\<lambda>_. True) rf (br_users b) b" "conn rf (br_users b)" using inv_holds[OF assms(1)] .
  then have "bu_id u = i" "0 < rf i" using assms(2) by (auto simp: conn_def)
  then show thesis using that in_use[OF rf(1)] rf(2) by blast
qed

lemma logoutUser_inv:
  assumes "codec_ok E" "bridge_inv E b" "map_of (br_users b) i = Some u" "logoutUser E W u api data b = (r, b')"
  shows "r = Some (Inr ()) \<and> bridge_inv E b' \<and> br_users b' = AList.delete i (br_users b)"
proof (rule connected[OF assms(2,3)])
  fix rf assume h: "holds E tokens_ok (\<lambda>d. i \<in> set (user_ids d)) rf (br_users b) b" "conn rf (br_users b)" "bu_id u = i"
  from hoareD[OF logoutUser_hoare[OF assms(1) _ about_in h(3)] h(1) assms(4)]
  show ?thesis using holds_inv conn_delete[OF h(2)] holds_users by blast
qed

lemma holds_published: "bridge_inv E (b\<lparr>br_published := x\<rparr>) = bridge_inv E b"
  by (simp add: bridge_inv_def)

lemma publish_after:
  assumes "bnd m (\<lambda>_. bridge_publish ev) b = (r, b')" "m b = (Some (Inr x), b1)"
  shows "r = Some (Inr ()) \<and> b' = b1\<lparr>br_published := br_published b1 @ [ev]\<rparr>"
  using assms by (auto simp: bnd_def bridge_publish_def)

lemma logout_published_inv:
  assumes "codec_ok E" "bridge_inv E b" "map_of (br_users b) i = Some u" "bnd (logoutUser E W u api data) (\<lambda>_. bridge_publish ev) b = (r, b')"
  shows "r = Some (Inr ()) \<and> bridge_inv E b'"
proof -
  obtain r1 b1 where 1: "logoutUser E W u api data b = (r1, b1)" by fastforce
  note l = logoutUser_inv[OF assms(1-3) 1]
  then show ?thesis using publish_after[OF assms(4), of "()" b1] 1 by (auto simp: holds_published)
qed

lemma safe_inv:
  assumes "bridge_inv E b" "map_of (br_users b) i = Some u" "m b = (r, b')"
    and "\<And>rf us. bu_id u = i \<Longrightarrow> safe E tokens_ok (\<lambda>d. i \<in> set (user_ids d)) rf us (\<lambda>_. True) m"
  shows "r \<noteq> None \<and> bridge_inv E b' \<and> br_users b' = br_users b"
proof (rule connected[OF assms(1,2)])
  fix rf assume h: "holds E tokens_ok (\<lambda>d. i \<in> set (user_ids d)) rf (br_users b) b" "conn rf (br_users b)" "bu_id u = i"
  from hoareD[OF safe_hoare[OF assms(4)[OF h(3)]] h(1) assms(3)]
  show ?thesis using holds_inv h(2) holds_users by blast
qed

lemma DeleteUser_any:
  assumes "codec_ok E" "\<And>w. G w \<Longrightarrow> tokens_ok w"
  shows "hoare (holds E G (\<lambda>_. True) rf us) (vop (\<lambda>w. DeleteUser E w i)) (stays E G (\<lambda>_. True) rf us)"
proof (cases "rf i = 0")
  case True
  show ?thesis
    by (rule hoare_post[OF DeleteUser_hoare[where i = i and rf = rf, OF assms True]]) (auto simp: stays_def elim: holds_mono)
next
  case False
  then show ?thesis
    by (auto simp: hoare_def vop_def Let_def DeleteUser_def stays_def holds_def refmap_def next_worlds_all)
qed

subsubsection \<open>Logins\<close>

lemma loginUser_cases:
  assumes "loginUser E L uid ref keyPass b = (r, b')"
  obtains (early) e where "r = Some (Inl e)" "b' = b"
  | (add) a salted r1 where "lw_GetUser L = Inr a" "addUser E L a uid ref salted True b = (r1, b')"
      "r1 = None \<and> r = None \<or> (\<exists>e. r1 = Some (Inl e) \<and> r = Some (Inl (Wrapped ''failed to add bridge user'' e))) \<or>
       (r1 = Some (Inr ()) \<and> r = Some (Inr (au_ID a)))"
proof (cases "\<exists>a salted n. lw_GetUser L = Inr a \<and> lw_GetSalts L = None \<and> lw_SaltForKey L keyPass = Inr salted \<and> lw_Unlock L salted = Inr n \<and> n \<noteq> 0")
  case True
  then obtain a salted n where w: "lw_GetUser L = Inr a" "lw_GetSalts L = None" "lw_SaltForKey L keyPass = Inr salted" "lw_Unlock L salted = Inr n" "n \<noteq> 0"
    by blast
  obtain r1 b1 where r1: "addUser E L a uid ref salted True b = (r1, b1)" by fastforce
  show thesis
    by (rule add[of a salted r1])
      (use assms w r1 in \<open>auto simp: loginUser_def bnd_def wrapping_def outcome_val_def outcome_def ret_def split: option.splits sum.splits\<close>)
next
  case False
  then show thesis
    using early assms
    by (fastforce simp: loginUser_def bnd_def wrapping_def outcome_val_def outcome_def ret_def throw_def split: option.splits sum.splits if_splits)
qed

text \<open>After the attempt, \<open>LoginUser\<close> only ends the session or publishes the event.\<close>

lemma LoginUser_cases:
  assumes "LoginUser E L auth keyPass b = (r, b')"
  obtains r1 b1 where "loginUser E L (at_UID auth) (at_RefreshToken auth) keyPass b = (r1, b1)" "r \<noteq> None"
    "\<And>G \<Phi> rf us. holds E G \<Phi> rf us b' = holds E G \<Phi> rf us b1" "br_users b' = br_users b1"
    "(\<exists>x. r1 = Some (Inr x) \<and> r = Some (Inr x)) \<or>
     (\<exists>e e1. r = Some (Inl (Wrapped ''failed to login user'' e)) \<and> r1 \<in> {None, Some (Inl e1)} \<and>
        (lw_authDelete L \<longrightarrow> errors_Is e ErrFailedToUnlock \<or> at_UID auth \<in> set (br_deleted b')))"
proof -
  obtain r1 b1 where 1: "loginUser E L (at_UID auth) (at_RefreshToken auth) keyPass b = (r1, b1)" by fastforce
  show thesis
    by (rule that[OF 1])
      (use assms 1 in \<open>auto simp: LoginUser_def bnd_def attempt_def CatchVal_def bridge_publish_def ret_def throw_def logged_def AuthDelete_def
        split: option.splits sum.splits if_splits prod.splits\<close>)
qed

lemma addUser_inv_known:
  assumes "codec_ok E" "holds E tokens_ok (\<lambda>d. i \<in> set (user_ids d)) rf us b" "conn rf us" "map_of us i = None" "au_ID a = i"
    and "addUser E L a uid ref keyPass isLogin b = (r, b')"
  shows "r \<noteq> None \<and> bridge_inv E b'"
proof -
  from hoareD[OF addUser_known[OF assms(1) _ about_in assms(5)] assms(2,6)]
  show ?thesis using holds_inv conn_update[OF assms(3)] conn_other[OF assms(3,4)] by (auto; blast)
qed

lemma addUser_inv_new:
  assumes "codec_ok E" "holds E tokens_ok (\<lambda>d. i \<notin> set (user_ids d)) rf us b" "conn rf us" "map_of us i = None" "au_ID a = i" "rf i = 0"
    and "addUser E L a uid ref keyPass isLogin b = (r, b')"
  shows "bridge_inv E b'"
proof -
  have "\<And>d. i \<notin> set (user_ids d) \<Longrightarrow> i \<notin> set (user_ids d)" .
  from hoareD[OF addUser_new[where \<Phi> = "\<lambda>d. i \<notin> set (user_ids d)" and i = i and rf = rf, OF assms(1) _ this assms(5,6)] assms(2,7)]
  show ?thesis using holds_inv assms(3) conn_update[OF assms(3), of _ i 1] by (auto; blast)
qed

lemma LoginUser_inv:
  assumes "codec_ok E" "bridge_inv E b" "\<And>a. lw_GetUser L = Inr a \<Longrightarrow> map_of (br_users b) (au_ID a) = None"
    and "LoginUser E L auth keyPass b = (r, b')"
  shows "r \<noteq> None \<and> bridge_inv E b'"
proof (rule LoginUser_cases[OF assms(4)])
  fix r1 b1
  assume 1: "loginUser E L (at_UID auth) (at_RefreshToken auth) keyPass b = (r1, b1)" "r \<noteq> None"
    and h: "\<And>G \<Phi> rf us. holds E G \<Phi> rf us b' = holds E G \<Phi> rf us b1" "br_users b' = br_users b1"
  have "bridge_inv E b1"
  proof (cases rule: loginUser_cases[OF 1(1)])
    case (1 e)
    then show ?thesis using assms(2) by simp
  next
    case (2 a salted r2)
    obtain rf where rf: "holds E tokens_ok (\<lambda>_. True) rf (br_users b) b" "conn rf (br_users b)" using inv_holds[OF assms(2)] .
    obtain d where d: "vault_ok E (br_vault b) d" using rf(1) by (auto simp: holds_def)
    note none = assms(3)[OF 2(1)]
    show ?thesis
    proof (cases "au_ID a \<in> set (user_ids d)")
      case True
      then have "holds E tokens_ok (\<lambda>d. au_ID a \<in> set (user_ids d)) rf (br_users b) b" using rf(1) d by (auto simp: holds_def)
      then show ?thesis using addUser_inv_known[OF assms(1) _ rf(2) none refl 2(2)] by blast
    next
      case False
      then have "map_of (v_ref (br_vault b)) (au_ID a) = None" using vault_okD(3)[OF d, of "au_ID a"] by (cases "map_of (v_ref (br_vault b)) (au_ID a)") auto
      then have "rf (au_ID a) = 0" using rf(1) by (auto simp: holds_def refmap_def split: if_splits)
      moreover have "holds E tokens_ok (\<lambda>d. au_ID a \<notin> set (user_ids d)) rf (br_users b) b" using rf(1) d False by (auto simp: holds_def)
      ultimately show ?thesis using addUser_inv_new[OF assms(1) _ rf(2) none refl _ 2(2)] by blast
    qed
  qed
  then show ?thesis using 1 h by (simp add: bridge_inv_def)
qed

subsubsection \<open>Loading\<close>

text \<open>
  The state while the users of the vault are loaded: a handle of \<^verbatim>\<open>ForUser\<close> is open for each, so that a connected user has two. \<open>loading\<close> says what
  the work on user \<open>i\<close> may change.
\<close>

definition loading ::
  "'e vault_env \<Rightarrow> (Data \<Rightarrow> bool) \<Rightarrow> string \<Rightarrow> bool \<Rightarrow> (string \<Rightarrow> nat) \<Rightarrow> (string \<times> buser) list \<Rightarrow> 'e bridge \<Rightarrow> bool" where
  "loading E \<Phi> i c rf us b \<longleftrightarrow> (\<exists>rf' us'. holds E tokens_ok \<Phi> rf' us' b \<and> conn (\<lambda>j. rf' j - 1) us' \<and>
     (\<forall>j. j \<noteq> i \<longrightarrow> rf' j = rf j \<and> map_of us' j = map_of us j) \<and> (c \<longrightarrow> map_of us' i \<noteq> None))"

lemma loading_start: "holds E tokens_ok \<Phi> rf us b \<Longrightarrow> conn (\<lambda>j. rf j - 1) us \<Longrightarrow> loading E \<Phi> i False rf us b"
  by (auto simp: loading_def)

lemma addUser_loading:
  fixes E :: "'e vault_env"
  assumes "codec_ok E" "about i \<Phi>" "au_ID a = i" "conn (\<lambda>j. rf j - 1) us" "map_of us i = None" "0 < rf i"
  shows "hoare (holds E tokens_ok \<Phi> rf us) (addUser E L a uid ref keyPass False)
    (\<lambda>r b. (\<exists>e. r = Some (Inl e) \<and> loading E \<Phi> i False rf us b) \<or> (r = Some (Inr ()) \<and> loading E \<Phi> i True rf us b))"
proof (rule hoare_post[OF addUser_known[OF assms(1) _ assms(2,3)]], assumption, elim disjE exE conjE)
  fix r :: "('e go_err + unit) option" and b u
  assume h: "r = Some (Inr ())" "bu_id u = i" "holds E tokens_ok \<Phi> (rf(i := Suc (rf i))) (AList.update i u us) b"
  have "conn (\<lambda>j. (rf(i := Suc (rf i))) j - 1) (AList.update i u us)"
    using assms(4,6) h(2) by (auto simp: conn_def update_conv' distinct_update)
  then show "(\<exists>e. r = Some (Inl e) \<and> loading E \<Phi> i False rf us b) \<or> (r = Some (Inr ()) \<and> loading E \<Phi> i True rf us b)"
    using h unfolding loading_def by (auto simp: update_conv' intro!: exI[of _ "rf(i := Suc (rf i))"] exI[of _ "AList.update i u us"])
next
  fix r :: "('e go_err + unit) option" and b e k
  assume h: "r = Some (Inl e)" "holds E tokens_ok \<Phi> (rf(i := k)) us b"
  have "conn (\<lambda>j. (rf(i := k)) j - 1) us" using assms(4,5) by (auto simp: conn_def)
  then show "(\<exists>e. r = Some (Inl e) \<and> loading E \<Phi> i False rf us b) \<or> (r = Some (Inr ()) \<and> loading E \<Phi> i True rf us b)"
    using h unfolding loading_def by (auto intro!: exI[of _ "rf(i := k)"] exI[of _ us])
qed

lemma safe_loading:
  assumes "\<And>rf us. safe E tokens_ok \<Phi> rf us V m"
  shows "hoare (loading E \<Phi> i c rf us) m (\<lambda>r b. r \<noteq> None \<and> loading E \<Phi> i c rf us b)"
  unfolding hoare_def
proof (intro allI impI)
  fix b assume "loading E \<Phi> i c rf us b"
  then obtain rf' us' where l: "holds E tokens_ok \<Phi> rf' us' b" "conn (\<lambda>j. rf' j - 1) us'"
    "\<forall>j. j \<noteq> i \<longrightarrow> rf' j = rf j \<and> map_of us' j = map_of us j" "c \<longrightarrow> map_of us' i \<noteq> None" by (auto simp: loading_def)
  obtain r b' where m: "m b = (r, b')" by fastforce
  from hoareD[OF safe_hoare[OF assms] l(1) m] l(2-4) m
  show "case m b of (r, b') \<Rightarrow> r \<noteq> None \<and> loading E \<Phi> i c rf us b'" by (auto simp: loading_def)
qed

lemma unit_result: "r \<noteq> None \<Longrightarrow> (\<exists>e. r = Some (Inl e)) \<or> r = Some (Inr ())"
  by (cases r; cases "the r") auto

lemma loadUser_hoare:
  assumes "codec_ok E" "about i \<Phi>" "\<And>a. lw_GetUser L = Inr a \<Longrightarrow> au_ID a = i" "conn (\<lambda>j. rf j - 1) us" "map_of us i = None" "0 < rf i"
  shows "hoare (holds E tokens_ok \<Phi> rf us) (loadUser E L i)
    (\<lambda>r b. (\<exists>e. r = Some (Inl e) \<and> loading E \<Phi> i False rf us b) \<or> (r = Some (Inr ()) \<and> loading E \<Phi> i True rf us b))"
  (is "hoare _ _ ?Q")
proof -
  let ?P = "holds E tokens_ok \<Phi> rf us"
  have weak: "loading E \<Phi> i True rf us b \<Longrightarrow> loading E \<Phi> i False rf us b" for b by (auto simp: loading_def)
  have then_P: "hoare ?P (bnd m f) ?Q" if "safe E tokens_ok \<Phi> rf us V m" "\<And>x. V x \<Longrightarrow> hoare ?P (f x) ?Q" for m V and f :: "_ \<Rightarrow> ('a, unit) action"
    by (rule hoare_bnd[OF hoare_post[OF safe_hoare[OF that(1)]] hoare_fact[OF that(2)]])
      (auto simp: loading_start[OF _ assms(4)] split: sum.splits)
  have tail: "hoare (loading E \<Phi> i True rf us) (bnd (vread (\<lambda>w. user_PrimaryEmail E w i)) (\<lambda>email.
           if email \<noteq> au_Email a then wrapping s (vop (\<lambda>w. user_SetPrimaryEmail E w i (au_Email a))) else ret ())) ?Q" for a s
  proof -
    have "safe E tokens_ok \<Phi> rf us (\<lambda>_. True) (bnd (vread (\<lambda>w. user_PrimaryEmail E w i)) (\<lambda>email.
           if email \<noteq> au_Email a then wrapping s (vop (\<lambda>w. user_SetPrimaryEmail E w i (au_Email a))) else ret ()))" for rf us
      by (intro safe_rules SetPrimaryEmail.safe_op assms(1,2)) auto
    note h = safe_loading[OF this, of i True rf us]
    show ?thesis
    proof (rule hoare_post[OF h])
      fix r :: "('a go_err + unit) option" and b
      assume "r \<noteq> None \<and> loading E \<Phi> i True rf us b"
      then show "?Q r b" using unit_result[of r] weak[of b] by auto
    qed
  qed
  have rest: "hoare ?P (bnd (wrapping ''failed to add user'' (addUser E L a uid ref keyPass False)) (\<lambda>_.
         bnd (vread (\<lambda>w. user_PrimaryEmail E w i)) (\<lambda>email.
           if email \<noteq> au_Email a then wrapping s (vop (\<lambda>w. user_SetPrimaryEmail E w i (au_Email a))) else ret ()))) ?Q"
    if "lw_GetUser L = Inr a" for a uid ref keyPass s
    by (rule hoare_bnd[OF _ tail], rule hoare_wrapping, rule hoare_post[OF addUser_loading[OF assms(1,2) assms(3)[OF that] assms(4-6)]]) auto
  have err: "hoare ?P (throw e) ?Q" for e by (rule hoare_throw) (auto intro: loading_start assms(4))
  have user: "safe E tokens_ok \<Phi> rf us (\<lambda>a. lw_GetUser L = Inr a) (wrapping s (outcome_val (lw_GetUser L)))" for s
    by (auto simp: safe_def hoare_def wrapping_def outcome_val_def ret_def throw_def split: sum.splits)
  have clear: "safe E tokens_ok \<Phi> rf us (\<lambda>_. True) (if c then logged (vop (\<lambda>w. user_Clear E w i)) else ret ())" for c
    by (intro safe_rules Clear.safe_op assms(1,2)) auto
  have auth: "safe E tokens_ok \<Phi> rf us (\<lambda>_. True) (wrapping s (vop (\<lambda>w. user_SetAuth E w i uid ref)))" for s uid ref
    by (intro safe_rules SetAuth.safe_op assms(1,2)) auto
  show ?thesis
    unfolding loadUser_def
    by (rule then_P[OF safe_gets(2)[OF assms(2)] then_P[OF safe_gets(3)[OF assms(2)]]], cases "lw_refresh L")
      (simp only: sum.case, rule then_P[OF clear err], simp only: sum.case,
        rule then_P[OF auth then_P[OF user then_P[OF safe_gets(4)[OF assms(2)] rest]]])
qed

text \<open>What was published stays published.\<close>

definition grows :: "('e, 'r) action \<Rightarrow> bool" where
  "grows m \<longleftrightarrow> (\<forall>b. set (br_published b) \<subseteq> set (br_published (snd (m b))))"

named_theorems grows_rules

lemma grows_bnd [grows_rules]: "grows m \<Longrightarrow> (\<And>x. grows (f x)) \<Longrightarrow> grows (bnd m f)"
  by (auto simp: grows_def bnd_def split: prod.splits option.splits sum.splits) (metis in_mono snd_conv)+

lemma grows_lift [grows_rules]:
  assumes "grows m"
  shows "grows (wrapping s m)" "grows (logged m)" "grows (attempt m)"
  using assms by (auto simp: grows_def wrapping_def logged_def attempt_def split: prod.splits option.splits sum.splits) (metis in_mono snd_conv)+

lemma grows_simple [grows_rules]:
  "grows (ret x)" "grows (throw e)" "grows (outcome o1)" "grows (outcome_val o2)" "grows (bridge_publish ev)" "grows (vop f)" "grows (vread g)"
  "grows (closeVaultUser i)" "grows (RegisterUserClient i)" "grows (DeregisterUserClient i)" "grows (newVaultUser E a uid ref key)"
  "grows (checkIrrecoverableEventID W ev1 i dir p)"
  by (auto simp: grows_def ret_def throw_def outcome_def outcome_val_def bridge_publish_def vop_def vread_def closeVaultUser_def RegisterUserClient_def
      DeregisterUserClient_def newVaultUser_def checkIrrecoverableEventID_def Let_def split: option.splits sum.splits prod.splits)

lemma grows_if [grows_rules]: "grows m \<Longrightarrow> grows m' \<Longrightarrow> grows (if c then m else m')" by simp

lemma grows_sum [grows_rules]: "(\<And>e. grows (f e)) \<Longrightarrow> (\<And>x. grows (g x)) \<Longrightarrow> grows (case r of Inl e \<Rightarrow> f e | Inr x \<Rightarrow> g x)"
  by (cases r) auto

lemma grows_option [grows_rules]: "grows m \<Longrightarrow> (\<And>x. grows (g x)) \<Longrightarrow> grows (case r of None \<Rightarrow> m | Some x \<Rightarrow> g x)"
  by (cases r) auto

lemma grows_prod [grows_rules]: "(\<And>x y. grows (f x y)) \<Longrightarrow> grows (case p of (x, y) \<Rightarrow> f x y)"
  by (cases p) auto

lemma grows_migrate [grows_rules]: "grows (migrateSyncStatusFromVault E W dir i)"
  unfolding migrateSyncStatusFromVault_def
proof (intro grows_bnd grows_simple, unfold grows_def, intro allI)
  fix st b
  have g: "grows (if migrated then wrapping s (vop f) else ret ())" for migrated :: bool and s and f :: "_ \<Rightarrow> _ \<Rightarrow> ('a, unit) vault_result"
    by (intro grows_rules)
  show "set (br_published b) \<subseteq> set (br_published (snd (case MigrateVaultSettings (uw_readErr W) (GetSyncConfigPath dir i)
              (vss_HasLabels st) (vss_HasMessages st) (vss_FailedMessageIDs st) (br_disk b) of
         ((migrated, Some e), d) \<Rightarrow> (Some (Inl (Wrapped ''failed to migrate user sync settings'' (SyncE e))), b\<lparr>br_disk := d\<rparr>)
       | ((migrated, None), d) \<Rightarrow>
           (if migrated
            then wrapping ''failed to clear sync settings from vault'' (vop (\<lambda>w. user_ClearSyncStatusWithoutEventID E w i))
            else ret ()) (b\<lparr>br_disk := d\<rparr>))))"
  proof (cases "MigrateVaultSettings (uw_readErr W) (GetSyncConfigPath dir i)
              (vss_HasLabels st) (vss_HasMessages st) (vss_FailedMessageIDs st) (br_disk b)")
    case (Pair q d)
    obtain migrated err where q: "q = (migrated, err)" by fastforce
    show ?thesis
      using g[of migrated "''failed to clear sync settings from vault''" "\<lambda>w. user_ClearSyncStatusWithoutEventID E w i"]
      unfolding Pair q grows_def by (cases err) (auto dest!: spec[of _ "b\<lparr>br_disk := d\<rparr>"])
  qed
qed

lemma grows_addUser: "grows (addUser E L a uid ref key isLogin)"
proof -
  have save: "grows (\<lambda>b. let users = f (br_users b) in (Some (Inr ()), b\<lparr>br_users := users, br_accounts := n users, br_plans := br_plans b @ p\<rparr>))"
    for f n p by (simp add: grows_def Let_def)
  show ?thesis
    unfolding addUser_def addUser_finish_def addUserWithVault_def User_New_def newImpl_def User_Close_def eventService_Start_def Let_def
    by (intro grows_rules save[unfolded Let_def])
qed

lemma grows_loadUser: "grows (loadUser E L i)"
  unfolding loadUser_def by (intro grows_rules grows_addUser)

definition authed :: "string \<Rightarrow> Data \<Rightarrow> bool" where
  "authed i d \<longleftrightarrow> (\<exists>u. lookup_user i d = Some u \<and> ud_AuthUID u \<noteq> [])"

definition settled :: "string \<Rightarrow> 'e bridge \<Rightarrow> bool" where
  "settled i b \<longleftrightarrow> map_of (br_users b) i \<noteq> None \<or> (\<exists>a. BUserLoadFail i a \<in> set (br_published b))"

lemma loading_users: "loading E \<Phi> i True rf us b \<Longrightarrow> map_of (br_users b) i \<noteq> None"
  using holds_users by (fastforce simp: loading_def)

lemma loading_other [simp]: "loading E \<Phi> i c rf us (b\<lparr>br_published := x\<rparr>) = loading E \<Phi> i c rf us b"
  by (simp add: loading_def)

lemma loading_mono: "loading E \<Phi> i True rf us b \<Longrightarrow> loading E \<Phi> i False rf us b"
  by (auto simp: loading_def)

lemma report_load_hoare:
  assumes "about i \<Phi>"
  shows "hoare (case r of Inl _ \<Rightarrow> loading E \<Phi> i False rf us | Inr _ \<Rightarrow> loading E \<Phi> i True rf us) (report_load E i i r)
    (\<lambda>r b. r = Some (Inr ()) \<and> loading E \<Phi> i False rf us b \<and> settled i b)"
proof (cases r)
  case (Inr x)
  then show ?thesis by (auto simp: report_load_def hoare_def bridge_publish_def settled_def dest: loading_mono loading_users)
next
  case (Inl e)
  have "hoare (loading E \<Phi> i False rf us) (vread (\<lambda>w. user_AuthUID E w i)) (\<lambda>r b. (\<exists>x. r = Some (Inr x)) \<and> loading E \<Phi> i False rf us b)"
    using safe_loading[OF safe_gets(2)[OF assms], of E i False rf us] by (auto simp: hoare_def vread_def split: option.splits)
  then show ?thesis
    unfolding Inl report_load_def sum.case
    by (intro hoare_bnd[where R = "\<lambda>_. loading E \<Phi> i False rf us"]; (elim hoare_post)?) (auto simp: hoare_def bridge_publish_def settled_def)
qed

lemma load_unless_loaded_hoare:
  assumes "codec_ok E" "about i \<Phi>" "\<And>a. lw_GetUser L = Inr a \<Longrightarrow> au_ID a = i" "conn (\<lambda>j. rf j - 1) us" "map_of us i = None \<Longrightarrow> 0 < rf i"
  shows "hoare (holds E tokens_ok \<Phi> rf us) (load_unless_loaded E L i i)
    (\<lambda>r b. r = Some (Inr ()) \<and> loading E \<Phi> i False rf us b \<and> settled i b)"
  (is "hoare ?P _ ?Q")
proof (cases "map_of us i")
  case None
  have "hoare ?P (bnd (bridge_publish (BUserLoading i)) (\<lambda>_. bnd (attempt (loadUser E L i)) (report_load E i i))) ?Q"
    by (rule hoare_bnd[where R = "\<lambda>_. ?P"], simp add: hoare_def bridge_publish_def, rule hoare_bnd[OF _ report_load_hoare[OF assms(2)]],
        rule hoare_attempt, rule hoare_post[OF loadUser_hoare[OF assms(1-4) None assms(5)[OF None]]]) auto
  then show ?thesis using None holds_users by (fastforce simp: hoare_def load_unless_loaded_def)
next
  case (Some u)
  then show ?thesis
    using holds_users loading_start[OF _ assms(4)] by (fastforce simp: hoare_def load_unless_loaded_def ret_def settled_def)
qed

text \<open>One user: it is connected in the end, or the failure is published.\<close>

lemma loadVaultUser_hoare:
  assumes "codec_ok E" "about i \<Phi>" "\<And>a. lw_GetUser L = Inr a \<Longrightarrow> au_ID a = i" "conn (\<lambda>j. rf j - 1) us" "map_of us i = None \<Longrightarrow> 0 < rf i"
  shows "hoare (holds E tokens_ok (\<lambda>d. \<Phi> d \<and> (p \<longrightarrow> authed i d)) rf us) (loadVaultUser E L i)
    (\<lambda>r b. r = Some (Inr ()) \<and> loading E \<Phi> i False rf us b \<and> (p \<longrightarrow> settled i b))"
  (is "hoare ?P' _ ?Q")
  unfolding loadVaultUser_def
proof (rule hoare_bnd[where R = "\<lambda>x b. (p \<longrightarrow> x \<noteq> []) \<and> holds E tokens_ok \<Phi> rf us b"])
  let ?P = "holds E tokens_ok \<Phi> rf us"
  have i: "\<Phi> d \<Longrightarrow> i \<in> set (user_ids d)" for d using assms(2) by (auto simp: about_def)
  have "hoare ?P' (vread (\<lambda>w. user_AuthUID E w i)) (\<lambda>r b. (\<exists>x. r = Some (Inr x) \<and> (p \<longrightarrow> x \<noteq> [])) \<and> ?P' b)"
    by (rule hoare_vread) (use read_user i in \<open>fastforce simp: user_AuthUID_def authed_def\<close>)
  then show "hoare ?P' (vread (\<lambda>w. user_AuthUID E w i)) (\<lambda>r b. case r of
      Some (Inr x) \<Rightarrow> (p \<longrightarrow> x \<noteq> []) \<and> ?P b | Some (Inl e) \<Rightarrow> ?Q (Some (Inl e)) b | None \<Rightarrow> ?Q None b)"
    by (rule hoare_post) (auto elim: holds_mono)
  have id: "hoare ?P (vread (\<lambda>w. user_UserID E w i)) (\<lambda>r b. r = Some (Inr i) \<and> ?P b)"
    by (rule hoare_post[OF hoare_vread[where R = "\<lambda>x. x = i"]])
      (use read_user[OF _ i] lookup_user_ID in \<open>fastforce simp: user_UserID_def\<close>)+
  have body: "hoare (\<lambda>b. j = i \<and> ?P b) (load_unless_loaded E L i j) ?Q" for j
    by (rule hoare_fact, simp only:, rule hoare_post[OF load_unless_loaded_hoare[OF assms]]) auto
  have "hoare ?P (bnd (vread (\<lambda>w. user_UserID E w i)) (load_unless_loaded E L i)) ?Q"
    by (rule hoare_bnd[OF hoare_post[OF id] body]) auto
  then show "hoare (\<lambda>b. (p \<longrightarrow> x \<noteq> []) \<and> ?P b)
    (if x = [] then ret () else bnd (vread (\<lambda>w. user_UserID E w i)) (load_unless_loaded E L i)) ?Q" for x
    using loading_start[OF _ assms(4)] by (intro hoare_fact) (auto intro!: hoare_ret)
qed

lemma grows_loadVaultUser: "grows (loadVaultUser E L i)"
proof -
  have "grows (load_unless_loaded E L i j)" for j
  proof -
    have "grows (bnd (bridge_publish (BUserLoading j)) (\<lambda>_. bnd (attempt (loadUser E L i)) (report_load E i j)))"
      unfolding report_load_def by (intro grows_rules grows_loadUser)
    then show ?thesis by (simp add: grows_def load_unless_loaded_def ret_def)
  qed
  then show ?thesis unfolding loadVaultUser_def by (intro grows_rules)
qed

definition vault_at :: "string set \<Rightarrow> string set \<Rightarrow> Data \<Rightarrow> bool" where
  "vault_at U A d \<longleftrightarrow> set (user_ids d) = U \<and> (\<forall>j\<in>A. authed j d)"

lemma about_vault_at:
  assumes "i \<in> U" "i \<notin> A"
  shows "about i (vault_at U A)"
proof -
  have "authed j (put_user i u' d) = authed j d" if "j \<noteq> i" "ud_UserID u' = i" "i \<in> set (user_ids d)" for j u' d
    using that by (simp add: authed_def lookup_put_user)
  then have "vault_at U A (put_user i u' d)" if "vault_at U A d" "ud_UserID u' = i" for d u'
    using that assms unfolding vault_at_def by (metis user_ids_put)
  then show ?thesis using assms(1) unfolding about_def by (auto simp: vault_at_def)
qed

definition in_load ::
  "'e vault_env \<Rightarrow> string set \<Rightarrow> string set \<Rightarrow> string list \<Rightarrow> string set \<Rightarrow> 'e bridge \<Rightarrow> bool" where
  "in_load E U A rem D b \<longleftrightarrow> (\<exists>rf us. holds E tokens_ok (vault_at U (A \<inter> set rem)) rf us b \<and> conn (\<lambda>j. rf j - 1) us \<and>
     (\<forall>j\<in>set rem. map_of us j = None \<longrightarrow> 0 < rf j) \<and> (\<forall>j\<in>D. settled j b))"

lemma load_step:
  assumes "codec_ok E" "i \<in> U" "i \<notin> set rem" "i \<notin> D" "\<And>a. lw_GetUser L = Inr a \<Longrightarrow> au_ID a = i"
    and "in_load E U A (i # rem) D b" "loadVaultUser E L i b = (r, b')"
  shows "r = Some (Inr ()) \<and> in_load E U A rem (if i \<in> A then insert i D else D) b'"
proof -
  obtain rf us where h: "holds E tokens_ok (vault_at U (A \<inter> set (i # rem))) rf us b" "conn (\<lambda>j. rf j - 1) us"
    "\<forall>j\<in>set (i # rem). map_of us j = None \<longrightarrow> 0 < rf j" "\<forall>j\<in>D. settled j b" using assms(6) unfolding in_load_def by blast
  let ?\<Phi> = "vault_at U (A \<inter> set rem)"
  have pre: "holds E tokens_ok (\<lambda>d. ?\<Phi> d \<and> (i \<in> A \<longrightarrow> authed i d)) rf us b" using h(1) by (rule holds_mono) (auto simp: vault_at_def)
  have ab: "about i ?\<Phi>" using about_vault_at assms(2,3) by simp
  have free: "map_of us i = None \<Longrightarrow> 0 < rf i" using h(3) by simp
  have post: "r = Some (Inr ())" "loading E ?\<Phi> i False rf us b'" "i \<in> A \<longrightarrow> settled i b'"
    using hoareD[OF loadVaultUser_hoare[OF assms(1) ab assms(5) h(2) free] pre assms(7)] by auto
  obtain rf' us' where l: "holds E tokens_ok ?\<Phi> rf' us' b'" "conn (\<lambda>j. rf' j - 1) us'"
    "\<forall>j. j \<noteq> i \<longrightarrow> rf' j = rf j \<and> map_of us' j = map_of us j" using post(2) by (auto simp: loading_def)
  have "set (br_published b) \<subseteq> set (br_published b')" using grows_loadVaultUser[of E L i] assms(7) unfolding grows_def by (metis snd_conv)
  then have "settled j b'" if "j \<in> D" for j
    using that h(4) l(3) assms(4) holds_users[OF l(1)] holds_users[OF h(1)] unfolding settled_def by (metis subset_iff)
  moreover have "\<forall>j\<in>set rem. map_of us' j = None \<longrightarrow> 0 < rf' j" using h(3) l(3) assms(3) by (metis list.set_intros(2))
  ultimately show ?thesis using post l(1,2) unfolding in_load_def by fastforce
qed

lemma load_each_hoare:
  assumes "codec_ok E" "\<And>u a. u \<in> U \<Longrightarrow> lw_GetUser (L u) = Inr a \<Longrightarrow> au_ID a = u"
  shows "distinct rem \<Longrightarrow> set rem \<subseteq> U \<Longrightarrow> set rem \<inter> D = {} \<Longrightarrow> in_load E U A rem D b \<Longrightarrow> load_each E L rem b = (r, b') \<Longrightarrow>
    r = Some (Inr ()) \<and> in_load E U A [] (D \<union> (A \<inter> set rem)) b'"
proof (induction rem arbitrary: D b)
  case Nil
  then show ?case by (simp add: ret_def)
next
  case (Cons i rem)
  obtain r1 b1 where 1: "loadVaultUser E (L i) i b = (r1, b1)" by fastforce
  have s: "r1 = Some (Inr ())" "in_load E U A rem (if i \<in> A then insert i D else D) b1"
    using load_step[OF assms(1) _ _ _ assms(2) Cons.prems(4) 1] Cons.prems(1-3) by auto
  have "load_each E L rem b1 = (r, b')" using Cons.prems(5) 1 s(1) by (simp add: bnd_def)
  moreover have "(if i \<in> A then insert i D else D) \<union> A \<inter> set rem = D \<union> A \<inter> set (i # rem)" by auto
  moreover have "set rem \<inter> (if i \<in> A then insert i D else D) = {}" using Cons.prems(1,3) by auto
  ultimately show ?case using Cons.IH[OF _ _ _ s(2)] Cons.prems(1,2) by simp
qed

lemma close_each_holds:
  "distinct xs \<Longrightarrow> holds E G \<Phi> rf us b \<Longrightarrow> close_each xs b = (r, b') \<Longrightarrow>
    r = Some (Inr ()) \<and> holds E G \<Phi> (\<lambda>j. if j \<in> set xs then rf j - 1 else rf j) us b' \<and> br_published b' = br_published b"
proof (induction xs arbitrary: rf b)
  case Nil
  then show ?case by (simp add: ret_def)
next
  case (Cons i xs)
  obtain r1 b1 where 1: "closeVaultUser i b = (r1, b1)" by fastforce
  have c: "r1 \<noteq> None" "holds E G \<Phi> (rf(i := rf i - 1)) us b1"
    using hoareD[OF closeVaultUser_hoare Cons.prems(2) 1] by (auto simp: stays_def)
  have "br_published b1 = br_published b" using 1 by (auto simp: closeVaultUser_def split: prod.splits option.splits)
  moreover have "close_each xs b1 = (r, b')" using Cons.prems(3) 1 c(1) by (auto simp: bnd_def logged_def)
  moreover have "(\<lambda>j. if j \<in> set xs then (rf(i := rf i - 1)) j - 1 else (rf(i := rf i - 1)) j) = (\<lambda>j. if j \<in> set (i # xs) then rf j - 1 else rf j)"
    using Cons.prems(1) by auto
  ultimately show ?case using Cons.IH[OF _ c(2)] Cons.prems(1) by auto
qed

text \<open>\<^verbatim>\<open>getUsers\<close> opens one handle for each user.\<close>

lemma getUsers_loop_holds:
  assumes "\<And>d. \<Phi> d \<Longrightarrow> set ids \<subseteq> set (user_ids d)" "distinct ids" "holds E G \<Phi> rf us b"
  shows "\<exists>v. getUsers_loop E w ids res (br_vault b) = Some (Inr (res @ ids), v) \<and>
    holds E G \<Phi> (\<lambda>j. if j \<in> set ids then Suc (rf j) else rf j) us (b\<lparr>br_vault := v\<rparr>)"
  using assms
proof (induction ids arbitrary: rf b res)
  case Nil
  then show ?case by simp
next
  case (Cons i ids)
  obtain d where d: "vault_ok E (br_vault b) d" "\<Phi> d" using Cons.prems(3) by (auto simp: holds_def)
  have i: "\<Phi> d \<Longrightarrow> i \<in> set (user_ids d)" for d using Cons.prems(1) by auto
  have new: "newUserUnsafe E w i (br_vault b) = Some (Inr i, attachUserUnsafe i (br_vault b))"
    using i[OF d(2)] find_user_None[of i d] contents_get[OF vault_okD(1)[OF d(1)]] by (auto simp: newUserUnsafe_def split: option.splits)
  have h: "holds E G \<Phi> (rf(i := Suc (rf i))) us (b\<lparr>br_vault := attachUserUnsafe i (br_vault b)\<rparr>)"
    using holds_attach[OF Cons.prems(3) i] .
  have eq: "(\<lambda>j. if j \<in> set ids then Suc ((rf(i := Suc (rf i))) j) else (rf(i := Suc (rf i))) j) = (\<lambda>j. if j \<in> set (i # ids) then Suc (rf j) else rf j)"
    using Cons.prems(2) by auto
  show ?case using Cons.IH[OF _ _ h, of "res @ [i]"] Cons.prems(1,2) new unfolding eq by (auto simp: o_def)
qed

lemma loadUsers_post:
  assumes "codec_ok E" "bridge_inv E b" "\<And>u a. lw_GetUser (L u) = Inr a \<Longrightarrow> au_ID a = u" "loadUsers E L b = (r, b')"
  shows "r = Some (Inr ()) \<and> bridge_inv E b' \<and> (\<forall>d i. contents E (br_vault b) d \<and> authed i d \<longrightarrow> settled i b')"
proof -
  obtain rf where rf: "holds E tokens_ok (\<lambda>_. True) rf (br_users b) b" "conn rf (br_users b)" using inv_holds[OF assms(2)] .
  obtain d where d: "vault_ok E (br_vault b) d" using rf(1) by (auto simp: holds_def)
  define U A where "U = set (user_ids d)" and "A = {i. authed i d}"
  have h: "holds E tokens_ok (\<lambda>d'. d' = d) rf (br_users b) b" using rf(1) d by (auto simp: holds_def)
  have A: "A \<subseteq> U" using lookup_user_None by (force simp: A_def U_def authed_def)
  let ?rf = "\<lambda>j. if j \<in> U then Suc (rf j) else rf j" and ?b = "b\<lparr>br_worlds := next_worlds (br_worlds b)\<rparr>"
  have h': "holds E tokens_ok (\<lambda>d'. d' = d) rf (br_users b) ?b" using h by (auto simp: holds_def next_worlds_all)
  have ids: "distinct (user_ids d)" using vault_okD(2)[OF d] .
  obtain v where v: "getUsers_loop E (br_worlds b 0) (user_ids d) [] (br_vault b) = Some (Inr (user_ids d), v)"
    "holds E tokens_ok (\<lambda>d'. d' = d) ?rf (br_users b) (?b\<lparr>br_vault := v\<rparr>)"
    using getUsers_loop_holds[OF _ ids h', of "br_worlds b 0" "[]"] by (auto simp: U_def)
  define b1 where "b1 = ?b\<lparr>br_vault := v\<rparr>"
  have get: "vop (\<lambda>w. getUsers E w) b = (Some (Inr (user_ids d)), b1)"
    using v(1) contents_get[OF vault_okD(1)[OF d]] by (simp add: vop_def getUsers_def user_ids_def b1_def)
  have used: "j \<in> U" if "0 < rf j" for j using in_use[OF h that] by (auto simp: holds_def U_def dest: contents_unique[OF vault_okD(1)[OF d] vault_okD(1)])
  have "conn (\<lambda>j. ?rf j - 1) (br_users b)" using rf(2) used unfolding conn_def by auto
  then have l: "in_load E U A (user_ids d) {} b1"
    unfolding in_load_def b1_def using v(2)
    by (intro exI[of _ ?rf] exI[of _ "br_users b"]) (auto simp: U_def A_def vault_at_def elim: holds_mono)
  obtain r2 b2 where 2: "load_each E L (user_ids d) b1 = (r2, b2)" by fastforce
  have e: "r2 = Some (Inr ())" "in_load E U A [] (A \<inter> U) b2"
    using load_each_hoare[OF assms(1,3) ids _ _ l 2] by (auto simp: U_def)
  obtain rf2 us2 where h2: "holds E tokens_ok (vault_at U {}) rf2 us2 b2" "conn (\<lambda>j. rf2 j - 1) us2" "\<forall>j\<in>A. settled j b2"
    using e(2) A unfolding in_load_def by (auto simp: Int_absorb2)
  have c: "close_each (user_ids d) b2 = (r, b')" using assms(4) get 2 e(1) by (simp add: loadUsers_def bnd_def)
  note cl = close_each_holds[OF ids h2(1) c]
  have "conn (\<lambda>j. if j \<in> set (user_ids d) then rf2 j - 1 else rf2 j) us2" using h2(2) by (fastforce simp: conn_def)
  then have "bridge_inv E b'" using holds_inv cl by blast
  moreover have "settled j b'" if "j \<in> A" for j
    using that h2(3) cl holds_users[OF h2(1)] holds_users unfolding settled_def by (metis)
  ultimately show ?thesis using cl contents_unique[OF vault_okD(1)[OF d]] by (auto simp: A_def)
qed

lemma DeleteUser_bridge_inv:
  assumes "codec_ok E" "bridge_inv E b" "Bridge_DeleteUser E W dir rmErr i b = (r, b')"
  shows "r \<noteq> None \<and> bridge_inv E b'"
proof (cases dir)
  case (Inl e)
  then show ?thesis using assms(2,3) by (auto simp: Bridge_DeleteUser_def throw_def)
next
  case (Inr path)
  have tail: "r \<noteq> None \<and> bridge_inv E b'" if inv: "bridge_inv E b1" and run:
    "bnd (removeSyncState rmErr p) (\<lambda>_. bnd (logged (vop (\<lambda>w. DeleteUser E w i))) (\<lambda>_. bridge_publish ev)) b1 = (r, b')" for b1 p ev
  proof -
    obtain rf where rf: "holds E tokens_ok (\<lambda>_. True) rf (br_users b1) b1" "conn rf (br_users b1)" using inv_holds[OF inv] .
    let ?P = "holds E tokens_ok (\<lambda>_. True) rf (br_users b1)"
    have "hoare ?P (bnd (removeSyncState rmErr p) (\<lambda>_. bnd (logged (vop (\<lambda>w. DeleteUser E w i))) (\<lambda>_. bridge_publish ev))) (\<lambda>r b. r \<noteq> None \<and> ?P b)"
    proof (rule hoare_bnd[where R = "\<lambda>_. ?P"])
      show "hoare ?P (removeSyncState rmErr p) (\<lambda>r b. case r of Some (Inr x) \<Rightarrow> ?P b | Some (Inl e) \<Rightarrow> Some (Inl e) \<noteq> None \<and> ?P b | None \<Rightarrow> None \<noteq> None \<and> ?P b)"
        by (auto simp: hoare_def removeSyncState_def split: prod.splits option.splits)
      show "hoare ?P (bnd (logged (vop (\<lambda>w. DeleteUser E w i))) (\<lambda>_. bridge_publish ev)) (\<lambda>r b. r \<noteq> None \<and> ?P b)"
        by (rule hoare_bnd[where R = "\<lambda>_. ?P"], rule hoare_logged, rule hoare_post[OF DeleteUser_any[OF assms(1)]])
          (auto simp: stays_def hoare_def bridge_publish_def)
    qed
    from hoareD[OF this rf(1) run] show ?thesis using holds_inv rf(2) by blast
  qed
  obtain has b1 where 1: "vread (\<lambda>w. HasUser E w i) b = (has, b1)" by fastforce
  obtain rf where rf: "holds E tokens_ok (\<lambda>_. True) rf (br_users b) b" "conn rf (br_users b)" using inv_holds[OF assms(2)] .
  have "hoare (holds E tokens_ok (\<lambda>_. True) rf (br_users b)) (vread (\<lambda>w. HasUser E w i))
    (\<lambda>r b1. (\<exists>x. r = Some (Inr x) \<and> True) \<and> holds E tokens_ok (\<lambda>_. True) rf (br_users b) b1)"
    by (rule hoare_vread) (auto simp: HasUser_def contents_get[OF vault_okD(1)])
  from hoareD[OF this rf(1) 1] obtain x where x: "has = Some (Inr x)" "holds E tokens_ok (\<lambda>_. True) rf (br_users b) b1" by blast
  then have inv1: "bridge_inv E b1" "br_users b1 = br_users b" using holds_inv rf(2) holds_users by blast+
  show ?thesis
  proof (cases x)
    case False
    then show ?thesis using assms(3) 1 x inv1 by (auto simp: Bridge_DeleteUser_def Inr bnd_def throw_def)
  next
    case True
    show ?thesis
    proof (cases "map_of (br_users b1) i")
      case None
      then show ?thesis using assms(3) 1 x True by (intro tail[OF inv1(1)]) (simp add: Bridge_DeleteUser_def Inr bnd_def ret_def)
    next
      case (Some u)
      obtain r2 b2 where 2: "logoutUser E W u True True b1 = (r2, b2)" by fastforce
      note lo = logoutUser_inv[OF assms(1) inv1(1) Some 2]
      then show ?thesis
        using assms(3) 1 x True Some 2 by (intro tail[of b2]) (auto simp: Bridge_DeleteUser_def Inr bnd_def)
    qed
  qed
qed

lemma put_buser_inv:
  assumes "bridge_inv E b" "map_of (br_users b) (bu_id u) \<noteq> None" "put_buser u b = (r, b')"
  shows "r = Some (Inr ()) \<and> bridge_inv E b' \<and> map_of (br_users b') (bu_id u) = Some u"
proof -
  obtain rf where rf: "holds E tokens_ok (\<lambda>_. True) rf (br_users b) b" "conn rf (br_users b)" using inv_holds[OF assms(1)] .
  have b': "b' = b\<lparr>br_users := AList.update (bu_id u) u (br_users b)\<rparr>" "r = Some (Inr ())" using assms(2,3) by (auto simp: put_buser_def)
  have "0 < rf (bu_id u)" using rf(2) assms(2) by (auto simp: conn_def)
  then have "conn rf (AList.update (bu_id u) u (br_users b))" using conn_update[OF rf(2) refl, of "rf (bu_id u)" u] by simp
  moreover have "holds E tokens_ok (\<lambda>_. True) rf (AList.update (bu_id u) u (br_users b)) b'" using rf(1) b' by (simp add: holds_def)
  ultimately show ?thesis using b' holds_inv by (auto simp: update_conv')
qed

definition knows :: "(string \<times> buser) list \<Rightarrow> Data \<Rightarrow> bool" where
  "knows us d \<longleftrightarrow> fst ` set us \<subseteq> set (user_ids d)"

lemma connected_ids:
  assumes "holds E G \<Phi> rf us b" "conn rf us"
  shows "holds E G (knows us) rf us b"
proof -
  obtain d where d: "vault_ok E (br_vault b) d" using assms(1) by (auto simp: holds_def)
  have "j \<in> set (user_ids d)" if j: "j \<in> fst ` set us" for j
  proof -
    obtain v where "map_of us j = Some v" using j map_of_eq_None_iff[of us j] by (cases "map_of us j") simp_all
    then have "0 < rf j" using assms(2) by (simp add: conn_def)
    then have "map_of (v_ref (br_vault b)) j = Some (int (rf j))" using assms(1) by (simp add: holds_def refmap_def)
    then show ?thesis using vault_okD(3)[OF d] by blast
  qed
  then have "knows us d" by (auto simp: knows_def)
  then show ?thesis using assms(1) d unfolding holds_def by blast
qed

lemma about_knows: "j \<in> fst ` set us \<Longrightarrow> about j (knows us)"
  by (auto simp: about_def knows_def)

lemma any_split_safe:
  assumes "\<And>j v. (j, v) \<in> set us \<Longrightarrow> bu_id v = j"
  shows "safe E G (knows us) rf us (\<lambda>_. True) (any_split E us)"
proof -
  have step: "safe E G (knows us) rf us (\<lambda>_. True) (bnd m (\<lambda>found. if found then ret True
       else bnd (vread (\<lambda>w. user_AddressMode E w (bu_id v))) (\<lambda>mode. ret (mode = SplitMode))))"
    if "safe E G (knows us) rf us (\<lambda>_. True) m" "(j, v) \<in> set us" for m j v
  proof -
    have "about (bu_id v) (knows us)" using about_knows[of j us] assms[OF that(2)] that(2) by force
    then show ?thesis by (intro safe_rules that(1)) auto
  qed
  have "safe E G (knows us) rf us (\<lambda>_. True) m \<Longrightarrow> set vs \<subseteq> set us \<Longrightarrow>
    safe E G (knows us) rf us (\<lambda>_. True) (fold (\<lambda>(i, u) m. bnd m (\<lambda>found. if found then ret True
       else bnd (vread (\<lambda>w. user_AddressMode E w (bu_id u))) (\<lambda>mode. ret (mode = SplitMode)))) vs m)" for vs m
  proof (induction vs arbitrary: m)
    case (Cons p vs)
    obtain j v where p: "p = (j, v)" by fastforce
    show ?case unfolding p using Cons.IH[OF step[of m j v]] Cons.prems p by simp
  qed simp
  then show ?thesis unfolding any_split_def by (simp add: safe_simple(1))
qed

lemma SetAddressMode_inv:
  assumes "codec_ok E" "bridge_inv E b" "Bridge_SetAddressMode E W i mode b = (r, b')"
  shows "r \<noteq> None \<and> bridge_inv E b'"
proof (cases "map_of (br_users b) i")
  case None
  then show ?thesis using assms(2,3) by (auto simp: Bridge_SetAddressMode_def throw_def)
next
  case (Some u)
  obtain rf where rf: "holds E tokens_ok (\<lambda>_. True) rf (br_users b) b" "conn rf (br_users b)" using inv_holds[OF assms(2)] .
  let ?S = "safe E tokens_ok (knows (br_users b)) rf (br_users b) (\<lambda>_. True)"
  have ids: "bu_id v = j" if "(j, v) \<in> set (br_users b)" for j v
    using that rf(2) by (simp add: conn_def)
  have i: "bu_id u = i" "about i (knows (br_users b))"
    using ids[OF map_of_SomeD[OF Some]] about_knows map_of_SomeD[OF Some] by force+
  have split: "?S (bnd (any_split E (br_users b)) (\<lambda>split b2. (Some (Inr ()), b2\<lparr>br_split := split\<rparr>)))"
    by (rule safe_then[OF any_split_safe[OF ids]]) (simp_all add: safe_def hoare_def)
  have s: "?S (bnd (vread (\<lambda>w. user_AddressMode E w (bu_id u))) (\<lambda>current.
          if current = mode then throw (Plain ''address mode is already set'')
          else bnd (wrapping ''failed to set address mode'' (User_SetAddressMode E W mode u)) (\<lambda>_.
               bnd (bridge_publish (BAddressModeChanged i mode)) (\<lambda>_.
               bnd (any_split E (br_users b)) (\<lambda>split b2. (Some (Inr ()), b2\<lparr>br_split := split\<rparr>))))))"
    unfolding User_SetAddressMode_def i(1) by (intro safe_rules split SetAddressMode.safe_op i(2) assms(1)) auto
  from hoareD[OF safe_hoare[OF s] connected_ids[OF rf], of r b'] show ?thesis
    using holds_inv rf(2) Some assms(3) unfolding Bridge_SetAddressMode_def by auto
qed

lemma event_step_inv:
  assumes "codec_ok E" "bridge_inv E b" "user_event_step E W i b = (r, b')"
  shows "r \<noteq> None \<and> bridge_inv E b'"
proof (cases "\<exists>u ev evs. map_of (br_users b) i = Some u \<and> bu_eventCh u = Some (ev # evs)")
  case False
  then show ?thesis using assms(2,3) by (auto simp: user_event_step_def ret_def split: option.splits list.splits)
next
  case True
  then obtain u ev evs where u: "map_of (br_users b) i = Some u" "bu_eventCh u = Some (ev # evs)" by blast
  let ?u = "u\<lparr>bu_eventCh := Some evs\<rparr>"
  have id: "bu_id u = i" using connected[OF assms(2) u(1)] by blast
  obtain r1 b1 where 1: "put_buser ?u b = (r1, b1)" by fastforce
  have p: "r1 = Some (Inr ())" "bridge_inv E b1" "map_of (br_users b1) i = Some ?u"
    using put_buser_inv[OF assms(2) _ 1] u(1) id by auto
  obtain r2 b2 where 2: "handleUserEvent E W ?u ev b1 = (r2, b2)" by fastforce
  have "r2 \<noteq> None \<and> bridge_inv E b2"
  proof (cases ev)
    case (UserDeauth x)
    then show ?thesis using logoutUser_inv[OF assms(1) p(2,3), of W False False r2 b2] 2 by (auto simp: handleUserEvent_def handleUserDeauth_def)
  next
    case (UserBadEventEmptyID x)
    then show ?thesis using 2 p(2) by (auto simp: handleUserEvent_def handleUserBadEvent_def User_OnBadEvent_def logged_def outcome_def ret_def throw_def split: option.splits)
  next
    case (UserLoadedCheckResync x)
    have "safe E tokens_ok (\<lambda>d. i \<in> set (user_ids d)) rf us (\<lambda>_. True) (VerifyResyncAndExecute E W ?u)" for rf us
      unfolding VerifyResyncAndExecute_def using id
      by (auto intro!: safe_rules SetShouldSync.safe_op assms(1) about_in)
    then show ?thesis using safe_inv[OF p(2,3), of "VerifyResyncAndExecute E W ?u"] 2 UserLoadedCheckResync by (auto simp: handleUserEvent_def)
  qed
  then show ?thesis
    using assms(3) u 1 p(1) 2 by (cases "the r2") (auto simp: user_event_step_def bnd_def bridge_publish_def holds_published)
qed

lemma NewUser_hoare:
  "hoare (holds E G (\<lambda>_. True) rf us) (vop (\<lambda>w. NewUser E w i)) (\<lambda>r b. (\<exists>e. r = Some (Inl e) \<and> holds E G (\<lambda>_. True) rf us b) \<or>
    (r = Some (Inr i) \<and> holds E G (\<lambda>d. i \<in> set (user_ids d)) (rf(i := Suc (rf i))) us b))"
  unfolding hoare_def
proof (intro allI impI)
  fix b assume b: "holds E G (\<lambda>_. True) rf us b"
  then obtain d where d: "vault_ok E (br_vault b) d" by (auto simp: holds_def)
  let ?b = "b\<lparr>br_worlds := next_worlds (br_worlds b)\<rparr>"
  have h: "holds E G (\<lambda>d'. d' = d) rf us ?b" using b d by (auto simp: holds_def next_worlds_all)
  show "case vop (\<lambda>w. NewUser E w i) b of (r, b) \<Rightarrow> (\<exists>e. r = Some (Inl e) \<and> holds E G (\<lambda>_. True) rf us b) \<or>
    (r = Some (Inr i) \<and> holds E G (\<lambda>d. i \<in> set (user_ids d)) (rf(i := Suc (rf i))) us b)"
  proof (cases "find_user i d")
    case None
    then show ?thesis using h by (auto simp: vop_def Let_def NewUser_def newUserUnsafe_def contents_get[OF vault_okD(1)[OF d]] elim: holds_mono)
  next
    case (Some k)
    then have i: "i \<in> set (user_ids d)" using find_user_None[of i d] by auto
    have "holds E G (\<lambda>d'. d' = d) (rf(i := Suc (rf i))) us (?b\<lparr>br_vault := attachUserUnsafe i (br_vault b)\<rparr>)"
      using holds_attach[OF h, of i] i by simp
    then show ?thesis
      using Some i by (auto simp: vop_def Let_def NewUser_def newUserUnsafe_def contents_get[OF vault_okD(1)[OF d]] elim: holds_mono)
  qed
qed

lemma more_gets [safe_rules]:
  assumes "about i \<Phi>"
  shows "safe E G \<Phi> rf us (\<lambda>_. True) (vread (\<lambda>w. user_Username E w i))" "safe E G \<Phi> rf us (\<lambda>_. True) (vread (\<lambda>w. user_BridgePass E w i))"
  by (rule safe_get[OF assms], simp add: user_defs)+

lemma GetUserInfo_inv:
  assumes "codec_ok E" "bridge_inv E b" "GetUserInfo E enc I i b = (r, b')"
  shows "r \<noteq> None \<and> bridge_inv E b'"
proof (cases "map_of (br_users b) i")
  case (Some u)
  have "safe E tokens_ok (\<lambda>d. i \<in> set (user_ids d)) rf us (\<lambda>_. True) (getConnUserInfo E enc (I i) u)" if "bu_id u = i" for rf us
    unfolding getConnUserInfo_def that by (intro safe_rules about_in) auto
  then show ?thesis using safe_inv[OF assms(2) Some, of "getConnUserInfo E enc (I i) u" r b'] assms(3) Some by (auto simp: GetUserInfo_def)
next
  case None
  obtain rf where rf: "holds E tokens_ok (\<lambda>_. True) rf (br_users b) b" "conn rf (br_users b)" using inv_holds[OF assms(2)] .
  let ?P = "holds E tokens_ok (\<lambda>d. i \<in> set (user_ids d)) (rf(i := Suc (rf i))) (br_users b)"
  let ?Q = "\<lambda>r b'. r \<noteq> None \<and> holds E tokens_ok (\<lambda>_. True) rf (br_users b) b'"
  have close: "hoare ?P (bnd (logged (closeVaultUser i)) (\<lambda>_. ret x)) ?Q" for x :: UserInfo
  proof (rule hoare_bnd[where R = "\<lambda>_. holds E tokens_ok (\<lambda>_. True) rf (br_users b)"], rule hoare_logged, rule hoare_post[OF closeVaultUser_hoare])
    show "hoare (holds E tokens_ok (\<lambda>_. True) rf (br_users b)) (ret x) ?Q" by (rule hoare_ret) simp
  qed (auto simp: stays_def elim: holds_mono)
  have read: "hoare ?P (bnd m f) ?Q" if "safe E tokens_ok (\<lambda>d. i \<in> set (user_ids d)) (rf(i := Suc (rf i))) (br_users b) (\<lambda>_. True) m"
    "\<And>x. hoare ?P (f x) ?Q" "\<And>b e b'. m b \<noteq> (Some (Inl e), b')" for m and f :: "_ \<Rightarrow> ('a, UserInfo) action"
  proof (rule hoare_bnd[OF _ that(2)])
    show "hoare ?P m (\<lambda>r b. case r of Some (Inr x) \<Rightarrow> ?P b | Some (Inl e) \<Rightarrow> ?Q (Some (Inl e)) b | None \<Rightarrow> ?Q None b)"
      unfolding hoare_def
    proof (intro allI impI)
      fix b1 assume "?P b1"
      then have "case m b1 of (r, b2) \<Rightarrow> ?P b2 \<and> (\<exists>x. r = Some x)" using that(1) by (auto simp: safe_def hoare_def)
      then show "case m b1 of (r, b) \<Rightarrow> case r of Some (Inr x) \<Rightarrow> ?P b | Some (Inl e) \<Rightarrow> ?Q (Some (Inl e)) b | None \<Rightarrow> ?Q None b"
        using that(3) by (auto split: prod.splits sum.splits)
    qed
  qed
  have noerr: "vread g b1 \<noteq> (Some (Inl e), b2)" for g :: "_ \<Rightarrow> _ \<Rightarrow> 'x option" and b1 e b2 by (auto simp: vread_def split: option.splits)
  have chain: "hoare (\<lambda>b. user = i \<and> ?P b) (
          bnd (vread (\<lambda>w. user_AuthUID E w user)) (\<lambda>authUID.
          bnd (vread (\<lambda>w. user_UserID E w user)) (\<lambda>i.
          bnd (vread (\<lambda>w. user_Username E w user)) (\<lambda>name.
          bnd (vread (\<lambda>w. user_PrimaryEmail E w user)) (\<lambda>email.
          bnd (vread (\<lambda>w. user_AddressMode E w user)) (\<lambda>mode.
          bnd (logged (closeVaultUser user)) (\<lambda>_.
            ret (getUserInfo i name email (if authUID = [] then SignedOut else Locked) mode)))))))) ?Q" for user
    by (rule hoare_fact, simp only:) (intro read close safe_gets more_gets about_in noerr)
  have "hoare (holds E tokens_ok (\<lambda>_. True) rf (br_users b)) (wrapping ''failed to get user info'' (vop (\<lambda>w. NewUser E w i))) (\<lambda>r b. case r of
      Some (Inr x) \<Rightarrow> x = i \<and> ?P b | Some (Inl e) \<Rightarrow> ?Q (Some (Inl e)) b | None \<Rightarrow> ?Q None b)"
    by (rule hoare_wrapping, rule hoare_post[OF NewUser_hoare]) auto
  note this = hoare_bnd[OF this chain]
  from hoareD[OF this rf(1), of r b'] show ?thesis using assms(3) None holds_inv rf(2) by (auto simp: GetUserInfo_def)
qed

subsection \<open>The theorems\<close>

text \<open>
  The operations that change the table of users. A login is for an account that is not connected, which \<open>LoginAuth\<close> checks. The session with
  which a user is loaded belongs to that user.
\<close>

inductive bridge_step :: "'e vault_env \<Rightarrow> 'e bridge \<Rightarrow> 'e bridge \<Rightarrow> bool" for E where
  login: "(\<And>a. lw_GetUser L = Inr a \<Longrightarrow> map_of (br_users b) (au_ID a) = None) \<Longrightarrow> LoginUser E L auth keyPass b = (r, b') \<Longrightarrow> bridge_step E b b'"
| logout: "LogoutUser E W i b = (r', b') \<Longrightarrow> bridge_step E b b'"
| delete: "Bridge_DeleteUser E W dir rmErr i b = (r', b') \<Longrightarrow> bridge_step E b b'"
| mode: "Bridge_SetAddressMode E W i mode b = (r', b') \<Longrightarrow> bridge_step E b b'"
| feedback: "SendBadEventUserFeedback E W i doResync b = (r', b') \<Longrightarrow> bridge_step E b b'"
| load: "(\<And>u a. lw_GetUser (L' u) = Inr a \<Longrightarrow> au_ID a = u) \<Longrightarrow> loadUsers E L' b = (r', b') \<Longrightarrow> bridge_step E b b'"
| event: "user_event_step E W i b = (r', b') \<Longrightarrow> bridge_step E b b'"
| auth: "map_of (br_users b) i = Some u \<Longrightarrow> onAuth E uid ref u b = (r', b') \<Longrightarrow> bridge_step E b b'"
| deauth: "map_of (br_users b) i = Some u \<Longrightarrow> onDeauth u b = (r', b') \<Longrightarrow> bridge_step E b b'"
| info: "GetUserInfo E enc (I :: string \<Rightarrow> unit identity_answers) i b = (r2, b') \<Longrightarrow> bridge_step E b b'"

lemma feedback_inv:
  assumes "codec_ok E" "bridge_inv E b" "SendBadEventUserFeedback E W i doResync b = (r, b')"
  shows "r \<noteq> None \<and> bridge_inv E b'"
proof (cases "map_of (br_users b) i")
  case None
  then show ?thesis using assms(2,3) by (auto simp: SendBadEventUserFeedback_def throw_def)
next
  case (Some u)
  have id: "bu_id u = i" using connected[OF assms(2) Some] by blast
  obtain r1 b1 where p: "put_buser (u\<lparr>bu_eventsPaused := False\<rparr>) b = (r1, b1)" by fastforce
  have put: "r1 = Some (Inr ()) \<and> bridge_inv E b1" using put_buser_inv[OF assms(2) _ p] Some id by auto
  show ?thesis
  proof (cases doResync)
    case True
    then show ?thesis
      using assms(2,3) Some put p
      by (auto simp: SendBadEventUserFeedback_def BadEventFeedbackResync_def bnd_def wrapping_def outcome_def ret_def throw_def split: option.splits)
  next
    case False
    then show ?thesis using assms(3) Some logout_published_inv[OF assms(1,2) Some, of W True False _ r b'] by (auto simp: SendBadEventUserFeedback_def)
  qed
qed

lemma bridge_step_inv:
  assumes "codec_ok E" "bridge_step E b b'" "bridge_inv E b"
  shows "bridge_inv E b'"
  using assms(2)
proof cases
  case (login L auth keyPass r)
  then show ?thesis using LoginUser_inv[OF assms(1,3) _ login(2)] by blast
next
  case (logout W i r)
  then show ?thesis
    using assms(3) logout_published_inv[OF assms(1,3)] by (fastforce simp: LogoutUser_def throw_def split: option.splits)
next
  case (delete W dir rmErr i r)
  then show ?thesis using DeleteUser_bridge_inv[OF assms(1,3)] by blast
next
  case (mode W i m r)
  then show ?thesis using SetAddressMode_inv[OF assms(1,3)] by blast
next
  case (feedback W i doResync r)
  then show ?thesis using feedback_inv[OF assms(1,3)] by blast
next
  case (load L r)
  then show ?thesis using loadUsers_post[OF assms(1,3) load] by blast
next
  case (event W i r)
  then show ?thesis using event_step_inv[OF assms(1,3)] by blast
next
  case (auth i u uid ref r)
  have "safe E tokens_ok (\<lambda>d. i \<in> set (user_ids d)) rf us (\<lambda>_. True) (onAuth E uid ref u)" if "bu_id u = i" for rf us
    unfolding onAuth_def that by (intro safe_rules SetAuth.safe_op assms(1) about_in) auto
  then show ?thesis using safe_inv[OF assms(3) auth(1), of "onAuth E uid ref u"] auth(2) by blast
next
  case (deauth i u r)
  have "bu_id u = i" using connected[OF assms(3) deauth(1)] by blast
  then show ?thesis using put_buser_inv[OF assms(3), of "PublishEventTo (UserDeauth (bu_id u)) u"] deauth by (auto simp: onDeauth_def PublishEventTo_def)
next
  case (info enc I i r)
  then show ?thesis using GetUserInfo_inv[OF assms(1,3)] by blast
qed

end
