(* ===== verification/Account_Results.thy ===== *)
theory Account_Results
  imports Bridge_Accounts
begin

section \<open>Accounts: results\<close>

text \<open>
  What the triples of \<open>Bridge_Accounts\<close> say about the program: connected users can be used, what a failed login leaves behind, what a logout
  clears and when it does not, and that loading misses no account. The witnesses run the operations on a concrete vault.
\<close>

text \<open>The states of a bridge that starts with no connected user on a vault that can be read.\<close>

definition reachable :: "'e vault_env \<Rightarrow> 'e bridge \<Rightarrow> bool" where
  "reachable E b \<longleftrightarrow> (\<exists>b0 data. vault_ok E (br_vault b0) data \<and> (\<forall>n. tokens_ok (br_worlds b0 n)) \<and> br_users b0 = [] \<and> (bridge_step E)\<^sup>*\<^sup>* b0 b)"

lemma start_inv:
  assumes "vault_ok E (br_vault b0) data" "\<forall>n. tokens_ok (br_worlds b0 n)" "br_users b0 = []"
  shows "bridge_inv E b0"
proof -
  have refs: "map_of (v_ref (br_vault b0)) = refmap (\<lambda>i. case map_of (v_ref (br_vault b0)) i of None \<Rightarrow> 0 | Some n \<Rightarrow> nat n)"
    using vault_okD(3)[OF assms(1)] by (fastforce simp: refmap_def fun_eq_iff split: option.splits)
  then have "holds E tokens_ok (\<lambda>_. True) (\<lambda>i. case map_of (v_ref (br_vault b0)) i of None \<Rightarrow> 0 | Some n \<Rightarrow> nat n) [] b0"
    using assms by (auto simp: holds_def)
  then show ?thesis by (rule holds_inv) (simp add: conn_def)
qed

lemma reachable_inv:
  assumes "codec_ok E" "reachable E b"
  shows "bridge_inv E b"
proof -
  obtain b0 data where b0: "vault_ok E (br_vault b0) data" "\<forall>n. tokens_ok (br_worlds b0 n)" "br_users b0 = []" "(bridge_step E)\<^sup>*\<^sup>* b0 b"
    using assms(2) by (auto simp: reachable_def)
  from b0(4) start_inv[OF b0(1-3)] show ?thesis by (induction rule: rtranclp_induct) (use bridge_step_inv[OF assms(1)] in blast)+
qed

subsection \<open>A concrete run\<close>

definition demo_services :: "string user_world" where
  "demo_services = \<lparr>uw_readErr = False, uw_readErr2 = False, uw_GetAddresses = None, uw_GetOrganizationData = Inr ''mail'', uw_GetLabels = None,
     uw_GetLatestEventID = Inr [], uw_smtpStart = None, uw_imapStart = None, uw_smtpLogout = None, uw_imapLogout = None, uw_imapDelete = None,
     uw_smtpMode = None, uw_imapMode = None, uw_onBadEvent = None, uw_badEventResync = None, uw_identityResync = None, uw_smtpResync = None, uw_imapResync = None,
     uw_authDelete = True\<rparr>"

definition demo_auth :: auth where
  "demo_auth = \<lparr>at_UID = ''auth'', at_RefreshToken = ''ref'', at_UserID = ''id'', at_HasTOTP = False, at_TwoPasswordMode = False\<rparr>"

definition demo_login :: "string login_world" where
  "demo_login = \<lparr>lw_login = Inr demo_auth, lw_authDelete = True, lw_authDelete2 = True, lw_getTOTP = Inr [], lw_Auth2FA = (\<lambda>_. None),
     lw_getKeyPass = Inr [], lw_GetUser = Inr \<lparr>au_ID = ''id'', au_Name = ''name'', au_Email = ''me@pm.me''\<rparr>, lw_GetSalts = None,
     lw_SaltForKey = (\<lambda>_. Inr ''kp''), lw_Unlock = (\<lambda>_. Inr 1), lw_refresh = Inr demo_auth, lw_syncPath = Inr ''sync'', lw_user = demo_services\<rparr>"

definition demo_bridge :: "string bridge" where
  "demo_bridge = \<lparr>br_vault = demo_vault 0, br_worlds = (\<lambda>_. demo_world IoOk), br_disk = \<lparr>files = Map.empty, faults = []\<rparr>, br_users = [], br_published = [],
     br_deleted = [], br_observed = [], br_accounts = 0, br_split = False, br_plans = []\<rparr>"

text \<open>The vault has one user, with its secrets (0) or without (1).\<close>

definition acc_user :: "nat \<Rightarrow> UserData" where
  "acc_user k = (if k = 0 then demo_user ''auth'' else clear_fn (demo_user ''auth''))"

definition acc_list :: "Data list" where
  "acc_list = [demo_data [acc_user 0] None, demo_data [acc_user 1] None]"

abbreviation acc_env :: "string vault_env" where "acc_env \<equiv> demo_env acc_list"

definition acc_enc :: "nat \<Rightarrow> bytes" where "acc_enc k = CHR ''r'' # replicate k CHR ''d''"

lemma acc_user_neq: "acc_user 0 \<noteq> acc_user 1"
proof
  assume "acc_user 0 = acc_user 1"
  then have "ud_AuthUID (acc_user 0) = ud_AuthUID (acc_user 1)" by simp
  then show False by (simp add: acc_user_def demo_user_def newDefaultUser_def newRandomToken_def demo_world_def)
qed

lemma acc_index: "k < 2 \<Longrightarrow> index_of (demo_data [acc_user k] None) acc_list = Some k"
  using acc_user_neq by (auto simp: acc_list_def demo_data_eq less_2_cases_iff)

lemma acc_marshal: "k < 2 \<Longrightarrow> marshalFile acc_env (demo_world io) (demo_data [acc_user k] None) = Inr (acc_enc k)"
  using acc_index[of k] by (simp add: marshalFile_def demo_env_def demo_world_def acc_enc_def del: index_of_None)

lemma acc_get: "k < 2 \<Longrightarrow> unmarshalFile acc_env w (acc_enc k) = Some (Inr (demo_data [acc_user k] None))"
  by (auto simp: unmarshalFile_def demo_env_def acc_enc_def upgrade_all.simps acc_list_def less_2_cases_iff)

lemma acc_id [simp]: "ud_UserID (acc_user k) = ''id''" "ud_Username (acc_user k) = ''name''"
  by (simp_all add: acc_user_def demo_user_def newDefaultUser_def newRandomToken_def demo_world_def)

lemma acc_find [simp]: "find_user ''id'' (demo_data [acc_user k] None) = Some 0"
  by (simp add: find_user_def demo_data_def)

definition in_state :: "nat \<Rightarrow> vault \<Rightarrow> bool" where
  "in_state k v \<longleftrightarrow> k < 2 \<and> v_gcm v \<and> v_enc v = acc_enc k"

definition stored :: "nat \<Rightarrow> vault \<Rightarrow> vault" where
  "stored k v = v\<lparr>v_enc := acc_enc k, v_files := (v_files v)(v_path v @ ''.tmp'' := None, v_path v \<mapsto> acc_enc k)\<rparr>"

lemma stored_state [simp]: "in_state j v \<Longrightarrow> k < 2 \<Longrightarrow> in_state k (stored k v)" "v_ref (stored k v) = v_ref v"
  by (simp_all add: in_state_def stored_def)

lemma acc_mod:
  assumes "in_state k v" "k' < 2" "f (acc_user k) = acc_user k'"
  shows "modUserUnsafe acc_env (demo_world IoOk) ''id'' (\<lambda>u. Some ((), f u)) v = Some (Inr (), stored k' v)"
proof -
  have "(demo_data [acc_user k] None)\<lparr>d_Users := (d_Users (demo_data [acc_user k] None))[0 := acc_user k']\<rparr> = demo_data [acc_user k'] None"
    by (simp add: demo_data_def)
  moreover have "d_Users (demo_data [acc_user k] None) ! 0 = acc_user k" by (simp add: demo_data_def)
  ultimately show ?thesis
    using assms acc_get[of k "demo_world IoOk"] acc_marshal[of k' IoOk]
    by (simp add: modUserUnsafe_def modUnsafe_def in_state_def stored_def Let_def demo_world_def)
qed

lemma acc_getUser: "in_state k v \<Longrightarrow> getUser acc_env w ''id'' v = Some (acc_user k)"
  using acc_get[of k w] by (simp add: getUser_def getUnsafe_def in_state_def demo_data_def find_user_def)

lemma acc_contents: "in_state k v \<Longrightarrow> contents acc_env v (demo_data [acc_user k] None)"
  using acc_get[of k] by (simp add: contents_def in_state_def)

lemma acc_ops:
  assumes "in_state k v"
  shows "setAuthAndKeyPassUnsafe acc_env (demo_world IoOk) ''id'' ''auth'' ''ref'' ''kp'' v = Some (Inr (), stored 0 v)"
    "user_ClearSyncStatusWithoutEventID acc_env (demo_world IoOk) ''id'' v = Some (Inr (), stored k v)"
    "user_SetEventID acc_env (demo_world IoOk) ''id'' [] v = Some (Inr (), stored k v)"
    "user_Clear acc_env (demo_world IoOk) ''id'' v = Some (Inr (), stored 1 v)"
  unfolding setAuthAndKeyPassUnsafe_def user_ClearSyncStatusWithoutEventID_def user_SetEventID_def user_Clear_def
  using assms
  by (intro acc_mod[OF assms]; simp add: in_state_def acc_user_def demo_user_def newDefaultUser_def newRandomToken_def demo_world_def)+

lemma acc_GetOrAdd:
  assumes "in_state k v"
  shows "GetOrAddUser acc_env (demo_world IoOk) (demo_world IoOk) ''id'' ''name'' ''me@pm.me'' ''auth'' ''ref'' ''kp'' v =
    Some (Inr (''id'', False), stored 0 (attachUserUnsafe ''id'' v))"
proof -
  have a: "in_state k (attachUserUnsafe ''id'' v)" using assms by (simp add: in_state_def attachUserUnsafe_def)
  have s: "in_state 0 (stored 0 (attachUserUnsafe ''id'' v))" using stored_state(1)[OF a] by simp
  show ?thesis
    using contents_get[OF acc_contents[OF assms]] acc_ops(1)[OF a] acc_getUser[OF s]
    by (simp add: GetOrAddUser_def updateUsernameUnsafe_def)
qed

lemma acc_reads:
  assumes "in_state k v"
  shows "user_SyncStatus acc_env w ''id'' v = Some emptySyncStatus" "user_EventID acc_env w ''id'' v = Some []"
    "user_AddressMode acc_env w ''id'' v = Some CombinedMode" "user_AuthUID acc_env w ''id'' v = Some (ud_AuthUID (acc_user k))"
  using acc_getUser[OF assms, of w]
  by (simp_all add: user_defs acc_user_def demo_user_def newDefaultUser_def newRandomToken_def demo_world_def)

text \<open>The definitions that evaluate a login.\<close>

lemmas account_run =
  LoginUser_def loginUser_def addUser_def newVaultUser_def addUserWithVault_def User_New_def newImpl_def migrateSyncStatusFromVault_def
  checkIrrecoverableEventID_def eventService_Start_def addUser_finish_def User_Close_def closeVaultUser_def bnd_def attempt_def CatchVal_def
  wrapping_def logged_def outcome_def outcome_val_def ret_def throw_def vop_def vread_def bridge_publish_def Let_def RegisterUserClient_def
  DeregisterUserClient_def AuthDelete_def MigrateVaultSettings_def storeImpl_def next_fault_def next_worlds_def NewSyncState_def loadUnsafe_def
  SyncFileVersion_def GetSyncStatus_def emptySyncStatus_def DefaultStatus_def IsComplete_def InProgress_def

lemma demo_login_run:
  "\<exists>b u. LoginUser acc_env demo_login demo_auth ''pw'' demo_bridge = (Some (Inr ''id''), b) \<and> in_state 0 (br_vault b) \<and>
     map_of (br_users b) ''id'' = Some u \<and> br_worlds b 0 = demo_world IoOk"
proof -
  have v: "in_state 0 (demo_vault 0)" by (simp add: in_state_def demo_vault_def acc_enc_def)
  let ?v1 = "stored 0 (attachUserUnsafe ''id'' (demo_vault 0))"
  have 1: "in_state 0 ?v1" using v by (simp add: in_state_def attachUserUnsafe_def stored_def)
  have 2: "in_state 0 (stored 0 ?v1)" using stored_state(1)[OF 1] by simp
  have 3: "in_state 0 (stored 0 (stored 0 ?v1))" using stored_state(1)[OF 2] by simp
  show ?thesis
    using acc_GetOrAdd[OF v] acc_reads[OF 1] acc_reads[OF 2] acc_reads[OF 3] acc_ops[OF 1] acc_ops[OF 2] 1 2 3
    by (auto simp: account_run demo_login_def demo_auth_def demo_services_def demo_bridge_def)
qed

lemma demo_start: "vault_ok acc_env (br_vault demo_bridge) (demo_data [acc_user 0] None)" "tokens_ok (br_worlds demo_bridge n)" "br_users demo_bridge = []"
  using acc_contents[of 0 "demo_vault 0"]
  by (simp_all add: demo_bridge_def demo_tokens vault_ok_def demo_vault_def in_state_def acc_enc_def demo_data_def user_ids_def)

lemma demo_login_reachable:
  "\<exists>b u. reachable acc_env b \<and> map_of (br_users b) ''id'' = Some u \<and> in_state 0 (br_vault b) \<and> br_worlds b 0 = demo_world IoOk"
proof -
  obtain b u where b: "LoginUser acc_env demo_login demo_auth ''pw'' demo_bridge = (Some (Inr ''id''), b)" "map_of (br_users b) ''id'' = Some u"
    "in_state 0 (br_vault b)" "br_worlds b 0 = demo_world IoOk" using demo_login_run by blast
  have "(bridge_step acc_env)\<^sup>*\<^sup>* demo_bridge b"
    by (rule r_into_rtranclp, rule bridge_step.login[OF _ b(1)]) (simp add: demo_bridge_def)
  then show ?thesis using demo_start b(2-4) unfolding reachable_def by blast
qed

lemma demo_reachable: "reachable acc_env demo_bridge"
  using demo_start unfolding reachable_def by blast

subsection \<open>The theorems\<close>

text \<open>
  Property C10. Connected users can be used. From a start with no connected user, after any operations on the bridge, every connected user is
  stored under its own ID, has an open handle and a record in the vault; its secrets can be read, and the vault refuses to delete it.
\<close>

theorem connected_users_usable:
  assumes "codec_ok E" "reachable E b" "map_of (br_users b) i = Some u"
  shows "bu_id u = i \<and> (\<exists>n > 0. map_of (v_ref (br_vault b)) i = Some n) \<and> (\<exists>rec. \<forall>w. getUser E w i (br_vault b) = Some rec) \<and>
    DeleteUser E w i (br_vault b) = Some (Inl (UserInUse i), br_vault b)"
proof (rule connected[OF reachable_inv[OF assms(1,2)] assms(3)])
  fix rf assume h: "holds E tokens_ok (\<lambda>d. i \<in> set (user_ids d)) rf (br_users b) b" "bu_id u = i" "0 < rf i"
  have ref: "map_of (v_ref (br_vault b)) i = Some (int (rf i))" using h(1,3) by (simp add: holds_def refmap_def)
  obtain d where d: "vault_ok E (br_vault b) d" "i \<in> set (user_ids d)" using h(1) by (auto simp: holds_def)
  obtain rc where "lookup_user i d = Some rc" using d(2) lookup_user_None[of i d] by (cases "lookup_user i d") auto
  then have "\<forall>w. getUser E w i (br_vault b) = Some rc" using getUser_contents[OF vault_okD(1)[OF d(1)]] by simp
  then show ?thesis using ref h(2,3) by (auto simp: DeleteUser_def)
qed

theorem connected_users_usable_witness:
  "\<exists>b u. reachable acc_env b \<and> map_of (br_users b) ''id'' = Some u \<and> bu_id u = ''id'' \<and>
     DeleteUser acc_env (demo_world IoOk) ''id'' (br_vault b) = Some (Inl (UserInUse ''id''), br_vault b)"
  using demo_login_reachable connected_users_usable[OF demo_codec] by blast

text \<open>
  Property C19. Loading the accounts misses none of them. For every account of the vault with a session, \<open>loadUsers\<close> ends with the account
  connected or its failure published; it never panics.
\<close>

theorem accounts_loaded_or_reported:
  assumes "codec_ok E" "reachable E b" "contents E (br_vault b) data"
    and "\<forall>u a. lw_GetUser (L u) = Inr a \<longrightarrow> au_ID a = u" "loadUsers E L b = (r, b')"
    and "lookup_user i data = Some rc" "ud_AuthUID rc \<noteq> []"
  shows "r = Some (Inr ()) \<and> (map_of (br_users b') i \<noteq> None \<or> (\<exists>uid. BUserLoadFail i uid \<in> set (br_published b')))"
  using loadUsers_post[OF assms(1) reachable_inv[OF assms(1,2)], of L r b'] assms(3-7) unfolding authed_def settled_def by blast

definition demo_load :: "string \<Rightarrow> string login_world" where
  "demo_load u = demo_login\<lparr>lw_GetUser := Inr \<lparr>au_ID = u, au_Name = ''name'', au_Email = ''me@pm.me''\<rparr>\<rparr>"

theorem accounts_loaded_or_reported_witness:
  "\<exists>b'. loadUsers acc_env demo_load demo_bridge = (Some (Inr ()), b') \<and>
     (map_of (br_users b') ''id'' \<noteq> None \<or> (\<exists>uid. BUserLoadFail ''id'' uid \<in> set (br_published b')))"
proof -
  obtain r b' where r: "loadUsers acc_env demo_load demo_bridge = (r, b')" by fastforce
  have L: "\<forall>u a. lw_GetUser (demo_load u) = Inr a \<longrightarrow> au_ID a = u" by (auto simp: demo_load_def)
  have "lookup_user ''id'' (demo_data [acc_user 0] None) = Some (acc_user 0)" "ud_AuthUID (acc_user 0) \<noteq> []"
    by (simp_all add: lookup_user_def demo_data_def find_user_def acc_user_def demo_user_def newDefaultUser_def newRandomToken_def demo_world_def)
  from accounts_loaded_or_reported[OF demo_codec demo_reachable vault_okD(1)[OF demo_start(1)] L r this] r show ?thesis by blast
qed

lemma LoginUser_vault:
  assumes "LoginUser E L auth keyPass b = (r, b')" "loginUser E L (at_UID auth) (at_RefreshToken auth) keyPass b = (r1, b1)"
  shows "br_vault b' = br_vault b1"
  using assms by (auto simp: LoginUser_def bnd_def attempt_def CatchVal_def bridge_publish_def ret_def throw_def logged_def AuthDelete_def
    split: option.splits sum.splits if_splits prod.splits)

lemma errors_Is_Wrapped [simp]: "errors_Is (Wrapped s e) ErrFailedToUnlock = errors_Is e ErrFailedToUnlock"
  by (simp add: errors_Is_def)

text \<open>The worlds that the vault's operations meet from a state on.\<close>

abbreviation met :: "'e bridge \<Rightarrow> 'e vault_world \<Rightarrow> bool" where "met b w \<equiv> w \<in> range (br_worlds b)"

text \<open>A reachable state, with the worlds that are still to come.\<close>

lemma reachable_holds:
  assumes "codec_ok E" "reachable E b" "contents E (br_vault b) data"
  obtains rf where "holds E (met b) (\<lambda>d. d = data) rf (br_users b) b"
    "\<And>w. met b w \<Longrightarrow> tokens_ok w" "\<And>i. i \<notin> set (user_ids data) \<Longrightarrow> rf i = 0"
proof -
  obtain rf where rf: "holds E tokens_ok (\<lambda>_. True) rf (br_users b) b" using inv_holds[OF reachable_inv[OF assms(1,2)]] .
  then obtain d where d: "vault_ok E (br_vault b) d" by (auto simp: holds_def)
  then have eq: "d = data" using contents_unique[OF vault_okD(1) assms(3)] by blast
  have "rf i = 0" if "i \<notin> set (user_ids data)" for i
  proof (rule ccontr)
    assume "rf i \<noteq> 0"
    then have "holds E tokens_ok (\<lambda>d. i \<in> set (user_ids d)) rf (br_users b) b" using in_use[OF rf] by simp
    then show False using that contents_unique[OF assms(3)] by (auto simp: holds_def dest!: vault_okD(1))
  qed
  then show thesis using that[of rf] rf d eq by (auto simp: holds_def)
qed

lemma addUser_failed_known:
  assumes "codec_ok E" "reachable E b" "contents E (br_vault b) data" "au_ID a \<in> set (user_ids data)"
    and "addUser E L a uid ref keyPass True b = (r, b')" "r \<noteq> Some (Inr ())"
  shows "br_users b' = br_users b \<and> secrets_gone E (met b) (au_ID a) b'"
proof (rule reachable_holds[OF assms(1-3)])
  fix rf assume h: "holds E (met b) (\<lambda>d. d = data) rf (br_users b) b" and tok: "\<And>w. met b w \<Longrightarrow> tokens_ok w"
  from h have "holds E (met b) (\<lambda>d. au_ID a \<in> set (user_ids d)) rf (br_users b) b" by (rule holds_mono) (simp add: assms(4))
  from hoareD[OF addUser_known[OF assms(1) tok about_in refl] this assms(5)] assms(6) show ?thesis using holds_users by blast
qed

lemma addUser_failed_new:
  assumes "codec_ok E" "reachable E b" "contents E (br_vault b) data" "au_ID a \<notin> set (user_ids data)"
    and "addUser E L a uid ref keyPass True b = (r, b')" "r \<noteq> Some (Inr ())"
  shows "br_users b' = br_users b \<and>
    ((\<exists>data'. contents E (br_vault b') data' \<and> d_Users data' = d_Users data) \<or>
     delete_failed E (met b) (au_ID a) b' \<or> add_failed E (met b) (au_ID a) b')"
proof (rule reachable_holds[OF assms(1-3)])
  let ?G = "met b"
  fix rf assume h: "holds E ?G (\<lambda>d. d = data) rf (br_users b) b" and tok: "\<And>w. ?G w \<Longrightarrow> tokens_ok w"
    and rf: "\<And>i. i \<notin> set (user_ids data) \<Longrightarrow> rf i = 0"
  have new: "\<And>d. d = data \<Longrightarrow> au_ID a \<notin> set (user_ids d)" using assms(4) by simp
  have same: "\<exists>data'. contents E (br_vault b') data' \<and> d_Users data' = d_Users data" if "holds E ?G (same_users (\<lambda>d. d = data)) rf us b'" for us
    using that by (auto simp: holds_def same_users_def dest: vault_okD(1))
  have eq: "\<exists>data'. contents E (br_vault b') data' \<and> d_Users data' = d_Users data" if "holds E ?G (\<lambda>d. d = data) rf us b'" for us
    using that by (auto simp: holds_def dest: vault_okD(1))
  from hoareD[OF addUser_new[where \<Phi> = "\<lambda>d. d = data" and i = "au_ID a" and rf = rf, OF assms(1) tok new refl rf[OF assms(4)]] h assms(5)]
  consider "holds E ?G (\<lambda>d. d = data) rf (br_users b) b'" | d where "holds E ?G d rf (br_users b) b'"
      "holds E ?G (same_users (\<lambda>d. d = data)) rf (br_users b) b' \<or> delete_failed E ?G (au_ID a) b' \<or> add_failed E ?G (au_ID a) b'"
    using assms(6) by blast
  then show ?thesis using holds_users same eq by cases blast+
qed

text \<open>
  Property C11. A login that fails leaves nothing behind. The connected users stay as they were. For an account new to the vault the
  users of the vault are those from before, unless one of the vault's writes failed; for an account that was in the vault, its record has no
  secrets left, unless a write failed, or the login failed before the vault was touched. The session ends at the API (if that can be reached),
  except after a wrong mailbox password, which the user may try again with the same session.
\<close>

theorem failed_login:
  assumes "codec_ok E" "reachable E b" "contents E (br_vault b) data" "LoginUser E L auth keyPass b = (Some (Inl e), b')"
    and "lw_GetUser L = Inr a" "map_of (br_users b) (au_ID a) = None"
  shows "br_users b' = br_users b \<and>
    (au_ID a \<notin> set (user_ids data) \<longrightarrow>
       (\<exists>data'. contents E (br_vault b') data' \<and> d_Users data' = d_Users data) \<or>
       delete_failed E (met b) (au_ID a) b' \<or> add_failed E (met b) (au_ID a) b') \<and>
    (au_ID a \<in> set (user_ids data) \<longrightarrow> br_vault b' = br_vault b \<or> secrets_gone E (met b) (au_ID a) b') \<and>
    (lw_authDelete L \<longrightarrow> errors_Is e ErrFailedToUnlock \<or> at_UID auth \<in> set (br_deleted b'))"
proof (cases rule: LoginUser_cases[OF assms(4)])
  case (1 r1 b1)
  note v = LoginUser_vault[OF assms(4) 1(1)]
  have session: "lw_authDelete L \<longrightarrow> errors_Is e ErrFailedToUnlock \<or> at_UID auth \<in> set (br_deleted b')" using 1(5) by auto
  have failed: "r1 \<noteq> Some (Inr x)" for x using 1(5) by auto
  show ?thesis
  proof (cases rule: loginUser_cases[OF 1(1)])
    case (1 e1)
    then show ?thesis using v \<open>br_users b' = br_users b1\<close> session assms(3) by auto
  next
    case (2 a' salted r2)
    then have add: "addUser E L a (at_UID auth) (at_RefreshToken auth) salted True b = (r2, b1)" "r2 \<noteq> Some (Inr ())"
      using assms(5) failed by auto
    have "secrets_gone E (met b) i b' = secrets_gone E (met b) i b1" "delete_failed E (met b) i b' = delete_failed E (met b) i b1" "add_failed E (met b) i b' = add_failed E (met b) i b1" for i
      using v by (auto simp: secrets_gone_enc delete_failed_def add_failed_def write_failed_def secrets_gone_def clear_failed_def)
    then show ?thesis
      using addUser_failed_known[OF assms(1-3) _ add] addUser_failed_new[OF assms(1-3) _ add] \<open>br_users b' = br_users b1\<close> session v
      by auto
  qed
qed

theorem failed_login_witness:
  "\<exists>e b'. LoginUser acc_env (demo_login\<lparr>lw_user := demo_services\<lparr>uw_GetAddresses := Some (Plain ''offline'')\<rparr>\<rparr>) demo_auth ''pw'' demo_bridge =
       (Some (Inl e), b') \<and> br_users b' = [] \<and> secrets_gone acc_env (met demo_bridge) ''id'' b' \<and> ''auth'' \<in> set (br_deleted b')"
proof -
  let ?L = "demo_login\<lparr>lw_user := demo_services\<lparr>uw_GetAddresses := Some (Plain ''offline'')\<rparr>\<rparr>"
  have v: "in_state 0 (demo_vault 0)" by (simp add: in_state_def demo_vault_def acc_enc_def)
  let ?v1 = "stored 0 (attachUserUnsafe ''id'' (demo_vault 0))"
  have 1: "in_state 0 ?v1" using v by (simp add: in_state_def attachUserUnsafe_def stored_def)
  have 2: "in_state 0 (stored 0 ?v1)" using stored_state(1)[OF 1] by simp
  obtain v4 where v4: "user_Close ''id'' (stored (Suc 0) (stored 0 ?v1)) = (None :: string vault_err option, v4)" "v4 \<noteq> demo_vault 0"
    by (simp add: user_Close_def detachUser_def attachUserUnsafe_def update_conv' demo_vault_def stored_def acc_enc_def)
  obtain e b' where r: "LoginUser acc_env ?L demo_auth ''pw'' demo_bridge = (Some (Inl e), b')" "br_vault b' \<noteq> br_vault demo_bridge"
     "\<not> errors_Is e ErrFailedToUnlock"
    using acc_GetOrAdd[OF v] acc_reads[OF 1] acc_reads[OF 2] acc_ops[OF 1] acc_ops[OF 2] v4
    by (auto simp: account_run demo_login_def demo_auth_def demo_services_def demo_bridge_def is_ResponseError_def errors_Is_def)
  show ?thesis
    using failed_login[OF demo_codec demo_reachable vault_okD(1)[OF demo_start(1)] r(1)] r
    by (auto simp: demo_login_def demo_auth_def demo_start(3) demo_data_def user_ids_def)
qed

text \<open>What \<open>LogoutUser\<close> does after the services have answered: the user is closed and dropped, whatever they said.\<close>

lemma close_contents:
  "closeVaultUser i b = (r, b') \<Longrightarrow> \<exists>v. b' = b\<lparr>br_vault := v\<rparr> \<and> v_enc v = v_enc (br_vault b) \<and> v_gcm v = v_gcm (br_vault b)"
  by (rule exI[of _ "br_vault b'"]) (auto simp: closeVaultUser_def user_Close_def detachUser_def split: option.splits)

lemma User_Close_eval:
  "\<exists>x v. User_Close u b = (Some (Inr x), b\<lparr>br_observed := removeAll (bu_id u) (br_observed b), br_vault := v\<rparr>) \<and>
     v_enc v = v_enc (br_vault b) \<and> v_gcm v = v_gcm (br_vault b)"
proof -
  let ?b = "b\<lparr>br_observed := removeAll (bu_id u) (br_observed b)\<rparr>"
  obtain r b' where c: "closeVaultUser (bu_id u) ?b = (r, b')" by fastforce
  obtain v where v: "b' = ?b\<lparr>br_vault := v\<rparr>" "v_enc v = v_enc (br_vault b)" "v_gcm v = v_gcm (br_vault b)"
    using close_contents[OF c] by auto
  moreover have "r \<noteq> None" using c by (auto simp: closeVaultUser_def split: option.splits prod.splits)
  ultimately show ?thesis using c by (auto simp: User_Close_def bnd_def DeregisterUserClient_def logged_def ret_def)
qed

lemma LogoutUser_eval:
  assumes "map_of (br_users b) i = Some u" "User_Logout E W True False u b = (Some r, b1)" "bu_id u = i"
  obtains b' where "LogoutUser E W i b = (Some (Inr ()), b')" "br_users b' = AList.delete i (br_users b1)"
    "BUserLoggedOut i \<in> set (br_published b')" "br_deleted b' = br_deleted b1" "contents E (br_vault b') = contents E (br_vault b1)"
proof -
  let ?b = "b1\<lparr>br_accounts := int (length (br_users b1)) - 1\<rparr>"
  obtain x v where "User_Close u ?b = (Some (Inr x), ?b\<lparr>br_observed := removeAll (bu_id u) (br_observed ?b), br_vault := v\<rparr>)"
    and v: "v_enc v = v_enc (br_vault b1)" "v_gcm v = v_gcm (br_vault b1)" using User_Close_eval[of u ?b] by auto
  then have "\<exists>b'. LogoutUser E W i b = (Some (Inr ()), b') \<and> br_users b' = AList.delete i (br_users b1) \<and>
      BUserLoggedOut i \<in> set (br_published b') \<and> br_deleted b' = br_deleted b1 \<and> br_vault b' = v"
    using assms by (simp add: LogoutUser_def logoutUser_def bnd_def logged_def ret_def bridge_publish_def)
  moreover have "contents E v = contents E (br_vault b1)" using v by (simp add: contents_def fun_eq_iff)
  ultimately show thesis using that by metis
qed

text \<open>
  Property C18. A logout removes the secrets. When the services of the user stop without an error and the vault can be written, the user is no
  longer connected, the session is ended at the API (if that can be reached), the logout is published, and in the vault the session and the key
  passphrase are gone while everything else of the record is kept.
\<close>

theorem logout_clears_secrets:
  assumes "codec_ok E" "reachable E b" "contents E (br_vault b) data" "map_of (br_users b) i = Some u" "lookup_user i data = Some rc"
    and "uw_smtpLogout W = None" "uw_imapLogout W = None" "user_Clear E (br_worlds b 0) i (br_vault b) = Some (Inr (), v1)"
  shows "\<exists>b'. LogoutUser E W i b = (Some (Inr ()), b') \<and> br_users b' = AList.delete i (br_users b) \<and>
    BUserLoggedOut i \<in> set (br_published b') \<and> (uw_authDelete W \<longrightarrow> bu_session u \<in> set (br_deleted b')) \<and>
    contents E (br_vault b') (put_user i (rc\<lparr>ud_AuthUID := [], ud_AuthRef := [], ud_KeyPass := []\<rparr>) data)"
proof -
  have inv: "bridge_inv E b" using reachable_inv[OF assms(1,2)] .
  then have u: "bu_id u = i" "tokens_ok (br_worlds b 0)" using connected[OF inv assms(4)] by (blast, auto simp: bridge_inv_def holds_def)
  have v1: "contents E v1 (put_user i (clear_fn rc) data)"
    by (rule modUser_cases[OF assms(1) u(2) assms(3,5), of "\<lambda>u. Some ((), clear_fn u)"]) (use assms(8) in \<open>auto simp: user_Clear_def\<close>)
  have "\<exists>x b1. User_Logout E W True False u b = (Some (Inr x), b1) \<and> br_users b1 = br_users b \<and> br_vault b1 = v1 \<and>
      (uw_authDelete W \<longrightarrow> bu_session u \<in> set (br_deleted b1))"
    using assms(6-8) u(1)
    by (auto simp: User_Logout_def bnd_def wrapping_def outcome_def ret_def DeregisterUserClient_def logged_def AuthDelete_def vop_def Let_def)
  then show ?thesis using LogoutUser_eval[OF assms(4) _ u(1)] v1 by metis
qed

theorem logout_clears_secrets_witness:
  "\<exists>b b'. LogoutUser acc_env demo_services ''id'' b = (Some (Inr ()), b') \<and> BUserLoggedOut ''id'' \<in> set (br_published b') \<and>
     contents acc_env (br_vault b') (put_user ''id'' (acc_user 1) (demo_data [acc_user 0] None))"
proof -
  obtain b u where b: "reachable acc_env b" "map_of (br_users b) ''id'' = Some u" "in_state 0 (br_vault b)" "br_worlds b 0 = demo_world IoOk"
    using demo_login_reachable by blast
  have l: "lookup_user ''id'' (demo_data [acc_user 0] None) = Some (acc_user 0)" by (simp add: lookup_user_def demo_data_def)
  have "user_Clear acc_env (br_worlds b 0) ''id'' (br_vault b) = Some (Inr (), stored 1 (br_vault b))" using acc_ops(4)[OF b(3)] b(4) by simp
  moreover have "clear_fn (acc_user 0) = acc_user 1" by (simp add: acc_user_def)
  ultimately show ?thesis
    using logout_clears_secrets[OF demo_codec b(1) acc_contents[OF b(3)] b(2) l, of demo_services] by (auto simp: demo_services_def)
qed

text \<open>
  Property C40. A failed logout is reported as a success. When the SMTP service reports an error, \<open>LogoutUser\<close> returns no error, drops the
  user and publishes the logout, but the vault still holds the session and the key passphrase, and the session is not ended: the account comes
  back at the next start.
\<close>

theorem failed_logout_keeps_secrets:
  assumes "reachable E b" "codec_ok E" "contents E (br_vault b) data" "map_of (br_users b) i = Some u" "uw_smtpLogout W = Some e"
  shows "\<exists>b'. LogoutUser E W i b = (Some (Inr ()), b') \<and> br_users b' = AList.delete i (br_users b) \<and>
    BUserLoggedOut i \<in> set (br_published b') \<and> br_deleted b' = br_deleted b \<and> contents E (br_vault b') data"
proof -
  have u: "bu_id u = i" using connected[OF reachable_inv[OF assms(2,1)] assms(4)] by blast
  have "User_Logout E W True False u b = (Some (Inl (Wrapped ''failed to remove user from smtp server'' e)), b)"
    using assms(5) by (simp add: User_Logout_def bnd_def wrapping_def outcome_def throw_def)
  from LogoutUser_eval[OF assms(4) this u] show ?thesis using assms(3) by metis
qed

theorem failed_logout_keeps_secrets_witness:
  "\<exists>b b'. LogoutUser acc_env (demo_services\<lparr>uw_smtpLogout := Some (Plain ''busy'')\<rparr>) ''id'' b = (Some (Inr ()), b') \<and>
     contents acc_env (br_vault b') (demo_data [demo_user ''auth''] None)"
proof -
  obtain b u where b: "reachable acc_env b" "map_of (br_users b) ''id'' = Some u" "in_state 0 (br_vault b)" using demo_login_reachable by blast
  have "acc_user 0 = demo_user ''auth''" by (simp add: acc_user_def)
  then show ?thesis
    using failed_logout_keeps_secrets[OF b(1) demo_codec acc_contents[OF b(3)] b(2), of "demo_services\<lparr>uw_smtpLogout := Some (Plain ''busy'')\<rparr>"]
    by auto
qed

end
