(* ===== verification/App_Versions.thy ===== *)
theory App_Versions
  imports Vault_File Go_Strings "HOL-Library.List_Lexorder" "HOL-Library.Char_ord" "HOL-Library.Multiset"
begin

section \<open>Installed versions and the launcher\<close>

text \<open>
  Models \<^verbatim>\<open>internal/versioner\<close>, \<^verbatim>\<open>pkg/sum\<close>, \<^verbatim>\<open>pkg/tar\<close> and \<^verbatim>\<open>cmd/launcher/main.go\<close> (on Linux): the directory of installed
  versions, the unpacking and verification of a version, the removal of old ones, and how the launcher chooses the executable and its arguments.
  Comparing and parsing versions (\<^verbatim>\<open>semver\<close>), SHA-512, signatures and gzip are arguments.
\<close>

subsection \<open>Versions\<close>

record 'v semver =
  sv_Compare :: "'v \<Rightarrow> 'v \<Rightarrow> int"
  sv_zero :: 'v
  sv_StrictNewVersion :: "string \<Rightarrow> 'v option"
  sv_Original :: "'v \<Rightarrow> string"

definition GreaterThan :: "'v semver \<Rightarrow> 'v \<Rightarrow> 'v \<Rightarrow> bool" where "GreaterThan S a b \<longleftrightarrow> 0 < sv_Compare S a b"
definition LessThan :: "'v semver \<Rightarrow> 'v \<Rightarrow> 'v \<Rightarrow> bool" where "LessThan S a b \<longleftrightarrow> sv_Compare S a b < 0"
definition sv_Equal :: "'v semver \<Rightarrow> 'v \<Rightarrow> 'v \<Rightarrow> bool" where "sv_Equal S a b \<longleftrightarrow> sv_Compare S a b = 0"

text \<open>What the code relies on: \<^verbatim>\<open>Compare\<close> orders the versions, up to build metadata, and a version that was parsed prints as it was.\<close>

definition semver_ok :: "'v semver \<Rightarrow> bool" where
  "semver_ok S \<longleftrightarrow>
     (\<forall>a b. sgn (sv_Compare S a b) = - sgn (sv_Compare S b a)) \<and>
     (\<forall>a b c. 0 \<le> sv_Compare S a b \<and> 0 \<le> sv_Compare S b c \<longrightarrow> 0 \<le> sv_Compare S a c)"

subsection \<open>The directory of versions\<close>

text \<open>
  A path below the directory of a version is the list of its components. A file has its content and whether one of the execute bits is set.
\<close>

datatype entry = Regular bytes bool | Symlink string

type_synonym app_dir = "(string list \<times> entry) list"

type_synonym updates_dir = "(string \<times> app_dir) list"

text \<open>
  What reading meets: a file that cannot be opened, and the content behind a symbolic link.
\<close>

record 'e disk_world =
  dw_readDir :: bool
  dw_open :: "string list \<Rightarrow> 'e option"
  dw_follow :: "string \<Rightarrow> 'e + bytes"
  dw_remove :: "string \<Rightarrow> bool"

definition read_entry :: "'e disk_world \<Rightarrow> string list \<Rightarrow> entry \<Rightarrow> 'e + bytes" where
  "read_entry w p f =
     (case dw_open w p of
        Some e \<Rightarrow> Inl e
      | None \<Rightarrow> (case f of Regular c _ \<Rightarrow> Inr c | Symlink t \<Rightarrow> dw_follow w t))"

fun join_path :: "string list \<Rightarrow> string" where
  "join_path [] = []"
| "join_path [c] = c"
| "join_path (c # cs) = c @ ''/'' @ join_path cs"

definition sumFile :: string where "sumFile = ''.sum''"
definition sigFile :: string where "sigFile = ''.sig''"

text \<open>
  \<^verbatim>\<open>filepath.Walk\<close> visits the files in the lexical order of their components. \<open>hash\<close> is SHA-512 of all that was written to it.
\<close>

fun sum_files :: "'e disk_world \<Rightarrow> (string list \<times> entry) list \<Rightarrow> 'e + bytes" where
  "sum_files w [] = Inr []"
| "sum_files w ((p, f) # fs) =
     (if p = [sumFile] \<or> p = [sumFile @ sigFile] then sum_files w fs
      else case read_entry w p f of
             Inl e \<Rightarrow> Inl e
           | Inr c \<Rightarrow> map_sum id (\<lambda>rest. join_path p @ c @ rest) (sum_files w fs))"

definition RecursiveSum :: "(bytes \<Rightarrow> bytes) \<Rightarrow> 'e disk_world \<Rightarrow> app_dir \<Rightarrow> 'e + bytes" where
  "RecursiveSum hash w d = map_sum id hash (sum_files w (sort_key fst d))"

datatype 'e version_err = DiskErr 'e | NotExist | BadSignature | SumMismatch | ListErr | NoNewer | BadArchive 'e | ErrFileTooLarge

definition read_file :: "'e disk_world \<Rightarrow> app_dir \<Rightarrow> string list \<Rightarrow> 'e version_err + bytes" where
  "read_file w d p =
     (case map_of d p of
        None \<Rightarrow> Inl NotExist
      | Some f \<Rightarrow> map_sum DiskErr id (read_entry w p f))"

text \<open>\<open>sig\<close> is the check of a detached signature with the keys of the updater.\<close>

definition VerifyUpdateFolder ::
  "(bytes \<Rightarrow> bytes) \<Rightarrow> (bytes \<Rightarrow> bytes \<Rightarrow> bool) \<Rightarrow> 'e disk_world \<Rightarrow> app_dir \<Rightarrow> 'e version_err option" where
  "VerifyUpdateFolder hash sig w d =
     (case read_file w d [sumFile] of
        Inl e \<Rightarrow> Some e
      | Inr fileBytes \<Rightarrow>
          (case read_file w d [sumFile @ sigFile] of
             Inl e \<Rightarrow> Some e
           | Inr sigBytes \<Rightarrow>
               if \<not> sig fileBytes sigBytes then Some BadSignature
               else case RecursiveSum hash w d of
                      Inl e \<Rightarrow> Some (DiskErr e)
                    | Inr s \<Rightarrow> if s \<noteq> fileBytes then Some SumMismatch else None))"

text \<open>\<^verbatim>\<open>getExecutableInDirectory\<close>: the file must exist, as \<^verbatim>\<open>os.Stat\<close> sees it, and be executable, otherwise the error is
  \<^verbatim>\<open>ErrNoExecutable\<close> (here \<open>None\<close>). \<open>exec\<close> tells that of the target of a link.\<close>

definition getExecutableInDirectory :: "(string \<Rightarrow> bool) \<Rightarrow> string \<Rightarrow> app_dir \<Rightarrow> string list option" where
  "getExecutableInDirectory exec name d =
     (case map_of d [name] of
        None \<Rightarrow> None
      | Some (Regular c x) \<Rightarrow> if x then Some [name] else None
      | Some (Symlink t) \<Rightarrow> if exec t then Some [name] else None)"

text \<open>
  \<open>ListVersions\<close>: the names that parse, newest first. The order among equal versions, which differ in build metadata, is not determined by
  the code; here it is that of the directory.
\<close>

fun parse_names :: "'v semver \<Rightarrow> string list \<Rightarrow> ('v \<times> string) list" where
  "parse_names S [] = []"
| "parse_names S (n # ns) =
     (case sv_StrictNewVersion S n of
        None \<Rightarrow> parse_names S ns
      | Some v \<Rightarrow> (v, n) # parse_names S ns)"

fun insert_version :: "'v semver \<Rightarrow> 'v \<times> string \<Rightarrow> ('v \<times> string) list \<Rightarrow> ('v \<times> string) list" where
  "insert_version S x [] = [x]"
| "insert_version S x (y # ys) = (if LessThan S (fst x) (fst y) then y # insert_version S x ys else x # y # ys)"

definition ListVersions :: "'v semver \<Rightarrow> 'e disk_world \<Rightarrow> updates_dir \<Rightarrow> 'e version_err + ('v \<times> string) list" where
  "ListVersions S w d =
     (if dw_readDir w then Inl ListErr else Inr (foldr (insert_version S) (parse_names S (map fst d)) []))"

definition HasVersion :: "'v semver \<Rightarrow> ('v \<times> string) list \<Rightarrow> 'v \<Rightarrow> bool" where
  "HasVersion S vs want \<longleftrightarrow> list_ex (\<lambda>(v, _). sv_Equal S v want) vs"

text \<open>\<^verbatim>\<open>os.RemoveAll\<close>; \<open>dw_remove\<close> tells for which it fails, leaving the directory as it is.\<close>

definition RemoveAll :: "'e disk_world \<Rightarrow> string \<Rightarrow> updates_dir \<Rightarrow> updates_dir" where
  "RemoveAll w n d = (if dw_remove w n then d else AList.delete n d)"

definition RemoveOldVersions :: "'v semver \<Rightarrow> 'e disk_world \<Rightarrow> updates_dir \<Rightarrow> 'e version_err option \<times> updates_dir" where
  "RemoveOldVersions S w d =
     (case ListVersions S w d of
        Inl e \<Rightarrow> (Some e, d)
      | Inr versions \<Rightarrow> (None, fold (\<lambda>(v, n). RemoveAll w n) (tl versions) d))"

text \<open>
  \<open>own\<close> is the name of the version directory that the running executable is in; \<open>None\<close> when it is not below the directory of updates.
\<close>

definition RemoveCurrentVersion :: "'e disk_world \<Rightarrow> string option \<Rightarrow> updates_dir \<Rightarrow> updates_dir" where
  "RemoveCurrentVersion w own d = (case own of None \<Rightarrow> d | Some n \<Rightarrow> RemoveAll w n d)"

definition RemoveOtherVersions ::
  "'v semver \<Rightarrow> 'e disk_world \<Rightarrow> 'v \<Rightarrow> string option \<Rightarrow> 'v \<Rightarrow> updates_dir \<Rightarrow> 'e version_err option \<times> updates_dir" where
  "RemoveOtherVersions S w current own versionToKeep d =
     (case ListVersions S w d of
        Inl e \<Rightarrow> (Some e, d)
      | Inr versions \<Rightarrow>
          (None, fold (\<lambda>(v, n) d.
             if sv_Equal S v versionToKeep then d
             else if sv_Equal S v current then RemoveCurrentVersion w own d
             else RemoveAll w n d) versions d))"

subsection \<open>Unpacking\<close>

text \<open>The items that the reader of the archive yields: an entry, no header, or an error.\<close>

datatype 'e tar_item = TarSymlink string string | TarDir string | TarFile string bytes bool | TarNil | TarErr 'e

text \<open>The calls of the operating system, with the absolute path as components.\<close>

datatype untar_op = OpSymlink "string list" string | OpMkdirAll "string list" | OpCreate "string list" bytes bool

definition maxFileSize :: nat where "maxFileSize = 1024 * 1024 * 1024"

text \<open>\<^verbatim>\<open>filepath.Clean\<close> and \<^verbatim>\<open>Join\<close>, component by component.\<close>

definition clean_step :: "string list \<Rightarrow> string \<Rightarrow> string list" where
  "clean_step acc c = (if c = [] \<or> c = ''.'' then acc else if c = ''..'' then butlast acc else acc @ [c])"

definition untar_target :: "string list \<Rightarrow> string \<Rightarrow> string list" where
  "untar_target dir name =
     (let cs = Split name CHR ''/'' in
      if name \<noteq> [] \<and> name ! 0 = CHR ''/'' then foldl clean_step dir (foldl clean_step [] cs) else foldl clean_step dir cs)"

text \<open>
  \<^verbatim>\<open>io.Copy\<close> from a \<open>limitReader\<close>: read number \<open>i\<close> yields at most \<open>rd i\<close> bytes, and the last bytes come together with the end of the file.
  The result tells whether the limit was exceeded, and what was written.
\<close>

function copy_limited :: "(nat \<Rightarrow> nat) \<Rightarrow> nat \<Rightarrow> bytes \<Rightarrow> bytes \<Rightarrow> nat \<Rightarrow> bool \<times> bytes" where
  "copy_limited rd i out rest n =
     (if n = 0 then (True, out)
      else let k = min (max 1 (rd i)) n in
           if length rest \<le> k then (False, out @ rest)
           else copy_limited rd (Suc i) (out @ take k rest) (drop k rest) (n - k))"
  by pat_completeness auto
termination by (relation "measure (\<lambda>(rd, i, out, rest, n). n)") auto

declare copy_limited.simps [simp del]

fun untar_loop :: "(nat \<Rightarrow> nat) \<Rightarrow> (untar_op \<Rightarrow> 'e option) \<Rightarrow> string list \<Rightarrow> 'e tar_item list \<Rightarrow> 'e version_err option \<times> untar_op list" where
  "untar_loop rd os dir [] = (None, [])"
| "untar_loop rd os dir (it # its) =
     (case it of
        TarErr e \<Rightarrow> (Some (BadArchive e), [])
      | TarNil \<Rightarrow> untar_loop rd os dir its
      | TarSymlink name link \<Rightarrow>
          (let op = OpSymlink (untar_target dir name) link in
           case os op of
             Some e \<Rightarrow> (Some (DiskErr e), [])
           | None \<Rightarrow> map_prod id ((#) op) (untar_loop rd os dir its))
      | TarDir name \<Rightarrow>
          (let op = OpMkdirAll (untar_target dir name) in
           case os op of
             Some e \<Rightarrow> (Some (DiskErr e), [])
           | None \<Rightarrow> map_prod id ((#) op) (untar_loop rd os dir its))
      | TarFile name content x \<Rightarrow>
          (let (tooLarge, written) = copy_limited rd 0 [] content maxFileSize;
               op = OpCreate (untar_target dir name) written x in
           case os op of
             Some e \<Rightarrow> (Some (DiskErr e), [])
           | None \<Rightarrow> if tooLarge then (Some ErrFileTooLarge, [op]) else map_prod id ((#) op) (untar_loop rd os dir its)))"

text \<open>\<open>gunzip\<close> yields the items of the archive, or fails on its header.\<close>

definition UntarToDir :: "(nat \<Rightarrow> nat) \<Rightarrow> (untar_op \<Rightarrow> 'e option) \<Rightarrow> string list \<Rightarrow> 'e tar_item list \<Rightarrow> 'e version_err option \<times> untar_op list" where
  "UntarToDir rd os dir items = untar_loop rd os dir items"

definition InstallNewVersion ::
  "'v semver \<Rightarrow> (bytes \<Rightarrow> 'e + 'e tar_item list) \<Rightarrow> (nat \<Rightarrow> nat) \<Rightarrow> (untar_op \<Rightarrow> 'e option) \<Rightarrow> string list \<Rightarrow> 'v \<Rightarrow> bytes \<Rightarrow>
     'e version_err option \<times> untar_op list" where
  "InstallNewVersion S gunzip rd os root version r =
     (case gunzip r of
        Inl e \<Rightarrow> (Some (BadArchive e), [])
      | Inr items \<Rightarrow> UntarToDir rd os (root @ [sv_Original S version]) items)"

text \<open>The effect of the calls on the directory of versions at \<open>root\<close>: what lies elsewhere, and directories, are not recorded.\<close>

definition put_entry :: "string list \<Rightarrow> string list \<Rightarrow> entry \<Rightarrow> updates_dir \<Rightarrow> updates_dir" where
  "put_entry root p f d =
     (if take (length root) p = root \<and> length root + 2 \<le> length p
      then let n = p ! length root; q = drop (Suc (length root)) p in
           AList.update n (AList.update q f (case map_of d n of None \<Rightarrow> [] | Some a \<Rightarrow> a)) d
      else d)"

fun apply_op :: "string list \<Rightarrow> untar_op \<Rightarrow> updates_dir \<Rightarrow> updates_dir" where
  "apply_op root (OpSymlink p t) d = put_entry root p (Symlink t) d"
| "apply_op root (OpMkdirAll p) d = d"
| "apply_op root (OpCreate p c x) d = put_entry root p (Regular c x) d"

subsection \<open>The launcher\<close>

definition flagIndex :: "string list \<Rightarrow> string \<Rightarrow> nat option" where
  "flagIndex args flag = IndexFunc (\<lambda>arg. arg = ''-'' @ flag \<or> arg = ''--'' @ flag) args"

definition hasFlag :: "string list \<Rightarrow> string \<Rightarrow> bool" where
  "hasFlag args flag \<longleftrightarrow> flagIndex args flag \<noteq> None"

definition inCLIMode :: "string list \<Rightarrow> bool" where
  "inCLIMode args \<longleftrightarrow> hasFlag args ''cli'' \<or> hasFlag args ''c'' \<or> hasFlag args ''noninteractive'' \<or> hasFlag args ''n''"

definition HyphenatedFlagLauncher :: string where "HyphenatedFlagLauncher = ''--launcher''"
definition HyphenatedFlagWait :: string where "HyphenatedFlagWait = ''--wait''"
definition FlagSessionID :: string where "FlagSessionID = ''session-id''"
definition HyphenatedFlagSessionID :: string where "HyphenatedFlagSessionID = ''--session-id''"

definition findAndStrip :: "'a list \<Rightarrow> 'a \<Rightarrow> 'a list \<times> bool" where
  "findAndStrip xs v = (let r = filter (\<lambda>x. x \<noteq> v) xs in (r, length r \<noteq> length xs))"

fun wait_values :: "string list \<Rightarrow> string list" where
  "wait_values (x # y # xs) = (if x = HyphenatedFlagWait then y # wait_values (y # xs) else wait_values (y # xs))"
| "wait_values _ = []"

definition findAndStripWait :: "string list \<Rightarrow> string list \<times> bool \<times> string list" where
  "findAndStripWait args =
     (let values = wait_values args; hasFlag = (values \<noteq> []) in
      ((if hasFlag then fold (\<lambda>v r. fst (findAndStrip r v)) values (fst (findAndStrip args HyphenatedFlagWait)) else args), hasFlag, values))"

definition appendLauncherPath :: "string \<Rightarrow> string list \<Rightarrow> string list" where
  "appendLauncherPath path args = (if HyphenatedFlagLauncher \<notin> set args then args @ [HyphenatedFlagLauncher, path] else args)"

definition appendOrModifySessionID :: "string list \<Rightarrow> string \<Rightarrow> string list" where
  "appendOrModifySessionID args sessionID =
     (case flagIndex args FlagSessionID of
        None \<Rightarrow> args @ [HyphenatedFlagSessionID, sessionID]
      | Some i \<Rightarrow> if i = length args - 1 then args @ [sessionID] else args[i + 1 := sessionID])"

text \<open>The loop over the versions, newest first; \<open>current\<close> is \<open>None\<close> when the launcher's own version does not parse.\<close>

fun find_updated ::
  "'v semver \<Rightarrow> (app_dir \<Rightarrow> 'e version_err option) \<Rightarrow> (string \<Rightarrow> bool) \<Rightarrow> 'e disk_world \<Rightarrow> 'v option \<Rightarrow> string \<Rightarrow> ('v \<times> string) list \<Rightarrow>
     updates_dir \<Rightarrow> ('e version_err + string \<times> string list) \<times> updates_dir" where
  "find_updated S verify exec w current name [] d = (Inl NoNewer, d)"
| "find_updated S verify exec w current name ((v, n) # vs) d =
     (case verify (the (map_of d n)) of
        Some e \<Rightarrow> find_updated S verify exec w current name vs (RemoveAll w n d)
      | None \<Rightarrow>
          if (case current of None \<Rightarrow> False | Some c \<Rightarrow> \<not> GreaterThan S v c) then find_updated S verify exec w current name vs d
          else case getExecutableInDirectory exec name (the (map_of d n)) of
                 None \<Rightarrow> find_updated S verify exec w current name vs d
               | Some p \<Rightarrow> (Inr (n, p), d))"

definition getPathToUpdatedExecutable ::
  "'v semver \<Rightarrow> (bytes \<Rightarrow> bytes) \<Rightarrow> (bytes \<Rightarrow> bytes \<Rightarrow> bool) \<Rightarrow> (string \<Rightarrow> bool) \<Rightarrow> 'e disk_world \<Rightarrow> 'v option \<Rightarrow> string \<Rightarrow>
     updates_dir \<Rightarrow> ('e version_err + string \<times> string list) \<times> updates_dir" where
  "getPathToUpdatedExecutable S hash sig exec w current name d =
     (case ListVersions S w d of
        Inl e \<Rightarrow> (Inl e, d)
      | Inr versions \<Rightarrow> find_updated S (VerifyUpdateFolder hash sig w) exec w current name versions d)"

subsection \<open>The list of versions\<close>

lemma semverD:
  assumes "semver_ok S"
  shows "0 \<le> sv_Compare S a b \<Longrightarrow> 0 \<le> sv_Compare S b c \<Longrightarrow> 0 \<le> sv_Compare S a c"
    "sv_Compare S a b < 0 \<longleftrightarrow> 0 < sv_Compare S b a"
proof -
  have s: "\<forall>a b. sgn (sv_Compare S a b) = - sgn (sv_Compare S b a)"
    and t: "\<forall>a b c. 0 \<le> sv_Compare S a b \<and> 0 \<le> sv_Compare S b c \<longrightarrow> 0 \<le> sv_Compare S a c"
    using assms unfolding semver_ok_def by (rule conjunct1, rule conjunct2)
  show "0 \<le> sv_Compare S a b \<Longrightarrow> 0 \<le> sv_Compare S b c \<Longrightarrow> 0 \<le> sv_Compare S a c" using t by blast
  have "sgn (sv_Compare S a b) = - sgn (sv_Compare S b a)" using s by blast
  then show "sv_Compare S a b < 0 \<longleftrightarrow> 0 < sv_Compare S b a" using sgn_1_neg[of "sv_Compare S a b"] sgn_1_pos[of "sv_Compare S b a"] by auto
qed

abbreviation newest_first :: "'v semver \<Rightarrow> ('v \<times> string) list \<Rightarrow> bool" where
  "newest_first S vs \<equiv> sorted_wrt (\<lambda>x y. 0 \<le> sv_Compare S (fst x) (fst y)) vs"

lemma set_insert_version: "set (insert_version S x ys) = insert x (set ys)"
  by (induction ys) auto

lemma insert_version_sorted:
  assumes "semver_ok S" "newest_first S ys"
  shows "newest_first S (insert_version S x ys)"
  using assms(2)
proof (induction ys)
  case (Cons y ys)
  show ?case
  proof (cases "LessThan S (fst x) (fst y)")
    case True
    then have "0 \<le> sv_Compare S (fst y) (fst x)" using semverD(2)[OF assms(1)] by (simp add: LessThan_def)
    then show ?thesis using Cons True by (auto simp: set_insert_version)
  next
    case False
    then have "0 \<le> sv_Compare S (fst x) (fst y)" by (simp add: LessThan_def)
    then show ?thesis using Cons False semverD(1)[OF assms(1)] by (auto; blast)
  qed
qed simp

lemma mset_insert_version: "mset (insert_version S x ys) = add_mset x (mset ys)"
  by (induction ys) auto

lemma set_parse_names: "set (parse_names S ns) = {(v, n). n \<in> set ns \<and> sv_StrictNewVersion S n = Some v}"
  by (induction ns) (auto split: option.splits)

lemma parse_names_distinct: "distinct ns \<Longrightarrow> distinct (map snd (parse_names S ns))"
proof (induction ns)
  case (Cons n ns)
  then have "n \<notin> snd ` set (parse_names S ns)" by (auto simp: set_parse_names)
  then show ?case using Cons by (auto split: option.splits)
qed simp

lemma ListVersions_cases:
  assumes "semver_ok S" "ListVersions S w d = Inr vs"
  shows "newest_first S vs" "set vs = {(v, n). n \<in> fst ` set d \<and> sv_StrictNewVersion S n = Some v}"
    "distinct (map fst d) \<Longrightarrow> distinct (map snd vs)"
proof -
  let ?sort = "\<lambda>xs. foldr (insert_version S) xs []"
  have vs: "vs = ?sort (parse_names S (map fst d))" using assms(2) by (simp add: ListVersions_def split: if_splits)
  have m: "mset (?sort xs) = mset xs" for xs by (induction xs) (auto simp: mset_insert_version)
  have "newest_first S (?sort xs)" for xs by (induction xs) (auto intro: insert_version_sorted[OF assms(1)])
  then show "newest_first S vs" unfolding vs .
  have "set vs = set (parse_names S (map fst d))" unfolding vs by (rule mset_eq_setD[OF m])
  then show "set vs = {(v, n). n \<in> fst ` set d \<and> sv_StrictNewVersion S n = Some v}" by (simp add: set_parse_names)
  have "mset (map snd vs) = mset (map snd (parse_names S (map fst d)))" unfolding vs mset_map m ..
  then show "distinct (map fst d) \<Longrightarrow> distinct (map snd vs)" using parse_names_distinct[of "map fst d" S] mset_eq_imp_distinct_iff by blast
qed

subsection \<open>What the launcher starts\<close>

definition usable :: "'v semver \<Rightarrow> (app_dir \<Rightarrow> 'e version_err option) \<Rightarrow> (string \<Rightarrow> bool) \<Rightarrow> 'v option \<Rightarrow> string \<Rightarrow> 'v \<Rightarrow> app_dir \<Rightarrow> bool" where
  "usable S verify exec current name v a \<longleftrightarrow>
     verify a = None \<and> (\<forall>c. current = Some c \<longrightarrow> GreaterThan S v c) \<and> getExecutableInDirectory exec name a \<noteq> None"

lemma RemoveAll_other: "map_of (RemoveAll w n d) m = (if m = n \<and> \<not> dw_remove w n then None else map_of d m)"
  by (auto simp: RemoveAll_def delete_conv')

lemma find_updated_disk:
  assumes "distinct (map snd vs)" "find_updated S verify exec w current name vs d = (r, d')"
  shows "map_of d' m = map_of d m \<or> (map_of d' m = None \<and> verify (the (map_of d m)) \<noteq> None \<and> m \<in> snd ` set vs)"
  using assms
proof (induction vs arbitrary: d)
  case (Cons x vs)
  obtain v n where x: "x = (v, n)" by fastforce
  have new: "n \<notin> snd ` set vs" using Cons.prems(1) x by auto
  show ?case
  proof (cases "verify (the (map_of d n))")
    case None
    then show ?thesis using Cons x by (fastforce split: if_splits option.splits)
  next
    case (Some e)
    then have "find_updated S verify exec w current name vs (RemoveAll w n d) = (r, d')" using Cons.prems(2) x by simp
    note IH = Cons.IH[OF _ this]
    then show ?thesis using Cons.prems(1) x Some new by (cases "m = n") (auto simp: RemoveAll_other)
  qed
qed auto

lemma find_updated_choice:
  assumes "distinct (map snd vs)" "find_updated S verify exec w current name vs d = (r, d')"
  shows "case r of
      Inl e \<Rightarrow> \<forall>(v, n) \<in> set vs. \<not> usable S verify exec current name v (the (map_of d n))
    | Inr (n, p) \<Rightarrow> \<exists>us v ws. vs = us @ (v, n) # ws \<and> usable S verify exec current name v (the (map_of d n)) \<and> map_of d' n = map_of d n \<and>
        getExecutableInDirectory exec name (the (map_of d n)) = Some p \<and> (\<forall>(v', n') \<in> set us. \<not> usable S verify exec current name v' (the (map_of d n')))"
  using assms
proof (induction vs arbitrary: d)
  case (Cons x vs)
  obtain v n where x: "x = (v, n)" by fastforce
  have new: "n \<notin> snd ` set vs" using Cons.prems(1) x by auto
  show ?case
  proof (cases "usable S verify exec current name v (the (map_of d n))")
    case True
    then obtain p where p: "getExecutableInDirectory exec name (the (map_of d n)) = Some p" by (auto simp: usable_def)
    then have "r = Inr (n, p)" "d' = d" using Cons.prems(2) x True by (auto simp: usable_def split: option.splits if_splits)
    then show ?thesis
      by (simp only: sum.case prod.case) (rule exI[of _ "[]"], rule exI[of _ v], rule exI[of _ vs], use x True p in simp)
  next
    case False
    obtain d1 where d1: "find_updated S verify exec w current name vs d1 = (r, d')" "\<forall>m \<in> snd ` set vs. map_of d1 m = map_of d m"
    proof (cases "verify (the (map_of d n))")
      case None
      then have "find_updated S verify exec w current name vs d = (r, d')"
        using Cons.prems(2) x False by (auto simp: usable_def split: option.splits if_splits)
      then show thesis using that by blast
    next
      case (Some e)
      have "\<forall>m \<in> snd ` set vs. map_of (RemoveAll w n d) m = map_of d m" using new by (metis RemoveAll_other)
      then show thesis using that[of "RemoveAll w n d"] Cons.prems(2) x Some by simp
    qed
    have same: "usable S verify exec current name v' (the (map_of d1 n')) = usable S verify exec current name v' (the (map_of d n'))"
      "map_of d1 n' = map_of d n'" if "(v', n') \<in> set vs" for v' n'
      using d1(2) that by force+
    note IH = Cons.IH[OF _ d1(1)]
    show ?thesis
    proof (cases r)
      case (Inl e)
      then show ?thesis using IH Cons.prems(1) x False same by fastforce
    next
      case (Inr np)
      obtain m p where np: "np = (m, p)" by fastforce
      obtain us v' ws where s: "vs = us @ (v', m) # ws" "usable S verify exec current name v' (the (map_of d1 m))" "map_of d' m = map_of d1 m"
        "getExecutableInDirectory exec name (the (map_of d1 m)) = Some p" "\<forall>(v', n') \<in> set us. \<not> usable S verify exec current name v' (the (map_of d1 n'))"
        using IH Cons.prems(1) x Inr np by auto
      have "\<not> usable S verify exec current name v'' (the (map_of d n''))" if "(v'', n'') \<in> set (x # us)" for v'' n''
      proof (cases "(v'', n'') \<in> set us")
        case True
        then have "(v'', n'') \<in> set vs" using s(1) by simp
        then show ?thesis using same(1)[of v'' n''] s(5) True by blast
      qed (use that x False in auto)
      then have rest: "\<forall>(v', n') \<in> set (x # us). \<not> usable S verify exec current name v' (the (map_of d n'))" by blast
      have "(v', m) \<in> set vs" using s(1) by simp
      then have "x # vs = (x # us) @ (v', m) # ws" "usable S verify exec current name v' (the (map_of d m))" "map_of d' m = map_of d m"
        "getExecutableInDirectory exec name (the (map_of d m)) = Some p"
        using s(1-4) same[of v' m] by auto
      with rest show ?thesis unfolding Inr np sum.case prod.case by blast
    qed
  qed
qed auto

subsection \<open>The theorems\<close>

text \<open>
  Property C15. The launcher starts the newest usable update. The version it starts has files whose signed checksum matches, is newer than the
  launcher, and has the executable; every installed version that is newer fails the verification or has no executable. Only versions
  that fail the verification are removed.
\<close>

theorem launcher_starts_newest_verified:
  assumes "semver_ok S" "distinct (map fst d)" "getPathToUpdatedExecutable S hash sig exec w current name d = (Inr (n, p), d')"
  shows "\<exists>v a. sv_StrictNewVersion S n = Some v \<and> map_of d n = Some a \<and> map_of d' n = Some a \<and>
    VerifyUpdateFolder hash sig w a = None \<and> (\<forall>c. current = Some c \<longrightarrow> GreaterThan S v c) \<and> getExecutableInDirectory exec name a = Some p \<and>
    (\<forall>m v' a'. sv_StrictNewVersion S m = Some v' \<and> map_of d m = Some a' \<and> GreaterThan S v' v \<longrightarrow>
       VerifyUpdateFolder hash sig w a' \<noteq> None \<or> getExecutableInDirectory exec name a' = None) \<and>
    (\<forall>m. map_of d' m \<noteq> map_of d m \<longrightarrow> map_of d' m = None \<and> VerifyUpdateFolder hash sig w (the (map_of d m)) \<noteq> None)"
proof -
  let ?V = "VerifyUpdateFolder hash sig w"
  obtain vs where vs: "ListVersions S w d = Inr vs" "find_updated S ?V exec w current name vs d = (Inr (n, p), d')"
    using assms(3) by (auto simp: getPathToUpdatedExecutable_def split: sum.splits)
  note L = ListVersions_cases[OF assms(1) vs(1)]
  obtain us v ws where s: "vs = us @ (v, n) # ws" "usable S ?V exec current name v (the (map_of d n))" "map_of d' n = map_of d n"
    "getExecutableInDirectory exec name (the (map_of d n)) = Some p" "\<forall>(v', n') \<in> set us. \<not> usable S ?V exec current name v' (the (map_of d n'))"
    using find_updated_choice[OF L(3)[OF assms(2)] vs(2)] by auto
  have "(v, n) \<in> set vs" using s(1) by simp
  then have v: "sv_StrictNewVersion S n = Some v" "n \<in> fst ` set d" using L(2) by auto
  then obtain a where a: "map_of d n = Some a" by (metis map_of_eq_None_iff not_Some_eq)
  have newer: "?V a' \<noteq> None \<or> getExecutableInDirectory exec name a' = None"
    if m: "sv_StrictNewVersion S m = Some v'" "map_of d m = Some a'" "GreaterThan S v' v" for m v' a'
  proof -
    have "m \<in> fst ` set d" using m(2) by (metis map_of_eq_None_iff option.distinct(1))
    then have "(v', m) \<in> set vs" using L(2) m(1) by auto
    moreover have "(v', m) \<notin> set ((v, n) # ws)"
      using L(1) s(1) m(3) semverD(2)[OF assms(1), of v v'] by (auto simp: sorted_wrt_append GreaterThan_def)
    ultimately have "(v', m) \<in> set us" using s(1) by auto
    then have "\<not> usable S ?V exec current name v' a'" using s(5) m(2) by force
    moreover have "GreaterThan S v' c" if "current = Some c" for c
    proof -
      have c: "GreaterThan S v c" using s(2) that by (simp add: usable_def)
      have "\<not> sv_Compare S v' c \<le> 0"
      proof
        assume "sv_Compare S v' c \<le> 0"
        then have "0 \<le> sv_Compare S c v'" using semverD(2)[OF assms(1), of c v'] by linarith
        then have "0 \<le> sv_Compare S v v'" using semverD(1)[OF assms(1), of v c v'] c by (simp add: GreaterThan_def)
        then show False using m(3) semverD(2)[OF assms(1), of v v'] by (simp add: GreaterThan_def)
      qed
      then show ?thesis by (simp add: GreaterThan_def)
    qed
    ultimately show ?thesis by (auto simp: usable_def)
  qed
  have only: "map_of d' m = None \<and> ?V (the (map_of d m)) \<noteq> None" if "map_of d' m \<noteq> map_of d m" for m
    using find_updated_disk[OF L(3)[OF assms(2)] vs(2), of m] that by auto
  have "?V a = None" "\<forall>c. current = Some c \<longrightarrow> GreaterThan S v c" "map_of d' n = Some a" "getExecutableInDirectory exec name a = Some p"
    using s(2-4) a by (auto simp: usable_def)
  moreover have "\<forall>m v' a'. sv_StrictNewVersion S m = Some v' \<and> map_of d m = Some a' \<and> GreaterThan S v' v \<longrightarrow>
      ?V a' \<noteq> None \<or> getExecutableInDirectory exec name a' = None" by (intro allI impI, elim conjE) (rule newer)
  moreover have "\<forall>m. map_of d' m \<noteq> map_of d m \<longrightarrow> map_of d' m = None \<and> ?V (the (map_of d m)) \<noteq> None" using only by blast
  ultimately show ?thesis using v(1) a by (intro exI[of _ v] exI[of _ a] conjI)
qed

lemma newest_head:
  assumes "semver_ok S" "newest_first S vs" "(v, n) \<in> set vs" "distinct (map snd vs)" "\<forall>(v', m) \<in> set vs. m \<noteq> n \<longrightarrow> GreaterThan S v v'"
  shows "\<exists>ws. vs = (v, n) # ws"
proof (cases vs)
  case (Cons x ws)
  obtain v0 n0 where x: "x = (v0, n0)" by fastforce
  have "n0 = n"
  proof (rule ccontr)
    assume "n0 \<noteq> n"
    then have "GreaterThan S v v0" "0 \<le> sv_Compare S v0 v" using assms(2,3,5) Cons x by auto
    then show False using semverD(2)[OF assms(1), of v0 v] by (simp add: GreaterThan_def)
  qed
  moreover have "(v, n) \<notin> set ws" if "n0 = n" using assms(4) Cons x that by force
  ultimately show ?thesis using assms(3) Cons x by auto
qed (use assms(3) in simp)

lemma newest_runs:
  assumes "semver_ok S" "distinct (map fst d)" "\<not> dw_readDir w" "map_of d n = Some a" "sv_StrictNewVersion S n = Some v"
    and "\<forall>m v'. m \<noteq> n \<and> m \<in> fst ` set d \<and> sv_StrictNewVersion S m = Some v' \<longrightarrow> GreaterThan S v v'"
  obtains ws where "ListVersions S w d = Inr ((v, n) # ws)" "n \<notin> snd ` set ws"
    "usable S (VerifyUpdateFolder hash sig w) exec current name v a \<Longrightarrow>
     fst (getPathToUpdatedExecutable S hash sig exec w current name d) = Inr (n, [name])"
proof -
  obtain vs where vs: "ListVersions S w d = Inr vs" using assms(3) by (auto simp: ListVersions_def)
  note L = ListVersions_cases[OF assms(1) vs]
  have "n \<in> fst ` set d" using assms(4) by (metis map_of_eq_None_iff option.distinct(1))
  then have "(v, n) \<in> set vs" using L(2) assms(5) by auto
  then obtain ws where ws: "vs = (v, n) # ws" using newest_head[OF assms(1) L(1) _ L(3)[OF assms(2)], of v n] L(2) assms(6) by auto
  have "n \<notin> snd ` set ws" using L(3)[OF assms(2)] ws by auto
  moreover have "fst (getPathToUpdatedExecutable S hash sig exec w current name d) = Inr (n, [name])"
    if "usable S (VerifyUpdateFolder hash sig w) exec current name v a"
  proof -
    have "getExecutableInDirectory exec name a = Some [name]"
      using that by (auto simp: usable_def getExecutableInDirectory_def split: option.splits entry.splits if_splits)
    then show ?thesis using that vs ws assms(4) by (auto simp: getPathToUpdatedExecutable_def usable_def split: option.splits)
  qed
  ultimately show thesis using that[of ws] vs ws by blast
qed

lemma RemoveAll_fold:
  assumes "distinct (map fst d)"
  shows "distinct (map fst (fold (\<lambda>(v, n). RemoveAll w n) vs d))" "fst ` set (fold (\<lambda>(v, n). RemoveAll w n) vs d) \<subseteq> fst ` set d"
    "m \<notin> snd ` set vs \<Longrightarrow> map_of (fold (\<lambda>(v, n). RemoveAll w n) vs d) m = map_of d m"
proof -
  have one: "distinct (map fst (RemoveAll w n d))" "fst ` set (RemoveAll w n d) \<subseteq> fst ` set d" if "distinct (map fst d)" for n d
    using that by (auto simp: RemoveAll_def distinct_delete) (force simp: AList.delete_eq)
  have "distinct (map fst (fold (\<lambda>(v, n). RemoveAll w n) vs d)) \<and> fst ` set (fold (\<lambda>(v, n). RemoveAll w n) vs d) \<subseteq> fst ` set d \<and>
    (m \<notin> snd ` set vs \<longrightarrow> map_of (fold (\<lambda>(v, n). RemoveAll w n) vs d) m = map_of d m)"
    using assms
  proof (induction vs arbitrary: d)
    case (Cons x vs)
    obtain v n where x: "x = (v, n)" by fastforce
    let ?F = "fold (\<lambda>(v, n). RemoveAll w n) vs (RemoveAll w n d)"
    note IH = Cons.IH[OF one(1)[OF Cons.prems, of n]]
    have "fst ` set ?F \<subseteq> fst ` set d" by (rule order_trans[OF _ one(2)[OF Cons.prems, of n]]) (use IH in blast)
    moreover have "m \<notin> snd ` set (x # vs) \<longrightarrow> map_of ?F m = map_of d m" using IH x by (simp add: RemoveAll_other)
    ultimately show ?case using IH x by simp
  qed simp
  then show "distinct (map fst (fold (\<lambda>(v, n). RemoveAll w n) vs d))" "fst ` set (fold (\<lambda>(v, n). RemoveAll w n) vs d) \<subseteq> fst ` set d"
    "m \<notin> snd ` set vs \<Longrightarrow> map_of (fold (\<lambda>(v, n). RemoveAll w n) vs d) m = map_of d m" by auto
qed

text \<open>
  Property C21. An installed update runs at the next start. If the newest version in the directory is verified, newer than the launcher and has the
  executable, the launcher starts it, and removing the old versions before does not change that.
\<close>

theorem installed_update_runs:
  assumes "semver_ok S" "distinct (map fst d)" "\<not> dw_readDir w" "map_of d n = Some a" "sv_StrictNewVersion S n = Some v"
    and "\<forall>m v'. m \<noteq> n \<and> m \<in> fst ` set d \<and> sv_StrictNewVersion S m = Some v' \<longrightarrow> GreaterThan S v v'"
    and "usable S (VerifyUpdateFolder hash sig w) exec (Some current) name v a"
  shows "fst (getPathToUpdatedExecutable S hash sig exec w (Some current) name d) = Inr (n, [name]) \<and>
    fst (getPathToUpdatedExecutable S hash sig exec w (Some current) name (snd (RemoveOldVersions S w d))) = Inr (n, [name])"
proof (rule newest_runs[OF assms(1-6), of hash sig exec "Some current" name])
  fix ws assume ws: "ListVersions S w d = Inr ((v, n) # ws)" "n \<notin> snd ` set ws"
    and run: "usable S (VerifyUpdateFolder hash sig w) exec (Some current) name v a \<Longrightarrow>
      fst (getPathToUpdatedExecutable S hash sig exec w (Some current) name d) = Inr (n, [name])"
  let ?d = "fold (\<lambda>(v, n). RemoveAll w n) ws d"
  note R = RemoveAll_fold[OF assms(2), where w = w and vs = ws]
  have "fst (getPathToUpdatedExecutable S hash sig exec w (Some current) name ?d) = Inr (n, [name])"
  proof (rule newest_runs[OF assms(1) R(1) assms(3) _ assms(5), of a])
    show "map_of ?d n = Some a" using R(3)[OF ws(2)] assms(4) by simp
    show "\<forall>m v'. m \<noteq> n \<and> m \<in> fst ` set ?d \<and> sv_StrictNewVersion S m = Some v' \<longrightarrow> GreaterThan S v v'" using R(2) assms(6) by blast
  qed (use assms(7) in blast)
  then show ?thesis using run[OF assms(7)] ws(1) by (simp add: RemoveOldVersions_def)
qed

text \<open>
  The checksum of a version does not separate paths and contents. Two directories with different files have the same checksum, whatever
  the hash function: a part of a name can move into the content.
\<close>

theorem checksum_ambiguous:
  assumes "\<forall>p. dw_open w p = None"
  shows "RecursiveSum hash w [([''ab''], Regular ''c'' False)] = RecursiveSum hash w [([''a''], Regular ''bc'' False)]"
  using assms by (simp add: RecursiveSum_def read_entry_def sumFile_def sigFile_def)

text \<open>
  Unpacking limits the size of a file exactly: a file of at most 1 GiB is written whole, a larger one is cut there and
  reported, whatever the sizes of the reads.
\<close>

theorem unpack_limit:
  "copy_limited rd i [] content maxFileSize =
     (if length content \<le> maxFileSize then (False, content) else (True, take maxFileSize content))"
proof -
  have "0 < n \<Longrightarrow> copy_limited rd i out rest n = (if length rest \<le> n then (False, out @ rest) else (True, out @ take n rest))" for out rest n
  proof (induction rd i out rest n rule: copy_limited.induct)
    case (1 rd i out rest n)
    define k where "k = min (max 1 (rd i)) n"
    have k: "0 < k" "k \<le> n" using 1(2) by (auto simp: k_def)
    show ?case
    proof (cases "length rest \<le> k")
      case True
      then show ?thesis using 1(2) k unfolding copy_limited.simps[of rd i out rest n] Let_def k_def[symmetric] by simp
    next
      case False
      have step: "copy_limited rd i out rest n = copy_limited rd (Suc i) (out @ take k rest) (drop k rest) (n - k)"
        using 1(2) False unfolding copy_limited.simps[of rd i out rest n] Let_def k_def[symmetric] by simp
      show ?thesis
      proof (cases "n - k")
        case 0
        then have "n = k" using k by simp
        then show ?thesis unfolding step using False by (subst copy_limited.simps) simp
      next
        case (Suc j)
        have "copy_limited rd (Suc i) (out @ take k rest) (drop k rest) (n - k) =
          (if length (drop k rest) \<le> n - k then (False, (out @ take k rest) @ drop k rest) else (True, (out @ take k rest) @ take (n - k) (drop k rest)))"
          using 1(1)[OF _ k_def] 1(2) False Suc by simp
        moreover have "take n rest = take k rest @ take (n - k) (drop k rest)" using k(2) take_add[of k "n - k" rest] by simp
        ultimately show ?thesis unfolding step using k False by auto
      qed
    qed
  qed
  then show ?thesis by (simp add: maxFileSize_def)
qed

lemma IndexFunc_append: "IndexFunc P (xs @ ys) = (case IndexFunc P xs of Some i \<Rightarrow> Some i | None \<Rightarrow> (case IndexFunc P ys of None \<Rightarrow> None | Some j \<Rightarrow> Some (length xs + j)))"
  by (induction xs) (auto split: option.splits)

lemma IndexFunc_update_later: "IndexFunc P xs = Some i \<Longrightarrow> i < j \<Longrightarrow> IndexFunc P (xs[j := y]) = Some i"
proof (induction xs arbitrary: i j)
  case (Cons x xs)
  then show ?case by (cases j; cases "P x") auto
qed simp

text \<open>
  The session ID of the launcher reaches the bridge: in the arguments that are passed on, the first session flag is followed
  by the session ID of the launcher, and every other argument is kept in its place.
\<close>

theorem session_id_passed:
  "\<exists>i. flagIndex (appendOrModifySessionID args sessionID) FlagSessionID = Some i \<and> Suc i < length (appendOrModifySessionID args sessionID) \<and>
     appendOrModifySessionID args sessionID ! Suc i = sessionID \<and>
     (\<forall>j < length args. j \<noteq> Suc i \<longrightarrow> appendOrModifySessionID args sessionID ! j = args ! j)"
proof (cases "flagIndex args FlagSessionID")
  case None
  have "flagIndex (args @ [HyphenatedFlagSessionID, sessionID]) FlagSessionID = Some (length args)"
    using None by (simp add: flagIndex_def IndexFunc_append HyphenatedFlagSessionID_def FlagSessionID_def)
  then show ?thesis using None by (auto simp: appendOrModifySessionID_def nth_append)
next
  case (Some i)
  have i: "i < length args" using Some IndexFunc_Some by (fastforce simp: flagIndex_def)
  show ?thesis
  proof (cases "i = length args - 1")
    case True
    have "flagIndex (args @ [sessionID]) FlagSessionID = Some i" using Some by (simp add: flagIndex_def IndexFunc_append)
    then show ?thesis using True Some i by (intro exI[of _ i]) (auto simp: appendOrModifySessionID_def nth_append)
  next
    case False
    have "flagIndex (args[i + 1 := sessionID]) FlagSessionID = Some i"
      using Some IndexFunc_update_later[of _ args i "i + 1" sessionID] by (simp add: flagIndex_def)
    then show ?thesis using False Some i by (intro exI[of _ i]) (auto simp: appendOrModifySessionID_def)
  qed
qed

theorem session_id_passed_witness:
  "appendOrModifySessionID [''-session-id'', ''old'', ''-c''] ''new'' = [''-session-id'', ''new'', ''-c''] \<and>
   (\<exists>i. flagIndex (appendOrModifySessionID [''-session-id'', ''old'', ''-c''] ''new'') FlagSessionID = Some i)"
  using session_id_passed[of "[''-session-id'', ''old'', ''-c'']" "''new''"]
  by (auto simp: appendOrModifySessionID_def flagIndex_def FlagSessionID_def)

text \<open>
  Stripping the wait flag also strips unrelated arguments: every argument that equals a value of the flag is removed, also the value of
  another flag.
\<close>

theorem wait_strips_other_arguments:
  assumes "x \<noteq> HyphenatedFlagWait" "y \<noteq> HyphenatedFlagWait" "y \<noteq> x"
  shows "findAndStripWait [HyphenatedFlagWait, x, y, x] = ([y], True, [x])"
  using assms by (simp add: findAndStripWait_def findAndStrip_def Let_def)

subsection \<open>Witnesses\<close>

text \<open>Versions as numbers, with names of that many letters; the hash is the identity and every signature but the empty one is good.\<close>

definition num_semver :: "nat semver" where
  "num_semver = \<lparr>sv_Compare = (\<lambda>a b. int a - int b), sv_zero = 0,
     sv_StrictNewVersion = (\<lambda>s. if s = ''old'' then Some 1 else if s = ''next'' then Some 2 else if s = ''broken'' then Some 3 else None),
     sv_Original = (\<lambda>n. if n = 1 then ''old'' else if n = 2 then ''next'' else ''broken'')\<rparr>"

lemma num_semver_ok: "semver_ok num_semver"
  by (auto simp: semver_ok_def num_semver_def sgn_if)

definition plain_disk :: "string disk_world" where
  "plain_disk = \<lparr>dw_readDir = False, dw_open = (\<lambda>_. None), dw_follow = (\<lambda>_. Inl ''link''), dw_remove = (\<lambda>_. False)\<rparr>"

definition demo_app :: "bytes \<Rightarrow> app_dir" where
  "demo_app sig = [([''.sum''], Regular ''bridgeELF'' False), ([''.sum.sig''], Regular sig False), ([''bridge''], Regular ''ELF'' True)]"

lemma demo_app_verifies: "VerifyUpdateFolder id (\<lambda>m s. s \<noteq> []) plain_disk (demo_app sig) = (if sig = [] then Some BadSignature else None)"
  by (simp add: VerifyUpdateFolder_def demo_app_def read_file_def read_entry_def plain_disk_def sumFile_def sigFile_def RecursiveSum_def)

definition demo_versions :: updates_dir where
  "demo_versions = [(''old'', demo_app ''ok''), (''next'', demo_app ''ok''), (''broken'', demo_app []), (''notes'', [])]"

lemma demo_launch:
  "getPathToUpdatedExecutable num_semver id (\<lambda>m s. s \<noteq> []) (\<lambda>_. False) plain_disk (Some 0) ''bridge'' demo_versions =
     (Inr (''next'', [''bridge'']), [(''old'', demo_app ''ok''), (''next'', demo_app ''ok''), (''notes'', [])])"
proof -
  have "ListVersions num_semver plain_disk demo_versions = Inr [(3, ''broken''), (2, ''next''), (1, ''old'')]"
    by (simp add: ListVersions_def plain_disk_def demo_versions_def num_semver_def LessThan_def)
  moreover have "getExecutableInDirectory (\<lambda>_. False) ''bridge'' (demo_app s) = Some [''bridge'']" for s
    by (simp add: getExecutableInDirectory_def demo_app_def)
  ultimately show ?thesis
    by (simp add: getPathToUpdatedExecutable_def demo_versions_def demo_app_verifies RemoveAll_def GreaterThan_def)
      (simp add: plain_disk_def num_semver_def)
qed

theorem launcher_starts_newest_verified_witness:
  "\<exists>v a. sv_StrictNewVersion num_semver ''next'' = Some v \<and> map_of demo_versions ''next'' = Some a \<and>
     VerifyUpdateFolder id (\<lambda>m s. s \<noteq> []) plain_disk a = None"
  using launcher_starts_newest_verified[OF num_semver_ok _ demo_launch] by (auto simp: demo_versions_def)

theorem installed_update_runs_witness:
  "fst (getPathToUpdatedExecutable num_semver id (\<lambda>m s. s \<noteq> []) (\<lambda>_. False) plain_disk (Some 0) ''bridge''
     (snd (RemoveOldVersions num_semver plain_disk [(''old'', demo_app ''ok''), (''next'', demo_app ''ok'')]))) = Inr (''next'', [''bridge''])"
proof -
  let ?d = "[(''old'', demo_app ''ok''), (''next'', demo_app ''ok'')]"
  have u: "usable num_semver (VerifyUpdateFolder id (\<lambda>m s. s \<noteq> []) plain_disk) (\<lambda>_. False) (Some 0) ''bridge'' 2 (demo_app ''ok'')"
    unfolding usable_def demo_app_verifies by (simp add: GreaterThan_def num_semver_def getExecutableInDirectory_def demo_app_def)
  have o: "\<forall>m v'. m \<noteq> ''next'' \<and> m \<in> fst ` set ?d \<and> sv_StrictNewVersion num_semver m = Some v' \<longrightarrow> GreaterThan num_semver 2 v'"
    by (auto simp: num_semver_def GreaterThan_def)
  show ?thesis using installed_update_runs[OF num_semver_ok _ _ _ _ o u] by (simp add: plain_disk_def num_semver_def)
qed

theorem checksum_ambiguous_witness:
  "RecursiveSum id plain_disk [([''ab''], Regular ''c'' False)] = RecursiveSum id plain_disk [([''a''], Regular ''bc'' False)]"
  by (rule checksum_ambiguous) (simp add: plain_disk_def)

end
