(* ===== verification/Updates.thy ===== *)
theory Updates
  imports App_Versions
begin

section \<open>Updates\<close>

text \<open>
  Models \<^verbatim>\<open>internal/bridge/updates.go\<close>, the two tasks of \<^verbatim>\<open>internal/bridge/bridge.go\<close> that check for updates and install them, and
  \<^verbatim>\<open>internal/updater\<close>: which release of the version file is taken, what is installed and announced, and how the two tasks share a channel
  and a lock. Downloads with their verification, and JSON, are arguments.
\<close>

subsection \<open>Releases\<close>

datatype ReleaseCategory = EarlyAccessReleaseCategory | StableReleaseCategory

datatype FileIdentifier = PackageIdentifier | InstallerIdentifier

definition trim_lower :: "string \<Rightarrow> string" where
  "trim_lower s =
     (let ws = (\<lambda>c. c \<in> {CHR '' '', CHR 0x09, CHR 0x0A, CHR 0x0B, CHR 0x0C, CHR 0x0D}) in
      rev (dropWhile ws (rev (dropWhile ws (map to_lower s)))))"

definition ParseFileIdentifier :: "string \<Rightarrow> FileIdentifier option" where
  "ParseFileIdentifier s =
     (if trim_lower s = ''package'' then Some PackageIdentifier
      else if trim_lower s = ''installer'' then Some InstallerIdentifier else None)"

fun FileIdentifier_String :: "FileIdentifier \<Rightarrow> string" where
  "FileIdentifier_String PackageIdentifier = ''package''"
| "FileIdentifier_String InstallerIdentifier = ''installer''"

definition ParseReleaseCategory :: "string \<Rightarrow> ReleaseCategory option" where
  "ParseReleaseCategory s =
     (if trim_lower s = ''earlyaccess'' then Some EarlyAccessReleaseCategory
      else if trim_lower s = ''stable'' then Some StableReleaseCategory else None)"

fun ReleaseCategory_String :: "ReleaseCategory \<Rightarrow> string" where
  "ReleaseCategory_String EarlyAccessReleaseCategory = ''EarlyAccess''"
| "ReleaseCategory_String StableReleaseCategory = ''Stable''"

definition UpdateEligible :: "ReleaseCategory \<Rightarrow> Channel \<Rightarrow> bool" where
  "UpdateEligible rc channel =
     (if channel = StableChannel \<and> rc = StableReleaseCategory then True
      else if channel = EarlyChannel \<and> rc = EarlyAccessReleaseCategory \<or> rc = StableReleaseCategory then True
      else False)"

record SystemVersion =
  Minimum :: string
  Maximum :: string

record update_file =
  uf_URL :: string
  uf_Identifier :: FileIdentifier

text \<open>A version that the file does not give is a nil pointer (\<open>None\<close>).\<close>

record 'v Release =
  rl_ReleaseCategory :: ReleaseCategory
  rl_Version :: "'v option"
  rl_SystemVersion :: SystemVersion
  rl_RolloutProportion :: float64
  rl_MinAuto :: "'v option"
  rl_File :: "update_file list"

text \<open>The comparison \<^verbatim>\<open><\<close> of two numbers in the IEEE format.\<close>

definition is_nan :: "float64 \<Rightarrow> bool" where
  "is_nan x \<longleftrightarrow> 0x7FF0000000000000 < uint (take_bit 63 x)"

definition float_key :: "float64 \<Rightarrow> int" where
  "float_key x = (if bit x 63 then - uint (take_bit 63 x) else uint (take_bit 63 x))"

definition float_less :: "float64 \<Rightarrow> float64 \<Rightarrow> bool" where
  "float_less a b \<longleftrightarrow> \<not> is_nan a \<and> \<not> is_nan b \<and> float_key a < float_key b"

subsection \<open>The version of the system\<close>

text \<open>
  \<open>IsHostVersionEligible\<close> on macOS: whether to go on, and whether there was an error. On the other systems the answer is always to go on.
\<close>

fun compare_versions :: "int list \<Rightarrow> string list \<Rightarrow> int + unit" where
  "compare_versions (h # hs) (m # ms) =
     (case Atoi m of
        None \<Rightarrow> Inr ()
      | Some n \<Rightarrow> if h < n then Inl (-1) else if h > n then Inl 1 else compare_versions hs ms)"
| "compare_versions _ _ = Inl 0"

definition compareMinimumVersion :: "int list \<Rightarrow> string \<Rightarrow> bool \<times> bool" where
  "compareMinimumVersion hostVersion minVersion =
     (case compare_versions hostVersion (Split minVersion CHR ''.'') of
        Inr _ \<Rightarrow> (False, True)
      | Inl c \<Rightarrow> (0 \<le> c, False))"

definition compareMaximumVersion :: "int list \<Rightarrow> string \<Rightarrow> bool \<times> bool" where
  "compareMaximumVersion hostVersion maxVersion =
     (case compare_versions hostVersion (Split maxVersion CHR ''.'') of
        Inr _ \<Rightarrow> (False, True)
      | Inl c \<Rightarrow> (c \<le> 0, False))"

fun all_Atoi :: "string list \<Rightarrow> int list option" where
  "all_Atoi [] = Some []"
| "all_Atoi (s # ss) = (case Atoi s of None \<Rightarrow> None | Some n \<Rightarrow> map_option ((#) n) (all_Atoi ss))"

definition IsHostVersionEligible :: "string \<Rightarrow> SystemVersion \<Rightarrow> bool \<times> bool" where
  "IsHostVersionEligible hostVersion sysVer =
     (if Minimum sysVer = [] \<and> Maximum sysVer = [] then (True, False)
      else if hostVersion = [] then (True, True)
      else case all_Atoi (Split hostVersion CHR ''.'') of
             None \<Rightarrow> (True, True)
           | Some host \<Rightarrow>
               let lower = (if Minimum sysVer = [] then (True, False) else compareMinimumVersion host (Minimum sysVer));
                   upper = (if Maximum sysVer = [] then (True, False) else compareMaximumVersion host (Maximum sysVer)) in
               if \<not> fst lower then (False, True)
               else if \<not> fst upper then (False, True)
               else (True, False))"

definition IsHostVersionEligible_default :: "SystemVersion \<Rightarrow> bool \<times> bool" where
  "IsHostVersionEligible_default sysVer = (True, False)"

subsection \<open>Choosing a release\<close>

datatype 'v update_event =
    UpdateLatest "'v Release"
  | UpdateAvailable "'v Release" bool bool
  | UpdateNotAvailable
  | UpdateCheckFailed
  | UpdateFailed "'v Release" bool
  | UpdateInstalled "'v Release" bool

record 'v installJob =
  ij_Release :: "'v Release"
  ij_Silent :: bool

text \<open>The settings of the vault, the version of the bridge, and the check of the system (\<open>None\<close> when the host cannot be read).\<close>

record 'v update_config =
  uc_channel :: Channel
  uc_rollout :: float64
  uc_autoUpdate :: bool
  uc_curVersion :: 'v
  uc_eligible :: "(SystemVersion \<Rightarrow> bool \<times> bool) option"

definition system_refuses :: "'v update_config \<Rightarrow> 'v Release \<Rightarrow> bool" where
  "system_refuses C r =
     (case uc_eligible C of
        None \<Rightarrow> False
      | Some elig \<Rightarrow>
          (case elig (rl_SystemVersion r) of
             (shouldContinue, err) \<Rightarrow> if err \<and> shouldContinue then False else if err then True else \<not> shouldContinue))"

definition needs_newer :: "'v semver \<Rightarrow> 'v update_config \<Rightarrow> 'v Release \<Rightarrow> bool" where
  "needs_newer S C r = (case rl_MinAuto r of None \<Rightarrow> False | Some m \<Rightarrow> LessThan S (uc_curVersion C) m)"

text \<open>
  What the loop over the releases ends with: an update to announce, one to install, or none, with the best release that asks for a newer
  bridge. The outer \<open>None\<close> is the panic on a missing version.
\<close>

datatype 'v release_choice = Announce "'v Release" | Install "'v Release" | NoRelease "'v Release"

fun release_loop :: "'v semver \<Rightarrow> 'v update_config \<Rightarrow> 'v Release \<Rightarrow> 'v Release list \<Rightarrow> 'v release_choice option" where
  "release_loop S C best [] = Some (NoRelease best)"
| "release_loop S C best (r # rs) =
     (if \<not> UpdateEligible (rl_ReleaseCategory r) (uc_channel C) then release_loop S C best rs
      else case rl_Version r of
             None \<Rightarrow> None
           | Some v \<Rightarrow>
               if \<not> GreaterThan S v (uc_curVersion C) then release_loop S C best rs
               else if float_less (rl_RolloutProportion r) (uc_rollout C) then release_loop S C best rs
               else if system_refuses C r then release_loop S C best rs
               else if needs_newer S C r then release_loop S C (if GreaterThan S v (the (rl_Version best)) then r else best) rs
               else if IndexFunc (\<lambda>f. uf_Identifier f = PackageIdentifier) (rl_File r) = None then release_loop S C best rs
               else if \<not> uc_autoUpdate C then Some (Announce r)
               else Some (Install r))"

definition emptyRelease :: "'v semver \<Rightarrow> 'v Release" where
  "emptyRelease S = \<lparr>rl_ReleaseCategory = EarlyAccessReleaseCategory, rl_Version = Some (sv_zero S), rl_SystemVersion = \<lparr>Minimum = [], Maximum = []\<rparr>,
     rl_RolloutProportion = 0, rl_MinAuto = None, rl_File = []\<rparr>"

text \<open>What \<open>handleUpdate\<close> publishes, and the job it sends to the installing task.\<close>

definition handleUpdate :: "'v semver \<Rightarrow> 'v update_config \<Rightarrow> 'v Release list \<Rightarrow> ('v update_event list \<times> 'v installJob option) option" where
  "handleUpdate S C releases =
     (let latest = (case releases of [] \<Rightarrow> [] | r # _ \<Rightarrow> [UpdateLatest r]) in
      case release_loop S C (emptyRelease S) releases of
        None \<Rightarrow> None
      | Some (Announce r) \<Rightarrow> Some (latest @ [UpdateAvailable r True False], None)
      | Some (Install r) \<Rightarrow> Some (latest, Some \<lparr>ij_Release = r, ij_Silent = True\<rparr>)
      | Some (NoRelease best) \<Rightarrow>
          Some (latest @ (if \<not> sv_Equal S (the (rl_Version best)) (sv_zero S) then [UpdateAvailable best False False] else []) @ [UpdateNotAvailable], None))"

subsection \<open>Installing\<close>

datatype 'e update_err =
    ErrDownloadVerify 'e
  | ErrInstall "'e version_err"
  | ErrUpdateAlreadyInstalled
  | ErrVersionFileDownloadOrVerify 'e
  | ErrJSON
  | ErrReleaseUpdatePackageMissing

definition product_host :: string where "product_host = ''https://proton.me/download''"

definition getVersionFileURL :: "string \<Rightarrow> string \<Rightarrow> string" where
  "getVersionFileURL product platform =
     (if platform = ''darwin'' then product_host @ ''/'' @ product @ ''/'' @ platform @ ''/universal/v1/version.json''
      else product_host @ ''/'' @ product @ ''/'' @ platform @ ''/x86/v1/version.json'')"

text \<open>\<open>download url sig\<close> is the download with its verification.\<close>

definition GetVersionInfo ::
  "(string \<Rightarrow> string \<Rightarrow> 'e + bytes) \<Rightarrow> (bytes \<Rightarrow> 'v Release list option) \<Rightarrow> string \<Rightarrow> string \<Rightarrow> 'e update_err + 'v Release list" where
  "GetVersionInfo download json product platform =
     (case download (getVersionFileURL product platform) (getVersionFileURL product platform @ ''.sig'') of
        Inl e \<Rightarrow> Inl (ErrVersionFileDownloadOrVerify e)
      | Inr b \<Rightarrow> (case json b of None \<Rightarrow> Inl ErrJSON | Some releases \<Rightarrow> Inr releases))"

text \<open>
  What installing meets: the download, the unpacking (the archive, the sizes of reads, the calls of the operating system) and the state of
  the disk.
\<close>

record ('v, 'e) install_world =
  iw_download :: "string \<Rightarrow> string \<Rightarrow> 'e + bytes"
  iw_gunzip :: "bytes \<Rightarrow> 'e + 'e tar_item list"
  iw_reads :: "nat \<Rightarrow> nat"
  iw_os :: "untar_op \<Rightarrow> 'e option"
  iw_disk :: "'e disk_world"
  iw_root :: "string list"

definition IsAlreadyInstalled :: "'v semver \<Rightarrow> 'e disk_world \<Rightarrow> updates_dir \<Rightarrow> 'v \<Rightarrow> bool" where
  "IsAlreadyInstalled S w d version = (case ListVersions S w d of Inl e \<Rightarrow> False | Inr versions \<Rightarrow> HasVersion S versions version)"

definition Updater_InstallUpdate ::
  "'v semver \<Rightarrow> ('v, 'e) install_world \<Rightarrow> 'v \<Rightarrow> 'v Release \<Rightarrow> updates_dir \<Rightarrow> 'e update_err option \<times> updates_dir" where
  "Updater_InstallUpdate S W version release d =
     (if IsAlreadyInstalled S (iw_disk W) d version then (Some ErrUpdateAlreadyInstalled, d)
      else case IndexFunc (\<lambda>f. uf_Identifier f = PackageIdentifier) (rl_File release) of
             None \<Rightarrow> (Some ErrReleaseUpdatePackageMissing, d)
           | Some idx \<Rightarrow>
               let url = uf_URL (rl_File release ! idx) in
               case iw_download W url (url @ ''.sig'') of
                 Inl e \<Rightarrow> (Some (ErrDownloadVerify e), d)
               | Inr b \<Rightarrow>
                   (case InstallNewVersion S (iw_gunzip W) (iw_reads W) (iw_os W) (iw_root W) version b of
                      (Some e, ops) \<Rightarrow> (Some (ErrInstall e), fold (apply_op (iw_root W)) ops d)
                    | (None, ops) \<Rightarrow> (None, fold (apply_op (iw_root W)) ops d)))"

record 'v update_state =
  us_newVersion :: 'v
  us_published :: "'v update_event list"
  us_disk :: updates_dir

definition publish_update :: "'v update_event \<Rightarrow> 'v update_state \<Rightarrow> 'v update_state" where
  "publish_update ev s = s\<lparr>us_published := us_published s @ [ev]\<rparr>"

text \<open>\<open>installUpdate\<close>, under the write lock; the outer \<open>None\<close> is the panic on a job without a version.\<close>

definition installUpdate :: "'v semver \<Rightarrow> ('v, 'e) install_world \<Rightarrow> 'v installJob \<Rightarrow> 'v update_state \<Rightarrow> 'v update_state option" where
  "installUpdate S W job s =
     (case rl_Version (ij_Release job) of
        None \<Rightarrow> None
      | Some v \<Rightarrow>
          if \<not> GreaterThan S v (us_newVersion s) then Some s
          else let s1 = publish_update (UpdateAvailable (ij_Release job) True (ij_Silent job)) s in
               case Updater_InstallUpdate S W v (ij_Release job) (us_disk s1) of
                 (err, d) \<Rightarrow>
                   let s2 = s1\<lparr>us_disk := d\<rparr> in
                   Some (case err of
                           Some ErrReleaseUpdatePackageMissing \<Rightarrow> s2
                         | Some (ErrDownloadVerify e) \<Rightarrow> s2
                         | Some ErrUpdateAlreadyInstalled \<Rightarrow> s2
                         | Some e \<Rightarrow> publish_update (UpdateFailed (ij_Release job) (ij_Silent job)) s2
                         | None \<Rightarrow> (publish_update (UpdateInstalled (ij_Release job) (ij_Silent job)) s2)\<lparr>us_newVersion := v\<rparr>))"

subsection \<open>The two tasks\<close>

text \<open>
  The task that checks for updates sends its job on a channel without a buffer while it holds the read lock of the new version. The
  installing task receives jobs, from it and from \<open>InstallUpdate\<close>, and takes the write lock for each. A writer that waits keeps new readers
  out.
\<close>

datatype 'v checker = CIdle | CWaiting "'v installJob" | CSending "'v installJob" | CReleasing

datatype 'v installer = IIdle | IReceived "'v installJob" | ILocking "'v installJob" | IInstalling "'v installJob"

record 'v update_sys =
  sys_checker :: "'v checker"
  sys_installer :: "'v installer"
  sys_manual :: "'v installJob list"
  sys_state :: "'v update_state"

definition update_check :: "'v semver \<Rightarrow> 'v update_config \<Rightarrow> 'e update_err + 'v Release list \<Rightarrow> 'v update_sys \<Rightarrow> 'v update_sys option" where
  "update_check S C version s =
     (case version of
        Inl err \<Rightarrow> Some (s\<lparr>sys_state := publish_update UpdateCheckFailed (sys_state s)\<rparr>)
      | Inr releases \<Rightarrow>
          map_option (\<lambda>(evs, job). s\<lparr>sys_state := fold publish_update evs (sys_state s),
                                      sys_checker := (case job of None \<Rightarrow> CIdle | Some j \<Rightarrow> CWaiting j)\<rparr>) (handleUpdate S C releases))"

inductive update_step :: "'v semver \<Rightarrow> 'v update_config \<Rightarrow> 'v update_sys \<Rightarrow> 'v update_sys \<Rightarrow> bool" for S C where
  check: "sys_checker s = CIdle \<Longrightarrow> update_check S C (version :: string update_err + 'v Release list) s = Some s' \<Longrightarrow> update_step S C s s'"
| rlock: "sys_checker s = CWaiting j \<Longrightarrow> sys_installer s \<in> {IIdle, IReceived i} \<Longrightarrow> update_step S C s (s\<lparr>sys_checker := CSending j\<rparr>)"
| send: "sys_checker s = CSending j \<Longrightarrow> sys_installer s = IIdle \<Longrightarrow>
    update_step S C s (s\<lparr>sys_checker := CReleasing, sys_installer := IReceived j\<rparr>)"
| release: "sys_checker s = CReleasing \<Longrightarrow> update_step S C s (s\<lparr>sys_checker := CIdle\<rparr>)"
| request: "update_step S C s (s\<lparr>sys_manual := sys_manual s @ [\<lparr>ij_Release = r, ij_Silent = False\<rparr>]\<rparr>)"
| manual: "sys_manual s = j # js \<Longrightarrow> sys_installer s = IIdle \<Longrightarrow> update_step S C s (s\<lparr>sys_manual := js, sys_installer := IReceived j\<rparr>)"
| lock: "sys_installer s = IReceived j \<Longrightarrow> update_step S C s (s\<lparr>sys_installer := ILocking j\<rparr>)"
| acquire: "sys_installer s = ILocking j \<Longrightarrow> sys_checker s \<in> {CIdle, CWaiting i} \<Longrightarrow> update_step S C s (s\<lparr>sys_installer := IInstalling j\<rparr>)"
| install: "sys_installer s = IInstalling j \<Longrightarrow> installUpdate S (W :: ('v, string) install_world) j (sys_state s) = Some st \<Longrightarrow>
    update_step S C s (s\<lparr>sys_installer := IIdle, sys_state := st\<rparr>)"

definition update_start :: "'v update_config \<Rightarrow> 'v update_sys \<Rightarrow> bool" where
  "update_start C s \<longleftrightarrow> sys_checker s = CIdle \<and> sys_installer s = IIdle \<and> sys_manual s = [] \<and>
     us_newVersion (sys_state s) = uc_curVersion C \<and> us_published (sys_state s) = []"

subsection \<open>The release that is taken\<close>

definition acceptable :: "'v semver \<Rightarrow> 'v update_config \<Rightarrow> 'v Release \<Rightarrow> bool" where
  "acceptable S C r \<longleftrightarrow> UpdateEligible (rl_ReleaseCategory r) (uc_channel C) \<and> GreaterThan S (the (rl_Version r)) (uc_curVersion C) \<and>
     \<not> float_less (rl_RolloutProportion r) (uc_rollout C) \<and>
     (\<forall>elig. uc_eligible C = Some elig \<longrightarrow> fst (elig (rl_SystemVersion r))) \<and>
     (\<forall>m. rl_MinAuto r = Some m \<longrightarrow> \<not> LessThan S (uc_curVersion C) m) \<and> (\<exists>f \<in> set (rl_File r). uf_Identifier f = PackageIdentifier)"

lemma acceptable_iff:
  "acceptable S C r \<longleftrightarrow> UpdateEligible (rl_ReleaseCategory r) (uc_channel C) \<and> GreaterThan S (the (rl_Version r)) (uc_curVersion C) \<and>
     \<not> float_less (rl_RolloutProportion r) (uc_rollout C) \<and> \<not> system_refuses C r \<and> \<not> needs_newer S C r \<and>
     IndexFunc (\<lambda>f. uf_Identifier f = PackageIdentifier) (rl_File r) \<noteq> None"
proof -
  have "system_refuses C r \<longleftrightarrow> \<not> (\<forall>elig. uc_eligible C = Some elig \<longrightarrow> fst (elig (rl_SystemVersion r)))"
    by (auto simp: system_refuses_def split: option.splits prod.splits)
  moreover have "needs_newer S C r \<longleftrightarrow> \<not> (\<forall>m. rl_MinAuto r = Some m \<longrightarrow> \<not> LessThan S (uc_curVersion C) m)"
    by (auto simp: needs_newer_def split: option.splits)
  ultimately show ?thesis by (simp add: acceptable_def IndexFunc_None)
qed

lemma release_loop_step:
  "rl_Version r = Some v \<Longrightarrow> \<exists>b. release_loop S C best (r # rs) =
     (if acceptable S C r then Some (if uc_autoUpdate C then Install r else Announce r) else release_loop S C b rs)"
  unfolding acceptable_iff by auto

lemma release_loop_choice:
  assumes "\<forall>r \<in> set rs. rl_Version r \<noteq> None"
  shows "case find (acceptable S C) rs of
      Some r \<Rightarrow> release_loop S C best rs = Some (if uc_autoUpdate C then Install r else Announce r)
    | None \<Rightarrow> \<exists>best'. release_loop S C best rs = Some (NoRelease best')"
  using assms
proof (induction rs arbitrary: best)
  case (Cons r rs)
  obtain v where "rl_Version r = Some v" using Cons.prems by auto
  from release_loop_step[OF this, of S C best rs] obtain b where b: "release_loop S C best (r # rs) =
      (if acceptable S C r then Some (if uc_autoUpdate C then Install r else Announce r) else release_loop S C b rs)" ..
  show ?case unfolding b using Cons.IH[of b] Cons.prems by (cases "acceptable S C r") simp_all
qed simp

text \<open>
  Property C20. With automatic updates, the bridge installs the newest release that it may install. When the version file lists the releases
  from the newest on, a job is sent exactly if some release of the channel is newer than the bridge, rolled out to it, fits the system, asks for
  no newer bridge and has a package; the job is for the newest of these.
\<close>

theorem auto_update_takes_newest:
  assumes "semver_ok S" "\<forall>r \<in> set rs. rl_Version r \<noteq> None" "uc_autoUpdate C"
    and "sorted_wrt (\<lambda>a b. 0 \<le> sv_Compare S (the (rl_Version a)) (the (rl_Version b))) rs"
  shows "\<exists>evs job. handleUpdate S C rs = Some (evs, job) \<and>
    (case job of
       None \<Rightarrow> \<forall>r \<in> set rs. \<not> acceptable S C r
     | Some j \<Rightarrow> ij_Release j \<in> set rs \<and> acceptable S C (ij_Release j) \<and>
         (\<forall>r \<in> set rs. acceptable S C r \<longrightarrow> \<not> GreaterThan S (the (rl_Version r)) (the (rl_Version (ij_Release j)))))"
proof (cases "find (acceptable S C) rs")
  case None
  then have "\<forall>r \<in> set rs. \<not> acceptable S C r" by (simp add: find_None_iff)
  then show ?thesis using release_loop_choice[OF assms(2), of S C "emptyRelease S"] None by (auto simp: handleUpdate_def Let_def)
next
  case (Some r)
  obtain us ws where s: "rs = us @ r # ws" "acceptable S C r" "\<forall>x \<in> set us. \<not> acceptable S C x"
  proof -
    obtain i where i: "i < length rs" "acceptable S C (rs ! i)" "r = rs ! i" "\<forall>j < i. \<not> acceptable S C (rs ! j)"
      using Some by (auto simp: find_Some_iff)
    have "rs = take i rs @ r # drop (Suc i) rs" using id_take_nth_drop[OF i(1)] i(3) by simp
    moreover have "\<forall>x \<in> set (take i rs). \<not> acceptable S C x" using i(1,4) by (auto simp: in_set_conv_nth)
    ultimately show thesis using that i(2,3) by blast
  qed
  have "\<not> GreaterThan S (the (rl_Version x)) (the (rl_Version r))" if x: "x \<in> set rs" "acceptable S C x" for x
  proof -
    have "0 \<le> sv_Compare S (the (rl_Version r)) (the (rl_Version x))"
    proof (cases "x = r")
      case True
      then show ?thesis using semverD(2)[OF assms(1), of "the (rl_Version r)" "the (rl_Version r)"] by (cases "sv_Compare S (the (rl_Version r)) (the (rl_Version r)) < 0") auto
    next
      case False
      then have "x \<in> set ws" using x s by auto
      then show ?thesis using assms(4) s(1) by (simp add: sorted_wrt_append)
    qed
    then show ?thesis using semverD(2)[OF assms(1), of "the (rl_Version r)" "the (rl_Version x)"] by (auto simp: GreaterThan_def)
  qed
  moreover have "handleUpdate S C rs = Some (case rs of [] \<Rightarrow> [] | r # _ \<Rightarrow> [UpdateLatest r], Some \<lparr>ij_Release = r, ij_Silent = True\<rparr>)"
    using release_loop_choice[OF assms(2), of S C "emptyRelease S"] Some assms(3) by (simp add: handleUpdate_def Let_def)
  moreover have "r \<in> set rs" using s(1) by simp
  ultimately show ?thesis using s(2) by auto
qed

text \<open>
  When only releases that ask for a newer bridge are left, the manual update is announced and, right after it, that there is no update.
\<close>

theorem manual_update_also_unavailable:
  assumes "release_loop S C (emptyRelease S) rs = Some (NoRelease best)" "\<not> sv_Equal S (the (rl_Version best)) (sv_zero S)"
  shows "\<exists>latest. handleUpdate S C rs = Some (latest @ [UpdateAvailable best False False, UpdateNotAvailable], None)"
  using assms by (auto simp: handleUpdate_def Let_def)

subsection \<open>What is installed\<close>

fun installed_version :: "'v update_event \<Rightarrow> 'v option" where
  "installed_version (UpdateInstalled r silent) = rl_Version r"
| "installed_version _ = None"

abbreviation installed :: "'v update_state \<Rightarrow> 'v list" where
  "installed st \<equiv> List.map_filter installed_version (us_published st)"

definition ascending :: "'v semver \<Rightarrow> 'v \<Rightarrow> 'v update_state \<Rightarrow> bool" where
  "ascending S cur st \<longleftrightarrow> sorted_wrt (\<lambda>a b. GreaterThan S b a) (cur # installed st) \<and> us_newVersion st = last (cur # installed st)"

lemma map_filter_append: "List.map_filter f (xs @ ys) = List.map_filter f xs @ List.map_filter f ys"
  by (simp add: List.map_filter_def)

lemma publish_ascending: "installed_version ev = None \<Longrightarrow> ascending S cur (publish_update ev st) = ascending S cur st"
  by (simp add: ascending_def publish_update_def map_filter_append List.map_filter_def)

lemma GreaterThan_trans:
  assumes "semver_ok S" "GreaterThan S c b" "GreaterThan S b a"
  shows "GreaterThan S c a"
proof (rule ccontr)
  assume "\<not> GreaterThan S c a"
  then have "0 \<le> sv_Compare S a c" using semverD(2)[OF assms(1), of a c] by (auto simp: GreaterThan_def)
  then have "0 \<le> sv_Compare S a b" using semverD(1)[OF assms(1), of a c b] assms(2) by (simp add: GreaterThan_def)
  then show False using assms(3) semverD(2)[OF assms(1), of a b] by (auto simp: GreaterThan_def)
qed

lemma sorted_last:
  assumes "semver_ok S" "sorted_wrt (\<lambda>a b. GreaterThan S b a) xs" "xs \<noteq> []" "GreaterThan S v (last xs)"
  shows "sorted_wrt (\<lambda>a b. GreaterThan S b a) (xs @ [v])"
proof -
  have "GreaterThan S v x" if "x \<in> set xs" for x
  proof (cases "x = last xs")
    case False
    then have "x \<in> set (butlast xs)" using that assms(3) by (metis append_butlast_last_id in_set_conv_decomp set_append Un_iff list.set(1,2) empty_iff insert_iff)
    moreover have "sorted_wrt (\<lambda>a b. GreaterThan S b a) (butlast xs @ [last xs])" using assms(2,3) by simp
    ultimately have "GreaterThan S (last xs) x" by (simp add: sorted_wrt_append)
    then show ?thesis using GreaterThan_trans[OF assms(1,4)] by blast
  qed (use assms(4) in simp)
  then show ?thesis using assms(2) by (simp add: sorted_wrt_append)
qed

lemma installUpdate_ascending:
  assumes "semver_ok S" "ascending S cur st" "installUpdate S W job st = Some st'"
  shows "ascending S cur st'"
proof -
  obtain v where v: "rl_Version (ij_Release job) = Some v" using assms(3) by (auto simp: installUpdate_def split: option.splits)
  show ?thesis
  proof (cases "GreaterThan S v (us_newVersion st)")
    case False
    then show ?thesis using assms(2,3) v by (simp add: installUpdate_def)
  next
    case True
    let ?s1 = "publish_update (UpdateAvailable (ij_Release job) True (ij_Silent job)) st"
    obtain err d where i: "Updater_InstallUpdate S W v (ij_Release job) (us_disk ?s1) = (err, d)" by fastforce
    have disk: "ascending S cur (s\<lparr>us_disk := d\<rparr>) = ascending S cur s" for s by (simp add: ascending_def)
    have asc: "ascending S cur (?s1\<lparr>us_disk := d\<rparr>)" using assms(2) by (simp add: disk publish_ascending)
    have failed: "ascending S cur (publish_update (UpdateFailed (ij_Release job) (ij_Silent job)) (?s1\<lparr>us_disk := d\<rparr>))" using asc by (simp add: publish_ascending)
    have "ascending S cur ((publish_update (UpdateInstalled (ij_Release job) (ij_Silent job)) (?s1\<lparr>us_disk := d\<rparr>))\<lparr>us_newVersion := v\<rparr>)"
      using asc sorted_last[OF assms(1), of "cur # installed (?s1\<lparr>us_disk := d\<rparr>)" v] True v
      by (auto simp: ascending_def publish_update_def map_filter_append List.map_filter_def)
    then show ?thesis
      using assms(3) v True i asc failed by (cases err) (auto simp: installUpdate_def Let_def split: update_err.splits)
  qed
qed

lemma handleUpdate_events: "handleUpdate S C rs = Some (evs, job) \<Longrightarrow> ev \<in> set evs \<Longrightarrow> installed_version ev = None"
  by (auto simp: handleUpdate_def Let_def split: option.splits release_choice.splits list.splits if_splits)

lemma fold_publish_ascending: "(\<forall>ev \<in> set evs. installed_version ev = None) \<Longrightarrow> ascending S cur (fold publish_update evs st) = ascending S cur st"
  by (induction evs arbitrary: st) (auto simp: publish_ascending)

lemma update_step_ascending:
  assumes "semver_ok S" "update_step S C s s'" "ascending S cur (sys_state s)"
  shows "ascending S cur (sys_state s')"
  using assms(2)
proof cases
  case (check version)
  have "ascending S cur (fold publish_update evs (sys_state s))" if "handleUpdate S C rs = Some (evs, job)" for rs evs job
    using fold_publish_ascending[of evs] handleUpdate_events[OF that] assms(3) by blast
  then show ?thesis using check(2) assms(3) by (cases version) (auto simp: update_check_def publish_ascending)
next
  case (install j W st)
  then show ?thesis using installUpdate_ascending[OF assms(1,3) install(3)] by simp
qed (use assms(3) in auto)

text \<open>
  Property C16. Updates only go up. Whatever checks, manual installations and failures happen, and in whatever order the two tasks run, the
  versions that are announced as installed are newer than the running one and each newer than the one before, and the new version of the bridge is the
  last of them.
\<close>

theorem installed_versions_ascend:
  assumes "semver_ok S" "update_start C s0" "(update_step S C)\<^sup>*\<^sup>* s0 s"
  shows "sorted_wrt (\<lambda>a b. GreaterThan S b a) (uc_curVersion C # installed (sys_state s)) \<and>
    us_newVersion (sys_state s) = last (uc_curVersion C # installed (sys_state s))"
proof -
  have "ascending S (uc_curVersion C) (sys_state s0)" using assms(2) by (simp add: update_start_def ascending_def List.map_filter_def)
  with assms(3) have "ascending S (uc_curVersion C) (sys_state s)"
    by (induction rule: rtranclp_induct) (auto intro: update_step_ascending[OF assms(1)])
  then show ?thesis by (simp add: ascending_def)
qed

subsection \<open>The two tasks can block each other\<close>

lemma stuck_step:
  assumes "update_step S C s s'" "sys_checker s = CSending j" "sys_installer s = ILocking i"
  shows "sys_checker s' = CSending j \<and> sys_installer s' = ILocking i"
  using assms by (cases) auto

text \<open>
  Property C22. The tasks that check for updates and install them can block each other for ever. When a check finds an update while the
  installing task has received a manual job but not yet taken its lock, the check holds the read lock and waits for the receiver, and the
  receiver waits for the write lock: from then on neither makes a step, whatever else happens.
\<close>

theorem update_tasks_deadlock:
  assumes "update_start C s0" "handleUpdate S C releases = Some (evs, Some job)"
  shows "\<exists>s i. (update_step S C)\<^sup>*\<^sup>* s0 s \<and>
    (\<forall>s'. (update_step S C)\<^sup>*\<^sup>* s s' \<longrightarrow> sys_checker s' = CSending job \<and> sys_installer s' = ILocking i)"
proof -
  define i where "i = \<lparr>ij_Release = ij_Release job, ij_Silent = False\<rparr>"
  let ?s1 = "s0\<lparr>sys_manual := sys_manual s0 @ [i]\<rparr>"
  let ?s2 = "?s1\<lparr>sys_manual := [], sys_installer := IReceived i\<rparr>"
  let ?s3 = "?s2\<lparr>sys_state := fold publish_update evs (sys_state ?s2), sys_checker := CWaiting job\<rparr>"
  let ?s4 = "?s3\<lparr>sys_checker := CSending job\<rparr>"
  let ?s5 = "?s4\<lparr>sys_installer := ILocking i\<rparr>"
  have s0: "sys_checker s0 = CIdle" "sys_installer s0 = IIdle" "sys_manual s0 = []" using assms(1) by (simp_all add: update_start_def)
  have "update_step S C s0 ?s1" unfolding i_def by (rule update_step.request)
  moreover have "update_step S C ?s1 ?s2" by (rule update_step.manual[of _ i]) (simp_all add: s0)
  moreover have "update_step S C ?s2 ?s3" by (rule update_step.check[of _ _ _ "Inr releases"]) (simp_all add: s0 update_check_def assms(2))
  moreover have "update_step S C ?s3 ?s4" by (rule update_step.rlock[of _ _ i]) simp_all
  moreover have "update_step S C ?s4 ?s5" by (rule update_step.lock) simp
  ultimately have reach: "(update_step S C)\<^sup>*\<^sup>* s0 ?s5" by (meson converse_rtranclp_into_rtranclp rtranclp.rtrancl_refl)
  have "sys_checker s' = CSending job \<and> sys_installer s' = ILocking i" if "(update_step S C)\<^sup>*\<^sup>* ?s5 s'" for s'
    using that by (induction rule: rtranclp_induct) (use stuck_step in \<open>simp, blast\<close>)
  then show ?thesis using reach by blast
qed

subsection \<open>Witnesses\<close>

definition demo_release :: "nat Release" where
  "demo_release = \<lparr>rl_ReleaseCategory = StableReleaseCategory, rl_Version = Some 2, rl_SystemVersion = \<lparr>Minimum = [], Maximum = []\<rparr>,
     rl_RolloutProportion = 0, rl_MinAuto = None, rl_File = [\<lparr>uf_URL = ''url'', uf_Identifier = PackageIdentifier\<rparr>]\<rparr>"

definition demo_config :: "nat update_config" where
  "demo_config = \<lparr>uc_channel = StableChannel, uc_rollout = 0, uc_autoUpdate = True, uc_curVersion = 1, uc_eligible = Some (IsHostVersionEligible ''14.1'')\<rparr>"

definition demo_updates :: "nat update_sys" where
  "demo_updates = \<lparr>sys_checker = CIdle, sys_installer = IIdle, sys_manual = [], sys_state = \<lparr>us_newVersion = 1, us_published = [], us_disk = []\<rparr>\<rparr>"

lemma demo_updates_start: "update_start demo_config demo_updates"
  by (simp add: update_start_def demo_config_def demo_updates_def)

lemma demo_acceptable: "acceptable num_semver demo_config demo_release"
  by (simp add: acceptable_def demo_config_def demo_release_def UpdateEligible_def GreaterThan_def num_semver_def float_less_def IsHostVersionEligible_def)

lemma demo_handleUpdate:
  "handleUpdate num_semver demo_config [demo_release] = Some ([UpdateLatest demo_release], Some \<lparr>ij_Release = demo_release, ij_Silent = True\<rparr>)"
  using release_loop_choice[of "[demo_release]" num_semver demo_config "emptyRelease num_semver"] demo_acceptable
  by (simp add: handleUpdate_def Let_def del: release_loop.simps) (simp add: demo_release_def demo_config_def del: release_loop.simps)

theorem auto_update_takes_newest_witness:
  "\<exists>evs job. handleUpdate num_semver demo_config [demo_release] = Some (evs, job) \<and>
     (case job of None \<Rightarrow> False | Some j \<Rightarrow> acceptable num_semver demo_config (ij_Release j))"
  using auto_update_takes_newest[OF num_semver_ok, of "[demo_release]" demo_config] demo_acceptable
  by (auto simp: demo_release_def demo_config_def split: option.splits)

theorem update_tasks_deadlock_witness:
  "\<exists>s i. (update_step num_semver demo_config)\<^sup>*\<^sup>* demo_updates s \<and> sys_installer s = ILocking i"
  using update_tasks_deadlock[OF demo_updates_start demo_handleUpdate] by blast

definition demo_install :: "(nat, string) install_world" where
  "demo_install = \<lparr>iw_download = (\<lambda>_ _. Inr []), iw_gunzip = (\<lambda>_. Inr []), iw_reads = (\<lambda>_. 512), iw_os = (\<lambda>_. None), iw_disk = plain_disk,
     iw_root = [''updates'']\<rparr>"

theorem installed_versions_ascend_witness:
  "\<exists>s. (update_step num_semver demo_config)\<^sup>*\<^sup>* demo_updates s \<and> installed (sys_state s) = [2] \<and>
     sorted_wrt (\<lambda>a b. GreaterThan num_semver b a) [1, 2]"
proof -
  let ?j = "\<lparr>ij_Release = demo_release, ij_Silent = False\<rparr>"
  let ?s1 = "demo_updates\<lparr>sys_manual := sys_manual demo_updates @ [?j]\<rparr>"
  let ?s2 = "?s1\<lparr>sys_manual := [], sys_installer := IReceived ?j\<rparr>"
  let ?s3 = "?s2\<lparr>sys_installer := ILocking ?j\<rparr>"
  let ?s4 = "?s3\<lparr>sys_installer := IInstalling ?j\<rparr>"
  have "Updater_InstallUpdate num_semver demo_install 2 demo_release [] = (None, [])"
    by (simp add: Updater_InstallUpdate_def IsAlreadyInstalled_def demo_install_def ListVersions_def HasVersion_def plain_disk_def demo_release_def
        InstallNewVersion_def UntarToDir_def)
  moreover have v: "rl_Version demo_release = Some 2" "GreaterThan num_semver 2 1" by (simp_all add: demo_release_def GreaterThan_def num_semver_def)
  ultimately have "\<exists>st. installUpdate num_semver demo_install ?j (sys_state ?s4) = Some st \<and> installed st = [2]"
    by (simp add: installUpdate_def demo_updates_def publish_update_def List.map_filter_def Let_def)
  then obtain st where st: "installUpdate num_semver demo_install ?j (sys_state ?s4) = Some st" "installed st = [2]" by blast
  have "update_step num_semver demo_config demo_updates ?s1" by (rule update_step.request)
  moreover have "update_step num_semver demo_config ?s1 ?s2" by (rule update_step.manual[of _ ?j]) (simp_all add: demo_updates_def)
  moreover have "update_step num_semver demo_config ?s2 ?s3" by (rule update_step.lock) simp
  moreover have "update_step num_semver demo_config ?s3 ?s4" by (rule update_step.acquire[of _ _ ?j]) (simp_all add: demo_updates_def)
  moreover have "update_step num_semver demo_config ?s4 (?s4\<lparr>sys_installer := IIdle, sys_state := st\<rparr>)"
    by (rule update_step.install[OF _ st(1)]) simp
  ultimately have r: "(update_step num_semver demo_config)\<^sup>*\<^sup>* demo_updates (?s4\<lparr>sys_installer := IIdle, sys_state := st\<rparr>)"
    by (meson converse_rtranclp_into_rtranclp rtranclp.rtrancl_refl)
  from installed_versions_ascend[OF num_semver_ok demo_updates_start r] st(2) r show ?thesis by (auto simp: demo_config_def)
qed

end
